(* ===== verification/Prelude.thy ===== *)
theory Prelude
  imports Main "HOL-Library.Word"
begin

text \<open>
  Shared vocabulary of the development: machine integers as words, byte strings, Rust's
  \<^verbatim>\<open>Result\<close> as a sum type, consuming readers (a reader takes the unread bytes and
  returns a value with the bytes left over), the big- and little-endian byte conversions of
  the integer types, the \<^verbatim>\<open>chunks\<close> and \<^verbatim>\<open>chunks_exact\<close> iterators of slices, and two
  interfaces that several components implement: a self-delimiting codec and a buffered
  block-wise absorber.
\<close>

named_theorems reader_simps \<open>unfolding rules of the reader combinators\<close>

section \<open>Types\<close>

type_synonym u8 = "8 word"
type_synonym u16 = "16 word"
type_synonym u32 = "32 word"
type_synonym u64 = "64 word"
type_synonym bytes = "u8 list"
type_synonym ('e, 'a) result = "'e + 'a"
type_synonym ('e, 'a) reader = "bytes \<Rightarrow> ('e, 'a \<times> bytes) result"

section \<open>Definitions\<close>

text \<open>The \<^verbatim>\<open>?\<close> operator on results, and the same on readers.\<close>

definition rbind :: "('e, 'a) result \<Rightarrow> ('a \<Rightarrow> ('e, 'b) result) \<Rightarrow> ('e, 'b) result" where
  "rbind m f = (case m of Inl e \<Rightarrow> Inl e | Inr a \<Rightarrow> f a)"

definition check :: "bool \<Rightarrow> 'e \<Rightarrow> ('e, unit) result" where
  "check b e = (if b then Inr () else Inl e)"

definition pret :: "'a \<Rightarrow> ('e, 'a) reader" where
  "pret a = (\<lambda>r. Inr (a, r))"

definition pfail :: "'e \<Rightarrow> ('e, 'a) reader" where
  "pfail e = (\<lambda>_. Inl e)"

definition pbind :: "('e, 'a) reader \<Rightarrow> ('a \<Rightarrow> ('e, 'b) reader) \<Rightarrow> ('e, 'b) reader" where
  "pbind p f = (\<lambda>r. case p r of Inl e \<Rightarrow> Inl e | Inr ar \<Rightarrow> f (fst ar) (snd ar))"

text \<open>A loop \<^verbatim>\<open>for _ in 0..n\<close> that pushes what a reader returns.\<close>

primrec preplicate :: "nat \<Rightarrow> ('e, 'a) reader \<Rightarrow> ('e, 'a list) reader" where
  "preplicate 0 p = pret []"
| "preplicate (Suc n) p = pbind p (\<lambda>x. pbind (preplicate n p) (\<lambda>xs. pret (x # xs)))"

text \<open>
  \<^verbatim>\<open>to_le_bytes\<close>, \<^verbatim>\<open>to_be_bytes\<close>, \<^verbatim>\<open>from_le_bytes\<close>, \<^verbatim>\<open>from_be_bytes\<close> of the
  unsigned integer types, computed on words; \<open>le_digits\<close> and \<open>le_val\<close> are the same on natural
  numbers, for the proofs.
\<close>

primrec le_digits :: "nat \<Rightarrow> nat \<Rightarrow> bytes" where
  "le_digits 0 v = []"
| "le_digits (Suc n) v = of_nat (v mod 256) # le_digits n (v div 256)"

primrec le_val :: "bytes \<Rightarrow> nat" where
  "le_val [] = 0"
| "le_val (b # bs) = unat b + 256 * le_val bs"

definition be_val :: "bytes \<Rightarrow> nat" where
  "be_val bs = le_val (rev bs)"

primrec le_split :: "nat \<Rightarrow> 'a::len word \<Rightarrow> bytes" where
  "le_split 0 w = []"
| "le_split (Suc n) w = ucast w # le_split n (drop_bit 8 w)"

primrec le_join :: "bytes \<Rightarrow> 'a::len word" where
  "le_join [] = 0"
| "le_join (b # bs) = ucast b + 256 * le_join bs"

definition to_le_bytes :: "'a::len word \<Rightarrow> bytes" where
  "to_le_bytes w = le_split (LENGTH('a) div 8) w"

definition to_be_bytes :: "'a::len word \<Rightarrow> bytes" where
  "to_be_bytes w = rev (le_split (LENGTH('a) div 8) w)"

definition from_le_bytes :: "bytes \<Rightarrow> 'a::len word" where
  "from_le_bytes bs = le_join bs"

definition from_be_bytes :: "bytes \<Rightarrow> 'a::len word" where
  "from_be_bytes bs = le_join (rev bs)"

text \<open>Rust's \<^verbatim>\<open>saturating_sub\<close>, \<^verbatim>\<open>checked_add\<close> and \<^verbatim>\<open>checked_sub\<close> on unsigned integers.\<close>

definition saturating_sub :: "'a::len word \<Rightarrow> 'a word \<Rightarrow> 'a word" where
  "saturating_sub a b = (if a < b then 0 else a - b)"

definition checked_add :: "'a::len word \<Rightarrow> 'a word \<Rightarrow> 'a word option" where
  "checked_add a b = (if unat a + unat b < 2 ^ LENGTH('a) then Some (a + b) else None)"

definition checked_sub :: "'a::len word \<Rightarrow> 'a word \<Rightarrow> 'a word option" where
  "checked_sub a b = (if b \<le> a then Some (a - b) else None)"

text \<open>\<^verbatim>\<open>chunks_exact(n)\<close>, its \<^verbatim>\<open>remainder()\<close>, and \<^verbatim>\<open>chunks(n)\<close>.\<close>

function chunks_exact :: "nat \<Rightarrow> 'a list \<Rightarrow> 'a list list" where
  "chunks_exact n xs =
     (if n = 0 \<or> length xs < n then [] else take n xs # chunks_exact n (drop n xs))"
  by pat_completeness auto
termination
  by (relation "measure (\<lambda>(n, xs). length xs)") auto

definition chunks_remainder :: "nat \<Rightarrow> 'a list \<Rightarrow> 'a list" where
  "chunks_remainder n xs = drop (n * (length xs div n)) xs"

function chunks :: "nat \<Rightarrow> 'a list \<Rightarrow> 'a list list" where
  "chunks n xs = (if n = 0 \<or> xs = [] then [] else take n xs # chunks n (drop n xs))"
  by pat_completeness auto
termination
  by (relation "measure (\<lambda>(n, xs). length xs)") auto

declare chunks_exact.simps [simp del] chunks.simps [simp del]

text \<open>\<^verbatim>\<open>dst[at..at + src.len()].copy_from_slice(src)\<close>.\<close>

definition copy_into :: "'a list \<Rightarrow> nat \<Rightarrow> 'a list \<Rightarrow> 'a list" where
  "copy_into dst at src = take at dst @ src @ drop (at + length src) dst"

section \<open>Results and readers\<close>

lemma rbind_simps [simp]:
  "rbind (Inl e) f = Inl e"
  "rbind (Inr a) f = f a"
  by (simp_all add: rbind_def)

lemma rbind_eq_Inr: "rbind m f = Inr b \<longleftrightarrow> (\<exists>a. m = Inr a \<and> f a = Inr b)"
  by (cases m) auto

lemma rbind_eq_Inl: "rbind m f = Inl e \<longleftrightarrow> m = Inl e \<or> (\<exists>a. m = Inr a \<and> f a = Inl e)"
  by (cases m) auto

lemma check_simps [simp]:
  "check True e = Inr ()" "check False e = Inl e"
  by (simp_all add: check_def)

lemma check_eq_Inr [simp]: "check b e = Inr u \<longleftrightarrow> b"
  by (cases b) auto

lemma check_eq_Inl [simp]: "check b e = Inl e' \<longleftrightarrow> \<not> b \<and> e' = e"
  by (cases b) auto

lemma pret_apply [reader_simps]: "pret a r = Inr (a, r)"
  by (simp add: pret_def)

lemma pfail_apply [reader_simps]: "pfail e r = Inl e"
  by (simp add: pfail_def)

lemma pbind_apply [reader_simps]:
  "pbind p f r = rbind (p r) (\<lambda>ar. f (fst ar) (snd ar))"
  by (simp add: pbind_def rbind_def)

lemma pbind_Inr: "p r = Inr (a, r') \<Longrightarrow> pbind p f r = f a r'"
  by (simp add: reader_simps)

lemma pbind_eq_Inr: "pbind p f r = Inr x \<longleftrightarrow> (\<exists>a r'. p r = Inr (a, r') \<and> f a r' = Inr x)"
  by (cases "p r") (auto simp: reader_simps)

section \<open>Endian conversions\<close>

lemma unat_u8_less: "unat (b :: u8) < 256"
  using unsigned_less [of b] by simp

lemma length_le_digits [simp]: "length (le_digits n v) = n"
  by (induction n arbitrary: v) auto

lemma le_val_le_digits: "le_val (le_digits n v) = v mod 256 ^ n"
proof (induction n arbitrary: v)
  case (Suc n)
  have "unat (of_nat (v mod 256) :: u8) = v mod 256"
    by (simp add: unat_of_nat)
  moreover have "v mod 256 + 256 * (v div 256 mod 256 ^ n) = v mod (256 * 256 ^ n)"
    by (simp add: mod_mult2_eq)
  ultimately show ?case using Suc.IH by simp
qed simp

lemma le_val_bound: "le_val bs < 256 ^ length bs"
proof (induction bs)
  case (Cons b bs)
  have "unat b < 256" by (rule unat_u8_less)
  with Cons show ?case by simp
qed simp

lemma le_digits_le_val: "le_digits (length bs) (le_val bs) = bs"
proof (induction bs)
  case (Cons b bs)
  have "unat b < 256" by (rule unat_u8_less)
  with Cons show ?case by simp
qed simp

lemma le_val_inject: "length as = length bs \<Longrightarrow> le_val as = le_val bs \<Longrightarrow> as = bs"
  by (metis le_digits_le_val)

lemma be_val_bound: "be_val bs < 256 ^ length bs"
  using le_val_bound [of "rev bs"] by (simp add: be_val_def)

lemma le_split_digits: "le_split n w = le_digits n (unat w)"
proof (induction n arbitrary: w)
  case (Suc n)
  have "(ucast w :: u8) = of_nat (unat w mod 256)"
    by (simp add: word_unat_eq_iff unsigned_ucast_eq unat_of_nat take_bit_eq_mod)
  moreover have "unat (drop_bit 8 w) = unat w div 256"
    by (simp only: unat_drop_bit_eq) (simp add: drop_bit_eq_div)
  ultimately show ?case using Suc.IH by simp
qed simp

lemma le_join_val: "le_join bs = of_nat (le_val bs)"
  by (induction bs) simp_all

lemma to_le_bytes_digits: "to_le_bytes (w :: 'a::len word) = le_digits (LENGTH('a) div 8) (unat w)"
  by (simp add: to_le_bytes_def le_split_digits)

lemma to_be_bytes_digits:
  "to_be_bytes (w :: 'a::len word) = rev (le_digits (LENGTH('a) div 8) (unat w))"
  by (simp add: to_be_bytes_def le_split_digits)

lemma from_le_bytes_val: "from_le_bytes bs = of_nat (le_val bs)"
  by (simp add: from_le_bytes_def le_join_val)

lemma from_be_bytes_val: "from_be_bytes bs = of_nat (be_val bs)"
  by (simp add: from_be_bytes_def le_join_val be_val_def)

lemma length_to_le_bytes: "length (to_le_bytes (w :: 'a::len word)) = LENGTH('a) div 8"
  by (simp add: to_le_bytes_digits)

lemma length_to_be_bytes: "length (to_be_bytes (w :: 'a::len word)) = LENGTH('a) div 8"
  by (simp add: to_be_bytes_digits)

lemma length_to_bytes [simp]:
  "length (to_le_bytes (a :: u8)) = 1" "length (to_be_bytes (a :: u8)) = 1"
  "length (to_le_bytes (b :: u16)) = 2" "length (to_be_bytes (b :: u16)) = 2"
  "length (to_le_bytes (c :: u32)) = 4" "length (to_be_bytes (c :: u32)) = 4"
  "length (to_le_bytes (d :: u64)) = 8" "length (to_be_bytes (d :: u64)) = 8"
  by (simp_all add: length_to_le_bytes length_to_be_bytes)

lemma power_256_bytes: "8 dvd n \<Longrightarrow> (256::nat) ^ (n div 8) = 2 ^ n"
proof -
  assume "8 dvd n"
  then obtain k where n: "n = 8 * k" by auto
  have "(256::nat) ^ k = (2 ^ 8) ^ k" by simp
  then show ?thesis by (simp add: n power_mult del: power_numeral)
qed

lemma from_le_to_le:
  "8 dvd LENGTH('a) \<Longrightarrow> from_le_bytes (to_le_bytes (w :: 'a::len word)) = w"
  by (simp add: from_le_bytes_val to_le_bytes_digits le_val_le_digits power_256_bytes)

lemma from_be_to_be:
  "8 dvd LENGTH('a) \<Longrightarrow> from_be_bytes (to_be_bytes (w :: 'a::len word)) = w"
  by (simp add: from_be_bytes_val to_be_bytes_digits be_val_def le_val_le_digits power_256_bytes)

lemma to_le_from_le:
  assumes "8 dvd LENGTH('a)" and "length bs = LENGTH('a) div 8"
  shows "to_le_bytes (from_le_bytes bs :: 'a::len word) = bs"
proof -
  have "le_val bs < 2 ^ LENGTH('a)"
    using le_val_bound [of bs] assms by (simp add: power_256_bytes)
  then have "unat (of_nat (le_val bs) :: 'a word) = le_val bs"
    by (simp add: unat_of_nat)
  then show ?thesis
    using le_digits_le_val [of bs] assms by (simp add: from_le_bytes_val to_le_bytes_digits)
qed

lemma to_be_from_be:
  assumes "8 dvd LENGTH('a)" and "length bs = LENGTH('a) div 8"
  shows "to_be_bytes (from_be_bytes bs :: 'a::len word) = bs"
  using to_le_from_le [where 'a = 'a and bs = "rev bs"] assms
  by (simp add: to_be_bytes_def from_be_bytes_def to_le_bytes_def from_le_bytes_def rev_swap)

lemma from_to_bytes [simp]:
  "from_le_bytes (to_le_bytes (a :: u8)) = a" "from_be_bytes (to_be_bytes (a :: u8)) = a"
  "from_le_bytes (to_le_bytes (b :: u16)) = b" "from_be_bytes (to_be_bytes (b :: u16)) = b"
  "from_le_bytes (to_le_bytes (c :: u32)) = c" "from_be_bytes (to_be_bytes (c :: u32)) = c"
  "from_le_bytes (to_le_bytes (d :: u64)) = d" "from_be_bytes (to_be_bytes (d :: u64)) = d"
  by (simp_all add: from_le_to_le from_be_to_be)

lemma to_from_bytes:
  "length bs = 2 \<Longrightarrow> to_be_bytes (from_be_bytes bs :: u16) = bs"
  "length bs = 4 \<Longrightarrow> to_be_bytes (from_be_bytes bs :: u32) = bs"
  "length bs = 8 \<Longrightarrow> to_be_bytes (from_be_bytes bs :: u64) = bs"
  "length bs = 2 \<Longrightarrow> to_le_bytes (from_le_bytes bs :: u16) = bs"
  "length bs = 4 \<Longrightarrow> to_le_bytes (from_le_bytes bs :: u32) = bs"
  "length bs = 8 \<Longrightarrow> to_le_bytes (from_le_bytes bs :: u64) = bs"
  by (simp_all add: to_be_from_be to_le_from_le)

section \<open>Arithmetic of words\<close>

lemma unat_ucast_mod: "unat (ucast (w :: 'a::len word) :: 'b::len word) = unat w mod 2 ^ LENGTH('b)"
  by (simp add: unsigned_ucast_eq take_bit_eq_mod)

lemma unat_bounds:
  "unat (a :: u8) < 2 ^ 8" "unat (b :: u16) < 2 ^ 16" "unat (c :: u32) < 2 ^ 32" "unat (d :: u64) < 2 ^ 64"
  using unsigned_less [of a] unsigned_less [of b] unsigned_less [of c] unsigned_less [of d] by simp_all

lemma unat_up [simp]:
  "unat (ucast (a :: u8) :: u64) = unat a" "unat (ucast (b :: u16) :: u64) = unat b"
  "unat (ucast (c :: u32) :: u64) = unat c"
  using unat_bounds(1) [of a] unat_bounds(2) [of b] unat_bounds(3) [of c]
  by (simp_all only: unat_ucast_mod) simp_all

lemma ucast_up_down [simp]:
  "ucast (ucast (a :: u8) :: u64) = a" "ucast (ucast (b :: u16) :: u64) = b" "ucast (ucast (c :: u32) :: u64) = c"
  using unat_bounds(1) [of a] unat_bounds(2) [of b] unat_bounds(3) [of c]
  by (simp_all only: word_unat_eq_iff unat_ucast_mod) simp_all

lemma ucast_down_up:
  "(v :: u64) \<le> 0xfc \<Longrightarrow> ucast (ucast v :: u8) = v"
  "(v :: u64) \<le> 0xffff \<Longrightarrow> ucast (ucast v :: u16) = v"
  "(v :: u64) \<le> 0xffffffff \<Longrightarrow> ucast (ucast v :: u32) = v"
  by (simp_all only: word_unat_eq_iff unat_ucast_mod word_le_nat_alt) simp_all

lemma ucast_le:
  "(ucast (a :: u8) :: u64) \<le> 0xfc \<longleftrightarrow> a \<le> 0xfc"
  "(ucast (b :: u16) :: u64) \<le> 0xffff" "(ucast (c :: u32) :: u64) \<le> 0xffffffff"
  using unat_bounds(1) [of a] unat_bounds(2) [of b] unat_bounds(3) [of c]
  by (simp_all add: word_le_nat_alt)

lemma unat_saturating_sub: "unat (saturating_sub a b) = unat a - unat b"
proof (cases "a < b")
  case True
  then show ?thesis by (simp add: saturating_sub_def word_less_nat_alt)
next
  case False
  then show ?thesis by (simp add: saturating_sub_def unat_sub not_less)
qed

lemma saturating_sub_le: "saturating_sub a b \<le> a"
  by (simp add: word_le_nat_alt unat_saturating_sub)

lemma checked_add_SomeD: "checked_add a b = Some c \<Longrightarrow> unat c = unat a + unat b"
  by (auto simp: checked_add_def unat_word_ariths split: if_splits)

lemma checked_sub_SomeD: "checked_sub a b = Some c \<Longrightarrow> unat a = unat b + unat c"
  by (auto simp: checked_sub_def unat_sub word_le_nat_alt split: if_splits)

section \<open>Slices\<close>

lemma chunks_exact_short [simp]: "length xs < n \<Longrightarrow> chunks_exact n xs = []"
  by (subst chunks_exact.simps) simp

lemma chunks_exact_append:
  "0 < n \<Longrightarrow> length xs = n \<Longrightarrow> chunks_exact n (xs @ ys) = xs # chunks_exact n ys"
  by (subst chunks_exact.simps) simp

lemma chunks_exact_length: "c \<in> set (chunks_exact n xs) \<Longrightarrow> length c = n"
proof (induction n xs rule: chunks_exact.induct)
  case (1 n xs)
  show ?case
  proof (cases "n = 0 \<or> length xs < n")
    case True
    with "1.prems" show ?thesis by (subst (asm) chunks_exact.simps) simp
  next
    case False
    with "1.prems" have "c = take n xs \<or> c \<in> set (chunks_exact n (drop n xs))"
      by (subst (asm) chunks_exact.simps) simp
    with "1.IH" False show ?thesis by auto
  qed
qed

lemma chunks_remainder_short [simp]: "length xs < n \<Longrightarrow> chunks_remainder n xs = xs"
  by (simp add: chunks_remainder_def)

lemma chunks_remainder_append:
  "0 < n \<Longrightarrow> length xs = n \<Longrightarrow> chunks_remainder n (xs @ ys) = chunks_remainder n ys"
  by (simp add: chunks_remainder_def div_add_self1)

lemma length_chunks_remainder: "length (chunks_remainder n xs) = length xs mod n"
  by (simp add: chunks_remainder_def minus_mult_div_eq_mod)

lemma chunks_remainder_less: "0 < n \<Longrightarrow> length (chunks_remainder n xs) < n"
  by (simp add: length_chunks_remainder)

lemma concat_chunks_exact:
  assumes "0 < n"
  shows "concat (chunks_exact n xs) @ chunks_remainder n xs = xs"
proof (induction xs rule: length_induct)
  case (1 xs)
  show ?case
  proof (cases "length xs < n")
    case True
    then show ?thesis by simp
  next
    case False
    obtain a b where xs: "xs = a @ b" "length a = n"
      using False by (metis append_take_drop_id length_take min.absorb2 not_less)
    with assms "1.IH" show ?thesis
      by (auto simp: chunks_exact_append chunks_remainder_append)
  qed
qed

text \<open>Splitting an input at any point and carrying the remainder over changes nothing.\<close>

lemma chunks_exact_split:
  assumes "0 < n"
  shows "chunks_exact n (xs @ ys) = chunks_exact n xs @ chunks_exact n (chunks_remainder n xs @ ys)
    \<and> chunks_remainder n (xs @ ys) = chunks_remainder n (chunks_remainder n xs @ ys)"
proof (induction xs rule: length_induct)
  case (1 xs)
  show ?case
  proof (cases "length xs < n")
    case True
    then show ?thesis by simp
  next
    case False
    obtain a b where xs: "xs = a @ b" "length a = n"
      using False by (metis append_take_drop_id length_take min.absorb2 not_less)
    with assms "1.IH" show ?thesis
      by (auto simp: chunks_exact_append chunks_remainder_append)
  qed
qed

lemma chunks_Nil [simp]: "chunks n [] = []"
  by (subst chunks.simps) simp

lemma chunks_step: "0 < n \<Longrightarrow> xs \<noteq> [] \<Longrightarrow> chunks n xs = take n xs # chunks n (drop n xs)"
  by (subst chunks.simps) simp

lemma length_copy_into [simp]:
  "at + length src \<le> length dst \<Longrightarrow> length (copy_into dst at src) = length dst"
  by (simp add: copy_into_def)

lemma take_copy_into:
  "at + length src \<le> length dst \<Longrightarrow> take (at + length src) (copy_into dst at src) = take at dst @ src"
  by (simp add: copy_into_def)

section \<open>Interface: a self-delimiting codec\<close>

text \<open>
  What every wire component promises of a writer/reader pair: the reader consumes exactly the
  bytes the writer produced, whatever follows. From that law alone the encoding is injective,
  no encoding is a proper prefix of another, and sequences of values decode as sequences.
\<close>

locale codec =
  fixes enc :: "'a \<Rightarrow> bytes"
    and dec :: "('e, 'a) reader"
    and wf :: "'a \<Rightarrow> bool"
  assumes dec_enc: "wf x \<Longrightarrow> dec (enc x @ rest) = Inr (x, rest)"
begin

lemma dec_enc_exact: "wf x \<Longrightarrow> dec (enc x) = Inr (x, [])"
  using dec_enc [of x "[]"] by simp

lemma enc_prefix_free: "wf x \<Longrightarrow> wf y \<Longrightarrow> enc x @ r = enc y @ s \<Longrightarrow> x = y \<and> r = s"
  by (metis dec_enc sum.inject(2) prod.inject)

lemma enc_inject: "wf x \<Longrightarrow> wf y \<Longrightarrow> enc x = enc y \<longleftrightarrow> x = y"
  using enc_prefix_free [of x y "[]" "[]"] by auto

lemma dec_list: "list_all wf xs \<Longrightarrow>
    preplicate (length xs) dec (concat (map enc xs) @ rest) = Inr (xs, rest)"
  by (induction xs) (auto simp: reader_simps dec_enc)

end

text \<open>A canonical codec accepts nothing but what the writer produces.\<close>

locale canonical_codec = codec +
  assumes enc_dec: "dec d = Inr (x, r) \<Longrightarrow> wf x \<and> d = enc x @ r"
begin

lemma dec_iff: "dec d = Inr (x, r) \<longleftrightarrow> wf x \<and> d = enc x @ r"
  using dec_enc enc_dec by blast

end

section \<open>Interface: a block-wise absorber with a partial-block buffer\<close>

text \<open>
  SHA-256, RIPEMD-160 and Poly1305 keep a chaining state and a buffer of at most one partial
  block. Their contract is that feeding data folds the compression function over the full
  blocks of the buffered bytes followed by the data, and buffers what is left. How the input is
  cut into \<^verbatim>\<open>update\<close> calls then makes no difference.
\<close>

locale absorber =
  fixes N :: nat
    and cmpr :: "'s \<Rightarrow> bytes \<Rightarrow> 's"
    and upd :: "'h \<Rightarrow> bytes \<Rightarrow> 'h"
    and chain :: "'h \<Rightarrow> 's"
    and pending :: "'h \<Rightarrow> bytes"
    and ok :: "'h \<Rightarrow> bool"
  assumes N_pos: "0 < N"
    and ok_upd: "ok h \<Longrightarrow> ok (upd h d)"
    and pending_short: "ok h \<Longrightarrow> length (pending h) < N"
    and chain_upd: "ok h \<Longrightarrow>
      chain (upd h d) = foldl cmpr (chain h) (chunks_exact N (pending h @ d))"
    and pending_upd: "ok h \<Longrightarrow> pending (upd h d) = chunks_remainder N (pending h @ d)"
begin

lemma ok_foldl: "ok h \<Longrightarrow> ok (foldl upd h parts)"
  by (induction parts arbitrary: h) (auto simp: ok_upd)

lemma chain_append:
  assumes "ok h"
  shows "chain (upd (upd h a) b) = chain (upd h (a @ b))"
  using assms chunks_exact_split [OF N_pos, of "pending h @ a" b]
  by (simp add: chain_upd pending_upd ok_upd)

lemma pending_append:
  assumes "ok h"
  shows "pending (upd (upd h a) b) = pending (upd h (a @ b))"
  using assms chunks_exact_split [OF N_pos, of "pending h @ a" b]
  by (simp add: pending_upd ok_upd)

lemma absorb_parts:
  "ok h \<Longrightarrow> chain (foldl upd (upd h d) parts) = chain (upd h (d @ concat parts))
    \<and> pending (foldl upd (upd h d) parts) = pending (upd h (d @ concat parts))"
proof (induction parts rule: rev_induct)
  case (snoc p ps)
  let ?h1 = "foldl upd (upd h d) ps" and ?h2 = "upd h (d @ concat ps)"
  have "ok ?h1" "ok ?h2" by (simp_all add: ok_foldl ok_upd snoc.prems)
  then have "chain (upd ?h1 p) = chain (upd ?h2 p)" "pending (upd ?h1 p) = pending (upd ?h2 p)"
    using snoc by (simp_all add: chain_upd pending_upd)
  then show ?case
    using snoc.prems chain_append [of h "d @ concat ps" p] pending_append [of h "d @ concat ps" p]
    by simp
qed simp

end

end
