(* ===== verification/Block_Hash.thy ===== *)
theory Block_Hash
  imports Prelude
begin

text \<open>
  The buffering common to \<^verbatim>\<open>src/src/crypto/sha256.rs\<close>, \<^verbatim>\<open>ripemd160.rs\<close> and
  \<^verbatim>\<open>poly1305.rs\<close>: the three \<^verbatim>\<open>update\<close> methods have the same body, over a chaining
  value, a fixed block buffer and a fill count. The body is \<open>absorb\<close>; the padding loop of the
  two hashes is abstracted in a locale that extends the absorber interface.
\<close>

section \<open>Definitions\<close>

text \<open>\<open>absorb N cmpr (s, buf, n) data\<close>: complete the partial block if there is one (returning early
  when the input does not), compress the full blocks of the rest, buffer the remainder.
\<close>

definition absorb_rest ::
  "nat \<Rightarrow> ('s \<Rightarrow> bytes \<Rightarrow> 's) \<Rightarrow> 's \<Rightarrow> bytes \<Rightarrow> bytes \<Rightarrow> 's \<times> bytes \<times> nat" where
  "absorb_rest N cmpr s buf data =
     (let rem = chunks_remainder N data
      in (foldl cmpr s (chunks_exact N data), copy_into buf 0 rem, length rem))"

definition absorb ::
  "nat \<Rightarrow> ('s \<Rightarrow> bytes \<Rightarrow> 's) \<Rightarrow> 's \<times> bytes \<times> nat \<Rightarrow> bytes \<Rightarrow> 's \<times> bytes \<times> nat" where
  "absorb N cmpr h data =
     (case h of (s, buf, buf_len) \<Rightarrow>
        if buf_len > 0 then
          let tk = min (N - buf_len) (length data);
              buf = copy_into buf buf_len (take tk data);
              buf_len = buf_len + tk;
              data = drop tk data
          in if buf_len < N then (s, buf, buf_len)
             else absorb_rest N cmpr (cmpr s buf) buf data
        else absorb_rest N cmpr s buf data)"

definition buffer_ok :: "nat \<Rightarrow> 's \<times> bytes \<times> nat \<Rightarrow> bool" where
  "buffer_ok N h \<longleftrightarrow> (case h of (s, buf, n) \<Rightarrow> length buf = N \<and> n < N)"

definition buffered :: "'s \<times> bytes \<times> nat \<Rightarrow> bytes" where
  "buffered h = (case h of (s, buf, n) \<Rightarrow> take n buf)"

section \<open>The buffering contract\<close>

lemma absorb_rest_spec:
  assumes "0 < N" "length buf = N"
  shows "buffer_ok N (absorb_rest N cmpr s buf data)"
    and "fst (absorb_rest N cmpr s buf data) = foldl cmpr s (chunks_exact N data)"
    and "buffered (absorb_rest N cmpr s buf data) = chunks_remainder N data"
  using assms chunks_remainder_less [of N data]
  by (simp_all add: absorb_rest_def buffer_ok_def buffered_def Let_def copy_into_def)

lemma absorb_full_block:
  assumes "length buf = N" "n < N" "tk = N - n" "tk \<le> length data"
  shows "copy_into buf n (take tk data) = take n buf @ take tk data"
  using assms by (simp add: copy_into_def)

lemma absorb_spec:
  assumes N: "0 < N" and ok: "buffer_ok N h"
  shows "buffer_ok N (absorb N cmpr h data)
    \<and> fst (absorb N cmpr h data) = foldl cmpr (fst h) (chunks_exact N (buffered h @ data))
    \<and> buffered (absorb N cmpr h data) = chunks_remainder N (buffered h @ data)"
proof -
  obtain s buf n where h: "h = (s, buf, n)" by (cases h)
  with ok have len: "length buf = N" and n: "n < N" by (auto simp: buffer_ok_def)
  consider "n = 0" | "0 < n" "n + length data < N" | "0 < n" "N \<le> n + length data"
    by linarith
  then show ?thesis
  proof cases
    case 1
    with h len N show ?thesis
      using absorb_rest_spec [OF N len, of cmpr s data] by (simp add: absorb_def buffered_def)
  next
    case 2
    with h len n show ?thesis
      by (auto simp: absorb_def buffered_def buffer_ok_def Let_def take_copy_into min_def)
  next
    case 3
    define tk where "tk = N - n"
    have tk: "min (N - n) (length data) = tk" "n + tk = N" using 3 n by (auto simp: tk_def)
    have blk: "copy_into buf n (take tk data) = take n buf @ take tk data"
      by (rule absorb_full_block [OF len n tk_def]) (use 3 n in \<open>simp add: tk_def\<close>)
    have blen: "length (take n buf @ take tk data) = N" using 3 n len by (simp add: tk_def)
    have "absorb N cmpr h data
        = absorb_rest N cmpr (cmpr s (take n buf @ take tk data)) (take n buf @ take tk data)
            (drop tk data)"
      using 3 h tk blk by (simp add: absorb_def Let_def)
    moreover have "buffered h @ data = (take n buf @ take tk data) @ drop tk data"
      by (simp add: h buffered_def)
    ultimately show ?thesis
      using absorb_rest_spec [OF N blen, of cmpr "cmpr s (take n buf @ take tk data)" "drop tk data"]
        chunks_exact_append [OF N blen, of "drop tk data"]
        chunks_remainder_append [OF N blen, of "drop tk data"]
      by (simp add: h del: append_assoc)
  qed
qed

lemma absorb_one:
  assumes "buffer_ok N (s, buf, n)" "0 < N"
  shows "snd (snd (absorb N cmpr (s, buf, n) [b])) = Suc n mod N"
proof -
  let ?h = "absorb N cmpr (s, buf, n) [b]"
  have "buffer_ok N ?h" "buffered ?h = chunks_remainder N (take n buf @ [b])"
    using absorb_spec [OF assms(2,1), of cmpr "[b]"] by (auto simp: buffered_def)
  moreover have "length (chunks_remainder N (take n buf @ [b])) = Suc n mod N"
    using assms by (simp add: length_chunks_remainder buffer_ok_def)
  ultimately show ?thesis
    by (cases ?h) (auto simp: buffer_ok_def buffered_def dest: arg_cong [where f = length])
qed

section \<open>Interface: absorbing with a zero-padding loop\<close>

text \<open>Both hashes finish with \<^verbatim>\<open>update(&[0x80])\<close> and then \<^verbatim>\<open>while buf_len != 56 { update(&[0]) }\<close>.
  The loop is a fixpoint of that equation, and in effect appends the zero bytes that bring the
  buffer to 56.
\<close>

lemma zeros_to_56: "(n::nat) < 64 \<Longrightarrow> (120 - n) mod 64 = (if n \<le> 56 then 56 - n else 120 - n)"
  by (cases "n \<le> 56") (simp_all add: le_mod_geq)

lemma zeros_step:
  assumes "n < 64" "n \<noteq> 56"
  shows "(120 - n) mod 64 = Suc ((120 - Suc n mod 64) mod 64)"
proof (cases "n = 63")
  case False
  with assms have "Suc n < 64" by simp
  then have "(120 - Suc n mod 64) mod 64 = (if Suc n \<le> 56 then 56 - Suc n else 120 - Suc n)"
    using zeros_to_56 [of "Suc n"] by simp
  with assms show ?thesis by (auto simp: zeros_to_56)
qed simp

lemma zeros_after_marker: "n < 64 \<Longrightarrow> (119 - n) mod 64 = (120 - Suc n mod 64) mod 64"
  by (cases "n = 63") simp_all

lemma zeros_fill: "n < 64 \<Longrightarrow> (n + Suc ((119 - n) mod 64)) mod 64 = 56"
  by (cases "n \<le> 55") (simp_all add: le_mod_geq)

locale padding_absorber = absorber +
  fixes padz :: "'b \<Rightarrow> 'b"
  assumes N_64: "N = 64"
    and padz_unfold: "ok h \<Longrightarrow>
      padz h = (if length (pending h) = 56 then h else padz (upd h [0]))"
begin

lemma pending_zero:
  "ok h \<Longrightarrow> length (pending (upd h [0])) = Suc (length (pending h)) mod 64"
  by (simp add: pending_upd length_chunks_remainder N_64)

lemma padz_zeros:
  assumes "ok h" "k = (120 - length (pending h)) mod 64"
  shows "ok (padz h)
    \<and> chain (padz h) = chain (upd h (replicate k 0))
    \<and> pending (padz h) = pending (upd h (replicate k 0))"
  using assms
proof (induction k arbitrary: h)
  case 0
  have "length (pending h) = 56"
    using 0 pending_short [OF 0(1)] zeros_to_56 [of "length (pending h)"] N_64
    by (simp split: if_splits)
  then have "padz h = h" using 0 padz_unfold by simp
  then show ?case
    using 0 \<open>length (pending h) = 56\<close> by (simp add: chain_upd pending_upd N_64)
next
  case (Suc k)
  have len: "length (pending h) < 64" using pending_short [OF Suc.prems(1)] N_64 by simp
  have ne: "length (pending h) \<noteq> 56" using Suc.prems(2) by auto
  have ok': "ok (upd h [0])" using Suc.prems(1) by (rule ok_upd)
  have k': "k = (120 - length (pending (upd h [0]))) mod 64"
    using Suc.prems zeros_step [OF len ne] by (simp add: pending_zero)
  have "padz h = padz (upd h [0])" using padz_unfold [OF Suc.prems(1)] ne by simp
  moreover have "[0 :: u8] @ replicate k 0 = replicate (Suc k) 0" by simp
  ultimately show ?case
    using Suc.IH [OF ok' k'] chain_append [OF Suc.prems(1), of "[0]" "replicate k 0"]
      pending_append [OF Suc.prems(1), of "[0]" "replicate k 0"]
    by simp
qed

lemma pad_block:
  assumes "ok h" "k = (119 - length (pending h)) mod 64"
  shows "chain (padz (upd h [0x80])) = chain (upd h (0x80 # replicate k 0))
    \<and> pending (padz (upd h [0x80])) = pending (upd h (0x80 # replicate k 0))
    \<and> length (pending (padz (upd h [0x80]))) = 56"
proof -
  have len: "length (pending h) < 64" using pending_short [OF assms(1)] N_64 by simp
  have "length (pending (upd h [0x80])) = Suc (length (pending h)) mod 64"
    using assms by (simp add: pending_upd length_chunks_remainder N_64)
  then have k: "k = (120 - length (pending (upd h [0x80]))) mod 64"
    using assms(2) zeros_after_marker [OF len] by simp
  have pz: "chain (padz (upd h [0x80])) = chain (upd h ([0x80] @ replicate k 0))"
    "pending (padz (upd h [0x80])) = pending (upd h ([0x80] @ replicate k 0))"
    using padz_zeros [OF ok_upd [OF assms(1)] k] chain_append [OF assms(1)]
      pending_append [OF assms(1)] by simp_all
  have "length (pending (upd h ([0x80] @ replicate k 0)))
      = (length (pending h) + Suc k) mod 64"
    using assms by (simp add: pending_upd length_chunks_remainder N_64)
  also have "\<dots> = 56" using assms(2) zeros_fill [OF len] by simp
  finally show ?thesis using pz by simp
qed

end

end
