(* ===== verification/Crypto_Hash.thy ===== *)
theory Crypto_Hash
  imports Block_Hash
begin

text \<open>
  \<^verbatim>\<open>src/src/crypto/sha256.rs\<close>, \<^verbatim>\<open>ripemd160.rs\<close> and the helpers of \<^verbatim>\<open>crypto/mod.rs\<close>:
  the incremental hashers as records with the source's fields, their compression functions on
  32-bit words, \<^verbatim>\<open>update\<close>, the padding loop and \<^verbatim>\<open>finalize\<close>. The theorems show that the
  digest is the fold of the compression function over the padded message, however the input was
  cut into updates.
\<close>

unbundle bit_operations_syntax

section \<open>SHA-256\<close>

record Sha256 =
  sha_state :: "u32 list"
  sha_buf :: bytes
  sha_buf_len :: nat
  sha_total :: u64

definition SHA256_K :: "u32 list" where
  "SHA256_K =
    concat
     [[0x428a2f98, 0x71374491, 0xb5c0fbcf, 0xe9b5dba5],
      [0x3956c25b, 0x59f111f1, 0x923f82a4, 0xab1c5ed5],
      [0xd807aa98, 0x12835b01, 0x243185be, 0x550c7dc3],
      [0x72be5d74, 0x80deb1fe, 0x9bdc06a7, 0xc19bf174],
      [0xe49b69c1, 0xefbe4786, 0xfc19dc6, 0x240ca1cc],
      [0x2de92c6f, 0x4a7484aa, 0x5cb0a9dc, 0x76f988da],
      [0x983e5152, 0xa831c66d, 0xb00327c8, 0xbf597fc7],
      [0xc6e00bf3, 0xd5a79147, 0x6ca6351, 0x14292967],
      [0x27b70a85, 0x2e1b2138, 0x4d2c6dfc, 0x53380d13],
      [0x650a7354, 0x766a0abb, 0x81c2c92e, 0x92722c85],
      [0xa2bfe8a1, 0xa81a664b, 0xc24b8b70, 0xc76c51a3],
      [0xd192e819, 0xd6990624, 0xf40e3585, 0x106aa070],
      [0x19a4c116, 0x1e376c08, 0x2748774c, 0x34b0bcb5],
      [0x391c0cb3, 0x4ed8aa4a, 0x5b9cca4f, 0x682e6ff3],
      [0x748f82ee, 0x78a5636f, 0x84c87814, 0x8cc70208],
      [0x90befffa, 0xa4506ceb, 0xbef9a3f7, 0xc67178f2]]"

definition SHA256_H0 :: "u32 list" where
  "SHA256_H0 =
    [0x6a09e667, 0xbb67ae85, 0x3c6ef372, 0xa54ff53a,
     0x510e527f, 0x9b05688c, 0x1f83d9ab, 0x5be0cd19]"

text \<open>The message schedule: 16 big-endian words of the block, extended to 64.\<close>

definition sha256_block_words :: "bytes \<Rightarrow> u32 list" where
  "sha256_block_words block = map (\<lambda>i. from_be_bytes (take 4 (drop (i * 4) block))) [0..<16]"

definition sha256_extend :: "nat \<Rightarrow> u32 list \<Rightarrow> u32 list" where
  "sha256_extend i w =
     (let s0 = word_rotr 7 (w ! (i - 15)) XOR word_rotr 18 (w ! (i - 15)) XOR drop_bit 3 (w ! (i - 15));
          s1 = word_rotr 17 (w ! (i - 2)) XOR word_rotr 19 (w ! (i - 2)) XOR drop_bit 10 (w ! (i - 2))
      in w[i := w ! (i - 16) + s0 + w ! (i - 7) + s1])"

definition sha256_schedule :: "bytes \<Rightarrow> u32 list" where
  "sha256_schedule block =
     fold sha256_extend [16..<64] (sha256_block_words block @ replicate 48 0)"

type_synonym sha_vars = "u32 \<times> u32 \<times> u32 \<times> u32 \<times> u32 \<times> u32 \<times> u32 \<times> u32"

definition sha256_round :: "u32 list \<Rightarrow> nat \<Rightarrow> sha_vars \<Rightarrow> sha_vars" where
  "sha256_round w i v =
     (case v of (a, b, c, d, e, f, g, h) \<Rightarrow>
       let s1 = word_rotr 6 e XOR word_rotr 11 e XOR word_rotr 25 e;
           ch = (e AND f) XOR (NOT e AND g);
           t1 = h + s1 + ch + SHA256_K ! i + w ! i;
           s0 = word_rotr 2 a XOR word_rotr 13 a XOR word_rotr 22 a;
           maj = (a AND b) XOR (a AND c) XOR (b AND c);
           t2 = s0 + maj
       in (t1 + t2, a, b, c, d + t1, e, f, g))"

definition sha256_compress :: "u32 list \<Rightarrow> bytes \<Rightarrow> u32 list" where
  "sha256_compress st block =
     (let w = sha256_schedule block
      in case fold (sha256_round w) [0..<64]
                (st ! 0, st ! 1, st ! 2, st ! 3, st ! 4, st ! 5, st ! 6, st ! 7) of
           (a, b, c, d, e, f, g, h) \<Rightarrow>
             [st ! 0 + a, st ! 1 + b, st ! 2 + c, st ! 3 + d,
              st ! 4 + e, st ! 5 + f, st ! 6 + g, st ! 7 + h])"

definition sha256_new :: Sha256 where
  "sha256_new = \<lparr>sha_state = SHA256_H0, sha_buf = replicate 64 0, sha_buf_len = 0, sha_total = 0\<rparr>"

definition sha256_update :: "Sha256 \<Rightarrow> bytes \<Rightarrow> Sha256" where
  "sha256_update h data =
     (case absorb 64 sha256_compress (sha_state h, sha_buf h, sha_buf_len h) data of
        (st, buf, n) \<Rightarrow> \<lparr>sha_state = st, sha_buf = buf, sha_buf_len = n,
                       sha_total = sha_total h + of_nat (length data)\<rparr>)"

text \<open>
  The loop \<^verbatim>\<open>while self.buf_len != 56 { self.update(&[0]) }\<close>. A fill count of 64 or more or a
  buffer that is not 64 bytes long cannot occur in the fixed-size array of the code (slicing it
  would panic); the guard for it makes the recursion total.
\<close>

definition sha_ok :: "Sha256 \<Rightarrow> bool" where
  "sha_ok h \<longleftrightarrow> length (sha_buf h) = 64 \<and> sha_buf_len h < 64"

lemma sha_update_zero_len:
  assumes "sha_ok h"
  shows "sha_buf_len (sha256_update h [b]) = Suc (sha_buf_len h) mod 64"
  using assms absorb_one [of 64 "sha_state h" "sha_buf h" "sha_buf_len h" sha256_compress b]
  by (auto simp: sha256_update_def sha_ok_def buffer_ok_def split: prod.splits)

function sha256_pad :: "Sha256 \<Rightarrow> Sha256" where
  "sha256_pad h =
     (if sha_buf_len h = 56 \<or> \<not> sha_ok h then h else sha256_pad (sha256_update h [0]))"
  by pat_completeness auto
termination
proof (relation "measure (\<lambda>h. (120 - sha_buf_len h) mod 64)")
  fix h :: Sha256
  assume "\<not> (sha_buf_len h = 56 \<or> \<not> sha_ok h)"
  then have "sha_ok h" "sha_buf_len h < 64" "sha_buf_len h \<noteq> 56" by (auto simp: sha_ok_def)
  then show "(sha256_update h [0], h) \<in> measure (\<lambda>h. (120 - sha_buf_len h) mod 64)"
    using zeros_step [of "sha_buf_len h"] by (simp add: sha_update_zero_len)
qed simp

declare sha256_pad.simps [simp del]

definition sha256_finalize :: "Sha256 \<Rightarrow> bytes" where
  "sha256_finalize h =
     (let bit_len = sha_total h * 8;
          h = sha256_update h [0x80];
          h = sha256_pad h;
          h = h\<lparr>sha_total := 0\<rparr>;
          h = h\<lparr>sha_buf := copy_into (sha_buf h) 56 (to_be_bytes bit_len)\<rparr>;
          st = sha256_compress (sha_state h) (sha_buf h)
      in concat (map to_be_bytes st))"

definition sha256_digest :: "bytes \<Rightarrow> bytes" where
  "sha256_digest data = sha256_finalize (sha256_update sha256_new data)"

section \<open>RIPEMD-160\<close>

record Ripemd160 =
  rmd_state :: "u32 list"
  rmd_buf :: bytes
  rmd_buf_len :: nat
  rmd_total :: u64

definition R_LEFT :: "nat list" where
  "R_LEFT =
    [0, 1, 2, 3, 4, 5, 6, 7, 8, 9, 10, 11, 12, 13, 14, 15,
     7, 4, 13, 1, 10, 6, 15, 3, 12, 0, 9, 5, 2, 14, 11, 8,
     3, 10, 14, 4, 9, 15, 8, 1, 2, 7, 0, 6, 13, 11, 5, 12,
     1, 9, 11, 10, 0, 8, 12, 4, 13, 3, 7, 15, 14, 5, 6, 2,
     4, 0, 5, 9, 7, 12, 2, 10, 14, 1, 3, 8, 11, 6, 15, 13]"

definition R_RIGHT :: "nat list" where
  "R_RIGHT =
    [5, 14, 7, 0, 9, 2, 11, 4, 13, 6, 15, 8, 1, 10, 3, 12,
     6, 11, 3, 7, 0, 13, 5, 10, 14, 15, 8, 12, 4, 9, 1, 2,
     15, 5, 1, 3, 7, 14, 6, 9, 11, 8, 12, 2, 10, 0, 4, 13,
     8, 6, 4, 1, 3, 11, 15, 0, 5, 12, 2, 13, 9, 7, 10, 14,
     12, 15, 10, 4, 1, 5, 8, 7, 6, 2, 13, 14, 0, 3, 9, 11]"

definition S_LEFT :: "nat list" where
  "S_LEFT =
    [11, 14, 15, 12, 5, 8, 7, 9, 11, 13, 14, 15, 6, 7, 9, 8,
     7, 6, 8, 13, 11, 9, 7, 15, 7, 12, 15, 9, 11, 7, 13, 12,
     11, 13, 6, 7, 14, 9, 13, 15, 14, 8, 13, 6, 5, 12, 7, 5,
     11, 12, 14, 15, 14, 15, 9, 8, 9, 14, 5, 6, 8, 6, 5, 12,
     9, 15, 5, 11, 6, 8, 13, 12, 5, 12, 13, 14, 11, 8, 5, 6]"

definition S_RIGHT :: "nat list" where
  "S_RIGHT =
    [8, 9, 9, 11, 13, 15, 15, 5, 7, 7, 8, 11, 14, 14, 12, 6,
     9, 13, 15, 7, 12, 8, 9, 11, 7, 7, 12, 7, 6, 15, 13, 11,
     9, 7, 15, 11, 8, 6, 6, 14, 12, 13, 5, 14, 13, 13, 7, 5,
     15, 5, 8, 11, 14, 14, 6, 14, 6, 9, 12, 9, 12, 5, 15, 8,
     8, 5, 12, 9, 12, 5, 14, 6, 8, 13, 6, 5, 15, 13, 11, 11]"

definition K_LEFT :: "u32 list" where
  "K_LEFT = [0, 0x5a827999, 0x6ed9eba1, 0x8f1bbcdc, 0xa953fd4e]"

definition K_RIGHT :: "u32 list" where
  "K_RIGHT = [0x50a28be6, 0x5c4dd124, 0x6d703ef3, 0x7a6d76e9, 0]"

text \<open>The round function; the callers pass rounds 0 to 4 only (the code's last arm is unreachable).\<close>

definition rmd_f :: "nat \<Rightarrow> u32 \<Rightarrow> u32 \<Rightarrow> u32 \<Rightarrow> u32" where
  "rmd_f round x y z =
     (if round = 0 then x XOR y XOR z
      else if round = 1 then (x AND y) OR (NOT x AND z)
      else if round = 2 then (x OR NOT y) XOR z
      else if round = 3 then (x AND z) OR (y AND NOT z)
      else x XOR (y OR NOT z))"

type_synonym rmd_vars = "u32 \<times> u32 \<times> u32 \<times> u32 \<times> u32"

definition rmd_step :: "u32 list \<Rightarrow> nat \<Rightarrow> rmd_vars \<times> rmd_vars \<Rightarrow> rmd_vars \<times> rmd_vars" where
  "rmd_step x j lr =
     (case lr of ((al, bl, cl, dl, el), (ar, br, cr, dr, er)) \<Rightarrow>
       let round = j div 16;
           tl = word_rotl (S_LEFT ! j) (al + rmd_f round bl cl dl + x ! (R_LEFT ! j) + K_LEFT ! round) + el;
           tr = word_rotl (S_RIGHT ! j) (ar + rmd_f (4 - round) br cr dr + x ! (R_RIGHT ! j) + K_RIGHT ! round) + er
       in ((el, tl, bl, word_rotl 10 cl, dl), (er, tr, br, word_rotl 10 cr, dr)))"

definition rmd_compress :: "u32 list \<Rightarrow> bytes \<Rightarrow> u32 list" where
  "rmd_compress st block =
     (let x = map (\<lambda>i. from_le_bytes (take 4 (drop (i * 4) block))) [0..<16];
          v = (st ! 0, st ! 1, st ! 2, st ! 3, st ! 4)
      in case fold (rmd_step x) [0..<80] (v, v) of
           ((al, bl, cl, dl, el), (ar, br, cr, dr, er)) \<Rightarrow>
             [st ! 1 + cl + dr, st ! 2 + dl + er, st ! 3 + el + ar, st ! 4 + al + br, st ! 0 + bl + cr])"

definition rmd_new :: Ripemd160 where
  "rmd_new = \<lparr>rmd_state = [0x67452301, 0xefcdab89, 0x98badcfe, 0x10325476, 0xc3d2e1f0],
     rmd_buf = replicate 64 0, rmd_buf_len = 0, rmd_total = 0\<rparr>"

definition rmd_update :: "Ripemd160 \<Rightarrow> bytes \<Rightarrow> Ripemd160" where
  "rmd_update h data =
     (case absorb 64 rmd_compress (rmd_state h, rmd_buf h, rmd_buf_len h) data of
        (st, buf, n) \<Rightarrow> \<lparr>rmd_state = st, rmd_buf = buf, rmd_buf_len = n,
                       rmd_total = rmd_total h + of_nat (length data)\<rparr>)"

definition rmd_ok :: "Ripemd160 \<Rightarrow> bool" where
  "rmd_ok h \<longleftrightarrow> length (rmd_buf h) = 64 \<and> rmd_buf_len h < 64"

lemma rmd_update_zero_len:
  assumes "rmd_ok h"
  shows "rmd_buf_len (rmd_update h [b]) = Suc (rmd_buf_len h) mod 64"
  using assms absorb_one [of 64 "rmd_state h" "rmd_buf h" "rmd_buf_len h" rmd_compress b]
  by (auto simp: rmd_update_def rmd_ok_def buffer_ok_def split: prod.splits)

function rmd_pad :: "Ripemd160 \<Rightarrow> Ripemd160" where
  "rmd_pad h = (if rmd_buf_len h = 56 \<or> \<not> rmd_ok h then h else rmd_pad (rmd_update h [0]))"
  by pat_completeness auto
termination
proof (relation "measure (\<lambda>h. (120 - rmd_buf_len h) mod 64)")
  fix h :: Ripemd160
  assume "\<not> (rmd_buf_len h = 56 \<or> \<not> rmd_ok h)"
  then have "rmd_ok h" "rmd_buf_len h < 64" "rmd_buf_len h \<noteq> 56" by (auto simp: rmd_ok_def)
  then show "(rmd_update h [0], h) \<in> measure (\<lambda>h. (120 - rmd_buf_len h) mod 64)"
    using zeros_step [of "rmd_buf_len h"] by (simp add: rmd_update_zero_len)
qed simp

declare rmd_pad.simps [simp del]

definition rmd_finalize :: "Ripemd160 \<Rightarrow> bytes" where
  "rmd_finalize h =
     (let bit_len = rmd_total h * 8;
          h = rmd_update h [0x80];
          h = rmd_pad h;
          h = h\<lparr>rmd_buf := copy_into (rmd_buf h) 56 (to_le_bytes bit_len)\<rparr>;
          st = rmd_compress (rmd_state h) (rmd_buf h)
      in concat (map to_le_bytes st))"

definition rmd_digest :: "bytes \<Rightarrow> bytes" where
  "rmd_digest data = rmd_finalize (rmd_update rmd_new data)"

section \<open>Helpers of the crypto module\<close>

definition hash160 :: "bytes \<Rightarrow> bytes" where
  "hash160 data = rmd_digest (sha256_digest data)"

definition ct_eq :: "bytes \<Rightarrow> bytes \<Rightarrow> bool" where
  "ct_eq a b =
     (if length a \<noteq> length b then False
      else fold (\<lambda>(x, y) acc. acc OR (x XOR y)) (zip a b) 0 = 0)"


section \<open>SHA-256: the contract of the hasher\<close>

definition sha_pending :: "Sha256 \<Rightarrow> bytes" where
  "sha_pending h = take (sha_buf_len h) (sha_buf h)"

text \<open>The padded message: marker byte, zeros up to 56 modulo 64, the bit length in eight bytes.\<close>

definition sha_padding :: "bytes \<Rightarrow> bytes" where
  "sha_padding data =
     data @ [0x80] @ replicate ((119 - length data mod 64) mod 64) 0
       @ to_be_bytes (of_nat (8 * length data) :: u64)"

lemma sha_update_absorb:
  "absorb 64 sha256_compress (sha_state h, sha_buf h, sha_buf_len h) d
     = (sha_state (sha256_update h d), sha_buf (sha256_update h d), sha_buf_len (sha256_update h d))"
  by (simp add: sha256_update_def split: prod.splits)

lemma sha_update_spec:
  assumes "sha_ok h"
  shows "sha_ok (sha256_update h d)
    \<and> sha_state (sha256_update h d) = foldl sha256_compress (sha_state h) (chunks_exact 64 (sha_pending h @ d))
    \<and> sha_pending (sha256_update h d) = chunks_remainder 64 (sha_pending h @ d)"
  using assms absorb_spec [of 64 "(sha_state h, sha_buf h, sha_buf_len h)" sha256_compress d]
  by (simp add: sha_update_absorb buffer_ok_def buffered_def sha_ok_def sha_pending_def)

lemma sha_pending_length: "sha_ok h \<Longrightarrow> length (sha_pending h) = sha_buf_len h"
  by (simp add: sha_ok_def sha_pending_def)

lemma sha_ok_buf_len: "sha_ok h \<Longrightarrow> sha_buf_len h < 64"
  by (simp add: sha_ok_def)

lemma sha_total_update [simp]: "sha_total (sha256_update h d) = sha_total h + of_nat (length d)"
  by (simp add: sha256_update_def split: prod.splits)

lemma sha_ok_new [simp]: "sha_ok sha256_new" "sha_pending sha256_new = []" "sha_total sha256_new = 0"
  by (simp_all add: sha_ok_def sha256_new_def sha_pending_def)

interpretation sha: padding_absorber 64 sha256_compress sha256_update sha_state sha_pending sha_ok sha256_pad
proof
  fix h :: Sha256 assume "sha_ok h"
  then show "sha256_pad h = (if length (sha_pending h) = 56 then h else sha256_pad (sha256_update h [0]))"
    by (subst sha256_pad.simps) (simp add: sha_pending_length)
qed (simp_all add: sha_update_spec sha_pending_length sha_ok_buf_len)

lemma sha_finalize_pending:
  assumes "sha_ok h"
  shows "sha256_finalize h = concat (map to_be_bytes (foldl sha256_compress (sha_state h)
     (chunks_exact 64 (sha_pending h @ [0x80] @ replicate ((119 - sha_buf_len h) mod 64) 0
        @ to_be_bytes (sha_total h * 8)))))"
proof -
  let ?k = "(119 - sha_buf_len h) mod 64" and ?p = "sha256_pad (sha256_update h [0x80])"
  let ?z = "0x80 # replicate ?k 0" and ?len = "to_be_bytes (sha_total h * 8)"
  have k: "?k = (119 - length (sha_pending h)) mod 64"
    using assms by (simp add: sha_pending_length)
  have chain: "sha_state ?p = sha_state (sha256_update h ?z)" and pend: "sha_pending ?p = sha_pending (sha256_update h ?z)"
    and len: "length (sha_pending ?p) = 56"
    using sha.pad_block [OF assms k] by blast+
  have okp: "sha_ok ?p" using sha.padz_zeros [OF sha.ok_upd [OF assms] refl] by blast
  have "copy_into (sha_buf ?p) 56 ?len = sha_pending ?p @ ?len"
    using okp len by (simp add: copy_into_def sha_pending_def sha_ok_def)
  then have "sha256_finalize h = concat (map to_be_bytes (sha256_compress (sha_state ?p) (sha_pending ?p @ ?len)))"
    by (simp add: sha256_finalize_def Let_def)
  moreover have "sha256_compress (sha_state ?p) (sha_pending ?p @ ?len)
      = foldl sha256_compress (sha_state h) (chunks_exact 64 ((sha_pending h @ ?z) @ ?len))"
    using chunks_exact_split [of 64 "sha_pending h @ ?z" ?len] len assms
      chunks_exact_append [of 64 "sha_pending ?p @ ?len" "[]"]
    by (simp add: chain pend sha_update_spec del: append_assoc)
  ultimately show ?thesis by simp
qed

lemma sha_update_new:
  "sha_ok (sha256_update sha256_new d)"
  "sha_state (sha256_update sha256_new d) = foldl sha256_compress (sha_state sha256_new) (chunks_exact 64 d)"
  "sha_pending (sha256_update sha256_new d) = chunks_remainder 64 d"
  by (simp_all add: sha_update_spec)

lemma sha_buf_len_new: "sha_buf_len (sha256_update sha256_new d) = length d mod 64"
  using sha_pending_length [OF sha_update_new(1), of d]
  by (simp add: sha_update_new length_chunks_remainder)

lemma sha_digest_fold:
  "sha256_digest data = concat (map to_be_bytes (foldl sha256_compress (sha_state sha256_new) (chunks_exact 64 (sha_padding data))))"
  using chunks_exact_split [of 64 data "[0x80] @ replicate ((119 - length data mod 64) mod 64) 0
      @ to_be_bytes (of_nat (8 * length data) :: u64)"]
  by (simp add: sha256_digest_def sha_finalize_pending sha_update_new sha_buf_len_new sha_padding_def
      mult.commute)

lemma sha_parts:
  "sha_ok (foldl sha256_update sha256_new parts)
   \<and> sha_state (foldl sha256_update sha256_new parts) = sha_state (sha256_update sha256_new (concat parts))
   \<and> sha_pending (foldl sha256_update sha256_new parts) = sha_pending (sha256_update sha256_new (concat parts))
   \<and> sha_total (foldl sha256_update sha256_new parts) = sha_total (sha256_update sha256_new (concat parts))"
proof (induction parts rule: rev_induct)
  case Nil
  then show ?case by (simp add: sha_update_spec)
next
  case (snoc p ps)
  let ?h = "foldl sha256_update sha256_new ps" and ?g = "sha256_update sha256_new (concat ps)"
  have ok: "sha_ok ?h" "sha_ok ?g" using snoc sha_update_new(1) by auto
  have "sha_state (sha256_update ?h p) = sha_state (sha256_update ?g p)" "sha_pending (sha256_update ?h p) = sha_pending (sha256_update ?g p)"
    using ok snoc by (simp_all add: sha_update_spec)
  moreover have "sha_ok (sha256_update ?h p)" using ok sha.ok_upd by blast
  ultimately show ?case
    using snoc sha.chain_append [of sha256_new "concat ps" p] sha.pending_append [of sha256_new "concat ps" p]
    by simp
qed

lemma sha_finalize_parts:
  "sha256_finalize (foldl sha256_update sha256_new parts) = sha256_digest (concat parts)"
  using sha_parts [of parts] sha_update_new(1) [of "concat parts"]
  by (simp add: sha256_digest_def sha_finalize_pending sha_pending_length [symmetric])

lemma length_sha256_digest_aux: "length st = n \<Longrightarrow> length (concat (map to_be_bytes (st :: u32 list))) = 4 * n"
  by (induction st arbitrary: n) auto

section \<open>RIPEMD-160: the contract of the hasher\<close>

definition rmd_pending :: "Ripemd160 \<Rightarrow> bytes" where
  "rmd_pending h = take (rmd_buf_len h) (rmd_buf h)"

text \<open>The padded message: marker byte, zeros up to 56 modulo 64, the bit length in eight bytes.\<close>

definition rmd_padding :: "bytes \<Rightarrow> bytes" where
  "rmd_padding data =
     data @ [0x80] @ replicate ((119 - length data mod 64) mod 64) 0
       @ to_le_bytes (of_nat (8 * length data) :: u64)"

lemma rmd_update_absorb:
  "absorb 64 rmd_compress (rmd_state h, rmd_buf h, rmd_buf_len h) d
     = (rmd_state (rmd_update h d), rmd_buf (rmd_update h d), rmd_buf_len (rmd_update h d))"
  by (simp add: rmd_update_def split: prod.splits)

lemma rmd_update_spec:
  assumes "rmd_ok h"
  shows "rmd_ok (rmd_update h d)
    \<and> rmd_state (rmd_update h d) = foldl rmd_compress (rmd_state h) (chunks_exact 64 (rmd_pending h @ d))
    \<and> rmd_pending (rmd_update h d) = chunks_remainder 64 (rmd_pending h @ d)"
  using assms absorb_spec [of 64 "(rmd_state h, rmd_buf h, rmd_buf_len h)" rmd_compress d]
  by (simp add: rmd_update_absorb buffer_ok_def buffered_def rmd_ok_def rmd_pending_def)

lemma rmd_pending_length: "rmd_ok h \<Longrightarrow> length (rmd_pending h) = rmd_buf_len h"
  by (simp add: rmd_ok_def rmd_pending_def)

lemma rmd_ok_buf_len: "rmd_ok h \<Longrightarrow> rmd_buf_len h < 64"
  by (simp add: rmd_ok_def)

lemma rmd_total_update [simp]: "rmd_total (rmd_update h d) = rmd_total h + of_nat (length d)"
  by (simp add: rmd_update_def split: prod.splits)

lemma rmd_ok_new [simp]: "rmd_ok rmd_new" "rmd_pending rmd_new = []" "rmd_total rmd_new = 0"
  by (simp_all add: rmd_ok_def rmd_new_def rmd_pending_def)

interpretation rmd: padding_absorber 64 rmd_compress rmd_update rmd_state rmd_pending rmd_ok rmd_pad
proof
  fix h :: Ripemd160 assume "rmd_ok h"
  then show "rmd_pad h = (if length (rmd_pending h) = 56 then h else rmd_pad (rmd_update h [0]))"
    by (subst rmd_pad.simps) (simp add: rmd_pending_length)
qed (simp_all add: rmd_update_spec rmd_pending_length rmd_ok_buf_len)

lemma rmd_finalize_pending:
  assumes "rmd_ok h"
  shows "rmd_finalize h = concat (map to_le_bytes (foldl rmd_compress (rmd_state h)
     (chunks_exact 64 (rmd_pending h @ [0x80] @ replicate ((119 - rmd_buf_len h) mod 64) 0
        @ to_le_bytes (rmd_total h * 8)))))"
proof -
  let ?k = "(119 - rmd_buf_len h) mod 64" and ?p = "rmd_pad (rmd_update h [0x80])"
  let ?z = "0x80 # replicate ?k 0" and ?len = "to_le_bytes (rmd_total h * 8)"
  have k: "?k = (119 - length (rmd_pending h)) mod 64"
    using assms by (simp add: rmd_pending_length)
  have chain: "rmd_state ?p = rmd_state (rmd_update h ?z)" and pend: "rmd_pending ?p = rmd_pending (rmd_update h ?z)"
    and len: "length (rmd_pending ?p) = 56"
    using rmd.pad_block [OF assms k] by blast+
  have okp: "rmd_ok ?p" using rmd.padz_zeros [OF rmd.ok_upd [OF assms] refl] by blast
  have "copy_into (rmd_buf ?p) 56 ?len = rmd_pending ?p @ ?len"
    using okp len by (simp add: copy_into_def rmd_pending_def rmd_ok_def)
  then have "rmd_finalize h = concat (map to_le_bytes (rmd_compress (rmd_state ?p) (rmd_pending ?p @ ?len)))"
    by (simp add: rmd_finalize_def Let_def)
  moreover have "rmd_compress (rmd_state ?p) (rmd_pending ?p @ ?len)
      = foldl rmd_compress (rmd_state h) (chunks_exact 64 ((rmd_pending h @ ?z) @ ?len))"
    using chunks_exact_split [of 64 "rmd_pending h @ ?z" ?len] len assms
      chunks_exact_append [of 64 "rmd_pending ?p @ ?len" "[]"]
    by (simp add: chain pend rmd_update_spec del: append_assoc)
  ultimately show ?thesis by simp
qed

lemma rmd_update_new:
  "rmd_ok (rmd_update rmd_new d)"
  "rmd_state (rmd_update rmd_new d) = foldl rmd_compress (rmd_state rmd_new) (chunks_exact 64 d)"
  "rmd_pending (rmd_update rmd_new d) = chunks_remainder 64 d"
  by (simp_all add: rmd_update_spec)

lemma rmd_buf_len_new: "rmd_buf_len (rmd_update rmd_new d) = length d mod 64"
  using rmd_pending_length [OF rmd_update_new(1), of d]
  by (simp add: rmd_update_new length_chunks_remainder)

lemma rmd_digest_fold:
  "rmd_digest data = concat (map to_le_bytes (foldl rmd_compress (rmd_state rmd_new) (chunks_exact 64 (rmd_padding data))))"
  using chunks_exact_split [of 64 data "[0x80] @ replicate ((119 - length data mod 64) mod 64) 0
      @ to_le_bytes (of_nat (8 * length data) :: u64)"]
  by (simp add: rmd_digest_def rmd_finalize_pending rmd_update_new rmd_buf_len_new rmd_padding_def
      mult.commute)

lemma rmd_parts:
  "rmd_ok (foldl rmd_update rmd_new parts)
   \<and> rmd_state (foldl rmd_update rmd_new parts) = rmd_state (rmd_update rmd_new (concat parts))
   \<and> rmd_pending (foldl rmd_update rmd_new parts) = rmd_pending (rmd_update rmd_new (concat parts))
   \<and> rmd_total (foldl rmd_update rmd_new parts) = rmd_total (rmd_update rmd_new (concat parts))"
proof (induction parts rule: rev_induct)
  case Nil
  then show ?case by (simp add: rmd_update_spec)
next
  case (snoc p ps)
  let ?h = "foldl rmd_update rmd_new ps" and ?g = "rmd_update rmd_new (concat ps)"
  have ok: "rmd_ok ?h" "rmd_ok ?g" using snoc rmd_update_new(1) by auto
  have "rmd_state (rmd_update ?h p) = rmd_state (rmd_update ?g p)" "rmd_pending (rmd_update ?h p) = rmd_pending (rmd_update ?g p)"
    using ok snoc by (simp_all add: rmd_update_spec)
  moreover have "rmd_ok (rmd_update ?h p)" using ok rmd.ok_upd by blast
  ultimately show ?case
    using snoc rmd.chain_append [of rmd_new "concat ps" p] rmd.pending_append [of rmd_new "concat ps" p]
    by simp
qed

lemma rmd_finalize_parts:
  "rmd_finalize (foldl rmd_update rmd_new parts) = rmd_digest (concat parts)"
  using rmd_parts [of parts] rmd_update_new(1) [of "concat parts"]
  by (simp add: rmd_digest_def rmd_finalize_pending rmd_pending_length [symmetric])

lemma length_rmd_digest_aux: "length st = n \<Longrightarrow> length (concat (map to_le_bytes (st :: u32 list))) = 4 * n"
  by (induction st arbitrary: n) auto

section \<open>Digest lengths\<close>

lemma length_sha256_compress: "length (sha256_compress st b) = 8"
  by (simp add: sha256_compress_def Let_def split: prod.splits)

lemma length_rmd_compress: "length (rmd_compress st b) = 5"
  by (simp add: rmd_compress_def Let_def split: prod.splits)

lemma length_foldl_const:
  "(\<And>s b. length (f s b) = n) \<Longrightarrow> length s = n \<Longrightarrow> length (foldl f s bs) = n"
  by (induction bs arbitrary: s) auto

lemma length_sha256_finalize [simp]: "length (sha256_finalize h) = 32"
  by (simp add: sha256_finalize_def Let_def length_sha256_digest_aux [OF length_sha256_compress])

lemma length_sha256_digest [simp]: "length (sha256_digest d) = 32"
  by (simp add: sha256_digest_def)

lemma length_rmd_digest [simp]: "length (rmd_digest d) = 20"
  by (simp add: rmd_digest_def rmd_finalize_def Let_def length_rmd_digest_aux [OF length_rmd_compress])

lemma length_hash160 [simp]: "length (hash160 d) = 20"
  by (simp add: hash160_def)

section \<open>Constant-time comparison\<close>

lemma fold_or_xor_zero:
  "length a = length b \<Longrightarrow>
    fold (\<lambda>(x, y) acc. acc OR (x XOR y)) (zip a b) acc = (0 :: u8) \<longleftrightarrow> acc = 0 \<and> a = b"
proof (induction a b arbitrary: acc rule: list_induct2)
  case (Cons x xs y ys)
  have "acc OR (x XOR y) = 0 \<longleftrightarrow> acc = 0 \<and> x = y"
    by (auto simp: bit_eq_iff bit_or_iff bit_xor_iff)
  with Cons show ?case by auto
qed simp

lemma ct_eq_iff [simp]: "ct_eq a b \<longleftrightarrow> a = b"
  using fold_or_xor_zero [of a b 0] by (auto simp: ct_eq_def)

section \<open>Interface: an incremental hash\<close>

text \<open>
  What the MAC, key-derivation, commitment and transcript code relies on: feeding a fresh hasher
  in several pieces and finalizing gives the digest of the concatenation, and digests have a
  fixed length.
\<close>

locale incremental_hash =
  fixes new :: 'h
    and upd :: "'h \<Rightarrow> bytes \<Rightarrow> 'h"
    and fin :: "'h \<Rightarrow> bytes"
    and dig :: "bytes \<Rightarrow> bytes"
    and L :: nat
  assumes fin_parts: "fin (foldl upd new parts) = dig (concat parts)"
    and dig_length: "length (dig d) = L"
begin

lemma fin_one: "fin (upd new a) = dig a"
  using fin_parts [of "[a]"] by simp

lemma fin_two: "fin (upd (upd new a) b) = dig (a @ b)"
  using fin_parts [of "[a, b]"] by simp

lemma fin_three: "fin (upd (upd (upd new a) b) c) = dig (a @ b @ c)"
  using fin_parts [of "[a, b, c]"] by simp

lemma fin_four: "fin (upd (upd (upd (upd new a) b) c) d) = dig (a @ b @ c @ d)"
  using fin_parts [of "[a, b, c, d]"] by simp

lemma fin_length: "length (fin (foldl upd new parts)) = L"
  by (simp add: fin_parts dig_length)

end

interpretation sha256: incremental_hash sha256_new sha256_update sha256_finalize sha256_digest 32
  by unfold_locales (simp_all add: sha_finalize_parts)

interpretation rmd160: incremental_hash rmd_new rmd_update rmd_finalize rmd_digest 20
  by unfold_locales (simp_all add: rmd_finalize_parts)

section \<open>Properties\<close>

text \<open>C39: SHA-256 fed in any number of \<^verbatim>\<open>update\<close> calls is the fold of the compression function
  from the initial state over the blocks of the padded message (marker, zeros, 64-bit big-endian
  bit length), serialized big-endian; in particular the padding loop terminates.\<close>

theorem sha256_streaming:
  "sha256_finalize (foldl sha256_update sha256_new parts)
     = concat (map to_be_bytes
         (foldl sha256_compress SHA256_H0 (chunks_exact 64 (sha_padding (concat parts)))))"
  by (simp add: sha_finalize_parts sha_digest_fold) (simp add: sha256_new_def)

text \<open>RIPEMD-160 likewise, with the length and the state serialized little-endian.\<close>

theorem ripemd160_streaming:
  "rmd_finalize (foldl rmd_update rmd_new parts)
     = concat (map to_le_bytes
         (foldl rmd_compress (rmd_state rmd_new) (chunks_exact 64 (rmd_padding (concat parts)))))"
  by (simp add: rmd_finalize_parts rmd_digest_fold)

end
