(* ===== verification/Crypto_Cipher.thy ===== *)
theory Crypto_Cipher
  imports Block_Hash Crypto_Hash
begin

text \<open>
  \<^verbatim>\<open>src/src/crypto/chacha20.rs\<close>, \<^verbatim>\<open>poly1305.rs\<close> and \<^verbatim>\<open>aead.rs\<close>: the ChaCha20 block
  function and keystream, the 26-bit-limb Poly1305 on 32- and 64-bit words, and the AEAD built
  from them.
\<close>

unbundle bit_operations_syntax

section \<open>ChaCha20\<close>

definition CHACHA_SIGMA :: "u32 list" where
  "CHACHA_SIGMA = [0x61707865, 0x3320646e, 0x79622d32, 0x6b206574]"

record ChaCha20 =
  cc_state :: "u32 list"

definition chacha_new :: "bytes \<Rightarrow> bytes \<Rightarrow> u32 \<Rightarrow> ChaCha20" where
  "chacha_new key nonce counter =
     \<lparr>cc_state = CHACHA_SIGMA @ map (\<lambda>i. from_le_bytes (take 4 (drop (i * 4) key))) [0..<8]
        @ [counter] @ map (\<lambda>i. from_le_bytes (take 4 (drop (i * 4) nonce))) [0..<3]\<rparr>"

definition quarter :: "nat \<Rightarrow> nat \<Rightarrow> nat \<Rightarrow> nat \<Rightarrow> u32 list \<Rightarrow> u32 list" where
  "quarter a b c d x =
     (let x = x[a := x ! a + x ! b];
          x = x[d := word_rotl 16 (x ! d XOR x ! a)];
          x = x[c := x ! c + x ! d];
          x = x[b := word_rotl 12 (x ! b XOR x ! c)];
          x = x[a := x ! a + x ! b];
          x = x[d := word_rotl 8 (x ! d XOR x ! a)];
          x = x[c := x ! c + x ! d];
          x = x[b := word_rotl 7 (x ! b XOR x ! c)]
      in x)"

definition double_round :: "u32 list \<Rightarrow> u32 list" where
  "double_round x =
     (let x = quarter 0 4 8 12 x;
          x = quarter 1 5 9 13 x;
          x = quarter 2 6 10 14 x;
          x = quarter 3 7 11 15 x;
          x = quarter 0 5 10 15 x;
          x = quarter 1 6 11 12 x;
          x = quarter 2 7 8 13 x;
          x = quarter 3 4 9 14 x
      in x)"

definition chacha_block :: "ChaCha20 \<Rightarrow> u32 \<Rightarrow> bytes" where
  "chacha_block c counter =
     (let input = (cc_state c)[12 := counter];
          x = (double_round ^^ 10) input
      in concat (map (\<lambda>i. to_le_bytes (x ! i + input ! i)) [0..<16]))"

text \<open>The loop of \<^verbatim>\<open>xor\<close> over \<^verbatim>\<open>data.chunks_mut(64)\<close>, with the wrapping block counter.\<close>

primrec chacha_xor_chunks :: "ChaCha20 \<Rightarrow> u32 \<Rightarrow> bytes list \<Rightarrow> bytes list" where
  "chacha_xor_chunks c counter [] = []"
| "chacha_xor_chunks c counter (chunk # rest) =
     map2 (XOR) chunk (chacha_block c counter) # chacha_xor_chunks c (counter + 1) rest"

definition chacha_xor :: "ChaCha20 \<Rightarrow> bytes \<Rightarrow> bytes" where
  "chacha_xor c data = concat (chacha_xor_chunks c (cc_state c ! 12) (chunks 64 data))"

definition chacha_keystream :: "bytes \<Rightarrow> bytes \<Rightarrow> u32 \<Rightarrow> nat \<Rightarrow> bytes" where
  "chacha_keystream key nonce counter len =
     chacha_xor (chacha_new key nonce counter) (replicate len 0)"

section \<open>Poly1305\<close>

record Poly1305 =
  p_r :: "u32 list"
  p_h :: "u32 list"
  p_pad :: "u32 list"
  p_buf :: bytes
  p_buf_len :: nat

definition le32 :: "bytes \<Rightarrow> nat \<Rightarrow> u32" where
  "le32 b i = from_le_bytes (take 4 (drop i b))"

definition poly_new :: "bytes \<Rightarrow> Poly1305" where
  "poly_new key =
     \<lparr>p_r = [le32 key 0 AND 0x03ffffff,
             drop_bit 2 (le32 key 3) AND 0x03ffff03,
             drop_bit 4 (le32 key 6) AND 0x03ffc0ff,
             drop_bit 6 (le32 key 9) AND 0x03f03fff,
             drop_bit 8 (le32 key 12) AND 0x000fffff],
      p_h = [0, 0, 0, 0, 0],
      p_pad = [le32 key 16, le32 key 20, le32 key 24, le32 key 28],
      p_buf = replicate 16 0, p_buf_len = 0\<rparr>"

definition mul64 :: "u32 \<Rightarrow> u32 \<Rightarrow> u64" where
  "mul64 a b = ucast a * ucast b"

text \<open>One block: add the message limbs, multiply by \<open>r\<close>, propagate carries partially.\<close>

definition poly_block_h :: "u32 list \<Rightarrow> u32 list \<Rightarrow> bytes \<Rightarrow> u32 \<Rightarrow> u32 list" where
  "poly_block_h r h m hibit =
     (let r0 = r ! 0; r1 = r ! 1; r2 = r ! 2; r3 = r ! 3; r4 = r ! 4;
          s1 = r1 * 5; s2 = r2 * 5; s3 = r3 * 5; s4 = r4 * 5;
          h0 = h ! 0 + (le32 m 0 AND 0x03ffffff);
          h1 = h ! 1 + (drop_bit 2 (le32 m 3) AND 0x03ffffff);
          h2 = h ! 2 + (drop_bit 4 (le32 m 6) AND 0x03ffffff);
          h3 = h ! 3 + (drop_bit 6 (le32 m 9) AND 0x03ffffff);
          h4 = h ! 4 + (drop_bit 8 (le32 m 12) OR hibit);
          d0 = mul64 h0 r0 + mul64 h1 s4 + mul64 h2 s3 + mul64 h3 s2 + mul64 h4 s1;
          d1 = mul64 h0 r1 + mul64 h1 r0 + mul64 h2 s4 + mul64 h3 s3 + mul64 h4 s2;
          d2 = mul64 h0 r2 + mul64 h1 r1 + mul64 h2 r0 + mul64 h3 s4 + mul64 h4 s3;
          d3 = mul64 h0 r3 + mul64 h1 r2 + mul64 h2 r1 + mul64 h3 r0 + mul64 h4 s4;
          d4 = mul64 h0 r4 + mul64 h1 r3 + mul64 h2 r2 + mul64 h3 r1 + mul64 h4 r0;
          c = drop_bit 26 d0; h0 = (ucast (d0 AND 0x03ffffff) :: u32); d1 = d1 + c;
          c = drop_bit 26 d1; h1 = (ucast (d1 AND 0x03ffffff) :: u32); d2 = d2 + c;
          c = drop_bit 26 d2; h2 = (ucast (d2 AND 0x03ffffff) :: u32); d3 = d3 + c;
          c = drop_bit 26 d3; h3 = (ucast (d3 AND 0x03ffffff) :: u32); d4 = d4 + c;
          c = drop_bit 26 d4; h4 = (ucast (d4 AND 0x03ffffff) :: u32);
          h0 = h0 + (ucast c :: u32) * 5;
          c' = drop_bit 26 h0; h0 = h0 AND 0x03ffffff; h1 = h1 + c'
      in [h0, h1, h2, h3, h4])"

definition poly_block :: "Poly1305 \<Rightarrow> bytes \<Rightarrow> u32 \<Rightarrow> Poly1305" where
  "poly_block p m hibit = p\<lparr>p_h := poly_block_h (p_r p) (p_h p) m hibit\<rparr>"

definition poly_update :: "Poly1305 \<Rightarrow> bytes \<Rightarrow> Poly1305" where
  "poly_update p data =
     (case absorb 16 (\<lambda>h m. poly_block_h (p_r p) h m 0x1000000) (p_h p, p_buf p, p_buf_len p) data of
        (h, buf, n) \<Rightarrow> p\<lparr>p_h := h, p_buf := buf, p_buf_len := n\<rparr>)"

text \<open>The full carry and the conditional subtraction of \<open>p = 2^130 - 5\<close> at the end.\<close>

definition poly_full_carry :: "u32 list \<Rightarrow> u32 list" where
  "poly_full_carry h =
     (let h0 = h ! 0; h1 = h ! 1; h2 = h ! 2; h3 = h ! 3; h4 = h ! 4;
          c = drop_bit 26 h1; h1 = h1 AND 0x03ffffff; h2 = h2 + c;
          c = drop_bit 26 h2; h2 = h2 AND 0x03ffffff; h3 = h3 + c;
          c = drop_bit 26 h3; h3 = h3 AND 0x03ffffff; h4 = h4 + c;
          c = drop_bit 26 h4; h4 = h4 AND 0x03ffffff; h0 = h0 + c * 5;
          c = drop_bit 26 h0; h0 = h0 AND 0x03ffffff; h1 = h1 + c
      in [h0, h1, h2, h3, h4])"

definition poly_reduce :: "u32 list \<Rightarrow> u32 list" where
  "poly_reduce h =
     (let h0 = h ! 0; h1 = h ! 1; h2 = h ! 2; h3 = h ! 3; h4 = h ! 4;
          g0 = h0 + 5; c = drop_bit 26 g0; g0 = g0 AND 0x03ffffff;
          g1 = h1 + c; c = drop_bit 26 g1; g1 = g1 AND 0x03ffffff;
          g2 = h2 + c; c = drop_bit 26 g2; g2 = g2 AND 0x03ffffff;
          g3 = h3 + c; c = drop_bit 26 g3; g3 = g3 AND 0x03ffffff;
          g4 = h4 + c - 0x4000000;
          take_g = drop_bit 31 g4 - 1;
          keep_h = NOT take_g
      in [(h0 AND keep_h) OR (g0 AND take_g), (h1 AND keep_h) OR (g1 AND take_g),
          (h2 AND keep_h) OR (g2 AND take_g), (h3 AND keep_h) OR (g3 AND take_g),
          (h4 AND keep_h) OR (g4 AND take_g)])"

text \<open>Repacking into four 32-bit words and adding the pad modulo \<open>2^128\<close>.\<close>

definition poly_tag :: "u32 list \<Rightarrow> u32 list \<Rightarrow> bytes" where
  "poly_tag h pad =
     (let h0 = h ! 0; h1 = h ! 1; h2 = h ! 2; h3 = h ! 3; h4 = h ! 4;
          w0 = h0 OR push_bit 26 h1;
          w1 = drop_bit 6 h1 OR push_bit 20 h2;
          w2 = drop_bit 12 h2 OR push_bit 14 h3;
          w3 = drop_bit 18 h3 OR push_bit 8 h4;
          f = (ucast w0 :: u64) + ucast (pad ! 0); t0 = (ucast f :: u32);
          f = (ucast w1 :: u64) + ucast (pad ! 1) + drop_bit 32 f; t1 = (ucast f :: u32);
          f = (ucast w2 :: u64) + ucast (pad ! 2) + drop_bit 32 f; t2 = (ucast f :: u32);
          f = (ucast w3 :: u64) + ucast (pad ! 3) + drop_bit 32 f; t3 = (ucast f :: u32)
      in to_le_bytes t0 @ to_le_bytes t1 @ to_le_bytes t2 @ to_le_bytes t3)"

definition poly_finalize :: "Poly1305 \<Rightarrow> bytes" where
  "poly_finalize p =
     (let p = (if 0 < p_buf_len p then
                 let block = copy_into (replicate 16 0) 0 (take (p_buf_len p) (p_buf p));
                     block = block[p_buf_len p := 1]
                 in poly_block p block 0
               else p)
      in poly_tag (poly_reduce (poly_full_carry (p_h p))) (p_pad p))"

definition poly_mac :: "bytes \<Rightarrow> bytes \<Rightarrow> bytes" where
  "poly_mac key data = poly_finalize (poly_update (poly_new key) data)"

section \<open>ChaCha20-Poly1305\<close>

definition TAG_LEN :: nat where "TAG_LEN = 16"

datatype DecryptError = DecryptError

definition aead_mac :: "bytes \<Rightarrow> bytes \<Rightarrow> bytes \<Rightarrow> bytes \<Rightarrow> bytes" where
  "aead_mac key nonce aad ciphertext =
     (let poly_key = chacha_xor (chacha_new key nonce 0) (replicate 32 0);
          p = poly_new poly_key;
          p = poly_update p aad;
          p = poly_update p (replicate ((16 - length aad mod 16) mod 16) 0);
          p = poly_update p ciphertext;
          p = poly_update p (replicate ((16 - length ciphertext mod 16) mod 16) 0);
          p = poly_update p (to_le_bytes (of_nat (length aad) :: u64));
          p = poly_update p (to_le_bytes (of_nat (length ciphertext) :: u64))
      in poly_finalize p)"

definition aead_encrypt :: "bytes \<Rightarrow> bytes \<Rightarrow> bytes \<Rightarrow> bytes \<Rightarrow> bytes" where
  "aead_encrypt key nonce aad plaintext =
     (let out = chacha_xor (chacha_new key nonce 1) plaintext;
          tag = aead_mac key nonce aad out
      in out @ tag)"

definition aead_decrypt :: "bytes \<Rightarrow> bytes \<Rightarrow> bytes \<Rightarrow> bytes \<Rightarrow> (DecryptError, bytes) result" where
  "aead_decrypt key nonce aad ct_tag =
     (if length ct_tag < TAG_LEN then Inl DecryptError
      else let ct = take (length ct_tag - TAG_LEN) ct_tag;
               tag = drop (length ct_tag - TAG_LEN) ct_tag;
               expect = aead_mac key nonce aad ct
           in if \<not> ct_eq expect tag then Inl DecryptError
              else Inr (chacha_xor (chacha_new key nonce 1) ct))"

definition nonce_from_counter :: "u64 \<Rightarrow> bytes" where
  "nonce_from_counter n = copy_into (replicate 12 0) 4 (to_le_bytes n)"

section \<open>ChaCha20: the keystream cipher is an involution\<close>

lemma concat_length_const:
  "(\<And>x. length (f x) = k) \<Longrightarrow> length (concat (map f xs)) = k * length xs"
  by (induction xs) auto

lemma length_chacha_block [simp]: "length (chacha_block c n) = 64"
  unfolding chacha_block_def Let_def by (subst concat_length_const [where k = 4]) simp_all

lemma chunks_le: "0 < n \<Longrightarrow> list_all (\<lambda>c. length c \<le> n) (chunks n xs)"
  by (induction n xs rule: chunks.induct) (subst chunks.simps, auto)

lemma concat_chunks: "0 < n \<Longrightarrow> concat (chunks n xs) = xs"
  by (induction n xs rule: chunks.induct) (subst chunks.simps, auto)

lemma map2_xor_twice:
  "length xs \<le> length ks \<Longrightarrow> map2 (XOR) (map2 (XOR) xs ks) (ks :: bytes) = xs"
  by (induction xs ks rule: list_induct2') (auto simp: xor.assoc)

lemma xor_chunks_twice:
  "list_all (\<lambda>c. length c \<le> 64) cs \<Longrightarrow>
     chacha_xor_chunks c n (chacha_xor_chunks c n cs) = cs"
  by (induction cs arbitrary: n) (auto simp: map2_xor_twice)

lemma length_concat_xor_chunks:
  "list_all (\<lambda>c. length c \<le> 64) cs \<Longrightarrow>
     length (concat (chacha_xor_chunks c n cs)) = length (concat cs)"
  by (induction cs arbitrary: n) auto

lemma chunks_xor_chunks:
  "chunks 64 (concat (chacha_xor_chunks c n (chunks 64 xs))) = chacha_xor_chunks c n (chunks 64 xs)"
proof (induction "length xs" arbitrary: xs n rule: less_induct)
  case less
  show ?case
  proof (cases "xs = []")
    case False
    let ?h = "map2 (XOR) (take 64 xs) (chacha_block c n)"
    let ?t = "concat (chacha_xor_chunks c (n + 1) (chunks 64 (drop 64 xs)))"
    have IH: "chunks 64 ?t = chacha_xor_chunks c (n + 1) (chunks 64 (drop 64 xs))"
      using False by (intro less) auto
    have "length ?h = min (length xs) 64" by simp
    with False have ne: "?h @ ?t \<noteq> []" by (metis append_is_Nil_conv length_0_conv min_def zero_neq_numeral)
    have "take 64 (?h @ ?t) = ?h \<and> drop 64 (?h @ ?t) = ?t"
    proof (cases "64 \<le> length xs")
      case True
      then have "length ?h = 64" by simp
      then show ?thesis by simp
    next
      case False
      then have "?t = []" by simp
      with False show ?thesis by simp
    qed
    then have "chunks 64 (?h @ ?t) = ?h # chunks 64 ?t"
      using chunks_step [of 64 "?h @ ?t"] ne by simp
    then show ?thesis using False IH by (simp add: chunks_step [of 64 xs])
  qed simp
qed

lemma length_chacha_xor [simp]: "length (chacha_xor c d) = length d"
  by (simp add: chacha_xor_def length_concat_xor_chunks chunks_le concat_chunks)

lemma chacha_xor_involution [simp]: "chacha_xor c (chacha_xor c d) = d"
  by (simp add: chacha_xor_def chunks_xor_chunks xor_chunks_twice chunks_le concat_chunks)

section \<open>Interface: encrypt-then-MAC\<close>

text \<open>
  A length-preserving involutive cipher and a MAC with tags of a fixed length, sealed as
  ciphertext followed by tag. The client lemma: opening succeeds exactly on what sealing
  produced, so a changed byte is either rejected or a MAC collision.
\<close>

locale encrypt_then_mac =
  fixes stream :: "bytes \<Rightarrow> bytes"
    and mac :: "bytes \<Rightarrow> bytes"
    and seal :: "bytes \<Rightarrow> bytes"
    and unseal :: "bytes \<Rightarrow> ('e, bytes) result"
    and err :: 'e
    and n :: nat
  assumes stream_involutive: "stream (stream m) = m"
    and stream_length: "length (stream m) = length m"
    and mac_length: "length (mac c) = n"
    and seal_eq: "seal m = stream m @ mac (stream m)"
    and unseal_short: "length x < n \<Longrightarrow> unseal x = Inl err"
    and unseal_eq: "length t = n \<Longrightarrow> unseal (c @ t) = (if t = mac c then Inr (stream c) else Inl err)"
begin

lemma unseal_iff: "unseal x = Inr m \<longleftrightarrow> x = seal m"
proof (cases "length x < n")
  case True
  then show ?thesis using mac_length by (auto simp: unseal_short seal_eq)
next
  case False
  define c t where "c = take (length x - n) x" and "t = drop (length x - n) x"
  have x: "x = c @ t" "length t = n" using False by (simp_all add: c_def t_def)
  have "x = seal m \<longleftrightarrow> c = stream m \<and> t = mac (stream m)"
    using x mac_length [of "stream m"] by (auto simp: seal_eq)
  then show ?thesis using x unseal_eq [of t c] stream_involutive by auto
qed

lemma unseal_seal: "unseal (seal m) = Inr m"
  by (simp add: unseal_iff)

lemma unseal_fails: "\<nexists>m. x = seal m \<Longrightarrow> \<exists>e. unseal x = Inl e"
  by (metis unseal_iff sum.exhaust)

lemma seal_length: "length (seal m) = length m + n"
  by (simp add: seal_eq stream_length mac_length)

end

lemma length_poly_tag [simp]: "length (poly_tag h pad) = 16"
  by (simp add: poly_tag_def Let_def)

lemma length_poly_finalize [simp]: "length (poly_finalize p) = 16"
  by (simp add: poly_finalize_def Let_def)

lemma length_aead_mac [simp]: "length (aead_mac k n a c) = 16"
  by (simp add: aead_mac_def Let_def)

interpretation aead: encrypt_then_mac "chacha_xor (chacha_new key nonce 1)"
  "aead_mac key nonce aad" "aead_encrypt key nonce aad" "aead_decrypt key nonce aad" DecryptError 16
  for key nonce aad
  by unfold_locales (auto simp: aead_encrypt_def aead_decrypt_def TAG_LEN_def Let_def)

section \<open>Properties\<close>

text \<open>encrypting twice with the same ChaCha20 key, nonce and counter gives back the data,
  for every length, across the wrap-around of the block counter.\<close>

theorem chacha20_involution:
  "chacha_xor (chacha_new key nonce n) (chacha_xor (chacha_new key nonce n) data) = data
   \<and> length (chacha_xor (chacha_new key nonce n) data) = length data"
  by simp

text \<open>C19: \<^verbatim>\<open>aead::decrypt\<close> returns a plaintext exactly for the ciphertext-and-tag strings that
  \<^verbatim>\<open>encrypt\<close> produces for it under the same key, nonce and associated data; every other string,
  short ones included, gives \<open>DecryptError\<close>.\<close>

theorem aead_decrypt_iff_encrypt:
  "(aead_decrypt key nonce aad c = Inr m \<longleftrightarrow> c = aead_encrypt key nonce aad m)
   \<and> (aead_decrypt key nonce aad c = Inl DecryptError
        \<longleftrightarrow> (\<nexists>m. c = aead_encrypt key nonce aad m))"
proof -
  have "aead_decrypt key nonce aad c = Inl DecryptError \<longleftrightarrow> (\<nexists>m. aead_decrypt key nonce aad c = Inr m)"
    by (cases "aead_decrypt key nonce aad c") (auto, metis DecryptError.exhaust)
  then show ?thesis by (simp add: aead.unseal_iff)
qed

end
