(* ===== verification/Poly1305_Correct.thy ===== *)
theory Poly1305_Correct
  imports Crypto_Cipher
begin

text \<open>
  Functional correctness of the limb arithmetic of \<^verbatim>\<open>src/src/crypto/poly1305.rs\<close>: no 32- or
  64-bit operation overflows, the accumulator stays congruent to the RFC 8439 polynomial modulo
  \<open>2^130 - 5\<close>, the final carry and conditional subtraction give the reduced value, and the tag
  is that value plus the pad modulo \<open>2^128\<close>.
\<close>

unbundle bit_operations_syntax

section \<open>The specification\<close>

definition P1305 :: nat where "P1305 = 2 ^ 130 - 5"

definition clamp_r :: "nat \<Rightarrow> nat" where
  "clamp_r r = r AND 0x0ffffffc0ffffffc0ffffffc0fffffff"

text \<open>The RFC 8439 accumulator: each chunk of at most 16 bytes is read little-endian with a
  one byte appended.\<close>

definition poly_spec_step :: "nat \<Rightarrow> nat \<Rightarrow> bytes \<Rightarrow> nat" where
  "poly_spec_step r a b = (a + le_val (b @ [1])) * r mod P1305"

definition poly_spec :: "bytes \<Rightarrow> bytes \<Rightarrow> nat" where
  "poly_spec key data =
     (foldl (poly_spec_step (clamp_r (le_val (take 16 key)))) 0 (chunks 16 data)
       + le_val (drop 16 key)) mod 2 ^ 128"

section \<open>From words to natural numbers\<close>

abbreviation B :: nat where "B \<equiv> 0x4000000"

lemma u32_mask: "(0x3ffffff :: u32) = mask 26"
  by (simp add: mask_eq_exp_minus_1)

lemma u64_mask: "(0x3ffffff :: u64) = mask 26"
  by (simp add: mask_eq_exp_minus_1)

lemma unat_mask32: "unat ((w :: u32) AND 0x3ffffff) = unat w mod B"
  by (simp only: u32_mask take_bit_eq_mask [symmetric] unsigned_take_bit_eq) (simp add: take_bit_eq_mod)

lemma unat_mask64: "unat ((w :: u64) AND 0x3ffffff) = unat w mod B"
  by (simp only: u64_mask take_bit_eq_mask [symmetric] unsigned_take_bit_eq) (simp add: take_bit_eq_mod)

lemma unat_dropb: "unat (drop_bit n w) = unat w div 2 ^ n"
  by (simp only: unat_drop_bit_eq) (simp add: drop_bit_eq_div)

lemma unat_u32_add: "unat (a :: u32) + unat b < 2 ^ 32 \<Longrightarrow> unat (a + b) = unat a + unat b"
  by (simp add: unat_word_ariths)

lemma unat_u64_add: "unat (a :: u64) + unat b < 2 ^ 64 \<Longrightarrow> unat (a + b) = unat a + unat b"
  by (simp add: unat_word_ariths)

lemma unat_times5: "5 * unat (a :: u32) < 2 ^ 32 \<Longrightarrow> unat (a * 5) = 5 * unat a"
  by (simp add: unat_word_ariths mult.commute)

lemma unat_low64: "unat (ucast ((d :: u64) AND 0x3ffffff) :: u32) = unat d mod B"
  by (simp add: unsigned_ucast_eq unat_mask64 take_bit_eq_mod)

lemma unat_ucast32: "unat (c :: u64) < 2 ^ 32 \<Longrightarrow> unat (ucast c :: u32) = unat c"
  by (simp add: unsigned_ucast_eq take_bit_eq_mod)

lemma unat_u32_less: "unat (a :: u32) < 2 ^ 32"
  using unsigned_less [of a] by simp

lemma unat_mul64: "unat (mul64 a b) = unat a * unat b"
proof -
  have "unat a * unat b < 2 ^ 32 * 2 ^ 32"
    using unat_u32_less by (intro mult_strict_mono) auto
  moreover have "unat a < 2 ^ 64" "unat b < 2 ^ 64"
    using unat_u32_less [of a] unat_u32_less [of b] by simp_all
  ultimately show ?thesis
    by (simp add: mul64_def unat_word_ariths unsigned_ucast_eq take_bit_eq_mod)
qed

lemma unat_mul64_sum:
  assumes "unat a0 * unat b0 + unat a1 * unat b1 + unat a2 * unat b2 + unat a3 * unat b3
      + unat a4 * unat b4 < 2 ^ 64"
  shows "unat (mul64 a0 b0 + mul64 a1 b1 + mul64 a2 b2 + mul64 a3 b3 + mul64 a4 b4)
    = unat a0 * unat b0 + unat a1 * unat b1 + unat a2 * unat b2 + unat a3 * unat b3
      + unat a4 * unat b4"
  using assms by (simp add: unat_u64_add unat_mul64)

lemma sum5_le:
  fixes a0 :: nat
  assumes "a0 \<le> H" "a1 \<le> H" "a2 \<le> H" "a3 \<le> H" "a4 \<le> H"
    and "b0 \<le> R" "b1 \<le> R" "b2 \<le> R" "b3 \<le> R" "b4 \<le> R"
  shows "a0 * b0 + a1 * b1 + a2 * b2 + a3 * b3 + a4 * b4 \<le> 5 * (H * R)"
  using mult_le_mono [OF assms(1,6)] mult_le_mono [OF assms(2,7)] mult_le_mono [OF assms(3,8)]
    mult_le_mono [OF assms(4,9)] mult_le_mono [OF assms(5,10)]
  by linarith

section \<open>The arithmetic of one block\<close>

definition val5 :: "nat \<Rightarrow> nat \<Rightarrow> nat \<Rightarrow> nat \<Rightarrow> nat \<Rightarrow> nat" where
  "val5 a b c d e = a + B * b + B ^ 2 * c + B ^ 3 * d + B ^ 4 * e"

lemma P1305_B: "P1305 + 5 = B ^ 5"
  by (simp add: P1305_def)

text \<open>Schoolbook multiplication with the high products folded back by \<open>B^5 = 5\<close>.\<close>

lemma mul_fold:
  fixes h0 :: int
  assumes "d0 = h0 * r0 + h1 * (5 * r4) + h2 * (5 * r3) + h3 * (5 * r2) + h4 * (5 * r1)"
    and "d1 = h0 * r1 + h1 * r0 + h2 * (5 * r4) + h3 * (5 * r3) + h4 * (5 * r2)"
    and "d2 = h0 * r2 + h1 * r1 + h2 * r0 + h3 * (5 * r4) + h4 * (5 * r3)"
    and "d3 = h0 * r3 + h1 * r2 + h2 * r1 + h3 * r0 + h4 * (5 * r4)"
    and "d4 = h0 * r4 + h1 * r3 + h2 * r2 + h3 * r1 + h4 * r0"
  shows "(h0 + b * h1 + b ^ 2 * h2 + b ^ 3 * h3 + b ^ 4 * h4)
      * (r0 + b * r1 + b ^ 2 * r2 + b ^ 3 * r3 + b ^ 4 * r4)
    = d0 + b * d1 + b ^ 2 * d2 + b ^ 3 * d3 + b ^ 4 * d4
      + (b ^ 5 - 5) * ((h1 * r4 + h2 * r3 + h3 * r2 + h4 * r1)
          + b * (h2 * r4 + h3 * r3 + h4 * r2) + b ^ 2 * (h3 * r4 + h4 * r3) + b ^ 3 * (h4 * r4))"
  unfolding assms by algebra

lemma carry_fold:
  fixes x0 :: int
  assumes "d0 = b * c0 + x0" "d1 + c0 = b * c1 + x1" "d2 + c1 = b * c2 + x2"
    and "d3 + c2 = b * c3 + x3" "d4 + c3 = b * c4 + x4" "x0 + 5 * c4 = b * c5 + z0"
  shows "d0 + b * d1 + b ^ 2 * d2 + b ^ 3 * d3 + b ^ 4 * d4
    = z0 + b * (x1 + c5) + b ^ 2 * x2 + b ^ 3 * x3 + b ^ 4 * x4 + (b ^ 5 - 5) * c4"
proof -
  have "d0 = b * c0 + x0" "d1 = b * c1 + x1 - c0" "d2 = b * c2 + x2 - c1"
    "d3 = b * c3 + x3 - c2" "d4 = b * c4 + x4 - c3" "z0 = x0 + 5 * c4 - b * c5"
    using assms by linarith+
  then show ?thesis by algebra
qed

lemma mod_P1305_int: "int a = int b + int P1305 * k \<Longrightarrow> b mod P1305 = a mod P1305"
  by (metis mod_mult_self2 of_nat_eq_iff zmod_int)

lemma int_val5:
  "int (val5 a b c d e) = int a + int B * int b + int B ^ 2 * int c + int B ^ 3 * int d + int B ^ 4 * int e"
  by (simp only: val5_def of_nat_add of_nat_mult of_nat_power)

lemma int_div_mod: "int n = int B * int (n div B) + int (n mod B)"
  by (metis mult_div_mod_eq of_nat_add of_nat_mult)

lemma block_congruent:
  fixes h0 :: nat
  assumes d: "d0 = h0 * r0 + h1 * (5 * r4) + h2 * (5 * r3) + h3 * (5 * r2) + h4 * (5 * r1)"
      "d1 = h0 * r1 + h1 * r0 + h2 * (5 * r4) + h3 * (5 * r3) + h4 * (5 * r2)"
      "d2 = h0 * r2 + h1 * r1 + h2 * r0 + h3 * (5 * r4) + h4 * (5 * r3)"
      "d3 = h0 * r3 + h1 * r2 + h2 * r1 + h3 * r0 + h4 * (5 * r4)"
      "d4 = h0 * r4 + h1 * r3 + h2 * r2 + h3 * r1 + h4 * r0"
    and c: "c0 = d0 div B" "c1 = (d1 + c0) div B" "c2 = (d2 + c1) div B"
      "c3 = (d3 + c2) div B" "c4 = (d4 + c3) div B" "y0 = d0 mod B + c4 * 5"
  shows "val5 (y0 mod B) ((d1 + c0) mod B + y0 div B) ((d2 + c1) mod B) ((d3 + c2) mod B)
      ((d4 + c3) mod B) mod P1305
    = val5 h0 h1 h2 h3 h4 * val5 r0 r1 r2 r3 r4 mod P1305"
proof -
  let ?b = "int B"
  have divs: "int d0 = ?b * int c0 + int (d0 mod B)"
    "int d1 + int c0 = ?b * int c1 + int ((d1 + c0) mod B)"
    "int d2 + int c1 = ?b * int c2 + int ((d2 + c1) mod B)"
    "int d3 + int c2 = ?b * int c3 + int ((d3 + c2) mod B)"
    "int d4 + int c3 = ?b * int c4 + int ((d4 + c3) mod B)"
    "int (d0 mod B) + 5 * int c4 = ?b * int (y0 div B) + int (y0 mod B)"
    using int_div_mod [of d0] int_div_mod [of "d1 + c0"] int_div_mod [of "d2 + c1"]
      int_div_mod [of "d3 + c2"] int_div_mod [of "d4 + c3"] int_div_mod [of y0]
    unfolding c by (simp_all only: of_nat_add of_nat_mult of_nat_numeral mult.commute)
  have dint: "int d0 = int h0 * int r0 + int h1 * (5 * int r4) + int h2 * (5 * int r3)
        + int h3 * (5 * int r2) + int h4 * (5 * int r1)"
    "int d1 = int h0 * int r1 + int h1 * int r0 + int h2 * (5 * int r4) + int h3 * (5 * int r3)
        + int h4 * (5 * int r2)"
    "int d2 = int h0 * int r2 + int h1 * int r1 + int h2 * int r0 + int h3 * (5 * int r4)
        + int h4 * (5 * int r3)"
    "int d3 = int h0 * int r3 + int h1 * int r2 + int h2 * int r1 + int h3 * int r0
        + int h4 * (5 * int r4)"
    "int d4 = int h0 * int r4 + int h1 * int r3 + int h2 * int r2 + int h3 * int r1
        + int h4 * int r0"
    unfolding d by simp_all
  have p: "?b ^ 5 - 5 = int P1305" by (simp add: P1305_def)
  obtain D Q where HR: "int (val5 h0 h1 h2 h3 h4) * int (val5 r0 r1 r2 r3 r4) = D + int P1305 * Q"
    and D: "D = int d0 + ?b * int d1 + ?b ^ 2 * int d2 + ?b ^ 3 * int d3 + ?b ^ 4 * int d4"
    using mul_fold [OF dint, of ?b] unfolding p int_val5 by blast
  let ?z = "val5 (y0 mod B) ((d1 + c0) mod B + y0 div B) ((d2 + c1) mod B) ((d3 + c2) mod B)
    ((d4 + c3) mod B)"
  have "D = int ?z + int P1305 * int c4"
    unfolding D int_val5 carry_fold [OF divs] p by (simp only: of_nat_add)
  then have "int (val5 h0 h1 h2 h3 h4 * val5 r0 r1 r2 r3 r4) = int ?z + int P1305 * (int c4 + Q)"
    by (simp only: of_nat_mult HR distrib_left add.assoc)
  then show ?thesis by (rule mod_P1305_int)
qed

section \<open>One block on machine words\<close>

definition lval :: "u32 list \<Rightarrow> nat" where
  "lval h = val5 (unat (h ! 0)) (unat (h ! 1)) (unat (h ! 2)) (unat (h ! 3)) (unat (h ! 4))"

text \<open>The bounds that hold between blocks, and those of the clamped key.\<close>

definition limbs_ok :: "u32 list \<Rightarrow> bool" where
  "limbs_ok h \<longleftrightarrow> length h = 5 \<and> unat (h ! 0) < B \<and> unat (h ! 1) < B + 64 \<and> unat (h ! 2) < B
     \<and> unat (h ! 3) < B \<and> unat (h ! 4) < B"

definition r_ok :: "u32 list \<Rightarrow> bool" where
  "r_ok r \<longleftrightarrow> length r = 5 \<and> unat (r ! 0) < B \<and> unat (r ! 1) < B \<and> unat (r ! 2) < B
     \<and> unat (r ! 3) < B \<and> unat (r ! 4) < B"

definition mul_carry :: "u32 list \<Rightarrow> u32 \<Rightarrow> u32 \<Rightarrow> u32 \<Rightarrow> u32 \<Rightarrow> u32 \<Rightarrow> u32 list" where
  "mul_carry r h0 h1 h2 h3 h4 =
     (let r0 = r ! 0; r1 = r ! 1; r2 = r ! 2; r3 = r ! 3; r4 = r ! 4;
          s1 = r1 * 5; s2 = r2 * 5; s3 = r3 * 5; s4 = r4 * 5;
          d0 = mul64 h0 r0 + mul64 h1 s4 + mul64 h2 s3 + mul64 h3 s2 + mul64 h4 s1;
          d1 = mul64 h0 r1 + mul64 h1 r0 + mul64 h2 s4 + mul64 h3 s3 + mul64 h4 s2
                 + drop_bit 26 d0;
          d2 = mul64 h0 r2 + mul64 h1 r1 + mul64 h2 r0 + mul64 h3 s4 + mul64 h4 s3
                 + drop_bit 26 d1;
          d3 = mul64 h0 r3 + mul64 h1 r2 + mul64 h2 r1 + mul64 h3 r0 + mul64 h4 s4
                 + drop_bit 26 d2;
          d4 = mul64 h0 r4 + mul64 h1 r3 + mul64 h2 r2 + mul64 h3 r1 + mul64 h4 r0
                 + drop_bit 26 d3;
          y0 = ucast (d0 AND 0x03ffffff) + ucast (drop_bit 26 d4) * 5
      in [y0 AND 0x03ffffff, ucast (d1 AND 0x03ffffff) + drop_bit 26 y0,
          ucast (d2 AND 0x03ffffff), ucast (d3 AND 0x03ffffff), ucast (d4 AND 0x03ffffff)])"

lemma poly_block_h_mul_carry:
  "poly_block_h r h m hibit =
     mul_carry r (h ! 0 + (le32 m 0 AND 0x03ffffff))
       (h ! 1 + (drop_bit 2 (le32 m 3) AND 0x03ffffff))
       (h ! 2 + (drop_bit 4 (le32 m 6) AND 0x03ffffff))
       (h ! 3 + (drop_bit 6 (le32 m 9) AND 0x03ffffff))
       (h ! 4 + (drop_bit 8 (le32 m 12) OR hibit))"
  by (simp add: poly_block_h_def mul_carry_def Let_def)

lemma unat_dot5:
  assumes "unat a0 \<le> 2 ^ 28" "unat a1 \<le> 2 ^ 28" "unat a2 \<le> 2 ^ 28" "unat a3 \<le> 2 ^ 28" "unat a4 \<le> 2 ^ 28"
    and "unat b0 \<le> 2 ^ 29" "unat b1 \<le> 2 ^ 29" "unat b2 \<le> 2 ^ 29" "unat b3 \<le> 2 ^ 29" "unat b4 \<le> 2 ^ 29"
  shows "unat (mul64 a0 b0 + mul64 a1 b1 + mul64 a2 b2 + mul64 a3 b3 + mul64 a4 b4)
      = unat a0 * unat b0 + unat a1 * unat b1 + unat a2 * unat b2 + unat a3 * unat b3 + unat a4 * unat b4"
    and "unat (mul64 a0 b0 + mul64 a1 b1 + mul64 a2 b2 + mul64 a3 b3 + mul64 a4 b4) \<le> 5 * 2 ^ 57"
proof -
  note le = sum5_le [OF assms]
  then show eq: "unat (mul64 a0 b0 + mul64 a1 b1 + mul64 a2 b2 + mul64 a3 b3 + mul64 a4 b4)
      = unat a0 * unat b0 + unat a1 * unat b1 + unat a2 * unat b2 + unat a3 * unat b3 + unat a4 * unat b4"
    by (intro unat_mul64_sum) simp
  show "unat (mul64 a0 b0 + mul64 a1 b1 + mul64 a2 b2 + mul64 a3 b3 + mul64 a4 b4) \<le> 5 * 2 ^ 57"
    unfolding eq using le by simp
qed

lemma unat_carry_in:
  "unat (d :: u64) \<le> 5 * 2 ^ 57 \<Longrightarrow> unat (c :: u64) < 2 ^ 62 \<Longrightarrow>
     unat (d + drop_bit 26 c) = unat d + unat c div B \<and> unat (d + drop_bit 26 c) < 2 ^ 62"
proof -
  assume a: "unat d \<le> 5 * 2 ^ 57" "unat c < 2 ^ 62"
  have c: "unat (drop_bit 26 c) = unat c div B" by (simp add: unat_dropb)
  have "unat c div B < 2 ^ 36" using a by (simp add: div_less_iff_less_mult)
  with a have "unat d + unat (drop_bit 26 c) < 2 ^ 62" by (simp add: c)
  moreover from this have "unat (d + drop_bit 26 c) = unat d + unat (drop_bit 26 c)"
    by (intro unat_u64_add) simp
  ultimately show ?thesis using c by simp
qed

lemma mul_carry_correct:
  assumes r: "r_ok r"
    and h: "unat h0 \<le> 2 ^ 27 + 64" "unat h1 \<le> 2 ^ 27 + 64" "unat h2 \<le> 2 ^ 27 + 64"
      "unat h3 \<le> 2 ^ 27 + 64" "unat h4 \<le> 2 ^ 27 + 64"
  shows "limbs_ok (mul_carry r h0 h1 h2 h3 h4)
    \<and> lval (mul_carry r h0 h1 h2 h3 h4) mod P1305
      = val5 (unat h0) (unat h1) (unat h2) (unat h3) (unat h4) * lval r mod P1305"
proof -
  define r0 r1 r2 r3 r4 where rs: "r0 = r ! 0" "r1 = r ! 1" "r2 = r ! 2" "r3 = r ! 3" "r4 = r ! 4"
  have rb: "unat r0 < B" "unat r1 < B" "unat r2 < B" "unat r3 < B" "unat r4 < B"
    using r by (simp_all add: r_ok_def rs)
  have s: "unat (r1 * 5) = 5 * unat r1" "unat (r2 * 5) = 5 * unat r2"
    "unat (r3 * 5) = 5 * unat r3" "unat (r4 * 5) = 5 * unat r4"
    using rb by (simp_all add: unat_times5)
  have hb: "unat h0 \<le> 2 ^ 28" "unat h1 \<le> 2 ^ 28" "unat h2 \<le> 2 ^ 28" "unat h3 \<le> 2 ^ 28" "unat h4 \<le> 2 ^ 28"
    using h by simp_all
  have rb': "unat r0 \<le> 2 ^ 29" "unat r1 \<le> 2 ^ 29" "unat r2 \<le> 2 ^ 29" "unat r3 \<le> 2 ^ 29" "unat r4 \<le> 2 ^ 29"
    "unat (r1 * 5) \<le> 2 ^ 29" "unat (r2 * 5) \<le> 2 ^ 29" "unat (r3 * 5) \<le> 2 ^ 29" "unat (r4 * 5) \<le> 2 ^ 29"
    using rb s by simp_all
  define e0 where "e0 = mul64 h0 r0 + mul64 h1 (r4 * 5) + mul64 h2 (r3 * 5) + mul64 h3 (r2 * 5) + mul64 h4 (r1 * 5)"
  define e1 where "e1 = mul64 h0 r1 + mul64 h1 r0 + mul64 h2 (r4 * 5) + mul64 h3 (r3 * 5) + mul64 h4 (r2 * 5)"
  define e2 where "e2 = mul64 h0 r2 + mul64 h1 r1 + mul64 h2 r0 + mul64 h3 (r4 * 5) + mul64 h4 (r3 * 5)"
  define e3 where "e3 = mul64 h0 r3 + mul64 h1 r2 + mul64 h2 r1 + mul64 h3 r0 + mul64 h4 (r4 * 5)"
  define e4 where "e4 = mul64 h0 r4 + mul64 h1 r3 + mul64 h2 r2 + mul64 h3 r1 + mul64 h4 r0"
  note e = e0_def e1_def e2_def e3_def e4_def
  note dots = unat_dot5 [OF hb rb'(1,9,8,7,6), folded e0_def] unat_dot5 [OF hb rb'(2,1,9,8,7), folded e1_def]
    unat_dot5 [OF hb rb'(3,2,1,9,8), folded e2_def] unat_dot5 [OF hb rb'(4,3,2,1,9), folded e3_def]
    unat_dot5 [OF hb rb'(5,4,3,2,1), folded e4_def]
  define d1 where "d1 = e1 + drop_bit 26 e0"
  define d2 where "d2 = e2 + drop_bit 26 d1"
  define d3 where "d3 = e3 + drop_bit 26 d2"
  define d4 where "d4 = e4 + drop_bit 26 d3"
  have "unat e0 < 2 ^ 62" using dots(2) by simp
  note u1 = unat_carry_in [OF dots(4) this, folded d1_def]
  note u2 = unat_carry_in [OF dots(6) u1 [THEN conjunct2], folded d2_def]
  note u3 = unat_carry_in [OF dots(8) u2 [THEN conjunct2], folded d3_def]
  note u4 = unat_carry_in [OF dots(10) u3 [THEN conjunct2], folded d4_def]
  have e4: "unat e4 \<le> 5 * ((2 ^ 27 + 64) * B)"
    unfolding dots(9) by (rule sum5_le) (use h rb in simp_all)
  have "unat d3 div B < 2 ^ 36" using u3 by (simp add: div_less_iff_less_mult)
  then have "unat d4 \<le> 5 * ((2 ^ 27 + 64) * B) + 2 ^ 36" using e4 u4 by simp
  then have c4: "unat d4 div B \<le> 671089984" using div_le_mono [of "unat d4" _ B] by fastforce
  define y0 :: u32 where "y0 = ucast (e0 AND 0x03ffffff) + ucast (drop_bit 26 d4) * 5"
  have "unat (ucast (drop_bit 26 d4) :: u32) = unat d4 div B"
    using c4 by (subst unat_ucast32) (simp_all add: unat_dropb)
  then have "unat (ucast (drop_bit 26 d4) * 5 :: u32) = 5 * (unat d4 div B)"
    using c4 by (subst unat_times5) simp_all
  moreover have e0m: "unat (ucast (e0 AND 0x03ffffff) :: u32) = unat e0 mod B" "unat e0 mod B < B"
    by (simp_all add: unat_low64)
  ultimately have y0: "unat y0 = unat e0 mod B + unat d4 div B * 5"
    unfolding y0_def using c4 by (subst unat_u32_add) simp_all
  then have y0b: "unat y0 div B < 64"
    using c4 e0m(2) by (simp add: div_less_iff_less_mult)
  have x1: "unat (ucast (d1 AND 0x03ffffff) + drop_bit 26 y0 :: u32) = unat d1 mod B + unat y0 div B"
    and x1b: "unat d1 mod B + unat y0 div B < B + 64"
  proof -
    have m: "unat d1 mod B < B" by simp
    then show "unat d1 mod B + unat y0 div B < B + 64" using y0b by linarith
    then show "unat (ucast (d1 AND 0x03ffffff) + drop_bit 26 y0 :: u32) = unat d1 mod B + unat y0 div B"
      by (subst unat_u32_add) (simp_all add: unat_low64 unat_dropb)
  qed
  let ?out = "[y0 AND 0x03ffffff, ucast (d1 AND 0x03ffffff) + drop_bit 26 y0,
    ucast (d2 AND 0x03ffffff), ucast (d3 AND 0x03ffffff), ucast (d4 AND 0x03ffffff)]"
  have out: "mul_carry r h0 h1 h2 h3 h4 = ?out"
    unfolding mul_carry_def Let_def y0_def d4_def d3_def d2_def d1_def e rs ..
  have "lval ?out = val5 (unat y0 mod B) (unat d1 mod B + unat y0 div B) (unat d2 mod B)
      (unat d3 mod B) (unat d4 mod B)"
    by (simp add: lval_def x1 unat_low64 unat_mask32)
  moreover have "\<dots> mod P1305
      = val5 (unat h0) (unat h1) (unat h2) (unat h3) (unat h4) * lval r mod P1305"
    unfolding u1 [THEN conjunct1] u2 [THEN conjunct1] u3 [THEN conjunct1] u4 [THEN conjunct1] lval_def rs [symmetric]
    by (rule block_congruent) (simp_all add: dots s y0 u1 u2 u3 u4)
  moreover have "limbs_ok ?out"
    using x1 x1b by (simp add: limbs_ok_def unat_low64 unat_mask32)
  ultimately show ?thesis unfolding out by simp
qed

section \<open>Reading limbs from bytes\<close>

lemma le_val_append: "le_val (xs @ ys) = le_val xs + 256 ^ length xs * le_val ys"
  by (induction xs) (simp_all add: algebra_simps)

lemma le_val_drop: "le_val (drop n xs) = le_val xs div 256 ^ n"
proof (induction n arbitrary: xs)
  case (Suc n)
  show ?case
  proof (cases xs)
    case (Cons b bs)
    have "(unat b + 256 * le_val bs) div 256 = le_val bs"
      using unat_u8_less [of b] by simp
    with Suc Cons show ?thesis by (simp add: div_mult2_eq)
  qed simp
qed simp

lemma le_val_take: "n \<le> length xs \<Longrightarrow> le_val (take n xs) = le_val xs mod 256 ^ n"
proof -
  assume n: "n \<le> length xs"
  have "le_val xs = le_val (take n xs) + 256 ^ n * le_val (drop n xs)"
    using le_val_append [of "take n xs" "drop n xs"] n by simp
  moreover have "le_val (take n xs) < 256 ^ n" using le_val_bound [of "take n xs"] n by simp
  ultimately show ?thesis by simp
qed

lemma le_val_replicate_0 [simp]: "le_val (replicate n 0) = 0"
  by (induction n) simp_all

lemma unat_le32:
  "i + 4 \<le> length m \<Longrightarrow> unat (le32 m i) = take_bit 32 (drop_bit (8 * i) (le_val m))"
  by (simp add: le32_def from_le_bytes_val unat_of_nat le_val_take le_val_drop take_bit_eq_mod
      drop_bit_eq_div power_mult)

lemma horner5: "a + B * (b + B * (c + B * (d + B * e))) = val5 a b c d e"
  by (simp add: val5_def)

lemma digits5: "val5 (V mod B) (V div B mod B) (V div B ^ 2 mod B) (V div B ^ 3 mod B) (V div B ^ 4) = V"
proof -
  have pow: "V div B ^ 2 = V div B div B" "V div B ^ 3 = V div B div B div B"
    "V div B ^ 4 = V div B div B div B div B"
    by (simp_all add: div_mult2_eq [symmetric])
  show ?thesis unfolding horner5 [symmetric] pow by (simp only: mod_mult_div_eq)
qed

lemma nat_digit:
  assumes "b + 26 \<le> 32"
  shows "take_bit 26 (drop_bit b (take_bit 32 (drop_bit a V))) = (V :: nat) div 2 ^ (a + b) mod B"
proof -
  have "min 26 (32 - b) = 26" using assms by simp
  then have "take_bit 26 (drop_bit b (take_bit 32 (drop_bit a V))) = take_bit 26 (drop_bit (a + b) V)"
    by (simp only: drop_bit_take_bit take_bit_take_bit drop_bit_drop_bit) (simp add: add.commute)
  then show ?thesis by (simp add: take_bit_eq_mod drop_bit_eq_div)
qed

lemma unat_or32: "unat ((a :: u32) OR b) = unat a OR unat b"
  by (simp only: unsigned_or_eq)

lemma unat_and32: "unat ((a :: u32) AND b) = unat a AND unat b"
  by (simp only: unsigned_and_eq)

lemma or_add: "(a :: nat) < 2 ^ n \<Longrightarrow> 2 ^ n dvd b \<Longrightarrow> a OR b = a + b"
proof -
  assume a: "a < 2 ^ n" and "2 ^ n dvd b"
  then obtain c where b: "b = push_bit n c" by (auto simp: push_bit_eq_mult mult.commute)
  have "a AND b = 0"
  proof (rule bit_eqI)
    fix k
    have "\<not> bit a k" if "n \<le> k"
      using a that by (metis bit_take_bit_iff not_less take_bit_nat_eq_self_iff)
    then show "bit (a AND b) k = bit 0 k" by (auto simp: b bit_and_iff bit_push_bit_iff)
  qed
  then show ?thesis by (simp add: disjunctive_add_eq_or)
qed

lemma le_val_16: "length m = 16 \<Longrightarrow> le_val m < 2 ^ 128"
  using le_val_bound [of m] by simp

lemma message_limb:
  assumes "i + 4 \<le> length m" "b + 26 \<le> 32"
  shows "unat (drop_bit b (le32 m i) AND 0x03ffffff) = le_val m div 2 ^ (8 * i + b) mod B"
  unfolding unat_mask32 using nat_digit [OF assms(2), of "8 * i" "le_val m"] assms(1)
  by (simp only: unat_drop_bit_eq unat_le32) (simp add: take_bit_eq_mod)

lemma message_top:
  assumes "length m = 16"
  shows "unat (drop_bit 8 (le32 m 12)) = le_val m div B ^ 4"
proof -
  have "le_val m div 2 ^ 96 < 2 ^ 32" using le_val_16 [OF assms] by (simp add: less_mult_imp_div_less)
  then have "unat (le32 m 12) = le_val m div 2 ^ 96"
    using assms by (simp add: unat_le32 take_bit_eq_mod drop_bit_eq_div)
  then show ?thesis by (simp add: unat_dropb div_mult2_eq [symmetric])
qed

lemma message_limbs:
  assumes "length m = 16"
  shows "unat (le32 m 0 AND 0x03ffffff) = le_val m mod B"
    "unat (drop_bit 2 (le32 m 3) AND 0x03ffffff) = le_val m div B mod B"
    "unat (drop_bit 4 (le32 m 6) AND 0x03ffffff) = le_val m div B ^ 2 mod B"
    "unat (drop_bit 6 (le32 m 9) AND 0x03ffffff) = le_val m div B ^ 3 mod B"
  using assms message_limb [of 0 m 0] message_limb [of 3 m 2] message_limb [of 6 m 4]
    message_limb [of 9 m 6]
  by simp_all

lemma unat_add_limb:
  "unat (a :: u32) < B + 64 \<Longrightarrow> unat b = v \<Longrightarrow> v < B \<Longrightarrow> unat (a + b) = unat a + v"
  using unat_u32_add [of a b] by simp

lemma poly_block_correct:
  assumes r: "r_ok r" and h: "limbs_ok h" and m: "length m = 16" and hib: "hib = 0 \<or> hib = 0x1000000"
  shows "limbs_ok (poly_block_h r h m hib)
    \<and> lval (poly_block_h r h m hib) mod P1305
      = (lval h + (le_val m + 2 ^ 104 * unat hib)) * lval r mod P1305"
proof -
  let ?V = "le_val m"
  have top: "?V div B ^ 4 < 2 ^ 24" using le_val_16 [OF m] by (simp add: less_mult_imp_div_less)
  have "unat (drop_bit 8 (le32 m 12) OR hib) = ?V div B ^ 4 + unat hib"
    unfolding unat_or32 message_top [OF m]
    by (rule or_add [OF top]) (use hib in auto)
  then have m4: "unat (drop_bit 8 (le32 m 12) OR hib) = ?V div B ^ 4 + unat hib"
    "?V div B ^ 4 + unat hib < B" using top hib by auto
  have hb: "unat (h ! 0) < B" "unat (h ! 1) < B + 64" "unat (h ! 2) < B" "unat (h ! 3) < B" "unat (h ! 4) < B"
    using h by (simp_all add: limbs_ok_def)
  have mb: "?V mod B < B" "?V div B mod B < B" "?V div B ^ 2 mod B < B" "?V div B ^ 3 mod B < B"
    by simp_all
  define x where "x = [le32 m 0 AND 0x03ffffff, drop_bit 2 (le32 m 3) AND 0x03ffffff,
    drop_bit 4 (le32 m 6) AND 0x03ffffff, drop_bit 6 (le32 m 9) AND 0x03ffffff,
    drop_bit 8 (le32 m 12) OR hib]"
  have ux: "unat (x ! 0) = ?V mod B" "unat (x ! 1) = ?V div B mod B" "unat (x ! 2) = ?V div B ^ 2 mod B"
    "unat (x ! 3) = ?V div B ^ 3 mod B" "unat (x ! 4) = ?V div B ^ 4 + unat hib"
    unfolding x_def by (simp_all add: message_limbs [OF m] m4(1))
  have add: "unat (h ! 0 + x ! 0) = unat (h ! 0) + ?V mod B"
    "unat (h ! 1 + x ! 1) = unat (h ! 1) + ?V div B mod B"
    "unat (h ! 2 + x ! 2) = unat (h ! 2) + ?V div B ^ 2 mod B"
    "unat (h ! 3 + x ! 3) = unat (h ! 3) + ?V div B ^ 3 mod B"
    "unat (h ! 4 + x ! 4) = unat (h ! 4) + (?V div B ^ 4 + unat hib)"
    using hb mb m4(2) unat_add_limb [OF _ ux(1), of "h ! 0"] unat_add_limb [OF _ ux(2), of "h ! 1"]
      unat_add_limb [OF _ ux(3), of "h ! 2"] unat_add_limb [OF _ ux(4), of "h ! 3"]
      unat_add_limb [OF _ ux(5), of "h ! 4"]
    by linarith+
  have blk: "poly_block_h r h m hib
      = mul_carry r (h ! 0 + x ! 0) (h ! 1 + x ! 1) (h ! 2 + x ! 2) (h ! 3 + x ! 3) (h ! 4 + x ! 4)"
    by (simp add: poly_block_h_mul_carry x_def)
  have "val5 (unat (h ! 0) + ?V mod B) (unat (h ! 1) + ?V div B mod B)
      (unat (h ! 2) + ?V div B ^ 2 mod B) (unat (h ! 3) + ?V div B ^ 3 mod B)
      (unat (h ! 4) + (?V div B ^ 4 + unat hib))
    = lval h + val5 (?V mod B) (?V div B mod B) (?V div B ^ 2 mod B) (?V div B ^ 3 mod B) (?V div B ^ 4)
      + 2 ^ 104 * unat hib"
    by (simp add: val5_def lval_def)
  then have vsum: "val5 (unat (h ! 0) + ?V mod B) (unat (h ! 1) + ?V div B mod B)
      (unat (h ! 2) + ?V div B ^ 2 mod B) (unat (h ! 3) + ?V div B ^ 3 mod B)
      (unat (h ! 4) + (?V div B ^ 4 + unat hib)) = lval h + (?V + 2 ^ 104 * unat hib)"
    unfolding digits5 by simp
  have p27: "(2 :: nat) ^ 27 = 134217728" by simp
  have bnd: "unat (h ! 0 + x ! 0) \<le> 2 ^ 27 + 64" "unat (h ! 1 + x ! 1) \<le> 2 ^ 27 + 64"
    "unat (h ! 2 + x ! 2) \<le> 2 ^ 27 + 64" "unat (h ! 3 + x ! 3) \<le> 2 ^ 27 + 64"
    "unat (h ! 4 + x ! 4) \<le> 2 ^ 27 + 64"
    unfolding add p27 using hb mb m4(2) by linarith+
  show ?thesis
    using mul_carry_correct [OF r bnd] unfolding blk [symmetric] add vsum .
qed

section \<open>The final reduction\<close>

lemma full_carry_nat:
  assumes h: "h0 < B" "h1 < B + 64" "h2 < B" "h3 < B" "h4 < B"
    and q: "h1 = B * q1 + m1" "h2 + q1 = B * q2 + m2" "h3 + q2 = B * q3 + m3"
      "h4 + q3 = B * q4 + m4" "h0 + 5 * q4 = B * q0 + m0"
    and m: "m0 < B" "m1 < B" "m2 < B" "m3 < B" "m4 < B"
  shows "q1 \<le> 1" "q2 \<le> 1" "q3 \<le> 1" "q4 \<le> 1" "m1 + q0 < B"
    and "val5 h0 h1 h2 h3 h4 = val5 m0 (m1 + q0) m2 m3 m4 + P1305 * q4"
proof -
  show q1: "q1 \<le> 1" using h q by linarith
  show q2: "q2 \<le> 1" using h q q1 by linarith
  show q3: "q3 \<le> 1" using h q q2 by linarith
  show q4: "q4 \<le> 1" using h q q3 by linarith
  show "m1 + q0 < B"
  proof (cases "q4 = 0")
    case True
    then have "q0 = 0" using h q m by linarith
    then show ?thesis using m by simp
  next
    case False
    then have "B \<le> h4 + q3" using q by linarith
    then have "1 \<le> q3" using h by linarith
    then have "B \<le> h3 + q2" using q by linarith
    then have "1 \<le> q2" using h by linarith
    then have "B \<le> h2 + q1" using q by linarith
    then have "1 \<le> q1" using h by linarith
    then have "m1 < 64" using h q by linarith
    moreover have "q0 \<le> 1" using h q q4 by linarith
    ultimately show ?thesis by linarith
  qed
  have "h0 + 5 * q4 + B * h1 + B ^ 2 * (h2 + q1) + B ^ 3 * (h3 + q2) + B ^ 4 * (h4 + q3)
      = val5 h0 h1 h2 h3 h4 + 5 * q4 + B ^ 2 * q1 + B ^ 3 * q2 + B ^ 4 * q3"
    by (simp add: val5_def)
  then show "val5 h0 h1 h2 h3 h4 = val5 m0 (m1 + q0) m2 m3 m4 + P1305 * q4"
    unfolding q by (simp add: val5_def P1305_def)
qed

definition reduced_ok :: "u32 list \<Rightarrow> bool" where
  "reduced_ok h \<longleftrightarrow> length h = 5 \<and> unat (h ! 0) < B \<and> unat (h ! 1) < B \<and> unat (h ! 2) < B
     \<and> unat (h ! 3) < B \<and> unat (h ! 4) < B"

end
