(* ===== verification/Poly1305_Tag.thy ===== *)
theory Poly1305_Tag
  imports Poly1305_Correct
begin

text \<open>The end of \<^verbatim>\<open>src/src/crypto/poly1305.rs\<close>: the full carry, the constant-time conditional
  subtraction of the prime, the repacking into 32-bit words with the pad, the clamping of the
  key, and with them the correctness of \<^verbatim>\<open>Poly1305::mac\<close> and of the AEAD tag of
  \<^verbatim>\<open>aead.rs\<close> against RFC 8439.
\<close>

unbundle bit_operations_syntax

section \<open>The full carry\<close>

lemma poly_full_carry_unfold:
  "poly_full_carry h =
     (let w1 = h ! 1; w2 = h ! 2 + drop_bit 26 w1; w3 = h ! 3 + drop_bit 26 w2;
          w4 = h ! 4 + drop_bit 26 w3; w0 = h ! 0 + drop_bit 26 w4 * 5
      in [w0 AND 0x03ffffff, (w1 AND 0x03ffffff) + drop_bit 26 w0, w2 AND 0x03ffffff,
          w3 AND 0x03ffffff, w4 AND 0x03ffffff])"
  by (simp add: poly_full_carry_def Let_def)

lemma div_mod_B: "n = B * (n div B) + n mod B" for n :: nat
  by simp

lemma unat_add_carry:
  assumes "unat (a :: u32) \<le> 2 ^ 30"
  shows "unat (a + drop_bit 26 b) = unat a + unat b div B"
proof -
  have "unat (drop_bit 26 b) = unat b div B" by (simp add: unat_dropb)
  moreover have "unat b div B < 64" using unat_u32_less [of b] by (simp add: less_mult_imp_div_less)
  ultimately show ?thesis using assms by (subst unat_u32_add) simp_all
qed

lemma unat_add_carry5:
  assumes "unat (a :: u32) \<le> 2 ^ 30"
  shows "unat (a + drop_bit 26 b * 5) = unat a + 5 * (unat b div B)"
proof -
  have "unat (drop_bit 26 b) = unat b div B" by (simp add: unat_dropb)
  moreover have "unat b div B < 64" using unat_u32_less [of b] by (simp add: less_mult_imp_div_less)
  ultimately show ?thesis using assms by (subst unat_u32_add) (simp_all add: unat_times5)
qed

lemma full_carry_correct:
  assumes "limbs_ok h"
  shows "reduced_ok (poly_full_carry h) \<and> (\<exists>q. lval h = lval (poly_full_carry h) + P1305 * q)"
proof -
  define w1 where "w1 = h ! 1"
  define w2 where "w2 = h ! 2 + drop_bit 26 w1"
  define w3 where "w3 = h ! 3 + drop_bit 26 w2"
  define w4 where "w4 = h ! 4 + drop_bit 26 w3"
  define w0 where "w0 = h ! 0 + drop_bit 26 w4 * 5"
  have hb: "unat (h ! 0) < B" "unat (h ! 1) < B + 64" "unat (h ! 2) < B" "unat (h ! 3) < B" "unat (h ! 4) < B"
    using assms by (simp_all add: limbs_ok_def)
  have u: "unat w1 = unat (h ! 1)" "unat w2 = unat (h ! 2) + unat w1 div B"
    "unat w3 = unat (h ! 3) + unat w2 div B" "unat w4 = unat (h ! 4) + unat w3 div B"
    "unat w0 = unat (h ! 0) + 5 * (unat w4 div B)"
    unfolding w1_def w2_def w3_def w4_def w0_def using hb
    by (simp_all add: unat_add_carry unat_add_carry5)
  have q: "unat (h ! 1) = B * (unat w1 div B) + unat w1 mod B"
    "unat (h ! 2) + unat w1 div B = B * (unat w2 div B) + unat w2 mod B"
    "unat (h ! 3) + unat w2 div B = B * (unat w3 div B) + unat w3 mod B"
    "unat (h ! 4) + unat w3 div B = B * (unat w4 div B) + unat w4 mod B"
    "unat (h ! 0) + 5 * (unat w4 div B) = B * (unat w0 div B) + unat w0 mod B"
    by (simp_all only: u(2-) [symmetric] u(1) [symmetric] div_mod_B [symmetric])
  have m: "unat w0 mod B < B" "unat w1 mod B < B" "unat w2 mod B < B" "unat w3 mod B < B"
    "unat w4 mod B < B" by simp_all
  note N = full_carry_nat [OF hb q m]
  have r1: "unat ((w1 AND 0x03ffffff) + drop_bit 26 w0) = unat w1 mod B + unat w0 div B"
    using m(2) by (subst unat_add_carry) (simp_all only: unat_mask32, simp)
  have fc: "poly_full_carry h = [w0 AND 0x03ffffff, (w1 AND 0x03ffffff) + drop_bit 26 w0,
      w2 AND 0x03ffffff, w3 AND 0x03ffffff, w4 AND 0x03ffffff]"
    by (simp add: poly_full_carry_unfold w0_def w1_def w2_def w3_def w4_def Let_def)
  have l: "lval (poly_full_carry h)
      = val5 (unat w0 mod B) (unat w1 mod B + unat w0 div B) (unat w2 mod B) (unat w3 mod B) (unat w4 mod B)"
    unfolding fc lval_def by (simp add: unat_mask32 r1 del: unsigned_and_eq)
  have "reduced_ok (poly_full_carry h)"
    unfolding fc reduced_ok_def using N(5) m by (simp add: unat_mask32 r1)
  moreover have "lval h = lval (poly_full_carry h) + P1305 * (unat w4 div B)"
    unfolding l using N(6) by (simp only: lval_def)
  ultimately show ?thesis by blast
qed


section \<open>The conditional subtraction\<close>

lemma reduce_nat:
  assumes h: "h0 < B" "h1 < B" "h2 < B" "h3 < B" "h4 < B"
    and q: "h0 + 5 = B * q0 + m0" "h1 + q0 = B * q1 + m1" "h2 + q1 = B * q2 + m2"
      "h3 + q2 = B * q3 + m3"
    and m: "m0 < B" "m1 < B" "m2 < B" "m3 < B"
  shows "q3 \<le> 1" and "val5 h0 h1 h2 h3 h4 + 5 = val5 m0 m1 m2 m3 (h4 + q3)"
    and "h4 + q3 < B \<Longrightarrow> val5 h0 h1 h2 h3 h4 < P1305"
    and "h4 + q3 = B \<Longrightarrow> val5 h0 h1 h2 h3 h4 = val5 m0 m1 m2 m3 0 + P1305
           \<and> val5 m0 m1 m2 m3 0 < P1305"
proof -
  have "q0 \<le> 1" using h q by linarith
  then have "q1 \<le> 1" using h q by linarith
  then have "q2 \<le> 1" using h q by linarith
  then show "q3 \<le> 1" using h q by linarith
  have "h0 + 5 + B * (h1 + q0) + B ^ 2 * (h2 + q1) + B ^ 3 * (h3 + q2) + B ^ 4 * (h4 + q3)
      = val5 h0 h1 h2 h3 h4 + 5 + B * q0 + B ^ 2 * q1 + B ^ 3 * q2 + B ^ 4 * q3"
    by (simp add: val5_def)
  then show sum: "val5 h0 h1 h2 h3 h4 + 5 = val5 m0 m1 m2 m3 (h4 + q3)"
    unfolding q by (simp add: val5_def)
  show "val5 h0 h1 h2 h3 h4 < P1305" if "h4 + q3 < B"
    using sum m that unfolding val5_def P1305_def by simp
  show "val5 h0 h1 h2 h3 h4 = val5 m0 m1 m2 m3 0 + P1305 \<and> val5 m0 m1 m2 m3 0 < P1305"
    if "h4 + q3 = B"
  proof -
    have "val5 m0 m1 m2 m3 (h4 + q3) = val5 m0 m1 m2 m3 0 + (P1305 + 5)"
      unfolding that by (simp add: val5_def P1305_def)
    moreover have "val5 h0 h1 h2 h3 h4 < B ^ 5" using h by (simp add: val5_def)
    ultimately show ?thesis using sum unfolding P1305_def by simp
  qed
qed

lemma poly_reduce_unfold:
  "poly_reduce h =
     (let w0 = h ! 0 + 5; w1 = h ! 1 + drop_bit 26 w0; w2 = h ! 2 + drop_bit 26 w1;
          w3 = h ! 3 + drop_bit 26 w2; g4 = h ! 4 + drop_bit 26 w3 - 0x4000000; t = drop_bit 31 g4 - 1
      in map2 (\<lambda>x g. (x AND NOT t) OR (g AND t)) [h ! 0, h ! 1, h ! 2, h ! 3, h ! 4]
           [w0 AND 0x03ffffff, w1 AND 0x03ffffff, w2 AND 0x03ffffff, w3 AND 0x03ffffff, g4])"
  by (simp add: poly_reduce_def Let_def)

lemma list5: "length h = 5 \<Longrightarrow> [h ! 0, h ! 1, h ! 2, h ! 3, h ! 4] = h"
  by (auto simp: numeral_eq_Suc length_Suc_conv)

lemma select_mask:
  fixes x g t :: u32
  shows "t = 0 \<Longrightarrow> (x AND NOT t) OR (g AND t) = x" "t = - 1 \<Longrightarrow> (x AND NOT t) OR (g AND t) = g"
  by simp_all

lemma reduce_select:
  fixes s :: u32
  assumes "unat s \<le> B"
  shows "unat s = B \<Longrightarrow> s - 0x4000000 = 0 \<and> drop_bit 31 (s - 0x4000000) - 1 = - 1"
    and "unat s < B \<Longrightarrow> drop_bit 31 (s - 0x4000000) - 1 = 0"
proof -
  have B: "unat (0x4000000 :: u32) = B" by simp
  show "s - 0x4000000 = 0 \<and> drop_bit 31 (s - 0x4000000) - 1 = - 1" if "unat s = B"
  proof -
    have "s = 0x4000000" using that by (simp only: word_unat_eq_iff B)
    then show ?thesis by simp
  qed
  show "drop_bit 31 (s - 0x4000000) - 1 = 0" if "unat s < B"
  proof -
    have "s < 0x4000000" using that by (simp add: word_less_nat_alt)
    then have "unat (s - 0x4000000) = unat s + 2 ^ 32 - B"
      using that by (simp add: unat_sub_if' word_le_nat_alt not_le)
    then have "unat (drop_bit 31 (s - 0x4000000)) = (unat s + 2 ^ 32 - B) div 2 ^ 31"
      by (simp add: unat_dropb)
    also have "\<dots> = 1" using that by (intro div_nat_eqI) simp_all
    finally have "drop_bit 31 (s - 0x4000000) = 1" by (simp add: word_unat_eq_iff)
    then show ?thesis by simp
  qed
qed

lemma reduce_correct:
  assumes "reduced_ok h"
  shows "reduced_ok (poly_reduce h) \<and> lval (poly_reduce h) = lval h mod P1305"
proof -
  define w0 where "w0 = h ! 0 + 5"
  define w1 where "w1 = h ! 1 + drop_bit 26 w0"
  define w2 where "w2 = h ! 2 + drop_bit 26 w1"
  define w3 where "w3 = h ! 3 + drop_bit 26 w2"
  define s where "s = h ! 4 + drop_bit 26 w3"
  have hb: "unat (h ! 0) < B" "unat (h ! 1) < B" "unat (h ! 2) < B" "unat (h ! 3) < B" "unat (h ! 4) < B"
    and len: "length h = 5"
    using assms by (simp_all add: reduced_ok_def)
  have w0: "unat w0 = unat (h ! 0) + 5"
    unfolding w0_def using hb by (subst unat_u32_add) simp_all
  have u: "unat w1 = unat (h ! 1) + unat w0 div B"
    "unat w2 = unat (h ! 2) + unat w1 div B" "unat w3 = unat (h ! 3) + unat w2 div B"
    "unat s = unat (h ! 4) + unat w3 div B"
    unfolding w1_def w2_def w3_def s_def using hb by (simp_all add: unat_add_carry)
  have q: "unat (h ! 0) + 5 = B * (unat w0 div B) + unat w0 mod B"
    "unat (h ! 1) + unat w0 div B = B * (unat w1 div B) + unat w1 mod B"
    "unat (h ! 2) + unat w1 div B = B * (unat w2 div B) + unat w2 mod B"
    "unat (h ! 3) + unat w2 div B = B * (unat w3 div B) + unat w3 mod B"
    by (simp_all only: u [symmetric] w0 [symmetric] div_mod_B [symmetric])
  have m: "unat w0 mod B < B" "unat w1 mod B < B" "unat w2 mod B < B" "unat w3 mod B < B" by simp_all
  note N = reduce_nat [OF hb q m]
  let ?t = "drop_bit 31 (s - 0x4000000) - 1"
  have red: "poly_reduce h = map2 (\<lambda>x g. (x AND NOT ?t) OR (g AND ?t)) h
      [w0 AND 0x03ffffff, w1 AND 0x03ffffff, w2 AND 0x03ffffff, w3 AND 0x03ffffff, s - 0x4000000]"
    unfolding poly_reduce_unfold Let_def list5 [OF len]
    by (simp only: w0_def w1_def w2_def w3_def s_def)
  have sle: "unat s \<le> B" unfolding u(4) using N(1) hb by linarith
  show ?thesis
  proof (cases "unat s = B")
    case True
    have g: "poly_reduce h = [w0 AND 0x03ffffff, w1 AND 0x03ffffff, w2 AND 0x03ffffff,
        w3 AND 0x03ffffff, 0]"
      unfolding red using reduce_select(1) [OF sle True] len
      by (simp add: select_mask(2) list_eq_iff_nth_eq nth_Cons')
    have "lval h = lval (poly_reduce h) + P1305 \<and> lval (poly_reduce h) < P1305"
      using N(4) True unfolding u(4) [symmetric] unfolding g lval_def
      by (simp add: unat_mask32 del: unsigned_and_eq)
    then show ?thesis unfolding reduced_ok_def using m by (simp add: g unat_mask32)
  next
    case False
    then have lt: "unat s < B" using sle by simp
    have "poly_reduce h = h"
      unfolding red using reduce_select(2) [OF sle lt] len
      by (simp add: select_mask(1) list_eq_iff_nth_eq nth_Cons')
    moreover have "lval h < P1305" using N(3) lt unfolding u(4) lval_def by simp
    ultimately show ?thesis using assms by simp
  qed
qed


section \<open>Repacking and the pad\<close>

lemma unat_pack:
  assumes "unat (a :: u32) < 2 ^ k" "k + j = 32"
  shows "unat (a OR push_bit k b) = unat a + 2 ^ k * (unat b mod 2 ^ j)"
proof -
  have j: "j = 32 - k" using assms(2) by simp
  have "unat (push_bit k b) = 2 ^ k * (unat b mod 2 ^ j)"
  proof -
    have "unat (push_bit k b) = take_bit 32 (push_bit k (unat b))"
      by (simp only: unsigned_push_bit_eq) simp
    also have "\<dots> = push_bit k (take_bit (32 - k) (unat b))"
      by (simp only: take_bit_push_bit)
    finally show ?thesis by (simp add: j push_bit_eq_mult take_bit_eq_mod mult.commute)
  qed
  moreover have "unat a OR (2 ^ k * (unat b mod 2 ^ j)) = unat a + 2 ^ k * (unat b mod 2 ^ j)"
    using assms(1) by (rule or_add) simp
  ultimately show ?thesis by (simp only: unat_or32)
qed

lemma add_pad:
  fixes w p :: u32 and c :: u64
  assumes "unat c \<le> 2"
  shows "unat ((ucast w :: u64) + ucast p + c) = unat w + unat p + unat c"
proof -
  have "unat w < 2 ^ 32" "unat p < 2 ^ 32" by (rule unat_u32_less)+
  moreover have "unat (ucast w :: u64) = unat w" "unat (ucast p :: u64) = unat p"
    using unat_u32_less [of w] unat_u32_less [of p]
    by (simp_all add: unsigned_ucast_eq take_bit_eq_mod)
  ultimately show ?thesis using assms by (simp add: unat_u64_add)
qed

lemma le_val_to_le_u32: "le_val (to_le_bytes (w :: u32)) = unat w"
  using unat_u32_less [of w] by (simp add: to_le_bytes_digits le_val_le_digits)

lemma add_pad_carry:
  assumes "unat (f :: u64) < 2 ^ 33"
  shows "unat (ucast f :: u32) = unat f mod 2 ^ 32" "unat (drop_bit 32 f) = unat f div 2 ^ 32"
    "unat f div 2 ^ 32 \<le> 1"
  using assms by (simp_all add: unsigned_ucast_eq take_bit_eq_mod unat_dropb)

definition pad_val :: "u32 list \<Rightarrow> nat" where
  "pad_val p = unat (p ! 0) + 2 ^ 32 * unat (p ! 1) + 2 ^ 64 * unat (p ! 2) + 2 ^ 96 * unat (p ! 3)"

lemma carry4:
  fixes s0 s1 s2 s3 :: nat
  assumes q: "s0 = 2 ^ 32 * q0 + m0" "s1 + q0 = 2 ^ 32 * q1 + m1" "s2 + q1 = 2 ^ 32 * q2 + m2"
      "s3 + q2 = 2 ^ 32 * q3 + m3"
    and m: "m0 < 2 ^ 32" "m1 < 2 ^ 32" "m2 < 2 ^ 32" "m3 < 2 ^ 32"
  shows "m0 + 2 ^ 32 * m1 + 2 ^ 64 * m2 + 2 ^ 96 * m3
    = (s0 + 2 ^ 32 * s1 + 2 ^ 64 * s2 + 2 ^ 96 * s3) mod 2 ^ 128" (is "?l = ?r mod _")
proof -
  have "s0 + 2 ^ 32 * (s1 + q0) + 2 ^ 64 * (s2 + q1) + 2 ^ 96 * (s3 + q2)
      = ?r + 2 ^ 32 * q0 + 2 ^ 64 * q1 + 2 ^ 96 * q2" by simp
  then have "?r = ?l + 2 ^ 128 * q3" unfolding q by simp
  moreover have "?l < 2 ^ 128" using m by simp
  ultimately show ?thesis by simp
qed


lemma poly_tag_unfold:
  "poly_tag h pad =
     (let f0 = (ucast (h ! 0 OR push_bit 26 (h ! 1)) :: u64) + ucast (pad ! 0) + 0;
          f1 = (ucast (drop_bit 6 (h ! 1) OR push_bit 20 (h ! 2)) :: u64) + ucast (pad ! 1) + drop_bit 32 f0;
          f2 = (ucast (drop_bit 12 (h ! 2) OR push_bit 14 (h ! 3)) :: u64) + ucast (pad ! 2) + drop_bit 32 f1;
          f3 = (ucast (drop_bit 18 (h ! 3) OR push_bit 8 (h ! 4)) :: u64) + ucast (pad ! 3) + drop_bit 32 f2
      in to_le_bytes (ucast f0 :: u32) @ to_le_bytes (ucast f1 :: u32) @ to_le_bytes (ucast f2 :: u32)
         @ to_le_bytes (ucast f3 :: u32))"
  by (simp add: poly_tag_def Let_def)

lemma repack_nat:
  assumes "a1 = 2 ^ 6 * q1 + m1" "a2 = 2 ^ 12 * q2 + m2" "a3 = 2 ^ 18 * q3 + m3" "a4 = 2 ^ 24 * q4 + m4"
  shows "a0 + 2 ^ 26 * m1 + 2 ^ 32 * (q1 + 2 ^ 20 * m2) + 2 ^ 64 * (q2 + 2 ^ 14 * m3)
    + 2 ^ 96 * (q3 + 2 ^ 8 * m4) + 2 ^ 128 * q4 = val5 a0 a1 a2 a3 a4"
  using assms by (simp add: val5_def)

lemma repack:
  assumes "reduced_ok h"
  shows "unat (h ! 0 OR push_bit 26 (h ! 1))
      + 2 ^ 32 * unat (drop_bit 6 (h ! 1) OR push_bit 20 (h ! 2))
      + 2 ^ 64 * unat (drop_bit 12 (h ! 2) OR push_bit 14 (h ! 3))
      + 2 ^ 96 * unat (drop_bit 18 (h ! 3) OR push_bit 8 (h ! 4))
      + 2 ^ 128 * (unat (h ! 4) div 2 ^ 24) = lval h"
proof -
  have hb: "unat (h ! 0) < 2 ^ 26" "unat (h ! 1) div 2 ^ 6 < 2 ^ 20" "unat (h ! 2) div 2 ^ 12 < 2 ^ 14"
    "unat (h ! 3) div 2 ^ 18 < 2 ^ 8"
    using assms by (simp_all add: reduced_ok_def less_mult_imp_div_less)
  have p: "unat (h ! 0 OR push_bit 26 (h ! 1)) = unat (h ! 0) + 2 ^ 26 * (unat (h ! 1) mod 2 ^ 6)"
    "unat (drop_bit 6 (h ! 1) OR push_bit 20 (h ! 2)) = unat (h ! 1) div 2 ^ 6 + 2 ^ 20 * (unat (h ! 2) mod 2 ^ 12)"
    "unat (drop_bit 12 (h ! 2) OR push_bit 14 (h ! 3)) = unat (h ! 2) div 2 ^ 12 + 2 ^ 14 * (unat (h ! 3) mod 2 ^ 18)"
    "unat (drop_bit 18 (h ! 3) OR push_bit 8 (h ! 4)) = unat (h ! 3) div 2 ^ 18 + 2 ^ 8 * (unat (h ! 4) mod 2 ^ 24)"
    unfolding unat_dropb [symmetric]
    by (rule unat_pack; use hb in \<open>simp only: unat_dropb, simp?\<close>)+
  have d: "unat (h ! 1) = 2 ^ 6 * (unat (h ! 1) div 2 ^ 6) + unat (h ! 1) mod 2 ^ 6"
    "unat (h ! 2) = 2 ^ 12 * (unat (h ! 2) div 2 ^ 12) + unat (h ! 2) mod 2 ^ 12"
    "unat (h ! 3) = 2 ^ 18 * (unat (h ! 3) div 2 ^ 18) + unat (h ! 3) mod 2 ^ 18"
    "unat (h ! 4) = 2 ^ 24 * (unat (h ! 4) div 2 ^ 24) + unat (h ! 4) mod 2 ^ 24"
    by (simp_all only: mult_div_mod_eq)
  show ?thesis
    unfolding p lval_def by (rule repack_nat [OF d])
qed


lemma mod_shift: "(a + m * q + b) mod m = (a + b) mod (m :: nat)"
  by (metis add.assoc add.commute mod_mult_self2)

lemma pad_step:
  assumes "unat (c :: u64) \<le> 1" "f = (ucast (w :: u32) :: u64) + ucast (p :: u32) + c"
  shows "unat w + unat p + unat c = 2 ^ 32 * unat (drop_bit 32 f) + unat (ucast f :: u32)"
    "unat (drop_bit 32 f) \<le> 1" "unat (ucast f :: u32) < 2 ^ 32"
proof -
  have f: "unat f = unat w + unat p + unat c" unfolding assms(2) using assms(1) by (intro add_pad) simp
  moreover have "unat w < 2 ^ 32" "unat p < 2 ^ 32" by (rule unat_u32_less)+
  ultimately have "unat f < 2 ^ 33" using assms(1) by simp
  note c = add_pad_carry [OF this]
  show "unat w + unat p + unat c = 2 ^ 32 * unat (drop_bit 32 f) + unat (ucast f :: u32)"
    unfolding c f [symmetric] by (simp only: mult_div_mod_eq)
  show "unat (drop_bit 32 f) \<le> 1" unfolding c(2) by (rule c(3))
  show "unat (ucast f :: u32) < 2 ^ 32" by (rule unat_u32_less)
qed

lemma tag_correct:
  assumes "reduced_ok h"
  shows "length (poly_tag h pad) = 16 \<and> le_val (poly_tag h pad) = (lval h + pad_val pad) mod 2 ^ 128"
proof -
  define w0 where "w0 = h ! 0 OR push_bit 26 (h ! 1)"
  define w1 where "w1 = drop_bit 6 (h ! 1) OR push_bit 20 (h ! 2)"
  define w2 where "w2 = drop_bit 12 (h ! 2) OR push_bit 14 (h ! 3)"
  define w3 where "w3 = drop_bit 18 (h ! 3) OR push_bit 8 (h ! 4)"
  define f0 where "f0 = (ucast w0 :: u64) + ucast (pad ! 0) + 0"
  define f1 where "f1 = (ucast w1 :: u64) + ucast (pad ! 1) + drop_bit 32 f0"
  define f2 where "f2 = (ucast w2 :: u64) + ucast (pad ! 2) + drop_bit 32 f1"
  define f3 where "f3 = (ucast w3 :: u64) + ucast (pad ! 3) + drop_bit 32 f2"
  have tag: "poly_tag h pad = to_le_bytes (ucast f0 :: u32) @ to_le_bytes (ucast f1 :: u32)
      @ to_le_bytes (ucast f2 :: u32) @ to_le_bytes (ucast f3 :: u32)"
    unfolding poly_tag_unfold Let_def f0_def f1_def f2_def f3_def w0_def w1_def w2_def w3_def ..
  have "unat (0 :: u64) \<le> 1" by simp
  note s0 = pad_step [OF this f0_def]
  note s1 = pad_step [OF s0(2) f1_def]
  note s2 = pad_step [OF s1(2) f2_def]
  note s3 = pad_step [OF s2(2) f3_def]
  have s0': "unat w0 + unat (pad ! 0) = 2 ^ 32 * unat (drop_bit 32 f0) + unat (ucast f0 :: u32)"
    using s0(1) by simp
  let ?W = "unat w0 + 2 ^ 32 * unat w1 + 2 ^ 64 * unat w2 + 2 ^ 96 * unat w3"
  have "le_val (poly_tag h pad) = unat (ucast f0 :: u32) + 2 ^ 32 * unat (ucast f1 :: u32)
      + 2 ^ 64 * unat (ucast f2 :: u32) + 2 ^ 96 * unat (ucast f3 :: u32)"
    unfolding tag le_val_append le_val_to_le_u32 length_to_bytes by simp
  also have "\<dots> = (unat w0 + unat (pad ! 0) + 2 ^ 32 * (unat w1 + unat (pad ! 1))
      + 2 ^ 64 * (unat w2 + unat (pad ! 2)) + 2 ^ 96 * (unat w3 + unat (pad ! 3))) mod 2 ^ 128"
    by (rule carry4 [OF s0' s1(1) s2(1) s3(1) s0(3) s1(3) s2(3) s3(3)])
  also have "\<dots> = (?W + pad_val pad) mod 2 ^ 128"
    unfolding pad_val_def by (rule arg_cong [where f = "\<lambda>x. x mod 2 ^ 128"]) simp
  also have "\<dots> = (?W + 2 ^ 128 * (unat (h ! 4) div 2 ^ 24) + pad_val pad) mod 2 ^ 128"
    by (rule mod_shift [symmetric])
  also have "?W + 2 ^ 128 * (unat (h ! 4) div 2 ^ 24) = lval h"
    unfolding w0_def w1_def w2_def w3_def by (rule repack [OF assms])
  finally show ?thesis unfolding tag by (simp only: length_append length_to_bytes) simp
qed


section \<open>The clamped key\<close>

lemma and_digit:
  "(V AND C) div 2 ^ n mod B = (V div 2 ^ n mod B) AND ((C :: nat) div 2 ^ n mod B)"
proof -
  have "take_bit 26 (drop_bit n (V AND C)) = take_bit 26 (drop_bit n V) AND take_bit 26 (drop_bit n C)"
    by (simp only: drop_bit_and take_bit_and)
  then show ?thesis by (simp add: take_bit_eq_mod drop_bit_eq_div)
qed

lemma and_top: "(V AND C) div 2 ^ n = (V div 2 ^ n) AND ((C :: nat) div 2 ^ n)"
proof -
  have "drop_bit n (V AND C) = drop_bit n V AND drop_bit n C" by (simp only: drop_bit_and)
  then show ?thesis by (simp add: drop_bit_eq_div)
qed

lemma and_nat_le: "a AND c \<le> (c :: nat)"
proof -
  have "int (a AND c) \<le> int c" by (simp only: of_nat_and_eq) (simp add: AND_upper2)
  then show ?thesis by simp
qed

lemma le32_take: "i + 4 \<le> n \<Longrightarrow> le32 (take n key) i = le32 key i"
  by (simp add: le32_def drop_take)

lemma key_limb:
  assumes "i + 4 \<le> 16" "length key = 32" "b + 26 \<le> 32" "c = 0x03ffffff AND c"
  shows "unat (drop_bit b (le32 key i) AND c) = (le_val (take 16 key) div 2 ^ (8 * i + b) mod B) AND unat c"
proof -
  have "drop_bit b (le32 key i) AND c = (drop_bit b (le32 (take 16 key) i) AND 0x03ffffff) AND c"
    using assms by (simp add: le32_take and.assoc)
  then show ?thesis
    using message_limb [of i "take 16 key" b] assms by (simp only: unat_and32) simp
qed

lemma key_limbs:
  assumes "length key = 32"
  shows "r_ok (p_r (poly_new key)) \<and> lval (p_r (poly_new key)) = clamp_r (le_val (take 16 key))"
proof -
  let ?V = "le_val (take 16 key)" and ?C = "0x0ffffffc0ffffffc0ffffffc0fffffff :: nat"
  have top: "unat (drop_bit 8 (le32 key 12) AND 0x000fffff) = (?V div B ^ 4) AND 0x000fffff"
    using message_top [of "take 16 key"] assms by (simp only: unat_and32) (simp add: le32_take)
  have r: "p_r (poly_new key) = [drop_bit 0 (le32 key 0) AND 0x03ffffff,
      drop_bit 2 (le32 key 3) AND 0x03ffff03, drop_bit 4 (le32 key 6) AND 0x03ffc0ff,
      drop_bit 6 (le32 key 9) AND 0x03f03fff, drop_bit 8 (le32 key 12) AND 0x000fffff]"
    by (simp add: poly_new_def)
  have m: "unat (0x03ffffff :: u32) = ?C div 2 ^ 0 mod B" "unat (0x03ffff03 :: u32) = ?C div 2 ^ 26 mod B"
    "unat (0x03ffc0ff :: u32) = ?C div 2 ^ 52 mod B" "unat (0x03f03fff :: u32) = ?C div 2 ^ 78 mod B"
    "0x000fffff = ?C div 2 ^ 104" by simp_all
  have k: "unat (drop_bit 0 (le32 key 0) AND 0x03ffffff) = (?V AND ?C) div 2 ^ 0 mod B"
    "unat (drop_bit 2 (le32 key 3) AND 0x03ffff03) = (?V AND ?C) div 2 ^ 26 mod B"
    "unat (drop_bit 4 (le32 key 6) AND 0x03ffc0ff) = (?V AND ?C) div 2 ^ 52 mod B"
    "unat (drop_bit 6 (le32 key 9) AND 0x03f03fff) = (?V AND ?C) div 2 ^ 78 mod B"
    unfolding and_digit m [symmetric]
    using key_limb [of 0 key 0 "0x03ffffff"] key_limb [of 3 key 2 "0x03ffff03"]
      key_limb [of 6 key 4 "0x03ffc0ff"] key_limb [of 9 key 6 "0x03f03fff"] assms
    by (simp_all del: unsigned_and_eq)
  have B: "(2 :: nat) ^ 0 = 1" "(2 :: nat) ^ 26 = B" "(2 :: nat) ^ 52 = B ^ 2" "(2 :: nat) ^ 78 = B ^ 3"
    "(2 :: nat) ^ 104 = B ^ 4" by simp_all
  have t: "unat (drop_bit 8 (le32 key 12) AND 0x000fffff) = (?V AND ?C) div 2 ^ 104"
    using top and_top [of ?V ?C 104] unfolding m(5) [symmetric] by (simp only: B(5))
  note l = k [unfolded B div_by_1] t [unfolded B]
  have nths: "p_r (poly_new key) ! 0 = drop_bit 0 (le32 key 0) AND 0x03ffffff"
    "p_r (poly_new key) ! 1 = drop_bit 2 (le32 key 3) AND 0x03ffff03"
    "p_r (poly_new key) ! 2 = drop_bit 4 (le32 key 6) AND 0x03ffc0ff"
    "p_r (poly_new key) ! 3 = drop_bit 6 (le32 key 9) AND 0x03f03fff"
    "p_r (poly_new key) ! 4 = drop_bit 8 (le32 key 12) AND 0x000fffff" "length (p_r (poly_new key)) = 5"
    unfolding r by simp_all
  have "?V AND ?C \<le> ?C" by (rule and_nat_le)
  then have "(?V AND ?C) div B ^ 4 < B" by (simp add: less_mult_imp_div_less)
  moreover have "n mod B < B" for n :: nat by simp
  ultimately show ?thesis
    unfolding lval_def r_ok_def nths l digits5 clamp_r_def by blast
qed


section \<open>The whole authenticator\<close>

definition poly_pending :: "Poly1305 \<Rightarrow> bytes" where
  "poly_pending p = take (p_buf_len p) (p_buf p)"

definition poly_ok :: "bytes \<Rightarrow> Poly1305 \<Rightarrow> bool" where
  "poly_ok key p \<longleftrightarrow> p_r p = p_r (poly_new key) \<and> p_pad p = p_pad (poly_new key)
     \<and> length (p_buf p) = 16 \<and> p_buf_len p < 16"

abbreviation poly_full :: "bytes \<Rightarrow> u32 list \<Rightarrow> bytes \<Rightarrow> u32 list" where
  "poly_full key h m \<equiv> poly_block_h (p_r (poly_new key)) h m 0x1000000"

lemma poly_update_absorb:
  assumes "poly_ok key p"
  shows "poly_ok key (poly_update p d)
    \<and> p_h (poly_update p d) = foldl (poly_full key) (p_h p) (chunks_exact 16 (poly_pending p @ d))
    \<and> poly_pending (poly_update p d) = chunks_remainder 16 (poly_pending p @ d)"
  using assms absorb_spec [of 16 "(p_h p, p_buf p, p_buf_len p)" "poly_full key" d]
  by (auto simp: poly_update_def poly_ok_def poly_pending_def buffer_ok_def buffered_def split: prod.splits)

lemma poly_pending_less: "poly_ok key p \<Longrightarrow> length (poly_pending p) < 16"
  by (simp add: poly_ok_def poly_pending_def)

interpretation poly: absorber 16 "poly_full key" poly_update p_h poly_pending "poly_ok key" for key
  by unfold_locales (simp_all add: poly_update_absorb poly_pending_less)

lemma chunks_exact_remainder:
  "0 < n \<Longrightarrow> chunks n xs = chunks_exact n xs @
     (if chunks_remainder n xs = [] then [] else [chunks_remainder n xs])"
proof (induction "length xs" arbitrary: xs rule: less_induct)
  case less
  show ?case
  proof (cases "length xs < n")
    case True
    then show ?thesis using less.prems by (cases "xs = []") (simp_all add: chunks_step)
  next
    case False
    then have len: "length (take n xs) = n" and "xs \<noteq> []" "length (drop n xs) < length xs"
      using less.prems by auto
    then show ?thesis
      using less.hyps [of "drop n xs"] less.prems chunks_step [of n xs]
        chunks_exact_append [OF less.prems len, of "drop n xs"]
        chunks_remainder_append [OF less.prems len, of "drop n xs"]
      by simp
  qed
qed

lemma lval_zero [simp]: "lval [0, 0, 0, 0, 0] = 0" "limbs_ok [0, 0, 0, 0, 0]"
  by (simp_all add: lval_def val5_def limbs_ok_def)

lemma block_spec_step:
  assumes r: "r_ok r" "lval r = R" and h: "limbs_ok h" "lval h mod P1305 = a mod P1305"
    and m: "length m = 16" "hib = 0 \<or> hib = 0x1000000"
    and b: "le_val m + 2 ^ 104 * unat hib = le_val (b @ [1])"
  shows "limbs_ok (poly_block_h r h m hib) \<and> lval (poly_block_h r h m hib) mod P1305 = poly_spec_step R a b mod P1305"
proof -
  have "(lval h + le_val (b @ [1])) * R mod P1305 = (a + le_val (b @ [1])) * R mod P1305"
    using h(2) by (metis mod_add_cong mod_mult_cong)
  then show ?thesis
    using poly_block_correct [OF r(1) h(1) m] unfolding b r(2) poly_spec_step_def by simp
qed

lemma full_blocks:
  assumes r: "length key = 32" "R = clamp_r (le_val (take 16 key))"
  shows "list_all (\<lambda>c. length c = 16) cs \<Longrightarrow> limbs_ok h \<Longrightarrow> lval h mod P1305 = a mod P1305 \<Longrightarrow>
    limbs_ok (foldl (poly_full key) h cs)
    \<and> lval (foldl (poly_full key) h cs) mod P1305 = foldl (poly_spec_step R) a cs mod P1305"
proof (induction cs arbitrary: h a)
  case (Cons c cs)
  have "le_val c + 2 ^ 104 * unat (0x1000000 :: u32) = le_val (c @ [1])"
    using Cons.prems by (simp add: le_val_append)
  then have "limbs_ok (poly_full key h c) \<and> lval (poly_full key h c) mod P1305 = poly_spec_step R a c mod P1305"
    using key_limbs [OF r(1)] r(2) Cons.prems by (intro block_spec_step) auto
  then show ?case using Cons by simp
qed simp

lemma last_block:
  assumes "length b < 16"
  shows "length ((copy_into (replicate 16 0) 0 b)[length b := 1 :: u8]) = 16"
    and "le_val ((copy_into (replicate 16 0) 0 b)[length b := 1]) = le_val (b @ [1])"
proof -
  have "16 - length b = Suc (15 - length b)" using assms by simp
  then have "(copy_into (replicate 16 0) 0 b)[length b := 1] = b @ 1 # replicate (15 - length b) 0"
    by (simp add: copy_into_def list_update_append)
  then show "length ((copy_into (replicate 16 0) 0 b)[length b := 1 :: u8]) = 16"
    "le_val ((copy_into (replicate 16 0) 0 b)[length b := 1]) = le_val (b @ [1])"
    using assms by (simp_all add: le_val_append)
qed

lemma pad_words:
  assumes "length key = 32"
  shows "pad_val (p_pad (poly_new key)) = le_val (drop 16 key)"
proof -
  have w: "unat (le32 key i) = le_val (take 4 (drop i key))" if "i + 4 \<le> 32" for i
    using that assms le_val_bound [of "take 4 (drop i key)"]
    by (simp add: le32_def from_le_bytes_val unat_of_nat)
  have "drop 16 key = take 4 (drop 16 key) @ take 4 (drop 20 key) @ take 4 (drop 24 key) @ take 4 (drop 28 key)"
    using assms by (simp add: list_eq_iff_nth_eq nth_append)
  then have "le_val (drop 16 key) = le_val (take 4 (drop 16 key) @ take 4 (drop 20 key) @ take 4 (drop 24 key)
      @ take 4 (drop 28 key))" by simp
  then show ?thesis
    using assms by (simp add: pad_val_def poly_new_def w le_val_append)
qed


lemma finish_correct:
  assumes "limbs_ok h" "lval h mod P1305 = a"
  shows "poly_tag (poly_reduce (poly_full_carry h)) pad = le_digits 16 ((a + pad_val pad) mod 2 ^ 128)"
proof -
  obtain q where c: "reduced_ok (poly_full_carry h)" "lval h = lval (poly_full_carry h) + P1305 * q"
    using full_carry_correct [OF assms(1)] by blast
  then have "lval (poly_full_carry h) mod P1305 = a" using assms(2) by simp
  then have "le_val (poly_tag (poly_reduce (poly_full_carry h)) pad) = (a + pad_val pad) mod 2 ^ 128"
    "length (poly_tag (poly_reduce (poly_full_carry h)) pad) = 16"
    using reduce_correct [OF c(1)] tag_correct by auto
  then show ?thesis by (metis le_digits_le_val)
qed

lemma spec_foldl_reduced:
  "foldl (poly_spec_step R) 0 cs mod P1305 = foldl (poly_spec_step R) 0 cs"
  by (cases cs rule: rev_cases) (simp_all add: poly_spec_step_def)

lemma finalize_spec:
  assumes key: "length key = 32" and p: "poly_ok key p"
    and h: "p_h p = foldl (poly_full key) [0, 0, 0, 0, 0] (chunks_exact 16 d)"
    and b: "poly_pending p = chunks_remainder 16 d"
  shows "poly_finalize p = le_digits 16 (poly_spec key d)"
proof -
  let ?R = "clamp_r (le_val (take 16 key))" and ?b = "chunks_remainder 16 d"
  let ?a = "foldl (poly_spec_step ?R) 0 (chunks_exact 16 d)"
  have full: "limbs_ok (p_h p)" "lval (p_h p) mod P1305 = ?a mod P1305"
    using full_blocks [OF key refl, of "chunks_exact 16 d" "[0, 0, 0, 0, 0]" 0]
    by (auto simp: h list_all_iff chunks_exact_length)
  have blen: "p_buf_len p = length ?b" "take (p_buf_len p) (p_buf p) = ?b" "length ?b < 16"
    using b p by (auto simp: poly_pending_def poly_ok_def chunks_remainder_less dest: arg_cong [where f = length])
  have pp: "p_r p = p_r (poly_new key)" "p_pad p = p_pad (poly_new key)" using p by (simp_all add: poly_ok_def)
  show ?thesis
  proof (cases "?b = []")
    case True
    then have "chunks 16 d = chunks_exact 16 d" using chunks_exact_remainder [of 16 d] by simp
    moreover have "poly_finalize p = poly_tag (poly_reduce (poly_full_carry (p_h p))) (p_pad p)"
      using True blen(1) by (simp add: poly_finalize_def)
    ultimately show ?thesis
      using finish_correct [OF full(1) full(2)] pad_words [OF key]
      by (simp add: poly_spec_def pp spec_foldl_reduced)
  next
    case False
    let ?blk = "(copy_into (replicate 16 0) 0 ?b)[length ?b := 1]"
    have fin: "poly_finalize p
        = poly_tag (poly_reduce (poly_full_carry (poly_block_h (p_r p) (p_h p) ?blk 0))) (p_pad p)"
      using False blen by (simp add: poly_finalize_def poly_block_def Let_def)
    have "limbs_ok (poly_block_h (p_r p) (p_h p) ?blk 0)
        \<and> lval (poly_block_h (p_r p) (p_h p) ?blk 0) mod P1305 = poly_spec_step ?R ?a ?b mod P1305"
      using key_limbs [OF key] full last_block [OF blen(3)] by (intro block_spec_step) (simp_all add: pp)
    then have s: "limbs_ok (poly_block_h (p_r p) (p_h p) ?blk 0)"
      "lval (poly_block_h (p_r p) (p_h p) ?blk 0) mod P1305 = poly_spec_step ?R ?a ?b"
      by (simp_all add: poly_spec_step_def)
    have "chunks 16 d = chunks_exact 16 d @ [?b]" using chunks_exact_remainder [of 16 d] False by simp
    then show ?thesis
      unfolding fin poly_spec_def using finish_correct [OF s] pad_words [OF key] by (simp add: pp)
  qed
qed

lemma poly_new_ok: "poly_ok key (poly_new key)" "poly_pending (poly_new key) = []"
    "p_h (poly_new key) = [0, 0, 0, 0, 0]"
  by (simp_all add: poly_ok_def poly_pending_def poly_new_def)

lemma poly_mac_spec:
  assumes "length key = 32"
  shows "poly_finalize (foldl poly_update (poly_update (poly_new key) d) parts)
    = le_digits 16 (poly_spec key (d @ concat parts))"
proof (rule finalize_spec [OF assms])
  show "poly_ok key (foldl poly_update (poly_update (poly_new key) d) parts)"
    by (intro poly.ok_foldl poly.ok_upd poly_new_ok)
qed (simp_all add: poly.absorb_parts [OF poly_new_ok(1)] poly.chain_upd [OF poly_new_ok(1)]
    poly.pending_upd [OF poly_new_ok(1)] poly_new_ok)

section \<open>Properties\<close>

text \<open>C18: The Poly1305 of \<^verbatim>\<open>poly1305.rs\<close> computes RFC 8439: for a 32-byte one-time key and the
  message fed in any pieces, the 16-byte tag is the little-endian encoding of the polynomial of
  the message chunks evaluated at the clamped first half of the key modulo \<open>2^130 - 5\<close>, plus the
  second half, modulo \<open>2^128\<close>; no limb operation overflows on the way.\<close>

theorem poly1305_rfc8439:
  assumes "length key = 32"
  shows "poly_mac key data = le_digits 16 (poly_spec key data)
    \<and> poly_finalize (foldl poly_update (poly_update (poly_new key) data) parts)
        = le_digits 16 (poly_spec key (data @ concat parts))"
  using poly_mac_spec [OF assms, of data "[]"] poly_mac_spec [OF assms, of data parts]
  by (simp add: poly_mac_def)

theorem poly1305_rfc8439_witness:
  "poly_mac (replicate 32 7) [1, 2, 3] = le_digits 16 (poly_spec (replicate 32 7) [1, 2, 3])"
  using poly1305_rfc8439 [of "replicate 32 7" "[1, 2, 3]" "[]"] by simp

text \<open>The tag of the AEAD is the RFC 8439 construction: Poly1305, keyed by the first 32 bytes
  of ChaCha20 block 0, over the associated data and the ciphertext, each zero-padded to a
  multiple of 16 bytes, followed by their lengths as 64-bit little-endian integers.\<close>

theorem aead_mac_rfc8439:
  "aead_mac key nonce aad ct = le_digits 16 (poly_spec (chacha_keystream key nonce 0 32)
     (aad @ replicate ((16 - length aad mod 16) mod 16) 0 @ ct
       @ replicate ((16 - length ct mod 16) mod 16) 0
       @ to_le_bytes (of_nat (length aad) :: u64) @ to_le_bytes (of_nat (length ct) :: u64)))"
proof -
  have "length (chacha_keystream key nonce 0 32) = 32"
    by (simp add: chacha_keystream_def)
  from poly_mac_spec [OF this, of aad "[replicate ((16 - length aad mod 16) mod 16) 0, ct,
      replicate ((16 - length ct mod 16) mod 16) 0, to_le_bytes (of_nat (length aad) :: u64),
      to_le_bytes (of_nat (length ct) :: u64)]"]
  show ?thesis by (simp add: aead_mac_def chacha_keystream_def Let_def)
qed

end
