(* ===== verification/Crypto_Mac.thy ===== *)
theory Crypto_Mac
  imports Crypto_Hash
begin

text \<open>
  \<^verbatim>\<open>src/src/crypto/hmac.rs\<close> and \<^verbatim>\<open>hkdf.rs\<close>: HMAC-SHA256 as an incremental object, HKDF
  extract and expand with the output loop of the source. A panic of the code (\<^verbatim>\<open>assert!\<close>,
  \<^verbatim>\<open>expect\<close>) is the value \<open>None\<close>.
\<close>

unbundle bit_operations_syntax

section \<open>Definitions\<close>

record HmacSha256 =
  hm_inner :: Sha256
  hm_opad :: bytes

definition hmac_new :: "bytes \<Rightarrow> HmacSha256" where
  "hmac_new key =
     (let k = replicate 64 0;
          k = (if 64 < length key then copy_into k 0 (sha256_digest key) else copy_into k 0 key);
          ipad = map (\<lambda>i. k ! i XOR 0x36) [0..<64];
          opad = map (\<lambda>i. k ! i XOR 0x5c) [0..<64]
      in \<lparr>hm_inner = sha256_update sha256_new ipad, hm_opad = opad\<rparr>)"

definition hmac_update :: "HmacSha256 \<Rightarrow> bytes \<Rightarrow> HmacSha256" where
  "hmac_update h data = h\<lparr>hm_inner := sha256_update (hm_inner h) data\<rparr>"

definition hmac_finalize :: "HmacSha256 \<Rightarrow> bytes" where
  "hmac_finalize h =
     (let inner_digest = sha256_finalize (hm_inner h);
          outer = sha256_update sha256_new (hm_opad h);
          outer = sha256_update outer inner_digest
      in sha256_finalize outer)"

definition hmac_sha256 :: "bytes \<Rightarrow> bytes \<Rightarrow> bytes" where
  "hmac_sha256 key data = hmac_finalize (hmac_update (hmac_new key) data)"

definition hkdf_extract :: "bytes \<Rightarrow> bytes \<Rightarrow> bytes" where
  "hkdf_extract salt ikm = hmac_sha256 salt ikm"

text \<open>
  The \<^verbatim>\<open>while written < out.len()\<close> loop of \<^verbatim>\<open>expand\<close>; \<open>counter\<close> is the \<^verbatim>\<open>u8\<close> that
  \<^verbatim>\<open>checked_add(1).expect(..)\<close> advances after every block, the last one included.
\<close>

function hkdf_expand_loop ::
  "bytes \<Rightarrow> bytes \<Rightarrow> bytes \<Rightarrow> u8 \<Rightarrow> bytes \<Rightarrow> nat \<Rightarrow> bytes option" where
  "hkdf_expand_loop prk info t counter out written =
     (if written < length out then
        let h = hmac_new prk;
            h = hmac_update h t;
            h = hmac_update h info;
            h = hmac_update h [counter];
            block = hmac_finalize h;
            tk = min (length out - written) 32
        in case checked_add counter 1 of
             None \<Rightarrow> None
           | Some counter' \<Rightarrow>
               hkdf_expand_loop prk info block counter'
                 (copy_into out written (take tk block)) (written + tk)
      else Some out)"
  by pat_completeness auto
termination
  by (relation "measure (\<lambda>(prk, info, t, counter, out, written). length out - written)")
    (auto simp: copy_into_def)

declare hkdf_expand_loop.simps [simp del]

definition hkdf_expand :: "bytes \<Rightarrow> bytes \<Rightarrow> bytes \<Rightarrow> bytes option" where
  "hkdf_expand prk info out =
     (if length out \<le> 255 * 32 then hkdf_expand_loop prk info [] 1 out 0 else None)"

definition hkdf_two_keys :: "bytes \<Rightarrow> bytes \<Rightarrow> (bytes \<times> bytes) option" where
  "hkdf_two_keys salt ikm =
     (let prk = hkdf_extract salt ikm
      in case hkdf_expand prk [] (replicate 64 0) of
           None \<Rightarrow> None
         | Some okm \<Rightarrow> Some (take 32 okm, drop 32 okm))"

section \<open>HMAC: the RFC 2104 formula\<close>

definition hmac_key_block :: "bytes \<Rightarrow> bytes" where
  "hmac_key_block key =
     (let k = (if 64 < length key then sha256_digest key else key)
      in k @ replicate (64 - length k) 0)"

definition hmac_spec :: "bytes \<Rightarrow> bytes \<Rightarrow> bytes" where
  "hmac_spec key data =
     sha256_digest (map (\<lambda>b. b XOR 0x5c) (hmac_key_block key)
       @ sha256_digest (map (\<lambda>b. b XOR 0x36) (hmac_key_block key) @ data))"

lemma length_hmac_key_block [simp]: "length (hmac_key_block key) = 64"
  by (simp add: hmac_key_block_def Let_def)

lemma map_nth_upto: "length k = n \<Longrightarrow> map (\<lambda>i. f (k ! i)) [0..<n] = map f k"
  by (rule nth_equalityI) simp_all

lemma hmac_new_eq:
  "hmac_new key = \<lparr>hm_inner = sha256_update sha256_new (map (\<lambda>b. b XOR 0x36) (hmac_key_block key)),
     hm_opad = map (\<lambda>b. b XOR 0x5c) (hmac_key_block key)\<rparr>"
proof -
  have "(if 64 < length key then copy_into (replicate 64 0) 0 (sha256_digest key)
      else copy_into (replicate 64 0) 0 key) = hmac_key_block key"
    by (simp add: copy_into_def hmac_key_block_def Let_def)
  then show ?thesis
    by (simp add: hmac_new_def Let_def
        map_nth_upto [OF length_hmac_key_block, of "\<lambda>b. b XOR 0x36"]
        map_nth_upto [OF length_hmac_key_block, of "\<lambda>b. b XOR 0x5c"])
qed

lemma hmac_parts_inner:
  "hm_inner (foldl hmac_update h parts) = foldl sha256_update (hm_inner h) parts
   \<and> hm_opad (foldl hmac_update h parts) = hm_opad h"
  by (induction parts arbitrary: h) (auto simp: hmac_update_def)

lemma hmac_parts_spec: "hmac_finalize (foldl hmac_update (hmac_new key) parts) = hmac_spec key (concat parts)"
proof -
  let ?k = "map (\<lambda>b. b XOR 0x36) (hmac_key_block key)"
  have "sha256_finalize (foldl sha256_update (sha256_update sha256_new ?k) parts)
      = sha256_digest (?k @ concat parts)"
    using sha256.fin_parts [of "?k # parts"] by simp
  then show ?thesis
    by (simp add: hmac_finalize_def hmac_parts_inner hmac_new_eq hmac_spec_def sha256.fin_two Let_def)
qed

interpretation hmac: incremental_hash "hmac_new key" hmac_update hmac_finalize "hmac_spec key" 32
  for key
  by unfold_locales (simp_all add: hmac_parts_spec, simp add: hmac_spec_def)

lemma hmac_sha256_eq: "hmac_sha256 key data = hmac_spec key data"
  by (simp add: hmac_sha256_def hmac.fin_one)

lemma length_hmac_spec [simp]: "length (hmac_spec key data) = 32"
  by (rule hmac.dig_length)

section \<open>HKDF: the RFC 5869 blocks\<close>

text \<open>\<open>T(0)\<close> is empty, \<open>T(i + 1) = HMAC(prk, T(i) | info | i + 1)\<close>.\<close>

primrec hkdf_T :: "bytes \<Rightarrow> bytes \<Rightarrow> nat \<Rightarrow> bytes" where
  "hkdf_T prk info 0 = []"
| "hkdf_T prk info (Suc i) = hmac_spec prk (hkdf_T prk info i @ info @ [of_nat (Suc i)])"

definition hkdf_okm :: "bytes \<Rightarrow> bytes \<Rightarrow> nat \<Rightarrow> bytes" where
  "hkdf_okm prk info n = concat (map (\<lambda>i. hkdf_T prk info (Suc i)) [0..<n])"

lemma length_hkdf_okm [simp]: "length (hkdf_okm prk info n) = 32 * n"
  by (induction n) (simp_all add: hkdf_okm_def)

lemma hkdf_okm_Suc: "hkdf_okm prk info (Suc n) = hkdf_okm prk info n @ hkdf_T prk info (Suc n)"
  by (simp add: hkdf_okm_def)

lemma checked_add_u8_one:
  "i < 255 \<Longrightarrow> checked_add (of_nat i) (1 :: u8) = Some (of_nat (Suc i))"
  by (simp add: checked_add_def unat_of_nat add.commute)

lemma checked_add_u8_max: "checked_add 255 (1 :: u8) = None"
  by (simp add: checked_add_def)

lemma hkdf_loop_done:
  "\<not> w < length out \<Longrightarrow> hkdf_expand_loop prk info t c out w = Some out"
  by (subst hkdf_expand_loop.simps) simp

text \<open>The loop invariant: after \<open>i\<close> blocks the output starts with the first \<open>i\<close> blocks of the key
  stream.
\<close>

lemma hkdf_expand_loop_spec:
  assumes "length out = n" "32 * i \<le> n" "take (32 * i) out = hkdf_okm prk info i" "n \<le> 254 * 32"
    and "w = min n (32 * i)"
  shows "\<exists>j. n \<le> 32 * j
    \<and> hkdf_expand_loop prk info (hkdf_T prk info i) (of_nat (Suc i)) out w
        = Some (take n (hkdf_okm prk info j))"
  using assms
proof (induction "n - 32 * i" arbitrary: i out w rule: less_induct)
  case less
  have w: "w = 32 * i" using less.prems by simp
  show ?case
  proof (cases "w < n")
    case False
    with less.prems w have "out = hkdf_okm prk info i" "n = 32 * i" by auto
    with False less.prems w show ?thesis
      by (intro exI [of _ i]) (simp add: hkdf_loop_done)
  next
    case wn: True
    let ?blk = "hkdf_T prk info (Suc i)" and ?tk = "min (n - w) 32"
    let ?out = "copy_into out w (take ?tk ?blk)"
    have i: "Suc i < 255" using wn w less.prems by simp
    have step: "hkdf_expand_loop prk info (hkdf_T prk info i) (of_nat (Suc i)) out w
        = hkdf_expand_loop prk info ?blk (of_nat (Suc (Suc i))) ?out (w + ?tk)"
      using wn less.prems(1) checked_add_u8_one [OF i]
      by (subst hkdf_expand_loop.simps)
        (simp add: Let_def hmac.fin_three del: of_nat_Suc)
    have len: "length ?out = n" using wn less.prems(1) by simp
    have pre: "take (w + ?tk) ?out = hkdf_okm prk info i @ take ?tk ?blk"
      using less.prems w wn by (simp add: copy_into_def)
    show ?thesis
    proof (cases "n - w \<le> 32")
      case True
      with pre len less.prems w have "?out = take n (hkdf_okm prk info (Suc i))"
        by (simp add: hkdf_okm_Suc)
      moreover have "\<not> w + ?tk < length ?out" using True len by simp
      then have "hkdf_expand_loop prk info (hkdf_T prk info i) (of_nat (Suc i)) out w = Some ?out"
        using step hkdf_loop_done by metis
      moreover have "n \<le> 32 * Suc i" using True w by simp
      ultimately show ?thesis by metis
    next
      case False
      then have tk: "w + ?tk = 32 * Suc i" "32 * Suc i \<le> n" "?tk = 32"
        unfolding w by auto
      have "take (w + ?tk) ?out = hkdf_okm prk info (Suc i)"
        using pre tk(3) by (simp add: hkdf_okm_Suc)
      then have pre': "take (32 * Suc i) ?out = hkdf_okm prk info (Suc i)"
        unfolding tk(1) .
      have smaller: "n - 32 * Suc i < n - 32 * i" and wmin: "32 * Suc i = min n (32 * Suc i)"
        using wn w tk(2) by auto
      show ?thesis
        using less.hyps [OF smaller len tk(2) pre' less.prems(4) wmin]
        unfolding step tk(1) .
    qed
  qed
qed

lemma hkdf_expand_blocks:
  assumes "length out \<le> 254 * 32"
  shows "\<exists>j. length out \<le> 32 * j \<and> hkdf_expand prk info out = Some (take (length out) (hkdf_okm prk info j))"
  using hkdf_expand_loop_spec [of out "length out" 0 prk info 0] assms
  by (simp add: hkdf_expand_def hkdf_okm_def)

text \<open>In the last admissible range the counter overflows: the loop advances it once more after the
  final block.
\<close>

lemma hkdf_expand_loop_overflow:
  assumes "i + k = 254" "254 * 32 < length out"
  shows "hkdf_expand_loop prk info t (of_nat (Suc i)) out (32 * i) = None"
  using assms
proof (induction k arbitrary: i t out)
  case 0
  then have "i = 254" by simp
  with 0 show ?case
    by (subst hkdf_expand_loop.simps) (simp add: Let_def checked_add_u8_max)
next
  case (Suc k)
  then have i: "Suc i < 255" and w: "32 * i < length out" "min (length out - 32 * i) 32 = 32"
    by auto
  let ?b = "hmac_spec prk (t @ info @ [of_nat (Suc i)])"
  have "hkdf_expand_loop prk info t (of_nat (Suc i)) out (32 * i)
      = hkdf_expand_loop prk info ?b (of_nat (Suc (Suc i))) (copy_into out (32 * i) ?b) (32 * Suc i)"
    using w checked_add_u8_one [OF i]
    by (subst hkdf_expand_loop.simps) (simp add: Let_def hmac.fin_three add.commute del: of_nat_Suc)
  also have "\<dots> = None"
    using Suc.prems by (intro Suc.IH) (auto simp: copy_into_def)
  finally show ?case .
qed

section \<open>Properties\<close>

text \<open>HMAC-SHA256, fed in any number of pieces, is the RFC 2104 construction
  \<open>H(K \<oplus> opad | H(K \<oplus> ipad | data))\<close> with the key hashed when longer than a block and
  zero-padded otherwise.\<close>

theorem hmac_rfc2104:
  "hmac_finalize (foldl hmac_update (hmac_new key) parts)
     = sha256_digest (map (\<lambda>b. b XOR 0x5c) (hmac_key_block key)
         @ sha256_digest (map (\<lambda>b. b XOR 0x36) (hmac_key_block key) @ concat parts))"
  by (simp add: hmac_parts_spec hmac_spec_def)

text \<open>\<^verbatim>\<open>hkdf::expand\<close> fills an output of up to 254 blocks with the first bytes of
  \<open>T(1) | T(2) | \<dots>\<close> of RFC 5869, and returns.\<close>

theorem hkdf_expand_rfc5869:
  assumes "length out \<le> 254 * 32"
  shows "\<exists>j. length out \<le> 32 * j
    \<and> hkdf_expand prk info out
        = Some (take (length out) (concat (map (\<lambda>i. hkdf_T prk info (Suc i)) [0..<j])))"
  using hkdf_expand_blocks [OF assms] by (simp add: hkdf_okm_def)

theorem hkdf_expand_rfc5869_witness:
  "length (replicate 64 (0 :: u8)) \<le> 254 * 32
    \<and> (\<exists>j. 64 \<le> 32 * j
      \<and> hkdf_expand [1] [] (replicate 64 0)
          = Some (take 64 (concat (map (\<lambda>i. hkdf_T [1] [] (Suc i)) [0..<j]))))"
  using hkdf_expand_rfc5869 [of "replicate 64 0" "[1]" "[]"] by simp

text \<open>\<^verbatim>\<open>hkdf_two_keys\<close> always returns, and its two keys are \<open>T(1)\<close> and \<open>T(2)\<close> for the
  empty info string under the extracted key.\<close>

theorem hkdf_two_keys_blocks:
  "hkdf_two_keys salt ikm
     = Some (hmac_spec (hmac_spec salt ikm) [1],
             hmac_spec (hmac_spec salt ikm) (hmac_spec (hmac_spec salt ikm) [1] @ [2]))"
proof -
  let ?prk = "hmac_spec salt ikm" and ?out = "replicate 64 0"
  obtain j where j: "64 \<le> 32 * j" "hkdf_expand ?prk [] ?out = Some (take 64 (hkdf_okm ?prk [] j))"
    using hkdf_expand_blocks [of ?out ?prk "[]"] by auto
  have "take 64 (hkdf_okm ?prk [] j) = hkdf_okm ?prk [] 2"
  proof -
    from j have "2 \<le> j" by simp
    then have "[0..<j] = [0..<2] @ [2..<j]"
      using upt_add_eq_append [of 0 2 "j - 2"] by (simp only: le_add_diff_inverse)
    then have "hkdf_okm ?prk [] j = hkdf_okm ?prk [] 2 @ concat (map (\<lambda>i. hkdf_T ?prk [] (Suc i)) [2..<j])"
      by (simp add: hkdf_okm_def)
    then show ?thesis by simp
  qed
  then show ?thesis
    using j by (simp add: hkdf_two_keys_def hkdf_extract_def hmac_sha256_eq Let_def hkdf_okm_def
        numeral_2_eq_2)
qed

text \<open>for an output of more than 254 and at most 255 blocks, which the length assertion
  admits, \<^verbatim>\<open>expand\<close> does not return: the block counter is advanced past 255 after the last
  block and the \<^verbatim>\<open>expect\<close> on the checked addition panics.\<close>

theorem hkdf_expand_last_block_panics:
  assumes "254 * 32 < length out"
  shows "hkdf_expand prk info out = None"
  using hkdf_expand_loop_overflow [of 0 254 out prk info "[]"] assms by (simp add: hkdf_expand_def)

theorem hkdf_expand_last_block_panics_witness:
  "254 * 32 < length (replicate (255 * 32) (0 :: u8))
    \<and> hkdf_expand [1] [] (replicate (255 * 32) 0) = None"
  using hkdf_expand_last_block_panics [of "replicate (255 * 32) 0" "[1]" "[]"] by simp

end
