(* ===== verification/Shachain.thy ===== *)
theory Shachain
  imports Crypto_Hash
begin

text \<open>
  \<^verbatim>\<open>src/src/shachain.rs\<close>: per-commitment secrets. The sender derives the secret of an index by
  flipping and hashing along the one bits of the index, from the highest down; the receiver
  keeps at most one secret per number of trailing zero bits and re-derives the others. The
  store is proved to implement a plain list of all revealed secrets, against any sender.
\<close>

unbundle bit_operations_syntax

section \<open>Definitions\<close>

definition MAX_INDEX :: u64 where "MAX_INDEX = push_bit 48 1 - 1"

definition index_for_commitment :: "u64 \<Rightarrow> u64" where
  "index_for_commitment commitment_number = MAX_INDEX - commitment_number"

definition flip_bit :: "bytes \<Rightarrow> nat \<Rightarrow> bytes" where
  "flip_bit p b = p[b div 8 := p ! (b div 8) XOR push_bit (b mod 8) 1]"

text \<open>The loop \<^verbatim>\<open>for b in (0..bits).rev()\<close>.\<close>

primrec derive_loop :: "u64 \<Rightarrow> nat \<Rightarrow> bytes \<Rightarrow> bytes" where
  "derive_loop index 0 p = p"
| "derive_loop index (Suc b) p =
     derive_loop index b (if index AND push_bit b 1 \<noteq> 0 then sha256_digest (flip_bit p b) else p)"

definition derive_secret :: "bytes \<Rightarrow> nat \<Rightarrow> u64 \<Rightarrow> bytes" where
  "derive_secret base bits index = derive_loop index bits base"

definition generate_from_seed :: "bytes \<Rightarrow> u64 \<Rightarrow> bytes" where
  "generate_from_seed seed index = derive_secret seed 48 index"

datatype InsertError = InsertError

record SecretStore =
  known :: "(u64 \<times> bytes) option list"

definition store_new :: SecretStore where
  "store_new = \<lparr>known = replicate 49 None\<rparr>"

definition trailing_zeros :: "u64 \<Rightarrow> nat" where
  "trailing_zeros w = length (takeWhile (\<lambda>i. \<not> bit w i) [0..<64])"

definition bucket :: "u64 \<Rightarrow> nat" where
  "bucket index = (if index = 0 then 48 else trailing_zeros index)"

definition store_insert :: "SecretStore \<Rightarrow> u64 \<Rightarrow> bytes \<Rightarrow> (InsertError, SecretStore) result" where
  "store_insert st index secret =
     (let b = bucket index in
      if list_all (\<lambda>lower. case known st ! lower of
             None \<Rightarrow> True
           | Some (known_index, known_secret) \<Rightarrow> derive_secret secret b known_index = known_secret)
           [0..<b]
      then Inr (st\<lparr>known := (known st)[b := Some (index, secret)]\<rparr>)
      else Inl InsertError)"

definition covers :: "nat \<Rightarrow> u64 \<Rightarrow> u64 \<Rightarrow> bool" where
  "covers b known_index index =
     (let mask = if b = 48 then 0 else NOT (push_bit b 1 - 1)
      in index AND mask = known_index AND mask \<and> known_index \<le> index)"

primrec secret_for_loop :: "(u64 \<times> bytes) option list \<Rightarrow> nat list \<Rightarrow> u64 \<Rightarrow> bytes option" where
  "secret_for_loop ks [] index = None"
| "secret_for_loop ks (b # bs) index =
     (case ks ! b of
        None \<Rightarrow> secret_for_loop ks bs index
      | Some (known_index, known_secret) \<Rightarrow>
          if covers b known_index index then Some (derive_secret known_secret b index)
          else secret_for_loop ks bs index)"

definition secret_for :: "SecretStore \<Rightarrow> u64 \<Rightarrow> bytes option" where
  "secret_for st index = secret_for_loop (known st) [0..<49] index"

definition entries :: "SecretStore \<Rightarrow> (u64 \<times> bytes) list" where
  "entries st = map the (filter (\<lambda>e. e \<noteq> None) (known st))"

definition min_index :: "SecretStore \<Rightarrow> u64 option" where
  "min_index st =
     (case map fst (entries st) of [] \<Rightarrow> None | i # rest \<Rightarrow> Some (fold min rest i))"

definition from_entries :: "(u64 \<times> bytes) list \<Rightarrow> SecretStore" where
  "from_entries es =
     foldl (\<lambda>st (index, secret).
        st\<lparr>known := (known st)[bucket index := Some (index, secret)]\<rparr>) store_new es"

text \<open>What the channel does with the secrets its peer reveals: the secret of commitment
  \<open>0, 1, 2, \<dots>\<close> in turn, stopping at the first one the store rejects.
\<close>

primrec reveal_from :: "SecretStore \<Rightarrow> nat \<Rightarrow> bytes list \<Rightarrow> (InsertError, SecretStore) result" where
  "reveal_from st n [] = Inr st"
| "reveal_from st n (x # xs) =
     rbind (store_insert st (index_for_commitment (of_nat n)) x) (\<lambda>st. reveal_from st (Suc n) xs)"

section \<open>Bits of an index\<close>

lemma MAX_INDEX_nat [simp]: "unat MAX_INDEX = 2 ^ 48 - 1"
  by (simp add: MAX_INDEX_def)

lemma bit_test: "(w :: u64) AND push_bit b 1 \<noteq> 0 \<longleftrightarrow> bit w b"
  by (simp only: push_bit_of_1 and_exp_eq_0_iff_not_bit not_not)

lemma bit_u64: "bit (w :: u64) c \<longleftrightarrow> odd (unat w div 2 ^ c)"
  using bit_iff_odd [of "unat w" c] by (simp add: bit_unsigned_iff)

lemma derive_loop_bit:
  "derive_loop i (Suc b) p = derive_loop i b (if odd (unat i div 2 ^ b) then sha256_digest (flip_bit p b) else p)"
  by (simp only: derive_loop.simps bit_test bit_u64)

declare derive_loop.simps(2) [simp del]

text \<open>Only the bits below the bound matter, zero bits do nothing, and a range splits.\<close>

lemma derive_loop_cong:
  "(\<And>c. c < b \<Longrightarrow> odd (unat i div 2 ^ c) = odd (unat j div 2 ^ c)) \<Longrightarrow> derive_loop i b p = derive_loop j b p"
  by (induction b arbitrary: p) (simp_all add: derive_loop_bit)

lemma derive_loop_zero: "(\<And>c. c < b \<Longrightarrow> even (unat i div 2 ^ c)) \<Longrightarrow> derive_loop i b p = p"
  by (induction b arbitrary: p) (simp_all add: derive_loop_bit)

lemma derive_loop_skip:
  "k \<le> b \<Longrightarrow> (\<And>c. k \<le> c \<Longrightarrow> c < b \<Longrightarrow> even (unat i div 2 ^ c)) \<Longrightarrow> derive_loop i b p = derive_loop i k p"
proof (induction b arbitrary: p)
  case (Suc b)
  then show ?case by (cases "k = Suc b") (simp_all add: derive_loop_bit)
qed simp

lemma derive_loop_top:
  assumes "k < b" "odd (unat i div 2 ^ k)" "\<And>c. k < c \<Longrightarrow> c < b \<Longrightarrow> even (unat i div 2 ^ c)"
  shows "derive_loop i b p = derive_loop i k (sha256_digest (flip_bit p k))"
proof -
  have "derive_loop i b p = derive_loop i (Suc k) p" using assms by (intro derive_loop_skip) auto
  then show ?thesis using assms by (simp add: derive_loop_bit)
qed

text \<open>Arithmetic of the bits of \<open>m + r\<close> with \<open>m\<close> a multiple of \<open>2^b\<close> and \<open>r < 2^b\<close>.\<close>

lemma odd_low:
  assumes "2 ^ b dvd (m :: nat)" "c < b"
  shows "odd ((m + r) div 2 ^ c) = odd (r div 2 ^ c)"
proof -
  obtain d where "b = Suc c + d" using assms(2) less_iff_Suc_add by auto
  moreover obtain q where "m = 2 ^ b * q" using assms(1) by auto
  ultimately have "m = 2 ^ c * (2 * (2 ^ d * q))" by (simp add: power_add)
  then have "(m + r) div 2 ^ c = 2 * (2 ^ d * q) + r div 2 ^ c" by simp
  then show ?thesis by simp
qed

lemma even_low: "2 ^ b dvd (m :: nat) \<Longrightarrow> c < b \<Longrightarrow> even (m div 2 ^ c)"
  using odd_low [of b m c 0] by simp

lemma top_bit:
  assumes "2 ^ k \<le> (r :: nat)" "r < 2 ^ Suc k"
  shows "odd (r div 2 ^ k)" "k < c \<Longrightarrow> even (r div 2 ^ c)"
proof -
  have "r div 2 ^ k = 1" using assms by (intro div_nat_eqI) simp_all
  then show "odd (r div 2 ^ k)" by simp
  assume "k < c"
  then have "(2 :: nat) ^ Suc k \<le> 2 ^ c" by (intro power_increasing) simp_all
  then have "r < 2 ^ c" using assms(2) by linarith
  then show "even (r div 2 ^ c)" by simp
qed

text \<open>Deriving along a covered index goes through the entry of its highest differing bit: this is
  why checking one index per lower bucket checks them all.
\<close>

lemma derive_through:
  assumes m: "2 ^ b dvd unat m" and k: "k < b" and e: "unat e = unat m + 2 ^ k"
    and i: "unat e \<le> unat i" "unat i < unat m + 2 ^ Suc k"
  shows "derive_secret x b i = derive_secret (derive_secret x b e) k i"
proof -
  define r where "r = unat i - unat m"
  have r: "unat i = unat m + r" "2 ^ k \<le> r" "r < 2 ^ Suc k"
    using e i by (auto simp: r_def)
  have ib: "c < b \<Longrightarrow> odd (unat i div 2 ^ c) = odd (r div 2 ^ c)" for c
    unfolding r(1) by (rule odd_low [OF m])
  have eb: "c < b \<Longrightarrow> odd (unat e div 2 ^ c) = odd (2 ^ k div (2 :: nat) ^ c)" for c
    unfolding e by (rule odd_low [OF m])
  have "derive_loop i b x = derive_loop i k (sha256_digest (flip_bit x k))"
    using ib top_bit [OF r(2,3)] k by (intro derive_loop_top) auto
  moreover have "derive_loop e b x = derive_loop e k (sha256_digest (flip_bit x k))"
    using eb top_bit [of k "2 ^ k"] k by (intro derive_loop_top) auto
  moreover have "derive_loop e k (sha256_digest (flip_bit x k)) = sha256_digest (flip_bit x k)"
    using eb k even_low [of k "2 ^ k"] by (intro derive_loop_zero) auto
  ultimately show ?thesis by (simp add: derive_secret_def)
qed

section \<open>Buckets\<close>

lemma trailing_zeros_spec:
  assumes "w \<noteq> 0"
  shows "trailing_zeros w < 64 \<and> bit w (trailing_zeros w) \<and> (\<forall>c<trailing_zeros w. \<not> bit w c)"
proof -
  let ?t = "trailing_zeros w"
  have "\<exists>i\<in>set [0..<64]. bit w i"
    using assms bit_imp_le_length by (auto simp: bit_eq_iff)
  then have "takeWhile (\<lambda>i. \<not> bit w i) [0..<64] \<noteq> [0..<64]" by (simp add: takeWhile_eq_all_conv)
  then have t: "?t < length [0..<64]"
    unfolding trailing_zeros_def by (metis le_neq_implies_less length_takeWhile_le order_refl take_all takeWhile_eq_take)
  then have "bit w ([0..<64] ! ?t)"
    using nth_length_takeWhile [of "\<lambda>i. \<not> bit w i" "[0..<64]"] unfolding trailing_zeros_def by simp
  moreover have "\<not> bit w c" if "c < ?t" for c
  proof -
    have "takeWhile (\<lambda>i. \<not> bit w i) [0..<64] ! c = c"
      using that t by (simp add: takeWhile_nth trailing_zeros_def)
    then show ?thesis
      using nth_mem [of c "takeWhile (\<lambda>i. \<not> bit w i) [0..<64]"] that set_takeWhileD
      unfolding trailing_zeros_def by fastforce
  qed
  ultimately show ?thesis using t by simp
qed

lemma low_bits_zero: "(\<forall>c<k. even (n div 2 ^ c)) \<Longrightarrow> 2 ^ k dvd (n :: nat)"
proof (induction k)
  case (Suc k)
  then obtain q where "n = 2 ^ k * q" by auto
  moreover have "even (n div 2 ^ k)" using Suc.prems by simp
  ultimately show ?case by (auto simp: mult.assoc)
qed simp

definition in_bucket :: "nat \<Rightarrow> nat \<Rightarrow> bool" where
  "in_bucket k j \<longleftrightarrow> (k < 48 \<and> j mod 2 ^ Suc k = 2 ^ k) \<or> (k = 48 \<and> j = 0)"

lemma odd_multiple: "2 ^ k dvd j \<Longrightarrow> odd (j div 2 ^ k) \<Longrightarrow> (j :: nat) mod 2 ^ Suc k = 2 ^ k"
proof -
  assume "2 ^ k dvd j" "odd (j div 2 ^ k)"
  then obtain q where "j = 2 ^ k * (2 * q + 1)" by (metis dvd_mult_div_cancel oddE)
  then have "j = 2 ^ k + 2 ^ Suc k * q" by (simp add: algebra_simps)
  then show ?thesis by simp
qed

lemma odd_multipleD:
  assumes "(j :: nat) mod 2 ^ Suc k = 2 ^ k"
  shows "2 ^ k dvd j" "odd (j div 2 ^ k)"
proof -
  have j: "j = 2 ^ k * (2 * (j div 2 ^ Suc k) + 1)"
    using mult_div_mod_eq [of "2 ^ Suc k" j] unfolding assms by (simp add: algebra_simps)
  then show "2 ^ k dvd j" by (metis dvd_triv_left)
  have "2 ^ k * q div 2 ^ k = q" for q :: nat by simp
  then have "j div 2 ^ k = 2 * (j div 2 ^ Suc k) + 1" using j by metis
  then show "odd (j div 2 ^ k)" by simp
qed

lemma bucket_in_bucket:
  assumes "unat w < 2 ^ 48"
  shows "in_bucket (bucket w) (unat w)"
proof (cases "w = 0")
  case False
  let ?t = "trailing_zeros w"
  have t: "odd (unat w div 2 ^ ?t)" "\<forall>c<?t. even (unat w div 2 ^ c)"
    using trailing_zeros_spec [OF False] by (auto simp: bit_u64)
  have "?t < 48"
  proof (rule ccontr)
    assume "\<not> ?t < 48"
    then have "(2 :: nat) ^ 48 \<le> 2 ^ ?t" by (intro power_increasing) simp_all
    then have "unat w div 2 ^ ?t = 0" using assms by simp
    then show False using t(1) by simp
  qed
  then show ?thesis
    using odd_multiple [OF low_bits_zero [OF t(2)] t(1)] False by (simp add: in_bucket_def bucket_def)
qed (simp add: in_bucket_def bucket_def)

lemma in_bucket_dvd: "in_bucket k j \<Longrightarrow> 2 ^ k dvd j"
  unfolding in_bucket_def using odd_multipleD(1) by fastforce

lemma in_bucket_not_less: "in_bucket k j \<Longrightarrow> in_bucket l j \<Longrightarrow> \<not> k < l"
proof
  assume kj: "in_bucket k j" and lj: "in_bucket l j" and "k < l"
  then have "2 ^ Suc k dvd j"
    using in_bucket_dvd [OF lj] by (meson Suc_leI dvd_trans le_imp_power_dvd)
  then show False using kj \<open>k < l\<close> lj by (auto simp: in_bucket_def)
qed

lemma in_bucket_unique: "in_bucket k j \<Longrightarrow> in_bucket l j \<Longrightarrow> k = l"
  using in_bucket_not_less by (meson linorder_neqE_nat)

lemma bucket_iff: "unat w < 2 ^ 48 \<Longrightarrow> bucket w = k \<longleftrightarrow> in_bucket k (unat w)"
  using bucket_in_bucket in_bucket_unique by blast

lemma in_bucket_le: "in_bucket k j \<Longrightarrow> k \<le> 48"
  by (auto simp: in_bucket_def)

text \<open>Two indices of one bucket are a multiple of \<open>2^(k+1)\<close> apart.\<close>

lemma mod_window: "(a :: nat) mod d = b mod d \<Longrightarrow> a \<le> b \<Longrightarrow> b < a + d \<Longrightarrow> a = b"
proof -
  assume eq: "a mod d = b mod d" and le: "a \<le> b" "b < a + d"
  have "d dvd b - a" using mod_eq_dvd_iff_nat [OF le(1)] eq by metis
  moreover have "b - a < d" using le by linarith
  ultimately show "a = b" using le(1) by (metis dvd_imp_le diff_is_0_eq le_antisym not_less not_gr_zero)
qed

lemma in_bucket_window:
  "in_bucket k a \<Longrightarrow> in_bucket k b \<Longrightarrow> a \<le> b \<Longrightarrow> b < a + 2 ^ Suc k \<Longrightarrow> a = b"
  unfolding in_bucket_def using mod_window [of a "2 ^ Suc k" b] by auto

lemma in_bucket_next:
  assumes "in_bucket b m" "k < b"
  shows "in_bucket k (m + 2 ^ k)"
proof -
  have "2 ^ Suc k dvd m"
    using in_bucket_dvd [OF assms(1)] assms(2) by (meson Suc_leI dvd_trans le_imp_power_dvd)
  then have "(m + 2 ^ k) mod 2 ^ Suc k = 2 ^ k mod 2 ^ Suc k" by (metis add_0 dvd_eq_mod_eq_0 mod_add_left_eq)
  then show ?thesis using assms in_bucket_le [OF assms(1)] by (simp add: in_bucket_def)
qed

lemma in_bucket_top: "in_bucket b m \<Longrightarrow> m < 2 ^ 48 \<Longrightarrow> m + 2 ^ b \<le> 2 ^ 48"
proof -
  assume b: "in_bucket b m" and "m < 2 ^ 48"
  moreover obtain q where "m = 2 ^ b * q" using in_bucket_dvd [OF b] by auto
  moreover have "(2 :: nat) ^ 48 = 2 ^ b * 2 ^ (48 - b)"
    using in_bucket_le [OF b] by (simp only: power_add [symmetric] le_add_diff_inverse)
  ultimately have "q < 2 ^ (48 - b)" by (metis mult_less_cancel1)
  then have "2 ^ b * (q + 1) \<le> 2 ^ b * 2 ^ (48 - b)" by (intro mult_le_mono) simp_all
  then show ?thesis using \<open>m = 2 ^ b * q\<close> \<open>2 ^ 48 = _\<close> by (simp only: distrib_left mult_1_right)
qed

section \<open>The store against the list of all revealed secrets\<close>

text \<open>
  The abstract state is the list of secrets revealed so far, by commitment number; \<open>sec xs i\<close>
  reads it by index. \<open>store_inv\<close> says what the 49 slots hold: in bucket \<open>k\<close> the secret of the
  lowest revealed index of that bucket. \<open>consistent\<close> says that every revealed secret derives
  those its index covers.
\<close>

definition sec :: "bytes list \<Rightarrow> nat \<Rightarrow> bytes" where
  "sec xs i = xs ! (2 ^ 48 - 1 - i)"

definition store_inv :: "(nat \<Rightarrow> bytes) \<Rightarrow> nat \<Rightarrow> SecretStore \<Rightarrow> bool" where
  "store_inv s lo st \<longleftrightarrow> length (known st) = 49 \<and>
     (\<forall>k<49. \<forall>j x. known st ! k = Some (j, x) \<longleftrightarrow>
        lo \<le> unat j \<and> unat j < 2 ^ 48 \<and> in_bucket k (unat j) \<and> unat j < lo + 2 ^ Suc k \<and> x = s (unat j))"

definition consistent :: "(nat \<Rightarrow> bytes) \<Rightarrow> nat \<Rightarrow> bool" where
  "consistent s lo \<longleftrightarrow> (\<forall>m i. lo \<le> unat m \<and> unat m < 2 ^ 48 \<and> unat m \<le> unat i \<and> unat i < unat m + 2 ^ bucket m
     \<longrightarrow> derive_secret (s (unat m)) (bucket m) i = s (unat i))"

lemma consistentD:
  "consistent s lo \<Longrightarrow> lo \<le> unat m \<Longrightarrow> unat m < 2 ^ 48 \<Longrightarrow> unat m \<le> unat i \<Longrightarrow>
     unat i < unat m + 2 ^ bucket m \<Longrightarrow> derive_secret (s (unat m)) (bucket m) i = s (unat i)"
  unfolding consistent_def by blast

lemma coversD: "covers b j i \<Longrightarrow> unat j \<le> unat i"
  by (simp add: covers_def Let_def word_le_nat_alt)

lemma and_not_mask:
  fixes x y :: u64
  shows "x AND NOT (mask n) = y AND NOT (mask n) \<longleftrightarrow> drop_bit n x = drop_bit n y"
proof
  assume "x AND NOT (mask n) = y AND NOT (mask n)"
  then have "drop_bit n (x AND NOT (mask n)) = drop_bit n (y AND NOT (mask n))" by simp
  moreover have "drop_bit n (z AND NOT (mask n)) = drop_bit n z" for z :: u64
    by (rule bit_eqI) (auto simp: bit_drop_bit_eq bit_and_iff bit_not_iff bit_mask_iff dest: bit_imp_le_length)
  ultimately show "drop_bit n x = drop_bit n y" by simp
next
  assume "drop_bit n x = drop_bit n y"
  then have "bit x (n + c) = bit y (n + c)" for c by (metis bit_drop_bit_eq comp_apply)
  then have "n \<le> c \<Longrightarrow> bit x c = bit y c" for c by (metis le_add_diff_inverse)
  then show "x AND NOT (mask n) = y AND NOT (mask n)"
    by (intro bit_eqI) (auto simp: bit_and_iff bit_not_iff bit_mask_iff)
qed

lemma drop_bit_eq_u64: "drop_bit n (x :: u64) = drop_bit n y \<longleftrightarrow> unat x div 2 ^ n = unat y div 2 ^ n"
  by (simp only: word_unat_eq_iff unat_drop_bit_eq) (simp only: drop_bit_eq_div)

lemma of_nat_u48: "n < 2 ^ 48 \<Longrightarrow> unat (of_nat n :: u64) = n"
  by (simp add: unat_of_nat)

lemma covers_iff:
  assumes "in_bucket b (unat j)" "unat i < 2 ^ 48"
  shows "covers b j i \<longleftrightarrow> unat j \<le> unat i \<and> unat i < unat j + 2 ^ b"
proof (cases "b = 48")
  case True
  then show ?thesis using assms by (auto simp: covers_def in_bucket_def word_le_nat_alt)
next
  case False
  have "push_bit b 1 - 1 = (mask b :: u64)" by (simp add: mask_eq_decr_exp)
  then have c: "covers b j i \<longleftrightarrow> unat i div 2 ^ b = unat j div 2 ^ b \<and> unat j \<le> unat i"
    using False by (simp add: covers_def Let_def and_not_mask drop_bit_eq_u64 word_le_nat_alt del: push_bit_of_1)
  obtain q where q: "unat j = 2 ^ b * q" using in_bucket_dvd [OF assms(1)] by auto
  have "unat i div 2 ^ b = q \<longleftrightarrow> unat i < 2 ^ b * q + 2 ^ b" if "2 ^ b * q \<le> unat i"
    using that dividend_less_times_div [of "2 ^ b" "unat i"] by (auto intro!: div_nat_eqI simp: algebra_simps)
  then show ?thesis unfolding c q by auto
qed

text \<open>Coverage: every index at or above the lowest revealed one lies under a stored index.\<close>

lemma covering_exists:
  assumes "lo \<le> i" "i < (2 :: nat) ^ 48"
  shows "\<exists>k j. in_bucket k j \<and> lo \<le> j \<and> j \<le> i \<and> j < lo + 2 ^ Suc k \<and> i < j + 2 ^ k"
proof -
  define J where "J k = i - i mod 2 ^ k" for k
  define K where "K = {k. k \<le> 48 \<and> lo \<le> J k}"
  have "0 \<in> K" using assms by (simp add: K_def J_def)
  moreover have "finite K" unfolding K_def by simp
  ultimately have mx: "Max K \<in> K" "\<And>k. k \<in> K \<Longrightarrow> k \<le> Max K" by (auto intro: Max_in)
  define k where "k = Max K"
  have k: "k \<le> 48" "lo \<le> J k" using mx(1) unfolding k_def K_def by blast+
  have above: "J (Suc k) < lo" if "Suc k \<le> 48"
  proof (rule ccontr)
    assume "\<not> J (Suc k) < lo"
    then have "Suc k \<in> K" using that by (simp add: K_def)
    then show False using mx(2) [of "Suc k"] by (simp add: k_def)
  qed
  have pos_mod_k: "i mod 2 ^ k < 2 ^ k" by simp
  have Ji: "J k \<le> i" "i < J k + 2 ^ k"
    unfolding J_def using mod_less_eq_dividend [of i "2 ^ k"] pos_mod_k by linarith+
  show ?thesis
  proof (cases "k = 48")
    case True
    then have "J k = 0" using assms by (simp add: J_def)
    then show ?thesis using True k Ji by (intro exI [of _ k] exI [of _ "J k"]) (auto simp: in_bucket_def)
  next
    case False
    then have lt: "J (Suc k) < lo" "k < 48" using above k by simp_all
    have ik: "i mod 2 ^ Suc k = 2 ^ k * (i div 2 ^ k mod 2) + i mod 2 ^ k"
      using mod_mult2_eq [of i "2 ^ k" 2] by (simp add: mult.commute)
    have "odd (i div 2 ^ k)"
    proof (rule ccontr)
      assume "\<not> odd (i div 2 ^ k)"
      then have "J (Suc k) = J k" unfolding J_def ik by simp
      then show False using lt k by simp
    qed
    then have iodd: "i mod 2 ^ Suc k = 2 ^ k + i mod 2 ^ k" unfolding ik by (simp add: odd_iff_mod_2_eq_one)
    then have JS: "J k = J (Suc k) + 2 ^ k"
      using mod_less_eq_dividend [of i "2 ^ Suc k"] unfolding J_def by linarith
    have "2 ^ Suc k dvd J (Suc k)" unfolding J_def by (rule dvd_minus_mod)
    then have "J k mod 2 ^ Suc k = 2 ^ k mod 2 ^ Suc k" unfolding JS by (metis add_0 dvd_eq_mod_eq_0 mod_add_left_eq)
    then have "in_bucket k (J k)" using lt by (simp add: in_bucket_def)
    moreover have "J k < lo + 2 ^ Suc k" using JS lt by simp
    ultimately show ?thesis using k Ji by blast
  qed
qed

lemma secret_for_loop_spec:
  assumes "\<And>b j x. b \<in> set bs \<Longrightarrow> ks ! b = Some (j, x) \<Longrightarrow> covers b j i \<Longrightarrow> derive_secret x b i = v"
    and "\<exists>b\<in>set bs. \<exists>j x. ks ! b = Some (j, x) \<and> covers b j i"
  shows "secret_for_loop ks bs i = Some v"
  using assms by (induction bs) (auto split: option.splits)

lemma bucket_u64: "unat j < 2 ^ 48 \<Longrightarrow> in_bucket k (unat j) \<Longrightarrow> bucket j = k"
  by (simp add: bucket_iff)

lemma lookup_inv:
  assumes inv: "store_inv s lo st" and c: "consistent s lo" and i: "lo \<le> unat i" "unat i < 2 ^ 48"
  shows "secret_for st i = Some (s (unat i))"
  unfolding secret_for_def
proof (rule secret_for_loop_spec)
  fix b j x
  assume "b \<in> set [0..<49]" and sl: "known st ! b = Some (j, x)" and cov: "covers b j i"
  then have j: "lo \<le> unat j" "unat j < 2 ^ 48" "in_bucket b (unat j)" "x = s (unat j)"
    using inv by (auto simp: store_inv_def)
  moreover have "bucket j = b" using j by (simp add: bucket_u64)
  ultimately show "derive_secret x b i = s (unat i)"
    using c cov covers_iff [OF j(3) i(2)] by (auto simp: consistent_def)
next
  obtain k j where kj: "in_bucket k j" "lo \<le> j" "j \<le> unat i" "j < lo + 2 ^ Suc k" "unat i < j + 2 ^ k"
    using covering_exists [OF i] by blast
  define w where "w = (of_nat j :: u64)"
  have w: "unat w = j" using kj(3) i(2) by (simp add: w_def unat_of_nat)
  have "k < 49" using in_bucket_le [OF kj(1)] by simp
  then have "k \<in> set [0..<49]" by simp
  moreover have "known st ! k = Some (w, s j)"
    using inv kj i(2) w \<open>k < 49\<close> by (simp add: store_inv_def)
  moreover have "covers k w i" using covers_iff [of k w i] kj i(2) w by simp
  ultimately show "\<exists>b\<in>set [0..<49]. \<exists>j x. known st ! b = Some (j, x) \<and> covers b j i" by blast
qed

text \<open>Checking the entries of the lower buckets checks every covered index.\<close>

lemma check_lower:
  assumes inv: "store_inv s (Suc (unat w)) st" and c: "consistent s (Suc (unat w))" and w: "unat w < 2 ^ 48"
  shows "list_all (\<lambda>lower. case known st ! lower of None \<Rightarrow> True
       | Some (ki, ks) \<Rightarrow> derive_secret x (bucket w) ki = ks) [0..<bucket w]
    \<longleftrightarrow> (\<forall>i. unat w < unat i \<and> unat i < unat w + 2 ^ bucket w \<longrightarrow> derive_secret x (bucket w) i = s (unat i))"
    (is "?L \<longleftrightarrow> ?R")
proof -
  let ?b = "bucket w"
  have b: "in_bucket ?b (unat w)" using w by (rule bucket_in_bucket)
  have top: "unat w + 2 ^ ?b \<le> 2 ^ 48" by (rule in_bucket_top [OF b w])
  define e where "e k = (of_nat (unat w + 2 ^ k) :: u64)" for k
  have e: "unat (e k) = unat w + 2 ^ k \<and> unat (e k) < 2 ^ 48 \<and> in_bucket k (unat (e k))
      \<and> known st ! k = Some (e k, s (unat (e k)))" if k: "k < ?b" for k
  proof -
    have "(2 :: nat) ^ k < 2 ^ ?b" using k by simp
    then have lt: "unat w + 2 ^ k < 2 ^ 48" using top by linarith
    then have u: "unat (e k) = unat w + 2 ^ k" unfolding e_def by (rule of_nat_u48)
    moreover have "in_bucket k (unat (e k))" unfolding u by (rule in_bucket_next [OF b k])
    moreover have "k < 49" using k in_bucket_le [OF b] by simp
    ultimately show ?thesis using inv lt by (simp add: store_inv_def)
  qed
  have L: "?L \<longleftrightarrow> (\<forall>k<?b. derive_secret x ?b (e k) = s (unat (e k)))"
    using e by (auto simp: list_all_iff)
  show ?thesis
  proof
    assume ?R
    moreover have "(2 :: nat) ^ k < 2 ^ ?b" if "k < ?b" for k using that by simp
    ultimately show ?L unfolding L using e by simp
  next
    assume l: ?L
    show ?R
    proof (intro allI impI, elim conjE)
      fix i :: u64 assume i: "unat w < unat i" "unat i < unat w + 2 ^ ?b"
      then obtain k where k: "2 ^ k \<le> unat i - unat w" "unat i - unat w < 2 ^ Suc k"
        using ex_power_ivl1 [of 2 "unat i - unat w"] by (auto simp: Suc_le_eq)
      have "(2 :: nat) ^ k < 2 ^ ?b" using k(1) i by linarith
      then have kb: "k < ?b" by simp
      note ek = e [OF kb]
      have bk: "bucket (e k) = k" using ek by (intro bucket_u64) blast+
      have "derive_secret x ?b i = derive_secret (derive_secret x ?b (e k)) k i"
        using ek k i by (intro derive_through [OF in_bucket_dvd [OF b] kb]) auto
      also have "\<dots> = derive_secret (s (unat (e k))) (bucket (e k)) i" using l kb unfolding L bk by simp
      also have "\<dots> = s (unat i)"
        using ek k i unfolding bk by (intro consistentD [OF c, of "e k" i, unfolded bk]) auto
      finally show "derive_secret x ?b i = s (unat i)" .
    qed
  qed
qed

lemma window_step:
  assumes "\<not> in_bucket k m" "in_bucket k j"
  shows "Suc m \<le> j \<and> j < Suc m + 2 ^ Suc k \<longleftrightarrow> m \<le> j \<and> j < m + 2 ^ Suc k"
proof -
  have "j \<noteq> m" using assms by auto
  moreover have "j \<noteq> m + 2 ^ Suc k" using assms by (auto simp: in_bucket_def)
  ultimately show ?thesis by linarith
qed

lemma insert_inv:
  assumes inv: "store_inv s (Suc (unat w)) st" and w: "unat w < 2 ^ 48"
    and t: "t (unat w) = x" "\<And>i. Suc (unat w) \<le> i \<Longrightarrow> i < 2 ^ 48 \<Longrightarrow> t i = s i"
  shows "store_inv t (unat w) (st\<lparr>known := (known st)[bucket w := Some (w, x)]\<rparr>)"
proof -
  let ?b = "bucket w"
  have b: "in_bucket ?b (unat w)" using w by (rule bucket_in_bucket)
  have bl: "?b < 49" "length (known st) = 49" using in_bucket_le [OF b] inv by (simp_all add: store_inv_def)
  have "(known st)[?b := Some (w, x)] ! k = Some (j, y) \<longleftrightarrow> unat w \<le> unat j \<and> unat j < 2 ^ 48
      \<and> in_bucket k (unat j) \<and> unat j < unat w + 2 ^ Suc k \<and> y = t (unat j)" if k: "k < 49" for k j y
  proof (cases "k = ?b")
    case True
    have "j = w" if "unat w \<le> unat j" "in_bucket k (unat j)" "unat j < unat w + 2 ^ Suc k"
      using in_bucket_window [of k "unat w" "unat j"] that b True by (simp add: word_unat_eq_iff)
    then show ?thesis using True bl b w t(1) by auto
  next
    case False
    then have nb: "\<not> in_bucket k (unat w)" using b in_bucket_unique by blast
    have "known st ! k = Some (j, y) \<longleftrightarrow> Suc (unat w) \<le> unat j \<and> unat j < 2 ^ 48 \<and> in_bucket k (unat j)
        \<and> unat j < Suc (unat w) + 2 ^ Suc k \<and> y = s (unat j)"
      using inv k unfolding store_inv_def by blast
    also have "\<dots> \<longleftrightarrow> unat w \<le> unat j \<and> unat j < 2 ^ 48
        \<and> in_bucket k (unat j) \<and> unat j < unat w + 2 ^ Suc k \<and> y = t (unat j)"
      using window_step [OF nb, of "unat j"] t(2) [of "unat j"] by metis
    finally show ?thesis using False by simp
  qed
  then show ?thesis using bl by (simp add: store_inv_def)
qed

lemma consistent_step:
  assumes c: "consistent s (Suc (unat w))" and w: "unat w < 2 ^ 48"
    and t: "t (unat w) = x" "\<And>i. Suc (unat w) \<le> i \<Longrightarrow> i < 2 ^ 48 \<Longrightarrow> t i = s i"
    and d: "\<forall>i. unat w < unat i \<and> unat i < unat w + 2 ^ bucket w \<longrightarrow> derive_secret x (bucket w) i = s (unat i)"
  shows "consistent t (unat w)"
  unfolding consistent_def
proof (intro allI impI, elim conjE)
  fix m i :: u64
  assume m: "unat w \<le> unat m" "unat m < 2 ^ 48" and i: "unat m \<le> unat i" "unat i < unat m + 2 ^ bucket m"
  have i48: "unat i < 2 ^ 48" using in_bucket_top [OF bucket_in_bucket [OF m(2)] m(2)] i by linarith
  show "derive_secret (t (unat m)) (bucket m) i = t (unat i)"
  proof (cases "unat m = unat w")
    case True
    then have mw: "m = w" by (simp add: word_unat_eq_iff)
    show ?thesis
    proof (cases "unat i = unat w")
      case True
      then have "i = w" by (simp add: word_unat_eq_iff)
      moreover have "derive_secret x (bucket w) w = x"
        unfolding derive_secret_def using in_bucket_dvd [OF bucket_in_bucket [OF w]]
        by (intro derive_loop_zero) (rule even_low)
      ultimately show ?thesis using t(1) mw by simp
    next
      case False
      then show ?thesis using d i mw t i48 by simp
    qed
  next
    case False
    then show ?thesis using c m i t(2) i48 unfolding consistent_def by simp
  qed
qed

section \<open>Refinement: the ideal store keeps every secret\<close>

definition ideal_accepts :: "bytes list \<Rightarrow> bytes \<Rightarrow> bool" where
  "ideal_accepts xs x \<longleftrightarrow>
     (let m = index_for_commitment (of_nat (length xs)) in
      \<forall>n<length xs. covers (bucket m) m (index_for_commitment (of_nat n)) \<longrightarrow>
        derive_secret x (bucket m) (index_for_commitment (of_nat n)) = xs ! n)"

definition store_ok :: "bytes list \<Rightarrow> SecretStore \<Rightarrow> bool" where
  "store_ok xs st \<longleftrightarrow> length xs \<le> 2 ^ 48 \<and> store_inv (sec xs) (2 ^ 48 - length xs) st
     \<and> consistent (sec xs) (2 ^ 48 - length xs)"

lemma unat_index: "n < 2 ^ 48 \<Longrightarrow> unat (index_for_commitment (of_nat n)) = 2 ^ 48 - 1 - n"
proof -
  assume n: "n < 2 ^ 48"
  then have "(of_nat n :: u64) \<le> MAX_INDEX" by (simp add: word_le_nat_alt of_nat_u48)
  then have "unat (MAX_INDEX - of_nat n) = unat MAX_INDEX - unat (of_nat n :: u64)" by (rule unat_sub)
  then show ?thesis unfolding index_for_commitment_def using n by (simp only: of_nat_u48 MAX_INDEX_nat)
qed

lemma index_surj:
  "unat i < 2 ^ 48 \<Longrightarrow> i = index_for_commitment (of_nat (2 ^ 48 - 1 - unat i))"
  using unat_index [of "2 ^ 48 - 1 - unat i"] by (simp add: word_unat_eq_iff)

lemma sec_index: "n < 2 ^ 48 \<Longrightarrow> sec xs (unat (index_for_commitment (of_nat n))) = xs ! n"
  by (simp add: sec_def unat_index)

lemma sec_append: "i < 2 ^ 48 \<Longrightarrow> 2 ^ 48 - length xs \<le> i \<Longrightarrow> sec (xs @ [x]) i = sec xs i"
  by (auto simp: sec_def nth_append)

lemma store_new_ok: "store_ok [] store_new"
  by (auto simp: store_ok_def store_inv_def consistent_def store_new_def)

lemma insert_refines:
  assumes ok: "store_ok xs st" and n: "length xs < 2 ^ 48"
  shows "(case store_insert st (index_for_commitment (of_nat (length xs))) x of
      Inl _ \<Rightarrow> \<not> ideal_accepts xs x
    | Inr st' \<Rightarrow> ideal_accepts xs x \<and> store_ok (xs @ [x]) st')"
proof -
  define w where "w = index_for_commitment (of_nat (length xs))"
  have w: "unat w < 2 ^ 48" "Suc (unat w) = 2 ^ 48 - length xs" "unat w = 2 ^ 48 - length (xs @ [x])"
    using n by (simp_all add: w_def unat_index)
  let ?D = "\<forall>i. unat w < unat i \<and> unat i < unat w + 2 ^ bucket w \<longrightarrow> derive_secret x (bucket w) i = sec xs (unat i)"
  have inv: "store_inv (sec xs) (Suc (unat w)) st" and c: "consistent (sec xs) (Suc (unat w))"
    using ok w(2) by (simp_all add: store_ok_def)
  have t: "sec (xs @ [x]) (unat w) = x" "\<And>i. Suc (unat w) \<le> i \<Longrightarrow> i < 2 ^ 48 \<Longrightarrow> sec (xs @ [x]) i = sec xs i"
    using w n by (simp_all add: sec_append) (simp add: sec_def)
  have b: "in_bucket (bucket w) (unat w)" using w(1) by (rule bucket_in_bucket)
  have D: "ideal_accepts xs x \<longleftrightarrow> ?D"
  proof
    assume ?D
    then show "ideal_accepts xs x"
      using n w by (auto simp: ideal_accepts_def w_def [symmetric] covers_iff [OF b] unat_index sec_def)
  next
    assume a: "ideal_accepts xs x"
    show ?D
    proof (intro allI impI, elim conjE)
      fix i :: u64 assume i: "unat w < unat i" "unat i < unat w + 2 ^ bucket w"
      then have i48: "unat i < 2 ^ 48" using in_bucket_top [OF b w(1)] by linarith
      define k where "k = 2 ^ 48 - 1 - unat i"
      have "k < length xs" "k < 2 ^ 48" "i = index_for_commitment (of_nat k)"
        using i i48 w n index_surj [OF i48] by (auto simp: k_def)
      then show "derive_secret x (bucket w) i = sec xs (unat i)"
        using a i i48 covers_iff [OF b i48] by (simp add: ideal_accepts_def w_def [symmetric] sec_index)
    qed
  qed
  show ?thesis
    using check_lower [OF inv c w(1), of x] insert_inv [OF inv w(1) t] consistent_step [OF c w(1) t]
    unfolding w_def [symmetric] D store_insert_def Let_def store_ok_def w(3) [symmetric]
    using n by (cases ?D) simp_all
qed

lemma reveal_ok:
  "store_ok xs st \<Longrightarrow> length (xs @ ys) \<le> 2 ^ 48 \<Longrightarrow> reveal_from st (length xs) ys = Inr st' \<Longrightarrow> store_ok (xs @ ys) st'"
proof (induction ys arbitrary: xs st)
  case (Cons y ys)
  then obtain st1 where s: "store_insert st (index_for_commitment (of_nat (length xs))) y = Inr st1"
      "reveal_from st1 (length (xs @ [y])) ys = Inr st'"
    by (auto simp: rbind_eq_Inr)
  have "store_ok (xs @ [y]) st1"
    using insert_refines [OF Cons.prems(1), of y] Cons.prems(2) s(1) by simp
  then show ?case using Cons.IH [of "xs @ [y]" st1] Cons.prems(2) s(2) by simp
qed simp

lemma reveal_new_ok: "length xs \<le> 2 ^ 48 \<Longrightarrow> reveal_from store_new 0 xs = Inr st \<Longrightarrow> store_ok xs st"
  using reveal_ok [OF store_new_ok, of xs st] by simp

lemma secret_for_loop_None:
  "(\<And>b j x. b \<in> set bs \<Longrightarrow> ks ! b = Some (j, x) \<Longrightarrow> \<not> covers b j i) \<Longrightarrow> secret_for_loop ks bs i = None"
  by (induction bs) (auto split: option.splits)

lemma store_ok_lookup:
  assumes "store_ok xs st" "n < 2 ^ 48"
  shows "secret_for st (index_for_commitment (of_nat n)) = (if n < length xs then Some (xs ! n) else None)"
proof (cases "n < length xs")
  case True
  then show ?thesis
    using assms lookup_inv [of "sec xs" "2 ^ 48 - length xs" st "index_for_commitment (of_nat n)"]
    by (simp add: store_ok_def sec_index) (simp add: unat_index)
next
  case False
  have "\<not> covers b j (index_for_commitment (of_nat n))" if "b \<in> set [0..<49]" "known st ! b = Some (j, x)" for b j x
  proof
    assume "covers b j (index_for_commitment (of_nat n))"
    then have "unat j \<le> 2 ^ 48 - 1 - n" using coversD unat_index [OF assms(2)] by metis
    moreover have "2 ^ 48 - length xs \<le> unat j" using assms(1) that by (auto simp: store_ok_def store_inv_def)
    ultimately show False using False assms by (simp add: store_ok_def)
  qed
  then have "secret_for_loop (known st) [0..<49] (index_for_commitment (of_nat n)) = None"
    by (rule secret_for_loop_None)
  then show ?thesis using False by (simp add: secret_for_def)
qed

lemma generated_accepts:
  assumes "n < 2 ^ 48"
  shows "ideal_accepts (map (\<lambda>k. generate_from_seed seed (index_for_commitment (of_nat k))) [0..<n])
    (generate_from_seed seed (index_for_commitment (of_nat n)))"
proof -
  define m where "m = index_for_commitment (of_nat n)"
  let ?b = "bucket m"
  have m48: "unat m < 2 ^ 48" using assms by (simp add: m_def unat_index)
  have b: "in_bucket ?b (unat m)" using m48 by (rule bucket_in_bucket)
  have split: "derive_loop i 48 p = derive_loop i ?b (derive_loop m 48 p)"
    if i: "unat m \<le> unat i" "unat i < unat m + 2 ^ ?b" for i p
  proof -
    have hi: "unat i div 2 ^ c = unat m div 2 ^ c" if "?b \<le> c" for c
    proof -
      obtain q where q: "unat m = 2 ^ ?b * q" using in_bucket_dvd [OF b] by auto
      then have "unat i div 2 ^ ?b = q" using i by (intro div_nat_eqI) (simp_all add: algebra_simps)
      then have "unat i div 2 ^ ?b = unat m div 2 ^ ?b" using q by simp
      then show ?thesis using that by (metis div_exp_eq le_add_diff_inverse)
    qed
    have "derive_loop i (?b + d) p = derive_loop i ?b (derive_loop m (?b + d) p)" for d
    proof (induction d arbitrary: p)
      case 0
      have "derive_loop m ?b p = p" for p
        using even_low [OF in_bucket_dvd [OF b]] by (intro derive_loop_zero) auto
      then show ?case by simp
    next
      case (Suc d)
      then show ?case using hi [of "?b + d"] by (simp add: derive_loop_bit)
    qed
    from this [of "48 - ?b"] show ?thesis using in_bucket_le [OF b] by simp
  qed
  have "derive_loop i ?b (derive_loop m 48 seed) = derive_loop i 48 seed"
    if "covers ?b m i" "unat i < 2 ^ 48" for i
    using that split [of i seed] covers_iff [OF b that(2)] by simp
  then show ?thesis
    using assms unfolding ideal_accepts_def Let_def
    by (simp add: m_def [symmetric] generate_from_seed_def derive_secret_def unat_index)
qed

lemma reveal_generated:
  assumes "store_ok xs st" "xs = map (\<lambda>k. generate_from_seed seed (index_for_commitment (of_nat k))) [0..<n]"
    "n + d \<le> 2 ^ 48"
  shows "\<exists>st'. reveal_from st n (map (\<lambda>k. generate_from_seed seed (index_for_commitment (of_nat k))) [n..<n + d]) = Inr st'"
  using assms
proof (induction d arbitrary: xs st n)
  case (Suc d)
  let ?g = "\<lambda>k. generate_from_seed seed (index_for_commitment (of_nat k))"
  have l: "length xs = n" "n < 2 ^ 48" using Suc.prems by simp_all
  obtain st1 where st1: "store_insert st (index_for_commitment (of_nat n)) (?g n) = Inr st1"
      "store_ok (xs @ [?g n]) st1"
    using insert_refines [OF Suc.prems(1), of "?g n"] generated_accepts [OF l(2), of seed] l Suc.prems(2)
    by (auto split: sum.splits)
  have "\<exists>st'. reveal_from st1 (Suc n) (map ?g [Suc n..<Suc n + d]) = Inr st'"
    using Suc.prems by (intro Suc.IH [OF st1(2)]) simp_all
  then show ?case using st1(1) by (simp add: upt_conv_Cons del: upt_Suc)
qed simp

lemma entries_iff: "e \<in> set (entries st) \<longleftrightarrow> Some e \<in> set (known st)"
  by (force simp: entries_def image_iff)

lemma entries_slot:
  assumes "length (known st) = 49"
  shows "e \<in> set (entries st) \<longleftrightarrow> (\<exists>k<49. known st ! k = Some e)"
  using assms by (metis entries_iff in_set_conv_nth)

lemma min_index_store:
  assumes ok: "store_ok xs st" and ne: "xs \<noteq> []"
  shows "min_index st = Some (index_for_commitment (of_nat (length xs - 1)))"
proof -
  define m where "m = index_for_commitment (of_nat (length xs - 1))"
  have len: "length xs \<le> 2 ^ 48" using ok by (simp add: store_ok_def)
  then have m: "unat m = 2 ^ 48 - length xs" "unat m < 2 ^ 48"
    using ne by (cases xs; simp add: m_def unat_index)+
  have inv: "store_inv (sec xs) (unat m) st" using ok by (simp add: store_ok_def m)
  have len49: "length (known st) = 49" using inv by (simp add: store_inv_def)
  have ge: "m \<le> i" if im: "i \<in> set (map fst (entries st))" for i
  proof -
    obtain x where "(i, x) \<in> set (entries st)" using im by auto
    then obtain k where "k < 49" "known st ! k = Some (i, x)" using entries_slot [OF len49] by blast
    then show ?thesis using inv unfolding store_inv_def word_le_nat_alt by blast
  qed
  have b: "in_bucket (bucket m) (unat m)" using m(2) by (rule bucket_in_bucket)
  then have "known st ! bucket m = Some (m, sec xs (unat m))" "bucket m < 49"
    using inv m(2) in_bucket_le [OF b] by (simp_all add: store_inv_def)
  then have "(m, sec xs (unat m)) \<in> set (entries st)" using entries_slot [OF len49] by blast
  then have mem: "m \<in> set (map fst (entries st))" by force
  obtain i js where js: "map fst (entries st) = i # js" using mem by (cases "map fst (entries st)") auto
  have "fold min js i = Min (set (i # js))" by (rule Min.set_eq_fold [symmetric])
  also have "\<dots> = m" using mem ge unfolding js by (intro Min_eqI) auto
  finally show ?thesis by (simp add: min_index_def js m_def)
qed

lemma from_foldl_length:
  "length (known st) = 49 \<Longrightarrow>
     length (known (foldl (\<lambda>st (i, x). st\<lparr>known := (known st)[bucket i := Some (i, x)]\<rparr>) st es)) = 49"
  by (induction es arbitrary: st) auto

lemma from_foldl_slot:
  assumes "length (known st) = 49" "k < 49"
  shows "known (foldl (\<lambda>st (i, x). st\<lparr>known := (known st)[bucket i := Some (i, x)]\<rparr>) st es) ! k
    = (case find (\<lambda>e. bucket (fst e) = k) (rev es) of None \<Rightarrow> known st ! k | Some e \<Rightarrow> Some e)"
  using assms from_foldl_length [OF assms(1)]
  by (induction es rule: rev_induct) (auto simp: nth_list_update split: option.splits)

lemma find_SomeD: "find P xs = Some x \<Longrightarrow> x \<in> set xs \<and> P x"
  by (induction xs) (auto split: if_splits)

lemma slot_bucket:
  assumes "store_inv s lo st" "k < 49" "known st ! k = Some e"
  shows "bucket (fst e) = k"
proof -
  obtain j x where e: "e = (j, x)" by (cases e)
  then have "unat j < 2 ^ 48" "in_bucket k (unat j)"
    using assms unfolding store_inv_def by blast+
  then show ?thesis using e by (simp add: bucket_u64)
qed

lemma from_entries_store:
  assumes inv: "store_inv s lo st"
  shows "from_entries (entries st) = st"
proof -
  have len: "length (known st) = 49" using inv by (simp add: store_inv_def)
  have own: "known st ! bucket (fst e) = Some e" "bucket (fst e) < 49" if em: "e \<in> set (entries st)" for e
  proof -
    obtain k where "k < 49" "known st ! k = Some e" using em entries_slot [OF len] by blast
    moreover from this have "bucket (fst e) = k" by (rule slot_bucket [OF inv])
    ultimately show "known st ! bucket (fst e) = Some e" "bucket (fst e) < 49" by simp_all
  qed
  have "known (from_entries (entries st)) ! k = known st ! k" if k: "k < 49" for k
  proof (cases "find (\<lambda>e. bucket (fst e) = k) (rev (entries st))")
    case None
    then have none: "\<not> (\<exists>e\<in>set (entries st). bucket (fst e) = k)" by (auto simp: find_None_iff)
    have "known st ! k = None"
    proof (rule ccontr)
      assume "known st ! k \<noteq> None"
      then obtain e where e: "known st ! k = Some e" by auto
      then have "bucket (fst e) = k" by (rule slot_bucket [OF inv k])
      then show False using none e k entries_slot [OF len] by blast
    qed
    then show ?thesis using None k by (simp add: from_entries_def from_foldl_slot store_new_def)
  next
    case (Some e)
    then have "e \<in> set (entries st)" "bucket (fst e) = k" using find_SomeD by fastforce+
    then show ?thesis using Some k own(1) [of e] by (simp add: from_entries_def from_foldl_slot store_new_def)
  qed
  moreover have "length (known (from_entries (entries st))) = 49"
    unfolding from_entries_def by (rule from_foldl_length) (simp add: store_new_def)
  ultimately have "known (from_entries (entries st)) = known st"
    using len by (simp add: list_eq_iff_nth_eq)
  then show ?thesis by (cases "from_entries (entries st)"; cases st) simp
qed

section \<open>Properties\<close>

text \<open>C5: The 49-slot store loses nothing: whatever secrets a peer reveals for commitments
  \<open>0, 1, 2, \<dots>\<close>, if every insertion was accepted then \<^verbatim>\<open>secret_for\<close> returns for each revealed
  commitment exactly the secret that was revealed for it, and nothing for the others, and
  \<^verbatim>\<open>min_index\<close> is the index of the last one.\<close>

theorem shachain_store_complete:
  assumes "length xs \<le> 2 ^ 48" and "reveal_from store_new 0 xs = Inr st" and "n < 2 ^ 48"
  shows "secret_for st (index_for_commitment (of_nat n)) = (if n < length xs then Some (xs ! n) else None)
    \<and> min_index st = (if xs = [] then None else Some (index_for_commitment (of_nat (length xs - 1))))"
proof -
  have ok: "store_ok xs st" using assms by (simp add: reveal_new_ok)
  have "min_index st = None" if "xs = []"
    using assms(2) that by (auto simp: min_index_def entries_def store_new_def)
  then show ?thesis using store_ok_lookup [OF ok assms(3)] min_index_store [OF ok] by auto
qed

text \<open>The store accepts the next secret exactly when that secret derives every previously
  revealed secret its index covers (not only those still held in a slot), so an inconsistent
  peer is caught as soon as the inconsistency is visible.\<close>

theorem shachain_insert_refines_ideal:
  assumes "length xs < 2 ^ 48" and "reveal_from store_new 0 xs = Inr st"
  shows "(\<exists>st'. store_insert st (index_for_commitment (of_nat (length xs))) x = Inr st') \<longleftrightarrow> ideal_accepts xs x"
  using insert_refines [OF reveal_new_ok, of xs st x] assms by (auto split: sum.splits)

text \<open>An honest sender is never rejected: all secrets generated from one seed are accepted
  in the order of the commitments, for all \<open>2^48\<close> of them, and each can be looked up after.\<close>

theorem shachain_honest_accepted:
  assumes "n \<le> 2 ^ 48"
  shows "\<exists>st. reveal_from store_new 0
      (map (\<lambda>k. generate_from_seed seed (index_for_commitment (of_nat k))) [0..<n]) = Inr st
    \<and> (\<forall>k<n. secret_for st (index_for_commitment (of_nat k))
          = Some (generate_from_seed seed (index_for_commitment (of_nat k))))"
proof -
  let ?xs = "map (\<lambda>k. generate_from_seed seed (index_for_commitment (of_nat k))) [0..<n]"
  obtain st where st: "reveal_from store_new 0 ?xs = Inr st"
    using reveal_generated [OF store_new_ok, of seed 0 n] assms by auto
  then have "store_ok ?xs st" using assms by (intro reveal_new_ok) simp_all
  then show ?thesis using st store_ok_lookup [of ?xs st] assms by auto
qed

text \<open>Persisting a store as its occupied entries and rebuilding it restores it exactly.\<close>

theorem shachain_entries_roundtrip:
  assumes "length xs \<le> 2 ^ 48" and "reveal_from store_new 0 xs = Inr st"
  shows "from_entries (entries st) = st"
  using reveal_new_ok [OF assms] by (auto simp: store_ok_def intro: from_entries_store)

lemma reveal_one: "reveal_from store_new 0 [x] = Inr (store_new\<lparr>known := (known store_new)[0 := Some (MAX_INDEX, x)]\<rparr>)"
proof -
  have "bucket MAX_INDEX = 0"
    by (rule bucket_u64) (simp_all add: in_bucket_def)
  then show ?thesis by (simp add: store_insert_def index_for_commitment_def)
qed

theorem shachain_store_complete_witness:
  "secret_for (store_new\<lparr>known := (known store_new)[0 := Some (MAX_INDEX, [7])]\<rparr>) (index_for_commitment (of_nat 0)) = Some [7]"
  using shachain_store_complete [OF _ reveal_one [of "[7]"], of 0] by simp

theorem shachain_insert_refines_ideal_witness:
  "(\<exists>st'. store_insert store_new (index_for_commitment (of_nat 0)) [7] = Inr st') \<longleftrightarrow> ideal_accepts [] [7]"
  using shachain_insert_refines_ideal [of "[]" store_new "[7]"] by simp

theorem shachain_honest_accepted_witness:
  "\<exists>st. reveal_from store_new 0
      (map (\<lambda>k. generate_from_seed (replicate 32 0) (index_for_commitment (of_nat k))) [0..<1000]) = Inr st"
  using shachain_honest_accepted [of 1000 "replicate 32 0"] by auto

theorem shachain_entries_roundtrip_witness:
  "from_entries (entries (store_new\<lparr>known := (known store_new)[0 := Some (MAX_INDEX, [7])]\<rparr>))
    = store_new\<lparr>known := (known store_new)[0 := Some (MAX_INDEX, [7])]\<rparr>"
  using shachain_entries_roundtrip [OF _ reveal_one [of "[7]"]] by simp

end
