(* ===== verification/Wire_Ser.thy ===== *)
theory Wire_Ser
  imports Prelude
begin

text \<open>
  The wire primitives of \<^verbatim>\<open>src/src/wire/ser.rs\<close>, \<^verbatim>\<open>bigsize.rs\<close> and \<^verbatim>\<open>tlv.rs\<close>. A writer is
  the byte string it appends, a reader consumes a prefix of the unread bytes or fails with a
  \<^verbatim>\<open>WireError\<close>. Every primitive is shown to be a self-delimiting codec; BigSize, the truncated
  integers and whole TLV streams are shown to be canonical: the parser accepts exactly the
  writer's output.
\<close>

unbundle bit_operations_syntax

section \<open>The secp256k1 library\<close>

text \<open>The sources use the \<^verbatim>\<open>secp256k1\<close> crate through its byte encodings, so a public key is its
  33-byte compressed serialization and a signature its 64-byte compact form; which byte strings
  are valid encodings (\<^verbatim>\<open>PublicKey::from_slice\<close>, \<^verbatim>\<open>Signature::from_compact\<close>) is a parameter.
\<close>

type_synonym PublicKey = bytes
type_synonym Signature = bytes

record Secp =
  pubkey_from_slice_ok :: "bytes \<Rightarrow> bool"
  signature_from_compact_ok :: "bytes \<Rightarrow> bool"

definition pubkey_wf :: "('z) Secp_scheme \<Rightarrow> PublicKey \<Rightarrow> bool" where
  "pubkey_wf S pk \<longleftrightarrow> length pk = 33 \<and> pubkey_from_slice_ok S pk"

definition sig_wf :: "('z) Secp_scheme \<Rightarrow> Signature \<Rightarrow> bool" where
  "sig_wf S sig \<longleftrightarrow> length sig = 64 \<and> signature_from_compact_ok S sig"

section \<open>Errors, writers and readers\<close>

datatype WireError =
  UnexpectedEnd
| NonMinimalBigSize
| BadPubkey
| BadSignature
| UnknownRequiredTlv u64
| TlvNotStrictlyAscending
| TlvLengthMismatch
| UnknownMessageType u16
| TrailingBytes
| BadFormat string

type_synonym 'a wreader = "(WireError, 'a) reader"

definition w_u8 :: "u8 \<Rightarrow> bytes" where "w_u8 v = [v]"

definition w_u16 :: "u16 \<Rightarrow> bytes" where "w_u16 v = to_be_bytes v"

definition w_u32 :: "u32 \<Rightarrow> bytes" where "w_u32 v = to_be_bytes v"

definition w_u64 :: "u64 \<Rightarrow> bytes" where "w_u64 v = to_be_bytes v"

definition w_bytes_u16 :: "bytes \<Rightarrow> bytes" where
  "w_bytes_u16 b = w_u16 (of_nat (length b)) @ b"

definition r_take :: "nat \<Rightarrow> bytes wreader" where
  "r_take n d = (if length d < n then Inl UnexpectedEnd else Inr (take n d, drop n d))"

definition r_rest :: "bytes wreader" where
  "r_rest d = Inr (d, [])"

definition r_array :: "nat \<Rightarrow> bytes wreader" where
  "r_array N = r_take N"

definition r_u8 :: "u8 wreader" where
  "r_u8 = pbind (r_take 1) (\<lambda>b. pret (b ! 0))"

definition r_u16 :: "u16 wreader" where
  "r_u16 = pbind (r_array 2) (\<lambda>b. pret (from_be_bytes b))"

definition r_u32 :: "u32 wreader" where
  "r_u32 = pbind (r_array 4) (\<lambda>b. pret (from_be_bytes b))"

definition r_u64 :: "u64 wreader" where
  "r_u64 = pbind (r_array 8) (\<lambda>b. pret (from_be_bytes b))"

definition r_bytes_u16 :: "bytes wreader" where
  "r_bytes_u16 = pbind r_u16 (\<lambda>len. r_take (unat len))"

definition r_pubkey :: "('z) Secp_scheme \<Rightarrow> PublicKey wreader" where
  "r_pubkey S = pbind (r_take 33) (\<lambda>b. if pubkey_from_slice_ok S b then pret b else pfail BadPubkey)"

definition r_signature :: "('z) Secp_scheme \<Rightarrow> Signature wreader" where
  "r_signature S =
     pbind (r_take 64) (\<lambda>b. if signature_from_compact_ok S b then pret b else pfail BadSignature)"

definition r_finish :: "bytes \<Rightarrow> (WireError, unit) result" where
  "r_finish d = (if d = [] then Inr () else Inl TrailingBytes)"

section \<open>BigSize\<close>

definition bigsize_write :: "u64 \<Rightarrow> bytes" where
  "bigsize_write value =
     (if value \<le> 0xfc then w_u8 (ucast value)
      else if value \<le> 0xffff then w_u8 0xfd @ w_u16 (ucast value)
      else if value \<le> 0xffffffff then w_u8 0xfe @ w_u32 (ucast value)
      else w_u8 0xff @ w_u64 value)"

definition bigsize_read :: "u64 wreader" where
  "bigsize_read =
     pbind r_u8 (\<lambda>first.
       if first \<le> 0xfc then pret (ucast first)
       else if first = 0xfd then
         pbind r_u16 (\<lambda>v. if (ucast v :: u64) < 0xfd then pfail NonMinimalBigSize else pret (ucast v))
       else if first = 0xfe then
         pbind r_u32 (\<lambda>v. if (ucast v :: u64) \<le> 0xffff then pfail NonMinimalBigSize else pret (ucast v))
       else
         pbind r_u64 (\<lambda>v. if v \<le> 0xffffffff then pfail NonMinimalBigSize else pret v))"

definition bigsize_len :: "u64 \<Rightarrow> nat" where
  "bigsize_len value =
     (if value \<le> 0xfc then 1 else if value \<le> 0xffff then 3 else if value \<le> 0xffffffff then 5 else 9)"

lemma r_take_shorter: "r_take n d = Inr (v, d') \<Longrightarrow> length d' + n = length d"
  by (auto simp: r_take_def split: if_splits)

lemma bigsize_read_shorter: "bigsize_read d = Inr (v, d') \<Longrightarrow> length d' < length d"
  by (auto simp: bigsize_read_def r_u8_def r_u16_def r_u32_def r_u64_def r_array_def reader_simps
      rbind_eq_Inr dest!: r_take_shorter split: if_splits)

section \<open>TLV streams\<close>

record TlvRecord =
  tlv_type :: u64
  tlv_value :: bytes

function parse_loop :: "u64 option \<Rightarrow> bytes \<Rightarrow> (WireError, TlvRecord list) result" where
  "parse_loop last_type d =
     (if d = [] then Inr []
      else case bigsize_read d of
        Inl e \<Rightarrow> Inl e
      | Inr (t, d1) \<Rightarrow>
          if (case last_type of None \<Rightarrow> False | Some prev \<Rightarrow> t \<le> prev) then Inl TlvNotStrictlyAscending
          else (case bigsize_read d1 of
            Inl e \<Rightarrow> Inl e
          | Inr (len, d2) \<Rightarrow>
              if unat len > length d2 then Inl TlvLengthMismatch
              else (case r_take (unat len) d2 of
                Inl e \<Rightarrow> Inl e
              | Inr (value, d3) \<Rightarrow>
                  rbind (parse_loop (Some t) d3)
                    (\<lambda>records. Inr (\<lparr>tlv_type = t, tlv_value = value\<rparr> # records)))))"
  by pat_completeness auto
termination
  by (relation "measure (\<lambda>(_, d). length d)") (auto dest!: bigsize_read_shorter r_take_shorter)

definition parse_stream :: "bytes \<Rightarrow> (WireError, TlvRecord list) result" where
  "parse_stream data = parse_loop None data"

primrec check_unknown_even :: "TlvRecord list \<Rightarrow> u64 list \<Rightarrow> (WireError, unit) result" where
  "check_unknown_even [] known = Inr ()"
| "check_unknown_even (rec # recs) known =
     (if tlv_type rec mod 2 = 0 \<and> tlv_type rec \<notin> set known then Inl (UnknownRequiredTlv (tlv_type rec))
      else check_unknown_even recs known)"

definition write_record :: "u64 \<Rightarrow> bytes \<Rightarrow> bytes" where
  "write_record t value = bigsize_write t @ bigsize_write (of_nat (length value)) @ value"

definition write_tu64 :: "u64 \<Rightarrow> bytes" where
  "write_tu64 value =
     (let bs = to_be_bytes value; skip = length (takeWhile (\<lambda>b. b = 0) bs) in drop skip bs)"

definition read_tu64 :: "bytes \<Rightarrow> (WireError, u64) result" where
  "read_tu64 value =
     (if length value > 8 then Inl (BadFormat ''tu64 too long'')
      else if value \<noteq> [] \<and> hd value = 0 then Inl (BadFormat ''tu64 not minimal'')
      else Inr (foldl (\<lambda>out b. push_bit 8 out OR ucast b) 0 value))"

definition write_tu32 :: "u32 \<Rightarrow> bytes" where
  "write_tu32 value = write_tu64 (ucast value)"

definition read_tu32 :: "bytes \<Rightarrow> (WireError, u32) result" where
  "read_tu32 value =
     (if length value > 4 then Inl (BadFormat ''tu32 too long'')
      else rbind (read_tu64 value) (\<lambda>v. Inr (ucast v)))"

definition write_tu16 :: "u16 \<Rightarrow> bytes" where
  "write_tu16 value = write_tu64 (ucast value)"

definition read_tu16 :: "bytes \<Rightarrow> (WireError, u16) result" where
  "read_tu16 value =
     (if length value > 2 then Inl (BadFormat ''tu16 too long'')
      else rbind (read_tu64 value) (\<lambda>v. Inr (ucast v)))"

declare parse_loop.simps [simp del]

section \<open>The primitives are codecs\<close>

lemma r_take_append [simp]: "length b = n \<Longrightarrow> r_take n (b @ r) = Inr (b, r)"
  by (simp add: r_take_def)

lemma r_take_iff: "r_take n d = Inr (v, r) \<longleftrightarrow> length v = n \<and> d = v @ r"
  by (auto simp: r_take_def)

lemma r_u8_iff: "r_u8 d = Inr (v, r) \<longleftrightarrow> d = w_u8 v @ r"
  by (auto simp: r_u8_def w_u8_def reader_simps rbind_eq_Inr r_take_iff length_Suc_conv)

lemma r_u16_iff: "r_u16 d = Inr (v, r) \<longleftrightarrow> d = w_u16 v @ r"
  by (auto simp: r_u16_def r_array_def w_u16_def reader_simps rbind_eq_Inr r_take_iff to_from_bytes)

lemma r_u32_iff: "r_u32 d = Inr (v, r) \<longleftrightarrow> d = w_u32 v @ r"
  by (auto simp: r_u32_def r_array_def w_u32_def reader_simps rbind_eq_Inr r_take_iff to_from_bytes)

lemma r_u64_iff: "r_u64 d = Inr (v, r) \<longleftrightarrow> d = w_u64 v @ r"
  by (auto simp: r_u64_def r_array_def w_u64_def reader_simps rbind_eq_Inr r_take_iff to_from_bytes)

lemma u16_of_length: "length b < 2 ^ 16 \<Longrightarrow> unat (of_nat (length b) :: u16) = length b"
  by (simp add: unat_of_nat)

lemma r_bytes_u16_iff:
  "r_bytes_u16 d = Inr (v, r) \<longleftrightarrow> length v < 2 ^ 16 \<and> d = w_bytes_u16 v @ r"
proof
  assume "r_bytes_u16 d = Inr (v, r)"
  then obtain len d' where "r_u16 d = Inr (len, d')" "r_take (unat len) d' = Inr (v, r)"
    by (auto simp: r_bytes_u16_def reader_simps rbind_eq_Inr)
  then have "d = w_u16 len @ v @ r" "length v = unat len" by (auto simp: r_u16_iff r_take_iff)
  moreover from this have "of_nat (length v) = len" by simp
  ultimately show "length v < 2 ^ 16 \<and> d = w_bytes_u16 v @ r"
    using unsigned_less [of len] by (simp add: w_bytes_u16_def)
next
  assume a: "length v < 2 ^ 16 \<and> d = w_bytes_u16 v @ r"
  then have "r_u16 d = Inr (of_nat (length v), v @ r)" by (simp add: r_u16_iff w_bytes_u16_def)
  then show "r_bytes_u16 d = Inr (v, r)"
    using a by (simp add: r_bytes_u16_def reader_simps unat_of_nat)
qed

lemma r_pubkey_iff: "r_pubkey S d = Inr (v, r) \<longleftrightarrow> pubkey_wf S v \<and> d = v @ r"
  by (auto simp: r_pubkey_def pubkey_wf_def reader_simps rbind_eq_Inr r_take_iff split: if_splits)

lemma r_signature_iff: "r_signature S d = Inr (v, r) \<longleftrightarrow> sig_wf S v \<and> d = v @ r"
  by (auto simp: r_signature_def sig_wf_def reader_simps rbind_eq_Inr r_take_iff split: if_splits)

lemma wire_rw [reader_simps, simp]:
  "r_u8 (w_u8 a @ r) = Inr (a, r)" "r_u16 (w_u16 b @ r) = Inr (b, r)"
  "r_u32 (w_u32 c @ r) = Inr (c, r)" "r_u64 (w_u64 d @ r) = Inr (d, r)"
  by (simp_all add: r_u8_iff r_u16_iff r_u32_iff r_u64_iff)

lemma bigsize_read_write: "bigsize_read (bigsize_write v @ r) = Inr (v, r)"
proof -
  consider "v \<le> 0xfc" | "\<not> v \<le> 0xfc" "v \<le> 0xffff" | "\<not> v \<le> 0xfc" "\<not> v \<le> 0xffff" "v \<le> 0xffffffff"
    | "\<not> v \<le> 0xfc" "\<not> v \<le> 0xffff" "\<not> v \<le> 0xffffffff" by (auto simp: word_le_nat_alt)
  then show ?thesis
  proof cases
    case 1
    then have "(ucast v :: u8) \<le> 0xfc" using ucast_le(1) [of "ucast v"] by (simp add: ucast_down_up)
    then show ?thesis using 1 by (simp add: bigsize_read_def bigsize_write_def reader_simps ucast_down_up)
  next
    case 2
    then have "\<not> v < 0xfd" by (simp add: word_le_nat_alt word_less_nat_alt)
    then show ?thesis using 2 by (simp add: bigsize_read_def bigsize_write_def reader_simps ucast_down_up)
  qed (simp_all add: bigsize_read_def bigsize_write_def reader_simps ucast_down_up)
qed

lemma bigsize_write_read: "bigsize_read d = Inr (v, r) \<Longrightarrow> d = bigsize_write v @ r"
proof -
  assume "bigsize_read d = Inr (v, r)"
  then obtain first d1 where first: "d = w_u8 first @ d1" and
    body: "(if first \<le> 0xfc then pret (ucast first)
       else if first = 0xfd then
         pbind r_u16 (\<lambda>v. if (ucast v :: u64) < 0xfd then pfail NonMinimalBigSize else pret (ucast v))
       else if first = 0xfe then
         pbind r_u32 (\<lambda>v. if (ucast v :: u64) \<le> 0xffff then pfail NonMinimalBigSize else pret (ucast v))
       else
         pbind r_u64 (\<lambda>v. if v \<le> 0xffffffff then pfail NonMinimalBigSize else pret v)) d1 = Inr (v, r)"
    unfolding bigsize_read_def pbind_eq_Inr r_u8_iff by blast
  have nf: "\<not> first \<le> 0xfc \<Longrightarrow> first \<noteq> 0xfd \<Longrightarrow> first \<noteq> 0xfe \<Longrightarrow> first = 0xff"
    using unat_bounds(1) [of first] by (simp add: word_le_nat_alt word_unat_eq_iff)
  have le: "(ucast (w :: u16) :: u64) < 0xfd \<longleftrightarrow> (ucast w :: u64) \<le> 0xfc" for w
    by (simp add: word_le_nat_alt word_less_nat_alt less_Suc_eq_le [symmetric])
  have mono: "(x :: u64) \<le> 0xfc \<Longrightarrow> x \<le> 0xffff" "(x :: u64) \<le> 0xffff \<Longrightarrow> x \<le> 0xffffffff" for x
    by (simp_all add: word_le_nat_alt)
  show ?thesis
    using body nf mono unfolding first bigsize_write_def
    by (auto simp: pret_apply pfail_apply pbind_eq_Inr r_u16_iff r_u32_iff r_u64_iff ucast_le le split: if_splits)
qed

lemma bigsize_iff: "bigsize_read d = Inr (v, r) \<longleftrightarrow> d = bigsize_write v @ r"
  using bigsize_write_read bigsize_read_write by blast

lemma length_bigsize_write: "length (bigsize_write v) = bigsize_len v"
  by (simp add: bigsize_write_def bigsize_len_def w_u8_def w_u16_def w_u32_def w_u64_def)

interpretation u16c: canonical_codec w_u16 r_u16 "\<lambda>_. True"
  by unfold_locales (simp_all add: r_u16_iff)

interpretation u32c: canonical_codec w_u32 r_u32 "\<lambda>_. True"
  by unfold_locales (simp_all add: r_u32_iff)

interpretation u64c: canonical_codec w_u64 r_u64 "\<lambda>_. True"
  by unfold_locales (simp_all add: r_u64_iff)

interpretation bytes16: canonical_codec w_bytes_u16 r_bytes_u16 "\<lambda>b. length b < 2 ^ 16"
  by unfold_locales (simp_all add: r_bytes_u16_iff)

interpretation pubkeyc: canonical_codec "\<lambda>b. b" "r_pubkey S" "pubkey_wf S" for S
  by unfold_locales (simp_all add: r_pubkey_iff)

interpretation sigc: canonical_codec "\<lambda>b. b" "r_signature S" "sig_wf S" for S
  by unfold_locales (simp_all add: r_signature_iff)

interpretation bigsize: canonical_codec bigsize_write bigsize_read "\<lambda>_. True"
  by unfold_locales (simp_all add: bigsize_iff)

section \<open>TLV streams are canonical\<close>

definition tlv_wf :: "TlvRecord \<Rightarrow> bool" where
  "tlv_wf rec \<longleftrightarrow> length (tlv_value rec) < 2 ^ 64"

definition write_stream :: "TlvRecord list \<Rightarrow> bytes" where
  "write_stream recs = concat (map (\<lambda>rec. write_record (tlv_type rec) (tlv_value rec)) recs)"

fun ascending :: "u64 option \<Rightarrow> TlvRecord list \<Rightarrow> bool" where
  "ascending last_type [] \<longleftrightarrow> True"
| "ascending last_type (rec # recs) \<longleftrightarrow>
     (case last_type of None \<Rightarrow> True | Some prev \<Rightarrow> prev < tlv_type rec) \<and> ascending (Some (tlv_type rec)) recs"

lemma bigsize_write_nonempty [simp]: "bigsize_write v \<noteq> []"
  by (simp add: bigsize_write_def w_u8_def)

lemma parse_loop_record:
  assumes "length v < 2 ^ 64" "case last_type of None \<Rightarrow> True | Some prev \<Rightarrow> prev < t"
  shows "parse_loop last_type (write_record t v @ d)
    = rbind (parse_loop (Some t) d) (\<lambda>recs. Inr (\<lparr>tlv_type = t, tlv_value = v\<rparr> # recs))"
proof -
  have n: "\<not> (case last_type of None \<Rightarrow> False | Some prev \<Rightarrow> t \<le> prev)"
    using assms(2) by (auto split: option.splits)
  have u: "unat (of_nat (length v) :: u64) = length v" using assms(1) by (simp add: unat_of_nat)
  show ?thesis
    by (subst parse_loop.simps) (simp add: write_record_def bigsize_read_write n u r_take_def)
qed

lemma parse_loop_write:
  "list_all tlv_wf recs \<Longrightarrow> ascending last_type recs \<Longrightarrow> parse_loop last_type (write_stream recs) = Inr recs"
proof (induction recs arbitrary: last_type)
  case Nil
  then show ?case by (subst parse_loop.simps) (simp add: write_stream_def)
next
  case (Cons rec recs)
  then show ?case
    by (simp add: write_stream_def parse_loop_record tlv_wf_def)
qed

lemma parse_loop_canonical:
  "parse_loop last_type d = Inr recs \<Longrightarrow>
     list_all tlv_wf recs \<and> ascending last_type recs \<and> d = write_stream recs"
proof (induction last_type d arbitrary: recs rule: parse_loop.induct)
  case (1 last_type d)
  show ?case
  proof (cases "d = []")
    case True
    then show ?thesis using "1.prems" by (subst (asm) parse_loop.simps) (simp add: write_stream_def)
  next
    case False
    obtain t d1 where t: "bigsize_read d = Inr (t, d1)" "\<not> (case last_type of None \<Rightarrow> False | Some prev \<Rightarrow> t \<le> prev)"
      using "1.prems" False by (subst (asm) parse_loop.simps) (auto split: sum.splits if_splits)
    obtain len d2 where len: "bigsize_read d1 = Inr (len, d2)" "\<not> unat len > length d2"
      using "1.prems" False t by (subst (asm) parse_loop.simps) (auto split: sum.splits if_splits)
    obtain v d3 where v: "r_take (unat len) d2 = Inr (v, d3)"
      using len(2) by (auto simp: r_take_def)
    obtain rs where rs: "parse_loop (Some t) d3 = Inr rs" "recs = \<lparr>tlv_type = t, tlv_value = v\<rparr> # rs"
      using "1.prems" False t len v by (subst (asm) parse_loop.simps) (auto simp: rbind_eq_Inr split: if_splits)
    have IH: "list_all tlv_wf rs \<and> ascending (Some t) rs \<and> d3 = write_stream rs"
      by (rule "1.IH" [OF False t(1) refl t(2) len(1) refl len(2) v refl rs(1)])
    have "length v = unat len" "d2 = v @ d3" using v by (simp_all add: r_take_iff)
    moreover from this have "of_nat (length v) = len" by simp
    moreover have "d = bigsize_write t @ d1" "d1 = bigsize_write len @ d2" using t len by (simp_all add: bigsize_iff)
    ultimately have "d = write_record t v @ d3" "length v < 2 ^ 64"
      using unat_bounds(4) [of len] by (simp_all add: write_record_def)
    moreover from this have "tlv_wf \<lparr>tlv_type = t, tlv_value = v\<rparr>" by (simp add: tlv_wf_def)
    ultimately show ?thesis using IH rs(2) t(2) by (simp add: write_stream_def not_le split: option.splits)
  qed
qed

lemma ascending_Some: "ascending (Some p) recs \<longleftrightarrow> sorted_wrt (<) (p # map tlv_type recs)"
proof (induction recs arbitrary: p)
  case (Cons rec recs)
  show ?case using Cons.IH [of "tlv_type rec"] by (auto intro: less_trans)
qed simp

lemma ascending_None: "ascending None recs \<longleftrightarrow> sorted_wrt (<) (map tlv_type recs)"
  by (cases recs) (simp_all add: ascending_Some)

lemma parse_stream_iff:
  "parse_stream d = Inr recs \<longleftrightarrow>
     list_all tlv_wf recs \<and> sorted_wrt (<) (map tlv_type recs) \<and> d = write_stream recs"
  using parse_loop_canonical [of None d recs] parse_loop_write [of recs None]
  by (auto simp: parse_stream_def ascending_None)

lemma check_unknown_even_iff:
  "check_unknown_even recs known = Inr () \<longleftrightarrow>
     list_all (\<lambda>rec. tlv_type rec mod 2 = 0 \<longrightarrow> tlv_type rec \<in> set known) recs"
  by (induction recs) auto

section \<open>Truncated integers\<close>

lemma shift_or_byte: "push_bit 8 (a :: u64) OR ucast (b :: u8) = 256 * a + ucast b"
proof -
  have "push_bit 8 a AND (ucast b :: u64) = 0"
    by (rule bit_eqI) (auto simp: bit_and_iff bit_push_bit_iff bit_ucast_iff dest: bit_imp_le_length)
  then have "push_bit 8 a OR ucast b = push_bit 8 a + ucast b" by (simp add: disjunctive_add_eq_or)
  then show ?thesis by (simp add: push_bit_eq_mult mult.commute)
qed

lemma be_val_snoc: "be_val (bs @ [b]) = 256 * be_val bs + unat b"
  by (simp add: be_val_def)

lemma be_fold: "foldl (\<lambda>out b. push_bit 8 out OR ucast b) (0 :: u64) bs = of_nat (be_val bs)"
  by (induction bs rule: rev_induct) (simp_all add: shift_or_byte be_val_snoc, simp add: be_val_def)

lemma be_val_dropWhile: "be_val (dropWhile (\<lambda>b. b = 0) bs) = be_val bs"
proof (induction bs)
  case (Cons b bs)
  have "be_val (0 # bs) = be_val bs"
  proof -
    have "le_val (xs @ [0]) = le_val xs" for xs by (induction xs) simp_all
    then show ?thesis by (simp add: be_val_def)
  qed
  then show ?case using Cons by simp
qed simp

lemma write_tu64_dropWhile: "write_tu64 v = dropWhile (\<lambda>b. b = 0) (to_be_bytes v)"
  by (simp add: write_tu64_def Let_def dropWhile_eq_drop)

lemma be_val_to_be: "be_val (to_be_bytes (v :: u64)) = unat v"
  using unat_bounds(4) [of v] by (simp add: to_be_bytes_digits be_val_def le_val_le_digits)

lemma to_be_pad:
  assumes "length bs \<le> 8"
  shows "to_be_bytes (of_nat (be_val bs) :: u64) = replicate (8 - length bs) 0 @ bs"
proof -
  have "be_val bs < 256 ^ length bs" by (rule be_val_bound)
  also have "\<dots> \<le> 256 ^ 8" using assms by (intro power_increasing) simp_all
  finally have u: "unat (of_nat (be_val bs) :: u64) = be_val bs" by (simp add: unat_of_nat)
  have "be_val (replicate n 0 @ bs) = be_val bs" for n
  proof -
    have "dropWhile (\<lambda>b. b = 0) (replicate n 0 @ bs) = dropWhile (\<lambda>b. b = 0) bs" by (induction n) simp_all
    then show ?thesis by (metis be_val_dropWhile)
  qed
  then have "be_val (to_be_bytes (of_nat (be_val bs) :: u64)) = be_val (replicate (8 - length bs) 0 @ bs)"
    using u by (simp add: be_val_to_be)
  then have "rev (to_be_bytes (of_nat (be_val bs) :: u64)) = rev (replicate (8 - length bs) 0 @ bs)"
    unfolding be_val_def using assms by (intro le_val_inject) simp_all
  then show ?thesis by (simp only: rev_is_rev_conv)
qed

lemma read_tu64_iff: "read_tu64 b = Inr v \<longleftrightarrow> b = write_tu64 v"
proof
  assume r: "read_tu64 b = Inr v"
  then have len: "length b \<le> 8" and min: "b = [] \<or> hd b \<noteq> 0" and v: "v = of_nat (be_val b)"
    by (auto simp: read_tu64_def be_fold split: if_splits)
  have "dropWhile (\<lambda>b. b = 0) (replicate n 0 @ b) = b" for n
    using min by (induction n) (cases b; simp)+
  then show "b = write_tu64 v" using to_be_pad [OF len] by (simp add: write_tu64_dropWhile v)
next
  assume b: "b = write_tu64 v"
  have "length b \<le> 8"
    using length_dropWhile_le [of "\<lambda>b. b = 0" "to_be_bytes v"] by (simp add: b write_tu64_dropWhile)
  moreover have "b = [] \<or> hd b \<noteq> 0"
    unfolding b write_tu64_dropWhile using hd_dropWhile [of "\<lambda>b. b = 0" "to_be_bytes v"] by blast
  moreover have "be_val b = unat v" by (simp add: b write_tu64_dropWhile be_val_dropWhile be_val_to_be)
  ultimately show "read_tu64 b = Inr v" by (auto simp: read_tu64_def be_fold)
qed

lemma be_val_Cons: "be_val (b # bs) = unat b * 256 ^ length bs + be_val bs"
proof -
  have "le_val (xs @ [b]) = le_val xs + 256 ^ length xs * unat b" for xs
    by (induction xs) (simp_all add: algebra_simps)
  then show ?thesis by (simp add: be_val_def)
qed

lemma length_write_tu64:
  assumes "unat v < 256 ^ n"
  shows "length (write_tu64 v) \<le> n"
proof (cases "write_tu64 v")
  case (Cons b bs)
  then have "b \<noteq> 0"
    using hd_dropWhile [of "\<lambda>b. b = 0" "to_be_bytes v"] by (simp add: write_tu64_dropWhile)
  then have "0 < unat b" by (simp add: unat_gt_0)
  then have "1 * 256 ^ length bs \<le> unat b * 256 ^ length bs" by (intro mult_le_mono1) simp
  then have "256 ^ length bs \<le> be_val (b # bs)" unfolding be_val_Cons by linarith
  also have "be_val (b # bs) = unat v"
    by (simp add: Cons [symmetric] write_tu64_dropWhile be_val_dropWhile be_val_to_be)
  finally have "(256 :: nat) ^ length bs < 256 ^ n" using assms by (rule le_less_trans)
  then show ?thesis using Cons by simp
qed simp

lemma unat_write_tu64: "length (write_tu64 v) \<le> n \<Longrightarrow> unat v < 256 ^ n"
proof -
  assume "length (write_tu64 v) \<le> n"
  then have "(256 :: nat) ^ length (write_tu64 v) \<le> 256 ^ n" by (intro power_increasing) simp_all
  moreover have "be_val (write_tu64 v) = unat v"
    by (simp add: write_tu64_dropWhile be_val_dropWhile be_val_to_be)
  ultimately show ?thesis using be_val_bound [of "write_tu64 v"] by linarith
qed

lemma read_tu32_iff: "read_tu32 b = Inr v \<longleftrightarrow> b = write_tu32 v"
proof
  assume "read_tu32 b = Inr v"
  then obtain w where w: "length b \<le> 4" "b = write_tu64 w" "v = ucast w"
    by (auto simp: read_tu32_def rbind_eq_Inr read_tu64_iff not_less split: if_splits)
  then have "unat w < 256 ^ 4" using unat_write_tu64 by blast
  then have "w \<le> 0xffffffff" by (simp add: word_le_nat_alt)
  then show "b = write_tu32 v" using w by (simp add: write_tu32_def ucast_down_up)
next
  assume b: "b = write_tu32 v"
  then have "length b \<le> 4"
    unfolding b write_tu32_def using unat_bounds(3) [of v] by (intro length_write_tu64) simp
  moreover have "read_tu64 b = Inr (ucast v)" by (simp add: b write_tu32_def read_tu64_iff)
  ultimately show "read_tu32 b = Inr v" by (simp add: read_tu32_def)
qed

lemma read_tu16_iff: "read_tu16 b = Inr v \<longleftrightarrow> b = write_tu16 v"
proof
  assume "read_tu16 b = Inr v"
  then obtain w where w: "length b \<le> 2" "b = write_tu64 w" "v = ucast w"
    by (auto simp: read_tu16_def rbind_eq_Inr read_tu64_iff not_less split: if_splits)
  then have "unat w < 256 ^ 2" using unat_write_tu64 by blast
  then have "w \<le> 0xffff" by (simp add: word_le_nat_alt)
  then show "b = write_tu16 v" using w by (simp add: write_tu16_def ucast_down_up)
next
  assume b: "b = write_tu16 v"
  then have "length b \<le> 2"
    unfolding b write_tu16_def using unat_bounds(2) [of v] by (intro length_write_tu64) simp
  moreover have "read_tu64 b = Inr (ucast v)" by (simp add: b write_tu16_def read_tu64_iff)
  ultimately show "read_tu16 b = Inr v" by (simp add: read_tu16_def)
qed

section \<open>Properties\<close>

text \<open>BigSize is canonical: a byte string reads as a value exactly when it starts with the
  one encoding \<^verbatim>\<open>bigsize::write\<close> produces for it, and the reader leaves the rest unread; the
  length announced by \<^verbatim>\<open>bigsize::len\<close> is the length written.\<close>

theorem bigsize_canonical:
  "(bigsize_read d = Inr (v, r) \<longleftrightarrow> d = bigsize_write v @ r) \<and> length (bigsize_write v) = bigsize_len v"
  using bigsize.dec_iff [of d v r] length_bigsize_write by simp

text \<open>C38: \<^verbatim>\<open>parse_stream\<close> accepts exactly the streams a conforming writer produces: a byte string
  parses to records exactly when their types are strictly ascending and the string is their
  canonical serialization, with nothing left over.\<close>

theorem tlv_stream_canonical:
  "parse_stream d = Inr recs \<longleftrightarrow>
     list_all tlv_wf recs \<and> sorted_wrt (<) (map tlv_type recs) \<and> d = write_stream recs"
  by (rule parse_stream_iff)

text \<open>The truncated integers \<^verbatim>\<open>tu16\<close>, \<^verbatim>\<open>tu32\<close> and \<^verbatim>\<open>tu64\<close> are canonical: each reader
  accepts exactly the minimal encoding of a value that fits its width.\<close>

theorem truncated_integers_canonical:
  "(read_tu64 b = Inr v64 \<longleftrightarrow> b = write_tu64 v64) \<and> (read_tu32 b = Inr v32 \<longleftrightarrow> b = write_tu32 v32)
   \<and> (read_tu16 b = Inr v16 \<longleftrightarrow> b = write_tu16 v16)"
  by (simp add: read_tu64_iff read_tu32_iff read_tu16_iff)

end
