(* ===== verification/Types.thy ===== *)
theory Types
  imports Crypto_Hash
begin

text \<open>\<^verbatim>\<open>src/src/types.rs\<close> and \<^verbatim>\<open>src/src/util/hex.rs\<close>: the protocol newtypes with their
  arithmetic, short channel ids packed into 64 bits, networks, and hex. A newtype over an
  integer or a byte array is that integer or byte string.
\<close>

unbundle bit_operations_syntax

section \<open>Hex\<close>

datatype HexError = OddLength | BadLength | BadChar u8

definition HEX_TABLE :: bytes where
  "HEX_TABLE = map (\<lambda>c. of_nat (of_char c)) ''0123456789abcdef''"

definition hex_encode :: "bytes \<Rightarrow> bytes" where
  "hex_encode bs = concat (map (\<lambda>b. [HEX_TABLE ! unat (drop_bit 4 b), HEX_TABLE ! unat (b AND 0x0f)]) bs)"

definition hex_val :: "u8 \<Rightarrow> (HexError, u8) result" where
  "hex_val c =
     (if 0x30 \<le> c \<and> c \<le> 0x39 then Inr (c - 0x30)
      else if 0x61 \<le> c \<and> c \<le> 0x66 then Inr (c - 0x61 + 10)
      else if 0x41 \<le> c \<and> c \<le> 0x46 then Inr (c - 0x41 + 10)
      else Inl (BadChar c))"

fun hex_pairs :: "bytes list \<Rightarrow> (HexError, bytes) result" where
  "hex_pairs [] = Inr []"
| "hex_pairs (p # ps) =
     rbind (hex_val (p ! 0)) (\<lambda>hi. rbind (hex_val (p ! 1)) (\<lambda>lo.
       rbind (hex_pairs ps) (\<lambda>rest. Inr ((push_bit 4 hi OR lo) # rest))))"

definition hex_decode :: "bytes \<Rightarrow> (HexError, bytes) result" where
  "hex_decode s =
     (if length s mod 2 \<noteq> 0 then Inl OddLength else hex_pairs (chunks_exact 2 s))"

definition hex_decode_array :: "nat \<Rightarrow> bytes \<Rightarrow> (HexError, bytes) result" where
  "hex_decode_array N s =
     rbind (hex_decode s) (\<lambda>v. if length v = N then Inr v else Inl BadLength)"

section \<open>Amounts\<close>

type_synonym Msat = u64
type_synonym ChannelId = bytes
type_synonym PaymentHash = bytes
type_synonym PaymentPreimage = bytes
type_synonym BlockHeight = u32

definition msat_from_sat :: "u64 \<Rightarrow> Msat" where
  "msat_from_sat sat = sat * 1000"

definition to_sat_floor :: "Msat \<Rightarrow> u64" where
  "to_sat_floor m = m div 1000"

definition payment_hash :: "PaymentPreimage \<Rightarrow> PaymentHash" where
  "payment_hash p = sha256_digest p"

section \<open>Short channel ids\<close>

type_synonym ShortChannelId = u64

definition scid_new :: "u32 \<Rightarrow> u32 \<Rightarrow> u16 \<Rightarrow> ShortChannelId" where
  "scid_new block tx_index vout =
     push_bit 40 (ucast block) OR push_bit 16 (ucast tx_index) OR ucast vout"

definition scid_block :: "ShortChannelId \<Rightarrow> u32" where
  "scid_block s = ucast (drop_bit 40 s)"

definition scid_tx_index :: "ShortChannelId \<Rightarrow> u32" where
  "scid_tx_index s = ucast (drop_bit 16 s AND 0xffffff)"

definition scid_vout :: "ShortChannelId \<Rightarrow> u16" where
  "scid_vout s = ucast (s AND 0xffff)"

section \<open>Networks and feerates\<close>

datatype Network = Bitcoin | Testnet | Signet | Regtest

definition str_bytes :: "string \<Rightarrow> bytes" where
  "str_bytes s = map (\<lambda>c. of_nat (of_char c)) s"

definition chain_hash :: "Network \<Rightarrow> (HexError, bytes) result" where
  "chain_hash n =
     hex_decode_array 32 (str_bytes (case n of
        Bitcoin \<Rightarrow> ''6fe28c0ab6f1b372c1a6a246ae63f74f931e8365e15a089c68d6190000000000''
      | Testnet \<Rightarrow> ''43497fd7f826957108f4a30fd9cec3aeba79972084e90ead01ea330900000000''
      | Signet \<Rightarrow> ''f61eee3b63a380a477a063af32b2bbc97c9ff9f01f2c4225e973988108000000''
      | Regtest \<Rightarrow> ''06226e46111a0b59caaf126043eb5bbf28c34f3a5e332a1fc7b2b73cf188910f''))"

definition invoice_hrp :: "Network \<Rightarrow> string" where
  "invoice_hrp n =
     (case n of Bitcoin \<Rightarrow> ''bc'' | Testnet \<Rightarrow> ''tb'' | Signet \<Rightarrow> ''tbs'' | Regtest \<Rightarrow> ''bcrt'')"

definition fee_for_weight :: "u32 \<Rightarrow> u64 \<Rightarrow> u64" where
  "fee_for_weight feerate weight = ucast feerate * weight div 1000"

section \<open>Hex round trip\<close>

lemma hex_table_val: "n < 16 \<Longrightarrow> hex_val (HEX_TABLE ! n) = Inr (of_nat n)"
proof -
  assume "n < 16"
  then have "n \<in> set [0..<16]" by simp
  moreover have "\<forall>n\<in>set [0..<16]. hex_val (HEX_TABLE ! n) = Inr (of_nat n)" by code_simp
  ultimately show ?thesis by blast
qed

lemma nibbles: "push_bit 4 (drop_bit 4 b) OR (b AND 0x0f) = (b :: u8)"
proof -
  have "b AND 0x0f = take_bit 4 b" by (simp add: take_bit_eq_mask mask_eq_exp_minus_1)
  then show ?thesis
    by (auto intro!: bit_eqI simp: bit_or_iff bit_push_bit_iff bit_drop_bit_eq bit_take_bit_iff)
qed

lemma nibble_less: "unat (drop_bit 4 (b :: u8)) < 16" "unat (b AND 0x0f) < 16"
proof -
  have "unat (drop_bit 4 b) = unat b div 16" by (simp only: unat_drop_bit_eq) (simp add: drop_bit_eq_div)
  then show "unat (drop_bit 4 b) < 16" using unat_u8_less [of b] by (simp add: less_mult_imp_div_less)
  have "b AND 0x0f \<le> 0x0f" by (rule word_and_le1)
  then show "unat (b AND 0x0f) < 16" by (simp add: word_le_nat_alt)
qed

lemma chunks_hex: "chunks_exact 2 (hex_encode bs)
    = map (\<lambda>b. [HEX_TABLE ! unat (drop_bit 4 b), HEX_TABLE ! unat (b AND 0x0f)]) bs"
proof (induction bs)
  case (Cons b bs)
  then show ?case
    using chunks_exact_append [of 2 "[HEX_TABLE ! unat (drop_bit 4 b), HEX_TABLE ! unat (b AND 0x0f)]" "hex_encode bs"]
    by (simp add: hex_encode_def)
qed (simp add: hex_encode_def)

lemma length_hex_encode: "length (hex_encode bs) = 2 * length bs"
  by (induction bs) (simp_all add: hex_encode_def)

lemma hex_decode_encode: "hex_decode (hex_encode bs) = Inr bs"
proof -
  have "hex_pairs (map (\<lambda>b. [HEX_TABLE ! unat (drop_bit 4 b), HEX_TABLE ! unat (b AND 0x0f)]) bs) = Inr bs"
    by (induction bs) (simp_all add: hex_table_val nibble_less nibbles)
  then show ?thesis by (simp add: hex_decode_def chunks_hex length_hex_encode)
qed

section \<open>Short channel ids\<close>

lemma scid_masks: "(w :: u64) AND 0xffff = take_bit 16 w" "w AND 0xffffff = take_bit 24 w"
  by (simp_all add: take_bit_eq_mask mask_eq_exp_minus_1)

lemma bit_small: "unat (w :: u32) < 2 ^ 24 \<Longrightarrow> bit w n \<Longrightarrow> n < 24"
proof (rule ccontr)
  assume w: "unat w < 2 ^ 24" "bit w n" and "\<not> n < 24"
  then have "(2 :: nat) ^ 24 \<le> 2 ^ n" by (intro power_increasing) simp_all
  then have "unat w div 2 ^ n = 0" using w(1) by simp
  moreover have "odd (unat w div 2 ^ n)" using w(2) bit_iff_odd [of "unat w" n] by (simp add: bit_unsigned_iff)
  ultimately show False by simp
qed

lemma scid_parts:
  assumes "unat b < 2 ^ 24" "unat t < 2 ^ 24"
  shows "scid_block (scid_new b t v) = b" "scid_tx_index (scid_new b t v) = t" "scid_vout (scid_new b t v) = v"
proof -
  have z: "\<not> bit t (24 + n)" "\<not> bit v (40 + n)" "\<not> bit v (16 + n)" for n
    using bit_small [OF assms(2), of "24 + n"] bit_imp_le_length [of v "40 + n"] bit_imp_le_length [of v "16 + n"]
    by auto
  show "scid_block (scid_new b t v) = b" "scid_tx_index (scid_new b t v) = t" "scid_vout (scid_new b t v) = v"
    unfolding scid_block_def scid_tx_index_def scid_vout_def scid_new_def scid_masks
    using bit_small [OF assms(1)] bit_small [OF assms(2)]
    by (auto intro!: bit_eqI simp: z bit_or_iff bit_push_bit_iff bit_ucast_iff bit_drop_bit_eq bit_take_bit_iff
        dest: bit_imp_le_length)
qed

lemma scid_join: "scid_new (scid_block s) (scid_tx_index s) (scid_vout s) = s"
proof (rule bit_eqI)
  fix n assume "possible_bit TYPE(64 word) n"
  then have n: "n < 64" by simp
  consider "n < 16" | "16 \<le> n" "n < 40" | "40 \<le> n" by linarith
  then show "bit (scid_new (scid_block s) (scid_tx_index s) (scid_vout s)) n = bit s n"
    unfolding scid_block_def scid_tx_index_def scid_vout_def scid_new_def scid_masks
    by cases (use n in \<open>auto simp: bit_or_iff bit_push_bit_iff bit_ucast_iff bit_drop_bit_eq bit_take_bit_iff\<close>)
qed

section \<open>Properties\<close>

text \<open>Hex round trip: decoding the encoding of any bytes returns them, at the right length for
  an array.\<close>

theorem hex_roundtrip:
  "hex_decode (hex_encode bs) = Inr bs \<and> hex_decode_array (length bs) (hex_encode bs) = Inr bs"
  by (simp add: hex_decode_encode hex_decode_array_def)

text \<open>A short channel id is its three components: packing what was unpacked restores every
  64-bit id, and unpacking what was packed restores 24-bit block and transaction indices and
  any output index.\<close>

theorem scid_roundtrip:
  "scid_new (scid_block s) (scid_tx_index s) (scid_vout s) = s
   \<and> (unat b < 2 ^ 24 \<and> unat t < 2 ^ 24 \<longrightarrow>
       scid_block (scid_new b t v) = b \<and> scid_tx_index (scid_new b t v) = t \<and> scid_vout (scid_new b t v) = v)"
  by (simp add: scid_join scid_parts)

theorem scid_roundtrip_witness:
  "scid_block (scid_new 700000 1234 1) = 700000 \<and> scid_tx_index (scid_new 700000 1234 1) = 1234
   \<and> scid_vout (scid_new 700000 1234 1) = 1"
  using scid_roundtrip [of 0 700000 1234 1] by simp

end
