(* ===== verification/Features.thy ===== *)
theory Features
  imports Wire_Ser
begin

text \<open>
  \<^verbatim>\<open>src/src/wire/features.rs\<close>: feature vectors. Bit \<open>N\<close> lives in the byte \<open>N div 8\<close> from the end,
  so growing the vector prepends zero bytes; every operation is characterised by the set of bits.
\<close>

unbundle bit_operations_syntax

section \<open>Definitions\<close>

datatype FeatureBit =
  DataLossProtect | InitialRoutingSync | UpfrontShutdownScript | GossipQueries | VarOnionOptin
| GossipQueriesEx | StaticRemoteKey | PaymentSecretBit | BasicMpp | Wumbo | AnchorsZeroFeeHtlcTx
| RouteBlinding | ShutdownAnySegwit | ChannelType | ScidAlias | PaymentMetadata | ZeroConf

definition feature_bit :: "FeatureBit \<Rightarrow> u16" where
  "feature_bit f =
     (case f of DataLossProtect \<Rightarrow> 0 | InitialRoutingSync \<Rightarrow> 3 | UpfrontShutdownScript \<Rightarrow> 4
      | GossipQueries \<Rightarrow> 6 | VarOnionOptin \<Rightarrow> 8 | GossipQueriesEx \<Rightarrow> 10 | StaticRemoteKey \<Rightarrow> 12
      | PaymentSecretBit \<Rightarrow> 14 | BasicMpp \<Rightarrow> 16 | Wumbo \<Rightarrow> 18 | AnchorsZeroFeeHtlcTx \<Rightarrow> 22
      | RouteBlinding \<Rightarrow> 24 | ShutdownAnySegwit \<Rightarrow> 26 | ChannelType \<Rightarrow> 44 | ScidAlias \<Rightarrow> 46
      | PaymentMetadata \<Rightarrow> 48 | ZeroConf \<Rightarrow> 50)"

type_synonym Features = bytes

definition features_empty :: Features where "features_empty = []"

definition features_set :: "Features \<Rightarrow> u16 \<Rightarrow> Features" where
  "features_set f b =
     (let byte_from_end = unat (b div 8);
          f = (if length f \<le> byte_from_end then replicate (byte_from_end + 1 - length f) 0 @ f else f);
          idx = length f - 1 - byte_from_end
      in f[idx := f ! idx OR push_bit (unat (b mod 8)) 1])"

definition is_set :: "Features \<Rightarrow> u16 \<Rightarrow> bool" where
  "is_set f b =
     (let byte_from_end = unat (b div 8) in
      if length f \<le> byte_from_end then False
      else let idx = length f - 1 - byte_from_end in f ! idx AND push_bit (unat (b mod 8)) 1 \<noteq> 0)"

definition supports :: "Features \<Rightarrow> FeatureBit \<Rightarrow> bool" where
  "supports f feature =
     (let even = feature_bit feature AND NOT 1 in is_set f even \<or> is_set f (even + 1))"

definition requires :: "Features \<Rightarrow> FeatureBit \<Rightarrow> bool" where
  "requires f feature = is_set f (feature_bit feature AND NOT 1)"

definition keraunos_default :: Features where
  "keraunos_default =
     (let f = features_empty;
          f = features_set f (feature_bit DataLossProtect + 1);
          f = features_set f (feature_bit VarOnionOptin);
          f = features_set f (feature_bit StaticRemoteKey);
          f = features_set f (feature_bit PaymentSecretBit);
          f = features_set f (feature_bit ShutdownAnySegwit + 1);
          f = features_set f (feature_bit ChannelType + 1)
      in f)"

text \<open>The two nested loops over bytes from the end and bits in the byte; \<^verbatim>\<open>byte_from_end as u16 * 8\<close>
  is 16-bit arithmetic.\<close>

definition unknown_required_bits :: "Features \<Rightarrow> u16 list \<Rightarrow> u16 option" where
  "unknown_required_bits f known_even_bits =
     find (\<lambda>b. b mod 2 = 0 \<and> b \<notin> set known_even_bits)
       (concat (map (\<lambda>byte_from_end.
          let byte = f ! (length f - 1 - byte_from_end) in
          map (\<lambda>bit_in_byte. of_nat byte_from_end * 8 + of_nat bit_in_byte)
            (filter (\<lambda>bit_in_byte. byte AND push_bit bit_in_byte 1 \<noteq> 0) [0..<8]))
        [0..<length f]))"

definition known_even_bits :: "u16 list" where
  "known_even_bits = [0, 4, 6, 8, 12, 14, 16, 22, 26, 44, 46, 48, 50]"

definition features_or :: "Features \<Rightarrow> Features \<Rightarrow> Features" where
  "features_or f g =
     (let len = max (length f) (length g) in
      map (\<lambda>i. let from_end = len - 1 - i;
                   a = (if 1 + from_end \<le> length f then f ! (length f - (1 + from_end)) else 0);
                   c = (if 1 + from_end \<le> length g then g ! (length g - (1 + from_end)) else 0)
               in a OR c)
        [0..<len])"

section \<open>Bits of a vector\<close>

definition byte_at :: "Features \<Rightarrow> nat \<Rightarrow> u8" where
  "byte_at f k = (if k < length f then f ! (length f - 1 - k) else 0)"

lemma u8_bit_test: "(w :: u8) AND push_bit n 1 \<noteq> 0 \<longleftrightarrow> bit w n"
  by (simp only: push_bit_of_1 and_exp_eq_0_iff_not_bit not_not)

lemma is_set_byte_at: "is_set f b \<longleftrightarrow> bit (byte_at f (unat (b div 8))) (unat (b mod 8))"
  by (simp only: is_set_def Let_def u8_bit_test) (simp add: byte_at_def)

lemma byte_at_pad: "byte_at (replicate n 0 @ f) k = byte_at f k"
  by (auto simp: byte_at_def nth_append)

lemma byte_at_update:
  assumes "j < length f"
  shows "byte_at (f[length f - 1 - j := v]) k = (if k = j then v else byte_at f k)"
  using assms by (auto simp: byte_at_def nth_list_update)

lemma byte_at_set:
  "byte_at (features_set f b) k =
     (if k = unat (b div 8) then byte_at f k OR push_bit (unat (b mod 8)) 1 else byte_at f k)"
proof -
  let ?j = "unat (b div 8)"
  define g where "g = (if length f \<le> ?j then replicate (?j + 1 - length f) 0 @ f else f)"
  have len: "?j < length g" by (simp add: g_def)
  have at: "byte_at g i = byte_at f i" for i by (simp add: g_def byte_at_pad)
  have "features_set f b = g[length g - 1 - ?j := g ! (length g - 1 - ?j) OR push_bit (unat (b mod 8)) 1]"
    by (simp add: features_set_def g_def Let_def)
  moreover have "g ! (length g - 1 - ?j) = byte_at f ?j" using len at [of ?j] by (simp add: byte_at_def)
  ultimately show ?thesis using byte_at_update [OF len] at by simp
qed

lemma byte_at_or: "byte_at (features_or f g) k = byte_at f k OR byte_at g k"
  by (auto simp: features_or_def byte_at_def Let_def)

lemma u16_parts: "unat (b div 8 :: u16) = unat b div 8" "unat (b mod 8 :: u16) = unat b mod 8"
  by (simp_all add: unat_div unat_mod)

lemma u16_eq_parts: "(b :: u16) = c \<longleftrightarrow> unat b div 8 = unat c div 8 \<and> unat b mod 8 = unat c mod 8"
  by (metis word_unat_eq_iff div_mult_mod_eq)

lemma is_set_set: "is_set (features_set f b) c \<longleftrightarrow> c = b \<or> is_set f c"
  using mod_less_divisor [of 8 "unat c"]
  by (auto simp: is_set_byte_at byte_at_set u16_parts u16_eq_parts [of c b] bit_or_iff bit_exp_iff)

lemma is_set_or: "is_set (features_or f g) b \<longleftrightarrow> is_set f b \<or> is_set g b"
  by (simp add: is_set_byte_at byte_at_or bit_or_iff)

definition set_bits :: "Features \<Rightarrow> u16 list" where
  "set_bits f = concat (map (\<lambda>byte_from_end.
     let byte = f ! (length f - 1 - byte_from_end) in
     map (\<lambda>bit_in_byte. of_nat byte_from_end * 8 + of_nat bit_in_byte)
       (filter (\<lambda>bit_in_byte. byte AND push_bit bit_in_byte 1 \<noteq> 0) [0..<8])) [0..<length f])"

lemma u16_join:
  assumes "k < 8192" "j < 8"
  shows "unat ((of_nat k * 8 + of_nat j :: u16) div 8) = k" "unat ((of_nat k * 8 + of_nat j :: u16) mod 8) = j"
proof -
  have "(of_nat k * 8 + of_nat j :: u16) = of_nat (k * 8 + j)" by simp
  moreover have "unat (of_nat (k * 8 + j) :: u16) = k * 8 + j"
    using assms by (subst unat_of_nat) simp
  ultimately have "unat (of_nat k * 8 + of_nat j :: u16) = k * 8 + j" by metis
  then show "unat ((of_nat k * 8 + of_nat j :: u16) div 8) = k" "unat ((of_nat k * 8 + of_nat j :: u16) mod 8) = j"
    using assms by (simp_all only: u16_parts) simp_all
qed

lemma set_bits_iff:
  assumes "length f \<le> 8192"
  shows "b \<in> set (set_bits f) \<longleftrightarrow> is_set f b"
proof
  assume "b \<in> set (set_bits f)"
  then obtain k j where kj: "k < length f" "j < 8" "bit (f ! (length f - 1 - k)) j"
      and b: "b = of_nat k * 8 + of_nat j"
    by (auto simp: set_bits_def Let_def simp del: push_bit_of_1 simp flip: u8_bit_test)
  have "unat (b div 8) = k" "unat (b mod 8) = j"
    using u16_join [of k j] kj assms unfolding b by simp_all
  then show "is_set f b" using kj by (simp add: is_set_byte_at byte_at_def)
next
  assume s: "is_set f b"
  let ?k = "unat (b div 8)" and ?j = "unat (b mod 8)"
  have k: "?k < length f" "bit (f ! (length f - 1 - ?k)) ?j"
    using s unfolding is_set_byte_at byte_at_def by (auto split: if_splits)
  have "?j < 8" by (simp add: u16_parts)
  moreover have "b = of_nat ?k * 8 + of_nat ?j" by (simp add: mult.commute [of _ 8] mult_div_mod_eq)
  ultimately show "b \<in> set (set_bits f)"
    unfolding set_bits_def Let_def using k u8_bit_test [of "f ! (length f - 1 - ?k)" ?j]
    by (force simp del: push_bit_of_1)
qed

lemma find_filter_None: "find P xs = None \<longleftrightarrow> (\<forall>x. x \<in> set xs \<longrightarrow> \<not> P x)"
  by (auto simp: find_None_iff)

lemma find_mem: "find P xs = Some x \<Longrightarrow> x \<in> set xs \<and> P x"
  by (induction xs) (auto split: if_splits)

section \<open>Properties\<close>

text \<open>Feature vectors are sets of bits: setting a bit sets that bit and no other however the
  vector has to grow, and \<^verbatim>\<open>or\<close> is the union of the two sets.\<close>

theorem features_bit_sets:
  "(is_set (features_set f b) c \<longleftrightarrow> c = b \<or> is_set f c)
   \<and> (is_set (features_or f g) c \<longleftrightarrow> is_set f c \<or> is_set g c) \<and> \<not> is_set features_empty c"
  by (simp add: is_set_set is_set_or) (simp add: is_set_def features_empty_def)

text \<open>For vectors of at most 8192 bytes \<^verbatim>\<open>unknown_required_bits\<close> reports a bit exactly when some
  even bit is set that is not in the list of known bits, and the bit it reports is one.\<close>

theorem unknown_required_bits_correct:
  assumes "length f \<le> 8192"
  shows "(case unknown_required_bits f known of
      None \<Rightarrow> (\<forall>b. is_set f b \<and> b mod 2 = 0 \<longrightarrow> b \<in> set known)
    | Some b \<Rightarrow> is_set f b \<and> b mod 2 = 0 \<and> b \<notin> set known)"
proof -
  have u: "unknown_required_bits f known = find (\<lambda>b. b mod 2 = 0 \<and> b \<notin> set known) (set_bits f)"
    by (simp add: unknown_required_bits_def set_bits_def)
  show ?thesis
  proof (cases "unknown_required_bits f known")
    case None
    then have "\<forall>b. b \<in> set (set_bits f) \<longrightarrow> \<not> (b mod 2 = 0 \<and> b \<notin> set known)"
      unfolding u find_filter_None .
    then show ?thesis unfolding None option.case set_bits_iff [OF assms] by meson
  next
    case (Some b)
    then have "b \<in> set (set_bits f) \<and> b mod 2 = 0 \<and> b \<notin> set known" unfolding u by (rule find_mem)
    then show ?thesis unfolding Some option.case set_bits_iff [OF assms] .
  qed
qed

theorem unknown_required_bits_correct_witness:
  "(case unknown_required_bits [0x10, 0] [] of
      None \<Rightarrow> (\<forall>b. is_set [0x10, 0] b \<and> b mod 2 = 0 \<longrightarrow> b \<in> set [])
    | Some b \<Rightarrow> is_set [0x10, 0] b \<and> b mod 2 = 0 \<and> b \<notin> set [])"
  by (rule unknown_required_bits_correct) simp

end
