(* ===== verification/Wire_Msgs.thy ===== *)
theory Wire_Msgs
  imports Wire_Ser Types Features
begin

text \<open>
  The typed messages of \<^verbatim>\<open>src/src/wire/msgs.rs\<close>: one record per struct (its fields prefixed by
  a short name of the message), the bytes each branch of \<^verbatim>\<open>Message::encode\<close> appends as
  \<open>\<dots>_write\<close>, and the reader of each branch of \<^verbatim>\<open>decode_body\<close> as \<open>\<dots>_read\<close>. The argument \<open>S\<close>
  stands for the secp256k1 library.
\<close>

unbundle bit_operations_syntax

section \<open>Message types\<close>

definition WARNING :: u16 where "WARNING = 1"
definition INIT :: u16 where "INIT = 16"
definition ERROR :: u16 where "ERROR = 17"
definition PING :: u16 where "PING = 18"
definition PONG :: u16 where "PONG = 19"
definition OPEN_CHANNEL :: u16 where "OPEN_CHANNEL = 32"
definition ACCEPT_CHANNEL :: u16 where "ACCEPT_CHANNEL = 33"
definition FUNDING_CREATED :: u16 where "FUNDING_CREATED = 34"
definition FUNDING_SIGNED :: u16 where "FUNDING_SIGNED = 35"
definition CHANNEL_READY :: u16 where "CHANNEL_READY = 36"
definition SHUTDOWN :: u16 where "SHUTDOWN = 38"
definition CLOSING_SIGNED :: u16 where "CLOSING_SIGNED = 39"
definition UPDATE_ADD_HTLC :: u16 where "UPDATE_ADD_HTLC = 128"
definition UPDATE_FULFILL_HTLC :: u16 where "UPDATE_FULFILL_HTLC = 130"
definition UPDATE_FAIL_HTLC :: u16 where "UPDATE_FAIL_HTLC = 131"
definition COMMITMENT_SIGNED :: u16 where "COMMITMENT_SIGNED = 132"
definition REVOKE_AND_ACK :: u16 where "REVOKE_AND_ACK = 133"
definition UPDATE_FEE :: u16 where "UPDATE_FEE = 134"
definition UPDATE_FAIL_MALFORMED_HTLC :: u16 where "UPDATE_FAIL_MALFORMED_HTLC = 135"
definition CHANNEL_REESTABLISH :: u16 where "CHANNEL_REESTABLISH = 136"
definition CHANNEL_ANNOUNCEMENT :: u16 where "CHANNEL_ANNOUNCEMENT = 256"
definition NODE_ANNOUNCEMENT :: u16 where "NODE_ANNOUNCEMENT = 257"
definition CHANNEL_UPDATE :: u16 where "CHANNEL_UPDATE = 258"
definition ANNOUNCEMENT_SIGNATURES :: u16 where "ANNOUNCEMENT_SIGNATURES = 259"
definition GOSSIP_TIMESTAMP_FILTER :: u16 where "GOSSIP_TIMESTAMP_FILTER = 265"

lemmas msg_types = WARNING_def INIT_def ERROR_def PING_def PONG_def OPEN_CHANNEL_def ACCEPT_CHANNEL_def
  FUNDING_CREATED_def FUNDING_SIGNED_def CHANNEL_READY_def SHUTDOWN_def CLOSING_SIGNED_def
  UPDATE_ADD_HTLC_def UPDATE_FULFILL_HTLC_def UPDATE_FAIL_HTLC_def COMMITMENT_SIGNED_def
  REVOKE_AND_ACK_def UPDATE_FEE_def UPDATE_FAIL_MALFORMED_HTLC_def CHANNEL_REESTABLISH_def
  CHANNEL_ANNOUNCEMENT_def NODE_ANNOUNCEMENT_def CHANNEL_UPDATE_def ANNOUNCEMENT_SIGNATURES_def
  GOSSIP_TIMESTAMP_FILTER_def

definition ONION_PACKET_LEN :: nat where "ONION_PACKET_LEN = 1366"

section \<open>BOLT 1\<close>

record Init =
  in_global_features :: Features
  in_features :: Features
  in_networks :: "bytes list option"

definition combined_features :: "Init \<Rightarrow> Features" where
  "combined_features m = features_or (in_global_features m) (in_features m)"

definition Init_write :: "Init \<Rightarrow> bytes" where
  "Init_write m =
     w_bytes_u16 (in_global_features m) @ w_bytes_u16 (in_features m) @
     (case in_networks m of None \<Rightarrow> [] | Some nets \<Rightarrow> write_record 1 (concat nets))"

primrec init_tlvs :: "TlvRecord list \<Rightarrow> bytes list option \<Rightarrow> (WireError, bytes list option) result" where
  "init_tlvs [] networks = Inr networks"
| "init_tlvs (rec # recs) networks =
     (if tlv_type rec = 1 then
        if length (tlv_value rec) mod 32 \<noteq> 0 then Inl (BadFormat ''init networks length'')
        else init_tlvs recs (Some (chunks_exact 32 (tlv_value rec)))
      else init_tlvs recs networks)"

definition Init_read :: "Init wreader" where
  "Init_read =
     pbind r_bytes_u16 (\<lambda>global_features.
     pbind r_bytes_u16 (\<lambda>features.
     pbind r_rest (\<lambda>rest d.
       rbind (parse_stream rest) (\<lambda>records.
       rbind (check_unknown_even records []) (\<lambda>_.
       rbind (init_tlvs records None) (\<lambda>networks.
         Inr (\<lparr>in_global_features = global_features, in_features = features, in_networks = networks\<rparr>, d)))))))"

record ErrorMsg =
  em_channel_id :: ChannelId
  em_data :: bytes

definition ErrorMsg_write :: "ErrorMsg \<Rightarrow> bytes" where
  "ErrorMsg_write m =
     em_channel_id m @ w_bytes_u16 (em_data m)"

definition ErrorMsg_read :: "ErrorMsg wreader" where
  "ErrorMsg_read =
     pbind (r_array 32) (\<lambda>channel_id.
     pbind r_bytes_u16 (\<lambda>data.
     pret \<lparr>em_channel_id = channel_id, em_data = data\<rparr>))"

record WarningMsg =
  wm_channel_id :: ChannelId
  wm_data :: bytes

definition WarningMsg_write :: "WarningMsg \<Rightarrow> bytes" where
  "WarningMsg_write m =
     wm_channel_id m @ w_bytes_u16 (wm_data m)"

definition WarningMsg_read :: "WarningMsg wreader" where
  "WarningMsg_read =
     pbind (r_array 32) (\<lambda>channel_id.
     pbind r_bytes_u16 (\<lambda>data.
     pret \<lparr>wm_channel_id = channel_id, wm_data = data\<rparr>))"

record Ping =
  ping_num_pong_bytes :: u16
  ping_ignored :: bytes

definition Ping_write :: "Ping \<Rightarrow> bytes" where
  "Ping_write m =
     w_u16 (ping_num_pong_bytes m) @ w_bytes_u16 (ping_ignored m)"

definition Ping_read :: "Ping wreader" where
  "Ping_read =
     pbind r_u16 (\<lambda>num_pong_bytes.
     pbind r_bytes_u16 (\<lambda>ignored.
     pret \<lparr>ping_num_pong_bytes = num_pong_bytes, ping_ignored = ignored\<rparr>))"

record Pong =
  pong_ignored :: bytes

definition Pong_write :: "Pong \<Rightarrow> bytes" where
  "Pong_write m =
     w_bytes_u16 (pong_ignored m)"

definition Pong_read :: "Pong wreader" where
  "Pong_read =
     pbind r_bytes_u16 (\<lambda>ignored.
     pret \<lparr>pong_ignored = ignored\<rparr>)"

section \<open>BOLT 2: channel establishment and close\<close>

record ChannelBasepoints =
  bp_funding_pubkey :: PublicKey
  bp_revocation :: PublicKey
  bp_payment :: PublicKey
  bp_delayed_payment :: PublicKey
  bp_htlc :: PublicKey

definition ChannelBasepoints_write :: "ChannelBasepoints \<Rightarrow> bytes" where
  "ChannelBasepoints_write b =
     bp_funding_pubkey b @ bp_revocation b @ bp_payment b @ bp_delayed_payment b @ bp_htlc b"

definition ChannelBasepoints_read :: "('z) Secp_scheme \<Rightarrow> ChannelBasepoints wreader" where
  "ChannelBasepoints_read S =
     pbind (r_pubkey S) (\<lambda>funding_pubkey.
     pbind (r_pubkey S) (\<lambda>revocation.
     pbind (r_pubkey S) (\<lambda>payment.
     pbind (r_pubkey S) (\<lambda>delayed_payment.
     pbind (r_pubkey S) (\<lambda>htlc.
     pret \<lparr>bp_funding_pubkey = funding_pubkey, bp_revocation = revocation, bp_payment = payment,
           bp_delayed_payment = delayed_payment, bp_htlc = htlc\<rparr>)))))"

record OpenChannel =
  oc_chain_hash :: bytes
  oc_temporary_channel_id :: ChannelId
  oc_funding_satoshis :: u64
  oc_push_msat :: Msat
  oc_dust_limit_satoshis :: u64
  oc_max_htlc_value_in_flight_msat :: Msat
  oc_channel_reserve_satoshis :: u64
  oc_htlc_minimum_msat :: Msat
  oc_feerate_per_kw :: u32
  oc_to_self_delay :: u16
  oc_max_accepted_htlcs :: u16
  oc_basepoints :: ChannelBasepoints
  oc_first_per_commitment_point :: PublicKey
  oc_channel_flags :: u8
  oc_upfront_shutdown_script :: "bytes option"
  oc_channel_type :: "Features option"

text \<open>The two optional TLV records that \<^verbatim>\<open>open_channel\<close> and \<^verbatim>\<open>accept_channel\<close> share.\<close>

definition open_accept_write :: "bytes option \<Rightarrow> Features option \<Rightarrow> bytes" where
  "open_accept_write shutdown ctype =
     (case shutdown of None \<Rightarrow> [] | Some s \<Rightarrow> write_record 0 s) @
     (case ctype of None \<Rightarrow> [] | Some t \<Rightarrow> write_record 1 t)"

definition open_accept_tlvs :: "TlvRecord list \<Rightarrow> bytes option \<times> Features option" where
  "open_accept_tlvs records =
     foldl (\<lambda>(shutdown, ctype) rec.
        if tlv_type rec = 0 then (Some (tlv_value rec), ctype)
        else if tlv_type rec = 1 then (shutdown, Some (tlv_value rec))
        else (shutdown, ctype)) (None, None) records"

definition OpenChannel_write :: "OpenChannel \<Rightarrow> bytes" where
  "OpenChannel_write m =
     oc_chain_hash m @ oc_temporary_channel_id m @ w_u64 (oc_funding_satoshis m) @
     w_u64 (oc_push_msat m) @ w_u64 (oc_dust_limit_satoshis m) @
     w_u64 (oc_max_htlc_value_in_flight_msat m) @ w_u64 (oc_channel_reserve_satoshis m) @
     w_u64 (oc_htlc_minimum_msat m) @ w_u32 (oc_feerate_per_kw m) @ w_u16 (oc_to_self_delay m) @
     w_u16 (oc_max_accepted_htlcs m) @ ChannelBasepoints_write (oc_basepoints m) @
     oc_first_per_commitment_point m @ w_u8 (oc_channel_flags m) @
     open_accept_write (oc_upfront_shutdown_script m) (oc_channel_type m)"

definition OpenChannel_read :: "('z) Secp_scheme \<Rightarrow> OpenChannel wreader" where
  "OpenChannel_read S =
     pbind (r_array 32) (\<lambda>chain_hash.
     pbind (r_array 32) (\<lambda>temporary_channel_id.
     pbind r_u64 (\<lambda>funding_satoshis.
     pbind r_u64 (\<lambda>push_msat.
     pbind r_u64 (\<lambda>dust_limit_satoshis.
     pbind r_u64 (\<lambda>max_htlc_value_in_flight_msat.
     pbind r_u64 (\<lambda>channel_reserve_satoshis.
     pbind r_u64 (\<lambda>htlc_minimum_msat.
     pbind r_u32 (\<lambda>feerate_per_kw.
     pbind r_u16 (\<lambda>to_self_delay.
     pbind r_u16 (\<lambda>max_accepted_htlcs.
     pbind (ChannelBasepoints_read S) (\<lambda>basepoints.
     pbind (r_pubkey S) (\<lambda>first_per_commitment_point.
     pbind r_u8 (\<lambda>channel_flags.
     pbind r_rest (\<lambda>rest d.
       rbind (parse_stream rest) (\<lambda>records.
       rbind (check_unknown_even records [0]) (\<lambda>_.
         let (upfront_shutdown_script, channel_type) = open_accept_tlvs records in
         Inr (\<lparr>oc_chain_hash = chain_hash, oc_temporary_channel_id = temporary_channel_id,
               oc_funding_satoshis = funding_satoshis, oc_push_msat = push_msat,
               oc_dust_limit_satoshis = dust_limit_satoshis,
               oc_max_htlc_value_in_flight_msat = max_htlc_value_in_flight_msat,
               oc_channel_reserve_satoshis = channel_reserve_satoshis,
               oc_htlc_minimum_msat = htlc_minimum_msat, oc_feerate_per_kw = feerate_per_kw,
               oc_to_self_delay = to_self_delay, oc_max_accepted_htlcs = max_accepted_htlcs,
               oc_basepoints = basepoints,
               oc_first_per_commitment_point = first_per_commitment_point,
               oc_channel_flags = channel_flags,
               oc_upfront_shutdown_script = upfront_shutdown_script,
               oc_channel_type = channel_type\<rparr>, d))))))))))))))))))"

record AcceptChannel =
  ac_temporary_channel_id :: ChannelId
  ac_dust_limit_satoshis :: u64
  ac_max_htlc_value_in_flight_msat :: Msat
  ac_channel_reserve_satoshis :: u64
  ac_htlc_minimum_msat :: Msat
  ac_minimum_depth :: u32
  ac_to_self_delay :: u16
  ac_max_accepted_htlcs :: u16
  ac_basepoints :: ChannelBasepoints
  ac_first_per_commitment_point :: PublicKey
  ac_upfront_shutdown_script :: "bytes option"
  ac_channel_type :: "Features option"

definition AcceptChannel_write :: "AcceptChannel \<Rightarrow> bytes" where
  "AcceptChannel_write m =
     ac_temporary_channel_id m @ w_u64 (ac_dust_limit_satoshis m) @
     w_u64 (ac_max_htlc_value_in_flight_msat m) @ w_u64 (ac_channel_reserve_satoshis m) @
     w_u64 (ac_htlc_minimum_msat m) @ w_u32 (ac_minimum_depth m) @ w_u16 (ac_to_self_delay m) @
     w_u16 (ac_max_accepted_htlcs m) @ ChannelBasepoints_write (ac_basepoints m) @
     ac_first_per_commitment_point m @
     open_accept_write (ac_upfront_shutdown_script m) (ac_channel_type m)"

definition AcceptChannel_read :: "('z) Secp_scheme \<Rightarrow> AcceptChannel wreader" where
  "AcceptChannel_read S =
     pbind (r_array 32) (\<lambda>temporary_channel_id.
     pbind r_u64 (\<lambda>dust_limit_satoshis.
     pbind r_u64 (\<lambda>max_htlc_value_in_flight_msat.
     pbind r_u64 (\<lambda>channel_reserve_satoshis.
     pbind r_u64 (\<lambda>htlc_minimum_msat.
     pbind r_u32 (\<lambda>minimum_depth.
     pbind r_u16 (\<lambda>to_self_delay.
     pbind r_u16 (\<lambda>max_accepted_htlcs.
     pbind (ChannelBasepoints_read S) (\<lambda>basepoints.
     pbind (r_pubkey S) (\<lambda>first_per_commitment_point.
     pbind r_rest (\<lambda>rest d.
       rbind (parse_stream rest) (\<lambda>records.
       rbind (check_unknown_even records [0]) (\<lambda>_.
         let (upfront_shutdown_script, channel_type) = open_accept_tlvs records in
         Inr (\<lparr>ac_temporary_channel_id = temporary_channel_id,
               ac_dust_limit_satoshis = dust_limit_satoshis,
               ac_max_htlc_value_in_flight_msat = max_htlc_value_in_flight_msat,
               ac_channel_reserve_satoshis = channel_reserve_satoshis,
               ac_htlc_minimum_msat = htlc_minimum_msat, ac_minimum_depth = minimum_depth,
               ac_to_self_delay = to_self_delay, ac_max_accepted_htlcs = max_accepted_htlcs,
               ac_basepoints = basepoints,
               ac_first_per_commitment_point = first_per_commitment_point,
               ac_upfront_shutdown_script = upfront_shutdown_script,
               ac_channel_type = channel_type\<rparr>, d))))))))))))))"

record FundingCreated =
  fcr_temporary_channel_id :: ChannelId
  fcr_funding_txid :: bytes
  fcr_funding_output_index :: u16
  fcr_signature :: Signature

definition FundingCreated_write :: "FundingCreated \<Rightarrow> bytes" where
  "FundingCreated_write m =
     fcr_temporary_channel_id m @ fcr_funding_txid m @ w_u16 (fcr_funding_output_index m) @
     fcr_signature m"

definition FundingCreated_read :: "('z) Secp_scheme \<Rightarrow> FundingCreated wreader" where
  "FundingCreated_read S =
     pbind (r_array 32) (\<lambda>temporary_channel_id.
     pbind (r_array 32) (\<lambda>funding_txid.
     pbind r_u16 (\<lambda>funding_output_index.
     pbind (r_signature S) (\<lambda>signature.
     pret \<lparr>fcr_temporary_channel_id = temporary_channel_id, fcr_funding_txid = funding_txid,
              fcr_funding_output_index = funding_output_index, fcr_signature = signature\<rparr>))))"

record FundingSigned =
  fsg_channel_id :: ChannelId
  fsg_signature :: Signature

definition FundingSigned_write :: "FundingSigned \<Rightarrow> bytes" where
  "FundingSigned_write m =
     fsg_channel_id m @ fsg_signature m"

definition FundingSigned_read :: "('z) Secp_scheme \<Rightarrow> FundingSigned wreader" where
  "FundingSigned_read S =
     pbind (r_array 32) (\<lambda>channel_id.
     pbind (r_signature S) (\<lambda>signature.
     pret \<lparr>fsg_channel_id = channel_id, fsg_signature = signature\<rparr>))"

record ChannelReady =
  crd_channel_id :: ChannelId
  crd_second_per_commitment_point :: PublicKey
  crd_short_channel_id_alias :: "ShortChannelId option"

definition ChannelReady_write :: "ChannelReady \<Rightarrow> bytes" where
  "ChannelReady_write m =
     crd_channel_id m @ crd_second_per_commitment_point m @
     (case crd_short_channel_id_alias m of None \<Rightarrow> []
      | Some alias \<Rightarrow> write_record 1 (w_u64 alias))"

definition channel_ready_tlvs :: "TlvRecord list \<Rightarrow> ShortChannelId option" where
  "channel_ready_tlvs records =
     foldl (\<lambda>alias rec. if tlv_type rec = 1 \<and> length (tlv_value rec) = 8
                        then Some (from_be_bytes (tlv_value rec)) else alias) None records"

definition ChannelReady_read :: "('z) Secp_scheme \<Rightarrow> ChannelReady wreader" where
  "ChannelReady_read S =
     pbind (r_array 32) (\<lambda>channel_id.
     pbind (r_pubkey S) (\<lambda>second_per_commitment_point.
     pbind r_rest (\<lambda>rest d.
       rbind (parse_stream rest) (\<lambda>records.
       rbind (check_unknown_even records []) (\<lambda>_.
         Inr (\<lparr>crd_channel_id = channel_id,
               crd_second_per_commitment_point = second_per_commitment_point,
               crd_short_channel_id_alias = channel_ready_tlvs records\<rparr>, d))))))"

record Shutdown =
  sd_channel_id :: ChannelId
  sd_scriptpubkey :: bytes

definition Shutdown_write :: "Shutdown \<Rightarrow> bytes" where
  "Shutdown_write m =
     sd_channel_id m @ w_bytes_u16 (sd_scriptpubkey m)"

definition Shutdown_read :: "Shutdown wreader" where
  "Shutdown_read =
     pbind (r_array 32) (\<lambda>channel_id.
     pbind r_bytes_u16 (\<lambda>scriptpubkey.
     pret \<lparr>sd_channel_id = channel_id, sd_scriptpubkey = scriptpubkey\<rparr>))"

record ClosingSignedFeeRange =
  min_fee_satoshis :: u64
  max_fee_satoshis :: u64

record ClosingSigned =
  cs_channel_id :: ChannelId
  cs_fee_satoshis :: u64
  cs_signature :: Signature
  cs_fee_range :: "ClosingSignedFeeRange option"

definition ClosingSigned_write :: "ClosingSigned \<Rightarrow> bytes" where
  "ClosingSigned_write m =
     cs_channel_id m @ w_u64 (cs_fee_satoshis m) @ cs_signature m @
     (case cs_fee_range m of None \<Rightarrow> []
      | Some fr \<Rightarrow> write_record 1 (w_u64 (min_fee_satoshis fr) @ w_u64 (max_fee_satoshis fr)))"

primrec closing_signed_tlvs ::
  "TlvRecord list \<Rightarrow> ClosingSignedFeeRange option \<Rightarrow> (WireError, ClosingSignedFeeRange option) result" where
  "closing_signed_tlvs [] fee_range = Inr fee_range"
| "closing_signed_tlvs (rec # recs) fee_range =
     (if tlv_type rec = 1 \<and> length (tlv_value rec) = 16 then
        rbind (pbind r_u64 (\<lambda>mn. pbind r_u64 (\<lambda>mx.
                 pret \<lparr>min_fee_satoshis = mn, max_fee_satoshis = mx\<rparr>)) (tlv_value rec))
          (\<lambda>r. closing_signed_tlvs recs (Some (fst r)))
      else closing_signed_tlvs recs fee_range)"

definition ClosingSigned_read :: "('z) Secp_scheme \<Rightarrow> ClosingSigned wreader" where
  "ClosingSigned_read S =
     pbind (r_array 32) (\<lambda>channel_id.
     pbind r_u64 (\<lambda>fee_satoshis.
     pbind (r_signature S) (\<lambda>signature.
     pbind r_rest (\<lambda>rest d.
       rbind (parse_stream rest) (\<lambda>records.
       rbind (check_unknown_even records []) (\<lambda>_.
       rbind (closing_signed_tlvs records None) (\<lambda>fee_range.
         Inr (\<lparr>cs_channel_id = channel_id, cs_fee_satoshis = fee_satoshis, cs_signature = signature,
               cs_fee_range = fee_range\<rparr>, d))))))))"

section \<open>BOLT 2: updates, commitments, reestablish\<close>

record UpdateAddHtlc =
  uah_channel_id :: ChannelId
  uah_id :: u64
  uah_amount_msat :: Msat
  uah_payment_hash :: PaymentHash
  uah_cltv_expiry :: u32
  uah_onion_routing_packet :: bytes

definition UpdateAddHtlc_write :: "UpdateAddHtlc \<Rightarrow> bytes" where
  "UpdateAddHtlc_write m =
     uah_channel_id m @ w_u64 (uah_id m) @ w_u64 (uah_amount_msat m) @ uah_payment_hash m @
     w_u32 (uah_cltv_expiry m) @ uah_onion_routing_packet m"

definition UpdateAddHtlc_read :: "UpdateAddHtlc wreader" where
  "UpdateAddHtlc_read =
     pbind (r_array 32) (\<lambda>channel_id.
     pbind r_u64 (\<lambda>id.
     pbind r_u64 (\<lambda>amount_msat.
     pbind (r_array 32) (\<lambda>payment_hash.
     pbind r_u32 (\<lambda>cltv_expiry.
     pbind (r_take ONION_PACKET_LEN) (\<lambda>onion_routing_packet.
     pret \<lparr>uah_channel_id = channel_id, uah_id = id, uah_amount_msat = amount_msat,
              uah_payment_hash = payment_hash, uah_cltv_expiry = cltv_expiry,
              uah_onion_routing_packet = onion_routing_packet\<rparr>))))))"

record UpdateFulfillHtlc =
  ufh_channel_id :: ChannelId
  ufh_id :: u64
  ufh_payment_preimage :: PaymentPreimage

definition UpdateFulfillHtlc_write :: "UpdateFulfillHtlc \<Rightarrow> bytes" where
  "UpdateFulfillHtlc_write m =
     ufh_channel_id m @ w_u64 (ufh_id m) @ ufh_payment_preimage m"

definition UpdateFulfillHtlc_read :: "UpdateFulfillHtlc wreader" where
  "UpdateFulfillHtlc_read =
     pbind (r_array 32) (\<lambda>channel_id.
     pbind r_u64 (\<lambda>id.
     pbind (r_array 32) (\<lambda>payment_preimage.
     pret \<lparr>ufh_channel_id = channel_id, ufh_id = id, ufh_payment_preimage = payment_preimage\<rparr>)))"

record UpdateFailHtlc =
  ufl_channel_id :: ChannelId
  ufl_id :: u64
  ufl_reason :: bytes

definition UpdateFailHtlc_write :: "UpdateFailHtlc \<Rightarrow> bytes" where
  "UpdateFailHtlc_write m =
     ufl_channel_id m @ w_u64 (ufl_id m) @ w_bytes_u16 (ufl_reason m)"

definition UpdateFailHtlc_read :: "UpdateFailHtlc wreader" where
  "UpdateFailHtlc_read =
     pbind (r_array 32) (\<lambda>channel_id.
     pbind r_u64 (\<lambda>id.
     pbind r_bytes_u16 (\<lambda>reason.
     pret \<lparr>ufl_channel_id = channel_id, ufl_id = id, ufl_reason = reason\<rparr>)))"

record UpdateFailMalformedHtlc =
  ufm_channel_id :: ChannelId
  ufm_id :: u64
  ufm_sha256_of_onion :: bytes
  ufm_failure_code :: u16

definition UpdateFailMalformedHtlc_write :: "UpdateFailMalformedHtlc \<Rightarrow> bytes" where
  "UpdateFailMalformedHtlc_write m =
     ufm_channel_id m @ w_u64 (ufm_id m) @ ufm_sha256_of_onion m @ w_u16 (ufm_failure_code m)"

definition UpdateFailMalformedHtlc_read :: "UpdateFailMalformedHtlc wreader" where
  "UpdateFailMalformedHtlc_read =
     pbind (r_array 32) (\<lambda>channel_id.
     pbind r_u64 (\<lambda>id.
     pbind (r_array 32) (\<lambda>sha256_of_onion.
     pbind r_u16 (\<lambda>failure_code.
     pret \<lparr>ufm_channel_id = channel_id, ufm_id = id, ufm_sha256_of_onion = sha256_of_onion,
              ufm_failure_code = failure_code\<rparr>))))"

record CommitmentSigned =
  csg_channel_id :: ChannelId
  csg_signature :: Signature
  csg_htlc_signatures :: "Signature list"

definition CommitmentSigned_write :: "CommitmentSigned \<Rightarrow> bytes" where
  "CommitmentSigned_write m =
     csg_channel_id m @ csg_signature m @ w_u16 (of_nat (length (csg_htlc_signatures m))) @
     concat (csg_htlc_signatures m)"

definition CommitmentSigned_read :: "('z) Secp_scheme \<Rightarrow> CommitmentSigned wreader" where
  "CommitmentSigned_read S =
     pbind (r_array 32) (\<lambda>channel_id.
     pbind (r_signature S) (\<lambda>signature.
     pbind r_u16 (\<lambda>count.
     pbind (preplicate (unat count) (r_signature S)) (\<lambda>htlc_signatures.
     pret \<lparr>csg_channel_id = channel_id, csg_signature = signature,
           csg_htlc_signatures = htlc_signatures\<rparr>))))"

record RevokeAndAck =
  raa_channel_id :: ChannelId
  raa_per_commitment_secret :: bytes
  raa_next_per_commitment_point :: PublicKey

definition RevokeAndAck_write :: "RevokeAndAck \<Rightarrow> bytes" where
  "RevokeAndAck_write m =
     raa_channel_id m @ raa_per_commitment_secret m @ raa_next_per_commitment_point m"

definition RevokeAndAck_read :: "('z) Secp_scheme \<Rightarrow> RevokeAndAck wreader" where
  "RevokeAndAck_read S =
     pbind (r_array 32) (\<lambda>channel_id.
     pbind (r_array 32) (\<lambda>per_commitment_secret.
     pbind (r_pubkey S) (\<lambda>next_per_commitment_point.
     pret \<lparr>raa_channel_id = channel_id, raa_per_commitment_secret = per_commitment_secret,
              raa_next_per_commitment_point = next_per_commitment_point\<rparr>)))"

record UpdateFee =
  uf_channel_id :: ChannelId
  uf_feerate_per_kw :: u32

definition UpdateFee_write :: "UpdateFee \<Rightarrow> bytes" where
  "UpdateFee_write m =
     uf_channel_id m @ w_u32 (uf_feerate_per_kw m)"

definition UpdateFee_read :: "UpdateFee wreader" where
  "UpdateFee_read =
     pbind (r_array 32) (\<lambda>channel_id.
     pbind r_u32 (\<lambda>feerate_per_kw.
     pret \<lparr>uf_channel_id = channel_id, uf_feerate_per_kw = feerate_per_kw\<rparr>))"

record ChannelReestablish =
  cre_channel_id :: ChannelId
  cre_next_commitment_number :: u64
  cre_next_revocation_number :: u64
  cre_your_last_per_commitment_secret :: bytes
  cre_my_current_per_commitment_point :: PublicKey

definition ChannelReestablish_write :: "ChannelReestablish \<Rightarrow> bytes" where
  "ChannelReestablish_write m =
     cre_channel_id m @ w_u64 (cre_next_commitment_number m) @
     w_u64 (cre_next_revocation_number m) @ cre_your_last_per_commitment_secret m @
     cre_my_current_per_commitment_point m"

definition ChannelReestablish_read :: "('z) Secp_scheme \<Rightarrow> ChannelReestablish wreader" where
  "ChannelReestablish_read S =
     pbind (r_array 32) (\<lambda>channel_id.
     pbind r_u64 (\<lambda>next_commitment_number.
     pbind r_u64 (\<lambda>next_revocation_number.
     pbind (r_array 32) (\<lambda>your_last_per_commitment_secret.
     pbind (r_pubkey S) (\<lambda>my_current_per_commitment_point.
     pret \<lparr>cre_channel_id = channel_id, cre_next_commitment_number = next_commitment_number,
              cre_next_revocation_number = next_revocation_number,
              cre_your_last_per_commitment_secret = your_last_per_commitment_secret,
              cre_my_current_per_commitment_point = my_current_per_commitment_point\<rparr>)))))"

record AnnouncementSignatures =
  ans_channel_id :: ChannelId
  ans_short_channel_id :: ShortChannelId
  ans_node_signature :: Signature
  ans_bitcoin_signature :: Signature

definition AnnouncementSignatures_write :: "AnnouncementSignatures \<Rightarrow> bytes" where
  "AnnouncementSignatures_write m =
     ans_channel_id m @ w_u64 (ans_short_channel_id m) @ ans_node_signature m @
     ans_bitcoin_signature m"

definition AnnouncementSignatures_read :: "('z) Secp_scheme \<Rightarrow> AnnouncementSignatures wreader" where
  "AnnouncementSignatures_read S =
     pbind (r_array 32) (\<lambda>channel_id.
     pbind r_u64 (\<lambda>short_channel_id.
     pbind (r_signature S) (\<lambda>node_signature.
     pbind (r_signature S) (\<lambda>bitcoin_signature.
     pret \<lparr>ans_channel_id = channel_id, ans_short_channel_id = short_channel_id,
              ans_node_signature = node_signature, ans_bitcoin_signature = bitcoin_signature\<rparr>))))"

section \<open>BOLT 7: gossip\<close>

record ChannelAnnouncement =
  ca_node_signature_1 :: Signature
  ca_node_signature_2 :: Signature
  ca_bitcoin_signature_1 :: Signature
  ca_bitcoin_signature_2 :: Signature
  ca_features :: Features
  ca_chain_hash :: bytes
  ca_short_channel_id :: ShortChannelId
  ca_node_id_1 :: PublicKey
  ca_node_id_2 :: PublicKey
  ca_bitcoin_key_1 :: PublicKey
  ca_bitcoin_key_2 :: PublicKey

definition ca_signed_payload :: "ChannelAnnouncement \<Rightarrow> bytes" where
  "ca_signed_payload m =
     w_bytes_u16 (ca_features m) @ ca_chain_hash m @ w_u64 (ca_short_channel_id m) @
     ca_node_id_1 m @ ca_node_id_2 m @ ca_bitcoin_key_1 m @ ca_bitcoin_key_2 m"

definition ChannelAnnouncement_write :: "ChannelAnnouncement \<Rightarrow> bytes" where
  "ChannelAnnouncement_write m =
     ca_node_signature_1 m @ ca_node_signature_2 m @ ca_bitcoin_signature_1 m @
     ca_bitcoin_signature_2 m @ ca_signed_payload m"

definition ChannelAnnouncement_read :: "('z) Secp_scheme \<Rightarrow> ChannelAnnouncement wreader" where
  "ChannelAnnouncement_read S =
     pbind (r_signature S) (\<lambda>node_signature_1.
     pbind (r_signature S) (\<lambda>node_signature_2.
     pbind (r_signature S) (\<lambda>bitcoin_signature_1.
     pbind (r_signature S) (\<lambda>bitcoin_signature_2.
     pbind r_bytes_u16 (\<lambda>features.
     pbind (r_array 32) (\<lambda>chain_hash.
     pbind r_u64 (\<lambda>short_channel_id.
     pbind (r_pubkey S) (\<lambda>node_id_1.
     pbind (r_pubkey S) (\<lambda>node_id_2.
     pbind (r_pubkey S) (\<lambda>bitcoin_key_1.
     pbind (r_pubkey S) (\<lambda>bitcoin_key_2.
     pret \<lparr>ca_node_signature_1 = node_signature_1, ca_node_signature_2 = node_signature_2,
           ca_bitcoin_signature_1 = bitcoin_signature_1, ca_bitcoin_signature_2 = bitcoin_signature_2,
           ca_features = features, ca_chain_hash = chain_hash, ca_short_channel_id = short_channel_id,
           ca_node_id_1 = node_id_1, ca_node_id_2 = node_id_2, ca_bitcoin_key_1 = bitcoin_key_1,
           ca_bitcoin_key_2 = bitcoin_key_2\<rparr>)))))))))))"

datatype NetAddress =
  V4 (v4_addr: bytes) (v4_port: u16)
| V6 (v6_addr: bytes) (v6_port: u16)
| TorV3 (tor_ed25519_pubkey: bytes) (tor_checksum: u16) (tor_version: u8) (tor_port: u16)
| Hostname (hn_hostname: bytes) (hn_port: u16)

record NodeAnnouncement =
  na_signature :: Signature
  na_features :: Features
  na_timestamp :: u32
  na_node_id :: PublicKey
  na_rgb_color :: bytes
  na_alias :: bytes
  na_addresses :: "NetAddress list"

definition address_write :: "NetAddress \<Rightarrow> bytes" where
  "address_write a =
     (case a of
        V4 addr port \<Rightarrow> w_u8 1 @ addr @ w_u16 port
      | V6 addr port \<Rightarrow> w_u8 2 @ addr @ w_u16 port
      | TorV3 ed25519_pubkey checksum version port \<Rightarrow>
          w_u8 4 @ ed25519_pubkey @ w_u16 checksum @ w_u8 version @ w_u16 port
      | Hostname hostname port \<Rightarrow>
          w_u8 5 @ w_u8 (of_nat (length hostname)) @ hostname @ w_u16 port)"

definition na_write_after_sig :: "NodeAnnouncement \<Rightarrow> bytes" where
  "na_write_after_sig m =
     w_bytes_u16 (na_features m) @ w_u32 (na_timestamp m) @ na_node_id m @ na_rgb_color m @
     na_alias m @ w_bytes_u16 (concat (map address_write (na_addresses m)))"

text \<open>One iteration of the address loop: \<open>None\<close> is the \<^verbatim>\<open>break\<close> at an unknown descriptor, an empty
  list the skipped Tor v2 address.\<close>

definition address_read :: "NetAddress list option wreader" where
  "address_read =
     pbind r_u8 (\<lambda>t.
       if t = 1 then
         pbind (r_array 4) (\<lambda>addr. pbind r_u16 (\<lambda>port. pret (Some [V4 addr port])))
       else if t = 2 then
         pbind (r_array 16) (\<lambda>addr. pbind r_u16 (\<lambda>port. pret (Some [V6 addr port])))
       else if t = 3 then pbind (r_take 12) (\<lambda>_. pret (Some []))
       else if t = 4 then
         pbind (r_array 32) (\<lambda>ed25519_pubkey. pbind r_u16 (\<lambda>checksum. pbind r_u8 (\<lambda>version.
           pbind r_u16 (\<lambda>port. pret (Some [TorV3 ed25519_pubkey checksum version port])))))
       else if t = 5 then
         pbind r_u8 (\<lambda>len. pbind (r_take (unat len)) (\<lambda>hostname.
           pbind r_u16 (\<lambda>port. pret (Some [Hostname hostname port]))))
       else pret None)"

lemma address_read_shorter: "address_read d = Inr (x, d') \<Longrightarrow> length d' < length d"
  by (auto simp: address_read_def pbind_eq_Inr pret_apply r_u8_iff r_u16_iff r_take_iff r_array_def w_u8_def
      split: if_splits)

function read_addresses :: "bytes \<Rightarrow> (WireError, NetAddress list) result" where
  "read_addresses d =
     (if d = [] then Inr []
      else case address_read d of
        Inl e \<Rightarrow> Inl e
      | Inr (None, d') \<Rightarrow> Inr []
      | Inr (Some a, d') \<Rightarrow> rbind (read_addresses d') (\<lambda>rest. Inr (a @ rest)))"
  by pat_completeness auto
termination
  by (relation "measure length") (auto dest: address_read_shorter)

declare read_addresses.simps [simp del]

definition NodeAnnouncement_read :: "('z) Secp_scheme \<Rightarrow> NodeAnnouncement wreader" where
  "NodeAnnouncement_read S =
     pbind (r_signature S) (\<lambda>signature.
     pbind r_bytes_u16 (\<lambda>features.
     pbind r_u32 (\<lambda>timestamp.
     pbind (r_pubkey S) (\<lambda>node_id.
     pbind (r_array 3) (\<lambda>rgb_color.
     pbind (r_array 32) (\<lambda>alias.
     pbind r_bytes_u16 (\<lambda>addr_bytes d.
       rbind (read_addresses addr_bytes) (\<lambda>addresses.
         Inr (\<lparr>na_signature = signature, na_features = features, na_timestamp = timestamp,
               na_node_id = node_id, na_rgb_color = rgb_color, na_alias = alias,
               na_addresses = addresses\<rparr>, d)))))))))"

record ChannelUpdate =
  cu_signature :: Signature
  cu_chain_hash :: bytes
  cu_short_channel_id :: ShortChannelId
  cu_timestamp :: u32
  cu_message_flags :: u8
  cu_channel_flags :: u8
  cu_cltv_expiry_delta :: u16
  cu_htlc_minimum_msat :: Msat
  cu_fee_base_msat :: u32
  cu_fee_proportional_millionths :: u32
  cu_htlc_maximum_msat :: Msat

definition cu_direction :: "ChannelUpdate \<Rightarrow> u8" where
  "cu_direction m = cu_channel_flags m AND 1"

definition cu_is_disabled :: "ChannelUpdate \<Rightarrow> bool" where
  "cu_is_disabled m = (cu_channel_flags m AND 2 \<noteq> 0)"

definition cu_write_after_sig :: "ChannelUpdate \<Rightarrow> bytes" where
  "cu_write_after_sig m =
     cu_chain_hash m @ w_u64 (cu_short_channel_id m) @ w_u32 (cu_timestamp m) @
     w_u8 (cu_message_flags m) @ w_u8 (cu_channel_flags m) @ w_u16 (cu_cltv_expiry_delta m) @
     w_u64 (cu_htlc_minimum_msat m) @ w_u32 (cu_fee_base_msat m) @
     w_u32 (cu_fee_proportional_millionths m) @ w_u64 (cu_htlc_maximum_msat m)"

definition ChannelUpdate_read :: "('z) Secp_scheme \<Rightarrow> ChannelUpdate wreader" where
  "ChannelUpdate_read S =
     pbind (r_signature S) (\<lambda>signature.
     pbind (r_array 32) (\<lambda>chain_hash.
     pbind r_u64 (\<lambda>short_channel_id.
     pbind r_u32 (\<lambda>timestamp.
     pbind r_u8 (\<lambda>message_flags.
     pbind r_u8 (\<lambda>channel_flags.
     pbind r_u16 (\<lambda>cltv_expiry_delta.
     pbind r_u64 (\<lambda>htlc_minimum_msat.
     pbind r_u32 (\<lambda>fee_base_msat.
     pbind r_u32 (\<lambda>fee_proportional_millionths.
     pbind r_u64 (\<lambda>htlc_maximum_msat.
     pret \<lparr>cu_signature = signature, cu_chain_hash = chain_hash,
              cu_short_channel_id = short_channel_id, cu_timestamp = timestamp,
              cu_message_flags = message_flags, cu_channel_flags = channel_flags,
              cu_cltv_expiry_delta = cltv_expiry_delta,
              cu_htlc_minimum_msat = htlc_minimum_msat, cu_fee_base_msat = fee_base_msat,
              cu_fee_proportional_millionths = fee_proportional_millionths,
              cu_htlc_maximum_msat = htlc_maximum_msat\<rparr>)))))))))))"

record GossipTimestampFilter =
  gtf_chain_hash :: bytes
  gtf_first_timestamp :: u32
  gtf_timestamp_range :: u32

definition GossipTimestampFilter_write :: "GossipTimestampFilter \<Rightarrow> bytes" where
  "GossipTimestampFilter_write m =
     gtf_chain_hash m @ w_u32 (gtf_first_timestamp m) @ w_u32 (gtf_timestamp_range m)"

definition GossipTimestampFilter_read :: "GossipTimestampFilter wreader" where
  "GossipTimestampFilter_read =
     pbind (r_array 32) (\<lambda>chain_hash.
     pbind r_u32 (\<lambda>first_timestamp.
     pbind r_u32 (\<lambda>timestamp_range.
     pret \<lparr>gtf_chain_hash = chain_hash, gtf_first_timestamp = first_timestamp,
              gtf_timestamp_range = timestamp_range\<rparr>)))"

section \<open>Dispatch\<close>

datatype Message =
  M_Warning WarningMsg
| M_Init Init
| M_Error ErrorMsg
| M_Ping Ping
| M_Pong Pong
| M_OpenChannel OpenChannel
| M_AcceptChannel AcceptChannel
| M_FundingCreated FundingCreated
| M_FundingSigned FundingSigned
| M_ChannelReady ChannelReady
| M_Shutdown Shutdown
| M_ClosingSigned ClosingSigned
| M_UpdateAddHtlc UpdateAddHtlc
| M_UpdateFulfillHtlc UpdateFulfillHtlc
| M_UpdateFailHtlc UpdateFailHtlc
| M_UpdateFailMalformedHtlc UpdateFailMalformedHtlc
| M_CommitmentSigned CommitmentSigned
| M_RevokeAndAck RevokeAndAck
| M_UpdateFee UpdateFee
| M_ChannelReestablish ChannelReestablish
| M_AnnouncementSignatures AnnouncementSignatures
| M_ChannelAnnouncement ChannelAnnouncement
| M_NodeAnnouncement NodeAnnouncement
| M_ChannelUpdate ChannelUpdate
| M_GossipTimestampFilter GossipTimestampFilter
| M_Unknown u16 bytes

definition msg_type :: "Message \<Rightarrow> u16" where
  "msg_type msg =
     (case msg of
        M_Warning m \<Rightarrow> WARNING
      | M_Init m \<Rightarrow> INIT
      | M_Error m \<Rightarrow> ERROR
      | M_Ping m \<Rightarrow> PING
      | M_Pong m \<Rightarrow> PONG
      | M_OpenChannel m \<Rightarrow> OPEN_CHANNEL
      | M_AcceptChannel m \<Rightarrow> ACCEPT_CHANNEL
      | M_FundingCreated m \<Rightarrow> FUNDING_CREATED
      | M_FundingSigned m \<Rightarrow> FUNDING_SIGNED
      | M_ChannelReady m \<Rightarrow> CHANNEL_READY
      | M_Shutdown m \<Rightarrow> SHUTDOWN
      | M_ClosingSigned m \<Rightarrow> CLOSING_SIGNED
      | M_UpdateAddHtlc m \<Rightarrow> UPDATE_ADD_HTLC
      | M_UpdateFulfillHtlc m \<Rightarrow> UPDATE_FULFILL_HTLC
      | M_UpdateFailHtlc m \<Rightarrow> UPDATE_FAIL_HTLC
      | M_UpdateFailMalformedHtlc m \<Rightarrow> UPDATE_FAIL_MALFORMED_HTLC
      | M_CommitmentSigned m \<Rightarrow> COMMITMENT_SIGNED
      | M_RevokeAndAck m \<Rightarrow> REVOKE_AND_ACK
      | M_UpdateFee m \<Rightarrow> UPDATE_FEE
      | M_ChannelReestablish m \<Rightarrow> CHANNEL_REESTABLISH
      | M_AnnouncementSignatures m \<Rightarrow> ANNOUNCEMENT_SIGNATURES
      | M_ChannelAnnouncement m \<Rightarrow> CHANNEL_ANNOUNCEMENT
      | M_NodeAnnouncement m \<Rightarrow> NODE_ANNOUNCEMENT
      | M_ChannelUpdate m \<Rightarrow> CHANNEL_UPDATE
      | M_GossipTimestampFilter m \<Rightarrow> GOSSIP_TIMESTAMP_FILTER
      | M_Unknown t payload \<Rightarrow> t)"

definition Message_encode :: "Message \<Rightarrow> bytes" where
  "Message_encode msg =
     w_u16 (msg_type msg) @
     (case msg of
        M_Warning m \<Rightarrow> WarningMsg_write m
      | M_Init m \<Rightarrow> Init_write m
      | M_Error m \<Rightarrow> ErrorMsg_write m
      | M_Ping m \<Rightarrow> Ping_write m
      | M_Pong m \<Rightarrow> Pong_write m
      | M_OpenChannel m \<Rightarrow> OpenChannel_write m
      | M_AcceptChannel m \<Rightarrow> AcceptChannel_write m
      | M_FundingCreated m \<Rightarrow> FundingCreated_write m
      | M_FundingSigned m \<Rightarrow> FundingSigned_write m
      | M_ChannelReady m \<Rightarrow> ChannelReady_write m
      | M_Shutdown m \<Rightarrow> Shutdown_write m
      | M_ClosingSigned m \<Rightarrow> ClosingSigned_write m
      | M_UpdateAddHtlc m \<Rightarrow> UpdateAddHtlc_write m
      | M_UpdateFulfillHtlc m \<Rightarrow> UpdateFulfillHtlc_write m
      | M_UpdateFailHtlc m \<Rightarrow> UpdateFailHtlc_write m
      | M_UpdateFailMalformedHtlc m \<Rightarrow> UpdateFailMalformedHtlc_write m
      | M_CommitmentSigned m \<Rightarrow> CommitmentSigned_write m
      | M_RevokeAndAck m \<Rightarrow> RevokeAndAck_write m
      | M_UpdateFee m \<Rightarrow> UpdateFee_write m
      | M_ChannelReestablish m \<Rightarrow> ChannelReestablish_write m
      | M_AnnouncementSignatures m \<Rightarrow> AnnouncementSignatures_write m
      | M_ChannelAnnouncement m \<Rightarrow> ChannelAnnouncement_write m
      | M_NodeAnnouncement m \<Rightarrow> na_signature m @ na_write_after_sig m
      | M_ChannelUpdate m \<Rightarrow> cu_signature m @ cu_write_after_sig m
      | M_GossipTimestampFilter m \<Rightarrow> GossipTimestampFilter_write m
      | M_Unknown t payload \<Rightarrow> payload)"

definition decode_body :: "('z) Secp_scheme \<Rightarrow> u16 \<Rightarrow> Message wreader" where
  "decode_body S t =
     (if t = WARNING then pbind WarningMsg_read (\<lambda>m. pret (M_Warning m))
      else if t = INIT then pbind Init_read (\<lambda>m. pret (M_Init m))
      else if t = ERROR then pbind ErrorMsg_read (\<lambda>m. pret (M_Error m))
      else if t = PING then pbind Ping_read (\<lambda>m. pret (M_Ping m))
      else if t = PONG then pbind Pong_read (\<lambda>m. pret (M_Pong m))
      else if t = OPEN_CHANNEL then pbind (OpenChannel_read S) (\<lambda>m. pret (M_OpenChannel m))
      else if t = ACCEPT_CHANNEL then pbind (AcceptChannel_read S) (\<lambda>m. pret (M_AcceptChannel m))
      else if t = FUNDING_CREATED then pbind (FundingCreated_read S) (\<lambda>m. pret (M_FundingCreated m))
      else if t = FUNDING_SIGNED then pbind (FundingSigned_read S) (\<lambda>m. pret (M_FundingSigned m))
      else if t = CHANNEL_READY then pbind (ChannelReady_read S) (\<lambda>m. pret (M_ChannelReady m))
      else if t = SHUTDOWN then pbind Shutdown_read (\<lambda>m. pret (M_Shutdown m))
      else if t = CLOSING_SIGNED then pbind (ClosingSigned_read S) (\<lambda>m. pret (M_ClosingSigned m))
      else if t = UPDATE_ADD_HTLC then pbind UpdateAddHtlc_read (\<lambda>m. pret (M_UpdateAddHtlc m))
      else if t = UPDATE_FULFILL_HTLC then pbind UpdateFulfillHtlc_read (\<lambda>m. pret (M_UpdateFulfillHtlc m))
      else if t = UPDATE_FAIL_HTLC then pbind UpdateFailHtlc_read (\<lambda>m. pret (M_UpdateFailHtlc m))
      else if t = UPDATE_FAIL_MALFORMED_HTLC then pbind UpdateFailMalformedHtlc_read (\<lambda>m. pret (M_UpdateFailMalformedHtlc m))
      else if t = COMMITMENT_SIGNED then pbind (CommitmentSigned_read S) (\<lambda>m. pret (M_CommitmentSigned m))
      else if t = REVOKE_AND_ACK then pbind (RevokeAndAck_read S) (\<lambda>m. pret (M_RevokeAndAck m))
      else if t = UPDATE_FEE then pbind UpdateFee_read (\<lambda>m. pret (M_UpdateFee m))
      else if t = CHANNEL_REESTABLISH then pbind (ChannelReestablish_read S) (\<lambda>m. pret (M_ChannelReestablish m))
      else if t = ANNOUNCEMENT_SIGNATURES then pbind (AnnouncementSignatures_read S) (\<lambda>m. pret (M_AnnouncementSignatures m))
      else if t = CHANNEL_ANNOUNCEMENT then pbind (ChannelAnnouncement_read S) (\<lambda>m. pret (M_ChannelAnnouncement m))
      else if t = NODE_ANNOUNCEMENT then pbind (NodeAnnouncement_read S) (\<lambda>m. pret (M_NodeAnnouncement m))
      else if t = CHANNEL_UPDATE then pbind (ChannelUpdate_read S) (\<lambda>m. pret (M_ChannelUpdate m))
      else if t = GOSSIP_TIMESTAMP_FILTER then pbind GossipTimestampFilter_read (\<lambda>m. pret (M_GossipTimestampFilter m))
      else if t mod 2 = 1 then pbind r_rest (\<lambda>payload. pret (M_Unknown t payload))
      else pfail (UnknownMessageType t))"

definition Message_decode :: "('z) Secp_scheme \<Rightarrow> bytes \<Rightarrow> (WireError, Message) result" where
  "Message_decode S data =
     rbind (pbind r_u16 (\<lambda>t. decode_body S t) data) (\<lambda>r. Inr (fst r))"

end
