(* ===== verification/Wire_Roundtrip.thy ===== *)
theory Wire_Roundtrip
  imports Wire_Msgs
begin

text \<open>
  Every message of \<^verbatim>\<open>src/src/wire/msgs.rs\<close> decodes from its own encoding. The messages without a
  TLV extension are self-delimiting codecs; those with one consume the rest of the frame, so
  their round trip is stated for the exact frame.
\<close>

section \<open>Well-formed messages\<close>

text \<open>What the Rust types guarantee of a message value: arrays have their length, public keys and
  signatures are values of the library, and the length-prefixed fields fit their prefix.
\<close>

definition WarningMsg_wf :: "WarningMsg \<Rightarrow> bool" where
  "WarningMsg_wf m \<longleftrightarrow>
     length (wm_channel_id m) = 32 \<and> length (wm_data m) < 2 ^ 16"

definition ErrorMsg_wf :: "ErrorMsg \<Rightarrow> bool" where
  "ErrorMsg_wf m \<longleftrightarrow>
     length (em_channel_id m) = 32 \<and> length (em_data m) < 2 ^ 16"

definition Ping_wf :: "Ping \<Rightarrow> bool" where
  "Ping_wf m \<longleftrightarrow>
     length (ping_ignored m) < 2 ^ 16"

definition Pong_wf :: "Pong \<Rightarrow> bool" where
  "Pong_wf m \<longleftrightarrow>
     length (pong_ignored m) < 2 ^ 16"

definition FundingCreated_wf :: "('z) Secp_scheme \<Rightarrow> FundingCreated \<Rightarrow> bool" where
  "FundingCreated_wf S m \<longleftrightarrow>
     length (fcr_temporary_channel_id m) = 32 \<and> length (fcr_funding_txid m) = 32 \<and>
     sig_wf S (fcr_signature m)"

definition FundingSigned_wf :: "('z) Secp_scheme \<Rightarrow> FundingSigned \<Rightarrow> bool" where
  "FundingSigned_wf S m \<longleftrightarrow>
     length (fsg_channel_id m) = 32 \<and> sig_wf S (fsg_signature m)"

definition Shutdown_wf :: "Shutdown \<Rightarrow> bool" where
  "Shutdown_wf m \<longleftrightarrow>
     length (sd_channel_id m) = 32 \<and> length (sd_scriptpubkey m) < 2 ^ 16"

definition UpdateAddHtlc_wf :: "UpdateAddHtlc \<Rightarrow> bool" where
  "UpdateAddHtlc_wf m \<longleftrightarrow>
     length (uah_channel_id m) = 32 \<and> length (uah_payment_hash m) = 32 \<and>
     length (uah_onion_routing_packet m) = ONION_PACKET_LEN"

definition UpdateFulfillHtlc_wf :: "UpdateFulfillHtlc \<Rightarrow> bool" where
  "UpdateFulfillHtlc_wf m \<longleftrightarrow>
     length (ufh_channel_id m) = 32 \<and> length (ufh_payment_preimage m) = 32"

definition UpdateFailHtlc_wf :: "UpdateFailHtlc \<Rightarrow> bool" where
  "UpdateFailHtlc_wf m \<longleftrightarrow>
     length (ufl_channel_id m) = 32 \<and> length (ufl_reason m) < 2 ^ 16"

definition UpdateFailMalformedHtlc_wf :: "UpdateFailMalformedHtlc \<Rightarrow> bool" where
  "UpdateFailMalformedHtlc_wf m \<longleftrightarrow>
     length (ufm_channel_id m) = 32 \<and> length (ufm_sha256_of_onion m) = 32"

definition RevokeAndAck_wf :: "('z) Secp_scheme \<Rightarrow> RevokeAndAck \<Rightarrow> bool" where
  "RevokeAndAck_wf S m \<longleftrightarrow>
     length (raa_channel_id m) = 32 \<and> length (raa_per_commitment_secret m) = 32 \<and>
     pubkey_wf S (raa_next_per_commitment_point m)"

definition UpdateFee_wf :: "UpdateFee \<Rightarrow> bool" where
  "UpdateFee_wf m \<longleftrightarrow>
     length (uf_channel_id m) = 32"

definition ChannelReestablish_wf :: "('z) Secp_scheme \<Rightarrow> ChannelReestablish \<Rightarrow> bool" where
  "ChannelReestablish_wf S m \<longleftrightarrow>
     length (cre_channel_id m) = 32 \<and>
     length (cre_your_last_per_commitment_secret m) = 32 \<and>
     pubkey_wf S (cre_my_current_per_commitment_point m)"

definition AnnouncementSignatures_wf :: "('z) Secp_scheme \<Rightarrow> AnnouncementSignatures \<Rightarrow> bool" where
  "AnnouncementSignatures_wf S m \<longleftrightarrow>
     length (ans_channel_id m) = 32 \<and> sig_wf S (ans_node_signature m) \<and>
     sig_wf S (ans_bitcoin_signature m)"

definition ChannelUpdate_wf :: "('z) Secp_scheme \<Rightarrow> ChannelUpdate \<Rightarrow> bool" where
  "ChannelUpdate_wf S m \<longleftrightarrow>
     sig_wf S (cu_signature m) \<and> length (cu_chain_hash m) = 32"

definition GossipTimestampFilter_wf :: "GossipTimestampFilter \<Rightarrow> bool" where
  "GossipTimestampFilter_wf m \<longleftrightarrow>
     length (gtf_chain_hash m) = 32"

definition Init_wf :: "Init \<Rightarrow> bool" where
  "Init_wf m \<longleftrightarrow> length (in_global_features m) < 2 ^ 16 \<and> length (in_features m) < 2 ^ 16
     \<and> (case in_networks m of None \<Rightarrow> True
        | Some nets \<Rightarrow> list_all (\<lambda>n. length n = 32) nets \<and> length (concat nets) < 2 ^ 64)"

definition ChannelBasepoints_wf :: "('z) Secp_scheme \<Rightarrow> ChannelBasepoints \<Rightarrow> bool" where
  "ChannelBasepoints_wf S b \<longleftrightarrow> pubkey_wf S (bp_funding_pubkey b) \<and> pubkey_wf S (bp_revocation b)
     \<and> pubkey_wf S (bp_payment b) \<and> pubkey_wf S (bp_delayed_payment b) \<and> pubkey_wf S (bp_htlc b)"

definition opt_len :: "bytes option \<Rightarrow> bool" where
  "opt_len b \<longleftrightarrow> (case b of None \<Rightarrow> True | Some s \<Rightarrow> length s < 2 ^ 64)"

definition OpenChannel_wf :: "('z) Secp_scheme \<Rightarrow> OpenChannel \<Rightarrow> bool" where
  "OpenChannel_wf S m \<longleftrightarrow> length (oc_chain_hash m) = 32 \<and> length (oc_temporary_channel_id m) = 32
     \<and> ChannelBasepoints_wf S (oc_basepoints m) \<and> pubkey_wf S (oc_first_per_commitment_point m)
     \<and> opt_len (oc_upfront_shutdown_script m) \<and> opt_len (oc_channel_type m)"

definition AcceptChannel_wf :: "('z) Secp_scheme \<Rightarrow> AcceptChannel \<Rightarrow> bool" where
  "AcceptChannel_wf S m \<longleftrightarrow> length (ac_temporary_channel_id m) = 32
     \<and> ChannelBasepoints_wf S (ac_basepoints m) \<and> pubkey_wf S (ac_first_per_commitment_point m)
     \<and> opt_len (ac_upfront_shutdown_script m) \<and> opt_len (ac_channel_type m)"

definition ChannelReady_wf :: "('z) Secp_scheme \<Rightarrow> ChannelReady \<Rightarrow> bool" where
  "ChannelReady_wf S m \<longleftrightarrow> length (crd_channel_id m) = 32 \<and> pubkey_wf S (crd_second_per_commitment_point m)"

definition ClosingSigned_wf :: "('z) Secp_scheme \<Rightarrow> ClosingSigned \<Rightarrow> bool" where
  "ClosingSigned_wf S m \<longleftrightarrow> length (cs_channel_id m) = 32 \<and> sig_wf S (cs_signature m)"

definition CommitmentSigned_wf :: "('z) Secp_scheme \<Rightarrow> CommitmentSigned \<Rightarrow> bool" where
  "CommitmentSigned_wf S m \<longleftrightarrow> length (csg_channel_id m) = 32 \<and> sig_wf S (csg_signature m)
     \<and> list_all (sig_wf S) (csg_htlc_signatures m) \<and> length (csg_htlc_signatures m) < 2 ^ 16"

definition ChannelAnnouncement_wf :: "('z) Secp_scheme \<Rightarrow> ChannelAnnouncement \<Rightarrow> bool" where
  "ChannelAnnouncement_wf S m \<longleftrightarrow> sig_wf S (ca_node_signature_1 m) \<and> sig_wf S (ca_node_signature_2 m)
     \<and> sig_wf S (ca_bitcoin_signature_1 m) \<and> sig_wf S (ca_bitcoin_signature_2 m)
     \<and> length (ca_features m) < 2 ^ 16 \<and> length (ca_chain_hash m) = 32
     \<and> pubkey_wf S (ca_node_id_1 m) \<and> pubkey_wf S (ca_node_id_2 m)
     \<and> pubkey_wf S (ca_bitcoin_key_1 m) \<and> pubkey_wf S (ca_bitcoin_key_2 m)"

definition address_wf :: "NetAddress \<Rightarrow> bool" where
  "address_wf a \<longleftrightarrow>
     (case a of V4 addr port \<Rightarrow> length addr = 4 | V6 addr port \<Rightarrow> length addr = 16
      | TorV3 pk checksum version port \<Rightarrow> length pk = 32
      | Hostname hostname port \<Rightarrow> length hostname < 256)"

definition NodeAnnouncement_wf :: "('z) Secp_scheme \<Rightarrow> NodeAnnouncement \<Rightarrow> bool" where
  "NodeAnnouncement_wf S m \<longleftrightarrow> sig_wf S (na_signature m) \<and> length (na_features m) < 2 ^ 16
     \<and> pubkey_wf S (na_node_id m) \<and> length (na_rgb_color m) = 3 \<and> length (na_alias m) = 32
     \<and> list_all address_wf (na_addresses m)
     \<and> length (concat (map address_write (na_addresses m))) < 2 ^ 16"

definition known_types :: "u16 list" where
  "known_types = [WARNING, INIT, ERROR, PING, PONG,
     OPEN_CHANNEL, ACCEPT_CHANNEL, FUNDING_CREATED, FUNDING_SIGNED, CHANNEL_READY, SHUTDOWN,
     CLOSING_SIGNED, UPDATE_ADD_HTLC, UPDATE_FULFILL_HTLC, UPDATE_FAIL_HTLC, UPDATE_FAIL_MALFORMED_HTLC, COMMITMENT_SIGNED,
     REVOKE_AND_ACK, UPDATE_FEE, CHANNEL_REESTABLISH, ANNOUNCEMENT_SIGNATURES,
     CHANNEL_ANNOUNCEMENT, NODE_ANNOUNCEMENT, CHANNEL_UPDATE, GOSSIP_TIMESTAMP_FILTER]"

definition Message_wf :: "('z) Secp_scheme \<Rightarrow> Message \<Rightarrow> bool" where
  "Message_wf S msg \<longleftrightarrow>
     (case msg of
        M_Warning m \<Rightarrow> WarningMsg_wf m
      | M_Init m \<Rightarrow> Init_wf m
      | M_Error m \<Rightarrow> ErrorMsg_wf m
      | M_Ping m \<Rightarrow> Ping_wf m
      | M_Pong m \<Rightarrow> Pong_wf m
      | M_OpenChannel m \<Rightarrow> OpenChannel_wf S m
      | M_AcceptChannel m \<Rightarrow> AcceptChannel_wf S m
      | M_FundingCreated m \<Rightarrow> FundingCreated_wf S m
      | M_FundingSigned m \<Rightarrow> FundingSigned_wf S m
      | M_ChannelReady m \<Rightarrow> ChannelReady_wf S m
      | M_Shutdown m \<Rightarrow> Shutdown_wf m
      | M_ClosingSigned m \<Rightarrow> ClosingSigned_wf S m
      | M_UpdateAddHtlc m \<Rightarrow> UpdateAddHtlc_wf m
      | M_UpdateFulfillHtlc m \<Rightarrow> UpdateFulfillHtlc_wf m
      | M_UpdateFailHtlc m \<Rightarrow> UpdateFailHtlc_wf m
      | M_UpdateFailMalformedHtlc m \<Rightarrow> UpdateFailMalformedHtlc_wf m
      | M_CommitmentSigned m \<Rightarrow> CommitmentSigned_wf S m
      | M_RevokeAndAck m \<Rightarrow> RevokeAndAck_wf S m
      | M_UpdateFee m \<Rightarrow> UpdateFee_wf m
      | M_ChannelReestablish m \<Rightarrow> ChannelReestablish_wf S m
      | M_AnnouncementSignatures m \<Rightarrow> AnnouncementSignatures_wf S m
      | M_ChannelAnnouncement m \<Rightarrow> ChannelAnnouncement_wf S m
      | M_NodeAnnouncement m \<Rightarrow> NodeAnnouncement_wf S m
      | M_ChannelUpdate m \<Rightarrow> ChannelUpdate_wf S m
      | M_GossipTimestampFilter m \<Rightarrow> GossipTimestampFilter_wf m
      | M_Unknown t payload \<Rightarrow> t mod 2 = 1 \<and> t \<notin> set known_types)"

section \<open>Codecs\<close>

lemma field_rw [reader_simps]:
  "length b = n \<Longrightarrow> r_array n (b @ r) = Inr (b, r)"
  "length b < 2 ^ 16 \<Longrightarrow> r_bytes_u16 (w_bytes_u16 b @ r) = Inr (b, r)"
  "pubkey_wf S pk \<Longrightarrow> r_pubkey S (pk @ r) = Inr (pk, r)"
  "sig_wf S sig \<Longrightarrow> r_signature S (sig @ r) = Inr (sig, r)"
  by (simp_all add: r_array_def bytes16.dec_enc pubkeyc.dec_enc sigc.dec_enc)

lemma r_rest_apply [reader_simps]: "r_rest d = Inr (d, [])"
  by (simp add: r_rest_def)

interpretation wmc: codec WarningMsg_write WarningMsg_read WarningMsg_wf
  by unfold_locales (simp add: WarningMsg_read_def WarningMsg_write_def WarningMsg_wf_def reader_simps)

interpretation emc: codec ErrorMsg_write ErrorMsg_read ErrorMsg_wf
  by unfold_locales (simp add: ErrorMsg_read_def ErrorMsg_write_def ErrorMsg_wf_def reader_simps)

interpretation pingc: codec Ping_write Ping_read Ping_wf
  by unfold_locales (simp add: Ping_read_def Ping_write_def Ping_wf_def reader_simps)

interpretation pongc: codec Pong_write Pong_read Pong_wf
  by unfold_locales (simp add: Pong_read_def Pong_write_def Pong_wf_def reader_simps)

interpretation fcrc: codec FundingCreated_write "FundingCreated_read S" "FundingCreated_wf S" for S
  by unfold_locales (simp add: FundingCreated_read_def FundingCreated_write_def FundingCreated_wf_def reader_simps)

interpretation fsgc: codec FundingSigned_write "FundingSigned_read S" "FundingSigned_wf S" for S
  by unfold_locales (simp add: FundingSigned_read_def FundingSigned_write_def FundingSigned_wf_def reader_simps)

interpretation sdc: codec Shutdown_write Shutdown_read Shutdown_wf
  by unfold_locales (simp add: Shutdown_read_def Shutdown_write_def Shutdown_wf_def reader_simps)

interpretation uahc: codec UpdateAddHtlc_write UpdateAddHtlc_read UpdateAddHtlc_wf
  by unfold_locales (simp add: UpdateAddHtlc_read_def UpdateAddHtlc_write_def UpdateAddHtlc_wf_def reader_simps)

interpretation ufhc: codec UpdateFulfillHtlc_write UpdateFulfillHtlc_read UpdateFulfillHtlc_wf
  by unfold_locales (simp add: UpdateFulfillHtlc_read_def UpdateFulfillHtlc_write_def UpdateFulfillHtlc_wf_def reader_simps)

interpretation uflc: codec UpdateFailHtlc_write UpdateFailHtlc_read UpdateFailHtlc_wf
  by unfold_locales (simp add: UpdateFailHtlc_read_def UpdateFailHtlc_write_def UpdateFailHtlc_wf_def reader_simps)

interpretation ufmc: codec UpdateFailMalformedHtlc_write UpdateFailMalformedHtlc_read UpdateFailMalformedHtlc_wf
  by unfold_locales (simp add: UpdateFailMalformedHtlc_read_def UpdateFailMalformedHtlc_write_def UpdateFailMalformedHtlc_wf_def reader_simps)

interpretation raac: codec RevokeAndAck_write "RevokeAndAck_read S" "RevokeAndAck_wf S" for S
  by unfold_locales (simp add: RevokeAndAck_read_def RevokeAndAck_write_def RevokeAndAck_wf_def reader_simps)

interpretation ufc: codec UpdateFee_write UpdateFee_read UpdateFee_wf
  by unfold_locales (simp add: UpdateFee_read_def UpdateFee_write_def UpdateFee_wf_def reader_simps)

interpretation crec: codec ChannelReestablish_write "ChannelReestablish_read S" "ChannelReestablish_wf S" for S
  by unfold_locales (simp add: ChannelReestablish_read_def ChannelReestablish_write_def ChannelReestablish_wf_def reader_simps)

interpretation ansc: codec AnnouncementSignatures_write "AnnouncementSignatures_read S" "AnnouncementSignatures_wf S" for S
  by unfold_locales (simp add: AnnouncementSignatures_read_def AnnouncementSignatures_write_def AnnouncementSignatures_wf_def reader_simps)

interpretation cuc: codec "(\<lambda>m. cu_signature m @ cu_write_after_sig m)" "ChannelUpdate_read S" "ChannelUpdate_wf S" for S
  by unfold_locales (simp add: ChannelUpdate_read_def cu_write_after_sig_def ChannelUpdate_wf_def reader_simps)

interpretation gtfc: codec GossipTimestampFilter_write GossipTimestampFilter_read GossipTimestampFilter_wf
  by unfold_locales (simp add: GossipTimestampFilter_read_def GossipTimestampFilter_write_def GossipTimestampFilter_wf_def reader_simps)

interpretation bpc: codec ChannelBasepoints_write "ChannelBasepoints_read S" "ChannelBasepoints_wf S" for S
  by unfold_locales
    (simp add: ChannelBasepoints_read_def ChannelBasepoints_write_def ChannelBasepoints_wf_def reader_simps)

interpretation cac: codec ChannelAnnouncement_write "ChannelAnnouncement_read S" "ChannelAnnouncement_wf S" for S
  by unfold_locales
    (simp add: ChannelAnnouncement_read_def ChannelAnnouncement_write_def ca_signed_payload_def
      ChannelAnnouncement_wf_def reader_simps)

interpretation csgc: codec CommitmentSigned_write "CommitmentSigned_read S" "CommitmentSigned_wf S" for S
proof unfold_locales
  fix m :: CommitmentSigned and rest
  assume "CommitmentSigned_wf S m"
  then show "CommitmentSigned_read S (CommitmentSigned_write m @ rest) = Inr (m, rest)"
    using sigc.dec_list [of S "csg_htlc_signatures m" rest]
    by (simp add: CommitmentSigned_read_def CommitmentSigned_write_def CommitmentSigned_wf_def
        u16_of_length reader_simps unat_of_nat)
qed

section \<open>Messages with a TLV extension\<close>

lemma parse_write_stream:
  "list_all tlv_wf recs \<Longrightarrow> sorted_wrt (<) (map tlv_type recs) \<Longrightarrow> parse_stream (write_stream recs) = Inr recs"
  by (simp add: parse_stream_iff)

lemma parse_empty [simp]: "parse_stream [] = Inr []"
  using parse_write_stream [of "[]"] by (simp add: write_stream_def)

lemma parse_one:
  "length v < 2 ^ 64 \<Longrightarrow> parse_stream (write_record t v) = Inr [\<lparr>tlv_type = t, tlv_value = v\<rparr>]"
  using parse_write_stream [of "[\<lparr>tlv_type = t, tlv_value = v\<rparr>]"] by (simp add: write_stream_def tlv_wf_def)

lemma parse_two:
  "length v < 2 ^ 64 \<Longrightarrow> length w < 2 ^ 64 \<Longrightarrow> t < u \<Longrightarrow>
     parse_stream (write_record t v @ write_record u w)
       = Inr [\<lparr>tlv_type = t, tlv_value = v\<rparr>, \<lparr>tlv_type = u, tlv_value = w\<rparr>]"
  using parse_write_stream [of "[\<lparr>tlv_type = t, tlv_value = v\<rparr>, \<lparr>tlv_type = u, tlv_value = w\<rparr>]"]
  by (simp add: write_stream_def tlv_wf_def)

lemma open_accept_parse:
  assumes "opt_len s" "opt_len t"
  shows "\<exists>recs. parse_stream (open_accept_write s t) = Inr recs
    \<and> check_unknown_even recs [0] = Inr () \<and> open_accept_tlvs recs = (s, t)"
  using assms
  by (cases s; cases t) (simp_all add: opt_len_def open_accept_write_def parse_one parse_two open_accept_tlvs_def)

lemma OpenChannel_rt: "OpenChannel_wf S m \<Longrightarrow> OpenChannel_read S (OpenChannel_write m) = Inr (m, [])"
  using open_accept_parse [of "oc_upfront_shutdown_script m" "oc_channel_type m"]
  by (auto simp: OpenChannel_read_def OpenChannel_write_def OpenChannel_wf_def reader_simps bpc.dec_enc)

lemma AcceptChannel_rt: "AcceptChannel_wf S m \<Longrightarrow> AcceptChannel_read S (AcceptChannel_write m) = Inr (m, [])"
  using open_accept_parse [of "ac_upfront_shutdown_script m" "ac_channel_type m"]
  by (auto simp: AcceptChannel_read_def AcceptChannel_write_def AcceptChannel_wf_def reader_simps bpc.dec_enc)

lemma length_w_u64 [simp]: "length (w_u64 v) = 8"
  by (simp add: w_u64_def)

lemma ChannelReady_rt: "ChannelReady_wf S m \<Longrightarrow> ChannelReady_read S (ChannelReady_write m) = Inr (m, [])"
  by (cases "crd_short_channel_id_alias m")
    (simp_all add: ChannelReady_read_def ChannelReady_write_def ChannelReady_wf_def reader_simps
      parse_one channel_ready_tlvs_def pubkeyc.dec_enc_exact, simp_all add: w_u64_def)

lemma ClosingSigned_rt: "ClosingSigned_wf S m \<Longrightarrow> ClosingSigned_read S (ClosingSigned_write m) = Inr (m, [])"
  using u64c.dec_enc_exact
  by (cases "cs_fee_range m")
    (simp_all add: ClosingSigned_read_def ClosingSigned_write_def ClosingSigned_wf_def reader_simps parse_one
      sigc.dec_enc_exact)

lemma chunks_exact_concat:
  "list_all (\<lambda>n. length n = k) xs \<Longrightarrow> 0 < k \<Longrightarrow> chunks_exact k (concat xs) = xs"
  by (induction xs) (simp_all add: chunks_exact_append)

lemma length_concat_mod: "list_all (\<lambda>n. length n = k) xs \<Longrightarrow> length (concat xs) mod k = 0"
  by (induction xs) simp_all

lemma Init_rt: "Init_wf m \<Longrightarrow> Init_read (Init_write m) = Inr (m, [])"
  by (cases "in_networks m")
    (simp_all add: Init_read_def Init_write_def Init_wf_def reader_simps parse_one chunks_exact_concat
      length_concat_mod bytes16.dec_enc_exact [simplified])

section \<open>Node announcements\<close>

lemma address_rt: "address_wf a \<Longrightarrow> address_read (address_write a @ r) = Inr (Some [a], r)"
  by (cases a) (simp_all add: address_wf_def address_read_def address_write_def reader_simps unat_of_nat)

lemma address_write_nonempty [simp]: "address_write a \<noteq> []"
  by (cases a) (simp_all add: address_write_def w_u8_def)

lemma read_addresses_rt: "list_all address_wf as \<Longrightarrow> read_addresses (concat (map address_write as)) = Inr as"
proof (induction as)
  case (Cons a as)
  then show ?case by (subst read_addresses.simps) (simp add: address_rt)
qed (subst read_addresses.simps, simp)

interpretation nac: codec "\<lambda>m. na_signature m @ na_write_after_sig m" "NodeAnnouncement_read S" "NodeAnnouncement_wf S" for S
  by unfold_locales
    (simp add: NodeAnnouncement_read_def na_write_after_sig_def NodeAnnouncement_wf_def reader_simps read_addresses_rt)

section \<open>Properties\<close>

lemma decode_frame:
  "pbind r_u16 (decode_body S) (w_u16 t @ body) = decode_body S t body"
  by (simp add: reader_simps)

lemmas exact = wmc.dec_enc_exact emc.dec_enc_exact pingc.dec_enc_exact pongc.dec_enc_exact fcrc.dec_enc_exact fsgc.dec_enc_exact sdc.dec_enc_exact uahc.dec_enc_exact ufhc.dec_enc_exact uflc.dec_enc_exact ufmc.dec_enc_exact csgc.dec_enc_exact raac.dec_enc_exact ufc.dec_enc_exact crec.dec_enc_exact ansc.dec_enc_exact cac.dec_enc_exact nac.dec_enc_exact cuc.dec_enc_exact gtfc.dec_enc_exact
  Init_rt OpenChannel_rt AcceptChannel_rt ChannelReady_rt ClosingSigned_rt

text \<open>C17: Every message survives the wire: decoding the encoding of any well-formed message of the
  25 typed kinds, or of an unknown odd type, returns that message.\<close>

theorem message_roundtrip:
  assumes "Message_wf S msg"
  shows "Message_decode S (Message_encode msg) = Inr msg"
  using assms
  by (cases msg) (simp_all add: Message_decode_def Message_encode_def decode_frame Message_wf_def msg_type_def
      decode_body_def pbind_apply pret_apply r_rest_apply exact msg_types known_types_def)

theorem message_roundtrip_witness:
  "Message_decode \<lparr>pubkey_from_slice_ok = \<lambda>_. True, signature_from_compact_ok = \<lambda>_. True\<rparr>
     (Message_encode (M_ChannelReady \<lparr>crd_channel_id = replicate 32 1,
        crd_second_per_commitment_point = replicate 33 2, crd_short_channel_id_alias = Some 7\<rparr>))
   = Inr (M_ChannelReady \<lparr>crd_channel_id = replicate 32 1,
        crd_second_per_commitment_point = replicate 33 2, crd_short_channel_id_alias = Some 7\<rparr>)"
  by (rule message_roundtrip) (simp add: Message_wf_def ChannelReady_wf_def pubkey_wf_def)

text \<open>Unknown message types follow the parity rule: an odd type decodes to its raw payload, an
  even type is the error \<^verbatim>\<open>UnknownMessageType\<close>, whatever the payload.\<close>

theorem unknown_message_parity:
  assumes "t \<notin> set known_types"
  shows "Message_decode S (w_u16 t @ payload)
    = (if t mod 2 = 1 then Inr (M_Unknown t payload) else Inl (UnknownMessageType t))"
  using assms
  by (simp add: Message_decode_def decode_frame decode_body_def pbind_apply pret_apply pfail_apply r_rest_apply
      msg_types known_types_def)

theorem unknown_message_parity_witness:
  "Message_decode \<lparr>pubkey_from_slice_ok = \<lambda>_. True, signature_from_compact_ok = \<lambda>_. True\<rparr>
     (w_u16 40 @ [1, 2]) = Inl (UnknownMessageType 40)"
  using unknown_message_parity [of 40 _ "[1, 2]"] by (simp add: msg_types known_types_def)

end
