(* ===== verification/Bitcoin_Encode.thy ===== *)
theory Bitcoin_Encode
  imports Prelude
begin

text \<open>\<^verbatim>\<open>src/src/bitcoin/encode.rs\<close>: the consensus encoding of integers and sized byte strings, with
  a consuming little-endian reader of its own error type. CompactSize is shown canonical.
\<close>

section \<open>Definitions\<close>

datatype DecodeError = UnexpectedEndOfData | NonMinimal | Oversized | BadTxFormat string

type_synonym 'a breader = "(DecodeError, 'a) reader"

definition br_take :: "nat \<Rightarrow> bytes breader" where
  "br_take n d = (if length d < n then Inl UnexpectedEndOfData else Inr (take n d, drop n d))"

definition br_array :: "nat \<Rightarrow> bytes breader" where
  "br_array N = br_take N"

definition br_u8 :: "u8 breader" where
  "br_u8 = pbind (br_take 1) (\<lambda>b. pret (b ! 0))"

definition br_u16_le :: "u16 breader" where
  "br_u16_le = pbind (br_array 2) (\<lambda>b. pret (from_le_bytes b))"

definition br_u32_le :: "u32 breader" where
  "br_u32_le = pbind (br_array 4) (\<lambda>b. pret (from_le_bytes b))"

definition br_u64_le :: "u64 breader" where
  "br_u64_le = pbind (br_array 8) (\<lambda>b. pret (from_le_bytes b))"

definition compact_size :: "u64 breader" where
  "compact_size =
     pbind br_u8 (\<lambda>first.
       if first \<le> 0xfc then pret (ucast first)
       else if first = 0xfd then
         pbind br_u16_le (\<lambda>v. if (ucast v :: u64) < 0xfd then pfail NonMinimal else pret (ucast v))
       else if first = 0xfe then
         pbind br_u32_le (\<lambda>v. if (ucast v :: u64) \<le> 0xffff then pfail NonMinimal else pret (ucast v))
       else
         pbind br_u64_le (\<lambda>v. if v \<le> 0xffffffff then pfail NonMinimal else pret v))"

definition sized_bytes :: "nat \<Rightarrow> bytes breader" where
  "sized_bytes cap =
     pbind compact_size (\<lambda>len. if of_nat cap < len then pfail Oversized else br_take (unat len))"

definition write_compact_size :: "u64 \<Rightarrow> bytes" where
  "write_compact_size n =
     (if n \<le> 0xfc then [ucast n]
      else if n \<le> 0xffff then 0xfd # to_le_bytes (ucast n :: u16)
      else if n \<le> 0xffffffff then 0xfe # to_le_bytes (ucast n :: u32)
      else 0xff # to_le_bytes n)"

definition write_sized_bytes :: "bytes \<Rightarrow> bytes" where
  "write_sized_bytes bs = write_compact_size (of_nat (length bs)) @ bs"

section \<open>Canonicity\<close>

lemma br_take_iff: "br_take n d = Inr (v, r) \<longleftrightarrow> length v = n \<and> d = v @ r"
  by (auto simp: br_take_def)

lemma br_take_append [simp]: "length b = n \<Longrightarrow> br_take n (b @ r) = Inr (b, r)"
  by (simp add: br_take_iff)

lemma br_u8_iff: "br_u8 d = Inr (v, r) \<longleftrightarrow> d = v # r"
  by (auto simp: br_u8_def reader_simps rbind_eq_Inr br_take_iff length_Suc_conv)

lemma br_u16_iff: "br_u16_le d = Inr (v, r) \<longleftrightarrow> d = to_le_bytes v @ r"
  by (auto simp: br_u16_le_def br_array_def reader_simps rbind_eq_Inr br_take_iff to_from_bytes)

lemma br_u32_iff: "br_u32_le d = Inr (v, r) \<longleftrightarrow> d = to_le_bytes v @ r"
  by (auto simp: br_u32_le_def br_array_def reader_simps rbind_eq_Inr br_take_iff to_from_bytes)

lemma br_u64_iff: "br_u64_le d = Inr (v, r) \<longleftrightarrow> d = to_le_bytes v @ r"
  by (auto simp: br_u64_le_def br_array_def reader_simps rbind_eq_Inr br_take_iff to_from_bytes)

lemma bitcoin_rw [reader_simps, simp]:
  "br_u8 (a # r) = Inr (a, r)" "br_u16_le (to_le_bytes b @ r) = Inr (b, r)"
  "br_u32_le (to_le_bytes c @ r) = Inr (c, r)" "br_u64_le (to_le_bytes d @ r) = Inr (d, r)"
  by (simp_all add: br_u8_iff br_u16_iff br_u32_iff br_u64_iff)

lemma compact_size_write: "compact_size (write_compact_size v @ r) = Inr (v, r)"
proof -
  consider "v \<le> 0xfc" | "\<not> v \<le> 0xfc" "v \<le> 0xffff" | "\<not> v \<le> 0xfc" "\<not> v \<le> 0xffff" "v \<le> 0xffffffff"
    | "\<not> v \<le> 0xfc" "\<not> v \<le> 0xffff" "\<not> v \<le> 0xffffffff" by (auto simp: word_le_nat_alt)
  then show ?thesis
  proof cases
    case 1
    then have "(ucast v :: u8) \<le> 0xfc" using ucast_le(1) [of "ucast v"] by (simp add: ucast_down_up)
    then show ?thesis using 1 by (simp add: compact_size_def write_compact_size_def reader_simps ucast_down_up)
  next
    case 2
    then have "\<not> v < 0xfd" by (simp add: word_le_nat_alt word_less_nat_alt)
    then show ?thesis using 2 by (simp add: compact_size_def write_compact_size_def reader_simps ucast_down_up)
  qed (simp_all add: compact_size_def write_compact_size_def reader_simps ucast_down_up)
qed

lemma write_compact_size_read: "compact_size d = Inr (v, r) \<Longrightarrow> d = write_compact_size v @ r"
proof -
  assume "compact_size d = Inr (v, r)"
  then obtain first d1 where first: "d = first # d1" and
    body: "(if first \<le> 0xfc then pret (ucast first)
       else if first = 0xfd then
         pbind br_u16_le (\<lambda>v. if (ucast v :: u64) < 0xfd then pfail NonMinimal else pret (ucast v))
       else if first = 0xfe then
         pbind br_u32_le (\<lambda>v. if (ucast v :: u64) \<le> 0xffff then pfail NonMinimal else pret (ucast v))
       else
         pbind br_u64_le (\<lambda>v. if v \<le> 0xffffffff then pfail NonMinimal else pret v)) d1 = Inr (v, r)"
    unfolding compact_size_def pbind_eq_Inr br_u8_iff by blast
  have nf: "\<not> first \<le> 0xfc \<Longrightarrow> first \<noteq> 0xfd \<Longrightarrow> first \<noteq> 0xfe \<Longrightarrow> first = 0xff"
    using unat_bounds(1) [of first] by (simp add: word_le_nat_alt word_unat_eq_iff)
  have le: "(ucast (w :: u16) :: u64) < 0xfd \<longleftrightarrow> (ucast w :: u64) \<le> 0xfc" for w
    by (simp add: word_le_nat_alt word_less_nat_alt less_Suc_eq_le [symmetric])
  have mono: "(x :: u64) \<le> 0xfc \<Longrightarrow> x \<le> 0xffff" "(x :: u64) \<le> 0xffff \<Longrightarrow> x \<le> 0xffffffff" for x
    by (simp_all add: word_le_nat_alt)
  show ?thesis
    using body nf mono unfolding first write_compact_size_def
    by (auto simp: pret_apply pfail_apply pbind_eq_Inr br_u16_iff br_u32_iff br_u64_iff ucast_le le split: if_splits)
qed

interpretation compact: canonical_codec write_compact_size compact_size "\<lambda>_. True"
  by unfold_locales (simp_all add: compact_size_write write_compact_size_read)

lemma sized_bytes_write:
  assumes "length b \<le> cap" "cap < 2 ^ 64"
  shows "sized_bytes cap (write_sized_bytes b @ r) = Inr (b, r)"
proof -
  have u: "unat (of_nat (length b) :: u64) = length b" "unat (of_nat cap :: u64) = cap"
    using assms by (simp_all add: unat_of_nat)
  then have "\<not> (of_nat cap :: u64) < of_nat (length b)" using assms by (simp add: word_less_nat_alt)
  then show ?thesis
    using u by (simp add: sized_bytes_def write_sized_bytes_def pbind_apply compact.dec_enc)
qed

interpretation sized: codec write_sized_bytes "sized_bytes cap" "\<lambda>b. length b \<le> cap \<and> cap < 2 ^ 64" for cap
  by unfold_locales (simp add: sized_bytes_write)

text \<open>CompactSize is canonical: a byte string reads as a value exactly when it starts with the
  one encoding \<^verbatim>\<open>write_compact_size\<close> produces for it.\<close>

theorem compact_size_canonical:
  "compact_size d = Inr (v, r) \<longleftrightarrow> d = write_compact_size v @ r"
  using compact.dec_iff by simp

end
