(* ===== verification/Bitcoin_Tx.thy ===== *)
theory Bitcoin_Tx
  imports Bitcoin_Encode Crypto_Hash
begin

text \<open>
  \<^verbatim>\<open>src/src/bitcoin/tx.rs\<close> and \<^verbatim>\<open>sighash.rs\<close>: transactions with their legacy and BIP-144
  serializations, txid, weight and the parser; and the BIP-143 signature hash with its cached
  midstates. A \<^verbatim>\<open>Script\<close> is its bytes, the \<^verbatim>\<open>i32\<close> version its 32-bit pattern.
\<close>

unbundle bit_operations_syntax

section \<open>Transactions\<close>

definition sha256d :: "bytes \<Rightarrow> bytes" where
  "sha256d data = sha256_digest (sha256_digest data)"

type_synonym Txid = bytes
type_synonym Script = bytes

record OutPoint =
  op_txid :: Txid
  op_vout :: u32

record TxIn =
  previous_output :: OutPoint
  script_sig :: bytes
  sequence :: u32
  witness :: "bytes list"

record TxOut =
  txo_value :: u64
  script_pubkey :: Script

record Transaction =
  tx_version :: u32
  lock_time :: u32
  tx_input :: "TxIn list"
  tx_output :: "TxOut list"

definition OutPoint_write :: "OutPoint \<Rightarrow> bytes" where
  "OutPoint_write p = op_txid p @ to_le_bytes (op_vout p)"

definition OutPoint_read :: "OutPoint breader" where
  "OutPoint_read =
     pbind (br_array 32) (\<lambda>txid. pbind br_u32_le (\<lambda>vout. pret \<lparr>op_txid = txid, op_vout = vout\<rparr>))"

definition TxOut_write :: "TxOut \<Rightarrow> bytes" where
  "TxOut_write out = to_le_bytes (txo_value out) @ write_sized_bytes (script_pubkey out)"

definition TxOut_read :: "TxOut breader" where
  "TxOut_read =
     pbind br_u64_le (\<lambda>v. pbind (sized_bytes 10000) (\<lambda>s. pret \<lparr>txo_value = v, script_pubkey = s\<rparr>))"

definition has_witness :: "Transaction \<Rightarrow> bool" where
  "has_witness tx = list_ex (\<lambda>i. witness i \<noteq> []) (tx_input tx)"

definition TxIn_write :: "TxIn \<Rightarrow> bytes" where
  "TxIn_write i =
     OutPoint_write (previous_output i) @ write_sized_bytes (script_sig i) @ to_le_bytes (sequence i)"

definition write_inputs_outputs :: "Transaction \<Rightarrow> bytes" where
  "write_inputs_outputs tx =
     write_compact_size (of_nat (length (tx_input tx))) @ concat (map TxIn_write (tx_input tx)) @
     write_compact_size (of_nat (length (tx_output tx))) @ concat (map TxOut_write (tx_output tx))"

definition serialize_legacy :: "Transaction \<Rightarrow> bytes" where
  "serialize_legacy tx =
     to_le_bytes (tx_version tx) @ write_inputs_outputs tx @ to_le_bytes (lock_time tx)"

definition witness_write :: "bytes list \<Rightarrow> bytes" where
  "witness_write w = write_compact_size (of_nat (length w)) @ concat (map write_sized_bytes w)"

definition serialize :: "Transaction \<Rightarrow> bytes" where
  "serialize tx =
     (if \<not> has_witness tx then serialize_legacy tx
      else to_le_bytes (tx_version tx) @ [0x00, 0x01] @ write_inputs_outputs tx @
        concat (map (\<lambda>i. witness_write (witness i)) (tx_input tx)) @ to_le_bytes (lock_time tx))"

definition tx_txid :: "Transaction \<Rightarrow> Txid" where
  "tx_txid tx = sha256d (serialize_legacy tx)"

definition tx_wtxid :: "Transaction \<Rightarrow> Txid" where
  "tx_wtxid tx = sha256d (serialize tx)"

definition tx_weight :: "Transaction \<Rightarrow> nat" where
  "tx_weight tx = length (serialize_legacy tx) * 3 + length (serialize tx)"

definition TxIn_read :: "TxIn breader" where
  "TxIn_read =
     pbind OutPoint_read (\<lambda>p. pbind (sized_bytes 10000) (\<lambda>s. pbind br_u32_le (\<lambda>q.
       pret \<lparr>previous_output = p, script_sig = s, sequence = q, witness = []\<rparr>)))"

definition witness_read :: "bytes list breader" where
  "witness_read =
     pbind compact_size (\<lambda>items.
       if 1000 < items then pfail Oversized
       else preplicate (unat items) (sized_bytes 4000000))"

primrec read_witnesses :: "TxIn list \<Rightarrow> TxIn list breader" where
  "read_witnesses [] = pret []"
| "read_witnesses (txin # rest) =
     pbind witness_read (\<lambda>w. pbind (read_witnesses rest) (\<lambda>rest'.
       pret (txin\<lparr>witness := witness txin @ w\<rparr> # rest')))"

definition tx_read_body :: "u32 \<Rightarrow> bool \<Rightarrow> u64 \<Rightarrow> Transaction breader" where
  "tx_read_body version segwit input_count =
     (if 100000 < input_count then pfail Oversized
      else
        pbind (preplicate (unat input_count) TxIn_read) (\<lambda>input.
        pbind compact_size (\<lambda>output_count.
        if 100000 < output_count then pfail Oversized
        else
          pbind (preplicate (unat output_count) TxOut_read) (\<lambda>output.
          pbind (if segwit then read_witnesses input else pret input) (\<lambda>input.
          pbind br_u32_le (\<lambda>lock_time.
          pret \<lparr>tx_version = version, lock_time = lock_time, tx_input = input, tx_output = output\<rparr>))))))"

definition tx_read :: "Transaction breader" where
  "tx_read =
     pbind br_u32_le (\<lambda>version.
     pbind compact_size (\<lambda>input_count.
       if input_count = 0 then
         pbind br_u8 (\<lambda>flag.
           if flag \<noteq> 0x01 then pfail (BadTxFormat ''bad segwit flag'')
           else pbind compact_size (\<lambda>input_count. tx_read_body version True input_count))
       else tx_read_body version False input_count))"

definition tx_deserialize :: "bytes \<Rightarrow> (DecodeError, Transaction) result" where
  "tx_deserialize bs =
     rbind (tx_read bs) (\<lambda>(tx, rest).
       if rest \<noteq> [] then Inl (BadTxFormat ''trailing bytes after transaction'') else Inr tx)"

section \<open>Signature hashes\<close>

datatype SighashType =
  All | SNone | Single | AllPlusAnyoneCanPay | NonePlusAnyoneCanPay | SinglePlusAnyoneCanPay

definition sighash_u32 :: "SighashType \<Rightarrow> u32" where
  "sighash_u32 t =
     (case t of All \<Rightarrow> 0x01 | SNone \<Rightarrow> 0x02 | Single \<Rightarrow> 0x03 | AllPlusAnyoneCanPay \<Rightarrow> 0x81
      | NonePlusAnyoneCanPay \<Rightarrow> 0x82 | SinglePlusAnyoneCanPay \<Rightarrow> 0x83)"

definition anyone_can_pay :: "SighashType \<Rightarrow> bool" where
  "anyone_can_pay t = (sighash_u32 t AND 0x80 \<noteq> 0)"

definition sighash_base :: "SighashType \<Rightarrow> u32" where
  "sighash_base t = sighash_u32 t AND 0x1f"

record SighashCache =
  sc_tx :: Transaction
  hash_prevouts :: bytes
  hash_sequence :: bytes
  hash_outputs :: bytes

definition SighashCache_new :: "Transaction \<Rightarrow> SighashCache" where
  "SighashCache_new tx =
     (let prevouts = concat (map (\<lambda>i. OutPoint_write (previous_output i)) (tx_input tx));
          sequences = concat (map (\<lambda>i. to_le_bytes (sequence i)) (tx_input tx));
          outputs = concat (map TxOut_write (tx_output tx))
      in \<lparr>sc_tx = tx, hash_prevouts = sha256d prevouts, hash_sequence = sha256d sequences,
          hash_outputs = sha256d outputs\<rparr>)"

text \<open>The digest is that of a preimage; \<open>input_index\<close> out of range panics (\<open>None\<close>).\<close>

definition sighash_preimage ::
  "SighashCache \<Rightarrow> nat \<Rightarrow> Script \<Rightarrow> u64 \<Rightarrow> SighashType \<Rightarrow> bytes option" where
  "sighash_preimage c input_index script_code v t =
     (if length (tx_input (sc_tx c)) \<le> input_index then None
      else
        let zeros = replicate 32 0;
            tx = sc_tx c;
            input = tx_input tx ! input_index;
            prevouts = (if anyone_can_pay t then zeros else hash_prevouts c);
            seqs = (if anyone_can_pay t \<or> sighash_base t \<noteq> 0x01 then zeros else hash_sequence c);
            outs = (if sighash_base t = 0x01 then hash_outputs c
                    else if sighash_base t = 0x03 \<and> input_index < length (tx_output tx)
                    then sha256d (TxOut_write (tx_output tx ! input_index)) else zeros)
        in Some (to_le_bytes (tx_version tx) @ prevouts @ seqs @ OutPoint_write (previous_output input) @
             write_sized_bytes script_code @ to_le_bytes v @ to_le_bytes (sequence input) @ outs @
             to_le_bytes (lock_time tx) @ to_le_bytes (sighash_u32 t)))"

definition segwit_v0_sighash ::
  "SighashCache \<Rightarrow> nat \<Rightarrow> Script \<Rightarrow> u64 \<Rightarrow> SighashType \<Rightarrow> bytes option" where
  "segwit_v0_sighash c input_index script_code v t =
     map_option sha256d (sighash_preimage c input_index script_code v t)"

section \<open>Round trip\<close>

text \<open>What the reader's limits require of a transaction.\<close>

definition input_wf :: "TxIn \<Rightarrow> bool" where
  "input_wf i \<longleftrightarrow> length (op_txid (previous_output i)) = 32 \<and> length (script_sig i) \<le> 10000
     \<and> length (witness i) \<le> 1000 \<and> list_all (\<lambda>w. length w \<le> 4000000) (witness i)"

definition output_wf :: "TxOut \<Rightarrow> bool" where
  "output_wf out \<longleftrightarrow> length (script_pubkey out) \<le> 10000"

definition tx_wf :: "Transaction \<Rightarrow> bool" where
  "tx_wf tx \<longleftrightarrow> tx_input tx \<noteq> [] \<and> length (tx_input tx) \<le> 100000 \<and> length (tx_output tx) \<le> 100000
     \<and> list_all input_wf (tx_input tx) \<and> list_all output_wf (tx_output tx)"

interpretation outpoint: codec OutPoint_write OutPoint_read "\<lambda>p. length (op_txid p) = 32"
  by unfold_locales (simp add: OutPoint_read_def OutPoint_write_def br_array_def reader_simps)

interpretation txout: codec TxOut_write TxOut_read output_wf
  by unfold_locales (simp add: TxOut_read_def TxOut_write_def output_wf_def reader_simps sized.dec_enc)

interpretation txin: codec TxIn_write TxIn_read "\<lambda>i. input_wf i \<and> witness i = []"
  by unfold_locales
    (auto simp: TxIn_read_def TxIn_write_def input_wf_def reader_simps outpoint.dec_enc sized.dec_enc)

lemma u64_small: "n \<le> 100000 \<Longrightarrow> unat (of_nat n :: u64) = n"
  by (simp add: unat_of_nat)

interpretation witnessc: codec witness_write witness_read
  "\<lambda>w. length w \<le> 1000 \<and> list_all (\<lambda>x. length x \<le> 4000000) w"
proof unfold_locales
  fix w :: "bytes list" and rest
  assume w: "length w \<le> 1000 \<and> list_all (\<lambda>x. length x \<le> 4000000) w"
  then have "list_all (\<lambda>x. length x \<le> 4000000 \<and> (4000000 :: nat) < 2 ^ 64) w" by (simp add: list_all_iff)
  then have "preplicate (length w) (sized_bytes 4000000) (concat (map write_sized_bytes w) @ rest) = Inr (w, rest)"
    by (rule sized.dec_list)
  moreover have "\<not> (1000 :: u64) < of_nat (length w)" using w by (simp add: word_less_nat_alt u64_small)
  ultimately show "witness_read (witness_write w @ rest) = Inr (w, rest)"
    using w by (simp add: witness_read_def witness_write_def pbind_apply compact.dec_enc u64_small)
qed

definition strip :: "TxIn \<Rightarrow> TxIn" where
  "strip i = i\<lparr>witness := []\<rparr>"

lemma TxIn_write_clear [simp]: "TxIn_write (i\<lparr>witness := []\<rparr>) = TxIn_write i"
  by (simp add: TxIn_write_def)

lemma TxIn_write_strip: "TxIn_write \<circ> strip = TxIn_write"
  by (auto simp: strip_def)

lemma read_witnesses_write:
  "list_all input_wf ins \<Longrightarrow>
     read_witnesses (map strip ins) (concat (map (\<lambda>i. witness_write (witness i)) ins) @ r) = Inr (ins, r)"
  by (induction ins) (simp_all add: reader_simps witnessc.dec_enc input_wf_def, simp_all add: strip_def)

lemma read_inputs:
  assumes "list_all input_wf ins" "length ins \<le> 100000"
  shows "preplicate (unat (of_nat (length ins) :: u64)) TxIn_read (concat (map TxIn_write ins) @ r) = Inr (map strip ins, r)"
proof -
  have "list_all (\<lambda>i. input_wf i \<and> witness i = []) (map strip ins)"
    using assms(1) by (simp add: list_all_iff strip_def input_wf_def)
  then show ?thesis
    using txin.dec_list [of "map strip ins" r] assms(2) by (simp add: u64_small TxIn_write_strip)
qed

lemma read_outputs:
  assumes "list_all output_wf outs" "length outs \<le> 100000"
  shows "preplicate (unat (of_nat (length outs) :: u64)) TxOut_read (concat (map TxOut_write outs) @ r) = Inr (outs, r)"
  using txout.dec_list [OF assms(1), of r] assms(2) by (simp add: u64_small)

lemma not_oversized: "n \<le> 100000 \<Longrightarrow> \<not> (100000 :: u64) < of_nat n"
  by (simp add: word_less_nat_alt u64_small)

lemma tx_read_body_write:
  assumes wf: "tx_wf tx"
    and w: "w = (if segwit then concat (map (\<lambda>i. witness_write (witness i)) (tx_input tx)) else [])"
    and nw: "\<not> segwit \<Longrightarrow> \<not> has_witness tx"
  shows "tx_read_body (tx_version tx) segwit (of_nat (length (tx_input tx)))
      (concat (map TxIn_write (tx_input tx)) @ write_compact_size (of_nat (length (tx_output tx)))
        @ concat (map TxOut_write (tx_output tx)) @ w @ to_le_bytes (lock_time tx)) = Inr (tx, [])"
proof -
  have b: "length (tx_input tx) \<le> 100000" "length (tx_output tx) \<le> 100000" "list_all input_wf (tx_input tx)"
      "list_all output_wf (tx_output tx)" using wf by (simp_all add: tx_wf_def)
  have "map strip (tx_input tx) = tx_input tx" if "\<not> has_witness tx"
    using that by (auto simp: has_witness_def list_ex_iff strip_def intro!: map_idI)
  then have wit: "segwit \<Longrightarrow> read_witnesses (map strip (tx_input tx)) (w @ r) = Inr (tx_input tx, r)"
      "\<not> segwit \<Longrightarrow> map strip (tx_input tx) = tx_input tx \<and> w = []" for r
    using nw read_witnesses_write [OF b(3)] by (simp_all add: w)
  have lt: "br_u32_le (to_le_bytes (lock_time tx)) = Inr (lock_time tx, [])" by (simp add: br_u32_iff)
  show ?thesis
    by (cases segwit) (simp_all add: tx_read_body_def not_oversized b pbind_apply pret_apply read_inputs read_outputs
        compact.dec_enc wit lt)
qed

lemma tx_read_write: "tx_wf tx \<Longrightarrow> tx_read (serialize tx) = Inr (tx, [])"
proof -
  assume wf: "tx_wf tx"
  let ?n = "of_nat (length (tx_input tx)) :: u64"
  have n0: "?n \<noteq> 0"
    using wf u64_small [of "length (tx_input tx)"] by (auto simp: tx_wf_def word_unat_eq_iff)
  show ?thesis
  proof (cases "has_witness tx")
    case False
    then show ?thesis
      using tx_read_body_write [OF wf, of "[]" False] n0
      by (simp add: tx_read_def serialize_def serialize_legacy_def write_inputs_outputs_def pbind_apply compact.dec_enc)
  next
    case True
    have "compact_size (0 # d) = Inr (0, d)" for d
      using compact.dec_enc [of 0 d] by (simp add: write_compact_size_def)
    then show ?thesis
      using True tx_read_body_write [OF wf, of _ True] n0
      by (simp add: tx_read_def serialize_def write_inputs_outputs_def pbind_apply compact.dec_enc)
  qed
qed

section \<open>Properties\<close>

text \<open>Transactions survive serialization: parsing the bytes of any transaction with at least one
  input and within the parser's size limits returns the transaction, witnesses included, in
  both the legacy and the segwit format.\<close>

theorem transaction_roundtrip:
  assumes "tx_wf tx"
  shows "tx_deserialize (serialize tx) = Inr tx"
  using tx_read_write [OF assms] by (simp add: tx_deserialize_def)

theorem transaction_roundtrip_witness:
  "tx_deserialize (serialize \<lparr>tx_version = 2, lock_time = 0,
      tx_input = [\<lparr>previous_output = \<lparr>op_txid = replicate 32 1, op_vout = 0\<rparr>, script_sig = [], sequence = 0,
        witness = [[1, 2]]\<rparr>], tx_output = [\<lparr>txo_value = 5, script_pubkey = [0x51]\<rparr>]\<rparr>)
   = Inr \<lparr>tx_version = 2, lock_time = 0,
      tx_input = [\<lparr>previous_output = \<lparr>op_txid = replicate 32 1, op_vout = 0\<rparr>, script_sig = [], sequence = 0,
        witness = [[1, 2]]\<rparr>], tx_output = [\<lparr>txo_value = 5, script_pubkey = [0x51]\<rparr>]\<rparr>"
  by (rule transaction_roundtrip) (simp add: tx_wf_def input_wf_def output_wf_def)

text \<open>Signatures and ids do not depend on witnesses: the txid and every BIP-143 signature hash of
  a transaction are those of the transaction with its witnesses removed, so attaching
  signatures changes neither.\<close>

theorem witness_not_committed:
  "tx_txid (tx\<lparr>tx_input := map (\<lambda>i. i\<lparr>witness := []\<rparr>) (tx_input tx)\<rparr>) = tx_txid tx
   \<and> segwit_v0_sighash (SighashCache_new (tx\<lparr>tx_input := map (\<lambda>i. i\<lparr>witness := []\<rparr>) (tx_input tx)\<rparr>)) k code v t
     = segwit_v0_sighash (SighashCache_new tx) k code v t"
  by (simp add: tx_txid_def serialize_legacy_def write_inputs_outputs_def segwit_v0_sighash_def
      sighash_preimage_def SighashCache_new_def Let_def o_def)

end
