(* ===== verification/Bitcoin_Script.thy ===== *)
theory Bitcoin_Script
  imports Crypto_Hash
begin

text \<open>
  \<^verbatim>\<open>src/src/bitcoin/script.rs\<close>: opcodes, the segwit output templates, the script builder and the
  minimal number encoding, shown inverse to the CScriptNum decoding rule and minimal. A script
  is its bytes; a builder method maps the bytes so far to the extended bytes.
\<close>

unbundle bit_operations_syntax

section \<open>Opcodes and templates\<close>

definition OP_0 :: u8 where "OP_0 = 0x00"
definition OP_PUSHDATA1 :: u8 where "OP_PUSHDATA1 = 0x4c"
definition OP_PUSHDATA2 :: u8 where "OP_PUSHDATA2 = 0x4d"
definition OP_PUSHDATA4 :: u8 where "OP_PUSHDATA4 = 0x4e"
definition OP_1NEGATE :: u8 where "OP_1NEGATE = 0x4f"
definition OP_1 :: u8 where "OP_1 = 0x51"
definition OP_2 :: u8 where "OP_2 = 0x52"
definition OP_16 :: u8 where "OP_16 = 0x60"
definition OP_IF :: u8 where "OP_IF = 0x63"
definition OP_NOTIF :: u8 where "OP_NOTIF = 0x64"
definition OP_ELSE :: u8 where "OP_ELSE = 0x67"
definition OP_ENDIF :: u8 where "OP_ENDIF = 0x68"
definition OP_RETURN :: u8 where "OP_RETURN = 0x6a"
definition OP_DROP :: u8 where "OP_DROP = 0x75"
definition OP_DUP :: u8 where "OP_DUP = 0x76"
definition OP_SWAP :: u8 where "OP_SWAP = 0x7c"
definition OP_SIZE :: u8 where "OP_SIZE = 0x82"
definition OP_EQUAL :: u8 where "OP_EQUAL = 0x87"
definition OP_EQUALVERIFY :: u8 where "OP_EQUALVERIFY = 0x88"
definition OP_ADD :: u8 where "OP_ADD = 0x93"
definition OP_HASH160 :: u8 where "OP_HASH160 = 0xa9"
definition OP_CHECKSIG :: u8 where "OP_CHECKSIG = 0xac"
definition OP_CHECKSIGVERIFY :: u8 where "OP_CHECKSIGVERIFY = 0xad"
definition OP_CHECKMULTISIG :: u8 where "OP_CHECKMULTISIG = 0xae"
definition OP_CHECKLOCKTIMEVERIFY :: u8 where "OP_CHECKLOCKTIMEVERIFY = 0xb1"
definition OP_CHECKSEQUENCEVERIFY :: u8 where "OP_CHECKSEQUENCEVERIFY = 0xb2"

definition new_p2wsh :: "bytes \<Rightarrow> bytes" where
  "new_p2wsh witness_script = [OP_0, 32] @ sha256_digest witness_script"

definition new_p2wpkh_from_pubkey :: "bytes \<Rightarrow> bytes" where
  "new_p2wpkh_from_pubkey compressed_pubkey = [OP_0, 20] @ hash160 compressed_pubkey"

definition new_p2wpkh :: "bytes \<Rightarrow> bytes" where
  "new_p2wpkh pubkey_hash = [OP_0, 20] @ pubkey_hash"

definition is_p2wsh :: "bytes \<Rightarrow> bool" where
  "is_p2wsh s = (length s = 34 \<and> s ! 0 = OP_0 \<and> s ! 1 = 32)"

definition is_p2wpkh :: "bytes \<Rightarrow> bool" where
  "is_p2wpkh s = (length s = 22 \<and> s ! 0 = OP_0 \<and> s ! 1 = 20)"

definition is_witness_program :: "bytes \<Rightarrow> bool" where
  "is_witness_program s =
     (if length s < 4 \<or> length s > 42 then False
      else
        let version_ok = (s ! 0 = OP_0 \<or> (OP_1 \<le> s ! 0 \<and> s ! 0 \<le> OP_16));
            push_len = unat (s ! 1)
        in version_ok \<and> 2 \<le> push_len \<and> push_len \<le> 40 \<and> length s = push_len + 2)"

definition p2wpkh_script_code :: "bytes \<Rightarrow> bytes option" where
  "p2wpkh_script_code s =
     (if \<not> is_p2wpkh s then None
      else Some ([OP_DUP, OP_HASH160, 20] @ take 20 (drop 2 s) @ [OP_EQUALVERIFY, OP_CHECKSIG]))"

section \<open>The builder\<close>

definition push_opcode :: "u8 \<Rightarrow> bytes \<Rightarrow> bytes" where
  "push_opcode opc b = b @ [opc]"

definition push_slice :: "bytes \<Rightarrow> bytes \<Rightarrow> bytes" where
  "push_slice data b =
     b @ (if length data = 0 then [OP_0]
          else if length data \<le> 0x4b then [of_nat (length data)] @ data
          else if length data \<le> 0xff then [OP_PUSHDATA1, of_nat (length data)] @ data
          else if length data \<le> 0xffff then
            [OP_PUSHDATA2] @ to_le_bytes (of_nat (length data) :: u16) @ data
          else [OP_PUSHDATA4] @ to_le_bytes (of_nat (length data) :: u32) @ data)"

function magnitude_bytes :: "nat \<Rightarrow> bytes" where
  "magnitude_bytes a = (if a = 0 then [] else of_nat (a mod 256) # magnitude_bytes (a div 256))"
  by pat_completeness auto
termination by (relation "measure id") auto

declare magnitude_bytes.simps [simp del]

definition scriptnum_encode :: "int \<Rightarrow> bytes" where
  "scriptnum_encode n =
     (if n = 0 then []
      else
        let negative = (n < 0); out = magnitude_bytes (nat \<bar>n\<bar>) in
        if last out AND 0x80 \<noteq> 0 then out @ [if negative then 0x80 else 0x00]
        else if negative then out[length out - 1 := last out OR 0x80]
        else out)"

definition push_int :: "int \<Rightarrow> bytes \<Rightarrow> bytes" where
  "push_int n b =
     (if n = 0 then push_opcode OP_0 b
      else if n = -1 then push_opcode OP_1NEGATE b
      else if 1 \<le> n \<and> n \<le> 16 then push_opcode (OP_1 + of_int n - 1) b
      else push_slice (scriptnum_encode n) b)"

text \<open>A chain of builder calls on an empty builder.\<close>

definition build_script :: "(bytes \<Rightarrow> bytes) list \<Rightarrow> bytes" where
  "build_script steps = foldl (\<lambda>b step. step b) [] steps"

section \<open>Script numbers\<close>

text \<open>The consensus rule for reading a number: little-endian magnitude, the top bit of the last byte
  is the sign.\<close>

definition scriptnum_decode :: "bytes \<Rightarrow> int" where
  "scriptnum_decode bs =
     (if bs = [] then 0
      else let m = int (le_val (butlast bs @ [last bs AND 0x7f]))
           in if last bs AND 0x80 \<noteq> 0 then - m else m)"

definition scriptnum_minimal :: "bytes \<Rightarrow> bool" where
  "scriptnum_minimal bs \<longleftrightarrow>
     bs = [] \<or> last bs AND 0x7f \<noteq> 0 \<or> (2 \<le> length bs \<and> last (butlast bs) AND 0x80 \<noteq> 0)"

lemma magnitude_le_val: "le_val (magnitude_bytes a) = a"
proof (induction a rule: magnitude_bytes.induct)
  case (1 a)
  then show ?case by (cases "a = 0") (subst magnitude_bytes.simps; simp add: unat_of_nat)+
qed

lemma magnitude_last: "0 < a \<Longrightarrow> magnitude_bytes a \<noteq> [] \<and> last (magnitude_bytes a) \<noteq> 0"
proof (induction a rule: magnitude_bytes.induct)
  case (1 a)
  show ?case
  proof (cases "a div 256 = 0")
    case True
    then have "magnitude_bytes (a div 256) = []" "a < 256" by (simp_all add: magnitude_bytes.simps)
    moreover have "unat (of_nat a :: u8) = a" using True by (simp add: unat_of_nat)
    ultimately show ?thesis
      using 1 by (subst (1 2) magnitude_bytes.simps) (auto simp: word_unat_eq_iff)
  next
    case False
    then show ?thesis using 1 by (subst (1 2) magnitude_bytes.simps) simp
  qed
qed

lemma u8_split: "(b :: u8) = (b AND 0x7f) OR (b AND 0x80)"
  "(b OR 0x80) AND 0x7f = b AND 0x7f" "(b OR 0x80) AND 0x80 = 0x80"
proof -
  have "(0xff :: u8) = - 1" by simp
  then have "b AND 0xff = b" by (simp only: and_minus_numerals bit.conj_one_right)
  then show "b = (b AND 0x7f) OR (b AND 0x80)" "(b OR 0x80) AND 0x7f = b AND 0x7f"
    by (simp_all add: bit.conj_disj_distrib [symmetric] bit.conj_disj_distrib2)
  show "(b OR 0x80) AND 0x80 = 0x80" by (simp add: bit.conj_disj_distrib2 and.assoc)
qed

lemma u8_low: "(b :: u8) AND 0x80 = 0 \<Longrightarrow> b AND 0x7f = b"
  using u8_split(1) [of b] by simp

lemma le_val_snoc0: "le_val (xs @ [0]) = le_val xs"
  by (induction xs) simp_all

lemma scriptnum_roundtrip_lemma:
  "scriptnum_decode (scriptnum_encode n) = n \<and> scriptnum_minimal (scriptnum_encode n)"
proof (cases "n = 0")
  case True
  then show ?thesis by (simp add: scriptnum_encode_def scriptnum_decode_def scriptnum_minimal_def)
next
  case False
  define out where "out = magnitude_bytes (nat \<bar>n\<bar>)"
  have out: "out \<noteq> []" "last out \<noteq> 0" "int (le_val out) = \<bar>n\<bar>"
    using magnitude_last [of "nat \<bar>n\<bar>"] magnitude_le_val [of "nat \<bar>n\<bar>"] False by (simp_all add: out_def)
  have enc: "scriptnum_encode n = (if last out AND 0x80 \<noteq> 0 then out @ [if n < 0 then 0x80 else 0x00]
      else if n < 0 then out[length out - 1 := last out OR 0x80] else out)"
    using False by (simp add: scriptnum_encode_def out_def Let_def)
  show ?thesis
  proof (cases "last out AND 0x80 = 0")
    case high: False
    then have "0 < length out" using out by simp
    then show ?thesis
      using high out by (auto simp: enc scriptnum_decode_def scriptnum_minimal_def le_val_snoc0 Suc_le_eq)
  next
    case low: True
    have last: "last out AND 0x7f = last out" by (rule u8_low [OF low])
    have upd: "out[length out - 1 := v] = butlast out @ [v]" for v
      using out(1) by (simp add: butlast_conv_take upd_conv_take_nth_drop)
    have val: "le_val (butlast out @ [last out]) = le_val out" using out(1) by simp
    show ?thesis
      unfolding enc upd using low out last val
      by (simp add: scriptnum_decode_def scriptnum_minimal_def u8_split(2,3))
  qed
qed

section \<open>Properties\<close>

text \<open>Script numbers are encoded correctly and minimally: every integer decodes from its
  encoding under the consensus rule, and the encoding has no superfluous last byte.\<close>

theorem scriptnum_roundtrip:
  "scriptnum_decode (scriptnum_encode n) = n \<and> scriptnum_minimal (scriptnum_encode n)"
  by (rule scriptnum_roundtrip_lemma)

text \<open>The output templates are what their recognisers accept: P2WSH and P2WPKH scripts have
  their lengths, are recognised as such and as witness programs, and the signing script of a
  P2WPKH output is the P2PKH script of the same key hash.\<close>

theorem segwit_templates:
  "is_p2wsh (new_p2wsh w) \<and> is_witness_program (new_p2wsh w) \<and> \<not> is_p2wpkh (new_p2wsh w)
   \<and> is_p2wpkh (new_p2wpkh_from_pubkey pk) \<and> is_witness_program (new_p2wpkh_from_pubkey pk)
   \<and> p2wpkh_script_code (new_p2wpkh_from_pubkey pk)
     = Some ([OP_DUP, OP_HASH160, 20] @ hash160 pk @ [OP_EQUALVERIFY, OP_CHECKSIG])"
  by (simp add: is_p2wsh_def new_p2wsh_def is_witness_program_def is_p2wpkh_def new_p2wpkh_from_pubkey_def
      p2wpkh_script_code_def)

end
