(* ===== verification/Keys.thy ===== *)
theory Keys
  imports Wire_Ser Crypto_Mac Shachain
begin

text \<open>
  \<^verbatim>\<open>src/src/keys.rs\<close> and \<^verbatim>\<open>src/src/sign/mod.rs\<close>: BOLT 3 key derivation and the in-memory
  signer. The curve operations of the \<^verbatim>\<open>secp256k1\<close> crate are parameters, collected in a record
  that extends the wire-level one; a call the sources unwrap with \<^verbatim>\<open>expect\<close> is a total function
  here, its failure being a panic. The private-key derivations are shown to produce the secrets
  of the public-key derivations, from the homomorphism laws of the library alone.
\<close>

section \<open>The curve operations\<close>

type_synonym SecretKey = bytes

record EC = Secp +
  seckey_from_slice_ok :: "bytes \<Rightarrow> bool"
  sk_public_key :: "SecretKey \<Rightarrow> PublicKey"
  pk_add_exp_tweak :: "PublicKey \<Rightarrow> bytes \<Rightarrow> PublicKey"
  pk_mul_tweak :: "PublicKey \<Rightarrow> bytes \<Rightarrow> PublicKey"
  pk_combine :: "PublicKey \<Rightarrow> PublicKey \<Rightarrow> PublicKey"
  sk_add_tweak :: "SecretKey \<Rightarrow> bytes \<Rightarrow> SecretKey"
  sk_mul_tweak :: "SecretKey \<Rightarrow> bytes \<Rightarrow> SecretKey"
  sign_ecdsa :: "bytes \<Rightarrow> SecretKey \<Rightarrow> Signature"
  verify_ecdsa :: "bytes \<Rightarrow> Signature \<Rightarrow> PublicKey \<Rightarrow> bool"
  serialize_der :: "Signature \<Rightarrow> bytes"

section \<open>Key derivation\<close>

record ChannelPublicKeys =
  funding_pubkey :: PublicKey
  revocation_basepoint :: PublicKey
  payment_basepoint :: PublicKey
  delayed_payment_basepoint :: PublicKey
  htlc_basepoint :: PublicKey

record TxCreationKeys =
  per_commitment_point :: PublicKey
  revocation_key :: PublicKey
  broadcaster_htlc_key :: PublicKey
  countersignatory_htlc_key :: PublicKey
  broadcaster_delayed_payment_key :: PublicKey

definition tweak :: "PublicKey \<Rightarrow> PublicKey \<Rightarrow> bytes" where
  "tweak a b =
     (let h = sha256_new; h = sha256_update h a; h = sha256_update h b in sha256_finalize h)"

definition derive_pubkey :: "EC \<Rightarrow> PublicKey \<Rightarrow> PublicKey \<Rightarrow> PublicKey" where
  "derive_pubkey E basepoint pcp = pk_add_exp_tweak E basepoint (tweak pcp basepoint)"

definition derive_privkey :: "EC \<Rightarrow> SecretKey \<Rightarrow> PublicKey \<Rightarrow> SecretKey" where
  "derive_privkey E base_secret pcp =
     (let basepoint = sk_public_key E base_secret
      in sk_add_tweak E base_secret (tweak pcp basepoint))"

definition derive_revocation_pubkey :: "EC \<Rightarrow> PublicKey \<Rightarrow> PublicKey \<Rightarrow> PublicKey" where
  "derive_revocation_pubkey E rev_basepoint pcp =
     (let a = pk_mul_tweak E rev_basepoint (tweak rev_basepoint pcp);
          b = pk_mul_tweak E pcp (tweak pcp rev_basepoint)
      in pk_combine E a b)"

definition derive_revocation_privkey :: "EC \<Rightarrow> SecretKey \<Rightarrow> SecretKey \<Rightarrow> SecretKey" where
  "derive_revocation_privkey E revocation_base_secret per_commitment_secret =
     (let rev_basepoint = sk_public_key E revocation_base_secret;
          pcp = sk_public_key E per_commitment_secret;
          a = sk_mul_tweak E revocation_base_secret (tweak rev_basepoint pcp);
          b = sk_mul_tweak E per_commitment_secret (tweak pcp rev_basepoint)
      in sk_add_tweak E a b)"

definition per_commitment_point_of :: "EC \<Rightarrow> bytes \<Rightarrow> PublicKey" where
  "per_commitment_point_of E per_commitment_secret = sk_public_key E per_commitment_secret"

definition TxCreationKeys_derive ::
  "EC \<Rightarrow> PublicKey \<Rightarrow> ChannelPublicKeys \<Rightarrow> ChannelPublicKeys \<Rightarrow> TxCreationKeys" where
  "TxCreationKeys_derive E pcp broadcaster countersignatory =
     \<lparr>per_commitment_point = pcp,
      revocation_key = derive_revocation_pubkey E (revocation_basepoint countersignatory) pcp,
      broadcaster_htlc_key = derive_pubkey E (htlc_basepoint broadcaster) pcp,
      countersignatory_htlc_key = derive_pubkey E (htlc_basepoint countersignatory) pcp,
      broadcaster_delayed_payment_key = derive_pubkey E (delayed_payment_basepoint broadcaster) pcp\<rparr>"

section \<open>Entropy and the in-memory signer\<close>

record TestEntropy =
  te_seed :: bytes
  te_counter :: u64

definition TestEntropy_new :: "bytes \<Rightarrow> TestEntropy" where
  "TestEntropy_new seed = \<lparr>te_seed = seed, te_counter = 0\<rparr>"

definition get_random_bytes :: "TestEntropy \<Rightarrow> bytes \<times> TestEntropy" where
  "get_random_bytes e =
     (let h = sha256_new; h = sha256_update h (te_seed e); h = sha256_update h (to_be_bytes (te_counter e))
      in (sha256_finalize h, e\<lparr>te_counter := te_counter e + 1\<rparr>))"

record InMemoryChannelSigner =
  funding_key :: SecretKey
  revocation_base_key :: SecretKey
  payment_key :: SecretKey
  delayed_payment_base_key :: SecretKey
  htlc_base_key :: SecretKey
  commitment_seed :: bytes
  signer_pubkeys :: ChannelPublicKeys

definition signer_new ::
  "EC \<Rightarrow> SecretKey \<Rightarrow> SecretKey \<Rightarrow> SecretKey \<Rightarrow> SecretKey \<Rightarrow> SecretKey \<Rightarrow> bytes \<Rightarrow> InMemoryChannelSigner" where
  "signer_new E funding revocation payment delayed htlc seed =
     \<lparr>funding_key = funding, revocation_base_key = revocation, payment_key = payment,
      delayed_payment_base_key = delayed, htlc_base_key = htlc, commitment_seed = seed,
      signer_pubkeys =
        \<lparr>funding_pubkey = sk_public_key E funding, revocation_basepoint = sk_public_key E revocation,
         payment_basepoint = sk_public_key E payment,
         delayed_payment_basepoint = sk_public_key E delayed, htlc_basepoint = sk_public_key E htlc\<rparr>\<rparr>"

definition release_commitment_secret :: "InMemoryChannelSigner \<Rightarrow> u64 \<Rightarrow> bytes" where
  "release_commitment_secret s n = generate_from_seed (commitment_seed s) (index_for_commitment n)"

definition signer_per_commitment_point :: "EC \<Rightarrow> InMemoryChannelSigner \<Rightarrow> u64 \<Rightarrow> PublicKey" where
  "signer_per_commitment_point E s n =
     (let secret = generate_from_seed (commitment_seed s) (index_for_commitment n)
      in sk_public_key E secret)"

definition sign_with_funding_key :: "EC \<Rightarrow> InMemoryChannelSigner \<Rightarrow> bytes \<Rightarrow> Signature" where
  "sign_with_funding_key E s sighash = sign_ecdsa E sighash (funding_key s)"

definition sign_htlc :: "EC \<Rightarrow> InMemoryChannelSigner \<Rightarrow> bytes \<Rightarrow> PublicKey \<Rightarrow> Signature" where
  "sign_htlc E s sighash pcp =
     (let key = derive_privkey E (htlc_base_key s) pcp in sign_ecdsa E sighash key)"

definition sign_delayed_payment :: "EC \<Rightarrow> InMemoryChannelSigner \<Rightarrow> bytes \<Rightarrow> PublicKey \<Rightarrow> Signature" where
  "sign_delayed_payment E s sighash pcp =
     (let key = derive_privkey E (delayed_payment_base_key s) pcp in sign_ecdsa E sighash key)"

definition sign_payment :: "EC \<Rightarrow> InMemoryChannelSigner \<Rightarrow> bytes \<Rightarrow> Signature" where
  "sign_payment E s sighash = sign_ecdsa E sighash (payment_key s)"

definition sign_revocation :: "EC \<Rightarrow> InMemoryChannelSigner \<Rightarrow> bytes \<Rightarrow> bytes \<Rightarrow> Signature" where
  "sign_revocation E s sighash counterparty_secret =
     (let key = derive_revocation_privkey E (revocation_base_key s) counterparty_secret
      in sign_ecdsa E sighash key)"

text \<open>
  \<^verbatim>\<open>derive_key\<close> tries the salts \<open>0, 1, 2, \<dots>\<close> (wrapping at 256) until the library accepts the
  output as a secret key; it is \<open>None\<close> when no salt works, where the loop would not end. Each
  call of \<^verbatim>\<open>expand\<close> fills the whole 32-byte buffer.
\<close>

definition derive_candidate :: "bytes \<Rightarrow> bytes \<Rightarrow> u64 \<Rightarrow> u8 \<Rightarrow> u8 \<Rightarrow> bytes option" where
  "derive_candidate seed label index sub salt =
     (let prk = hkdf_extract label seed;
          info = to_be_bytes index @ [sub];
          full_info = info @ [salt]
      in hkdf_expand prk full_info (replicate 32 0))"

partial_function (option) derive_key_loop ::
  "EC \<Rightarrow> bytes \<Rightarrow> bytes \<Rightarrow> u64 \<Rightarrow> u8 \<Rightarrow> u8 \<Rightarrow> SecretKey option" where
  "derive_key_loop E seed label index sub salt =
     (case derive_candidate seed label index sub salt of
        None \<Rightarrow> None
      | Some okm \<Rightarrow>
          if seckey_from_slice_ok E okm then Some okm
          else derive_key_loop E seed label index sub (salt + 1))"

definition derive_key :: "EC \<Rightarrow> bytes \<Rightarrow> bytes \<Rightarrow> u64 \<Rightarrow> u8 \<Rightarrow> SecretKey option" where
  "derive_key E seed label index sub = derive_key_loop E seed label index sub 0"

section \<open>Private keys match public keys\<close>

text \<open>The documented behaviour of the library that the derivations rely on: taking public keys is a
  homomorphism for both tweaks, and addition of secrets is addition of points.\<close>

definition ec_laws :: "EC \<Rightarrow> bool" where
  "ec_laws E \<longleftrightarrow>
     (\<forall>s t. sk_public_key E (sk_mul_tweak E s t) = pk_mul_tweak E (sk_public_key E s) t)
   \<and> (\<forall>s t. sk_public_key E (sk_add_tweak E s t) = pk_add_exp_tweak E (sk_public_key E s) t)
   \<and> (\<forall>s t. sk_public_key E (sk_add_tweak E s t) = pk_combine E (sk_public_key E s) (sk_public_key E t))"

text \<open>A one-dimensional stand-in for the curve in which keys are their own public keys; it serves
  the witnesses.\<close>

definition toy_ec :: EC where
  "toy_ec = \<lparr>pubkey_from_slice_ok = \<lambda>_. True, signature_from_compact_ok = \<lambda>_. True,
     seckey_from_slice_ok = \<lambda>_. True, sk_public_key = \<lambda>s. s,
     pk_add_exp_tweak = \<lambda>p t. map2 (+) p t, pk_mul_tweak = \<lambda>p t. map2 (*) p t,
     pk_combine = \<lambda>p q. map2 (+) p q, sk_add_tweak = \<lambda>s t. map2 (+) s t,
     sk_mul_tweak = \<lambda>s t. map2 (*) s t, sign_ecdsa = \<lambda>m k. m @ k,
     verify_ecdsa = \<lambda>m s k. s = m @ k, serialize_der = \<lambda>s. s\<rparr>"

lemma toy_ec_laws: "ec_laws toy_ec"
  by (simp add: ec_laws_def toy_ec_def)

text \<open>The secret keys the signer derives are the secrets of the public keys the transactions use:
  for the tweaked basepoints, and for the revocation key, which whoever knows the revocation
  base secret and the revealed per-commitment secret can compute.\<close>

theorem derived_secrets_match_pubkeys:
  assumes "ec_laws E"
  shows "sk_public_key E (derive_privkey E s P) = derive_pubkey E (sk_public_key E s) P
    \<and> sk_public_key E (derive_revocation_privkey E rs cs)
        = derive_revocation_pubkey E (sk_public_key E rs) (sk_public_key E cs)"
proof
  have add: "sk_public_key E (sk_add_tweak E a t) = pk_add_exp_tweak E (sk_public_key E a) t"
    and mul: "sk_public_key E (sk_mul_tweak E a t) = pk_mul_tweak E (sk_public_key E a) t" for a t
    using assms unfolding ec_laws_def by blast+
  have sum: "sk_public_key E (sk_add_tweak E a t) = pk_combine E (sk_public_key E a) (sk_public_key E t)" for a t
    using assms unfolding ec_laws_def by blast
  show "sk_public_key E (derive_privkey E s P) = derive_pubkey E (sk_public_key E s) P"
    by (simp add: derive_privkey_def derive_pubkey_def Let_def add)
  show "sk_public_key E (derive_revocation_privkey E rs cs)
      = derive_revocation_pubkey E (sk_public_key E rs) (sk_public_key E cs)"
    unfolding derive_revocation_privkey_def derive_revocation_pubkey_def Let_def sum mul ..
qed

theorem derived_secrets_match_pubkeys_witness:
  "sk_public_key toy_ec (derive_privkey toy_ec [1] [2]) = derive_pubkey toy_ec (sk_public_key toy_ec [1]) [2]
   \<and> sk_public_key toy_ec (derive_revocation_privkey toy_ec [3] [4])
        = derive_revocation_pubkey toy_ec (sk_public_key toy_ec [3]) (sk_public_key toy_ec [4])"
  by (rule derived_secrets_match_pubkeys [OF toy_ec_laws])

text \<open>\<^verbatim>\<open>derive_key\<close> ends as soon as the library accepts one of the 256 salted outputs: it returns
  the output of the first accepted salt, which is an accepted secret key.\<close>

theorem derive_key_first_valid_salt:
  assumes "k < 256"
    and "\<And>j. j < k \<Longrightarrow> \<exists>okm. derive_candidate seed label index sub (of_nat j) = Some okm \<and> \<not> seckey_from_slice_ok E okm"
    and "derive_candidate seed label index sub (of_nat k) = Some okm" and "seckey_from_slice_ok E okm"
  shows "derive_key E seed label index sub = Some okm"
proof -
  have "derive_key_loop E seed label index sub (of_nat (k - d)) = Some okm" if "d \<le> k" for d
    using that
  proof (induction d)
    case 0
    then show ?case using assms(3,4) by (subst derive_key_loop.simps) simp
  next
    case (Suc d)
    then obtain o1 where "derive_candidate seed label index sub (of_nat (k - Suc d)) = Some o1"
        "\<not> seckey_from_slice_ok E o1"
      using assms(2) [of "k - Suc d"] by auto
    moreover have "of_nat (k - Suc d) + (1 :: u8) = of_nat (k - d)"
      using Suc.prems by (metis Suc_diff_Suc Suc_le_lessD add.commute of_nat_Suc)
    ultimately show ?case using Suc by (subst derive_key_loop.simps) simp
  qed
  from this [of k] show ?thesis by (simp add: derive_key_def)
qed

lemma derive_candidate_some: "\<exists>okm. derive_candidate seed label index sub salt = Some okm"
  using hkdf_expand_blocks [of "replicate 32 0" "hkdf_extract label seed" "to_be_bytes index @ [sub, salt]"]
  by (auto simp: derive_candidate_def Let_def)

theorem derive_key_first_valid_salt_witness:
  "\<exists>okm. derive_key toy_ec [1] [2] 0 0 = Some okm"
proof -
  obtain okm where "derive_candidate [1] [2] 0 0 (of_nat 0) = Some okm" using derive_candidate_some by blast
  from derive_key_first_valid_salt [of 0, OF _ _ this, of toy_ec] show ?thesis by (auto simp: toy_ec_def)
qed

end
