(* ===== verification/Commitment.thy ===== *)
theory Commitment
  imports Types Bitcoin_Tx Bitcoin_Script Keys
    "HOL-Library.List_Lexorder" "HOL-Library.Product_Lexorder" "HOL-Library.Multiset"
begin

text \<open>
  \<^verbatim>\<open>src/src/commitment/mod.rs\<close>: the witness scripts, the commitment transaction with its trimming,
  fee and ordering rules, the second-stage HTLC transactions, the closing transaction and the
  witnesses that spend them.
\<close>

unbundle bit_operations_syntax

section \<open>Fees and trimming\<close>

definition COMMITMENT_TX_BASE_WEIGHT :: u64 where "COMMITMENT_TX_BASE_WEIGHT = 724"
definition COMMITMENT_TX_WEIGHT_PER_HTLC :: u64 where "COMMITMENT_TX_WEIGHT_PER_HTLC = 172"
definition HTLC_TIMEOUT_TX_WEIGHT :: u64 where "HTLC_TIMEOUT_TX_WEIGHT = 663"
definition HTLC_SUCCESS_TX_WEIGHT :: u64 where "HTLC_SUCCESS_TX_WEIGHT = 703"
definition CLOSING_TX_WEIGHT_BOUND :: u64 where "CLOSING_TX_WEIGHT_BOUND = 714"

record HtlcOutputInCommitment =
  offered :: bool
  h_amount_msat :: Msat
  h_cltv_expiry :: u32
  h_payment_hash :: PaymentHash

definition htlc_timeout_fee :: "u32 \<Rightarrow> u64" where
  "htlc_timeout_fee feerate = fee_for_weight feerate HTLC_TIMEOUT_TX_WEIGHT"

definition htlc_success_fee :: "u32 \<Rightarrow> u64" where
  "htlc_success_fee feerate = fee_for_weight feerate HTLC_SUCCESS_TX_WEIGHT"

definition htlc_is_trimmed :: "HtlcOutputInCommitment \<Rightarrow> u32 \<Rightarrow> u64 \<Rightarrow> bool" where
  "htlc_is_trimmed htlc feerate broadcaster_dust_limit_sat =
     (let second_stage_fee = (if offered htlc then htlc_timeout_fee feerate else htlc_success_fee feerate)
      in to_sat_floor (h_amount_msat htlc) < broadcaster_dust_limit_sat + second_stage_fee)"

section \<open>Scripts\<close>

text \<open>\<^verbatim>\<open>a.serialize() <= b.serialize()\<close> compares byte arrays lexicographically.\<close>

definition funding_redeemscript :: "PublicKey \<Rightarrow> PublicKey \<Rightarrow> Script" where
  "funding_redeemscript a b =
     (let (first, second) = (if a \<le> b then (a, b) else (b, a)) in
      build_script [push_int 2, push_slice first, push_slice second, push_int 2,
        push_opcode OP_CHECKMULTISIG])"

definition revocable_delayed :: "PublicKey \<Rightarrow> u16 \<Rightarrow> PublicKey \<Rightarrow> Script" where
  "revocable_delayed rev_key to_self_delay delayed_payment_key =
     build_script
       [push_opcode OP_IF, push_slice rev_key, push_opcode OP_ELSE, push_int (uint to_self_delay),
        push_opcode OP_CHECKSEQUENCEVERIFY, push_opcode OP_DROP, push_slice delayed_payment_key,
        push_opcode OP_ENDIF, push_opcode OP_CHECKSIG]"

definition to_remote :: "PublicKey \<Rightarrow> Script" where
  "to_remote countersignatory_payment_basepoint = new_p2wpkh_from_pubkey countersignatory_payment_basepoint"

definition revocation_pubkey_hash160 :: "PublicKey \<Rightarrow> bytes" where
  "revocation_pubkey_hash160 rev_key = rmd_digest (sha256_digest rev_key)"

definition payment_hash_ripemd :: "PaymentHash \<Rightarrow> bytes" where
  "payment_hash_ripemd ph = rmd_digest ph"

definition offered_htlc :: "TxCreationKeys \<Rightarrow> PaymentHash \<Rightarrow> Script" where
  "offered_htlc keys ph =
     build_script
       [push_opcode OP_DUP, push_opcode OP_HASH160,
        push_slice (revocation_pubkey_hash160 (revocation_key keys)), push_opcode OP_EQUAL,
        push_opcode OP_IF, push_opcode OP_CHECKSIG, push_opcode OP_ELSE,
        push_slice (countersignatory_htlc_key keys), push_opcode OP_SWAP, push_opcode OP_SIZE,
        push_int 32, push_opcode OP_EQUAL, push_opcode OP_NOTIF, push_opcode OP_DROP, push_int 2,
        push_opcode OP_SWAP, push_slice (broadcaster_htlc_key keys), push_int 2,
        push_opcode OP_CHECKMULTISIG, push_opcode OP_ELSE, push_opcode OP_HASH160,
        push_slice (payment_hash_ripemd ph), push_opcode OP_EQUALVERIFY, push_opcode OP_CHECKSIG,
        push_opcode OP_ENDIF, push_opcode OP_ENDIF]"

definition received_htlc :: "TxCreationKeys \<Rightarrow> PaymentHash \<Rightarrow> u32 \<Rightarrow> Script" where
  "received_htlc keys ph cltv_expiry =
     build_script
       [push_opcode OP_DUP, push_opcode OP_HASH160,
        push_slice (revocation_pubkey_hash160 (revocation_key keys)), push_opcode OP_EQUAL,
        push_opcode OP_IF, push_opcode OP_CHECKSIG, push_opcode OP_ELSE,
        push_slice (countersignatory_htlc_key keys), push_opcode OP_SWAP, push_opcode OP_SIZE,
        push_int 32, push_opcode OP_EQUAL, push_opcode OP_IF, push_opcode OP_HASH160,
        push_slice (payment_hash_ripemd ph), push_opcode OP_EQUALVERIFY, push_int 2,
        push_opcode OP_SWAP, push_slice (broadcaster_htlc_key keys), push_int 2,
        push_opcode OP_CHECKMULTISIG, push_opcode OP_ELSE, push_opcode OP_DROP,
        push_int (uint cltv_expiry), push_opcode OP_CHECKLOCKTIMEVERIFY, push_opcode OP_DROP,
        push_opcode OP_CHECKSIG, push_opcode OP_ENDIF, push_opcode OP_ENDIF]"

definition htlc_witness_script :: "TxCreationKeys \<Rightarrow> HtlcOutputInCommitment \<Rightarrow> Script" where
  "htlc_witness_script keys htlc =
     (if offered htlc then offered_htlc keys (h_payment_hash htlc)
      else received_htlc keys (h_payment_hash htlc) (h_cltv_expiry htlc))"

definition commit_number_obscure_factor :: "PublicKey \<Rightarrow> PublicKey \<Rightarrow> u64" where
  "commit_number_obscure_factor opener_payment_basepoint accepter_payment_basepoint =
     (let h = sha256_new;
          h = sha256_update h opener_payment_basepoint;
          h = sha256_update h accepter_payment_basepoint;
          d = sha256_finalize h
      in from_be_bytes [0, 0, d ! 26, d ! 27, d ! 28, d ! 29, d ! 30, d ! 31])"

section \<open>The commitment transaction\<close>

record CommitmentTxParams =
  cp_funding_outpoint :: OutPoint
  cp_commitment_number :: u64
  cp_obscure_factor :: u64
  cp_broadcaster_pays_fee :: bool
  cp_feerate :: u32
  cp_broadcaster_dust_limit_sat :: u64
  cp_to_self_delay :: u16
  cp_keys :: TxCreationKeys
  cp_countersignatory_payment_basepoint :: PublicKey
  cp_to_broadcaster_msat :: Msat
  cp_to_countersignatory_msat :: Msat
  cp_htlcs :: "HtlcOutputInCommitment list"

record BuiltCommitmentTx =
  bct_tx :: Transaction
  bct_txid :: Txid
  fee_sat :: u64
  htlc_output_indices :: "u32 option list"
  htlcs_in_output_order :: "(nat \<times> Script) list"
  to_broadcaster_index :: "u32 option"
  to_countersignatory_index :: "u32 option"

datatype Origin = Broadcaster | Countersignatory | HtlcOrigin nat Script

type_synonym Staged = "TxOut \<times> u32 \<times> Origin"

definition num_untrimmed :: "CommitmentTxParams \<Rightarrow> u64" where
  "num_untrimmed p =
     of_nat (length (filter (\<lambda>h. \<not> htlc_is_trimmed h (cp_feerate p) (cp_broadcaster_dust_limit_sat p))
                       (cp_htlcs p)))"

definition base_fee :: "CommitmentTxParams \<Rightarrow> u64" where
  "base_fee p =
     fee_for_weight (cp_feerate p)
       (COMMITMENT_TX_BASE_WEIGHT + COMMITMENT_TX_WEIGHT_PER_HTLC * num_untrimmed p)"

definition to_broadcaster_sat :: "CommitmentTxParams \<Rightarrow> u64" where
  "to_broadcaster_sat p =
     (let v = to_sat_floor (cp_to_broadcaster_msat p)
      in if cp_broadcaster_pays_fee p then saturating_sub v (base_fee p) else v)"

definition to_countersignatory_sat :: "CommitmentTxParams \<Rightarrow> u64" where
  "to_countersignatory_sat p =
     (let v = to_sat_floor (cp_to_countersignatory_msat p)
      in if cp_broadcaster_pays_fee p then v else saturating_sub v (base_fee p))"

definition stage_htlc :: "CommitmentTxParams \<Rightarrow> nat \<times> HtlcOutputInCommitment \<Rightarrow> Staged list" where
  "stage_htlc p ih =
     (case ih of (i, htlc) \<Rightarrow>
        if htlc_is_trimmed htlc (cp_feerate p) (cp_broadcaster_dust_limit_sat p) then []
        else let script = htlc_witness_script (cp_keys p) htlc in
          [(\<lparr>txo_value = to_sat_floor (h_amount_msat htlc), script_pubkey = new_p2wsh script\<rparr>,
            h_cltv_expiry htlc, HtlcOrigin i script)])"

definition staged_outputs :: "CommitmentTxParams \<Rightarrow> Staged list" where
  "staged_outputs p =
     (if cp_broadcaster_dust_limit_sat p \<le> to_broadcaster_sat p
      then [(\<lparr>txo_value = to_broadcaster_sat p,
              script_pubkey = new_p2wsh (revocable_delayed (revocation_key (cp_keys p)) (cp_to_self_delay p)
                (broadcaster_delayed_payment_key (cp_keys p)))\<rparr>, 0, Broadcaster)]
      else []) @
     (if cp_broadcaster_dust_limit_sat p \<le> to_countersignatory_sat p
      then [(\<lparr>txo_value = to_countersignatory_sat p,
              script_pubkey = to_remote (cp_countersignatory_payment_basepoint p)\<rparr>, 0, Countersignatory)]
      else []) @
     concat (map (stage_htlc p) (enumerate 0 (cp_htlcs p)))"

text \<open>\<^verbatim>\<open>sort_by\<close> is stable and compares value, script bytes, then expiry.\<close>

definition output_key :: "Staged \<Rightarrow> u64 \<times> bytes \<times> u32" where
  "output_key s = (case s of (out, cltv, _) \<Rightarrow> (txo_value out, script_pubkey out, cltv))"

definition sorted_outputs :: "CommitmentTxParams \<Rightarrow> Staged list" where
  "sorted_outputs p = sort_key output_key (staged_outputs p)"

text \<open>The final loop over the sorted outputs, with its five accumulators.\<close>

record PlaceState =
  pl_indices :: "u32 option list"
  pl_order :: "(nat \<times> Script) list"
  pl_broadcaster :: "u32 option"
  pl_countersignatory :: "u32 option"
  pl_outputs :: "TxOut list"

definition place_output :: "PlaceState \<Rightarrow> nat \<times> Staged \<Rightarrow> PlaceState" where
  "place_output st vs =
     (case vs of (vout, (out, _, origin)) \<Rightarrow>
        let st = (case origin of
              Broadcaster \<Rightarrow> st\<lparr>pl_broadcaster := Some (of_nat vout)\<rparr>
            | Countersignatory \<Rightarrow> st\<lparr>pl_countersignatory := Some (of_nat vout)\<rparr>
            | HtlcOrigin i script \<Rightarrow>
                st\<lparr>pl_indices := (pl_indices st)[i := Some (of_nat vout)], pl_order := pl_order st @ [(i, script)]\<rparr>)
        in st\<lparr>pl_outputs := pl_outputs st @ [out]\<rparr>)"

definition place_outputs :: "CommitmentTxParams \<Rightarrow> PlaceState" where
  "place_outputs p =
     foldl place_output
       \<lparr>pl_indices = replicate (length (cp_htlcs p)) None, pl_order = [], pl_broadcaster = None,
        pl_countersignatory = None, pl_outputs = []\<rparr>
       (enumerate 0 (sorted_outputs p))"

definition build_commitment_tx :: "CommitmentTxParams \<Rightarrow> BuiltCommitmentTx" where
  "build_commitment_tx p =
     (let obscured = cp_commitment_number p XOR cp_obscure_factor p;
          st = place_outputs p;
          tx = \<lparr>tx_version = 2,
                lock_time = 0x20000000 OR ucast (obscured AND 0xffffff),
                tx_input = [\<lparr>previous_output = cp_funding_outpoint p, script_sig = [],
                   sequence = 0x80000000 OR ucast (drop_bit 24 obscured AND 0xffffff), witness = []\<rparr>],
                tx_output = pl_outputs st\<rparr>
      in \<lparr>bct_tx = tx, bct_txid = tx_txid tx, fee_sat = base_fee p, htlc_output_indices = pl_indices st,
          htlcs_in_output_order = pl_order st, to_broadcaster_index = pl_broadcaster st,
          to_countersignatory_index = pl_countersignatory st\<rparr>)"

section \<open>HTLC transactions, witnesses and the closing transaction\<close>

definition build_htlc_tx ::
  "Txid \<Rightarrow> u32 \<Rightarrow> HtlcOutputInCommitment \<Rightarrow> TxCreationKeys \<Rightarrow> u16 \<Rightarrow> u32 \<Rightarrow> Transaction" where
  "build_htlc_tx commitment_txid htlc_output_index htlc keys to_self_delay feerate =
     (let fee = (if offered htlc then htlc_timeout_fee feerate else htlc_success_fee feerate);
          output_script = revocable_delayed (revocation_key keys) to_self_delay
            (broadcaster_delayed_payment_key keys)
      in \<lparr>tx_version = 2,
          lock_time = (if offered htlc then h_cltv_expiry htlc else 0),
          tx_input = [\<lparr>previous_output = \<lparr>op_txid = commitment_txid, op_vout = htlc_output_index\<rparr>,
             script_sig = [], sequence = 0, witness = []\<rparr>],
          tx_output = [\<lparr>txo_value = saturating_sub (to_sat_floor (h_amount_msat htlc)) fee,
             script_pubkey = new_p2wsh output_script\<rparr>]\<rparr>)"

definition sig_with_sighash_all :: "EC \<Rightarrow> Signature \<Rightarrow> bytes" where
  "sig_with_sighash_all E sig = serialize_der E sig @ [0x01]"

definition funding_spend_witness ::
  "EC \<Rightarrow> PublicKey \<Rightarrow> PublicKey \<Rightarrow> Signature \<Rightarrow> Signature \<Rightarrow> bytes list" where
  "funding_spend_witness E holder_funding_pubkey counterparty_funding_pubkey holder_sig counterparty_sig =
     (let redeem = funding_redeemscript holder_funding_pubkey counterparty_funding_pubkey;
          (first, second) = (if holder_funding_pubkey \<le> counterparty_funding_pubkey
            then (holder_sig, counterparty_sig) else (counterparty_sig, holder_sig))
      in [[], sig_with_sighash_all E first, sig_with_sighash_all E second, redeem])"

definition htlc_tx_witness ::
  "EC \<Rightarrow> Signature \<Rightarrow> Signature \<Rightarrow> PaymentPreimage option \<Rightarrow> Script \<Rightarrow> bytes list" where
  "htlc_tx_witness E countersignatory_sig holder_sig preimage witness_script =
     [[], sig_with_sighash_all E countersignatory_sig, sig_with_sighash_all E holder_sig,
      (case preimage of None \<Rightarrow> [] | Some p \<Rightarrow> p), witness_script]"

definition build_closing_tx ::
  "OutPoint \<Rightarrow> u64 \<Rightarrow> u64 \<Rightarrow> Script \<Rightarrow> Script \<Rightarrow> u64 \<Rightarrow> Transaction" where
  "build_closing_tx funding_outpoint to_holder_sat to_counterparty_sat holder_script counterparty_script
       dust_limit_sat =
     (let outputs =
        (if dust_limit_sat \<le> to_holder_sat
         then [\<lparr>txo_value = to_holder_sat, script_pubkey = holder_script\<rparr>] else []) @
        (if dust_limit_sat \<le> to_counterparty_sat
         then [\<lparr>txo_value = to_counterparty_sat, script_pubkey = counterparty_script\<rparr>] else []);
          outputs = sort_key (\<lambda>out. (txo_value out, script_pubkey out)) outputs
      in \<lparr>tx_version = 2, lock_time = 0,
          tx_input = [\<lparr>previous_output = funding_outpoint, script_sig = [], sequence = 0xffffffff,
             witness = []\<rparr>],
          tx_output = outputs\<rparr>)"

end
