(* ===== verification/Commitment_Correct.thy ===== *)
theory Commitment_Correct
  imports Commitment
begin

text \<open>Correctness of the commitment transaction: ordering, bookkeeping of the output indices,
  conservation of value, recoverability of the commitment number, and agreement of the two
  sides on funding scripts, witnesses and the closing transaction.
\<close>

unbundle bit_operations_syntax

section \<open>Ordering\<close>

lemma sorted_outputs_mset [simp]: "mset (sorted_outputs p) = mset (staged_outputs p)"
  by (simp add: sorted_outputs_def)

lemma sorted_pairs:
  "sorted (map output_key xs) \<Longrightarrow> sorted (map (\<lambda>out. (txo_value out, script_pubkey out)) (map fst xs))"
proof (induction xs)
  case (Cons x xs)
  have "(txo_value (fst x), script_pubkey (fst x)) \<le> (txo_value (fst y), script_pubkey (fst y))"
    if "y \<in> set xs" for y
  proof -
    have "output_key x \<le> output_key y" using Cons.prems that by simp
    then show ?thesis by (cases x; cases y) (auto simp: output_key_def less_eq_prod_def)
  qed
  then show ?case using Cons by auto
qed simp

section \<open>The placement loop\<close>

abbreviation place_init :: "nat \<Rightarrow> PlaceState" where
  "place_init n \<equiv> \<lparr>pl_indices = replicate n None, pl_order = [], pl_broadcaster = None,
     pl_countersignatory = None, pl_outputs = []\<rparr>"

definition htlc_entries :: "Staged list \<Rightarrow> (nat \<times> Script) list" where
  "htlc_entries xs = concat (map (\<lambda>s. case snd (snd s) of HtlcOrigin i script \<Rightarrow> [(i, script)] | _ \<Rightarrow> []) xs)"

lemma place_loop:
  "pl_outputs (foldl place_output (place_init n) (enumerate 0 xs)) = map fst xs
   \<and> pl_order (foldl place_output (place_init n) (enumerate 0 xs)) = htlc_entries xs
   \<and> length (pl_indices (foldl place_output (place_init n) (enumerate 0 xs))) = n"
  by (induction xs rule: rev_induct)
    (auto simp: enumerate_append_eq place_output_def htlc_entries_def Let_def split: Origin.splits)

text \<open>Where the HTLCs land: the pairs of HTLC index and output index, in output order.\<close>

definition positions :: "Staged list \<Rightarrow> (nat \<times> nat) list" where
  "positions xs = concat (map (\<lambda>(k, s). case snd (snd s) of HtlcOrigin i script \<Rightarrow> [(i, k)] | _ \<Rightarrow> [])
     (enumerate 0 xs))"

lemma place_output_indices:
  "pl_indices (place_output st (v, s)) =
     (case snd (snd s) of HtlcOrigin i script \<Rightarrow> (pl_indices st)[i := Some (of_nat v)] | _ \<Rightarrow> pl_indices st)"
  by (cases s) (simp add: place_output_def Let_def split: Origin.splits)

lemma positions_snoc:
  "positions (xs @ [s]) = positions xs @ (case snd (snd s) of HtlcOrigin i script \<Rightarrow> [(i, length xs)] | _ \<Rightarrow> [])"
  by (simp add: positions_def enumerate_append_eq)

lemma place_indices:
  assumes "i < n"
  shows "pl_indices (foldl place_output (place_init n) (enumerate 0 xs)) ! i
    = map_option of_nat (map_of (rev (positions xs)) i)"
proof (induction xs rule: rev_induct)
  case Nil
  then show ?case using assms by (simp add: positions_def)
next
  case (snoc x xs)
  have "length (pl_indices (foldl place_output (place_init n) (enumerate 0 xs))) = n" using place_loop by blast
  then show ?case
    using snoc assms
    by (simp add: enumerate_append_eq place_output_indices positions_snoc nth_list_update split: Origin.splits)
qed

lemma htlc_entries_snoc:
  "htlc_entries (xs @ [s]) = htlc_entries xs @ (case snd (snd s) of HtlcOrigin i script \<Rightarrow> [(i, script)] | _ \<Rightarrow> [])"
  by (simp add: htlc_entries_def)

lemma positions_entries: "map fst (positions xs) = map fst (htlc_entries xs)"
proof (induction xs rule: rev_induct)
  case (snoc x xs)
  then show ?case by (simp add: positions_snoc htlc_entries_snoc split: Origin.splits)
qed (simp add: positions_def htlc_entries_def)

lemma positions_iff:
  "(i, k) \<in> set (positions xs) \<longleftrightarrow> k < length xs \<and> (\<exists>script. snd (snd (xs ! k)) = HtlcOrigin i script)"
proof (induction xs rule: rev_induct)
  case (snoc x xs)
  then show ?case
    by (cases "snd (snd x)") (auto simp: positions_snoc nth_append less_Suc_eq)
qed (simp add: positions_def)

lemma positions_less: "k \<in> set (map snd (positions xs)) \<Longrightarrow> k < length xs"
  by (auto simp: positions_iff)

lemma positions_sorted: "sorted_wrt (<) (map snd (positions xs))"
proof (induction xs rule: rev_induct)
  case (snoc x xs)
  then show ?case
    using positions_less [of _ xs] by (auto simp: positions_snoc sorted_wrt_append split: Origin.splits)
qed (simp add: positions_def)

section \<open>What is staged\<close>

lemma htlc_entries_append: "htlc_entries (xs @ ys) = htlc_entries xs @ htlc_entries ys"
  by (simp add: htlc_entries_def)

lemma htlc_entries_mset: "mset xs = mset ys \<Longrightarrow> mset (htlc_entries xs) = mset (htlc_entries ys)"
proof -
  have "mset (htlc_entries zs)
      = \<Sum>\<^sub># (image_mset (\<lambda>s. mset (case snd (snd s) of HtlcOrigin i script \<Rightarrow> [(i, script)] | _ \<Rightarrow> [])) (mset zs))" for zs
    by (induction zs) (simp_all add: htlc_entries_def)
  then show "mset xs = mset ys \<Longrightarrow> ?thesis" by simp
qed

definition untrimmed :: "CommitmentTxParams \<Rightarrow> HtlcOutputInCommitment \<Rightarrow> bool" where
  "untrimmed p h \<longleftrightarrow> \<not> htlc_is_trimmed h (cp_feerate p) (cp_broadcaster_dust_limit_sat p)"

definition htlc_txout :: "CommitmentTxParams \<Rightarrow> HtlcOutputInCommitment \<Rightarrow> TxOut" where
  "htlc_txout p h = \<lparr>txo_value = to_sat_floor (h_amount_msat h), script_pubkey = new_p2wsh (htlc_witness_script (cp_keys p) h)\<rparr>"

lemma staged_entries:
  "htlc_entries (staged_outputs p)
    = map (\<lambda>(i, h). (i, htlc_witness_script (cp_keys p) h)) (filter (\<lambda>(i, h). untrimmed p h) (enumerate 0 (cp_htlcs p)))"
proof -
  have "htlc_entries (concat (map (stage_htlc p) hs)) =
      map (\<lambda>(i, h). (i, htlc_witness_script (cp_keys p) h)) (filter (\<lambda>(i, h). untrimmed p h) hs)" for hs
    by (induction hs) (auto simp: htlc_entries_def stage_htlc_def untrimmed_def Let_def)
  then show ?thesis by (simp add: staged_outputs_def htlc_entries_append) (simp add: htlc_entries_def)
qed

lemma staged_htlc:
  "(out, c, HtlcOrigin i script) \<in> set (staged_outputs p) \<longleftrightarrow>
     i < length (cp_htlcs p) \<and> untrimmed p (cp_htlcs p ! i) \<and> out = htlc_txout p (cp_htlcs p ! i)
       \<and> c = h_cltv_expiry (cp_htlcs p ! i) \<and> script = htlc_witness_script (cp_keys p) (cp_htlcs p ! i)"
  by (auto simp: staged_outputs_def stage_htlc_def untrimmed_def htlc_txout_def Let_def in_set_enumerate_eq split: if_splits)

lemma distinct_entries: "distinct (map fst (htlc_entries (sorted_outputs p)))"
proof -
  have "distinct (map fst (htlc_entries (staged_outputs p)))"
  proof -
    have "map fst (htlc_entries (staged_outputs p)) = map fst (filter (\<lambda>(i, h). untrimmed p h) (enumerate 0 (cp_htlcs p)))"
      by (simp add: staged_entries case_prod_beta)
    also have "distinct \<dots>" by (rule distinct_map_filter) simp
    finally show ?thesis .
  qed
  moreover have "mset (map fst (htlc_entries (sorted_outputs p))) = mset (map fst (htlc_entries (staged_outputs p)))"
    using htlc_entries_mset [OF sorted_outputs_mset, of p] by simp
  ultimately show ?thesis by (metis mset_eq_imp_distinct_iff)
qed

lemma map_of_rev_distinct: "distinct (map fst xs) \<Longrightarrow> map_of (rev xs) = map_of xs"
  by (rule map_of_eqI) (auto simp: map_of_eq_Some_iff rev_map [symmetric] simp del: rev_map)

lemma landed_index:
  assumes "i < length (cp_htlcs p)"
  shows "pl_indices (place_outputs p) ! i = map_option of_nat (map_of (positions (sorted_outputs p)) i)"
  using place_indices [OF assms, of "sorted_outputs p"] distinct_entries [of p]
  by (simp add: place_outputs_def map_of_rev_distinct positions_entries)

lemma landed_output:
  assumes "map_of (positions (sorted_outputs p)) i = Some k"
  shows "k < length (sorted_outputs p) \<and> i < length (cp_htlcs p) \<and> untrimmed p (cp_htlcs p ! i)
    \<and> fst (sorted_outputs p ! k) = htlc_txout p (cp_htlcs p ! i)"
proof -
  have "(i, k) \<in> set (positions (sorted_outputs p))" using assms by (rule map_of_SomeD)
  then obtain script where k: "k < length (sorted_outputs p)" "snd (snd (sorted_outputs p ! k)) = HtlcOrigin i script"
    by (auto simp: positions_iff)
  moreover obtain out c org where x: "sorted_outputs p ! k = (out, c, org)" by (cases "sorted_outputs p ! k")
  moreover have "sorted_outputs p ! k \<in> set (staged_outputs p)"
    using k(1) by (metis nth_mem set_mset_mset sorted_outputs_mset)
  ultimately have "(out, c, HtlcOrigin i script) \<in> set (staged_outputs p)" by simp
  then show ?thesis using k x by (simp add: staged_htlc)
qed

lemma landed_iff:
  assumes "i < length (cp_htlcs p)"
  shows "map_of (positions (sorted_outputs p)) i = None \<longleftrightarrow> \<not> untrimmed p (cp_htlcs p ! i)"
proof -
  have "map_of (positions (sorted_outputs p)) i = None \<longleftrightarrow> i \<notin> set (map fst (htlc_entries (sorted_outputs p)))"
    by (simp add: map_of_eq_None_iff positions_entries flip: set_map)
  also have "set (map fst (htlc_entries (sorted_outputs p))) = set (map fst (htlc_entries (staged_outputs p)))"
    using htlc_entries_mset [OF sorted_outputs_mset, of p] by (metis mset_map set_mset_mset)
  also have "i \<notin> \<dots> \<longleftrightarrow> \<not> untrimmed p (cp_htlcs p ! i)"
    using assms by (force simp: staged_entries in_set_enumerate_eq)
  finally show ?thesis .
qed

lemma built_outputs: "tx_output (bct_tx (build_commitment_tx p)) = map fst (sorted_outputs p)"
  using place_loop [of "length (cp_htlcs p)" "sorted_outputs p"]
  by (simp add: build_commitment_tx_def place_outputs_def Let_def)

lemma built_indices: "htlc_output_indices (build_commitment_tx p) = pl_indices (place_outputs p)"
  by (simp add: build_commitment_tx_def Let_def)

lemma built_order: "htlcs_in_output_order (build_commitment_tx p) = htlc_entries (sorted_outputs p)"
  using place_loop [of "length (cp_htlcs p)" "sorted_outputs p"]
  by (simp add: build_commitment_tx_def place_outputs_def Let_def)

section \<open>Value\<close>

lemma unat_floor: "unat (to_sat_floor m) = unat m div 1000"
  by (simp add: to_sat_floor_def unat_div)

definition out_sum :: "TxOut list \<Rightarrow> nat" where
  "out_sum outs = sum_list (map (\<lambda>out. unat (txo_value out)) outs)"

definition payer_sat :: "CommitmentTxParams \<Rightarrow> nat" where
  "payer_sat p = unat (to_sat_floor (if cp_broadcaster_pays_fee p then cp_to_broadcaster_msat p else cp_to_countersignatory_msat p))"

lemma out_sum_mset:
  fixes xs ys :: "Staged list"
  assumes "mset xs = mset ys"
  shows "out_sum (map fst xs) = out_sum (map fst ys)"
proof -
  have "out_sum (map fst zs) = \<Sum>\<^sub># (image_mset (\<lambda>s. unat (txo_value (fst s))) (mset zs))" for zs :: "Staged list"
    by (induction zs) (simp_all add: out_sum_def)
  then show ?thesis using assms by simp
qed

lemma htlc_sum: "1000 * out_sum (map fst (concat (map (stage_htlc p) (enumerate n hs))))
    \<le> sum_list (map (\<lambda>h. unat (h_amount_msat h)) hs)"
proof (induction hs arbitrary: n)
  case (Cons h hs)
  have "1000 * (unat (h_amount_msat h) div 1000) \<le> unat (h_amount_msat h)" by simp
  then show ?case
    using Cons.IH [of "Suc n"] by (auto simp: stage_htlc_def out_sum_def Let_def unat_floor)
qed (simp add: out_sum_def)

lemma side_sum:
  "unat (to_broadcaster_sat p) + unat (to_countersignatory_sat p) + min (unat (base_fee p)) (payer_sat p)
    = unat (cp_to_broadcaster_msat p) div 1000 + unat (cp_to_countersignatory_msat p) div 1000"
  by (simp add: to_broadcaster_sat_def to_countersignatory_sat_def payer_sat_def unat_saturating_sub unat_floor Let_def min_def)

lemma sums_combine:
  fixes s :: nat
  assumes "s \<le> t + h" "t + m = q + r" "1000 * q \<le> b" "1000 * r \<le> c" "1000 * h \<le> a"
  shows "1000 * (s + m) \<le> b + c + a"
  using assms unfolding distrib_left by linarith

lemma staged_sum:
  "1000 * (out_sum (map fst (staged_outputs p)) + min (unat (base_fee p)) (payer_sat p))
    \<le> unat (cp_to_broadcaster_msat p) + unat (cp_to_countersignatory_msat p)
      + sum_list (map (\<lambda>h. unat (h_amount_msat h)) (cp_htlcs p))"
proof -
  define M where "M = min (unat (base_fee p)) (payer_sat p)"
  let ?H = "out_sum (map fst (concat (map (stage_htlc p) (enumerate 0 (cp_htlcs p)))))"
  have "out_sum (map fst (staged_outputs p)) \<le> unat (to_broadcaster_sat p) + unat (to_countersignatory_sat p) + ?H"
    by (simp add: staged_outputs_def out_sum_def)
  moreover have "unat (to_broadcaster_sat p) + unat (to_countersignatory_sat p) + M
      = unat (cp_to_broadcaster_msat p) div 1000 + unat (cp_to_countersignatory_msat p) div 1000"
    unfolding M_def by (rule side_sum)
  moreover have "1000 * (unat (cp_to_broadcaster_msat p) div 1000) \<le> unat (cp_to_broadcaster_msat p)"
    "1000 * (unat (cp_to_countersignatory_msat p) div 1000) \<le> unat (cp_to_countersignatory_msat p)" by simp_all
  ultimately show ?thesis
    using htlc_sum [of p 0 "cp_htlcs p"] unfolding M_def [symmetric] by (rule sums_combine)
qed

section \<open>The obscured commitment number\<close>

text \<open>How a watcher reads the number back from the locktime and the sequence of the transaction.\<close>

definition read_commitment_number :: "Transaction \<Rightarrow> u64 \<Rightarrow> u64" where
  "read_commitment_number tx factor =
     (push_bit 24 (ucast (sequence (tx_input tx ! 0) AND 0xffffff)) OR ucast (lock_time tx AND 0xffffff)) XOR factor"

lemma mask24: "(w :: u32) AND 0xffffff = take_bit 24 w" "(v :: u64) AND 0xffffff = take_bit 24 v"
  by (simp_all add: take_bit_eq_mask mask_eq_exp_minus_1)

lemma bit_u48: "unat (w :: u64) < 2 ^ 48 \<Longrightarrow> bit w n \<Longrightarrow> n < 48"
proof (rule ccontr)
  assume w: "unat w < 2 ^ 48" "bit w n" and "\<not> n < 48"
  then have "(2 :: nat) ^ 48 \<le> 2 ^ n" by (intro power_increasing) simp_all
  then have "unat w div 2 ^ n = 0" using w(1) by simp
  moreover have "odd (unat w div 2 ^ n)" using w(2) bit_iff_odd [of "unat w" n] by (simp add: bit_unsigned_iff)
  ultimately show False by simp
qed

lemma join_halves:
  assumes "\<And>n. bit (w :: u64) n \<Longrightarrow> n < 48"
  shows "push_bit 24 (take_bit 24 (drop_bit 24 w)) OR take_bit 24 w = w"
proof (rule bit_eqI)
  fix n assume "possible_bit TYPE(64 word) n"
  then show "bit (push_bit 24 (take_bit 24 (drop_bit 24 w)) OR take_bit 24 w) n = bit w n"
    using assms [of n] by (cases "n < 24") (auto simp: bit_or_iff bit_push_bit_iff bit_take_bit_iff bit_drop_bit_eq)
qed

lemma low24_or: "(ucast ((0x20000000 OR ucast (v AND 0xffffff)) AND 0xffffff :: u32) :: u64) = take_bit 24 v"
  "(ucast ((0x80000000 OR ucast (v AND 0xffffff)) AND 0xffffff :: u32) :: u64) = take_bit 24 v" for v :: u64
proof -
  have "(0x20000000 :: u32) = push_bit 29 1" "(0x80000000 :: u32) = push_bit 31 1" by simp_all
  then show "(ucast ((0x20000000 OR ucast (v AND 0xffffff)) AND 0xffffff :: u32) :: u64) = take_bit 24 v"
    "(ucast ((0x80000000 OR ucast (v AND 0xffffff)) AND 0xffffff :: u32) :: u64) = take_bit 24 v"
    unfolding mask24
    by (auto intro!: bit_eqI simp: bit_ucast_iff bit_take_bit_iff bit_or_iff bit_exp_iff)
qed

lemma obscure_factor_bound: "unat (commit_number_obscure_factor a b) < 2 ^ 48"
proof -
  obtain d2 d3 d4 d5 d6 d7 where f: "commit_number_obscure_factor a b = from_be_bytes [0, 0, d2, d3, d4, d5, d6, d7]"
    by (simp add: commit_number_obscure_factor_def Let_def)
  have "be_val [0, 0, d2, d3, d4, d5, d6, d7] = be_val [d2, d3, d4, d5, d6, d7]" by (simp add: be_val_def)
  then have "be_val [0, 0, d2, d3, d4, d5, d6, d7] < 2 ^ 48" using be_val_bound [of "[d2, d3, d4, d5, d6, d7]"] by simp
  then show ?thesis by (simp add: f from_be_bytes_val unat_of_nat)
qed

lemma number_recovered:
  assumes "unat n < 2 ^ 48" "unat f < 2 ^ 48" "cp_commitment_number p = n" "cp_obscure_factor p = f"
  shows "read_commitment_number (bct_tx (build_commitment_tx p)) f = n"
proof -
  have "bit (n XOR f) k \<Longrightarrow> k < 48" for k
    using bit_u48 [OF assms(1), of k] bit_u48 [OF assms(2), of k] by (auto simp: bit_xor_iff)
  then have "push_bit 24 (take_bit 24 (drop_bit 24 (n XOR f))) OR take_bit 24 (n XOR f) = n XOR f"
    by (rule join_halves)
  then have "(push_bit 24 (take_bit 24 (drop_bit 24 (n XOR f))) OR take_bit 24 (n XOR f)) XOR f = n"
    by (simp add: xor.assoc)
  then show ?thesis
    using assms(3,4) by (simp add: read_commitment_number_def build_commitment_tx_def Let_def low24_or)
qed

section \<open>The properties\<close>

text \<open>The outputs of a commitment transaction are in BIP 69 order (by value, then by script
  bytes), and they are exactly the staged outputs: the broadcaster's and the countersignatory's
  balances that reach the dust limit, and one output per untrimmed HTLC.\<close>

theorem commitment_outputs_ordered:
  "sorted (map (\<lambda>out. (txo_value out, script_pubkey out)) (tx_output (bct_tx (build_commitment_tx p))))
   \<and> mset (tx_output (bct_tx (build_commitment_tx p))) = image_mset fst (mset (staged_outputs p))
   \<and> length (tx_output (bct_tx (build_commitment_tx p)))
       = (if cp_broadcaster_dust_limit_sat p \<le> to_broadcaster_sat p then 1 else 0)
         + (if cp_broadcaster_dust_limit_sat p \<le> to_countersignatory_sat p then 1 else 0)
         + length (filter (untrimmed p) (cp_htlcs p))"
proof -
  have "sorted (map output_key (sorted_outputs p))" by (simp add: sorted_outputs_def)
  then have "sorted (map (\<lambda>out. (txo_value out, script_pubkey out)) (tx_output (bct_tx (build_commitment_tx p))))"
    using sorted_pairs by (simp add: built_outputs)
  moreover have "length (tx_output (bct_tx (build_commitment_tx p))) = length (staged_outputs p)"
    by (simp add: built_outputs sorted_outputs_def)
  moreover have "length (concat (map (stage_htlc p) (enumerate n hs))) = length (filter (untrimmed p) hs)" for n hs
    by (induction hs arbitrary: n) (simp_all add: stage_htlc_def untrimmed_def Let_def)
  ultimately show ?thesis
    by (simp add: built_outputs staged_outputs_def flip: mset_map)
      (simp add: sorted_outputs_mset staged_outputs_def)
qed

text \<open>C36: The index bookkeeping of a commitment transaction: an HTLC has no output index exactly
  when it is trimmed, and otherwise its index points at the output that carries its value and its
  witness script.\<close>

theorem commitment_htlc_indices:
  assumes "i < length (cp_htlcs p)" and "length (cp_htlcs p) < 2 ^ 31"
  shows "case htlc_output_indices (build_commitment_tx p) ! i of
      None \<Rightarrow> htlc_is_trimmed (cp_htlcs p ! i) (cp_feerate p) (cp_broadcaster_dust_limit_sat p)
    | Some v \<Rightarrow> \<not> htlc_is_trimmed (cp_htlcs p ! i) (cp_feerate p) (cp_broadcaster_dust_limit_sat p)
        \<and> unat v < length (tx_output (bct_tx (build_commitment_tx p)))
        \<and> tx_output (bct_tx (build_commitment_tx p)) ! unat v
            = \<lparr>txo_value = to_sat_floor (h_amount_msat (cp_htlcs p ! i)),
               script_pubkey = new_p2wsh (htlc_witness_script (cp_keys p) (cp_htlcs p ! i))\<rparr>"
proof (cases "map_of (positions (sorted_outputs p)) i")
  case None
  then show ?thesis
    using landed_index [OF assms(1)] landed_iff [OF assms(1)] by (simp add: built_indices untrimmed_def)
next
  case (Some k)
  note k = landed_output [OF Some]
  have "length (sorted_outputs p) \<le> 2 + length (cp_htlcs p)"
  proof -
    have "length (concat (map (stage_htlc p) (enumerate n hs))) \<le> length hs" for n hs
      by (induction hs arbitrary: n) (auto simp: stage_htlc_def Let_def le_SucI)
    from this [of 0 "cp_htlcs p"] show ?thesis by (simp add: sorted_outputs_def staged_outputs_def)
  qed
  then have "k < 4294967296" using k assms(2) by simp
  then have "unat (of_nat k :: u32) = k" by (simp add: unat_of_nat)
  then show ?thesis
    using k landed_index [OF assms(1)] Some
    by (simp add: built_indices built_outputs untrimmed_def htlc_txout_def)
qed

text \<open>C37: No commitment transaction creates money: its outputs plus the fee its payer is charged
  are covered by the two balances and the HTLC amounts it was built from.\<close>

theorem commitment_value_conserved:
  "1000 * (out_sum (tx_output (bct_tx (build_commitment_tx p))) + min (unat (fee_sat (build_commitment_tx p))) (payer_sat p))
    \<le> unat (cp_to_broadcaster_msat p) + unat (cp_to_countersignatory_msat p)
      + sum_list (map (\<lambda>h. unat (h_amount_msat h)) (cp_htlcs p))"
proof -
  have "fee_sat (build_commitment_tx p) = base_fee p" by (simp add: build_commitment_tx_def Let_def)
  then show ?thesis
    using staged_sum [of p] out_sum_mset [OF sorted_outputs_mset, of p] by (simp only: built_outputs)
qed

text \<open>The commitment number is recoverable: a watcher that knows both payment basepoints reads
  the 48-bit number back from the locktime and the sequence number of the transaction.\<close>

theorem commitment_number_recoverable:
  assumes "unat (cp_commitment_number p) < 2 ^ 48"
    and "cp_obscure_factor p = commit_number_obscure_factor opener accepter"
  shows "read_commitment_number (bct_tx (build_commitment_tx p)) (commit_number_obscure_factor opener accepter)
    = cp_commitment_number p"
  using number_recovered [of "cp_commitment_number p" "cp_obscure_factor p" p] assms obscure_factor_bound by simp

text \<open>Both peers compute the same transactions although each calls itself the holder: the
  funding script, the witness that spends it and the closing transaction do not depend on who is
  named first.\<close>

theorem peers_agree_on_funding:
  assumes "a \<noteq> b"
  shows "funding_redeemscript a b = funding_redeemscript b a
    \<and> funding_spend_witness E a b siga sigb = funding_spend_witness E b a sigb siga
    \<and> build_closing_tx op va vb sa sb dust = build_closing_tx op vb va sb sa dust"
proof -
  have script: "funding_redeemscript a b = funding_redeemscript b a"
    using assms by (auto simp: funding_redeemscript_def Let_def not_le)
  then have "funding_spend_witness E a b siga sigb = funding_spend_witness E b a sigb siga"
    using assms by (auto simp: funding_spend_witness_def Let_def not_le)
  moreover have "build_closing_tx op va vb sa sb dust = build_closing_tx op vb va sb sa dust"
    by (auto simp: build_closing_tx_def Let_def less_eq_prod_def)
  ultimately show ?thesis using script by simp
qed

theorem peers_agree_on_funding_witness:
  "funding_redeemscript [2, 7] [3, 1] = funding_redeemscript [3, 1] [2, 7]
    \<and> funding_spend_witness toy_ec [2, 7] [3, 1] [5] [6] = funding_spend_witness toy_ec [3, 1] [2, 7] [6] [5]
    \<and> build_closing_tx \<lparr>op_txid = [], op_vout = 0\<rparr> 900 800 [0] [1] 546
      = build_closing_tx \<lparr>op_txid = [], op_vout = 0\<rparr> 800 900 [1] [0] 546"
  by (rule peers_agree_on_funding) simp

definition sample_commitment :: CommitmentTxParams where
  "sample_commitment = \<lparr>cp_funding_outpoint = \<lparr>op_txid = replicate 32 1, op_vout = 0\<rparr>, cp_commitment_number = 42,
     cp_obscure_factor = commit_number_obscure_factor [2] [3], cp_broadcaster_pays_fee = True, cp_feerate = 253,
     cp_broadcaster_dust_limit_sat = 354, cp_to_self_delay = 144,
     cp_keys = \<lparr>per_commitment_point = [2], revocation_key = [3], broadcaster_htlc_key = [4],
       countersignatory_htlc_key = [5], broadcaster_delayed_payment_key = [6]\<rparr>,
     cp_countersignatory_payment_basepoint = [7], cp_to_broadcaster_msat = 700000000,
     cp_to_countersignatory_msat = 300000000,
     cp_htlcs = [\<lparr>offered = True, h_amount_msat = 5000000, h_cltv_expiry = 500, h_payment_hash = [9]\<rparr>]\<rparr>"

theorem commitment_number_recoverable_witness:
  "read_commitment_number (bct_tx (build_commitment_tx sample_commitment)) (commit_number_obscure_factor [2] [3]) = 42"
  using commitment_number_recoverable [of sample_commitment "[2]" "[3]"] by (simp add: sample_commitment_def)

theorem commitment_htlc_indices_witness:
  "case htlc_output_indices (build_commitment_tx sample_commitment) ! 0 of
      None \<Rightarrow> False
    | Some v \<Rightarrow> unat v < length (tx_output (bct_tx (build_commitment_tx sample_commitment)))
        \<and> txo_value (tx_output (bct_tx (build_commitment_tx sample_commitment)) ! unat v) = 5000"
proof -
  have "\<not> htlc_is_trimmed (cp_htlcs sample_commitment ! 0) (cp_feerate sample_commitment)
      (cp_broadcaster_dust_limit_sat sample_commitment)"
    by (simp add: sample_commitment_def htlc_is_trimmed_def htlc_timeout_fee_def HTLC_TIMEOUT_TX_WEIGHT_def
        fee_for_weight_def to_sat_floor_def)
  then show ?thesis
    using commitment_htlc_indices [of 0 sample_commitment]
    by (auto split: option.splits simp: sample_commitment_def to_sat_floor_def)
qed

end
