(* ===== verification/Channel.thy ===== *)
theory Channel
  imports Wire_Msgs Commitment
begin

text \<open>
  \<^verbatim>\<open>src/src/channel/mod.rs\<close>: the BOLT 2 channel, its data, the opening handshake, and the
  construction of both sides' commitment transactions. A method that takes \<^verbatim>\<open>&mut self\<close> returns
  its \<^verbatim>\<open>Result\<close> together with the channel as it leaves it, also on the error paths; a
  \<^verbatim>\<open>&self\<close> method returns a plain result. The type parameter \<^verbatim>\<open>S: ChannelSigner\<close> is the
  crate's own \<^verbatim>\<open>InMemoryChannelSigner\<close>, and the \<^verbatim>\<open>secp256k1\<close> context is the parameter \<open>E\<close>.
  Integer arithmetic wraps at its width, as in a release build.
\<close>

unbundle bit_operations_syntax

section \<open>Errors\<close>

text \<open>
  \<open>Panicked\<close> is not a value of the Rust enum: it stands for a failed \<^verbatim>\<open>expect\<close>, an
  out-of-range index, an \<^verbatim>\<open>unreachable!\<close> or a failed assertion of the standard library.
\<close>

datatype ChannelError = Close string | Ignore string | InvalidState string | Panicked

type_synonym 'a cresult = "(ChannelError, 'a) result"

definition close_err :: "string \<Rightarrow> 'a cresult" where
  "close_err msg = Inl (Close msg)"

definition ok_or :: "'a option \<Rightarrow> ChannelError \<Rightarrow> 'a cresult" where
  "ok_or m e = (case m of None \<Rightarrow> Inl e | Some a \<Rightarrow> Inr a)"

definition expect :: "'a option \<Rightarrow> 'a cresult" where
  "expect m = ok_or m Panicked"

text \<open>The operator \<^verbatim>\<open>?\<close> inside a \<^verbatim>\<open>&mut self\<close> method: an error returns at once, with the
  channel as it is at that point.\<close>

definition try_in :: "'a cresult \<Rightarrow> 's \<Rightarrow> ('a \<Rightarrow> 'b cresult \<times> 's) \<Rightarrow> 'b cresult \<times> 's" where
  "try_in r c f = (case r of Inl e \<Rightarrow> (Inl e, c) | Inr a \<Rightarrow> f a)"

section \<open>Data\<close>

definition MAX_HTLCS_PER_SIDE :: u16 where "MAX_HTLCS_PER_SIDE = 483"

record ChannelConfig =
  cf_announce :: bool
  cf_dust_limit_sat :: u64
  cf_reserve_ppm :: u32
  cf_htlc_minimum_msat :: Msat
  cf_to_self_delay :: u16
  cf_max_accepted_htlcs :: u16
  cf_max_htlc_value_in_flight_ppm :: u32
  cf_minimum_depth :: u32

definition ChannelConfig_default :: ChannelConfig where
  "ChannelConfig_default =
     \<lparr>cf_announce = True, cf_dust_limit_sat = 546, cf_reserve_ppm = 10000, cf_htlc_minimum_msat = 1,
      cf_to_self_delay = 144, cf_max_accepted_htlcs = 50, cf_max_htlc_value_in_flight_ppm = 1000000,
      cf_minimum_depth = 3\<rparr>"

record ChannelParams =
  holder_dust_limit_sat :: u64
  counterparty_dust_limit_sat :: u64
  holder_selected_reserve_sat :: u64
  counterparty_selected_reserve_sat :: u64
  counterparty_max_htlc_value_in_flight_msat :: Msat
  holder_max_htlc_value_in_flight_msat :: Msat
  counterparty_htlc_minimum_msat :: Msat
  holder_htlc_minimum_msat :: Msat
  counterparty_max_accepted_htlcs :: u16
  holder_max_accepted_htlcs :: u16
  holder_selected_delay :: u16
  counterparty_selected_delay :: u16

datatype ChannelRole = Opener | Accepter

datatype ChannelState =
  OpenSent | AcceptSent | FundingCreatedSent | AwaitingChannelReady | Normal | ShuttingDown
| NegotiatingClose | Closed

type_synonym HtlcId = u64

datatype HtlcSource = Outbound bytes | Forwarded ChannelId HtlcId

datatype HtlcResolution = Fulfill PaymentPreimage | Fail bytes | FailMalformed bytes u16

datatype HtlcPhase = NotYet | Pending | Committed | Removing | Gone

definition included :: "HtlcPhase \<Rightarrow> bool" where
  "included p = (case p of Pending \<Rightarrow> True | Committed \<Rightarrow> True | _ \<Rightarrow> False)"

definition credited :: "HtlcPhase \<Rightarrow> bool" where
  "credited p = (case p of Removing \<Rightarrow> True | Gone \<Rightarrow> True | _ \<Rightarrow> False)"

record Htlc =
  hx_outbound :: bool
  hx_id :: HtlcId
  hx_amount_msat :: Msat
  hx_payment_hash :: PaymentHash
  hx_cltv_expiry :: u32
  hx_onion :: bytes
  hx_source :: "HtlcSource option"
  hx_resolution :: "HtlcResolution option"
  phase_holder :: HtlcPhase
  phase_counterparty :: HtlcPhase
  processed :: bool

definition apply_balance :: "Htlc \<Rightarrow> HtlcPhase \<Rightarrow> Msat \<times> Msat \<Rightarrow> Msat \<times> Msat" where
  "apply_balance h phase bal =
     (case bal of (to_holder, to_counterparty) \<Rightarrow>
        if included phase then
          if hx_outbound h then (saturating_sub to_holder (hx_amount_msat h), to_counterparty)
          else (to_holder, saturating_sub to_counterparty (hx_amount_msat h))
        else if credited phase then
          (case hx_resolution h of
             Some (Fulfill _) \<Rightarrow>
               if hx_outbound h
               then (saturating_sub to_holder (hx_amount_msat h), to_counterparty + hx_amount_msat h)
               else (to_holder + hx_amount_msat h, saturating_sub to_counterparty (hx_amount_msat h))
           | _ \<Rightarrow> (to_holder, to_counterparty))
        else (to_holder, to_counterparty))"

record CounterpartyCommitmentInfo =
  ci_number :: u64
  ci_txid :: Txid
  ci_per_commitment_point :: PublicKey
  ci_htlcs :: "(HtlcOutputInCommitment \<times> u32 option) list"
  ci_to_holder_msat :: Msat
  ci_to_counterparty_msat :: Msat
  ci_feerate :: u32

record HolderCommitment =
  hc_number :: u64
  hc_built :: BuiltCommitmentTx
  hc_counterparty_sig :: Signature
  hc_counterparty_htlc_sigs :: "Signature list"
  hc_htlcs :: "HtlcOutputInCommitment list"
  hc_keys :: TxCreationKeys
  hc_feerate :: u32

datatype HoldingCellOp =
  OpAdd Msat PaymentHash u32 bytes HtlcSource
| OpFulfill HtlcId PaymentPreimage
| OpFail HtlcId bytes
| OpFailMalformed HtlcId bytes u16

record PendingCounterpartyCommitment =
  pc_info :: CounterpartyCommitmentInfo
  pc_included :: "(bool \<times> HtlcId) list"
  pc_removed :: "(bool \<times> HtlcId) list"
  pc_fee_update :: "u32 option"

record Channel =
  ch_signer :: InMemoryChannelSigner
  ch_role :: ChannelRole
  ch_state :: ChannelState
  ch_config :: ChannelConfig
  ch_params :: ChannelParams
  ch_temporary_channel_id :: ChannelId
  ch_channel_id :: ChannelId
  ch_funding_outpoint :: "OutPoint option"
  ch_funding_amount_sat :: u64
  ch_push_msat :: Msat
  ch_holder_pubkeys :: ChannelPublicKeys
  ch_counterparty_pubkeys :: "ChannelPublicKeys option"
  ch_obscure_factor :: u64
  ch_feerate_holder :: u32
  ch_feerate_counterparty :: u32
  ch_pending_fee_ack :: "u32 option"
  ch_announce :: bool
  ch_to_holder_msat :: Msat
  ch_to_counterparty_msat :: Msat
  ch_counterparty_dirty :: bool
  ch_htlcs :: "Htlc list"
  ch_next_holder_htlc_id :: u64
  ch_next_counterparty_htlc_id :: u64
  ch_holder_commitment_number :: u64
  ch_counterparty_commitment_number :: u64
  ch_counterparty_current_point :: "PublicKey option"
  ch_counterparty_next_point :: "PublicKey option"
  ch_counterparty_secrets :: SecretStore
  ch_current_holder_commitment :: "HolderCommitment option"
  ch_current_counterparty_commitment :: "CounterpartyCommitmentInfo option"
  ch_pending_counterparty_commitment :: "PendingCounterpartyCommitment option"
  ch_awaiting_raa :: bool
  ch_holding_cell :: "HoldingCellOp list"
  ch_short_channel_id :: "ShortChannelId option"
  ch_funding_confirmed :: bool
  ch_channel_ready_sent :: bool
  ch_channel_ready_received :: bool
  ch_holder_shutdown_script :: "Script option"
  ch_counterparty_shutdown_script :: "Script option"
  ch_shutdown_sent :: bool
  ch_shutdown_received :: bool
  ch_last_closing_fee_proposal :: "u64 option"
  ch_closing_tx :: "Transaction option"

section \<open>Free functions\<close>

definition basepoints_msg :: "ChannelPublicKeys \<Rightarrow> ChannelBasepoints" where
  "basepoints_msg pk =
     \<lparr>bp_funding_pubkey = funding_pubkey pk, bp_revocation = revocation_basepoint pk,
      bp_payment = payment_basepoint pk, bp_delayed_payment = delayed_payment_basepoint pk,
      bp_htlc = htlc_basepoint pk\<rparr>"

definition pubkeys_from_msg :: "ChannelBasepoints \<Rightarrow> ChannelPublicKeys" where
  "pubkeys_from_msg bp =
     \<lparr>funding_pubkey = bp_funding_pubkey bp, revocation_basepoint = bp_revocation bp,
      payment_basepoint = bp_payment bp, delayed_payment_basepoint = bp_delayed_payment bp,
      htlc_basepoint = bp_htlc bp\<rparr>"

definition channel_id_from_funding :: "Txid \<Rightarrow> u16 \<Rightarrow> ChannelId" where
  "channel_id_from_funding txid output_index =
     (let i = txid;
          i = i[30 := i ! 30 XOR ucast (drop_bit 8 output_index)];
          i = i[31 := i ! 31 XOR ucast (output_index AND 0xff)]
      in i)"

definition reserve_for :: "ChannelConfig \<Rightarrow> u64 \<Rightarrow> u64" where
  "reserve_for config funding_sat =
     max (funding_sat * ucast (cf_reserve_ppm config) div 1000000) (cf_dust_limit_sat config)"

definition static_remotekey_channel_type :: Features where
  "static_remotekey_channel_type = features_set features_empty 12"

definition htlc_in_commitment :: "Htlc \<Rightarrow> bool \<Rightarrow> HtlcOutputInCommitment" where
  "htlc_in_commitment h holder_view =
     \<lparr>offered = (if holder_view then hx_outbound h else \<not> hx_outbound h),
      h_amount_msat = hx_amount_msat h, h_cltv_expiry = hx_cltv_expiry h, h_payment_hash = hx_payment_hash h\<rparr>"

definition dust_relevant :: "HtlcOutputInCommitment \<Rightarrow> u32 \<Rightarrow> u64 \<Rightarrow> bool" where
  "dust_relevant h feerate dust = (\<not> htlc_is_trimmed h feerate dust)"

section \<open>Opening: the two constructors\<close>

definition max_in_flight_for :: "ChannelConfig \<Rightarrow> u64 \<Rightarrow> Msat" where
  "max_in_flight_for config funding =
     funding div 1000000 * ucast (cf_max_htlc_value_in_flight_ppm config) * 1000"

definition network_chain_hash :: "Network \<Rightarrow> bytes cresult" where
  "network_chain_hash n = (case chain_hash n of Inl _ \<Rightarrow> Inl Panicked | Inr h \<Rightarrow> Inr h)"

text \<open>The part of the initial channel that both constructors write alike.\<close>

definition fresh_channel ::
  "InMemoryChannelSigner \<Rightarrow> ChannelRole \<Rightarrow> ChannelState \<Rightarrow> ChannelConfig \<Rightarrow> ChannelParams \<Rightarrow> ChannelId
    \<Rightarrow> u64 \<Rightarrow> Msat \<Rightarrow> ChannelPublicKeys option \<Rightarrow> u64 \<Rightarrow> u32 \<Rightarrow> bool \<Rightarrow> Msat \<Rightarrow> Msat \<Rightarrow> PublicKey option \<Rightarrow> Channel" where
  "fresh_channel signer chan_role chan_state config chan_params temporary_id funding push cp_pubkeys obscure
      feerate announced holder_bal counterparty_bal point =
     \<lparr>ch_signer = signer, ch_role = chan_role, ch_state = chan_state, ch_config = config,
      ch_params = chan_params, ch_temporary_channel_id = temporary_id, ch_channel_id = temporary_id,
      ch_funding_outpoint = None, ch_funding_amount_sat = funding, ch_push_msat = push,
      ch_holder_pubkeys = signer_pubkeys signer, ch_counterparty_pubkeys = cp_pubkeys,
      ch_obscure_factor = obscure, ch_feerate_holder = feerate, ch_feerate_counterparty = feerate,
      ch_pending_fee_ack = None, ch_announce = announced, ch_to_holder_msat = holder_bal,
      ch_to_counterparty_msat = counterparty_bal, ch_counterparty_dirty = False, ch_htlcs = [],
      ch_next_holder_htlc_id = 0, ch_next_counterparty_htlc_id = 0, ch_holder_commitment_number = 0,
      ch_counterparty_commitment_number = 0, ch_counterparty_current_point = point,
      ch_counterparty_next_point = None, ch_counterparty_secrets = store_new,
      ch_current_holder_commitment = None, ch_current_counterparty_commitment = None,
      ch_pending_counterparty_commitment = None, ch_awaiting_raa = False, ch_holding_cell = [],
      ch_short_channel_id = None, ch_funding_confirmed = False, ch_channel_ready_sent = False,
      ch_channel_ready_received = False, ch_holder_shutdown_script = None,
      ch_counterparty_shutdown_script = None, ch_shutdown_sent = False, ch_shutdown_received = False,
      ch_last_closing_fee_proposal = None, ch_closing_tx = None\<rparr>"

definition outbound_params :: "ChannelConfig \<Rightarrow> u64 \<Rightarrow> Msat \<Rightarrow> ChannelParams" where
  "outbound_params config reserve max_in_flight =
     \<lparr>holder_dust_limit_sat = cf_dust_limit_sat config, counterparty_dust_limit_sat = 0,
      holder_selected_reserve_sat = reserve, counterparty_selected_reserve_sat = 0,
      counterparty_max_htlc_value_in_flight_msat = 0,
      holder_max_htlc_value_in_flight_msat = max_in_flight,
      counterparty_htlc_minimum_msat = 0, holder_htlc_minimum_msat = cf_htlc_minimum_msat config,
      counterparty_max_accepted_htlcs = 0, holder_max_accepted_htlcs = cf_max_accepted_htlcs config,
      holder_selected_delay = cf_to_self_delay config, counterparty_selected_delay = 0\<rparr>"

definition new_outbound ::
  "EC \<Rightarrow> InMemoryChannelSigner \<Rightarrow> ChannelConfig \<Rightarrow> Network \<Rightarrow> ChannelId \<Rightarrow> u64 \<Rightarrow> Msat \<Rightarrow> u32
    \<Rightarrow> (Channel \<times> OpenChannel) cresult" where
  "new_outbound E signer config network temporary_channel_id funding_amount_sat push_msat feerate =
     (if push_msat > funding_amount_sat * 1000 then Inl (InvalidState ''push exceeds funding'')
      else
        let holder_pubkeys = signer_pubkeys signer;
            reserve = reserve_for config funding_amount_sat;
            max_in_flight = max_in_flight_for config funding_amount_sat;
            first_point = signer_per_commitment_point E signer 0
        in rbind (network_chain_hash network) (\<lambda>chain.
             let msg = \<lparr>oc_chain_hash = chain, oc_temporary_channel_id = temporary_channel_id,
                   oc_funding_satoshis = funding_amount_sat, oc_push_msat = push_msat,
                   oc_dust_limit_satoshis = cf_dust_limit_sat config,
                   oc_max_htlc_value_in_flight_msat = max_in_flight, oc_channel_reserve_satoshis = reserve,
                   oc_htlc_minimum_msat = cf_htlc_minimum_msat config, oc_feerate_per_kw = feerate,
                   oc_to_self_delay = cf_to_self_delay config,
                   oc_max_accepted_htlcs = cf_max_accepted_htlcs config,
                   oc_basepoints = basepoints_msg holder_pubkeys, oc_first_per_commitment_point = first_point,
                   oc_channel_flags = (if cf_announce config then 1 else 0),
                   oc_upfront_shutdown_script = None, oc_channel_type = Some static_remotekey_channel_type\<rparr>;
                 chan = fresh_channel signer Opener OpenSent config
                   (outbound_params config reserve max_in_flight) temporary_channel_id funding_amount_sat
                   push_msat None 0 feerate (cf_announce config) (funding_amount_sat * 1000 - push_msat)
                   push_msat None
             in Inr (chan, msg)))"

definition inbound_params :: "ChannelConfig \<Rightarrow> u64 \<Rightarrow> Msat \<Rightarrow> OpenChannel \<Rightarrow> ChannelParams" where
  "inbound_params config reserve max_in_flight msg =
     \<lparr>holder_dust_limit_sat = cf_dust_limit_sat config,
      counterparty_dust_limit_sat = oc_dust_limit_satoshis msg, holder_selected_reserve_sat = reserve,
      counterparty_selected_reserve_sat = oc_channel_reserve_satoshis msg,
      counterparty_max_htlc_value_in_flight_msat = oc_max_htlc_value_in_flight_msat msg,
      holder_max_htlc_value_in_flight_msat = max_in_flight,
      counterparty_htlc_minimum_msat = oc_htlc_minimum_msat msg,
      holder_htlc_minimum_msat = cf_htlc_minimum_msat config,
      counterparty_max_accepted_htlcs = oc_max_accepted_htlcs msg,
      holder_max_accepted_htlcs = cf_max_accepted_htlcs config,
      holder_selected_delay = cf_to_self_delay config, counterparty_selected_delay = oc_to_self_delay msg\<rparr>"

definition new_inbound ::
  "EC \<Rightarrow> InMemoryChannelSigner \<Rightarrow> ChannelConfig \<Rightarrow> Network \<Rightarrow> OpenChannel \<Rightarrow> (Channel \<times> AcceptChannel) cresult" where
  "new_inbound E signer config network msg =
     rbind (network_chain_hash network) (\<lambda>chain.
     if oc_chain_hash msg \<noteq> chain then close_err ''unknown chain''
     else if oc_push_msat msg > oc_funding_satoshis msg * 1000 then close_err ''push exceeds funding''
     else if oc_dust_limit_satoshis msg > oc_channel_reserve_satoshis msg then close_err ''dust limit above reserve''
     else if oc_to_self_delay msg > 2016 then close_err ''to_self_delay unreasonably large''
     else if oc_max_accepted_htlcs msg > MAX_HTLCS_PER_SIDE then close_err ''max_accepted_htlcs above 483''
     else if oc_feerate_per_kw msg < 253 then close_err ''feerate too low''
     else if (case oc_channel_type msg of None \<Rightarrow> False | Some ct \<Rightarrow> ct \<noteq> static_remotekey_channel_type)
     then close_err ''unsupported channel_type''
     else
       let holder_pubkeys = signer_pubkeys signer;
           reserve = reserve_for config (oc_funding_satoshis msg)
       in if reserve < oc_dust_limit_satoshis msg then close_err ''our reserve below their dust limit''
          else
            let max_in_flight = max_in_flight_for config (oc_funding_satoshis msg);
                accept = \<lparr>ac_temporary_channel_id = oc_temporary_channel_id msg,
                  ac_dust_limit_satoshis = cf_dust_limit_sat config,
                  ac_max_htlc_value_in_flight_msat = max_in_flight, ac_channel_reserve_satoshis = reserve,
                  ac_htlc_minimum_msat = cf_htlc_minimum_msat config, ac_minimum_depth = cf_minimum_depth config,
                  ac_to_self_delay = cf_to_self_delay config,
                  ac_max_accepted_htlcs = cf_max_accepted_htlcs config,
                  ac_basepoints = basepoints_msg holder_pubkeys,
                  ac_first_per_commitment_point = signer_per_commitment_point E signer 0,
                  ac_upfront_shutdown_script = None, ac_channel_type = oc_channel_type msg\<rparr>;
                counterparty_pubkeys = pubkeys_from_msg (oc_basepoints msg);
                obscure = commit_number_obscure_factor (bp_payment (oc_basepoints msg))
                  (payment_basepoint holder_pubkeys);
                announce_requested = (oc_channel_flags msg AND 1 \<noteq> 0);
                chan = fresh_channel signer Accepter AcceptSent config
                  (inbound_params config reserve max_in_flight msg) (oc_temporary_channel_id msg)
                  (oc_funding_satoshis msg) (oc_push_msat msg) (Some counterparty_pubkeys) obscure
                  (oc_feerate_per_kw msg) (announce_requested \<and> cf_announce config) (oc_push_msat msg)
                  (oc_funding_satoshis msg * 1000 - oc_push_msat msg) (Some (oc_first_per_commitment_point msg))
            in Inr (chan, accept))"

section \<open>Accessors and balances\<close>

definition counterparty :: "Channel \<Rightarrow> ChannelPublicKeys cresult" where
  "counterparty c = ok_or (ch_counterparty_pubkeys c) (InvalidState ''counterparty keys not yet known'')"

definition balances_for :: "Channel \<Rightarrow> bool \<Rightarrow> Msat \<times> Msat" where
  "balances_for c holder_side =
     foldl (\<lambda>bal h. apply_balance h (if holder_side then phase_holder h else phase_counterparty h) bal)
       (ch_to_holder_msat c, ch_to_counterparty_msat c) (ch_htlcs c)"

definition available_to_send_msat :: "Channel \<Rightarrow> Msat" where
  "available_to_send_msat c =
     (let reserve = msat_from_sat (counterparty_selected_reserve_sat (ch_params c));
          (to_holder, _) = balances_for c False;
          avail = saturating_sub to_holder reserve
      in if ch_role c = Opener
         then let fee = fee_for_weight (ch_feerate_counterparty c)
                    (COMMITMENT_TX_BASE_WEIGHT
                      + COMMITMENT_TX_WEIGHT_PER_HTLC * (of_nat (length (ch_htlcs c)) + 1))
              in saturating_sub avail (msat_from_sat fee)
         else avail)"

definition gone_both :: "Htlc \<Rightarrow> bool" where
  "gone_both h = (phase_holder h = Gone \<and> phase_counterparty h = Gone)"

definition gc_htlcs :: "Channel \<Rightarrow> Channel" where
  "gc_htlcs c =
     (let (to_holder, to_counterparty) =
            foldl (\<lambda>bal h. if gone_both h then apply_balance h Gone bal else bal)
              (ch_to_holder_msat c, ch_to_counterparty_msat c) (ch_htlcs c)
      in c\<lparr>ch_htlcs := filter (\<lambda>h. \<not> gone_both h) (ch_htlcs c), ch_to_holder_msat := to_holder,
           ch_to_counterparty_msat := to_counterparty\<rparr>)"

section \<open>Commitment building\<close>

definition build_holder_commitment_at ::
  "EC \<Rightarrow> Channel \<Rightarrow> u64 \<Rightarrow> (BuiltCommitmentTx \<times> TxCreationKeys \<times> HtlcOutputInCommitment list) cresult" where
  "build_holder_commitment_at E c number =
     rbind (counterparty c) (\<lambda>cp.
     let point = signer_per_commitment_point E (ch_signer c) number;
         keys = TxCreationKeys_derive E point (ch_holder_pubkeys c) cp;
         htlcs = map (\<lambda>h. htlc_in_commitment h True) (filter (\<lambda>h. included (phase_holder h)) (ch_htlcs c));
         (to_holder, to_counterparty) = balances_for c True
     in rbind (ok_or (ch_funding_outpoint c) (InvalidState ''no funding outpoint'')) (\<lambda>outpoint.
        let built = build_commitment_tx
              \<lparr>cp_funding_outpoint = outpoint, cp_commitment_number = number,
               cp_obscure_factor = ch_obscure_factor c, cp_broadcaster_pays_fee = (ch_role c = Opener),
               cp_feerate = ch_feerate_holder c,
               cp_broadcaster_dust_limit_sat = holder_dust_limit_sat (ch_params c),
               cp_to_self_delay = counterparty_selected_delay (ch_params c), cp_keys = keys,
               cp_countersignatory_payment_basepoint = payment_basepoint cp,
               cp_to_broadcaster_msat = to_holder, cp_to_countersignatory_msat = to_counterparty,
               cp_htlcs = htlcs\<rparr>
        in Inr (built, keys, htlcs)))"

definition build_counterparty_commitment_at ::
  "EC \<Rightarrow> Channel \<Rightarrow> u64 \<Rightarrow> PublicKey \<Rightarrow> (BuiltCommitmentTx \<times> TxCreationKeys \<times> HtlcOutputInCommitment list) cresult" where
  "build_counterparty_commitment_at E c number point =
     rbind (counterparty c) (\<lambda>cp.
     let keys = TxCreationKeys_derive E point cp (ch_holder_pubkeys c);
         htlcs = map (\<lambda>h. htlc_in_commitment h False)
           (filter (\<lambda>h. included (phase_counterparty h)) (ch_htlcs c));
         (to_holder, to_counterparty) = balances_for c False
     in rbind (ok_or (ch_funding_outpoint c) (InvalidState ''no funding outpoint'')) (\<lambda>outpoint.
        let built = build_commitment_tx
              \<lparr>cp_funding_outpoint = outpoint, cp_commitment_number = number,
               cp_obscure_factor = ch_obscure_factor c, cp_broadcaster_pays_fee = (ch_role c = Accepter),
               cp_feerate = ch_feerate_counterparty c,
               cp_broadcaster_dust_limit_sat = counterparty_dust_limit_sat (ch_params c),
               cp_to_self_delay = holder_selected_delay (ch_params c), cp_keys = keys,
               cp_countersignatory_payment_basepoint = payment_basepoint (ch_holder_pubkeys c),
               cp_to_broadcaster_msat = to_counterparty, cp_to_countersignatory_msat = to_holder,
               cp_htlcs = htlcs\<rparr>
        in Inr (built, keys, htlcs)))"

definition counterparty_info_from_built ::
  "Channel \<Rightarrow> u64 \<Rightarrow> PublicKey \<Rightarrow> BuiltCommitmentTx \<Rightarrow> HtlcOutputInCommitment list \<Rightarrow> CounterpartyCommitmentInfo" where
  "counterparty_info_from_built c number point built htlcs =
     (let (to_holder, to_counterparty) = balances_for c False in
      \<lparr>ci_number = number, ci_txid = bct_txid built, ci_per_commitment_point = point,
       ci_htlcs = map (\<lambda>(i, h). (h, if i < length (htlc_output_indices built)
          then htlc_output_indices built ! i else None)) (enumerate 0 htlcs),
       ci_to_holder_msat = to_holder, ci_to_counterparty_msat = to_counterparty,
       ci_feerate = ch_feerate_counterparty c\<rparr>)"

definition funding_sighash :: "Channel \<Rightarrow> Transaction \<Rightarrow> bytes cresult" where
  "funding_sighash c tx =
     rbind (counterparty c) (\<lambda>cp.
     let redeem = funding_redeemscript (funding_pubkey (ch_holder_pubkeys c)) (funding_pubkey cp);
         cache = SighashCache_new tx
     in expect (segwit_v0_sighash cache 0 redeem (ch_funding_amount_sat c) All))"

definition sign_counterparty_commitment_tx :: "EC \<Rightarrow> Channel \<Rightarrow> BuiltCommitmentTx \<Rightarrow> Signature cresult" where
  "sign_counterparty_commitment_tx E c built =
     rbind (funding_sighash c (bct_tx built)) (\<lambda>sighash.
     Inr (sign_with_funding_key E (ch_signer c) sighash))"

definition verify_counterparty_funding_sig :: "EC \<Rightarrow> Channel \<Rightarrow> BuiltCommitmentTx \<Rightarrow> Signature \<Rightarrow> unit cresult" where
  "verify_counterparty_funding_sig E c built sig =
     rbind (counterparty c) (\<lambda>cp.
     rbind (funding_sighash c (bct_tx built)) (\<lambda>sighash.
     if verify_ecdsa E sighash sig (funding_pubkey cp) then Inr ()
     else Inl (Close ''invalid commitment signature'')))"

definition signed_holder_commitment_tx :: "EC \<Rightarrow> Channel \<Rightarrow> Transaction cresult" where
  "signed_holder_commitment_tx E c =
     rbind (ok_or (ch_current_holder_commitment c) (InvalidState ''no holder commitment yet'')) (\<lambda>hc.
     rbind (counterparty c) (\<lambda>cp.
     let tx = bct_tx (hc_built hc) in
     rbind (funding_sighash c tx) (\<lambda>sighash.
     let our_sig = sign_with_funding_key E (ch_signer c) sighash;
         wit = funding_spend_witness E (funding_pubkey (ch_holder_pubkeys c)) (funding_pubkey cp) our_sig
           (hc_counterparty_sig hc)
     in if tx_input tx = [] then Inl Panicked
        else Inr (tx\<lparr>tx_input := (tx_input tx)[0 := (tx_input tx ! 0)\<lparr>witness := wit\<rparr>]\<rparr>))))"

section \<open>Opening: the handshake\<close>

definition on_accept_channel :: "AcceptChannel \<Rightarrow> Channel \<Rightarrow> unit cresult \<times> Channel" where
  "on_accept_channel msg c =
     (if ch_state c \<noteq> OpenSent then (close_err ''accept_channel in wrong state'', c)
      else if ac_temporary_channel_id msg \<noteq> ch_temporary_channel_id c
      then (close_err ''accept_channel for unknown channel'', c)
      else if ac_dust_limit_satoshis msg > holder_selected_reserve_sat (ch_params c)
      then (close_err ''their dust limit above our selected reserve'', c)
      else if ac_channel_reserve_satoshis msg < holder_dust_limit_sat (ch_params c)
      then (close_err ''their reserve below our dust limit'', c)
      else if ac_to_self_delay msg > 2016 then (close_err ''to_self_delay unreasonably large'', c)
      else if ac_minimum_depth msg > 144 then (close_err ''minimum_depth unreasonably large'', c)
      else if ac_max_accepted_htlcs msg > MAX_HTLCS_PER_SIDE then (close_err ''max_accepted_htlcs above 483'', c)
      else
        let cp = pubkeys_from_msg (ac_basepoints msg) in
        (Inr (), c\<lparr>ch_obscure_factor := commit_number_obscure_factor
             (payment_basepoint (ch_holder_pubkeys c)) (payment_basepoint cp),
           ch_counterparty_pubkeys := Some cp,
           ch_counterparty_current_point := Some (ac_first_per_commitment_point msg),
           ch_params := (ch_params c)\<lparr>counterparty_dust_limit_sat := ac_dust_limit_satoshis msg,
             counterparty_selected_reserve_sat := ac_channel_reserve_satoshis msg,
             counterparty_max_htlc_value_in_flight_msat := ac_max_htlc_value_in_flight_msat msg,
             counterparty_htlc_minimum_msat := ac_htlc_minimum_msat msg,
             counterparty_max_accepted_htlcs := ac_max_accepted_htlcs msg,
             counterparty_selected_delay := ac_to_self_delay msg\<rparr>\<rparr>))"

definition funding_script_pubkey :: "Channel \<Rightarrow> Script cresult" where
  "funding_script_pubkey c =
     rbind (counterparty c) (\<lambda>cp.
     Inr (new_p2wsh (funding_redeemscript (funding_pubkey (ch_holder_pubkeys c)) (funding_pubkey cp))))"

definition funding_created :: "EC \<Rightarrow> Txid \<Rightarrow> u16 \<Rightarrow> Channel \<Rightarrow> FundingCreated cresult \<times> Channel" where
  "funding_created E funding_txid funding_output_index c =
     (if ch_state c \<noteq> OpenSent \<or> ch_role c \<noteq> Opener then (Inl (InvalidState ''funding_created in wrong state''), c)
      else if ch_counterparty_pubkeys c = None then (Inl (InvalidState ''accept_channel not processed''), c)
      else
        let outpoint = \<lparr>op_txid = funding_txid, op_vout = ucast funding_output_index\<rparr>;
            c = c\<lparr>ch_funding_outpoint := Some outpoint,
                  ch_channel_id := channel_id_from_funding funding_txid funding_output_index\<rparr>
        in try_in (expect (ch_counterparty_current_point c)) c (\<lambda>point.
           try_in (build_counterparty_commitment_at E c 0 point) c (\<lambda>(built, _, htlcs).
           try_in (sign_counterparty_commitment_tx E c built) c (\<lambda>sig.
             let c = c\<lparr>ch_current_counterparty_commitment :=
                        Some (counterparty_info_from_built c 0 point built htlcs),
                      ch_state := FundingCreatedSent\<rparr>
             in (Inr \<lparr>fcr_temporary_channel_id = ch_temporary_channel_id c, fcr_funding_txid = funding_txid,
                      fcr_funding_output_index = funding_output_index, fcr_signature = sig\<rparr>, c)))))"

definition on_funding_created :: "EC \<Rightarrow> FundingCreated \<Rightarrow> Channel \<Rightarrow> FundingSigned cresult \<times> Channel" where
  "on_funding_created E msg c =
     (if ch_state c \<noteq> AcceptSent then (close_err ''funding_created in wrong state'', c)
      else
        let txid = fcr_funding_txid msg;
            outpoint = \<lparr>op_txid = txid, op_vout = ucast (fcr_funding_output_index msg)\<rparr>;
            c = c\<lparr>ch_funding_outpoint := Some outpoint,
                  ch_channel_id := channel_id_from_funding txid (fcr_funding_output_index msg)\<rparr>
        in try_in (build_holder_commitment_at E c 0) c (\<lambda>(built, keys, htlcs).
           try_in (verify_counterparty_funding_sig E c built (fcr_signature msg)) c (\<lambda>_.
           let c = c\<lparr>ch_current_holder_commitment := Some
                 \<lparr>hc_number = 0, hc_built = built, hc_counterparty_sig = fcr_signature msg,
                  hc_counterparty_htlc_sigs = [], hc_htlcs = htlcs, hc_keys = keys,
                  hc_feerate = ch_feerate_holder c\<rparr>\<rparr>
           in try_in (expect (ch_counterparty_current_point c)) c (\<lambda>point.
              try_in (build_counterparty_commitment_at E c 0 point) c (\<lambda>(their_built, _, their_htlcs).
              try_in (sign_counterparty_commitment_tx E c their_built) c (\<lambda>sig.
                let c = c\<lparr>ch_current_counterparty_commitment :=
                           Some (counterparty_info_from_built c 0 point their_built their_htlcs),
                         ch_state := AwaitingChannelReady\<rparr>
                in (Inr \<lparr>fsg_channel_id = ch_channel_id c, fsg_signature = sig\<rparr>, c)))))))"

definition on_funding_signed :: "EC \<Rightarrow> FundingSigned \<Rightarrow> Channel \<Rightarrow> unit cresult \<times> Channel" where
  "on_funding_signed E msg c =
     (if ch_state c \<noteq> FundingCreatedSent then (close_err ''funding_signed in wrong state'', c)
      else if fsg_channel_id msg \<noteq> ch_channel_id c then (close_err ''funding_signed wrong channel id'', c)
      else
        try_in (build_holder_commitment_at E c 0) c (\<lambda>(built, keys, htlcs).
        try_in (verify_counterparty_funding_sig E c built (fsg_signature msg)) c (\<lambda>_.
          (Inr (), c\<lparr>ch_current_holder_commitment := Some
               \<lparr>hc_number = 0, hc_built = built, hc_counterparty_sig = fsg_signature msg,
                hc_counterparty_htlc_sigs = [], hc_htlcs = htlcs, hc_keys = keys,
                hc_feerate = ch_feerate_holder c\<rparr>,
             ch_state := AwaitingChannelReady\<rparr>))))"

definition maybe_become_normal :: "Channel \<Rightarrow> Channel" where
  "maybe_become_normal c =
     (if ch_state c = AwaitingChannelReady \<and> ch_channel_ready_sent c \<and> ch_channel_ready_received c
      then c\<lparr>ch_state := Normal\<rparr> else c)"

definition funding_confirmed :: "EC \<Rightarrow> ShortChannelId \<Rightarrow> Channel \<Rightarrow> ChannelReady option cresult \<times> Channel" where
  "funding_confirmed E scid c =
     (if \<not> (ch_state c = AwaitingChannelReady \<or> ch_state c = Normal)
      then (Inl (InvalidState ''funding_confirmed in wrong state''), c)
      else
        let c = c\<lparr>ch_short_channel_id := Some scid, ch_funding_confirmed := True\<rparr>
        in if ch_channel_ready_sent c then (Inr None, c)
           else
             let c = c\<lparr>ch_channel_ready_sent := True\<rparr>;
                 msg = \<lparr>crd_channel_id = ch_channel_id c,
                        crd_second_per_commitment_point = signer_per_commitment_point E (ch_signer c) 1,
                        crd_short_channel_id_alias = None\<rparr>
             in (Inr (Some msg), maybe_become_normal c))"

definition on_channel_ready :: "ChannelReady \<Rightarrow> Channel \<Rightarrow> unit cresult \<times> Channel" where
  "on_channel_ready msg c =
     (if \<not> (ch_state c = AwaitingChannelReady \<or> ch_state c = Normal)
      then (close_err ''channel_ready in wrong state'', c)
      else if ch_counterparty_commitment_number c > 0 \<or> ch_awaiting_raa c then (Inr (), c)
      else
        (Inr (), maybe_become_normal
           (c\<lparr>ch_counterparty_next_point := Some (crd_second_per_commitment_point msg),
              ch_channel_ready_received := True\<rparr>)))"

end
