(* ===== verification/Channel_Dance.thy ===== *)
theory Channel_Dance
  imports Channel
begin

text \<open>
  \<^verbatim>\<open>src/src/channel/dance.rs\<close>: HTLC and fee updates, \<^verbatim>\<open>commitment_signed\<close> and
  \<^verbatim>\<open>revoke_and_ack\<close>, with the holding cell.
\<close>

unbundle bit_operations_syntax

text \<open>Decimal rendering, for the messages built with \<^verbatim>\<open>format!\<close>.\<close>

function show_nat :: "nat \<Rightarrow> string" where
  "show_nat n = (if n < 10 then [''0123456789'' ! n] else show_nat (n div 10) @ [''0123456789'' ! (n mod 10)])"
  by auto

termination by (relation "measure id") auto

declare show_nat.simps [simp del]

abbreviation show_word :: "'a::len word \<Rightarrow> string" where
  "show_word w \<equiv> show_nat (unat w)"

section \<open>Data\<close>

record CommittedInboundHtlc =
  cih_id :: HtlcId
  cih_amount_msat :: Msat
  cih_payment_hash :: PaymentHash
  cih_cltv_expiry :: u32
  cih_onion :: bytes

record RaaOutcome =
  ro_messages :: "Message list"
  ro_commitment_signed :: "CommitmentSigned option"
  ro_forwardable :: "CommittedInboundHtlc list"
  ro_failed_adds :: "(HtlcSource \<times> string) list"

definition RaaOutcome_default :: RaaOutcome where
  "RaaOutcome_default = \<lparr>ro_messages = [], ro_commitment_signed = None, ro_forwardable = [], ro_failed_adds = []\<rparr>"

section \<open>Sending updates\<close>

definition live_htlcs :: "Channel \<Rightarrow> bool \<Rightarrow> Htlc list" where
  "live_htlcs c outb = filter (\<lambda>h. hx_outbound h = outb \<and> hx_resolution h = None) (ch_htlcs c)"

definition sum_msat :: "Msat list \<Rightarrow> Msat" where
  "sum_msat xs = foldl (+) 0 xs"

definition validate_outbound_add :: "Channel \<Rightarrow> Msat \<Rightarrow> u32 \<Rightarrow> unit cresult" where
  "validate_outbound_add c amount cltv =
     (if amount = 0 then Inl (Ignore ''zero-amount HTLC'')
      else if amount < counterparty_htlc_minimum_msat (ch_params c)
      then Inl (Ignore ''below counterparty htlc_minimum'')
      else if cltv \<ge> 500000000 then Inl (Ignore ''cltv_expiry too large'')
      else
        let live_outbound = live_htlcs c True in
        if (of_nat (length live_outbound) :: u16) \<ge> counterparty_max_accepted_htlcs (ch_params c)
        then Inl (Ignore ''counterparty max_accepted_htlcs reached'')
        else
          let in_flight = sum_msat (map hx_amount_msat live_outbound) + amount in
          if in_flight > counterparty_max_htlc_value_in_flight_msat (ch_params c)
          then Inl (Ignore ''counterparty max_htlc_value_in_flight exceeded'')
          else
            let (to_holder, _) = balances_for c False;
                needed = amount + msat_from_sat (counterparty_selected_reserve_sat (ch_params c));
                needed = (if ch_role c = Opener
                  then
                    let n = of_nat (length (filter (\<lambda>h. included (phase_counterparty h)) (ch_htlcs c)));
                        fee = fee_for_weight (ch_feerate_counterparty c)
                          (COMMITMENT_TX_BASE_WEIGHT + COMMITMENT_TX_WEIGHT_PER_HTLC * (n + 2))
                    in needed + msat_from_sat fee
                  else needed)
            in if to_holder < needed then Inl (Ignore ''insufficient balance for HTLC'') else Inr ())"

definition send_add_htlc ::
  "Msat \<Rightarrow> PaymentHash \<Rightarrow> u32 \<Rightarrow> bytes \<Rightarrow> HtlcSource \<Rightarrow> Channel \<Rightarrow> UpdateAddHtlc option cresult \<times> Channel" where
  "send_add_htlc amount ph cltv onion src c =
     (if ch_state c \<noteq> Normal then (Inl (Ignore ''channel not in normal state''), c)
      else if ch_shutdown_sent c \<or> ch_shutdown_received c then (Inl (Ignore ''channel is shutting down''), c)
      else if ch_awaiting_raa c
      then (Inr None, c\<lparr>ch_holding_cell := ch_holding_cell c @ [OpAdd amount ph cltv onion src]\<rparr>)
      else
        try_in (validate_outbound_add c amount cltv) c (\<lambda>_.
          let i = ch_next_holder_htlc_id c;
              h = \<lparr>hx_outbound = True, hx_id = i, hx_amount_msat = amount, hx_payment_hash = ph,
                   hx_cltv_expiry = cltv, hx_onion = onion, hx_source = Some src, hx_resolution = None,
                   phase_holder = NotYet, phase_counterparty = Pending, processed = False\<rparr>;
              c = c\<lparr>ch_next_holder_htlc_id := i + 1, ch_htlcs := ch_htlcs c @ [h],
                    ch_counterparty_dirty := True\<rparr>
          in (Inr (Some \<lparr>uah_channel_id = ch_channel_id c, uah_id = i, uah_amount_msat = amount,
                uah_payment_hash = ph, uah_cltv_expiry = cltv, uah_onion_routing_packet = onion\<rparr>), c)))"

text \<open>
  \<^verbatim>\<open>inbound_committed_mut\<close> and \<^verbatim>\<open>outbound_committed_mut\<close> return a mutable reference to the
  first HTLC of that direction and id; here they return its position, and the caller writes the
  list at that position.
\<close>

definition htlc_index :: "Htlc list \<Rightarrow> bool \<Rightarrow> HtlcId \<Rightarrow> nat option" where
  "htlc_index hs outb i = find (\<lambda>k. hx_outbound (hs ! k) = outb \<and> hx_id (hs ! k) = i) [0..<length hs]"

definition inbound_committed_mut :: "Channel \<Rightarrow> HtlcId \<Rightarrow> nat cresult" where
  "inbound_committed_mut c i =
     rbind (ok_or (htlc_index (ch_htlcs c) False i) (InvalidState ''unknown inbound HTLC id'')) (\<lambda>k.
     let h = ch_htlcs c ! k in
     if hx_resolution h \<noteq> None then Inl (InvalidState ''HTLC already resolved'')
     else if phase_holder h \<noteq> Committed \<or> phase_counterparty h \<noteq> Committed
     then Inl (InvalidState ''HTLC not irrevocably committed'')
     else Inr k)"

definition outbound_committed_mut :: "Channel \<Rightarrow> HtlcId \<Rightarrow> nat cresult" where
  "outbound_committed_mut c i =
     rbind (ok_or (htlc_index (ch_htlcs c) True i) (Close (''unknown outbound HTLC id '' @ show_word i))) (\<lambda>k.
     let h = ch_htlcs c ! k in
     if hx_resolution h \<noteq> None then Inl (Close (''HTLC '' @ show_word i @ '' resolved twice''))
     else if phase_holder h \<noteq> Committed \<or> phase_counterparty h \<noteq> Committed
     then Inl (Close (''HTLC '' @ show_word i @ '' resolved before being irrevocably committed''))
     else Inr k)"

definition resolve_inbound :: "nat \<Rightarrow> HtlcResolution \<Rightarrow> Channel \<Rightarrow> Channel" where
  "resolve_inbound k r c =
     c\<lparr>ch_htlcs := (ch_htlcs c)[k := (ch_htlcs c ! k)\<lparr>hx_resolution := Some r, phase_counterparty := Removing\<rparr>],
       ch_counterparty_dirty := True\<rparr>"

definition send_fulfill_htlc :: "HtlcId \<Rightarrow> PaymentPreimage \<Rightarrow> Channel \<Rightarrow> UpdateFulfillHtlc option cresult \<times> Channel" where
  "send_fulfill_htlc i preimage c =
     (if ch_awaiting_raa c
      then (Inr None, c\<lparr>ch_holding_cell := ch_holding_cell c @ [OpFulfill i preimage]\<rparr>)
      else
        try_in (inbound_committed_mut c i) c (\<lambda>k.
        if payment_hash preimage \<noteq> hx_payment_hash (ch_htlcs c ! k)
        then (Inl (InvalidState ''preimage does not match payment hash''), c)
        else
          (Inr (Some \<lparr>ufh_channel_id = ch_channel_id c, ufh_id = i, ufh_payment_preimage = preimage\<rparr>),
           resolve_inbound k (Fulfill preimage) c)))"

definition send_fail_htlc :: "HtlcId \<Rightarrow> bytes \<Rightarrow> Channel \<Rightarrow> UpdateFailHtlc option cresult \<times> Channel" where
  "send_fail_htlc i reason c =
     (if ch_awaiting_raa c
      then (Inr None, c\<lparr>ch_holding_cell := ch_holding_cell c @ [OpFail i reason]\<rparr>)
      else
        try_in (inbound_committed_mut c i) c (\<lambda>k.
          (Inr (Some \<lparr>ufl_channel_id = ch_channel_id c, ufl_id = i, ufl_reason = reason\<rparr>),
           resolve_inbound k (Fail reason) c)))"

definition send_fail_malformed_htlc ::
  "HtlcId \<Rightarrow> bytes \<Rightarrow> u16 \<Rightarrow> Channel \<Rightarrow> UpdateFailMalformedHtlc option cresult \<times> Channel" where
  "send_fail_malformed_htlc i sha code c =
     (if ch_awaiting_raa c
      then (Inr None, c\<lparr>ch_holding_cell := ch_holding_cell c @ [OpFailMalformed i sha code]\<rparr>)
      else
        try_in (inbound_committed_mut c i) c (\<lambda>k.
          (Inr (Some \<lparr>ufm_channel_id = ch_channel_id c, ufm_id = i, ufm_sha256_of_onion = sha, ufm_failure_code = code\<rparr>),
           resolve_inbound k (FailMalformed sha code) c)))"

definition send_update_fee :: "u32 \<Rightarrow> Channel \<Rightarrow> UpdateFee option cresult \<times> Channel" where
  "send_update_fee feerate c =
     (if ch_role c \<noteq> Opener then (Inl (InvalidState ''only the opener sends update_fee''), c)
      else if ch_state c \<noteq> Normal then (Inl (Ignore ''channel not in normal state''), c)
      else if ch_awaiting_raa c then (Inl (Ignore ''commitment in flight; retry after RAA''), c)
      else if feerate < 253 then (Inl (Ignore ''feerate below floor''), c)
      else
        (Inr (Some \<lparr>uf_channel_id = ch_channel_id c, uf_feerate_per_kw = feerate\<rparr>),
         c\<lparr>ch_feerate_counterparty := feerate, ch_counterparty_dirty := True\<rparr>))"

section \<open>Receiving updates\<close>

definition on_update_add_htlc :: "UpdateAddHtlc \<Rightarrow> Channel \<Rightarrow> unit cresult \<times> Channel" where
  "on_update_add_htlc msg c =
     (if ch_state c \<noteq> Normal then (close_err ''update_add_htlc outside normal operation'', c)
      else if ch_shutdown_sent c \<or> ch_shutdown_received c then (close_err ''update_add_htlc during shutdown'', c)
      else if uah_id msg \<noteq> ch_next_counterparty_htlc_id c
      then (close_err (''non-sequential htlc id '' @ show_word (uah_id msg) @ '' (expected ''
              @ show_word (ch_next_counterparty_htlc_id c) @ '')''), c)
      else if uah_amount_msat msg = 0 then (close_err ''zero-amount HTLC'', c)
      else if uah_amount_msat msg < holder_htlc_minimum_msat (ch_params c)
      then (close_err ''HTLC below our htlc_minimum'', c)
      else if uah_cltv_expiry msg \<ge> 500000000 then (close_err ''cltv_expiry too large'', c)
      else
        let live_inbound = live_htlcs c False in
        if (of_nat (length live_inbound) :: u16) \<ge> holder_max_accepted_htlcs (ch_params c)
        then (close_err ''our max_accepted_htlcs exceeded'', c)
        else
          let in_flight = sum_msat (map hx_amount_msat live_inbound) + uah_amount_msat msg in
          if in_flight > holder_max_htlc_value_in_flight_msat (ch_params c)
          then (close_err ''our max_htlc_value_in_flight exceeded'', c)
          else
            let (_, to_counterparty) = balances_for c True;
                needed = uah_amount_msat msg + msat_from_sat (holder_selected_reserve_sat (ch_params c));
                needed = (if ch_role c = Accepter
                  then
                    let n = of_nat (length (filter (\<lambda>h. included (phase_holder h)) (ch_htlcs c)));
                        fee = fee_for_weight (ch_feerate_holder c)
                          (COMMITMENT_TX_BASE_WEIGHT + COMMITMENT_TX_WEIGHT_PER_HTLC * (n + 1))
                    in needed + msat_from_sat fee
                  else needed)
            in if to_counterparty < needed then (close_err ''peer cannot afford HTLC'', c)
               else
                 let h = \<lparr>hx_outbound = False, hx_id = uah_id msg, hx_amount_msat = uah_amount_msat msg,
                       hx_payment_hash = uah_payment_hash msg, hx_cltv_expiry = uah_cltv_expiry msg,
                       hx_onion = uah_onion_routing_packet msg, hx_source = None, hx_resolution = None,
                       phase_holder = Pending, phase_counterparty = NotYet, processed = False\<rparr>
                 in (Inr (), c\<lparr>ch_next_counterparty_htlc_id := ch_next_counterparty_htlc_id c + 1,
                               ch_htlcs := ch_htlcs c @ [h]\<rparr>))"

definition resolve_outbound :: "nat \<Rightarrow> HtlcResolution \<Rightarrow> Channel \<Rightarrow> (HtlcSource \<times> Msat) cresult \<times> Channel" where
  "resolve_outbound k r c =
     (let h = ch_htlcs c ! k;
          c = c\<lparr>ch_htlcs := (ch_htlcs c)[k := h\<lparr>hx_resolution := Some r, phase_holder := Removing\<rparr>]\<rparr>
      in try_in (expect (hx_source h)) c (\<lambda>src. (Inr (src, hx_amount_msat h), c)))"

definition on_update_fulfill_htlc :: "UpdateFulfillHtlc \<Rightarrow> Channel \<Rightarrow> (HtlcSource \<times> Msat) cresult \<times> Channel" where
  "on_update_fulfill_htlc msg c =
     try_in (outbound_committed_mut c (ufh_id msg)) c (\<lambda>k.
     if payment_hash (ufh_payment_preimage msg) \<noteq> hx_payment_hash (ch_htlcs c ! k)
     then (close_err ''fulfill preimage does not match payment hash'', c)
     else resolve_outbound k (Fulfill (ufh_payment_preimage msg)) c)"

definition on_update_fail_htlc :: "UpdateFailHtlc \<Rightarrow> Channel \<Rightarrow> (HtlcSource \<times> Msat) cresult \<times> Channel" where
  "on_update_fail_htlc msg c =
     try_in (outbound_committed_mut c (ufl_id msg)) c (\<lambda>k. resolve_outbound k (Fail (ufl_reason msg)) c)"

definition on_update_fail_malformed_htlc ::
  "UpdateFailMalformedHtlc \<Rightarrow> Channel \<Rightarrow> (HtlcSource \<times> Msat) cresult \<times> Channel" where
  "on_update_fail_malformed_htlc msg c =
     (if ufm_failure_code msg AND 0x8000 = 0
      then (close_err ''update_fail_malformed_htlc without BADONION bit'', c)
      else
        try_in (outbound_committed_mut c (ufm_id msg)) c (\<lambda>k.
          resolve_outbound k (FailMalformed (ufm_sha256_of_onion msg) (ufm_failure_code msg)) c))"

definition on_update_fee :: "UpdateFee \<Rightarrow> Channel \<Rightarrow> unit cresult \<times> Channel" where
  "on_update_fee msg c =
     (if ch_role c = Opener then (close_err ''non-opener sent update_fee'', c)
      else if uf_feerate_per_kw msg < 253 then (close_err ''update_fee below floor'', c)
      else if uf_feerate_per_kw msg > 10000000 then (close_err ''update_fee absurdly high'', c)
      else (Inr (), c\<lparr>ch_feerate_holder := uf_feerate_per_kw msg,
                      ch_pending_fee_ack := Some (uf_feerate_per_kw msg)\<rparr>))"

section \<open>\<^verbatim>\<open>commitment_signed\<close>\<close>

definition can_send_commitment :: "Channel \<Rightarrow> bool" where
  "can_send_commitment c =
     (ch_counterparty_dirty c \<and> \<not> ch_awaiting_raa c \<and> ch_counterparty_next_point c \<noteq> None
      \<and> (ch_state c = Normal \<or> ch_state c = ShuttingDown))"

text \<open>
  The digest of the second-stage transaction of one untrimmed HTLC of a built commitment: the
  body that the signing loop and the verifying loop share. Indexing out of range and a missing
  output index panic.
\<close>

definition htlc_sighash ::
  "BuiltCommitmentTx \<Rightarrow> TxCreationKeys \<Rightarrow> HtlcOutputInCommitment list \<Rightarrow> u16 \<Rightarrow> u32 \<Rightarrow> nat \<times> Script \<Rightarrow> bytes cresult" where
  "htlc_sighash built keys htlcs delay feerate entry =
     (case entry of (htlc_idx, witness_script) \<Rightarrow>
        if length htlcs \<le> htlc_idx \<or> length (htlc_output_indices built) \<le> htlc_idx then Inl Panicked
        else
          let htlc = htlcs ! htlc_idx in
          rbind (expect (htlc_output_indices built ! htlc_idx)) (\<lambda>vout.
          let htlc_tx = build_htlc_tx (bct_txid built) vout htlc keys delay feerate in
          expect (segwit_v0_sighash (SighashCache_new htlc_tx) 0 witness_script
            (to_sat_floor (h_amount_msat htlc)) All)))"

primrec sign_htlcs ::
  "EC \<Rightarrow> InMemoryChannelSigner \<Rightarrow> PublicKey \<Rightarrow> (nat \<times> Script \<Rightarrow> bytes cresult) \<Rightarrow> (nat \<times> Script) list \<Rightarrow> Signature list cresult" where
  "sign_htlcs E s point digest [] = Inr []"
| "sign_htlcs E s point digest (entry # es) =
     rbind (digest entry) (\<lambda>sighash.
     rbind (sign_htlcs E s point digest es) (\<lambda>sigs. Inr (sign_htlc E s sighash point # sigs)))"

primrec verify_htlcs ::
  "EC \<Rightarrow> PublicKey \<Rightarrow> (nat \<times> Script \<Rightarrow> bytes cresult) \<Rightarrow> (Signature \<times> nat \<times> Script) list \<Rightarrow> unit cresult" where
  "verify_htlcs E key digest [] = Inr ()"
| "verify_htlcs E key digest (se # es) =
     rbind (digest (snd se)) (\<lambda>sighash.
     if verify_ecdsa E sighash (fst se) key then verify_htlcs E key digest es
     else Inl (Close ''invalid htlc signature''))"

definition snapshot :: "HtlcPhase \<Rightarrow> Channel \<Rightarrow> (bool \<times> HtlcId) list" where
  "snapshot ph c = map (\<lambda>h. (hx_outbound h, hx_id h)) (filter (\<lambda>h. phase_counterparty h = ph) (ch_htlcs c))"

definition send_commitment_signed :: "EC \<Rightarrow> Channel \<Rightarrow> CommitmentSigned cresult \<times> Channel" where
  "send_commitment_signed E c =
     (if ch_awaiting_raa c then (Inl (InvalidState ''commitment already in flight''), c)
      else if \<not> ch_counterparty_dirty c then (Inl (InvalidState ''no changes to sign''), c)
      else
        let number = ch_counterparty_commitment_number c + 1 in
        try_in (ok_or (ch_counterparty_next_point c) (InvalidState ''next per-commitment point unknown'')) c (\<lambda>point.
        try_in (build_counterparty_commitment_at E c number point) c (\<lambda>(built, keys, htlcs).
        try_in (sign_counterparty_commitment_tx E c built) c (\<lambda>sig.
        try_in (sign_htlcs E (ch_signer c) point
            (htlc_sighash built keys htlcs (holder_selected_delay (ch_params c)) (ch_feerate_counterparty c))
            (htlcs_in_output_order built)) c (\<lambda>htlc_sigs.
          let fee_update = (if ch_feerate_holder c \<noteq> ch_feerate_counterparty c \<and> ch_role c = Opener
                then Some (ch_feerate_counterparty c) else None)
          in (Inr \<lparr>csg_channel_id = ch_channel_id c, csg_signature = sig, csg_htlc_signatures = htlc_sigs\<rparr>,
              c\<lparr>ch_pending_counterparty_commitment := Some
                   \<lparr>pc_info = counterparty_info_from_built c number point built htlcs,
                    pc_included = snapshot Pending c, pc_removed = snapshot Removing c,
                    pc_fee_update = fee_update\<rparr>,
                ch_awaiting_raa := True, ch_counterparty_dirty := False\<rparr>))))))"

text \<open>The two loops of \<^verbatim>\<open>on_commitment_signed\<close> over the HTLCs: lock in our side, then acknowledge.\<close>

definition lock_holder :: "Htlc \<Rightarrow> Htlc" where
  "lock_holder h =
     (case phase_holder h of Pending \<Rightarrow> h\<lparr>phase_holder := Committed\<rparr>
      | Removing \<Rightarrow> h\<lparr>phase_holder := Gone\<rparr> | _ \<Rightarrow> h)"

definition acks_add :: "Htlc \<Rightarrow> bool" where
  "acks_add h = (\<not> hx_outbound h \<and> phase_counterparty h = NotYet \<and> phase_holder h = Committed)"

definition acks_removal :: "Htlc \<Rightarrow> bool" where
  "acks_removal h =
     (hx_outbound h \<and> hx_resolution h \<noteq> None \<and> phase_holder h = Gone \<and> phase_counterparty h = Committed)"

definition acknowledge :: "Htlc \<Rightarrow> Htlc" where
  "acknowledge h =
     (let h = (if acks_add h then h\<lparr>phase_counterparty := Pending\<rparr> else h)
      in if acks_removal h then h\<lparr>phase_counterparty := Removing\<rparr> else h)"

definition lock_in :: "Channel \<Rightarrow> Channel" where
  "lock_in c =
     (let locked = map lock_holder (ch_htlcs c);
          dirty = list_ex (\<lambda>h. acks_add h \<or> acks_removal h) locked;
          c = c\<lparr>ch_htlcs := map acknowledge locked\<rparr>;
          (dirty, c) = (case ch_pending_fee_ack c of None \<Rightarrow> (dirty, c)
             | Some fee \<Rightarrow> (True, c\<lparr>ch_pending_fee_ack := None, ch_feerate_counterparty := fee\<rparr>));
          c = (if dirty then c\<lparr>ch_counterparty_dirty := True\<rparr> else c)
      in gc_htlcs c)"

definition on_commitment_signed :: "EC \<Rightarrow> CommitmentSigned \<Rightarrow> Channel \<Rightarrow> RevokeAndAck cresult \<times> Channel" where
  "on_commitment_signed E msg c =
     (if \<not> (ch_state c = Normal \<or> ch_state c = ShuttingDown)
      then (close_err ''commitment_signed outside normal operation'', c)
      else
        let number = ch_holder_commitment_number c + 1 in
        try_in (build_holder_commitment_at E c number) c (\<lambda>(built, keys, htlcs).
        try_in (verify_counterparty_funding_sig E c built (csg_signature msg)) c (\<lambda>_.
        if length (csg_htlc_signatures msg) \<noteq> length (htlcs_in_output_order built)
        then (close_err (''expected '' @ show_nat (length (htlcs_in_output_order built)) @ '' htlc signatures, got ''
                @ show_nat (length (csg_htlc_signatures msg))), c)
        else
          try_in (verify_htlcs E (countersignatory_htlc_key keys)
              (htlc_sighash built keys htlcs (counterparty_selected_delay (ch_params c)) (ch_feerate_holder c))
              (zip (csg_htlc_signatures msg) (htlcs_in_output_order built))) c (\<lambda>_.
            let c = c\<lparr>ch_current_holder_commitment := Some
                  \<lparr>hc_number = number, hc_built = built, hc_counterparty_sig = csg_signature msg,
                   hc_counterparty_htlc_sigs = csg_htlc_signatures msg, hc_htlcs = htlcs, hc_keys = keys,
                   hc_feerate = ch_feerate_holder c\<rparr>,
                  ch_holder_commitment_number := number\<rparr>;
                c = lock_in c;
                revoked = number - 1
            in (Inr \<lparr>raa_channel_id = ch_channel_id c,
                     raa_per_commitment_secret = release_commitment_secret (ch_signer c) revoked,
                     raa_next_per_commitment_point = signer_per_commitment_point E (ch_signer c) (number + 1)\<rparr>, c)))))"

section \<open>\<^verbatim>\<open>revoke_and_ack\<close>\<close>

text \<open>
  \<^verbatim>\<open>keys::per_commitment_point\<close> unwraps \<^verbatim>\<open>SecretKey::from_slice\<close>, so a revealed secret that is
  not a valid scalar panics.
\<close>

definition lock_included :: "Htlc list \<Rightarrow> bool \<times> HtlcId \<Rightarrow> Htlc list" where
  "lock_included hs oi =
     (case oi of (outb, i) \<Rightarrow>
        case htlc_index hs outb i of None \<Rightarrow> hs
        | Some k \<Rightarrow>
            let h = hs ! k;
                h = (if phase_counterparty h = Pending then h\<lparr>phase_counterparty := Committed\<rparr> else h);
                h = (if outb \<and> phase_holder h = NotYet then h\<lparr>phase_holder := Pending\<rparr> else h)
            in hs[k := h])"

definition lock_removed :: "Htlc list \<Rightarrow> bool \<times> HtlcId \<Rightarrow> Htlc list" where
  "lock_removed hs oi =
     (case oi of (outb, i) \<Rightarrow>
        case htlc_index hs outb i of None \<Rightarrow> hs
        | Some k \<Rightarrow>
            let h = hs ! k;
                h = (if phase_counterparty h = Removing then h\<lparr>phase_counterparty := Gone\<rparr> else h);
                h = (if \<not> outb \<and> phase_holder h = Committed then h\<lparr>phase_holder := Removing\<rparr> else h)
            in hs[k := h])"

definition is_forwardable :: "Htlc \<Rightarrow> bool" where
  "is_forwardable h =
     (\<not> hx_outbound h \<and> \<not> processed h \<and> hx_resolution h = None \<and> phase_holder h = Committed
      \<and> phase_counterparty h = Committed)"

definition committed_inbound :: "Htlc \<Rightarrow> CommittedInboundHtlc" where
  "committed_inbound h =
     \<lparr>cih_id = hx_id h, cih_amount_msat = hx_amount_msat h, cih_payment_hash = hx_payment_hash h,
      cih_cltv_expiry = hx_cltv_expiry h, cih_onion = hx_onion h\<rparr>"

definition collect_forwardable :: "Channel \<Rightarrow> CommittedInboundHtlc list \<times> Channel" where
  "collect_forwardable c =
     (map committed_inbound (filter is_forwardable (ch_htlcs c)),
      c\<lparr>ch_htlcs := map (\<lambda>h. if is_forwardable h then h\<lparr>processed := True\<rparr> else h) (ch_htlcs c)\<rparr>)"

text \<open>One iteration of the flush; a \<open>None\<close> from a send is the \<^verbatim>\<open>unreachable!\<close> of the source.\<close>

definition flush_op :: "HoldingCellOp \<Rightarrow> RaaOutcome \<Rightarrow> Channel \<Rightarrow> RaaOutcome cresult \<times> Channel" where
  "flush_op cell_op out c =
     (case cell_op of
        OpAdd amount ph cltv onion src \<Rightarrow>
          (case send_add_htlc amount ph cltv onion src c of
             (Inr (Some msg), c) \<Rightarrow> (Inr (out\<lparr>ro_messages := ro_messages out @ [M_UpdateAddHtlc msg]\<rparr>), c)
           | (Inr None, c) \<Rightarrow> (Inl Panicked, c)
           | (Inl (Ignore _), c) \<Rightarrow>
               (Inr (out\<lparr>ro_failed_adds := ro_failed_adds out @ [(src, ''no longer routable on flush'')]\<rparr>), c)
           | (Inl e, c) \<Rightarrow> (Inl e, c))
      | OpFulfill i preimage \<Rightarrow>
          (case send_fulfill_htlc i preimage c of
             (Inr (Some msg), c) \<Rightarrow> (Inr (out\<lparr>ro_messages := ro_messages out @ [M_UpdateFulfillHtlc msg]\<rparr>), c)
           | (Inr None, c) \<Rightarrow> (Inl Panicked, c)
           | (Inl (InvalidState _), c) \<Rightarrow> (Inr out, c)
           | (Inl (Ignore _), c) \<Rightarrow> (Inr out, c)
           | (Inl e, c) \<Rightarrow> (Inl e, c))
      | OpFail i reason \<Rightarrow>
          (case send_fail_htlc i reason c of
             (Inr (Some msg), c) \<Rightarrow> (Inr (out\<lparr>ro_messages := ro_messages out @ [M_UpdateFailHtlc msg]\<rparr>), c)
           | (Inr None, c) \<Rightarrow> (Inl Panicked, c)
           | (Inl (InvalidState _), c) \<Rightarrow> (Inr out, c)
           | (Inl (Ignore _), c) \<Rightarrow> (Inr out, c)
           | (Inl e, c) \<Rightarrow> (Inl e, c))
      | OpFailMalformed i sha code \<Rightarrow>
          (case send_fail_malformed_htlc i sha code c of
             (Inr (Some msg), c) \<Rightarrow> (Inr (out\<lparr>ro_messages := ro_messages out @ [M_UpdateFailMalformedHtlc msg]\<rparr>), c)
           | (Inr None, c) \<Rightarrow> (Inl Panicked, c)
           | (Inl (InvalidState _), c) \<Rightarrow> (Inr out, c)
           | (Inl (Ignore _), c) \<Rightarrow> (Inr out, c)
           | (Inl e, c) \<Rightarrow> (Inl e, c)))"

primrec flush_ops :: "HoldingCellOp list \<Rightarrow> RaaOutcome \<Rightarrow> Channel \<Rightarrow> RaaOutcome cresult \<times> Channel" where
  "flush_ops [] out c = (Inr out, c)"
| "flush_ops (op1 # ops) out c =
     (case flush_op op1 out c of (Inl e, c) \<Rightarrow> (Inl e, c) | (Inr out, c) \<Rightarrow> flush_ops ops out c)"

text \<open>The state change once the revealed secret is accepted, up to the flush.\<close>

definition apply_revocation :: "PendingCounterpartyCommitment \<Rightarrow> RevokeAndAck \<Rightarrow> Channel \<Rightarrow> Channel" where
  "apply_revocation pending msg c =
     (let c = c\<lparr>ch_counterparty_commitment_number := ch_counterparty_commitment_number c + 1,
                ch_counterparty_current_point := ch_counterparty_next_point c,
                ch_counterparty_next_point := Some (raa_next_per_commitment_point msg),
                ch_current_counterparty_commitment := Some (pc_info pending),
                ch_awaiting_raa := False\<rparr>;
          c = c\<lparr>ch_htlcs := foldl lock_included (ch_htlcs c) (pc_included pending)\<rparr>;
          c = c\<lparr>ch_htlcs := foldl lock_removed (ch_htlcs c) (pc_removed pending)\<rparr>;
          c = (case pc_fee_update pending of None \<Rightarrow> c | Some fee \<Rightarrow> c\<lparr>ch_feerate_holder := fee\<rparr>)
      in gc_htlcs c)"

definition flush_holding_cell :: "EC \<Rightarrow> Channel \<Rightarrow> RaaOutcome cresult \<times> Channel" where
  "flush_holding_cell E c =
     (let (fwd, c) = collect_forwardable c;
          outcome = RaaOutcome_default\<lparr>ro_forwardable := fwd\<rparr>;
          ops = ch_holding_cell c;
          c = c\<lparr>ch_holding_cell := []\<rparr>
      in case flush_ops ops outcome c of
           (Inl e, c) \<Rightarrow> (Inl e, c)
         | (Inr outcome, c) \<Rightarrow>
             if can_send_commitment c
             then (case send_commitment_signed E c of
                     (Inl e, c) \<Rightarrow> (Inl e, c)
                   | (Inr cs, c) \<Rightarrow> (Inr (outcome\<lparr>ro_commitment_signed := Some cs\<rparr>), c))
             else (Inr outcome, c))"

definition on_revoke_and_ack :: "EC \<Rightarrow> RevokeAndAck \<Rightarrow> Channel \<Rightarrow> RaaOutcome cresult \<times> Channel" where
  "on_revoke_and_ack E msg c =
     (if \<not> ch_awaiting_raa c then (close_err ''unexpected revoke_and_ack'', c)
      else
        case ch_pending_counterparty_commitment c of
          None \<Rightarrow> (Inl Panicked, c)
        | Some pending \<Rightarrow>
            (case ch_counterparty_current_point c of
               None \<Rightarrow> (Inl Panicked, c\<lparr>ch_pending_counterparty_commitment := None\<rparr>)
             | Some expected_point \<Rightarrow>
                 if \<not> seckey_from_slice_ok E (raa_per_commitment_secret msg)
                 then (Inl Panicked, c\<lparr>ch_pending_counterparty_commitment := None\<rparr>)
                 else if per_commitment_point_of E (raa_per_commitment_secret msg) \<noteq> expected_point
                 then (close_err ''revoked secret does not match per-commitment point'', c)
                 else
                   let index = index_for_commitment (ch_counterparty_commitment_number c) in
                   (case store_insert (ch_counterparty_secrets c) index (raa_per_commitment_secret msg) of
                      Inl _ \<Rightarrow> (close_err ''per-commitment secret inconsistent with chain'', c)
                    | Inr st \<Rightarrow>
                        flush_holding_cell E
                          (apply_revocation pending msg
                            (c\<lparr>ch_pending_counterparty_commitment := None, ch_counterparty_secrets := st\<rparr>)))))"

definition live_htlc_count :: "Channel \<Rightarrow> nat" where
  "live_htlc_count c = length (ch_htlcs c)"

end
