(* ===== verification/Channel_Close.thy ===== *)
theory Channel_Close
  imports Channel_Dance
begin

text \<open>
  \<^verbatim>\<open>src/src/channel/close.rs\<close>: \<^verbatim>\<open>shutdown\<close> and the \<^verbatim>\<open>closing_signed\<close> fee negotiation.
\<close>

section \<open>Shutdown\<close>

datatype ClosingSignedOutcome = Reply ClosingSigned "Transaction option" | Done Transaction

definition send_shutdown :: "Script \<Rightarrow> Channel \<Rightarrow> Shutdown cresult \<times> Channel" where
  "send_shutdown script c =
     (if \<not> (ch_state c = Normal \<or> ch_state c = AwaitingChannelReady \<or> ch_state c = ShuttingDown)
      then (Inl (InvalidState ''shutdown in wrong state''), c)
      else if ch_shutdown_sent c then (Inl (InvalidState ''shutdown already sent''), c)
      else if \<not> is_witness_program script
      then (Inl (InvalidState ''shutdown script must be a witness program''), c)
      else
        let c = c\<lparr>ch_holder_shutdown_script := Some script, ch_shutdown_sent := True\<rparr>;
            c = (if ch_state c = Normal then c\<lparr>ch_state := ShuttingDown\<rparr> else c)
        in (Inr \<lparr>sd_channel_id = ch_channel_id c, sd_scriptpubkey = script\<rparr>, c))"

definition on_shutdown :: "Shutdown \<Rightarrow> Script \<Rightarrow> Channel \<Rightarrow> Shutdown option cresult \<times> Channel" where
  "on_shutdown msg our_script c =
     (if \<not> (ch_state c = Normal \<or> ch_state c = AwaitingChannelReady \<or> ch_state c = ShuttingDown)
      then (close_err ''shutdown in wrong state'', c)
      else if \<not> is_witness_program (sd_scriptpubkey msg)
      then (close_err ''shutdown script is not a witness program'', c)
      else
        let c = c\<lparr>ch_counterparty_shutdown_script := Some (sd_scriptpubkey msg), ch_shutdown_received := True\<rparr>;
            c = (if ch_state c = Normal \<or> ch_state c = AwaitingChannelReady
                 then c\<lparr>ch_state := ShuttingDown\<rparr> else c)
        in if ch_shutdown_sent c then (Inr None, c)
           else (case send_shutdown our_script c of
                   (Inl e, c) \<Rightarrow> (Inl e, c)
                 | (Inr reply, c) \<Rightarrow> (Inr (Some reply), c)))"

definition ready_to_negotiate_close :: "Channel \<Rightarrow> bool" where
  "ready_to_negotiate_close c =
     ((ch_state c = ShuttingDown \<or> ch_state c = NegotiatingClose) \<and> ch_shutdown_sent c
      \<and> ch_shutdown_received c \<and> ch_htlcs c = [] \<and> \<not> ch_awaiting_raa c \<and> \<not> ch_counterparty_dirty c
      \<and> ch_holding_cell c = [])"

section \<open>Fees\<close>

text \<open>\<^verbatim>\<open>Ord::clamp\<close> asserts that its bounds are ordered.\<close>

definition clamp :: "u64 \<Rightarrow> u64 \<Rightarrow> u64 \<Rightarrow> u64 cresult" where
  "clamp v lo hi = (if hi < lo then Inl Panicked else Inr (if v < lo then lo else if hi < v then hi else v))"

definition closing_fee_bounds :: "Channel \<Rightarrow> u32 \<Rightarrow> (u64 \<times> u64 \<times> u64) cresult" where
  "closing_fee_bounds c target_feerate =
     (let fee = fee_for_weight target_feerate CLOSING_TX_WEIGHT_BOUND;
          lo = fee_for_weight 253 CLOSING_TX_WEIGHT_BOUND;
          (to_holder, _) = balances_for c True;
          funder_balance = (if ch_role c = Opener then to_sat_floor to_holder else - 1);
          hi = min (fee * 2) funder_balance
      in rbind (clamp fee lo hi) (\<lambda>clamped. Inr (clamped, lo, hi)))"

section \<open>The closing transaction\<close>

definition closing_outputs :: "Channel \<Rightarrow> u64 \<Rightarrow> u64 \<times> u64" where
  "closing_outputs c fee =
     (let (to_holder, to_counterparty) = balances_for c True;
          holder_sat = to_sat_floor to_holder;
          counterparty_sat = to_sat_floor to_counterparty
      in case ch_role c of
           Opener \<Rightarrow> (saturating_sub holder_sat fee, counterparty_sat)
         | Accepter \<Rightarrow> (holder_sat, saturating_sub counterparty_sat fee))"

definition build_and_sign_closing :: "EC \<Rightarrow> Channel \<Rightarrow> u64 \<Rightarrow> (Transaction \<times> Signature) cresult" where
  "build_and_sign_closing E c fee =
     rbind (ok_or (ch_holder_shutdown_script c) (InvalidState ''no holder shutdown script'')) (\<lambda>holder_script.
     rbind (ok_or (ch_counterparty_shutdown_script c) (InvalidState ''no counterparty shutdown script'')) (\<lambda>counterparty_script.
     rbind (ok_or (ch_funding_outpoint c) (InvalidState ''no funding outpoint'')) (\<lambda>funding.
     let (holder_sat, counterparty_sat) = closing_outputs c fee;
         dust = max (holder_dust_limit_sat (ch_params c)) 546;
         tx = build_closing_tx funding holder_sat counterparty_sat holder_script counterparty_script dust
     in if tx_output tx = [] then Inl (InvalidState ''closing tx would have no outputs'')
        else rbind (funding_sighash c tx) (\<lambda>sighash.
          Inr (tx, sign_with_funding_key E (ch_signer c) sighash)))))"

definition verify_their_closing_sig :: "EC \<Rightarrow> Channel \<Rightarrow> u64 \<Rightarrow> Signature \<Rightarrow> Transaction cresult" where
  "verify_their_closing_sig E c fee sig =
     rbind (build_and_sign_closing E c fee) (\<lambda>(tx, _).
     rbind (counterparty c) (\<lambda>cp.
     rbind (funding_sighash c tx) (\<lambda>sighash.
     if verify_ecdsa E sighash sig (funding_pubkey cp) then Inr tx
     else Inl (Close ''invalid closing signature''))))"

definition finalize_closing :: "EC \<Rightarrow> u64 \<Rightarrow> Signature \<Rightarrow> Channel \<Rightarrow> Transaction cresult \<times> Channel" where
  "finalize_closing E fee their_sig c =
     try_in (build_and_sign_closing E c fee) c (\<lambda>(tx, our_sig).
     try_in (counterparty c) c (\<lambda>cp.
       let wit = funding_spend_witness E (funding_pubkey (ch_holder_pubkeys c)) (funding_pubkey cp) our_sig their_sig
       in if tx_input tx = [] then (Inl Panicked, c)
          else
            let tx = tx\<lparr>tx_input := (tx_input tx)[0 := (tx_input tx ! 0)\<lparr>witness := wit\<rparr>]\<rparr>
            in (Inr tx, c\<lparr>ch_closing_tx := Some tx, ch_state := Closed\<rparr>)))"

section \<open>Negotiation\<close>

definition maybe_send_closing_signed :: "EC \<Rightarrow> u32 \<Rightarrow> Channel \<Rightarrow> ClosingSigned option cresult \<times> Channel" where
  "maybe_send_closing_signed E target_feerate c =
     (if \<not> ready_to_negotiate_close c then (Inr None, c)
      else if ch_role c \<noteq> Opener \<or> ch_last_closing_fee_proposal c \<noteq> None then (Inr None, c)
      else
        try_in (closing_fee_bounds c target_feerate) c (\<lambda>(fee, lo, hi).
        try_in (build_and_sign_closing E c fee) c (\<lambda>(_, sig).
          (Inr (Some \<lparr>cs_channel_id = ch_channel_id c, cs_fee_satoshis = fee, cs_signature = sig,
               cs_fee_range = Some \<lparr>min_fee_satoshis = lo, max_fee_satoshis = hi\<rparr>\<rparr>),
           c\<lparr>ch_state := NegotiatingClose, ch_last_closing_fee_proposal := Some fee\<rparr>))))"

definition closing_reply :: "Channel \<Rightarrow> u64 \<Rightarrow> Signature \<Rightarrow> (u64 \<times> u64) option \<Rightarrow> ClosingSigned" where
  "closing_reply c fee sig bounds =
     \<lparr>cs_channel_id = ch_channel_id c, cs_fee_satoshis = fee, cs_signature = sig,
      cs_fee_range = map_option (\<lambda>(lo, hi). \<lparr>min_fee_satoshis = lo, max_fee_satoshis = hi\<rparr>) bounds\<rparr>"

text \<open>\<^verbatim>\<open>finalize_closing\<close> followed by the reply with our own signature, the exit that three branches share.\<close>

definition finalize_and_reply ::
  "EC \<Rightarrow> u64 \<Rightarrow> Signature \<Rightarrow> (u64 \<times> u64) option \<Rightarrow> (Channel \<Rightarrow> Channel) \<Rightarrow> Channel \<Rightarrow> ClosingSignedOutcome cresult \<times> Channel" where
  "finalize_and_reply E fee their_sig bounds upd c =
     (case finalize_closing E fee their_sig c of
        (Inl e, c) \<Rightarrow> (Inl e, c)
      | (Inr tx, c) \<Rightarrow>
          try_in (build_and_sign_closing E c fee) c (\<lambda>(_, sig).
            (Inr (Reply (closing_reply c fee sig bounds) (Some tx)), upd c)))"

definition finalize_done :: "EC \<Rightarrow> u64 \<Rightarrow> Signature \<Rightarrow> Channel \<Rightarrow> ClosingSignedOutcome cresult \<times> Channel" where
  "finalize_done E fee their_sig c =
     (case finalize_closing E fee their_sig c of
        (Inl e, c) \<Rightarrow> (Inl e, c)
      | (Inr tx, c) \<Rightarrow> (Inr (Done tx), c))"

definition closing_range_path ::
  "EC \<Rightarrow> ClosingSigned \<Rightarrow> ClosingSignedFeeRange \<Rightarrow> u64 \<times> u64 \<times> u64 \<Rightarrow> Channel \<Rightarrow> ClosingSignedOutcome cresult \<times> Channel" where
  "closing_range_path E msg rng ours c =
     (case ours of (our_fee, our_min, our_max) \<Rightarrow>
        let their_fee = cs_fee_satoshis msg;
            lo = max our_min (min_fee_satoshis rng);
            hi = min our_max (max_fee_satoshis rng)
        in if lo > hi then (Inl (Ignore ''no overlap between closing fee ranges''), c)
           else if ch_role c = Opener
           then
             if their_fee < lo \<or> their_fee > hi then (close_err ''closing fee outside negotiated range'', c)
             else finalize_and_reply E their_fee (cs_signature msg) (Some (our_min, our_max))
                    (\<lambda>c. c\<lparr>ch_last_closing_fee_proposal := Some their_fee\<rparr>) c
           else
             (case ch_last_closing_fee_proposal c of
                Some sent \<Rightarrow>
                  if their_fee \<noteq> sent then (close_err ''funder moved fee after our range proposal'', c)
                  else finalize_done E their_fee (cs_signature msg) c
              | None \<Rightarrow>
                  try_in (clamp our_fee lo hi) c (\<lambda>fee.
                  let c = c\<lparr>ch_last_closing_fee_proposal := Some fee\<rparr> in
                  if fee = their_fee
                  then finalize_and_reply E fee (cs_signature msg) (Some (our_min, our_max)) (\<lambda>c. c) c
                  else try_in (build_and_sign_closing E c fee) c (\<lambda>(_, sig).
                    (Inr (Reply (closing_reply c fee sig (Some (our_min, our_max))) None), c)))))"

definition closing_legacy_path :: "EC \<Rightarrow> ClosingSigned \<Rightarrow> u64 \<Rightarrow> Channel \<Rightarrow> ClosingSignedOutcome cresult \<times> Channel" where
  "closing_legacy_path E msg our_fee c =
     (let their_fee = cs_fee_satoshis msg;
          our_next = (case ch_last_closing_fee_proposal c of
              None \<Rightarrow> our_fee
            | Some sent \<Rightarrow>
                if (if their_fee < sent then sent - their_fee else their_fee - sent) \<le> 1 then their_fee
                else (their_fee + sent) div 2);
          c = c\<lparr>ch_last_closing_fee_proposal := Some our_next\<rparr>
      in if our_next = their_fee
         then finalize_and_reply E their_fee (cs_signature msg) None (\<lambda>c. c) c
         else try_in (build_and_sign_closing E c our_next) c (\<lambda>(_, sig).
           (Inr (Reply (closing_reply c our_next sig None) None), c)))"

definition on_closing_signed :: "EC \<Rightarrow> ClosingSigned \<Rightarrow> u32 \<Rightarrow> Channel \<Rightarrow> ClosingSignedOutcome cresult \<times> Channel" where
  "on_closing_signed E msg target_feerate c =
     (if \<not> ready_to_negotiate_close c then (close_err ''closing_signed before channel is quiescent'', c)
      else
        let c = c\<lparr>ch_state := NegotiatingClose\<rparr>;
            their_fee = cs_fee_satoshis msg
        in try_in (verify_their_closing_sig E c their_fee (cs_signature msg)) c (\<lambda>_.
           if ch_last_closing_fee_proposal c = Some their_fee
           then finalize_done E their_fee (cs_signature msg) c
           else
             try_in (closing_fee_bounds c target_feerate) c (\<lambda>(our_fee, our_min, our_max).
             case cs_fee_range msg of
               Some rng \<Rightarrow> closing_range_path E msg rng (our_fee, our_min, our_max) c
             | None \<Rightarrow> closing_legacy_path E msg our_fee c)))"

end
