(* ===== verification/Channel_Reestablish.thy ===== *)
theory Channel_Reestablish
  imports Channel_Close
begin

text \<open>
  \<^verbatim>\<open>src/src/channel/reestablish.rs\<close>: what a disconnect rolls back, the reestablish message and
  its handling.
\<close>

section \<open>Disconnect\<close>

record RollbackState =
  rb_kept :: "Htlc list"
  rb_requeue :: "HoldingCellOp list"
  rb_next_counterparty_id :: u64
  rb_panicked :: bool

text \<open>Whether the current holder commitment carries an HTLC with this HTLC's visible data.\<close>

definition in_our_current :: "Channel \<Rightarrow> Htlc \<Rightarrow> bool" where
  "in_our_current c h =
     (case ch_current_holder_commitment c of None \<Rightarrow> False
      | Some hc \<Rightarrow> list_ex (\<lambda>x. \<not> offered x \<and> h_payment_hash x = hx_payment_hash h
          \<and> h_amount_msat x = hx_amount_msat h \<and> h_cltv_expiry x = hx_cltv_expiry h) (hc_htlcs hc))"

text \<open>The parts of the closure \<^verbatim>\<open>retain_mut\<close> runs for each HTLC, in the order of the source.\<close>

definition rollback_counterparty :: "(bool \<times> HtlcId) list \<Rightarrow> Htlc \<Rightarrow> Htlc" where
  "rollback_counterparty in_flight h =
     (if phase_counterparty h = Pending \<and> \<not> hx_outbound h \<and> (hx_outbound h, hx_id h) \<notin> set in_flight
      then h\<lparr>phase_counterparty := NotYet\<rparr> else h)"

definition requeue_removal :: "Htlc \<Rightarrow> HoldingCellOp list" where
  "requeue_removal h =
     (case hx_resolution h of
        Some (Fulfill p) \<Rightarrow> [OpFulfill (hx_id h) p]
      | Some (Fail r) \<Rightarrow> [OpFail (hx_id h) r]
      | _ \<Rightarrow> [])"

definition unsigned_removal :: "(bool \<times> HtlcId) list \<Rightarrow> Htlc \<Rightarrow> bool" where
  "unsigned_removal in_flight_removed h =
     (phase_counterparty h = Removing \<and> (hx_outbound h, hx_id h) \<notin> set in_flight_removed)"

definition rollback_removal :: "(bool \<times> HtlcId) list \<Rightarrow> Htlc \<Rightarrow> Htlc" where
  "rollback_removal in_flight_removed h =
     (if unsigned_removal in_flight_removed h
      then if \<not> hx_outbound h then h\<lparr>hx_resolution := None, phase_counterparty := Committed\<rparr>
           else h\<lparr>hx_resolution := None, phase_counterparty := Committed, phase_holder := Committed\<rparr>
      else h)"

definition rollback_holder :: "Htlc \<Rightarrow> Htlc" where
  "rollback_holder h =
     (if hx_outbound h \<and> phase_holder h = Removing
      then h\<lparr>hx_resolution := None, phase_holder := Committed\<rparr> else h)"

definition rollback_htlc ::
  "Channel \<Rightarrow> (bool \<times> HtlcId) list \<Rightarrow> (bool \<times> HtlcId) list \<Rightarrow> RollbackState \<Rightarrow> Htlc \<Rightarrow> RollbackState" where
  "rollback_htlc c in_flight in_flight_removed st h =
     (if phase_counterparty h = Pending \<and> hx_outbound h \<and> (hx_outbound h, hx_id h) \<notin> set in_flight
      then (case hx_source h of
              None \<Rightarrow> st\<lparr>rb_panicked := True\<rparr>
            | Some src \<Rightarrow> st\<lparr>rb_requeue := rb_requeue st
                @ [OpAdd (hx_amount_msat h) (hx_payment_hash h) (hx_cltv_expiry h) (hx_onion h) src]\<rparr>)
      else
        let h = rollback_counterparty in_flight h;
            st = (if unsigned_removal in_flight_removed h \<and> \<not> hx_outbound h
                  then st\<lparr>rb_requeue := rb_requeue st @ requeue_removal h\<rparr> else st);
            h = rollback_removal in_flight_removed h
        in if \<not> hx_outbound h \<and> phase_holder h = Pending \<and> \<not> in_our_current c h
           then st\<lparr>rb_next_counterparty_id := min (rb_next_counterparty_id st) (hx_id h)\<rparr>
           else st\<lparr>rb_kept := rb_kept st @ [rollback_holder h]\<rparr>)"

definition on_disconnect :: "Channel \<Rightarrow> unit cresult \<times> Channel" where
  "on_disconnect c =
     (let in_flight = (case ch_pending_counterparty_commitment c of None \<Rightarrow> [] | Some p \<Rightarrow> pc_included p);
          in_flight_removed = (case ch_pending_counterparty_commitment c of None \<Rightarrow> [] | Some p \<Rightarrow> pc_removed p);
          st = foldl (rollback_htlc c in_flight in_flight_removed)
                 \<lparr>rb_kept = [], rb_requeue = [], rb_next_counterparty_id = ch_next_counterparty_htlc_id c,
                  rb_panicked = False\<rparr> (ch_htlcs c)
      in if rb_panicked st then (Inl Panicked, c)
         else
           let c = c\<lparr>ch_htlcs := rb_kept st, ch_next_counterparty_htlc_id := rb_next_counterparty_id st,
                     ch_holding_cell := rb_requeue st @ ch_holding_cell c\<rparr>;
               c = (case ch_pending_fee_ack c of None \<Rightarrow> c
                    | Some _ \<Rightarrow> c\<lparr>ch_pending_fee_ack := None, ch_feerate_holder := ch_feerate_counterparty c\<rparr>)
           in (Inr (), c))"

section \<open>Reestablish\<close>

record ReestablishActions =
  ra_messages :: "Message list"
  ra_data_loss_detected :: bool

definition make_channel_reestablish :: "EC \<Rightarrow> Channel \<Rightarrow> ChannelReestablish" where
  "make_channel_reestablish E c =
     (let next_revocation = ch_counterparty_commitment_number c;
          last_secret = (if next_revocation = 0 then replicate 32 0
            else case secret_for (ch_counterparty_secrets c) (index_for_commitment (next_revocation - 1)) of
                   None \<Rightarrow> replicate 32 0 | Some s \<Rightarrow> s)
      in \<lparr>cre_channel_id = ch_channel_id c, cre_next_commitment_number = ch_holder_commitment_number c + 1,
          cre_next_revocation_number = next_revocation, cre_your_last_per_commitment_secret = last_secret,
          cre_my_current_per_commitment_point =
            signer_per_commitment_point E (ch_signer c) (ch_holder_commitment_number c)\<rparr>)"

definition find_htlc :: "Channel \<Rightarrow> bool \<times> HtlcId \<Rightarrow> Htlc option" where
  "find_htlc c oi = find (\<lambda>h. hx_outbound h = fst oi \<and> hx_id h = snd oi) (ch_htlcs c)"

definition retransmit_add :: "Channel \<Rightarrow> Htlc \<Rightarrow> Message" where
  "retransmit_add c h = M_UpdateAddHtlc
     \<lparr>uah_channel_id = ch_channel_id c, uah_id = hx_id h, uah_amount_msat = hx_amount_msat h,
      uah_payment_hash = hx_payment_hash h, uah_cltv_expiry = hx_cltv_expiry h,
      uah_onion_routing_packet = hx_onion h\<rparr>"

definition retransmit_removal :: "Channel \<Rightarrow> Htlc \<Rightarrow> Message list" where
  "retransmit_removal c h =
     (case hx_resolution h of
        Some (Fulfill p) \<Rightarrow> [M_UpdateFulfillHtlc
          \<lparr>ufh_channel_id = ch_channel_id c, ufh_id = hx_id h, ufh_payment_preimage = p\<rparr>]
      | Some (Fail r) \<Rightarrow> [M_UpdateFailHtlc \<lparr>ufl_channel_id = ch_channel_id c, ufl_id = hx_id h, ufl_reason = r\<rparr>]
      | Some (FailMalformed sha code) \<Rightarrow> [M_UpdateFailMalformedHtlc
          \<lparr>ufm_channel_id = ch_channel_id c, ufm_id = hx_id h, ufm_sha256_of_onion = sha, ufm_failure_code = code\<rparr>]
      | None \<Rightarrow> [])"

text \<open>The updates the in-flight commitment covered, then the commitment itself, signed again.\<close>

definition retransmit_updates :: "Channel \<Rightarrow> PendingCounterpartyCommitment \<Rightarrow> Message list" where
  "retransmit_updates c pending =
     (let adds = sort_key hx_id (List.map_filter (find_htlc c) (filter fst (pc_included pending)));
          removals = List.map_filter (find_htlc c) (filter (\<lambda>oi. \<not> fst oi) (pc_removed pending))
      in map (retransmit_add c) adds @ concat (map (retransmit_removal c) removals) @
         (case pc_fee_update pending of None \<Rightarrow> []
          | Some fee \<Rightarrow> [M_UpdateFee \<lparr>uf_channel_id = ch_channel_id c, uf_feerate_per_kw = fee\<rparr>]))"

definition resign_commitment :: "EC \<Rightarrow> Channel \<Rightarrow> CommitmentSigned cresult" where
  "resign_commitment E c =
     (let number = ch_counterparty_commitment_number c + 1 in
      rbind (ok_or (ch_counterparty_next_point c) (InvalidState ''missing next point on reestablish'')) (\<lambda>point.
      rbind (build_counterparty_commitment_at E c number point) (\<lambda>(built, keys, htlcs).
      rbind (sign_counterparty_commitment_tx E c built) (\<lambda>sig.
      rbind (sign_htlcs E (ch_signer c) point
          (htlc_sighash built keys htlcs (holder_selected_delay (ch_params c)) (ch_feerate_counterparty c))
          (htlcs_in_output_order built)) (\<lambda>htlc_sigs.
      Inr \<lparr>csg_channel_id = ch_channel_id c, csg_signature = sig, csg_htlc_signatures = htlc_sigs\<rparr>)))))"

definition retransmit_commitment :: "EC \<Rightarrow> Channel \<Rightarrow> Message list cresult" where
  "retransmit_commitment E c =
     rbind (expect (ch_pending_counterparty_commitment c)) (\<lambda>pending.
     rbind (resign_commitment E c) (\<lambda>cs.
     Inr (retransmit_updates c pending @ [M_CommitmentSigned cs])))"

definition retransmit_raa :: "EC \<Rightarrow> Channel \<Rightarrow> Message" where
  "retransmit_raa E c = M_RevokeAndAck
     \<lparr>raa_channel_id = ch_channel_id c,
      raa_per_commitment_secret = release_commitment_secret (ch_signer c) (ch_holder_commitment_number c - 1),
      raa_next_per_commitment_point =
        signer_per_commitment_point E (ch_signer c) (ch_holder_commitment_number c + 1)\<rparr>"

definition check_last_secret :: "ChannelReestablish \<Rightarrow> Channel \<Rightarrow> unit cresult" where
  "check_last_secret msg c =
     (if cre_next_revocation_number msg > 0
      then if cre_your_last_per_commitment_secret msg
                \<noteq> release_commitment_secret (ch_signer c) (cre_next_revocation_number msg - 1)
           then close_err ''peer presented incorrect last per-commitment secret''
           else Inr ()
      else if cre_your_last_per_commitment_secret msg \<noteq> replicate 32 0
      then close_err ''peer presented a secret before any revocation'' else Inr ())"

text \<open>The handler changes no field of the channel, so it is a plain function of it.\<close>

definition reestablish_commitments ::
  "EC \<Rightarrow> ChannelReestablish \<Rightarrow> Message list \<Rightarrow> Channel \<Rightarrow> ReestablishActions cresult" where
  "reestablish_commitments E msg msgs c =
     (let our_last_sent = ch_counterparty_commitment_number c + (if ch_awaiting_raa c then 1 else 0);
          finish = (\<lambda>msgs. Inr \<lparr>ra_messages =
             (if cre_next_commitment_number msg = 1 \<and> ch_holder_commitment_number c = 0 \<and> ch_channel_ready_sent c
              then M_ChannelReady \<lparr>crd_channel_id = ch_channel_id c,
                     crd_second_per_commitment_point = signer_per_commitment_point E (ch_signer c) 1,
                     crd_short_channel_id_alias = None\<rparr> # msgs
              else msgs), ra_data_loss_detected = False\<rparr>)
      in if cre_next_commitment_number msg = our_last_sent \<and> ch_awaiting_raa c
         then rbind (retransmit_commitment E c) (\<lambda>more. finish (msgs @ more))
         else if cre_next_commitment_number msg = our_last_sent + 1 then finish msgs
         else if cre_next_commitment_number msg > our_last_sent + 1
         then Inr \<lparr>ra_messages = msgs, ra_data_loss_detected = True\<rparr>
         else close_err ''peer expects an ancient commitment; unrecoverable'')"

definition on_channel_reestablish :: "EC \<Rightarrow> ChannelReestablish \<Rightarrow> Channel \<Rightarrow> ReestablishActions cresult" where
  "on_channel_reestablish E msg c =
     (let our_next_revocation = ch_holder_commitment_number c;
          go = (\<lambda>msgs. rbind (check_last_secret msg c) (\<lambda>_. reestablish_commitments E msg msgs c))
      in if cre_next_revocation_number msg = saturating_sub our_next_revocation 1 \<and> ch_holder_commitment_number c > 0
         then go [retransmit_raa E c]
         else if cre_next_revocation_number msg > our_next_revocation
         then Inr \<lparr>ra_messages = [], ra_data_loss_detected = True\<rparr>
         else if cre_next_revocation_number msg \<noteq> our_next_revocation
         then close_err ''peer requests an ancient revocation; unrecoverable''
         else go [])"

end
