(* ===== verification/Ledger.thy ===== *)
theory Ledger
  imports Main
begin

text \<open>
  The abstract specification of a channel's money: two parties with base balances, a list of
  payments in escrow, and two views of each party's balance, one per commitment. A payment moves
  through six stages as the two parties lock commitments in. The theory shows that no party's
  balance ever goes below zero in either view, which is what makes the saturating arithmetic of
  the channel exact.
\<close>

section \<open>Payments and views\<close>

datatype stage = Offered | Acked | Locked | Resolved | Dropping | Cleared

text \<open>
  The key is the offering party and an identifier. \<open>Offered\<close>: only on the other party's
  commitment; \<open>Acked\<close>: about to enter the offerer's own; \<open>Locked\<close>: on both; \<open>Resolved\<close>: leaving
  the offerer's own; \<open>Dropping\<close>: leaving the other's; \<open>Cleared\<close>: gone from both.
\<close>

record entry =
  e_key :: "bool \<times> nat"
  e_amount :: int
  e_stage :: stage
  e_refunded :: bool

abbreviation e_owner :: "entry \<Rightarrow> bool" where
  "e_owner e \<equiv> fst (e_key e)"

text \<open>What an entry adds to a party's balance on the party's own (near) and on the other
  party's (far) commitment, and what is irrevocably owed (the third function).\<close>

definition near :: "bool \<Rightarrow> entry \<Rightarrow> int" where
  "near own e =
     (if e_owner e = own
      then (if e_stage e = Offered \<or> e_refunded e then 0 else - e_amount e)
      else (if e_stage e \<in> {Dropping, Cleared} \<and> \<not> e_refunded e then e_amount e else 0))"

definition far :: "bool \<Rightarrow> entry \<Rightarrow> int" where
  "far own e =
     (if e_owner e = own
      then (if e_stage e \<in> {Dropping, Cleared} \<and> e_refunded e then 0 else - e_amount e)
      else (if e_stage e \<in> {Resolved, Dropping, Cleared} \<and> \<not> e_refunded e then e_amount e else 0))"

definition owed :: "bool \<Rightarrow> entry \<Rightarrow> int" where
  "owed own e =
     (if e_owner e = own \<and> e_stage e \<in> {Locked, Resolved, Dropping, Cleared} \<and> \<not> e_refunded e
      then e_amount e else 0)"

definition entry_ok :: "entry \<Rightarrow> bool" where
  "entry_ok e \<longleftrightarrow> 0 \<le> e_amount e \<and> (e_stage e \<in> {Offered, Acked, Locked} \<longrightarrow> \<not> e_refunded e)"

abbreviation total :: "('a \<Rightarrow> int) \<Rightarrow> 'a list \<Rightarrow> int" where
  "total f xs \<equiv> sum_list (map f xs)"

definition solvent :: "int \<Rightarrow> ('a \<Rightarrow> int) \<Rightarrow> ('a \<Rightarrow> int) \<Rightarrow> 'a list \<Rightarrow> bool" where
  "solvent b w d es \<longleftrightarrow> (\<forall>p r. es = p @ r \<longrightarrow> 0 \<le> b + total w p - total d r)"

lemma solventD: "solvent b w d es \<Longrightarrow> es = p @ r \<Longrightarrow> 0 \<le> b + total w p - total d r"
  unfolding solvent_def by blast

lemma total_mono: "(\<And>x. x \<in> set xs \<Longrightarrow> f x \<le> g x) \<Longrightarrow> total f xs \<le> total g xs"
  for f g :: "'a \<Rightarrow> int"
  by (induction xs) (auto simp: add_mono)

text \<open>Comparing two lists entry by entry, with different bounds before and after a cut.\<close>

lemma total_cut:
  fixes f g u v :: "'a \<Rightarrow> int"
  assumes "\<And>x. x \<in> set p \<Longrightarrow> f x \<le> u x" "\<And>x. x \<in> set r \<Longrightarrow> g x \<le> v x"
  shows "total f p + total g r \<le> total u p + total v r"
  using assms by (intro add_mono total_mono)

lemma total_filter: "total f (filter P xs) = total (\<lambda>x. if P x then f x else 0) xs"
  for f :: "'a \<Rightarrow> int"
  by (induction xs) auto

lemma total_add: "total f xs + total g xs = total (\<lambda>x. f x + g x) xs"
  for f g :: "'a \<Rightarrow> int"
  by (simp add: sum_list_addf)

lemma total_minus: "- total f xs = total (\<lambda>x. - f x) xs"
  for f :: "'a \<Rightarrow> int"
  by (induction xs) auto

lemma filter_cut:
  "filter P xs = p @ r \<Longrightarrow> \<exists>p' r'. xs = p' @ r' \<and> filter P p' = p \<and> filter P r' = r"
proof (induction xs arbitrary: p)
  case (Cons x xs)
  show ?case
  proof (cases "P x")
    case True
    with Cons.prems have eq: "x # filter P xs = p @ r" by simp
    show ?thesis
    proof (cases p)
      case Nil
      with eq True show ?thesis by (intro exI [of _ "[]"] exI [of _ "x # xs"]) auto
    next
      case (Cons y ys)
      with eq have "filter P xs = ys @ r" "y = x" by auto
      from Cons.IH [OF this(1)] obtain p' r' where "xs = p' @ r'" "filter P p' = ys" "filter P r' = r" by blast
      with True \<open>p = y # ys\<close> \<open>y = x\<close> show ?thesis by (intro exI [of _ "x # p'"] exI [of _ r']) auto
    qed
  next
    case False
    with Cons.prems have "filter P xs = p @ r" by simp
    from Cons.IH [OF this] obtain p' r' where "xs = p' @ r'" "filter P p' = p" "filter P r' = r" by blast
    with False show ?thesis by (intro exI [of _ "x # p'"] exI [of _ r']) auto
  qed
qed simp

section \<open>Locking a commitment in\<close>

text \<open>
  When a party's commitment is locked in, its own acknowledged payments lock, its resolved ones
  start to leave the other side, the other party's offers are acknowledged, and the other
  party's dropping ones are cleared; \<open>P\<close> selects the payments the commitment covers.
\<close>

definition advance :: "bool \<Rightarrow> (entry \<Rightarrow> bool) \<Rightarrow> entry \<Rightarrow> entry" where
  "advance own P e =
     (if \<not> P e then e
      else if e_owner e = own
      then (case e_stage e of Acked \<Rightarrow> e\<lparr>e_stage := Locked\<rparr> | Resolved \<Rightarrow> e\<lparr>e_stage := Dropping\<rparr> | _ \<Rightarrow> e)
      else (case e_stage e of Offered \<Rightarrow> e\<lparr>e_stage := Acked\<rparr> | Dropping \<Rightarrow> e\<lparr>e_stage := Cleared\<rparr> | _ \<Rightarrow> e))"

abbreviation live :: "entry \<Rightarrow> bool" where
  "live e \<equiv> e_stage e \<noteq> Cleared"

definition cleared_gain :: "bool \<Rightarrow> entry \<Rightarrow> int" where
  "cleared_gain own e = (if live e then 0 else near own e)"

lemma advance_key [simp]: "e_key (advance own P e) = e_key e"
  by (simp add: advance_def split: stage.splits)

lemma advance_amount [simp]: "e_amount (advance own P e) = e_amount e"
  by (simp add: advance_def split: stage.splits)

lemma advance_refunded [simp]: "e_refunded (advance own P e) = e_refunded e"
  by (simp add: advance_def split: stage.splits)

lemma advance_ok: "entry_ok e \<Longrightarrow> entry_ok (advance own P e) \<or> \<not> live (advance own P e)"
  by (cases "e_stage e") (auto simp: entry_ok_def advance_def)

text \<open>The quantity a lock-in by \<open>own\<close> relies on, per entry.\<close>

definition lock_margin :: "bool \<Rightarrow> (entry \<Rightarrow> bool) \<Rightarrow> entry \<Rightarrow> int" where
  "lock_margin own P e =
     (if e_owner e \<noteq> own \<and> e_stage e = Dropping \<and> P e \<and> \<not> e_refunded e then e_amount e else 0)
     - owed own e
     - (if e_owner e = own \<and> e_stage e = Acked \<and> P e then e_amount e else 0)"

definition blocked :: "bool \<Rightarrow> (entry \<Rightarrow> bool) \<Rightarrow> entry \<Rightarrow> bool" where
  "blocked own P e \<longleftrightarrow> e_owner e = own \<and> (e_stage e = Offered \<or> e_stage e = Acked \<and> \<not> P e)"

definition locking :: "bool \<Rightarrow> (entry \<Rightarrow> bool) \<Rightarrow> entry \<Rightarrow> bool" where
  "locking own P e \<longleftrightarrow> e_owner e = own \<and> e_stage e = Acked \<and> P e"

text \<open>When a party may lock in the payments selected by \<open>P\<close>: it can pay for them all, none of
  its uncovered payments precedes a covered one, and all its resolutions are covered.\<close>

definition can_lock :: "bool \<Rightarrow> (entry \<Rightarrow> bool) \<Rightarrow> int \<Rightarrow> entry list \<Rightarrow> bool" where
  "can_lock own P b es \<longleftrightarrow>
     0 \<le> b + total (lock_margin own P) es
   \<and> sorted_wrt (\<lambda>x y. \<not> (blocked own P x \<and> locking own P y)) es
   \<and> (\<forall>e\<in>set es. e_owner e = own \<and> e_stage e = Resolved \<longrightarrow> P e)"

lemmas view_defs = near_def far_def owed_def cleared_gain_def lock_margin_def advance_def
  blocked_def locking_def entry_ok_def

text \<open>The entrywise comparisons behind the preservation proof.\<close>

lemma locker_unblocked:
  assumes "entry_ok e" "live e" "\<not> blocked own P e" "w = near own \<or> w = far own"
    and "e_owner e = own \<and> e_stage e = Resolved \<longrightarrow> P e"
  shows "lock_margin own P e \<le> cleared_gain own (advance own P e) + (if live (advance own P e) then w (advance own P e) else 0)"
  using assms by (cases "e_stage e") (auto simp: view_defs)

lemma locker_rest:
  assumes "entry_ok e" "live e"
  shows "lock_margin own P e \<le> cleared_gain own (advance own P e) - (if live (advance own P e) then owed own (advance own P e) else 0)"
  using assms by (cases "e_stage e") (auto simp: view_defs)

lemma locker_keeps:
  assumes "entry_ok e" "live e" "w = near own \<or> w = far own"
  shows "w e \<le> cleared_gain own (advance own P e) + (if live (advance own P e) then w (advance own P e) else 0)"
  using assms by (cases "e_stage e") (auto simp: view_defs)

lemma locker_rest_keeps:
  assumes "entry_ok e" "live e" "\<not> locking own P e"
  shows "- owed own e \<le> cleared_gain own (advance own P e) - (if live (advance own P e) then owed own (advance own P e) else 0)"
  using assms by (cases "e_stage e") (auto simp: view_defs)

lemma other_far:
  assumes "entry_ok e" "live e"
  shows "far (\<not> own) e \<le> cleared_gain (\<not> own) (advance own P e) + (if live (advance own P e) then far (\<not> own) (advance own P e) else 0)"
  using assms by (cases "e_stage e") (auto simp: view_defs)

lemma other_near:
  assumes "entry_ok e" "live e" "e_owner e = own \<and> e_stage e = Resolved \<longrightarrow> P e"
  shows "far (\<not> own) e \<le> cleared_gain (\<not> own) (advance own P e) + (if live (advance own P e) then near (\<not> own) (advance own P e) else 0)"
  using assms by (cases "e_stage e") (auto simp: view_defs)

lemma other_rest:
  assumes "entry_ok e" "live e"
  shows "- owed (\<not> own) e \<le> cleared_gain (\<not> own) (advance own P e) - (if live (advance own P e) then owed (\<not> own) (advance own P e) else 0)"
  using assms by (cases "e_stage e") (auto simp: view_defs)

text \<open>How the sums of the new list look on the old one.\<close>

abbreviation settle :: "bool \<Rightarrow> (entry \<Rightarrow> bool) \<Rightarrow> entry list \<Rightarrow> entry list" where
  "settle own P es \<equiv> filter live (map (advance own P) es)"

abbreviation gains :: "bool \<Rightarrow> bool \<Rightarrow> (entry \<Rightarrow> bool) \<Rightarrow> entry list \<Rightarrow> int" where
  "gains party own P es \<equiv> total (cleared_gain party) (map (advance own P) es)"

lemma settle_value:
  assumes "settle own P es = p @ r"
  obtains p' r' where "es = p' @ r'"
    "b + gains party own P es + total w p - total d r
      = b + total (\<lambda>e. cleared_gain party (advance own P e) + (if live (advance own P e) then w (advance own P e) else 0)) p'
          + total (\<lambda>e. cleared_gain party (advance own P e) - (if live (advance own P e) then d (advance own P e) else 0)) r'"
proof -
  from filter_cut [OF assms] obtain p1 r1 where 1: "map (advance own P) es = p1 @ r1"
    "filter live p1 = p" "filter live r1 = r" by blast
  then obtain p' r' where 2: "es = p' @ r'" "map (advance own P) p' = p1" "map (advance own P) r' = r1"
    by (auto simp: map_eq_append_conv)
  have "b + gains party own P es + total w p - total d r
      = b + (total (\<lambda>e. cleared_gain party (advance own P e)) p' + total (\<lambda>e. if live (advance own P e) then w (advance own P e) else 0) p')
          + (total (\<lambda>e. cleared_gain party (advance own P e)) r' - total (\<lambda>e. if live (advance own P e) then d (advance own P e) else 0) r')"
    by (simp add: 2 1 total_filter comp_def flip: 1(2,3) 2(2,3))
  also have "\<dots> = b + total (\<lambda>e. cleared_gain party (advance own P e) + (if live (advance own P e) then w (advance own P e) else 0)) p'
          + total (\<lambda>e. cleared_gain party (advance own P e) - (if live (advance own P e) then d (advance own P e) else 0)) r'"
    by (simp add: sum_list_addf sum_list_subtractf)
  finally show ?thesis using that 2(1) by blast
qed

definition entries_ok :: "entry list \<Rightarrow> bool" where
  "entries_ok es \<longleftrightarrow> (\<forall>e\<in>set es. entry_ok e \<and> live e)"

lemma locker_solvent:
  assumes ok: "entries_ok es" and can: "can_lock own P b es"
    and sol: "solvent b w (owed own) es" and w: "w = near own \<or> w = far own"
  shows "solvent (b + gains own own P es) w (owed own) (settle own P es)"
  unfolding solvent_def
proof (intro allI impI)
  fix p r assume "settle own P es = p @ r"
  then obtain p' r' where es: "es = p' @ r'" and val:
    "b + gains own own P es + total w p - total (owed own) r
      = b + total (\<lambda>e. cleared_gain own (advance own P e) + (if live (advance own P e) then w (advance own P e) else 0)) p'
          + total (\<lambda>e. cleared_gain own (advance own P e) - (if live (advance own P e) then owed own (advance own P e) else 0)) r'"
    by (rule settle_value)
  have e: "entry_ok e \<and> live e \<and> (e_owner e = own \<and> e_stage e = Resolved \<longrightarrow> P e)" if "e \<in> set es" for e
    using that ok can by (auto simp: entries_ok_def can_lock_def)
  show "0 \<le> b + gains own own P es + total w p - total (owed own) r"
  proof (cases "\<exists>x\<in>set p'. blocked own P x")
    case True
    then have "\<not> locking own P y" if "y \<in> set r'" for y
      using can that unfolding can_lock_def es sorted_wrt_append by blast
    then have "total w p' + total (\<lambda>e. - owed own e) r' \<le>
        total (\<lambda>e. cleared_gain own (advance own P e) + (if live (advance own P e) then w (advance own P e) else 0)) p'
        + total (\<lambda>e. cleared_gain own (advance own P e) - (if live (advance own P e) then owed own (advance own P e) else 0)) r'"
      using e es w by (intro total_cut locker_keeps locker_rest_keeps) auto
    moreover have "0 \<le> b + total w p' - total (owed own) r'" using solventD [OF sol es] .
    ultimately show ?thesis unfolding val by (simp flip: total_minus)
  next
    case False
    then have "total (lock_margin own P) p' + total (lock_margin own P) r' \<le>
        total (\<lambda>e. cleared_gain own (advance own P e) + (if live (advance own P e) then w (advance own P e) else 0)) p'
        + total (\<lambda>e. cleared_gain own (advance own P e) - (if live (advance own P e) then owed own (advance own P e) else 0)) r'"
      using e es w by (intro total_cut locker_unblocked locker_rest) auto
    moreover have "0 \<le> b + total (lock_margin own P) p' + total (lock_margin own P) r'"
      using can by (simp add: can_lock_def es)
    ultimately show ?thesis unfolding val by linarith
  qed
qed

lemma other_solvent:
  assumes ok: "entries_ok es" and can: "can_lock own P b' es"
    and sol: "solvent b (far (\<not> own)) (owed (\<not> own)) es" and w: "w = near (\<not> own) \<or> w = far (\<not> own)"
  shows "solvent (b + gains (\<not> own) own P es) w (owed (\<not> own)) (settle own P es)"
  unfolding solvent_def
proof (intro allI impI)
  fix p r assume "settle own P es = p @ r"
  then obtain p' r' where es: "es = p' @ r'" and val:
    "b + gains (\<not> own) own P es + total w p - total (owed (\<not> own)) r
      = b + total (\<lambda>e. cleared_gain (\<not> own) (advance own P e) + (if live (advance own P e) then w (advance own P e) else 0)) p'
          + total (\<lambda>e. cleared_gain (\<not> own) (advance own P e) - (if live (advance own P e) then owed (\<not> own) (advance own P e) else 0)) r'"
    by (rule settle_value)
  have e: "entry_ok e \<and> live e \<and> (e_owner e = own \<and> e_stage e = Resolved \<longrightarrow> P e)" if "e \<in> set es" for e
    using that ok can by (auto simp: entries_ok_def can_lock_def)
  have "far (\<not> own) x \<le> cleared_gain (\<not> own) (advance own P x) + (if live (advance own P x) then w (advance own P x) else 0)"
    if "x \<in> set p'" for x
    using w e [of x] that es other_far [of x own P] other_near [of x own P] by auto
  then have "total (far (\<not> own)) p' + total (\<lambda>e. - owed (\<not> own) e) r' \<le>
      total (\<lambda>e. cleared_gain (\<not> own) (advance own P e) + (if live (advance own P e) then w (advance own P e) else 0)) p'
      + total (\<lambda>e. cleared_gain (\<not> own) (advance own P e) - (if live (advance own P e) then owed (\<not> own) (advance own P e) else 0)) r'"
    using e es by (intro total_cut other_rest) auto
  moreover have "0 \<le> b + total (far (\<not> own)) p' - total (owed (\<not> own)) r'" using solventD [OF sol es] .
  ultimately show "0 \<le> b + gains (\<not> own) own P es + total w p - total (owed (\<not> own)) r"
    unfolding val by (simp flip: total_minus)
qed

section \<open>The ledger\<close>

text \<open>
  Party \<open>True\<close> is the channel's holder. \<open>lg_flight\<close> is the set of payments covered by the holder's
  commitment signature that the counterparty has not yet answered with a revocation.
\<close>

record ledger =
  lg_base :: "bool \<Rightarrow> int"
  lg_entries :: "entry list"
  lg_flight :: "(bool \<times> nat) set option"

definition in_set_keys :: "(bool \<times> nat) set \<Rightarrow> entry \<Rightarrow> bool" where
  "in_set_keys S e \<longleftrightarrow> e_key e \<in> S"

definition lock_ledger :: "bool \<Rightarrow> (entry \<Rightarrow> bool) \<Rightarrow> ledger \<Rightarrow> ledger" where
  "lock_ledger own P L =
     L\<lparr>lg_base := \<lambda>party. lg_base L party + gains party own P (lg_entries L), lg_entries := settle own P (lg_entries L)\<rparr>"

text \<open>The payments a signature for the counterparty's next commitment covers.\<close>

definition to_sign :: "entry \<Rightarrow> bool" where
  "to_sign e \<longleftrightarrow> e_stage e \<in> (if e_owner e then {Offered, Dropping} else {Acked, Resolved})"

inductive ledger_step :: "ledger \<Rightarrow> ledger \<Rightarrow> bool" where
  offer: "\<lbrakk>0 \<le> a; a \<le> lg_base L own + total (far own) (lg_entries L); own \<longrightarrow> lg_flight L = None;
      (own, i) \<notin> e_key ` set (lg_entries L); \<forall>S. lg_flight L = Some S \<longrightarrow> (own, i) \<notin> S\<rbrakk> \<Longrightarrow>
    ledger_step L (L\<lparr>lg_entries := lg_entries L @ [\<lparr>e_key = (own, i), e_amount = a, e_stage = Offered, e_refunded = False\<rparr>]\<rparr>)"
| resolve: "\<lbrakk>lg_entries L = xs @ e # ys; e_stage e = Locked; \<not> e_owner e \<longrightarrow> lg_flight L = None\<rbrakk> \<Longrightarrow>
    ledger_step L (L\<lparr>lg_entries := xs @ e\<lparr>e_stage := Resolved, e_refunded := refund\<rparr> # ys\<rparr>)"
| lock_holder_side: "ledger_step L (lock_ledger True (\<lambda>_. True) L)"
| sign: "lg_flight L = None \<Longrightarrow>
    ledger_step L (L\<lparr>lg_flight := Some (e_key ` {e \<in> set (lg_entries L). to_sign e})\<rparr>)"
| lock_counterparty_side: "lg_flight L = Some S \<Longrightarrow>
    ledger_step L ((lock_ledger False (in_set_keys S) L)\<lparr>lg_flight := None\<rparr>)"

definition well_ordered :: "entry list \<Rightarrow> bool" where
  "well_ordered es \<longleftrightarrow>
     sorted_wrt (\<lambda>x y. \<not> (e_owner x = e_owner y \<and> e_stage x = Offered \<and> e_stage y = Acked)) es"

definition flight_ok :: "int \<Rightarrow> entry list \<Rightarrow> (bool \<times> nat) set \<Rightarrow> bool" where
  "flight_ok b es S \<longleftrightarrow> can_lock False (in_set_keys S) b es
     \<and> (\<forall>e\<in>set es. e_key e \<in> S \<longrightarrow> to_sign e)
     \<and> (\<forall>e\<in>set es. e_owner e \<and> e_stage e = Offered \<longrightarrow> e_key e \<in> S)"

definition ledger_inv :: "ledger \<Rightarrow> bool" where
  "ledger_inv L \<longleftrightarrow>
     entries_ok (lg_entries L) \<and> distinct (map e_key (lg_entries L)) \<and> well_ordered (lg_entries L)
   \<and> (\<forall>own. solvent (lg_base L own) (near own) (owed own) (lg_entries L)
         \<and> solvent (lg_base L own) (far own) (owed own) (lg_entries L))
   \<and> (case lg_flight L of None \<Rightarrow> True | Some S \<Rightarrow> flight_ok (lg_base L False) (lg_entries L) S)"

section \<open>Every step keeps the ledger solvent\<close>

lemma solvent_whole: "solvent b w d es \<Longrightarrow> 0 \<le> b + total w es"
  using solventD [of b w d es es "[]"] by simp

lemma solvent_snoc:
  assumes "solvent b w d es" "d e = 0" "0 \<le> b + total w es + w e"
  shows "solvent b w d (es @ [e])"
  unfolding solvent_def
proof (intro allI impI)
  fix p r assume "es @ [e] = p @ r"
  then consider "r = []" "p = es @ [e]" | r' where "r = r' @ [e]" "es = p @ r'"
    by (cases r rule: rev_cases) auto
  then show "0 \<le> b + total w p - total d r"
    using assms by cases (auto dest: solventD)
qed

lemma solvent_mono:
  assumes "solvent b w d es" "list_all2 (\<lambda>e e'. w e \<le> w e' \<and> d e' \<le> d e) es es'"
  shows "solvent b w d es'"
  unfolding solvent_def
proof (intro allI impI)
  have sums: "total w xs \<le> total w ys \<and> total d ys \<le> total d xs"
    if "list_all2 (\<lambda>e e'. w e \<le> w e' \<and> d e' \<le> d e) xs ys" for xs ys
    using that by induction auto
  fix p r assume "es' = p @ r"
  then obtain p' r' where "es = p' @ r'" "list_all2 (\<lambda>e e'. w e \<le> w e' \<and> d e' \<le> d e) p' p"
    "list_all2 (\<lambda>e e'. w e \<le> w e' \<and> d e' \<le> d e) r' r"
    using assms(2) by (auto simp: list_all2_append2)
  then show "0 \<le> b + total w p - total d r"
    using solventD [OF assms(1), of p' r'] sums [of p' p] sums [of r' r] by linarith
qed

lemma solvent_replace:
  assumes "solvent b w d (xs @ e # ys)" "w e \<le> w e'" "d e' \<le> d e"
  shows "solvent b w d (xs @ e' # ys)"
  using assms by (auto intro!: solvent_mono [OF assms(1)] list_all2_appendI list_all2_refl)

lemma total_cong: "(\<And>x. x \<in> set xs \<Longrightarrow> f x = g x) \<Longrightarrow> total f xs = total g xs"
  by (metis map_cong)

lemma ledger_invD:
  assumes "ledger_inv L"
  shows "entries_ok (lg_entries L)" "distinct (map e_key (lg_entries L))" "well_ordered (lg_entries L)"
    "solvent (lg_base L own) (near own) (owed own) (lg_entries L)" "solvent (lg_base L own) (far own) (owed own) (lg_entries L)"
    "lg_flight L = Some S \<Longrightarrow> flight_ok (lg_base L False) (lg_entries L) S"
  using assms by (auto simp: ledger_inv_def)

lemma offer_inv:
  assumes inv: "ledger_inv L" and a: "0 \<le> a" "a \<le> lg_base L own + total (far own) (lg_entries L)" "own \<longrightarrow> lg_flight L = None"
    and fresh: "(own, i) \<notin> e_key ` set (lg_entries L)" "\<forall>S. lg_flight L = Some S \<longrightarrow> (own, i) \<notin> S"
  shows "ledger_inv (L\<lparr>lg_entries := lg_entries L @ [\<lparr>e_key = (own, i), e_amount = a, e_stage = Offered, e_refunded = False\<rparr>]\<rparr>)"
proof -
  let ?e = "\<lparr>e_key = (own, i), e_amount = a, e_stage = Offered, e_refunded = False\<rparr>"
  note D = ledger_invD [OF inv]
  have "solvent (lg_base L party) (near party) (owed party) (lg_entries L @ [?e])" for party
    using D(4) [of party] by (intro solvent_snoc) (auto simp: near_def owed_def dest: solvent_whole)
  moreover have "solvent (lg_base L party) (far party) (owed party) (lg_entries L @ [?e])" for party
    using D(5) [of party] a by (intro solvent_snoc) (auto simp: far_def owed_def dest: solvent_whole)
  moreover have "entries_ok (lg_entries L @ [?e])" using D(1) a(1) by (auto simp: entries_ok_def entry_ok_def)
  moreover have "well_ordered (lg_entries L @ [?e])"
    using D(3) by (auto simp: well_ordered_def sorted_wrt_append)
  moreover have "flight_ok (lg_base L False) (lg_entries L @ [?e]) S" if "lg_flight L = Some S" for S
    using D(6) [OF that] that a(3) fresh
    by (auto simp: flight_ok_def can_lock_def sorted_wrt_append in_set_keys_def lock_margin_def owed_def locking_def)
  ultimately show ?thesis using D(2) fresh(1) by (auto simp: ledger_inv_def split: option.splits)
qed

lemma resolve_inv:
  assumes inv: "ledger_inv L" and es: "lg_entries L = xs @ e # ys" and st: "e_stage e = Locked"
    and guard: "\<not> e_owner e \<longrightarrow> lg_flight L = None"
  shows "ledger_inv (L\<lparr>lg_entries := xs @ e\<lparr>e_stage := Resolved, e_refunded := refund\<rparr> # ys\<rparr>)"
proof -
  let ?e = "e\<lparr>e_stage := Resolved, e_refunded := refund\<rparr>"
  note D = ledger_invD [OF inv]
  have e: "entry_ok e" using D(1) by (simp add: entries_ok_def es)
  have "solvent (lg_base L party) (near party) (owed party) (xs @ ?e # ys)" for party
    by (rule solvent_replace [OF D(4) [of party, unfolded es]]) (use e st in \<open>auto simp: view_defs\<close>)
  moreover have "solvent (lg_base L party) (far party) (owed party) (xs @ ?e # ys)" for party
    by (rule solvent_replace [OF D(5) [of party, unfolded es]]) (use e st in \<open>auto simp: view_defs\<close>)
  moreover have "entries_ok (xs @ ?e # ys)" using D(1) by (auto simp: entries_ok_def entry_ok_def es)
  moreover have "well_ordered (xs @ ?e # ys)"
    using D(3) st by (auto simp: well_ordered_def sorted_wrt_append es)
  moreover have "flight_ok (lg_base L False) (xs @ ?e # ys) S" if "lg_flight L = Some S" for S
  proof -
    have owner: "e_owner e" using guard that by auto
    have "e_key e \<notin> S" using D(6) [OF that] owner st by (auto simp: flight_ok_def es to_sign_def)
    moreover have "lock_margin False (in_set_keys S) ?e = lock_margin False (in_set_keys S) e"
      using owner st by (simp add: lock_margin_def owed_def)
    ultimately show ?thesis
      using D(6) [OF that] owner st
      by (auto simp: flight_ok_def can_lock_def es sorted_wrt_append blocked_def locking_def in_set_keys_def)
  qed
  ultimately show ?thesis using D(2) by (auto simp: ledger_inv_def es split: option.splits)
qed

lemma margin_near:
  assumes "entries_ok es" "\<And>e. e \<in> set es \<Longrightarrow> e_owner e = own \<and> e_stage e = Acked \<or> e_owner e \<noteq> own \<and> e_stage e = Dropping \<Longrightarrow> P e"
  shows "total (lock_margin own P) es = total (near own) es"
proof (rule total_cong)
  fix e assume "e \<in> set es"
  then have "entry_ok e" "live e" "e_owner e = own \<and> e_stage e = Acked \<or> e_owner e \<noteq> own \<and> e_stage e = Dropping \<Longrightarrow> P e"
    using assms by (auto simp: entries_ok_def)
  then show "lock_margin own P e = near own e" by (cases "e_stage e") (auto simp: view_defs)
qed

lemma settle_entries_ok: "entries_ok es \<Longrightarrow> entries_ok (settle own P es)"
  using advance_ok by (auto simp: entries_ok_def)

lemma settle_distinct: "distinct (map e_key es) \<Longrightarrow> distinct (map e_key (settle own P es))"
  by (auto intro!: distinct_map_filter simp: comp_def)

lemma sorted_wrt_settle:
  assumes "sorted_wrt R es" "\<And>x y. x \<in> set es \<Longrightarrow> y \<in> set es \<Longrightarrow> R x y \<Longrightarrow> R' (advance own P x) (advance own P y)"
  shows "sorted_wrt R' (settle own P es)"
  using assms by (induction es) (auto simp: sorted_wrt_map)

lemma lock_inv_core:
  assumes inv: "ledger_inv L" and can: "can_lock own P (lg_base L own) (lg_entries L)"
  shows "solvent (lg_base L party + gains party own P (lg_entries L)) (near party) (owed party) (settle own P (lg_entries L))"
    and "solvent (lg_base L party + gains party own P (lg_entries L)) (far party) (owed party) (settle own P (lg_entries L))"
proof -
  note D = ledger_invD [OF inv]
  have own: "party = own \<or> party = (\<not> own)" by auto
  show "solvent (lg_base L party + gains party own P (lg_entries L)) (near party) (owed party) (settle own P (lg_entries L))"
    using own locker_solvent [OF D(1) can D(4)] other_solvent [OF D(1) can D(5)] by auto
  show "solvent (lg_base L party + gains party own P (lg_entries L)) (far party) (owed party) (settle own P (lg_entries L))"
    using own locker_solvent [OF D(1) can D(5)] other_solvent [OF D(1) can D(5)] by auto
qed

lemma holder_lock_inv:
  assumes inv: "ledger_inv L"
  shows "ledger_inv (lock_ledger True (\<lambda>_. True) L)"
proof -
  note D = ledger_invD [OF inv]
  let ?P = "\<lambda>_ :: entry. True" and ?es = "settle True (\<lambda>_. True) (lg_entries L)"
  have "total (lock_margin True ?P) (lg_entries L) = total (near True) (lg_entries L)"
    using D(1) by (rule margin_near) simp
  moreover have "sorted_wrt (\<lambda>x y. \<not> (blocked True ?P x \<and> locking True ?P y)) (lg_entries L)"
    using D(3) unfolding well_ordered_def by (rule sorted_wrt_mono_rel [rotated]) (auto simp: blocked_def locking_def)
  ultimately have can: "can_lock True ?P (lg_base L True) (lg_entries L)"
    using solvent_whole [OF D(4) [of True]] by (simp add: can_lock_def)
  have "well_ordered ?es"
    using D(3) unfolding well_ordered_def
    by (rule sorted_wrt_settle) (auto simp: advance_def split: stage.splits)
  moreover have "flight_ok (lg_base L False + gains False True ?P (lg_entries L)) ?es S" if S: "lg_flight L = Some S" for S
  proof -
    note F = D(6) [OF S]
    have "lock_margin False (in_set_keys S) e \<le> cleared_gain False (advance True ?P e)
        + (if live (advance True ?P e) then lock_margin False (in_set_keys S) (advance True ?P e) else 0)"
      if "e \<in> set (lg_entries L)" for e
    proof -
      have "entry_ok e" "live e" "e_key e \<in> S \<Longrightarrow> to_sign e" using that D(1) F by (auto simp: entries_ok_def flight_ok_def)
      then show ?thesis by (cases "e_stage e") (auto simp: view_defs to_sign_def in_set_keys_def)
    qed
    from total_mono [OF this] have "total (lock_margin False (in_set_keys S)) (lg_entries L)
        \<le> gains False True ?P (lg_entries L) + total (lock_margin False (in_set_keys S)) ?es"
      by (simp add: sum_list_addf total_filter comp_def)
    moreover have "sorted_wrt (\<lambda>x y. \<not> (blocked False (in_set_keys S) x \<and> locking False (in_set_keys S) y)) (lg_entries L)"
      using F by (simp add: flight_ok_def can_lock_def)
    then have "sorted_wrt (\<lambda>x y. \<not> (blocked False (in_set_keys S) x \<and> locking False (in_set_keys S) y)) ?es"
      by (rule sorted_wrt_settle)
        (use F in \<open>auto simp: flight_ok_def to_sign_def advance_def blocked_def locking_def in_set_keys_def split: stage.splits\<close>)
    moreover have "(e_owner e' = False \<and> e_stage e' = Resolved \<longrightarrow> in_set_keys S e') \<and> (e_key e' \<in> S \<longrightarrow> to_sign e')
        \<and> (e_owner e' \<and> e_stage e' = Offered \<longrightarrow> e_key e' \<in> S)" if new: "e' \<in> set ?es" for e'
    proof -
      obtain e where e: "e \<in> set (lg_entries L)" "e' = advance True ?P e" using new by auto
      moreover have "(e_owner e = False \<and> e_stage e = Resolved \<longrightarrow> e_key e \<in> S) \<and> (e_key e \<in> S \<longrightarrow> to_sign e)
        \<and> (e_owner e \<and> e_stage e = Offered \<longrightarrow> e_key e \<in> S)"
        using F e(1) by (simp add: flight_ok_def can_lock_def in_set_keys_def)
      ultimately show ?thesis
        by (cases "e_stage e"; cases "e_owner e") (auto simp: to_sign_def advance_def in_set_keys_def)
    qed
    ultimately show ?thesis using F unfolding flight_ok_def can_lock_def by (auto simp del: map_map)
  qed
  ultimately show ?thesis
    using lock_inv_core [OF inv can] settle_entries_ok [OF D(1)] settle_distinct [OF D(2)]
    by (auto simp: ledger_inv_def lock_ledger_def split: option.splits)
qed

lemma sign_inv:
  assumes inv: "ledger_inv L" and none: "lg_flight L = None"
  shows "ledger_inv (L\<lparr>lg_flight := Some (e_key ` {e \<in> set (lg_entries L). to_sign e})\<rparr>)"
proof -
  note D = ledger_invD [OF inv]
  let ?S = "e_key ` {e \<in> set (lg_entries L). to_sign e}"
  have S: "e_key e \<in> ?S \<longleftrightarrow> to_sign e" if "e \<in> set (lg_entries L)" for e
    using that D(2) by (auto simp: distinct_map dest: inj_onD)
  have "total (lock_margin False (in_set_keys ?S)) (lg_entries L) = total (near False) (lg_entries L)"
    using D(1) by (rule margin_near) (auto simp: in_set_keys_def S to_sign_def)
  moreover have "sorted_wrt (\<lambda>x y. \<not> (blocked False (in_set_keys ?S) x \<and> locking False (in_set_keys ?S) y)) (lg_entries L)"
    using D(3) unfolding well_ordered_def
    by (rule sorted_wrt_mono_rel [rotated]) (auto simp: blocked_def locking_def in_set_keys_def S to_sign_def)
  ultimately have "flight_ok (lg_base L False) (lg_entries L) ?S"
    using solvent_whole [OF D(4) [of False]]
    by (auto simp: flight_ok_def can_lock_def in_set_keys_def S) (simp_all add: to_sign_def)
  then show ?thesis using inv none by (auto simp: ledger_inv_def)
qed

lemma counterparty_lock_inv:
  assumes inv: "ledger_inv L" and S: "lg_flight L = Some S"
  shows "ledger_inv ((lock_ledger False (in_set_keys S) L)\<lparr>lg_flight := None\<rparr>)"
proof -
  note D = ledger_invD [OF inv]
  note F = D(6) [OF S]
  have can: "can_lock False (in_set_keys S) (lg_base L False) (lg_entries L)" using F by (simp add: flight_ok_def)
  have "well_ordered (settle False (in_set_keys S) (lg_entries L))"
    using D(3) unfolding well_ordered_def
    by (rule sorted_wrt_settle)
      (use F in \<open>auto simp: flight_ok_def advance_def in_set_keys_def split: stage.splits if_splits\<close>)
  then show ?thesis
    using lock_inv_core [OF inv can] settle_entries_ok [OF D(1)] settle_distinct [OF D(2)]
    by (auto simp: ledger_inv_def lock_ledger_def)
qed

text \<open>The invariant is kept by every step, and the two base balances keep their sum.\<close>

lemma ledger_step_inv: "ledger_step L L' \<Longrightarrow> ledger_inv L \<Longrightarrow> ledger_inv L'"
proof (induction rule: ledger_step.induct)
  case (offer a L own i)
  then show ?case by (intro offer_inv) auto
next
  case (resolve L xs e ys refund)
  then show ?case by (intro resolve_inv) auto
qed (auto intro: holder_lock_inv sign_inv counterparty_lock_inv)

lemma gains_cancel: "gains True own P es = - gains False own P es"
  by (induction es) (auto simp: cleared_gain_def near_def)

lemma ledger_step_total: "ledger_step L L' \<Longrightarrow> lg_base L' True + lg_base L' False = lg_base L True + lg_base L False"
  by (induction rule: ledger_step.induct) (simp_all add: lock_ledger_def gains_cancel del: map_map)

end
