(* ===== verification/Channel_Ledger.thy ===== *)
theory Channel_Ledger
  imports Channel_Reestablish Ledger
begin

text \<open>
  The channel implements the abstract ledger: the phases an HTLC goes through, the abstraction
  function, and the exactness of the saturating balance computations on states whose ledger is
  solvent.
\<close>

section \<open>Phases\<close>

text \<open>The phase on the offerer's own commitment and on the other party's.\<close>

definition own_phase :: "Htlc \<Rightarrow> HtlcPhase" where
  "own_phase h = (if hx_outbound h then phase_holder h else phase_counterparty h)"

definition other_phase :: "Htlc \<Rightarrow> HtlcPhase" where
  "other_phase h = (if hx_outbound h then phase_counterparty h else phase_holder h)"

definition phase_table :: "(HtlcPhase \<times> HtlcPhase \<times> bool) list" where
  "phase_table = [(NotYet, Pending, False), (Pending, Committed, False), (Committed, Committed, False),
     (Removing, Committed, True), (Gone, Removing, True), (Gone, Gone, True)]"

definition phase_ok :: "Htlc \<Rightarrow> bool" where
  "phase_ok h \<longleftrightarrow> (own_phase h, other_phase h, hx_resolution h \<noteq> None) \<in> set phase_table
     \<and> (hx_outbound h \<longrightarrow> hx_source h \<noteq> None)"

definition htlc_ok :: "Htlc \<Rightarrow> bool" where
  "htlc_ok h \<longleftrightarrow> phase_ok h \<and> \<not> gone_both h"

lemmas phase_defs = phase_ok_def phase_table_def own_phase_def other_phase_def

section \<open>The abstraction\<close>

definition stage_of :: "Htlc \<Rightarrow> stage" where
  "stage_of h =
     (case own_phase h of NotYet \<Rightarrow> Offered | Pending \<Rightarrow> Acked | Committed \<Rightarrow> Locked | Removing \<Rightarrow> Resolved
      | Gone \<Rightarrow> if other_phase h = Gone then Cleared else Dropping)"

definition refunds :: "HtlcResolution option \<Rightarrow> bool" where
  "refunds r = (case r of None \<Rightarrow> False | Some (Fulfill _) \<Rightarrow> False | Some _ \<Rightarrow> True)"

abbreviation hkey :: "Htlc \<Rightarrow> bool \<times> HtlcId" where
  "hkey h \<equiv> (hx_outbound h, hx_id h)"

definition akey :: "bool \<times> HtlcId \<Rightarrow> bool \<times> nat" where
  "akey k = (fst k, unat (snd k))"

definition amount :: "Htlc \<Rightarrow> int" where
  "amount h = uint (hx_amount_msat h)"

definition entry_of :: "Htlc \<Rightarrow> entry" where
  "entry_of h = \<lparr>e_key = akey (hkey h), e_amount = amount h, e_stage = stage_of h,
     e_refunded = refunds (hx_resolution h)\<rparr>"

definition pending_keys :: "PendingCounterpartyCommitment \<Rightarrow> (bool \<times> HtlcId) set" where
  "pending_keys p = set (pc_included p) \<union> set (pc_removed p)"

definition ledger_of :: "Channel \<Rightarrow> ledger" where
  "ledger_of c = \<lparr>lg_base = \<lambda>own. uint (if own then ch_to_holder_msat c else ch_to_counterparty_msat c),
     lg_entries = map entry_of (ch_htlcs c),
     lg_flight = map_option (\<lambda>p. akey ` pending_keys p) (ch_pending_counterparty_commitment c)\<rparr>"

lemma akey_inj [simp]: "akey k = akey l \<longleftrightarrow> k = l"
  by (cases k; cases l) (simp add: akey_def word_unat_eq_iff)

lemma akey_image [simp]: "akey k \<in> akey ` S \<longleftrightarrow> k \<in> S"
  by auto

lemma entry_of_simps [simp]:
  "e_key (entry_of h) = akey (hkey h)" "e_amount (entry_of h) = amount h" "e_stage (entry_of h) = stage_of h"
  "e_refunded (entry_of h) = refunds (hx_resolution h)"
  by (simp_all add: entry_of_def)

lemma akey_fst [simp]: "fst (akey k) = fst k"
  by (simp add: akey_def)

lemma amount_nonneg [simp]: "0 \<le> amount h"
  by (simp add: amount_def)

lemma ledger_of_simps [simp]:
  "lg_base (ledger_of c) True = uint (ch_to_holder_msat c)"
  "lg_base (ledger_of c) False = uint (ch_to_counterparty_msat c)"
  "lg_entries (ledger_of c) = map entry_of (ch_htlcs c)"
  "lg_flight (ledger_of c) = map_option (\<lambda>p. akey ` pending_keys p) (ch_pending_counterparty_commitment c)"
  by (simp_all add: ledger_of_def)

lemma entry_of_ok: "htlc_ok h \<Longrightarrow> entry_ok (entry_of h) \<and> live (entry_of h)"
  by (cases "hx_resolution h")
    (auto simp: htlc_ok_def phase_defs entry_ok_def stage_of_def refunds_def gone_both_def split: if_splits)

section \<open>The effect of one HTLC on the balances\<close>

definition eff :: "bool \<Rightarrow> HtlcPhase \<Rightarrow> Htlc \<Rightarrow> int" where
  "eff own p h =
     (let paid = (credited p \<and> (\<exists>x. hx_resolution h = Some (Fulfill x))) in
      if hx_outbound h = own then (if included p \<or> paid then - amount h else 0)
      else if \<not> included p \<and> paid then amount h else 0)"

lemma included_simps [simp]:
  "included NotYet = False" "included Pending = True" "included Committed = True"
  "included Removing = False" "included Gone = False"
  by (simp_all add: included_def)

lemma credited_simps [simp]:
  "credited NotYet = False" "credited Pending = False" "credited Committed = False"
  "credited Removing = True" "credited Gone = True"
  by (simp_all add: credited_def)

lemma uint_sat_exact: "uint a \<le> uint x \<Longrightarrow> uint (saturating_sub x a) = uint x - uint a"
  by (simp add: saturating_sub_def word_less_def uint_sub_lem [THEN iffD1])

lemma uint_add_exact: "uint x + uint a < 2 ^ 64 \<Longrightarrow> uint (x + a) = uint x + uint a" for x a :: u64
  by (simp add: uint_add_lem [THEN iffD1])

text \<open>Where neither balance goes below zero, saturation plays no part.\<close>

lemma apply_balance_exact:
  assumes "0 \<le> uint x + eff True p h" "0 \<le> uint y + eff False p h"
    and "uint x + uint y < 2 ^ 64"
  shows "uint (fst (apply_balance h p (x, y))) = uint x + eff True p h
    \<and> uint (snd (apply_balance h p (x, y))) = uint y + eff False p h"
proof -
  have "amount h \<le> uint x \<Longrightarrow> uint y + uint (hx_amount_msat h) < 2 ^ 64"
    "amount h \<le> uint y \<Longrightarrow> uint x + uint (hx_amount_msat h) < 2 ^ 64"
    using assms(3) by (simp_all add: amount_def)
  then show ?thesis
    using assms(1,2)
    by (auto simp: apply_balance_def eff_def amount_def Let_def uint_sat_exact uint_add_exact
        split: option.splits HtlcResolution.splits if_splits)
qed

lemma eff_sum: "eff True p h + eff False p h = (if included p then - amount h else 0)"
  by (auto simp: eff_def Let_def)

lemma eff_holder:
  assumes "phase_ok h"
  shows "eff True (phase_holder h) h = near True (entry_of h)" "eff False (phase_holder h) h = far False (entry_of h)"
  using assms
  by (cases "hx_resolution h"; auto simp: phase_defs eff_def near_def far_def stage_of_def refunds_def Let_def
      split: if_splits HtlcResolution.splits)+

lemma eff_counterparty:
  assumes "phase_ok h"
  shows "eff True (phase_counterparty h) h = far True (entry_of h)" "eff False (phase_counterparty h) h = near False (entry_of h)"
  using assms
  by (cases "hx_resolution h"; auto simp: phase_defs eff_def near_def far_def stage_of_def refunds_def Let_def
      split: if_splits HtlcResolution.splits)+

text \<open>Folding over HTLCs, each at a phase chosen by \<open>f\<close>, skipping those outside \<open>Q\<close>.\<close>

definition balance_fold :: "(Htlc \<Rightarrow> bool) \<Rightarrow> (Htlc \<Rightarrow> HtlcPhase) \<Rightarrow> Msat \<times> Msat \<Rightarrow> Htlc list \<Rightarrow> Msat \<times> Msat" where
  "balance_fold Q f bal hs = foldl (\<lambda>bal h. if Q h then apply_balance h (f h) bal else bal) bal hs"

lemma balance_fold_exact:
  assumes "\<And>p r. hs = p @ r \<Longrightarrow> 0 \<le> uint x + total (\<lambda>h. if Q h then eff True (f h) h else 0) p"
    and "\<And>p r. hs = p @ r \<Longrightarrow> 0 \<le> uint y + total (\<lambda>h. if Q h then eff False (f h) h else 0) p"
    and "uint x + uint y < 2 ^ 64"
  shows "uint (fst (balance_fold Q f (x, y) hs)) = uint x + total (\<lambda>h. if Q h then eff True (f h) h else 0) hs
    \<and> uint (snd (balance_fold Q f (x, y) hs)) = uint y + total (\<lambda>h. if Q h then eff False (f h) h else 0) hs"
  using assms
proof (induction hs rule: rev_induct)
  case (snoc h hs)
  let ?b = "balance_fold Q f (x, y) hs"
  have IH: "uint (fst ?b) = uint x + total (\<lambda>h. if Q h then eff True (f h) h else 0) hs"
    "uint (snd ?b) = uint y + total (\<lambda>h. if Q h then eff False (f h) h else 0) hs"
    using snoc.IH [OF _ _ snoc.prems(3)] snoc.prems(1,2) [where r = "_ @ [h]"] by simp_all
  have "total (\<lambda>h. if Q h then eff True (f h) h else 0) hs + total (\<lambda>h. if Q h then eff False (f h) h else 0) hs \<le> 0"
    using total_mono [of hs "\<lambda>h. (if Q h then eff True (f h) h else 0) + (if Q h then eff False (f h) h else 0)" "\<lambda>_. 0"]
    by (simp add: sum_list_addf eff_sum)
  then have "uint (fst ?b) + uint (snd ?b) < 2 ^ 64" using IH snoc.prems(3) by linarith
  moreover have "0 \<le> uint (fst ?b) + (if Q h then eff True (f h) h else 0)"
    "0 \<le> uint (snd ?b) + (if Q h then eff False (f h) h else 0)"
    using snoc.prems(1,2) [of "hs @ [h]" "[]"] IH by (simp_all add: add.assoc)
  ultimately show ?case
    using IH apply_balance_exact [of "fst ?b" "f h" h "snd ?b"]
    by (cases "Q h") (simp_all add: balance_fold_def)
qed (simp add: balance_fold_def)

section \<open>Balances are exact on a solvent ledger\<close>

lemma owed_nonneg: "entry_ok e \<Longrightarrow> 0 \<le> owed own e"
  by (simp add: owed_def entry_ok_def)

lemma total_nonneg: "(\<And>x. x \<in> set xs \<Longrightarrow> 0 \<le> f x) \<Longrightarrow> 0 \<le> total f xs"
  for f :: "'a \<Rightarrow> int"
  using total_mono [of xs "\<lambda>_. 0" f] by simp

lemma solvent_prefix:
  assumes "solvent b w (owed own) es" "entries_ok es" "es = p @ r"
  shows "0 \<le> b + total w p"
proof -
  have "0 \<le> total (owed own) r"
    using assms(2,3) by (intro total_nonneg owed_nonneg) (auto simp: entries_ok_def)
  then show ?thesis using solventD [OF assms(1,3)] by linarith
qed

abbreviation funds :: "Channel \<Rightarrow> int" where
  "funds c \<equiv> uint (ch_to_holder_msat c) + uint (ch_to_counterparty_msat c)"

definition side_phase :: "bool \<Rightarrow> Htlc \<Rightarrow> HtlcPhase" where
  "side_phase holder_side h = (if holder_side then phase_holder h else phase_counterparty h)"

lemma balances_for_fold:
  "balances_for c side = balance_fold (\<lambda>_. True) (side_phase side) (ch_to_holder_msat c, ch_to_counterparty_msat c) (ch_htlcs c)"
  by (simp add: balances_for_def balance_fold_def side_phase_def)

lemma htlc_prefix:
  assumes inv: "ledger_inv (ledger_of c)" and hs: "ch_htlcs c = p @ r"
  shows "0 \<le> lg_base (ledger_of c) own + total (near own) (map entry_of p)"
    "0 \<le> lg_base (ledger_of c) own + total (far own) (map entry_of p)"
proof -
  note D = ledger_invD [OF inv]
  have es: "lg_entries (ledger_of c) = map entry_of p @ map entry_of r" using hs by simp
  show "0 \<le> lg_base (ledger_of c) own + total (near own) (map entry_of p)"
    using D(4) D(1) es by (rule solvent_prefix)
  show "0 \<le> lg_base (ledger_of c) own + total (far own) (map entry_of p)"
    using D(5) D(1) es by (rule solvent_prefix)
qed

lemma side_total:
  assumes "list_all phase_ok hs"
  shows "total (\<lambda>h. eff True (side_phase side h) h) hs = total (if side then near True else far True) (map entry_of hs)"
    "total (\<lambda>h. eff False (side_phase side h) h) hs = total (if side then far False else near False) (map entry_of hs)"
  using assms by (induction hs) (simp_all add: side_phase_def eff_holder eff_counterparty)

lemma balances_exact:
  assumes ok: "list_all phase_ok (ch_htlcs c)" and inv: "ledger_inv (ledger_of c)" and bound: "funds c < 2 ^ 64"
  shows "uint (fst (balances_for c side)) = uint (ch_to_holder_msat c)
      + total (if side then near True else far True) (map entry_of (ch_htlcs c))"
    "uint (snd (balances_for c side)) = uint (ch_to_counterparty_msat c)
      + total (if side then far False else near False) (map entry_of (ch_htlcs c))"
proof -
  have pre: "0 \<le> uint (ch_to_holder_msat c) + total (\<lambda>h. eff True (side_phase side h) h) p"
    "0 \<le> uint (ch_to_counterparty_msat c) + total (\<lambda>h. eff False (side_phase side h) h) p"
    if "ch_htlcs c = p @ r" for p r
  proof -
    have "list_all phase_ok p" using ok that by simp
    then show "0 \<le> uint (ch_to_holder_msat c) + total (\<lambda>h. eff True (side_phase side h) h) p"
      "0 \<le> uint (ch_to_counterparty_msat c) + total (\<lambda>h. eff False (side_phase side h) h) p"
      using htlc_prefix [OF inv that, of True] htlc_prefix [OF inv that, of False] by (simp_all add: side_total)
  qed
  show "uint (fst (balances_for c side)) = uint (ch_to_holder_msat c)
      + total (if side then near True else far True) (map entry_of (ch_htlcs c))"
    "uint (snd (balances_for c side)) = uint (ch_to_counterparty_msat c)
      + total (if side then far False else near False) (map entry_of (ch_htlcs c))"
    using balance_fold_exact [of "ch_htlcs c" "ch_to_holder_msat c" "\<lambda>_. True" "side_phase side" "ch_to_counterparty_msat c"]
      pre bound side_total [OF ok, of side] by (simp_all add: balances_for_fold)
qed

text \<open>What a commitment of either side pays out, including its HTLC outputs, is the whole channel.\<close>

definition escrow :: "bool \<Rightarrow> Channel \<Rightarrow> int" where
  "escrow side c = total amount (filter (\<lambda>h. included (side_phase side h)) (ch_htlcs c))"

lemma balances_conserved:
  assumes "list_all phase_ok (ch_htlcs c)" "ledger_inv (ledger_of c)" "funds c < 2 ^ 64"
  shows "uint (fst (balances_for c side)) + uint (snd (balances_for c side)) + escrow side c = funds c"
proof -
  have "total (\<lambda>h. eff True (side_phase side h) h) hs + total (\<lambda>h. eff False (side_phase side h) h) hs
      + total amount (filter (\<lambda>h. included (side_phase side h)) hs) = 0" for hs
  proof -
    have "total (\<lambda>h. eff True (side_phase side h) h) hs + total (\<lambda>h. eff False (side_phase side h) h) hs
        = total (\<lambda>h. if included (side_phase side h) then - amount h else 0) hs"
      by (simp add: total_add eff_sum)
    also have "\<dots> = - total amount (filter (\<lambda>h. included (side_phase side h)) hs)"
      by (induction hs) auto
    finally show ?thesis by simp
  qed
  from this [of "ch_htlcs c"] show ?thesis
    using balances_exact [OF assms, of side] side_total [OF assms(1), of side] unfolding escrow_def by linarith
qed

section \<open>Garbage collection is the clearing of the ledger\<close>

lemma gain_bound: "entry_ok e \<Longrightarrow> live e \<Longrightarrow> - owed party e \<le> cleared_gain party (advance own P e)"
  by (cases "e_stage e") (auto simp: view_defs)

lemma gain_prefix:
  assumes inv: "ledger_inv L" and es: "lg_entries L = p @ r"
  shows "0 \<le> lg_base L party + total (\<lambda>e. cleared_gain party (advance own P e)) p"
proof -
  note D = ledger_invD [OF inv]
  have ok: "entry_ok e \<and> live e" if "e \<in> set (p @ r)" for e using D(1) that es by (simp add: entries_ok_def)
  have "total (\<lambda>e. - owed party e) p \<le> total (\<lambda>e. cleared_gain party (advance own P e)) p"
    using ok by (intro total_mono gain_bound) auto
  moreover have "0 \<le> total (owed party) r" using ok by (intro total_nonneg owed_nonneg) auto
  moreover have "0 \<le> lg_base L party - total (owed party) (p @ r)"
    using solventD [OF D(4) [of party], of "[]" "p @ r"] es by simp
  ultimately show ?thesis by (simp flip: total_minus)
qed

lemma gone_live: "phase_ok h \<Longrightarrow> live (entry_of h) \<longleftrightarrow> \<not> gone_both h"
  by (auto simp: phase_defs stage_of_def gone_both_def split: if_splits)

lemma gone_gain: "phase_ok h \<Longrightarrow> (if gone_both h then eff own Gone h else 0) = cleared_gain own (entry_of h)"
  by (cases "hx_resolution h")
    (auto simp: phase_defs stage_of_def gone_both_def cleared_gain_def near_def eff_def refunds_def
      split: if_splits HtlcResolution.splits)

lemma gone_total:
  "list_all phase_ok hs \<Longrightarrow> total (\<lambda>h. if gone_both h then eff own Gone h else 0) hs = total (cleared_gain own) (map entry_of hs)"
  by (induction hs) (simp_all add: gone_gain)

lemma gc_htlcs_fold:
  "gc_htlcs c = (let bal = balance_fold gone_both (\<lambda>_. Gone) (ch_to_holder_msat c, ch_to_counterparty_msat c) (ch_htlcs c)
     in c\<lparr>ch_htlcs := filter (\<lambda>h. \<not> gone_both h) (ch_htlcs c), ch_to_holder_msat := fst bal, ch_to_counterparty_msat := snd bal\<rparr>)"
  by (simp add: gc_htlcs_def balance_fold_def Let_def case_prod_beta)

lemma gc_ledger:
  assumes inv: "ledger_inv (ledger_of c)" and bound: "funds c < 2 ^ 64"
    and ok: "list_all phase_ok (ch_htlcs c')"
    and es: "map entry_of (ch_htlcs c') = map (advance own P) (map entry_of (ch_htlcs c))"
    and same: "ch_to_holder_msat c' = ch_to_holder_msat c" "ch_to_counterparty_msat c' = ch_to_counterparty_msat c"
  shows "ledger_of (gc_htlcs c') = (lock_ledger own P (ledger_of c))\<lparr>lg_flight := lg_flight (ledger_of c')\<rparr>"
    and "list_all htlc_ok (ch_htlcs (gc_htlcs c'))"
proof -
  let ?bal = "balance_fold gone_both (\<lambda>_. Gone) (ch_to_holder_msat c', ch_to_counterparty_msat c') (ch_htlcs c')"
  have pre: "0 \<le> lg_base (ledger_of c) party + total (\<lambda>h. if gone_both h then eff party Gone h else 0) p"
    if "ch_htlcs c' = p @ r" for p r party
  proof -
    from that es have "map entry_of p @ map entry_of r = map (advance own P) (lg_entries (ledger_of c))" by simp
    then obtain p' r' where *: "lg_entries (ledger_of c) = p' @ r'" "map entry_of p = map (advance own P) p'"
      by (metis append_eq_map_conv)
    have "list_all phase_ok p" using ok that by simp
    then show ?thesis using gain_prefix [OF inv *(1), of party own P] by (simp add: gone_total *(2) comp_def)
  qed
  have "uint (fst ?bal) = lg_base (ledger_of c) True + gains True own P (lg_entries (ledger_of c))"
    "uint (snd ?bal) = lg_base (ledger_of c) False + gains False own P (lg_entries (ledger_of c))"
    using balance_fold_exact [of "ch_htlcs c'" "ch_to_holder_msat c'" gone_both "\<lambda>_. Gone" "ch_to_counterparty_msat c'"]
      pre [of _ _ True] pre [of _ _ False] bound by (simp_all add: same gone_total [OF ok] es del: map_map)
  moreover have "map entry_of (filter (\<lambda>h. \<not> gone_both h) (ch_htlcs c')) = settle own P (lg_entries (ledger_of c))"
  proof -
    have "map entry_of (filter (\<lambda>h. \<not> gone_both h) hs) = filter live (map entry_of hs)" if "list_all phase_ok hs" for hs
      using that by (induction hs) (auto simp: gone_live [simplified])
    from this [OF ok] show ?thesis by (simp add: es del: map_map)
  qed
  ultimately show "ledger_of (gc_htlcs c') = (lock_ledger own P (ledger_of c))\<lparr>lg_flight := lg_flight (ledger_of c')\<rparr>"
    by (simp add: ledger_of_def lock_ledger_def gc_htlcs_fold Let_def fun_eq_iff del: map_map)
  show "list_all htlc_ok (ch_htlcs (gc_htlcs c'))"
    using ok by (auto simp: gc_htlcs_fold Let_def list_all_iff htlc_ok_def)
qed

end
