(* ===== verification/Channel_Inv.thy ===== *)
theory Channel_Inv
  imports Channel_Ledger
begin

text \<open>
  The invariant of a connected channel and its preservation by every operation: HTLC phases,
  fresh identifiers, the snapshot of the commitment in flight, and solvency of the abstract
  ledger, which every operation refines.
\<close>

section \<open>The invariant\<close>

definition next_id :: "Channel \<Rightarrow> bool \<Rightarrow> u64" where
  "next_id c outb = (if outb then ch_next_holder_htlc_id c else ch_next_counterparty_htlc_id c)"

definition cell_amount_ok :: "HoldingCellOp \<Rightarrow> bool" where
  "cell_amount_ok cell_op = (case cell_op of OpAdd a _ _ _ _ \<Rightarrow> unat a < 2 ^ 62 | _ \<Rightarrow> True)"

definition ids_ok :: "Channel \<Rightarrow> bool" where
  "ids_ok c \<longleftrightarrow> (\<forall>h\<in>set (ch_htlcs c). unat (hx_id h) < unat (next_id c (hx_outbound h)))"

definition snap_ok :: "Channel \<Rightarrow> bool" where
  "snap_ok c \<longleftrightarrow>
     (case ch_pending_counterparty_commitment c of None \<Rightarrow> True
      | Some p \<Rightarrow>
          (\<forall>h\<in>set (ch_htlcs c). (hkey h \<in> set (pc_included p) \<longrightarrow> phase_counterparty h = Pending)
             \<and> (hkey h \<in> set (pc_removed p) \<longrightarrow> phase_counterparty h = Removing))
        \<and> (\<forall>k\<in>pending_keys p. unat (snd k) < unat (next_id c (fst k))))"

definition chan_inv :: "Channel \<Rightarrow> bool" where
  "chan_inv c \<longleftrightarrow>
     list_all htlc_ok (ch_htlcs c) \<and> ids_ok c \<and> snap_ok c
   \<and> ch_awaiting_raa c = (ch_pending_counterparty_commitment c \<noteq> None)
   \<and> list_all cell_amount_ok (ch_holding_cell c)
   \<and> ledger_inv (ledger_of c)
   \<and> funds c = 1000 * uint (ch_funding_amount_sat c) \<and> uint (ch_funding_amount_sat c) < 2 ^ 51"

text \<open>
  The numeric range the theorems are about: reserves below the number of satoshis that exist,
  fewer than \<open>2\<^sup>2\<^sup>0\<close> HTLCs at a time, and identifiers and commitment numbers left to hand out.
\<close>

definition room :: "nat \<Rightarrow> Channel \<Rightarrow> bool" where
  "room n c \<longleftrightarrow>
     unat (holder_selected_reserve_sat (ch_params c)) < 2 ^ 51
   \<and> unat (counterparty_selected_reserve_sat (ch_params c)) < 2 ^ 51
   \<and> length (ch_htlcs c) + n \<le> 2 ^ 20
   \<and> unat (ch_next_holder_htlc_id c) + n < 2 ^ 64
   \<and> unat (ch_next_counterparty_htlc_id c) + 1 < 2 ^ 64"

definition in_range :: "Channel \<Rightarrow> bool" where
  "in_range c \<longleftrightarrow> room (Suc (length (ch_holding_cell c))) c
     \<and> unat (ch_holder_commitment_number c) + 1 < 2 ^ 48 \<and> unat (ch_counterparty_commitment_number c) + 1 < 2 ^ 48"

lemma chan_invD:
  assumes "chan_inv c"
  shows "list_all htlc_ok (ch_htlcs c)" "list_all phase_ok (ch_htlcs c)" "ids_ok c" "snap_ok c"
    "ch_awaiting_raa c = (ch_pending_counterparty_commitment c \<noteq> None)" "list_all cell_amount_ok (ch_holding_cell c)"
    "ledger_inv (ledger_of c)" "funds c = 1000 * uint (ch_funding_amount_sat c)"
    "uint (ch_funding_amount_sat c) < 2 ^ 51" "funds c < 2 ^ 64"
  using assms by (auto simp: chan_inv_def list_all_iff htlc_ok_def)

text \<open>The part of the channel the invariant reads; most operations leave it alone.\<close>

definition money where
  "money c = (ch_htlcs c, ch_next_holder_htlc_id c, ch_next_counterparty_htlc_id c, ch_awaiting_raa c,
     ch_pending_counterparty_commitment c, ch_holding_cell c, ch_to_holder_msat c, ch_to_counterparty_msat c,
     ch_funding_amount_sat c)"

lemma money_frame:
  assumes "money c' = money c"
  shows "chan_inv c' = chan_inv c" "ledger_of c' = ledger_of c"
proof -
  have eqs: "ch_htlcs c' = ch_htlcs c" "ch_next_holder_htlc_id c' = ch_next_holder_htlc_id c"
    "ch_next_counterparty_htlc_id c' = ch_next_counterparty_htlc_id c" "ch_awaiting_raa c' = ch_awaiting_raa c"
    "ch_pending_counterparty_commitment c' = ch_pending_counterparty_commitment c"
    "ch_holding_cell c' = ch_holding_cell c" "ch_to_holder_msat c' = ch_to_holder_msat c"
    "ch_to_counterparty_msat c' = ch_to_counterparty_msat c" "ch_funding_amount_sat c' = ch_funding_amount_sat c"
    using assms by (simp_all add: money_def)
  show "chan_inv c' = chan_inv c" "ledger_of c' = ledger_of c"
    unfolding chan_inv_def ids_ok_def snap_ok_def next_id_def ledger_of_def eqs by (rule refl)+
qed

definition refines :: "Channel \<Rightarrow> Channel \<Rightarrow> bool" where
  "refines c c' \<longleftrightarrow> chan_inv c' \<and> ledger_step\<^sup>*\<^sup>* (ledger_of c) (ledger_of c')"

lemma refines_frame: "chan_inv c \<Longrightarrow> money c' = money c \<Longrightarrow> refines c c'"
  using money_frame [of c' c] by (simp add: refines_def)

lemma refines_refl: "chan_inv c \<Longrightarrow> refines c c"
  by (simp add: refines_def)

lemma refines_trans: "refines c d \<Longrightarrow> refines d e \<Longrightarrow> refines c e"
  unfolding refines_def by (meson rtranclp_trans)

lemma try_in_snd:
  "Q c \<Longrightarrow> (\<And>a. r = Inr a \<Longrightarrow> Q (snd (f a))) \<Longrightarrow> Q (snd (try_in r c f))"
  by (cases r) (simp_all add: try_in_def)

section \<open>Affordability\<close>

lemma unat_mult_le: "unat (x * y) \<le> unat x * unat y"
  by (simp add: unat_word_ariths)

lemma unat_add_le: "unat (x + y) \<le> unat x + unat y"
  by (simp add: unat_word_ariths)

lemma unat_of_nat_le: "unat (of_nat n :: 'a::len word) \<le> n"
  by (simp add: unat_of_nat)

lemma fee_small:
  fixes k :: u64
  assumes "n < 2 ^ 20" "unat k \<le> 2"
  shows "unat (msat_from_sat (fee_for_weight fr (COMMITMENT_TX_BASE_WEIGHT + COMMITMENT_TX_WEIGHT_PER_HTLC * (of_nat n + k)))) \<le> 2 ^ 60"
proof -
  let ?m = "of_nat n + k :: u64" and ?w = "COMMITMENT_TX_BASE_WEIGHT + COMMITMENT_TX_WEIGHT_PER_HTLC * (of_nat n + k)"
  have "unat ?m \<le> n + 2" using unat_add_le [of "of_nat n" k] unat_of_nat_le [of n, where 'a = 64] assms(2) by linarith
  then have "172 * unat ?m \<le> 172 * (2 ^ 20 + 2)" using assms(1) by simp
  then have "unat (172 * ?m) \<le> 172 * (2 ^ 20 + 2)" using unat_mult_le [of "172 :: u64" ?m] by simp
  then have w: "unat ?w \<le> 2 ^ 28"
    using unat_add_le [of "724 :: u64" "172 * ?m"]
    by (simp add: COMMITMENT_TX_BASE_WEIGHT_def COMMITMENT_TX_WEIGHT_PER_HTLC_def)
  have fr: "unat (ucast fr :: u64) \<le> 2 ^ 32" using unat_bounds by (simp add: less_imp_le unat_up)
  have "unat (ucast fr * ?w) \<le> unat (ucast fr :: u64) * unat ?w" by (rule unat_mult_le)
  also have "\<dots> \<le> 2 ^ 32 * 2 ^ 28" using fr w by (rule mult_le_mono)
  finally have "unat (ucast fr * ?w) \<le> 2 ^ 60" by simp
  moreover have "unat (msat_from_sat (fee_for_weight fr ?w)) \<le> unat (fee_for_weight fr ?w) * 1000"
    unfolding msat_from_sat_def using unat_mult_le [of _ "1000 :: u64"] by simp
  moreover have "unat (fee_for_weight fr ?w) * 1000 \<le> unat (ucast fr * ?w)"
    by (simp add: fee_for_weight_def unat_div)
  ultimately show ?thesis by linarith
qed

lemma reserve_small: "unat r < 2 ^ 51 \<Longrightarrow> unat (msat_from_sat r) \<le> 2 ^ 61"
  using unat_mult_le [of r 1000] by (simp add: msat_from_sat_def)

lemma unat_sum3:
  fixes a b c :: u64
  assumes "unat a < 2 ^ 62" "unat b \<le> 2 ^ 61" "unat c \<le> 2 ^ 60"
  shows "unat (a + b) = unat a + unat b" "unat (a + b + c) = unat a + unat b + unat c"
  using assms by (simp_all add: unat_word_ariths)

lemma validate_affordable:
  assumes ok: "validate_outbound_add c a cltv = Inr ()" and rng: "room (Suc n) c" and a: "unat a < 2 ^ 62"
  shows "unat a \<le> unat (fst (balances_for c False))"
proof -
  let ?n = "length (filter (\<lambda>h. included (phase_counterparty h)) (ch_htlcs c))"
  let ?res = "msat_from_sat (counterparty_selected_reserve_sat (ch_params c))"
  let ?fee = "msat_from_sat (fee_for_weight (ch_feerate_counterparty c)
    (COMMITMENT_TX_BASE_WEIGHT + COMMITMENT_TX_WEIGHT_PER_HTLC * (of_nat ?n + 2)))"
  have "?n < 2 ^ 20" using rng by (simp add: room_def le_less_trans [OF length_filter_le])
  then have fee: "unat ?fee \<le> 2 ^ 60" by (rule fee_small) simp
  have res: "unat ?res \<le> 2 ^ 61" using rng by (intro reserve_small) (simp add: room_def)
  have "a + ?res \<le> fst (balances_for c False) \<or> a + ?res + ?fee \<le> fst (balances_for c False)"
    using ok by (auto simp: validate_outbound_add_def Let_def case_prod_beta not_less split: if_splits)
  then show ?thesis using unat_sum3 [OF a res fee] by (auto simp: word_le_nat_alt)
qed

lemma on_add_affordable:
  assumes ok: "on_update_add_htlc msg c = (Inr (), c')" and rng: "room (Suc n) c" and a: "unat (uah_amount_msat msg) < 2 ^ 62"
  shows "unat (uah_amount_msat msg) \<le> unat (snd (balances_for c True))"
proof -
  let ?n = "length (filter (\<lambda>h. included (phase_holder h)) (ch_htlcs c))"
  let ?res = "msat_from_sat (holder_selected_reserve_sat (ch_params c))"
  let ?fee = "msat_from_sat (fee_for_weight (ch_feerate_holder c)
    (COMMITMENT_TX_BASE_WEIGHT + COMMITMENT_TX_WEIGHT_PER_HTLC * (of_nat ?n + 1)))"
  have "?n < 2 ^ 20" using rng by (simp add: room_def le_less_trans [OF length_filter_le])
  then have fee: "unat ?fee \<le> 2 ^ 60" by (rule fee_small) simp
  have res: "unat ?res \<le> 2 ^ 61" using rng by (intro reserve_small) (simp add: room_def)
  have "uah_amount_msat msg + ?res \<le> snd (balances_for c True) \<or> uah_amount_msat msg + ?res + ?fee \<le> snd (balances_for c True)"
    using ok by (auto simp: on_update_add_htlc_def Let_def case_prod_beta not_less close_err_def split: if_splits)
  then show ?thesis using unat_sum3 [OF a res fee] by (auto simp: word_le_nat_alt)
qed

section \<open>Offering and resolving\<close>

lemma ids_ok_mono:
  assumes "ids_ok c" "hkey ` set (ch_htlcs c') \<subseteq> hkey ` set (ch_htlcs c)" "next_id c' = next_id c"
  shows "ids_ok c'"
  unfolding ids_ok_def
proof
  fix h assume "h \<in> set (ch_htlcs c')"
  then obtain g where "g \<in> set (ch_htlcs c)" "hx_outbound h = hx_outbound g" "hx_id h = hx_id g" using assms(2) by force
  then show "unat (hx_id h) < unat (next_id c' (hx_outbound h))" using assms(1,3) by (simp add: ids_ok_def)
qed

lemma refines_step:
  "ledger_step (ledger_of c) (ledger_of c') \<Longrightarrow> chan_inv c' \<Longrightarrow> refines c c'"
  by (simp add: refines_def)

lemma ledger_of_eq:
  assumes "ch_to_holder_msat c' = ch_to_holder_msat c" "ch_to_counterparty_msat c' = ch_to_counterparty_msat c"
  shows "ledger_of c' = (ledger_of c)\<lparr>lg_entries := map entry_of (ch_htlcs c'),
    lg_flight := map_option (\<lambda>p. akey ` pending_keys p) (ch_pending_counterparty_commitment c')\<rparr>"
  unfolding ledger_of_def assms by simp

lemma ledger_of_entries:
  assumes "ch_to_holder_msat c' = ch_to_holder_msat c" "ch_to_counterparty_msat c' = ch_to_counterparty_msat c"
    "ch_pending_counterparty_commitment c' = ch_pending_counterparty_commitment c"
  shows "ledger_of c' = (ledger_of c)\<lparr>lg_entries := map entry_of (ch_htlcs c')\<rparr>"
  unfolding ledger_of_def assms by simp

lemma offer_refines:
  assumes inv: "chan_inv c"
    and h: "own_phase h = NotYet" "other_phase h = Pending" "hx_resolution h = None" "hx_outbound h \<longrightarrow> hx_source h \<noteq> None"
      "hx_id h = next_id c (hx_outbound h)"
    and pay: "amount h \<le> lg_base (ledger_of c) (hx_outbound h) + total (far (hx_outbound h)) (map entry_of (ch_htlcs c))"
    and guard: "hx_outbound h \<longrightarrow> ch_pending_counterparty_commitment c = None"
    and ids: "unat (next_id c (hx_outbound h)) + 1 < 2 ^ 64"
    and new: "ch_htlcs c' = ch_htlcs c @ [h]" "next_id c' (hx_outbound h) = next_id c (hx_outbound h) + 1"
      "next_id c' (\<not> hx_outbound h) = next_id c (\<not> hx_outbound h)"
    and same: "ch_awaiting_raa c' = ch_awaiting_raa c" "ch_pending_counterparty_commitment c' = ch_pending_counterparty_commitment c"
      "ch_holding_cell c' = ch_holding_cell c" "ch_to_holder_msat c' = ch_to_holder_msat c"
      "ch_to_counterparty_msat c' = ch_to_counterparty_msat c" "ch_funding_amount_sat c' = ch_funding_amount_sat c"
  shows "refines c c'"
proof (rule refines_step)
  note I = chan_invD [OF inv]
  have unat_next: "unat (next_id c (hx_outbound h) + 1) = unat (next_id c (hx_outbound h)) + 1"
    using ids by (simp add: unat_word_ariths)
  have grow: "unat (next_id c outb) \<le> unat (next_id c' outb)" for outb
    using new(2,3) unat_next by (cases "outb = hx_outbound h") auto
  have key: "e_key (entry_of h) = (hx_outbound h, unat (next_id c (hx_outbound h)))" by (simp add: akey_def h(5))
  have entry: "entry_of h = \<lparr>e_key = (hx_outbound h, unat (next_id c (hx_outbound h))), e_amount = amount h,
      e_stage = Offered, e_refunded = False\<rparr>"
    using h by (simp add: entry_of_def akey_def stage_of_def refunds_def)
  have fresh: "hkey x \<noteq> hkey h" if "x \<in> set (ch_htlcs c)" for x
  proof
    assume "hkey x = hkey h"
    then have "hx_outbound x = hx_outbound h" "hx_id x = next_id c (hx_outbound h)" using h(5) by auto
    then show False using I(3) that by (force simp: ids_ok_def)
  qed
  have fresh_pending: "hkey h \<notin> pending_keys p" if "ch_pending_counterparty_commitment c = Some p" for p
    using I(4) that h(5) by (force simp: snap_ok_def)
  have "ledger_step (ledger_of c) ((ledger_of c)\<lparr>lg_entries := lg_entries (ledger_of c) @ [entry_of h]\<rparr>)"
    unfolding entry
  proof (rule ledger_step.offer)
    show "(hx_outbound h, unat (next_id c (hx_outbound h))) \<notin> e_key ` set (lg_entries (ledger_of c))"
    proof
      assume "(hx_outbound h, unat (next_id c (hx_outbound h))) \<in> e_key ` set (lg_entries (ledger_of c))"
      then obtain x where "x \<in> set (ch_htlcs c)" "hkey x = hkey h" by (auto simp flip: key)
      then show False using fresh by blast
    qed
    show "\<forall>S. lg_flight (ledger_of c) = Some S \<longrightarrow> (hx_outbound h, unat (next_id c (hx_outbound h))) \<notin> S"
      using fresh_pending by (auto simp flip: key)
  qed (use pay guard in \<open>simp_all\<close>)
  then show step: "ledger_step (ledger_of c) (ledger_of c')"
    using ledger_of_entries [OF same(4,5,2)] by (simp add: new(1))
  have "htlc_ok h" using h by (auto simp: htlc_ok_def phase_ok_def phase_table_def gone_both_def own_phase_def other_phase_def split: if_splits)
  moreover have "ids_ok c'"
    using I(3) new h(5) unat_next grow by (fastforce simp: ids_ok_def intro: less_le_trans)
  moreover have "snap_ok c'"
    using I(4) fresh_pending grow
    by (auto simp: snap_ok_def new(1) same(2) pending_keys_def split: option.splits intro: less_le_trans)
  ultimately show "chan_inv c'"
    using I ledger_step_inv [OF step I(7)] by (simp add: chan_inv_def new(1) same)
qed

lemma htlc_index_Some:
  "htlc_index hs outb i = Some k \<Longrightarrow> k < length hs \<and> hx_outbound (hs ! k) = outb \<and> hx_id (hs ! k) = i"
  by (auto simp: htlc_index_def find_Some_iff)

lemma resolve_refines:
  assumes inv: "chan_inv c" and k: "k < length (ch_htlcs c)" and h: "h = ch_htlcs c ! k"
    and old: "own_phase h = Committed" "other_phase h = Committed" "hx_resolution h = None"
    and new: "own_phase h' = Removing" "other_phase h' = Committed" "hx_resolution h' = Some r" "hkey h' = hkey h"
      "hx_amount_msat h' = hx_amount_msat h" "hx_source h' = hx_source h"
    and guard: "\<not> hx_outbound h \<longrightarrow> ch_pending_counterparty_commitment c = None"
    and upd: "money c' = money (c\<lparr>ch_htlcs := (ch_htlcs c)[k := h']\<rparr>)"
  shows "refines c c'"
proof -
  note I = chan_invD [OF inv]
  define d where "d = c\<lparr>ch_htlcs := (ch_htlcs c)[k := h']\<rparr>"
  let ?xs = "take k (ch_htlcs c)" and ?ys = "drop (Suc k) (ch_htlcs c)"
  have split: "ch_htlcs c = ?xs @ h # ?ys" using k h by (simp add: id_take_nth_drop)
  have upd_split: "ch_htlcs d = ?xs @ h' # ?ys" using k by (simp add: d_def upd_conv_take_nth_drop)
  have entry: "entry_of h' = (entry_of h)\<lparr>e_stage := Resolved, e_refunded := refunds (Some r)\<rparr>"
    using new by (simp add: entry_of_def stage_of_def amount_def)
  have "ledger_step (ledger_of c) ((ledger_of c)\<lparr>lg_entries := map entry_of ?xs @ (entry_of h)\<lparr>e_stage := Resolved,
      e_refunded := refunds (Some r)\<rparr> # map entry_of ?ys\<rparr>)"
  proof (rule ledger_step.resolve)
    show "lg_entries (ledger_of c) = map entry_of ?xs @ entry_of h # map entry_of ?ys"
      using arg_cong [OF split, of "map entry_of"] by simp
    show "e_stage (entry_of h) = Locked" using old by (simp add: stage_of_def)
    show "\<not> e_owner (entry_of h) \<longrightarrow> lg_flight (ledger_of c) = None" using guard by simp
  qed
  then have step: "ledger_step (ledger_of c) (ledger_of d)"
    by (subst ledger_of_entries [of d c]) (simp_all add: upd_split entry, simp_all add: d_def)
  have hok: "htlc_ok h" using I(1) k h by (simp add: list_all_length)
  have keys: "map hkey (ch_htlcs d) = map hkey (ch_htlcs c)"
    by (subst split, subst upd_split) (simp add: new(4))
  have "htlc_ok h'" using hok old new
    by (auto simp: htlc_ok_def phase_ok_def phase_table_def gone_both_def own_phase_def other_phase_def split: if_splits)
  then have "list_all htlc_ok (ch_htlcs d)" using I(1) by (auto simp: d_def list_all_iff dest: set_update_subset_insert [THEN subsetD])
  moreover have "ids_ok d"
    using I(3)
  proof (rule ids_ok_mono)
    show "hkey ` set (ch_htlcs d) \<subseteq> hkey ` set (ch_htlcs c)" using arg_cong [OF keys, of set] by simp
  qed (simp add: fun_eq_iff next_id_def d_def)
  moreover have "snap_ok d"
  proof (cases "ch_pending_counterparty_commitment c")
    case (Some p)
    then have outb: "hx_outbound h" using guard by auto
    have "phase_counterparty h' = phase_counterparty h" using outb new old by (simp add: own_phase_def other_phase_def)
    moreover have "next_id d = next_id c" by (simp add: fun_eq_iff next_id_def d_def)
    ultimately show ?thesis
      using I(4) Some new(4) unfolding snap_ok_def upd_split
      by (subst (asm) split) (auto simp: d_def)
  qed (simp add: snap_ok_def d_def)
  ultimately have "chan_inv d"
    using I ledger_step_inv [OF step I(7)] by (simp add: chan_inv_def d_def)
  then have "refines c d" by (rule refines_step [OF step])
  moreover have "refines d c'" using \<open>chan_inv d\<close> upd by (intro refines_frame) (simp_all add: d_def)
  ultimately show ?thesis by (rule refines_trans)
qed

section \<open>Updates\<close>

lemma enqueue_refines:
  assumes inv: "chan_inv c" and ok: "cell_amount_ok cell_op"
  shows "refines c (c\<lparr>ch_holding_cell := ch_holding_cell c @ [cell_op]\<rparr>)"
proof -
  define d where "d = c\<lparr>ch_holding_cell := ch_holding_cell c @ [cell_op]\<rparr>"
  have eqs: "ch_htlcs d = ch_htlcs c" "ch_pending_counterparty_commitment d = ch_pending_counterparty_commitment c"
    "ch_next_holder_htlc_id d = ch_next_holder_htlc_id c" "ch_next_counterparty_htlc_id d = ch_next_counterparty_htlc_id c"
    by (simp_all add: d_def)
  have "ids_ok d = ids_ok c" "snap_ok d = snap_ok c"
    unfolding ids_ok_def snap_ok_def next_id_def eqs by (rule refl)+
  moreover have "ledger_of d = ledger_of c" by (subst ledger_of_entries [of _ c]) (simp_all add: d_def)
  ultimately have "refines c d"
    using chan_invD [OF inv] ok by (simp add: refines_def chan_inv_def) (simp add: d_def)
  then show ?thesis by (simp add: d_def)
qed

lemma send_add_refines:
  assumes inv: "chan_inv c" and rng: "room (Suc n) c" and a: "unat a < 2 ^ 62"
  shows "refines c (snd (send_add_htlc a ph cltv onion src c))"
    and "\<not> ch_awaiting_raa c \<Longrightarrow> room n (snd (send_add_htlc a ph cltv onion src c))"
proof -
  note I = chan_invD [OF inv]
  let ?h = "\<lparr>hx_outbound = True, hx_id = ch_next_holder_htlc_id c, hx_amount_msat = a, hx_payment_hash = ph,
    hx_cltv_expiry = cltv, hx_onion = onion, hx_source = Some src, hx_resolution = None,
    phase_holder = NotYet, phase_counterparty = Pending, processed = False\<rparr>"
  let ?c = "c\<lparr>ch_next_holder_htlc_id := ch_next_holder_htlc_id c + 1, ch_htlcs := ch_htlcs c @ [?h],
    ch_counterparty_dirty := True\<rparr>"
  let ?cell = "c\<lparr>ch_holding_cell := ch_holding_cell c @ [OpAdd a ph cltv onion src]\<rparr>"
  have res: "snd (send_add_htlc a ph cltv onion src c) = c
      \<or> ch_awaiting_raa c \<and> snd (send_add_htlc a ph cltv onion src c) = ?cell
      \<or> \<not> ch_awaiting_raa c \<and> validate_outbound_add c a cltv = Inr () \<and> snd (send_add_htlc a ph cltv onion src c) = ?c"
    by (auto simp: send_add_htlc_def try_in_def Let_def split: sum.splits)
  have "refines c ?c" if "\<not> ch_awaiting_raa c" "validate_outbound_add c a cltv = Inr ()"
  proof (rule offer_refines [OF inv])
    have "unat a \<le> unat (fst (balances_for c False))" using validate_affordable [OF that(2) rng a] .
    then have "uint a \<le> uint (fst (balances_for c False))" by (simp add: word_le_nat_alt flip: word_le_def)
    then show "amount ?h \<le> lg_base (ledger_of c) (hx_outbound ?h) + total (far (hx_outbound ?h)) (map entry_of (ch_htlcs c))"
      using balances_exact(1) [OF I(2,7,10), of False] by (simp add: amount_def)
    show "unat (next_id c (hx_outbound ?h)) + 1 < 2 ^ 64" using rng by (simp add: next_id_def room_def)
  qed (use that I(5) in \<open>simp_all add: own_phase_def other_phase_def next_id_def\<close>)
  moreover have "refines c ?cell" by (rule enqueue_refines [OF inv]) (use a in \<open>simp add: cell_amount_ok_def\<close>)
  ultimately show "refines c (snd (send_add_htlc a ph cltv onion src c))" using res refines_refl [OF inv] by auto
  have "room n ?c" "room n c"
    using rng by (simp_all add: room_def unat_word_ariths)
  then show "room n (snd (send_add_htlc a ph cltv onion src c))" if "\<not> ch_awaiting_raa c" using res that by auto
qed

lemma on_update_add_refines:
  assumes inv: "chan_inv c" and rng: "room (Suc n) c" and a: "unat (uah_amount_msat msg) < 2 ^ 62"
  shows "refines c (snd (on_update_add_htlc msg c))"
proof -
  note I = chan_invD [OF inv]
  let ?h = "\<lparr>hx_outbound = False, hx_id = uah_id msg, hx_amount_msat = uah_amount_msat msg,
    hx_payment_hash = uah_payment_hash msg, hx_cltv_expiry = uah_cltv_expiry msg,
    hx_onion = uah_onion_routing_packet msg, hx_source = None, hx_resolution = None,
    phase_holder = Pending, phase_counterparty = NotYet, processed = False\<rparr>"
  let ?c = "c\<lparr>ch_next_counterparty_htlc_id := ch_next_counterparty_htlc_id c + 1, ch_htlcs := ch_htlcs c @ [?h]\<rparr>"
  have res: "snd (on_update_add_htlc msg c) = c
      \<or> on_update_add_htlc msg c = (Inr (), ?c) \<and> uah_id msg = ch_next_counterparty_htlc_id c"
    by (auto simp: on_update_add_htlc_def Let_def case_prod_beta)
  have "refines c ?c" if "on_update_add_htlc msg c = (Inr (), ?c)" "uah_id msg = ch_next_counterparty_htlc_id c"
  proof (rule offer_refines [OF inv])
    have "unat (uah_amount_msat msg) \<le> unat (snd (balances_for c True))" using on_add_affordable [OF that(1) rng a] .
    then have "uint (uah_amount_msat msg) \<le> uint (snd (balances_for c True))" by (simp add: word_le_nat_alt flip: word_le_def)
    then show "amount ?h \<le> lg_base (ledger_of c) (hx_outbound ?h) + total (far (hx_outbound ?h)) (map entry_of (ch_htlcs c))"
      using balances_exact(2) [OF I(2,7,10), of True] by (simp add: amount_def)
    show "unat (next_id c (hx_outbound ?h)) + 1 < 2 ^ 64" using rng by (simp add: next_id_def room_def)
  qed (use that in \<open>simp_all add: own_phase_def other_phase_def next_id_def\<close>)
  then show ?thesis using res refines_refl [OF inv] by auto
qed

lemma resolve_inbound_refines:
  assumes inv: "chan_inv c" and k: "inbound_committed_mut c i = Inr k" and idle: "\<not> ch_awaiting_raa c"
  shows "refines c (resolve_inbound k r c)"
proof -
  note I = chan_invD [OF inv]
  let ?h = "ch_htlcs c ! k"
  have h: "k < length (ch_htlcs c)" "\<not> hx_outbound ?h" "hx_resolution ?h = None" "phase_holder ?h = Committed"
    "phase_counterparty ?h = Committed"
    using k htlc_index_Some
    by (fastforce simp: inbound_committed_mut_def ok_or_def Let_def rbind_def split: option.splits if_splits sum.splits)+
  show ?thesis
    by (rule resolve_refines [OF inv h(1) refl, where h' = "?h\<lparr>hx_resolution := Some r, phase_counterparty := Removing\<rparr>"])
      (use h idle I(5) in \<open>simp_all add: own_phase_def other_phase_def resolve_inbound_def money_def\<close>)
qed

lemma send_removal_refines:
  assumes inv: "chan_inv c"
  shows "refines c (snd (send_fulfill_htlc i p c))" "refines c (snd (send_fail_htlc i re c))"
    "refines c (snd (send_fail_malformed_htlc i sha code c))"
  using refines_refl [OF inv] enqueue_refines [OF inv] resolve_inbound_refines [OF inv]
  by (auto simp: send_fulfill_htlc_def send_fail_htlc_def send_fail_malformed_htlc_def cell_amount_ok_def try_in_def
      split: sum.splits)

lemma resolve_outbound_refines:
  assumes inv: "chan_inv c" and k: "outbound_committed_mut c i = Inr k"
  shows "refines c (snd (resolve_outbound k r c))"
proof -
  let ?h = "ch_htlcs c ! k"
  have h: "k < length (ch_htlcs c)" "hx_outbound ?h" "hx_resolution ?h = None" "phase_holder ?h = Committed"
    "phase_counterparty ?h = Committed"
    using k htlc_index_Some
    by (fastforce simp: outbound_committed_mut_def ok_or_def Let_def rbind_def split: option.splits if_splits sum.splits)+
  have "refines c (c\<lparr>ch_htlcs := (ch_htlcs c)[k := ?h\<lparr>hx_resolution := Some r, phase_holder := Removing\<rparr>]\<rparr>)"
    by (rule resolve_refines [OF inv h(1) refl, where h' = "?h\<lparr>hx_resolution := Some r, phase_holder := Removing\<rparr>"])
      (use h in \<open>simp_all add: own_phase_def other_phase_def money_def\<close>)
  then show ?thesis by (simp add: resolve_outbound_def Let_def try_in_def split: sum.splits)
qed

lemma on_removal_refines:
  assumes inv: "chan_inv c"
  shows "refines c (snd (on_update_fulfill_htlc fm c))" "refines c (snd (on_update_fail_htlc xm c))"
    "refines c (snd (on_update_fail_malformed_htlc mm c))"
  using refines_refl [OF inv] resolve_outbound_refines [OF inv]
  by (auto simp: on_update_fulfill_htlc_def on_update_fail_htlc_def on_update_fail_malformed_htlc_def try_in_def
      split: sum.splits)

section \<open>Locking our commitment in\<close>

text \<open>Both lock-ins end with a garbage collection; what they change before it is an advance of the ledger.\<close>

lemma gc_frame [simp]:
  "ch_next_holder_htlc_id (gc_htlcs c) = ch_next_holder_htlc_id c"
  "ch_next_counterparty_htlc_id (gc_htlcs c) = ch_next_counterparty_htlc_id c"
  "ch_awaiting_raa (gc_htlcs c) = ch_awaiting_raa c"
  "ch_pending_counterparty_commitment (gc_htlcs c) = ch_pending_counterparty_commitment c"
  "ch_holding_cell (gc_htlcs c) = ch_holding_cell c" "ch_funding_amount_sat (gc_htlcs c) = ch_funding_amount_sat c"
  "ch_params (gc_htlcs c) = ch_params c"
  "ch_htlcs (gc_htlcs c) = filter (\<lambda>h. \<not> gone_both h) (ch_htlcs c)"
  by (simp_all add: gc_htlcs_fold Let_def)

lemma gc_refines:
  assumes inv: "chan_inv c" and ok: "list_all phase_ok (ch_htlcs c')"
    and keys: "hkey ` set (ch_htlcs c') \<subseteq> hkey ` set (ch_htlcs c)" and next_same: "next_id c' = next_id c"
    and idle: "ch_awaiting_raa c' = (ch_pending_counterparty_commitment c' \<noteq> None)" and snap: "snap_ok c'"
    and same: "ch_holding_cell c' = ch_holding_cell c" "ch_funding_amount_sat c' = ch_funding_amount_sat c"
    and step: "ledger_step (ledger_of c) (ledger_of (gc_htlcs c'))"
  shows "refines c (gc_htlcs c')"
proof (rule refines_step [OF step])
  note I = chan_invD [OF inv]
  have next_gc: "next_id (gc_htlcs c') = next_id c'" by (simp add: fun_eq_iff next_id_def)
  have "list_all htlc_ok (ch_htlcs (gc_htlcs c'))" using ok by (auto simp: list_all_iff htlc_ok_def)
  moreover have "ids_ok (gc_htlcs c')"
    by (rule ids_ok_mono [OF I(3)]) (use keys next_gc next_same in auto)
  moreover have "snap_ok (gc_htlcs c')" using snap by (auto simp: snap_ok_def next_gc split: option.splits)
  moreover have "funds (gc_htlcs c') = funds c" using ledger_step_total [OF step] by simp
  ultimately show "chan_inv (gc_htlcs c')"
    using I ledger_step_inv [OF step I(7)] idle same by (simp add: chan_inv_def)
qed

lemma lock_advance:
  assumes "htlc_ok h"
  defines "h' \<equiv> acknowledge (lock_holder h)"
  shows "phase_ok h'" "entry_of h' = advance True (\<lambda>_. True) (entry_of h)" "hkey h' = hkey h"
    "phase_counterparty h = Pending \<Longrightarrow> phase_counterparty h' = Pending"
    "phase_counterparty h = Removing \<Longrightarrow> phase_counterparty h' = Removing"
proof -
  have "phase_ok h' \<and> entry_of h' = advance True (\<lambda>_. True) (entry_of h) \<and> hkey h' = hkey h
    \<and> (phase_counterparty h = Pending \<longrightarrow> phase_counterparty h' = Pending)
    \<and> (phase_counterparty h = Removing \<longrightarrow> phase_counterparty h' = Removing)"
    using assms(1) unfolding h'_def
    by (cases "phase_holder h"; cases "hx_outbound h")
      (auto simp: htlc_ok_def phase_defs gone_both_def lock_holder_def acknowledge_def acks_add_def acks_removal_def
        entry_of_def stage_of_def amount_def advance_def akey_def split: if_splits)
  then show "phase_ok h'" "entry_of h' = advance True (\<lambda>_. True) (entry_of h)" "hkey h' = hkey h"
    "phase_counterparty h = Pending \<Longrightarrow> phase_counterparty h' = Pending"
    "phase_counterparty h = Removing \<Longrightarrow> phase_counterparty h' = Removing" by blast+
qed

lemma lock_in_gc:
  obtains c' where "lock_in c = gc_htlcs c'" "ch_htlcs c' = map (acknowledge \<circ> lock_holder) (ch_htlcs c)"
    "ch_to_holder_msat c' = ch_to_holder_msat c" "ch_to_counterparty_msat c' = ch_to_counterparty_msat c"
    "ch_awaiting_raa c' = ch_awaiting_raa c" "ch_holding_cell c' = ch_holding_cell c"
    "ch_pending_counterparty_commitment c' = ch_pending_counterparty_commitment c"
    "ch_next_holder_htlc_id c' = ch_next_holder_htlc_id c"
    "ch_next_counterparty_htlc_id c' = ch_next_counterparty_htlc_id c"
    "ch_funding_amount_sat c' = ch_funding_amount_sat c" "ch_params c' = ch_params c"
proof -
  let ?dirty = "list_ex (\<lambda>h. acks_add h \<or> acks_removal h) (map lock_holder (ch_htlcs c))"
  let ?d = "c\<lparr>ch_htlcs := map acknowledge (map lock_holder (ch_htlcs c))\<rparr>"
  let ?fee = "case ch_pending_fee_ack c of None \<Rightarrow> (?dirty, ?d)
    | Some fee \<Rightarrow> (True, ?d\<lparr>ch_pending_fee_ack := None, ch_feerate_counterparty := fee\<rparr>)"
  have "lock_in c = gc_htlcs (if fst ?fee then (snd ?fee)\<lparr>ch_counterparty_dirty := True\<rparr> else snd ?fee)"
    by (cases "ch_pending_fee_ack c") (simp_all add: lock_in_def Let_def)
  then show thesis by (rule that) (auto split: option.splits)
qed

lemma lock_in_refines:
  assumes inv: "chan_inv c"
  shows "refines c (lock_in c)"
proof -
  note I = chan_invD [OF inv]
  from lock_in_gc [of c] obtain c' where c': "lock_in c = gc_htlcs c'"
    "ch_htlcs c' = map (acknowledge \<circ> lock_holder) (ch_htlcs c)"
    "ch_to_holder_msat c' = ch_to_holder_msat c" "ch_to_counterparty_msat c' = ch_to_counterparty_msat c"
    "ch_awaiting_raa c' = ch_awaiting_raa c" "ch_holding_cell c' = ch_holding_cell c"
    "ch_pending_counterparty_commitment c' = ch_pending_counterparty_commitment c"
    "ch_next_holder_htlc_id c' = ch_next_holder_htlc_id c"
    "ch_next_counterparty_htlc_id c' = ch_next_counterparty_htlc_id c"
    "ch_funding_amount_sat c' = ch_funding_amount_sat c" .
  have h: "htlc_ok h" if "h \<in> set (ch_htlcs c)" for h using I(1) that by (simp add: list_all_iff)
  have next_same: "next_id c' = next_id c" by (simp add: fun_eq_iff next_id_def c')
  have ok: "list_all phase_ok (ch_htlcs c')" using h lock_advance(1) by (simp add: c'(2) list_all_iff)
  have "map entry_of (ch_htlcs c') = map (advance True (\<lambda>_. True)) (map entry_of (ch_htlcs c))"
    using h lock_advance(2) by (simp add: c'(2))
  from gc_ledger(1) [OF I(7,10) ok this c'(3,4)]
  have "ledger_of (gc_htlcs c') = lock_ledger True (\<lambda>_. True) (ledger_of c)"
    by (simp add: c'(7) lock_ledger_def)
  then have step: "ledger_step (ledger_of c) (ledger_of (gc_htlcs c'))" by (simp add: ledger_step.lock_holder_side)
  have key: "hkey (acknowledge (lock_holder h)) = hkey h" if "h \<in> set (ch_htlcs c)" for h
    using lock_advance(3) [OF h [OF that]] .
  have "snap_ok c'"
  proof (cases "ch_pending_counterparty_commitment c")
    case (Some p)
    then show ?thesis using I(4) h key lock_advance(4,5) by (simp add: snap_ok_def c'(2,7) next_same)
  qed (simp add: snap_ok_def c'(7))
  then have "refines c (gc_htlcs c')"
    by (intro gc_refines [OF inv ok _ next_same _ _ c'(6,10) step]) (use key I(5) c'(5,7) in \<open>auto simp: c'(2)\<close>)
  then show ?thesis by (simp add: c'(1))
qed

section \<open>Signing\<close>

lemma to_sign_entry: "htlc_ok h \<Longrightarrow> to_sign (entry_of h) \<longleftrightarrow> phase_counterparty h = Pending \<or> phase_counterparty h = Removing"
  by (cases "phase_counterparty h"; cases "hx_outbound h")
    (auto simp: htlc_ok_def phase_defs gone_both_def to_sign_def stage_of_def split: if_splits)

definition signed :: "PendingCounterpartyCommitment \<Rightarrow> Channel \<Rightarrow> Channel" where
  "signed p c = c\<lparr>ch_pending_counterparty_commitment := Some p, ch_awaiting_raa := True, ch_counterparty_dirty := False\<rparr>"

lemma sign_refines:
  assumes inv: "chan_inv c" and idle: "\<not> ch_awaiting_raa c"
    and p: "pc_included p = snapshot Pending c" "pc_removed p = snapshot Removing c"
  shows "refines c (signed p c)"
proof (rule refines_step)
  note I = chan_invD [OF inv]
  have h: "htlc_ok h" if "h \<in> set (ch_htlcs c)" for h using I(1) that by (simp add: list_all_iff)
  have keys: "pending_keys p = hkey ` {h \<in> set (ch_htlcs c). phase_counterparty h = Pending \<or> phase_counterparty h = Removing}"
    by (auto simp: pending_keys_def p snapshot_def)
  have dist: "inj_on hkey (set (ch_htlcs c))"
    using ledger_invD(2) [OF I(7)] by (force simp: distinct_map inj_on_def)
  have none: "lg_flight (ledger_of c) = None" using idle I(5) by simp
  have "{e \<in> set (lg_entries (ledger_of c)). to_sign e}
      = entry_of ` {h \<in> set (ch_htlcs c). phase_counterparty h = Pending \<or> phase_counterparty h = Removing}"
    using to_sign_entry [OF h] by auto
  then have "akey ` pending_keys p = e_key ` {e \<in> set (lg_entries (ledger_of c)). to_sign e}"
    unfolding keys by (simp add: image_image)
  then have "ledger_of (signed p c) = (ledger_of c)\<lparr>lg_flight := Some (e_key ` {e \<in> set (lg_entries (ledger_of c)). to_sign e})\<rparr>"
    by (subst ledger_of_eq [of _ c]) (simp_all add: signed_def ledger_of_def)
  then show step: "ledger_step (ledger_of c) (ledger_of (signed p c))" using ledger_step.sign [OF none] by simp
  have next_same: "next_id (signed p c) = next_id c" by (simp add: fun_eq_iff next_id_def signed_def)
  have "ids_ok (signed p c)" by (rule ids_ok_mono [OF I(3)]) (simp_all add: signed_def next_same [unfolded signed_def])
  moreover have "snap_ok (signed p c)"
  proof -
    have "phase_counterparty h = ph" if "h \<in> set (ch_htlcs c)" "hkey h \<in> set (snapshot ph c)" for h ph
      using that dist unfolding snapshot_def by (auto dest: inj_onD)
    moreover have "\<forall>k\<in>pending_keys p. unat (snd k) < unat (next_id c (fst k))"
      using I(3) by (auto simp: keys ids_ok_def)
    moreover have "ch_pending_counterparty_commitment (signed p c) = Some p" "ch_htlcs (signed p c) = ch_htlcs c"
      by (simp_all add: signed_def)
    ultimately show ?thesis unfolding snap_ok_def next_same by (simp add: p)
  qed
  ultimately show "chan_inv (signed p c)"
    using I ledger_step_inv [OF step I(7)] by (simp add: chan_inv_def signed_def)
qed

lemma send_commitment_state:
  "(\<exists>e. send_commitment_signed E c = (Inl e, c))
   \<or> (\<exists>p cs. send_commitment_signed E c = (Inr cs, signed p c) \<and> \<not> ch_awaiting_raa c
        \<and> pc_included p = snapshot Pending c \<and> pc_removed p = snapshot Removing c
)"
  by (auto simp: send_commitment_signed_def try_in_def Let_def signed_def split: sum.splits)

lemma send_commitment_refines:
  assumes "chan_inv c"
  shows "refines c (snd (send_commitment_signed E c))"
  using send_commitment_state [of E c] refines_refl [OF assms] sign_refines [OF assms] by auto

section \<open>Revocation\<close>

lemma htlc_index_map:
  assumes "distinct (map hkey hs)"
  shows "(case htlc_index hs outb i of None \<Rightarrow> hs | Some k \<Rightarrow> hs[k := f (hs ! k)])
    = map (\<lambda>h. if hkey h = (outb, i) then f h else h) hs"
proof (cases "htlc_index hs outb i")
  case None
  then have "\<forall>h\<in>set hs. hkey h \<noteq> (outb, i)"
    by (auto simp: htlc_index_def find_None_iff in_set_conv_nth)
  then show ?thesis using None by (auto intro!: map_idI [symmetric])
next
  case (Some k)
  then have k: "k < length hs" "hkey (hs ! k) = (outb, i)" using htlc_index_Some by auto
  have "hkey (hs ! j) \<noteq> (outb, i)" if "j < length hs" "j \<noteq> k" for j
    using assms k that nth_eq_iff_index_eq [of "map hkey hs" j k] by simp
  then show ?thesis using Some k by (auto simp: list_eq_iff_nth_eq nth_list_update)
qed

lemma foldl_update:
  assumes step: "\<And>hs k. distinct (map hkey hs) \<Longrightarrow> u hs k = map (\<lambda>h. if hkey h = k then f h else h) hs"
    and key: "\<And>h. hx_outbound (f h) = hx_outbound h" "\<And>h. hx_id (f h) = hx_id h" and idem: "\<And>h. f (f h) = f h"
  shows "distinct (map hkey hs) \<Longrightarrow> foldl u hs ks = map (\<lambda>h. if hkey h \<in> set ks then f h else h) hs"
proof (induction ks arbitrary: hs)
  case (Cons k ks)
  have keys: "map hkey (map (\<lambda>h. if hkey h = k then f h else h) hs) = map hkey hs" by (auto simp: key)
  with Cons.prems have "distinct (map hkey (map (\<lambda>h. if hkey h = k then f h else h) hs))" by (simp only: keys)
  from Cons.IH [OF this] show ?case using step [OF Cons.prems, of k] by (auto simp: key idem)
qed simp

definition commit_add :: "Htlc \<Rightarrow> Htlc" where
  "commit_add h =
     (let h = (if phase_counterparty h = Pending then h\<lparr>phase_counterparty := Committed\<rparr> else h)
      in if hx_outbound h \<and> phase_holder h = NotYet then h\<lparr>phase_holder := Pending\<rparr> else h)"

definition commit_removal :: "Htlc \<Rightarrow> Htlc" where
  "commit_removal h =
     (let h = (if phase_counterparty h = Removing then h\<lparr>phase_counterparty := Gone\<rparr> else h)
      in if \<not> hx_outbound h \<and> phase_holder h = Committed then h\<lparr>phase_holder := Removing\<rparr> else h)"

lemma hkey_commit_add [simp]:
  "hx_outbound (commit_add h) = hx_outbound h" "hx_id (commit_add h) = hx_id h"
  "hx_outbound (commit_removal h) = hx_outbound h" "hx_id (commit_removal h) = hx_id h"
  by (simp_all add: commit_add_def commit_removal_def Let_def)

lemma lock_included_map:
  assumes "distinct (map hkey hs)"
  shows "lock_included hs k = map (\<lambda>h. if hkey h = k then commit_add h else h) hs"
proof -
  obtain outb i where k: "k = (outb, i)" by (cases k)
  have "lock_included hs k = (case htlc_index hs outb i of None \<Rightarrow> hs | Some j \<Rightarrow> hs[j := commit_add (hs ! j)])"
    using htlc_index_Some by (auto simp: lock_included_def k commit_add_def Let_def split: option.splits)
  then show ?thesis using htlc_index_map [OF assms] by (simp add: k)
qed

lemma lock_removed_map:
  assumes "distinct (map hkey hs)"
  shows "lock_removed hs k = map (\<lambda>h. if hkey h = k then commit_removal h else h) hs"
proof -
  obtain outb i where k: "k = (outb, i)" by (cases k)
  have "lock_removed hs k = (case htlc_index hs outb i of None \<Rightarrow> hs | Some j \<Rightarrow> hs[j := commit_removal (hs ! j)])"
    using htlc_index_Some by (auto simp: lock_removed_def k commit_removal_def Let_def split: option.splits)
  then show ?thesis using htlc_index_map [OF assms] by (simp add: k)
qed

lemma lock_snapshot:
  assumes "distinct (map hkey hs)"
  shows "foldl lock_removed (foldl lock_included hs ks) ls
    = map (\<lambda>h. let h = (if hkey h \<in> set ks then commit_add h else h) in if hkey h \<in> set ls then commit_removal h else h) hs"
proof -
  have idem: "commit_add (commit_add h) = commit_add h" "commit_removal (commit_removal h) = commit_removal h" for h
    by (simp_all add: commit_add_def commit_removal_def Let_def)
  have inc: "foldl lock_included hs ks = map (\<lambda>h. if hkey h \<in> set ks then commit_add h else h) hs"
    using lock_included_map by (rule foldl_update) (simp_all add: idem assms)
  then have "map hkey (foldl lock_included hs ks) = map hkey hs" by auto
  with assms have "distinct (map hkey (foldl lock_included hs ks))" by simp
  then have "foldl lock_removed (foldl lock_included hs ks) ls
      = map (\<lambda>h. if hkey h \<in> set ls then commit_removal h else h) (foldl lock_included hs ks)"
    using lock_removed_map by (intro foldl_update) (simp_all add: idem)
  then show ?thesis by (simp add: inc Let_def)
qed

lemma snapshot_advance:
  assumes "htlc_ok h" "hkey h \<in> set (pc_included p) \<Longrightarrow> phase_counterparty h = Pending"
    "hkey h \<in> set (pc_removed p) \<Longrightarrow> phase_counterparty h = Removing"
  defines "h' \<equiv> let h = (if hkey h \<in> set (pc_included p) then commit_add h else h)
     in if hkey h \<in> set (pc_removed p) then commit_removal h else h"
  shows "phase_ok h'" "entry_of h' = advance False (in_set_keys (akey ` pending_keys p)) (entry_of h)" "hkey h' = hkey h"
proof -
  consider (inc) "hkey h \<in> set (pc_included p)" "hkey h \<notin> set (pc_removed p)"
    | (rem) "hkey h \<notin> set (pc_included p)" "hkey h \<in> set (pc_removed p)"
    | (none) "hkey h \<notin> set (pc_included p)" "hkey h \<notin> set (pc_removed p)"
    using assms(2,3) by fastforce
  then have "phase_ok h' \<and> entry_of h' = advance False (in_set_keys (akey ` pending_keys p)) (entry_of h) \<and> hkey h' = hkey h"
  proof cases
    case inc
    then have "h' = commit_add h" by (simp add: h'_def)
    then show ?thesis using inc assms(1) assms(2) [OF inc(1)]
      by (cases "hx_outbound h") (auto simp: htlc_ok_def phase_defs gone_both_def commit_add_def entry_of_def stage_of_def
          amount_def advance_def in_set_keys_def pending_keys_def split: if_splits)
  next
    case rem
    then have "h' = commit_removal h" by (simp add: h'_def)
    then show ?thesis using rem assms(1) assms(3) [OF rem(2)]
      by (cases "hx_outbound h") (auto simp: htlc_ok_def phase_defs gone_both_def commit_removal_def entry_of_def stage_of_def
          amount_def advance_def in_set_keys_def pending_keys_def split: if_splits)
  next
    case none
    then show ?thesis using assms(1) by (simp add: h'_def htlc_ok_def advance_def in_set_keys_def pending_keys_def)
  qed
  then show "phase_ok h'" "entry_of h' = advance False (in_set_keys (akey ` pending_keys p)) (entry_of h)" "hkey h' = hkey h"
    by blast+
qed

lemma apply_revocation_gc:
  obtains c' where "apply_revocation p msg c = gc_htlcs c'"
    "ch_htlcs c' = foldl lock_removed (foldl lock_included (ch_htlcs c) (pc_included p)) (pc_removed p)"
    "ch_to_holder_msat c' = ch_to_holder_msat c" "ch_to_counterparty_msat c' = ch_to_counterparty_msat c"
    "\<not> ch_awaiting_raa c'" "ch_holding_cell c' = ch_holding_cell c"
    "ch_pending_counterparty_commitment c' = ch_pending_counterparty_commitment c"
    "ch_next_holder_htlc_id c' = ch_next_holder_htlc_id c"
    "ch_next_counterparty_htlc_id c' = ch_next_counterparty_htlc_id c"
    "ch_funding_amount_sat c' = ch_funding_amount_sat c" "ch_params c' = ch_params c"
  by (rule that, unfold apply_revocation_def Let_def, rule refl) (auto split: option.splits)

lemma apply_revocation_refines:
  assumes inv: "chan_inv c" and p: "ch_pending_counterparty_commitment c = Some p"
    and c0: "c0 = c\<lparr>ch_pending_counterparty_commitment := None, ch_counterparty_secrets := st\<rparr>"
  shows "refines c (apply_revocation p msg c0)"
proof -
  note I = chan_invD [OF inv]
  from apply_revocation_gc [of p msg c0] obtain c' where raw: "apply_revocation p msg c0 = gc_htlcs c'"
    "ch_htlcs c' = foldl lock_removed (foldl lock_included (ch_htlcs c0) (pc_included p)) (pc_removed p)"
    "ch_to_holder_msat c' = ch_to_holder_msat c0" "ch_to_counterparty_msat c' = ch_to_counterparty_msat c0"
    "\<not> ch_awaiting_raa c'" "ch_holding_cell c' = ch_holding_cell c0"
    "ch_pending_counterparty_commitment c' = ch_pending_counterparty_commitment c0"
    "ch_next_holder_htlc_id c' = ch_next_holder_htlc_id c0"
    "ch_next_counterparty_htlc_id c' = ch_next_counterparty_htlc_id c0"
    "ch_funding_amount_sat c' = ch_funding_amount_sat c0" .
  note c' = raw [unfolded c0, simplified]
  let ?f = "\<lambda>h. let h = (if hkey h \<in> set (pc_included p) then commit_add h else h)
     in if hkey h \<in> set (pc_removed p) then commit_removal h else h"
  have "distinct (map (akey \<circ> hkey) (ch_htlcs c))" using ledger_invD(2) [OF I(7)] by (simp add: comp_def)
  then have "distinct (map hkey (ch_htlcs c))" by (auto simp: distinct_map intro: inj_on_imageI2)
  from lock_snapshot [OF this] have hs: "ch_htlcs c' = map ?f (ch_htlcs c)" by (simp add: c'(2))
  have h: "htlc_ok h \<and> (hkey h \<in> set (pc_included p) \<longrightarrow> phase_counterparty h = Pending)
      \<and> (hkey h \<in> set (pc_removed p) \<longrightarrow> phase_counterparty h = Removing)" if "h \<in> set (ch_htlcs c)" for h
    using I(1,4) that by (simp add: list_all_iff snap_ok_def p)
  have f: "phase_ok (?f h)" "entry_of (?f h) = advance False (in_set_keys (akey ` pending_keys p)) (entry_of h)"
    "hkey (?f h) = hkey h" if "h \<in> set (ch_htlcs c)" for h
    using h [OF that] snapshot_advance [of h p] by blast+
  have next_same: "next_id c' = next_id c" by (simp add: fun_eq_iff next_id_def c')
  have ok: "list_all phase_ok (ch_htlcs c')" unfolding hs list_all_iff using f(1) by auto
  have "map entry_of (ch_htlcs c') = map (advance False (in_set_keys (akey ` pending_keys p))) (map entry_of (ch_htlcs c))"
    unfolding hs map_map using f(2) by (intro map_cong) (auto simp: comp_def)
  from gc_ledger(1) [OF I(7,10) ok this c'(3,4)]
  have "ledger_of (gc_htlcs c') = (lock_ledger False (in_set_keys (akey ` pending_keys p)) (ledger_of c))\<lparr>lg_flight := None\<rparr>"
    by (simp add: c'(7))
  then have step: "ledger_step (ledger_of c) (ledger_of (gc_htlcs c'))"
    using ledger_step.lock_counterparty_side [of "ledger_of c"] by (simp add: p)
  have "hkey ` set (ch_htlcs c') \<subseteq> hkey ` set (ch_htlcs c)"
  proof
    fix k assume "k \<in> hkey ` set (ch_htlcs c')"
    then obtain h where h: "h \<in> set (ch_htlcs c)" "k = hkey (?f h)" unfolding hs set_map image_image by (rule imageE)
    show "k \<in> hkey ` set (ch_htlcs c)" using h(1) unfolding h(2) f(3) [OF h(1)] by (rule imageI)
  qed
  then have "refines c (gc_htlcs c')"
    by (intro gc_refines [OF inv ok _ next_same _ _ c'(6,10) step]) (simp_all add: c'(5,7) snap_ok_def)
  then show ?thesis by (simp add: raw(1))
qed

section \<open>The holding cell\<close>

text \<open>What a flushed operation keeps: it refines the ledger, stays out of flight, and uses up one unit of room.\<close>

definition flushes :: "nat \<Rightarrow> Channel \<Rightarrow> Channel \<Rightarrow> bool" where
  "flushes n c c' \<longleftrightarrow> refines c c' \<and> \<not> ch_awaiting_raa c' \<and> room n c'"

lemma room_mono: "room m c \<Longrightarrow> n \<le> m \<Longrightarrow> room n c"
  by (simp add: room_def)

lemma room_resolve [simp]: "room n (resolve_inbound k r c) = room n c"
  by (simp add: room_def resolve_inbound_def)

lemma flushes_refl: "chan_inv c \<Longrightarrow> \<not> ch_awaiting_raa c \<Longrightarrow> room (Suc n) c \<Longrightarrow> flushes n c c"
  by (simp add: flushes_def refines_refl room_mono)

lemma flush_resolve:
  assumes "chan_inv c" "\<not> ch_awaiting_raa c" "room (Suc n) c" "inbound_committed_mut c i = Inr k"
  shows "flushes n c (resolve_inbound k r c)"
  using resolve_inbound_refines [OF assms(1,4,2)] assms(2,3) room_mono [of "Suc n" c n]
  by (simp add: flushes_def) (simp add: resolve_inbound_def)

lemma flush_removals:
  assumes "chan_inv c" "\<not> ch_awaiting_raa c" "room (Suc n) c"
  shows "flushes n c (snd (send_fulfill_htlc i p c))" "flushes n c (snd (send_fail_htlc i re c))"
    "flushes n c (snd (send_fail_malformed_htlc i sha code c))"
  using flush_resolve [OF assms] flushes_refl [OF assms] assms(2)
  by (auto simp: send_fulfill_htlc_def send_fail_htlc_def send_fail_malformed_htlc_def try_in_def split: sum.splits)

lemma flush_add:
  assumes "chan_inv c" "\<not> ch_awaiting_raa c" "room (Suc n) c" "unat a < 2 ^ 62"
  shows "flushes n c (snd (send_add_htlc a ph cltv onion src c))"
proof -
  have "\<not> ch_awaiting_raa (snd (send_add_htlc a ph cltv onion src c))"
    using assms(2) by (auto simp: send_add_htlc_def try_in_def Let_def split: sum.splits)
  then show ?thesis using send_add_refines [OF assms(1,3,4)] assms(2) by (simp add: flushes_def)
qed

lemma flush_op_state:
  "snd (flush_op cell_op out c) = (case cell_op of OpAdd a ph cltv onion src \<Rightarrow> snd (send_add_htlc a ph cltv onion src c)
     | OpFulfill i p \<Rightarrow> snd (send_fulfill_htlc i p c) | OpFail i re \<Rightarrow> snd (send_fail_htlc i re c)
     | OpFailMalformed i sha code \<Rightarrow> snd (send_fail_malformed_htlc i sha code c))"
  by (simp add: flush_op_def split: HoldingCellOp.split prod.split sum.split option.split ChannelError.split)

lemma flush_op_flushes:
  assumes "chan_inv c" "\<not> ch_awaiting_raa c" "room (Suc n) c" "cell_amount_ok cell_op"
  shows "flushes n c (snd (flush_op cell_op out c))"
  using flush_removals [OF assms(1-3)] flush_add [OF assms(1-3)] assms(4)
  by (cases cell_op) (simp_all add: flush_op_state cell_amount_ok_def)

lemma flush_ops_refines:
  "chan_inv c \<Longrightarrow> \<not> ch_awaiting_raa c \<Longrightarrow> room (length ops) c \<Longrightarrow> list_all cell_amount_ok ops \<Longrightarrow>
    refines c (snd (flush_ops ops out c))"
proof (induction ops arbitrary: out c)
  case (Cons cell_op ops)
  let ?d = "snd (flush_op cell_op out c)"
  have d: "refines c ?d" "\<not> ch_awaiting_raa ?d" "room (length ops) ?d"
    using flush_op_flushes [OF Cons.prems(1,2), of "length ops" cell_op out] Cons.prems(3,4) by (simp_all add: flushes_def)
  then have "refines ?d (snd (flush_ops ops out' ?d))" for out'
    using Cons.IH [of ?d] Cons.prems(4) by (simp add: refines_def)
  then show ?case using d(1) refines_trans by (auto split: prod.splits sum.splits)
qed (simp add: refines_refl)

text \<open>Marking HTLCs as processed and emptying the cell do not touch the ledger.\<close>

lemma collect_refines:
  assumes inv: "chan_inv c"
  shows "refines c ((snd (collect_forwardable c))\<lparr>ch_holding_cell := []\<rparr>)"
proof -
  note I = chan_invD [OF inv]
  let ?f = "\<lambda>h. if is_forwardable h then h\<lparr>processed := True\<rparr> else h"
  define d where "d = (snd (collect_forwardable c))\<lparr>ch_holding_cell := []\<rparr>"
  have hs: "ch_htlcs d = map ?f (ch_htlcs c)" by (simp add: d_def collect_forwardable_def)
  have same: "ch_to_holder_msat d = ch_to_holder_msat c" "ch_to_counterparty_msat d = ch_to_counterparty_msat c"
    "ch_pending_counterparty_commitment d = ch_pending_counterparty_commitment c"
    "ch_awaiting_raa d = ch_awaiting_raa c" "ch_holding_cell d = []" "ch_funding_amount_sat d = ch_funding_amount_sat c"
    and next_same: "next_id d = next_id c"
    by (simp_all add: d_def collect_forwardable_def fun_eq_iff next_id_def)
  have f [simp]: "entry_of (?f h) = entry_of h" "htlc_ok (?f h) = htlc_ok h" "hx_outbound (?f h) = hx_outbound h"
    "hx_id (?f h) = hx_id h" "phase_counterparty (?f h) = phase_counterparty h" for h
    by (simp_all add: entry_of_def amount_def stage_of_def own_phase_def other_phase_def htlc_ok_def phase_ok_def gone_both_def)
  have led: "ledger_of d = ledger_of c"
    unfolding ledger_of_entries [OF same(1-3)] hs map_map comp_def f(1) by (simp add: ledger_of_def)
  moreover have "list_all htlc_ok (ch_htlcs d)" unfolding hs using I(1) by (simp only: list_all_iff set_map ball_simps f)
  moreover have "ids_ok d" unfolding ids_ok_def hs next_same using I(3) by (simp only: ids_ok_def set_map ball_simps f)
  moreover have "snap_ok d" unfolding snap_ok_def hs next_same same(3) using I(4) by (simp only: snap_ok_def set_map ball_simps f)
  ultimately have "refines c d" using I by (simp add: refines_def chan_inv_def same)
  then show ?thesis by (simp add: d_def)
qed

lemma flush_holding_cell_refines:
  assumes inv: "chan_inv c" and idle: "\<not> ch_awaiting_raa c" and rng: "room (length (ch_holding_cell c)) c"
  shows "refines c (snd (flush_holding_cell E c))"
proof -
  let ?d = "(snd (collect_forwardable c))\<lparr>ch_holding_cell := []\<rparr>"
  define r where "r = flush_ops (ch_holding_cell c) (RaaOutcome_default\<lparr>ro_forwardable := fst (collect_forwardable c)\<rparr>) ?d"
  have d: "refines c ?d" using collect_refines [OF inv] .
  have "\<not> ch_awaiting_raa ?d" "room (length (ch_holding_cell c)) ?d"
    using idle rng by (simp_all add: collect_forwardable_def room_def)
  then have "refines ?d (snd r)"
    unfolding r_def using d chan_invD(6) [OF inv] by (intro flush_ops_refines) (simp_all add: refines_def)
  with d have r: "refines c (snd r)" by (rule refines_trans)
  have "snd (flush_holding_cell E c) = snd r \<or> snd (flush_holding_cell E c) = snd (send_commitment_signed E (snd r))"
    by (auto simp: flush_holding_cell_def r_def Let_def case_prod_beta collect_forwardable_def split: sum.splits prod.splits)
  moreover have "refines c (snd (send_commitment_signed E (snd r)))"
    using r send_commitment_refines [of "snd r" E] refines_trans by (auto simp: refines_def)
  ultimately show ?thesis using r by auto
qed

section \<open>The commitment dance\<close>

lemma on_commitment_signed_refines:
  assumes inv: "chan_inv c"
  shows "refines c (snd (on_commitment_signed E msg c))"
proof -
  have lock: "refines c (lock_in (c\<lparr>ch_current_holder_commitment := hc, ch_holder_commitment_number := n\<rparr>))" for hc n
  proof -
    let ?d = "c\<lparr>ch_current_holder_commitment := hc, ch_holder_commitment_number := n\<rparr>"
    have "refines c ?d" using inv by (rule refines_frame) (simp add: money_def)
    moreover from this have "refines ?d (lock_in ?d)" by (intro lock_in_refines) (simp add: refines_def)
    ultimately show ?thesis by (rule refines_trans)
  qed
  show ?thesis
    using refines_refl [OF inv] lock
    by (auto simp: on_commitment_signed_def try_in_def Let_def split: sum.splits)
qed

lemma lock_snapshot_length [simp]:
  "length (foldl lock_included hs ks) = length hs" "length (foldl lock_removed hs ks) = length hs"
proof -
  have "length (lock_included hs k) = length hs" "length (lock_removed hs k) = length hs" for hs k
    by (auto simp: lock_included_def lock_removed_def Let_def split: prod.splits option.splits)
  then show "length (foldl lock_included hs ks) = length hs" "length (foldl lock_removed hs ks) = length hs"
    by (induction ks arbitrary: hs) simp_all
qed

lemma apply_revocation_room:
  assumes "room n c"
  shows "room n (apply_revocation p msg c)" "\<not> ch_awaiting_raa (apply_revocation p msg c)"
    "ch_holding_cell (apply_revocation p msg c) = ch_holding_cell c"
proof -
  from apply_revocation_gc [of p msg c] obtain c' where c': "apply_revocation p msg c = gc_htlcs c'"
    "ch_htlcs c' = foldl lock_removed (foldl lock_included (ch_htlcs c) (pc_included p)) (pc_removed p)"
    "\<not> ch_awaiting_raa c'" "ch_holding_cell c' = ch_holding_cell c"
    "ch_next_holder_htlc_id c' = ch_next_holder_htlc_id c"
    "ch_next_counterparty_htlc_id c' = ch_next_counterparty_htlc_id c" "ch_params c' = ch_params c" by blast
  have "length (ch_htlcs c') = length (ch_htlcs c)" by (simp add: c'(2))
  then have "length (ch_htlcs (gc_htlcs c')) \<le> length (ch_htlcs c)" by simp (metis length_filter_le)
  then show "room n (apply_revocation p msg c)" "\<not> ch_awaiting_raa (apply_revocation p msg c)"
    "ch_holding_cell (apply_revocation p msg c) = ch_holding_cell c"
    using assms unfolding c'(1) by (auto simp: room_def c')
qed

lemma on_revoke_and_ack_refines:
  assumes inv: "chan_inv c" and rng: "in_range c" and live: "fst (on_revoke_and_ack E msg c) \<noteq> Inl Panicked"
  shows "refines c (snd (on_revoke_and_ack E msg c))"
proof -
  have flush: "refines c (snd (flush_holding_cell E (apply_revocation p msg c0)))"
    if p: "ch_pending_counterparty_commitment c = Some p"
      and c0: "c0 = c\<lparr>ch_pending_counterparty_commitment := None, ch_counterparty_secrets := st\<rparr>" for p st c0
  proof -
    let ?d = "apply_revocation p msg c0"
    have "room (length (ch_holding_cell c0)) c0"
      using rng room_mono [of "Suc (length (ch_holding_cell c))" c "length (ch_holding_cell c)"]
      by (simp add: in_range_def c0) (simp add: room_def)
    note R = apply_revocation_room [OF this, of p msg]
    have d: "refines c ?d" using apply_revocation_refines [OF inv p c0] .
    then have "refines ?d (snd (flush_holding_cell E ?d))"
      using R by (intro flush_holding_cell_refines) (simp_all add: refines_def)
    with d show ?thesis by (rule refines_trans)
  qed
  show ?thesis
    using refines_refl [OF inv] live flush
    by (auto simp: on_revoke_and_ack_def Let_def close_err_def split: option.splits sum.splits if_splits)
qed

end
