(* ===== verification/Channel_Safety.thy ===== *)
theory Channel_Safety
  imports Channel_Inv
begin

text \<open>The channel as a state machine: one step per handler and per local request, the channels
  reachable from the two constructors, and what holds of all of them.
\<close>

section \<open>Operations outside the ledger\<close>

lemma money_update [simp]:
  "money (c\<lparr>ch_state := st\<rparr>) = money c" "money (c\<lparr>ch_last_closing_fee_proposal := fp\<rparr>) = money c"
  "money (c\<lparr>ch_closing_tx := ct\<rparr>) = money c" "money (c\<lparr>ch_current_counterparty_commitment := cc\<rparr>) = money c"
  "money (c\<lparr>ch_current_holder_commitment := hc\<rparr>) = money c" "money (c\<lparr>ch_channel_id := ci\<rparr>) = money c"
  "money (c\<lparr>ch_funding_outpoint := fo\<rparr>) = money c" "money (c\<lparr>ch_channel_ready_received := b\<rparr>) = money c"
  "money (c\<lparr>ch_channel_ready_sent := b\<rparr>) = money c" "money (c\<lparr>ch_funding_confirmed := b\<rparr>) = money c"
  "money (c\<lparr>ch_short_channel_id := sc\<rparr>) = money c" "money (c\<lparr>ch_counterparty_next_point := np\<rparr>) = money c"
  "money (c\<lparr>ch_counterparty_current_point := np\<rparr>) = money c" "money (c\<lparr>ch_counterparty_dirty := b\<rparr>) = money c"
  "money (c\<lparr>ch_feerate_holder := fh\<rparr>) = money c" "money (c\<lparr>ch_feerate_counterparty := fh\<rparr>) = money c"
  "money (c\<lparr>ch_pending_fee_ack := fa\<rparr>) = money c" "money (c\<lparr>ch_params := ps\<rparr>) = money c"
  "money (c\<lparr>ch_counterparty_pubkeys := cp\<rparr>) = money c" "money (c\<lparr>ch_obscure_factor := ob\<rparr>) = money c"
  "money (c\<lparr>ch_holder_shutdown_script := ss\<rparr>) = money c" "money (c\<lparr>ch_counterparty_shutdown_script := ss\<rparr>) = money c"
  "money (c\<lparr>ch_shutdown_sent := b\<rparr>) = money c" "money (c\<lparr>ch_shutdown_received := b\<rparr>) = money c"
  by (simp_all add: money_def)

lemma money_opening:
  "money (snd (on_accept_channel am c)) = money c"
  "money (snd (funding_created E txid vout c)) = money c"
  "money (snd (on_funding_created E fm c)) = money c"
  "money (snd (on_funding_signed E fs c)) = money c"
  "money (snd (funding_confirmed E scid c)) = money c"
  "money (snd (on_channel_ready cr c)) = money c"
  by (auto simp: on_accept_channel_def funding_created_def on_funding_created_def on_funding_signed_def
      funding_confirmed_def on_channel_ready_def maybe_become_normal_def try_in_def Let_def split: sum.splits)

lemma money_fees:
  "money (snd (send_update_fee fr c)) = money c" "money (snd (on_update_fee uf c)) = money c"
  by (auto simp: send_update_fee_def on_update_fee_def)

lemma money_shutdown: "send_shutdown script c = (r, c') \<Longrightarrow> money c' = money c"
  by (auto simp: send_shutdown_def Let_def split: if_splits)

lemma money_finalize: "finalize_closing E fee sig c = (r, c') \<Longrightarrow> money c' = money c"
  by (auto simp: finalize_closing_def try_in_def Let_def split: sum.splits if_splits)

lemma money_finalize_and_reply:
  "(\<And>c. money (upd c) = money c) \<Longrightarrow> money (snd (finalize_and_reply E fee sig bounds upd c)) = money c"
  by (auto simp: finalize_and_reply_def try_in_def split: prod.splits sum.splits dest: money_finalize)

lemma money_finalize_done: "money (snd (finalize_done E fee sig c)) = money c"
  by (auto simp: finalize_done_def split: prod.splits sum.splits dest: money_finalize)

lemma money_range_path: "money (snd (closing_range_path E msg rng ours c)) = money c"
  by (auto simp: closing_range_path_def try_in_def Let_def money_finalize_and_reply money_finalize_done
      split: prod.splits sum.splits option.splits)

lemma money_legacy_path: "money (snd (closing_legacy_path E msg fee c)) = money c"
  by (auto simp: closing_legacy_path_def try_in_def Let_def money_finalize_and_reply split: sum.splits)

lemma money_closing:
  "money (snd (send_shutdown script c)) = money c"
  "money (snd (on_shutdown sm script c)) = money c"
  "money (snd (maybe_send_closing_signed E fr c)) = money c"
  "money (snd (on_closing_signed E cm fr c)) = money c"
proof -
  show "money (snd (send_shutdown script c)) = money c" by (rule money_shutdown [OF prod.collapse [symmetric]])
  show "money (snd (on_shutdown sm script c)) = money c"
    by (auto simp: on_shutdown_def Let_def split: prod.splits sum.splits dest!: money_shutdown)
  show "money (snd (maybe_send_closing_signed E fr c)) = money c"
    by (auto simp: maybe_send_closing_signed_def try_in_def split: sum.splits)
  show "money (snd (on_closing_signed E cm fr c)) = money c"
    by (auto simp: on_closing_signed_def try_in_def Let_def money_range_path money_legacy_path money_finalize_done
        split: sum.splits option.splits)
qed

section \<open>The state machine\<close>

text \<open>
  A connected channel: every handler of a peer message and every local request, with whatever
  result, as long as the process survives it. A disconnect, which rolls unsigned updates back,
  is the subject of a theorem of its own.
\<close>

inductive channel_step :: "EC \<Rightarrow> Channel \<Rightarrow> Channel \<Rightarrow> bool" for E where
  accept_channel: "channel_step E c (snd (on_accept_channel am c))"
| create_funding: "channel_step E c (snd (funding_created E txid vout c))"
| recv_funding_created: "channel_step E c (snd (on_funding_created E fm c))"
| recv_funding_signed: "channel_step E c (snd (on_funding_signed E fs c))"
| confirm_funding: "channel_step E c (snd (funding_confirmed E scid c))"
| recv_channel_ready: "channel_step E c (snd (on_channel_ready cr c))"
| send_add: "unat a < 2 ^ 62 \<Longrightarrow> channel_step E c (snd (send_add_htlc a ph cltv onion src c))"
| send_fulfill: "channel_step E c (snd (send_fulfill_htlc i p c))"
| send_fail: "channel_step E c (snd (send_fail_htlc i re c))"
| send_malformed: "channel_step E c (snd (send_fail_malformed_htlc i sha code c))"
| send_fee: "channel_step E c (snd (send_update_fee fr c))"
| recv_add: "unat (uah_amount_msat um) < 2 ^ 62 \<Longrightarrow> channel_step E c (snd (on_update_add_htlc um c))"
| recv_fulfill: "channel_step E c (snd (on_update_fulfill_htlc ufm c))"
| recv_fail: "channel_step E c (snd (on_update_fail_htlc xm c))"
| recv_malformed: "channel_step E c (snd (on_update_fail_malformed_htlc mm c))"
| recv_fee: "channel_step E c (snd (on_update_fee fem c))"
| send_commitment: "channel_step E c (snd (send_commitment_signed E c))"
| recv_commitment: "channel_step E c (snd (on_commitment_signed E csm c))"
| recv_revocation: "fst (on_revoke_and_ack E rm c) \<noteq> Inl Panicked \<Longrightarrow> channel_step E c (snd (on_revoke_and_ack E rm c))"
| start_shutdown: "channel_step E c (snd (send_shutdown script c))"
| recv_shutdown: "channel_step E c (snd (on_shutdown sm script c))"
| start_closing: "channel_step E c (snd (maybe_send_closing_signed E fr c))"
| recv_closing: "channel_step E c (snd (on_closing_signed E cm fr c))"

inductive reachable :: "EC \<Rightarrow> Channel \<Rightarrow> bool" for E where
  opened: "new_outbound E signer config network tid funding push fr = Inr (c, om) \<Longrightarrow> unat funding < 2 ^ 51 \<Longrightarrow> reachable E c"
| accepted: "new_inbound E signer config network om = Inr (c, am) \<Longrightarrow> unat (oc_funding_satoshis om) < 2 ^ 51 \<Longrightarrow> reachable E c"
| step: "reachable E c \<Longrightarrow> in_range c \<Longrightarrow> channel_step E c c' \<Longrightarrow> reachable E c'"

lemma channel_step_refines:
  assumes step: "channel_step E c c'" and inv: "chan_inv c" and rng: "in_range c"
  shows "refines c c'"
proof -
  have room: "room (Suc (length (ch_holding_cell c))) c" using rng by (simp add: in_range_def)
  show ?thesis using step
  proof cases
    case send_add
    then show ?thesis using send_add_refines(1) [OF inv room] by simp
  next
    case recv_add
    then show ?thesis using on_update_add_refines [OF inv room] by simp
  next
    case recv_revocation
    then show ?thesis using on_revoke_and_ack_refines [OF inv rng] by simp
  qed (simp_all add: refines_frame [OF inv] money_opening money_fees money_closing send_removal_refines [OF inv]
      on_removal_refines [OF inv] send_commitment_refines [OF inv] on_commitment_signed_refines [OF inv])
qed

lemma fresh_inv:
  assumes "unat funding < 2 ^ 51" "push \<le> funding * 1000"
    and "bal = (funding * 1000 - push, push) \<or> bal = (push, funding * 1000 - push)"
  shows "chan_inv (fresh_channel signer rl st config ps tid funding push cp ob fr ann (fst bal) (snd bal) point)"
proof -
  have "unat funding * 1000 < 2 ^ 64" using assms(1) by simp
  then have mult: "unat (funding * 1000) = unat funding * 1000" by (simp add: unat_word_ariths)
  have sub: "unat (funding * 1000 - push) = unat (funding * 1000) - unat push" using assms(2) by (rule unat_sub)
  have "unat push \<le> unat (funding * 1000)" using assms(2) by (simp add: word_le_nat_alt)
  then have "unat (funding * 1000 - push) + unat push = 1000 * unat funding" using mult sub by simp
  then have "int (unat (funding * 1000 - push) + unat push) = int (1000 * unat funding)" by (rule arg_cong)
  then have total: "uint (funding * 1000 - push) + uint push = 1000 * uint funding" by simp
  have small: "uint funding < 2 ^ 51"
    using assms(1) of_nat_less_iff [where 'a = int, of "unat funding" "2 ^ 51"] by simp
  let ?c = "fresh_channel signer rl st config ps tid funding push cp ob fr ann (fst bal) (snd bal) point"
  have fields: "ch_htlcs ?c = []" "ch_pending_counterparty_commitment ?c = None" "\<not> ch_awaiting_raa ?c"
    "ch_holding_cell ?c = []" "ch_to_holder_msat ?c = fst bal" "ch_to_counterparty_msat ?c = snd bal"
    "ch_funding_amount_sat ?c = funding"
    by (simp_all add: fresh_channel_def)
  have "ledger_inv (ledger_of ?c)"
    by (auto simp: ledger_inv_def ledger_of_def fields entries_ok_def well_ordered_def solvent_def)
  moreover have "uint (fst bal) + uint (snd bal) = 1000 * uint funding" using assms(3) total by auto
  ultimately show ?thesis using small by (simp add: chan_inv_def fields ids_ok_def snap_ok_def)
qed

lemma reachable_inv: "reachable E c \<Longrightarrow> chan_inv c"
proof (induction rule: reachable.induct)
  case (opened signer config network tid funding push fr c om)
  then show ?case
    by (auto simp: new_outbound_def Let_def rbind_def not_less split: if_splits sum.splits
        intro: fresh_inv [of funding push "(funding * 1000 - push, push)", simplified])
next
  case (accepted signer config network om c am)
  then show ?case
    by (auto simp: new_inbound_def Let_def rbind_def close_err_def not_less split: if_splits sum.splits
        intro: fresh_inv [of "oc_funding_satoshis om" "oc_push_msat om" "(oc_push_msat om, oc_funding_satoshis om * 1000 - oc_push_msat om)", simplified])
next
  case (step c c')
  then show ?case using channel_step_refines refines_def by blast
qed

end
