(* ===== verification/Channel_Auth.thy ===== *)
theory Channel_Auth
  imports Channel_Safety Commitment_Correct
begin

text \<open>
  What a channel can prove to a third party: the holder's current commitment always carries valid
  signatures of the counterparty, no secret is revealed for it, the secrets of the counterparty's
  revoked commitments are all on file, and building, signing and publishing them never panics.
\<close>

section \<open>Built commitments\<close>

text \<open>The parameters each side's commitment is built from.\<close>

definition holder_params :: "EC \<Rightarrow> Channel \<Rightarrow> u64 \<Rightarrow> ChannelPublicKeys \<Rightarrow> OutPoint \<Rightarrow> CommitmentTxParams" where
  "holder_params E c number cp outpoint =
     \<lparr>cp_funding_outpoint = outpoint, cp_commitment_number = number,
      cp_obscure_factor = ch_obscure_factor c, cp_broadcaster_pays_fee = (ch_role c = Opener),
      cp_feerate = ch_feerate_holder c, cp_broadcaster_dust_limit_sat = holder_dust_limit_sat (ch_params c),
      cp_to_self_delay = counterparty_selected_delay (ch_params c),
      cp_keys = TxCreationKeys_derive E (signer_per_commitment_point E (ch_signer c) number) (ch_holder_pubkeys c) cp,
      cp_countersignatory_payment_basepoint = payment_basepoint cp,
      cp_to_broadcaster_msat = fst (balances_for c True), cp_to_countersignatory_msat = snd (balances_for c True),
      cp_htlcs = map (\<lambda>h. htlc_in_commitment h True) (filter (\<lambda>h. included (phase_holder h)) (ch_htlcs c))\<rparr>"

definition counterparty_params :: "EC \<Rightarrow> Channel \<Rightarrow> u64 \<Rightarrow> PublicKey \<Rightarrow> ChannelPublicKeys \<Rightarrow> OutPoint \<Rightarrow> CommitmentTxParams" where
  "counterparty_params E c number point cp outpoint =
     \<lparr>cp_funding_outpoint = outpoint, cp_commitment_number = number,
      cp_obscure_factor = ch_obscure_factor c, cp_broadcaster_pays_fee = (ch_role c = Accepter),
      cp_feerate = ch_feerate_counterparty c, cp_broadcaster_dust_limit_sat = counterparty_dust_limit_sat (ch_params c),
      cp_to_self_delay = holder_selected_delay (ch_params c),
      cp_keys = TxCreationKeys_derive E point cp (ch_holder_pubkeys c),
      cp_countersignatory_payment_basepoint = payment_basepoint (ch_holder_pubkeys c),
      cp_to_broadcaster_msat = snd (balances_for c False), cp_to_countersignatory_msat = fst (balances_for c False),
      cp_htlcs = map (\<lambda>h. htlc_in_commitment h False) (filter (\<lambda>h. included (phase_counterparty h)) (ch_htlcs c))\<rparr>"

definition built_from :: "CommitmentTxParams \<Rightarrow> BuiltCommitmentTx \<times> TxCreationKeys \<times> HtlcOutputInCommitment list" where
  "built_from p = (build_commitment_tx p, cp_keys p, cp_htlcs p)"

lemma build_holder_eq:
  "build_holder_commitment_at E c n = rbind (counterparty c) (\<lambda>cp.
     rbind (ok_or (ch_funding_outpoint c) (InvalidState ''no funding outpoint'')) (\<lambda>outpoint.
     Inr (built_from (holder_params E c n cp outpoint))))"
  unfolding build_holder_commitment_at_def Let_def case_prod_beta built_from_def holder_params_def by simp

lemma build_counterparty_eq:
  "build_counterparty_commitment_at E c n point = rbind (counterparty c) (\<lambda>cp.
     rbind (ok_or (ch_funding_outpoint c) (InvalidState ''no funding outpoint'')) (\<lambda>outpoint.
     Inr (built_from (counterparty_params E c n point cp outpoint))))"
  unfolding build_counterparty_commitment_at_def Let_def case_prod_beta built_from_def counterparty_params_def by simp

lemma rbind_Inr: "rbind r f = Inr b \<longleftrightarrow> (\<exists>a. r = Inr a \<and> f a = Inr b)"
  by (cases r) (simp_all add: rbind_def)

lemma holder_built:
  assumes "build_holder_commitment_at E c n = Inr b"
  obtains cp outpoint where "b = built_from (holder_params E c n cp outpoint)" "counterparty c = Inr cp"
    "ch_funding_outpoint c = Some outpoint"
  using assms by (auto simp: build_holder_eq rbind_Inr ok_or_def split: option.splits)

lemma counterparty_built:
  assumes "build_counterparty_commitment_at E c n point = Inr b"
  obtains cp outpoint where "b = built_from (counterparty_params E c n point cp outpoint)" "counterparty c = Inr cp"
    "ch_funding_outpoint c = Some outpoint"
  using assms by (auto simp: build_counterparty_eq rbind_Inr ok_or_def split: option.splits)

lemma built_input: "length (tx_input (bct_tx (build_commitment_tx p))) = 1"
  by (simp add: build_commitment_tx_def Let_def)

lemma sighash_defined: "k < length (tx_input tx) \<Longrightarrow> \<exists>d. segwit_v0_sighash (SighashCache_new tx) k code v t = Some d"
  by (auto simp: segwit_v0_sighash_def sighash_preimage_def SighashCache_new_def Let_def)

lemma order_landed:
  assumes "(i, script) \<in> set (htlcs_in_output_order (build_commitment_tx p))"
  shows "i < length (cp_htlcs p)" "i < length (htlc_output_indices (build_commitment_tx p))"
    "\<exists>v. htlc_output_indices (build_commitment_tx p) ! i = Some v"
proof -
  have "i \<in> fst ` set (htlc_entries (sorted_outputs p))" using assms by (force simp: built_order)
  then have "i \<in> set (map fst (positions (sorted_outputs p)))" unfolding positions_entries by simp
  then obtain k where k: "map_of (positions (sorted_outputs p)) i = Some k"
    by (metis map_of_eq_None_iff not_Some_eq set_map)
  then show "i < length (cp_htlcs p)" using landed_output by blast
  then show "\<exists>v. htlc_output_indices (build_commitment_tx p) ! i = Some v"
    using landed_index k by (simp add: built_indices)
  show "i < length (htlc_output_indices (build_commitment_tx p))"
    using \<open>i < length (cp_htlcs p)\<close> place_loop [of "length (cp_htlcs p)" "sorted_outputs p"]
    by (simp add: built_indices place_outputs_def)
qed

lemma htlc_sighash_defined:
  assumes "(i, script) \<in> set (htlcs_in_output_order (build_commitment_tx p))"
  shows "\<exists>d. htlc_sighash (build_commitment_tx p) keys (cp_htlcs p) delay fr (i, script) = Inr d"
proof -
  obtain v where v: "htlc_output_indices (build_commitment_tx p) ! i = Some v" using order_landed(3) [OF assms] by blast
  let ?tx = "build_htlc_tx (bct_txid (build_commitment_tx p)) v (cp_htlcs p ! i) keys delay fr"
  have "0 < length (tx_input ?tx)" by (simp add: build_htlc_tx_def Let_def)
  then show ?thesis
    using order_landed(1,2) [OF assms] v sighash_defined [of 0 ?tx script "to_sat_floor (h_amount_msat (cp_htlcs p ! i))" All]
    by (auto simp: htlc_sighash_def rbind_def expect_def ok_or_def Let_def)
qed

lemma sign_htlcs_defined:
  "(\<And>e. e \<in> set es \<Longrightarrow> \<exists>d. digest e = Inr d) \<Longrightarrow> \<exists>sigs. sign_htlcs E s point digest es = Inr sigs"
proof (induction es)
  case (Cons e es)
  then obtain d sigs where "digest e = Inr d" "sign_htlcs E s point digest es = Inr sigs" by (meson list.set_intros)
  then show ?case by (simp add: rbind_def)
qed simp

lemma funding_sighash_defined:
  assumes "counterparty c = Inr cp" "tx_input tx \<noteq> []"
  shows "\<exists>d. funding_sighash c tx = Inr d"
proof -
  have "0 < length (tx_input tx)" using assms(2) by simp
  then obtain d where "segwit_v0_sighash (SighashCache_new tx) 0 (funding_redeemscript (funding_pubkey (ch_holder_pubkeys c))
      (funding_pubkey cp)) (ch_funding_amount_sat c) All = Some d" using sighash_defined by blast
  then show ?thesis using assms(1) by (simp add: funding_sighash_def rbind_def expect_def ok_or_def Let_def)
qed

text \<open>Signing the counterparty's commitment fails only for the reasons the code reports.\<close>

lemma signing_defined:
  assumes "counterparty c = Inr cp"
  shows "\<exists>sig. sign_counterparty_commitment_tx E c (build_commitment_tx p) = Inr sig"
    "\<exists>sigs. sign_htlcs E s point (htlc_sighash (build_commitment_tx p) keys (cp_htlcs p) delay fr)
      (htlcs_in_output_order (build_commitment_tx p)) = Inr sigs"
proof -
  have "tx_input (bct_tx (build_commitment_tx p)) \<noteq> []" using built_input [of p] by auto
  from funding_sighash_defined [OF assms this] obtain d where "funding_sighash c (bct_tx (build_commitment_tx p)) = Inr d" ..
  then show "\<exists>sig. sign_counterparty_commitment_tx E c (build_commitment_tx p) = Inr sig"
    by (simp add: sign_counterparty_commitment_tx_def rbind_def)
  show "\<exists>sigs. sign_htlcs E s point (htlc_sighash (build_commitment_tx p) keys (cp_htlcs p) delay fr)
      (htlcs_in_output_order (build_commitment_tx p)) = Inr sigs"
    using htlc_sighash_defined by (intro sign_htlcs_defined) auto
qed

lemma resign_succeeds:
  assumes cp: "counterparty c = Inr cp" and point: "ch_counterparty_next_point c = Some point"
    and op: "ch_funding_outpoint c = Some outpoint"
  shows "\<exists>cs. resign_commitment E c = Inr cs"
proof -
  let ?p = "counterparty_params E c (ch_counterparty_commitment_number c + 1) point cp outpoint"
  obtain sig where "sign_counterparty_commitment_tx E c (build_commitment_tx ?p) = Inr sig" using signing_defined(1) [OF cp] by blast
  moreover obtain sigs where "sign_htlcs E (ch_signer c) point (htlc_sighash (build_commitment_tx ?p) (cp_keys ?p) (cp_htlcs ?p)
      (holder_selected_delay (ch_params c)) (ch_feerate_counterparty c)) (htlcs_in_output_order (build_commitment_tx ?p)) = Inr sigs"
    using signing_defined(2) [OF cp] by blast
  ultimately show ?thesis
    using cp point op by (simp add: resign_commitment_def build_counterparty_eq built_from_def rbind_def ok_or_def Let_def)
qed

lemma resign_no_panic: "resign_commitment E c \<noteq> Inl Panicked"
proof (cases "ch_counterparty_next_point c = None \<or> ch_funding_outpoint c = None \<or> ch_counterparty_pubkeys c = None")
  case True
  then show ?thesis
    by (auto simp: resign_commitment_def build_counterparty_eq rbind_def ok_or_def counterparty_def Let_def split: option.splits)
next
  case False
  then obtain cp point outpoint where "counterparty c = Inr cp" "ch_counterparty_next_point c = Some point"
    "ch_funding_outpoint c = Some outpoint" by (auto simp: counterparty_def ok_or_def)
  from resign_succeeds [OF this, of E] show ?thesis by auto
qed

text \<open>A commitment signature is what \<^verbatim>\<open>resign_commitment\<close> computes, with the bookkeeping around it.\<close>

lemma send_commitment_resign:
  "fst (send_commitment_signed E c) =
     (if ch_awaiting_raa c then Inl (InvalidState ''commitment already in flight'')
      else if \<not> ch_counterparty_dirty c then Inl (InvalidState ''no changes to sign'')
      else if ch_counterparty_next_point c = None then Inl (InvalidState ''next per-commitment point unknown'')
      else resign_commitment E c)"
  by (auto simp: send_commitment_signed_def resign_commitment_def try_in_def rbind_def ok_or_def Let_def
      split: option.splits sum.splits)

lemma send_commitment_succeeds:
  assumes "\<not> ch_awaiting_raa c" "ch_counterparty_dirty c" "ch_counterparty_pubkeys c \<noteq> None"
    "ch_counterparty_next_point c \<noteq> None" "ch_funding_outpoint c \<noteq> None"
  shows "\<exists>p cs. send_commitment_signed E c = (Inr cs, signed p c) \<and> pc_included p = snapshot Pending c
    \<and> pc_removed p = snapshot Removing c"
proof -
  obtain cp point outpoint where "counterparty c = Inr cp" "ch_counterparty_next_point c = Some point"
    "ch_funding_outpoint c = Some outpoint" using assms(3-5) by (auto simp: counterparty_def ok_or_def)
  then obtain cs where "resign_commitment E c = Inr cs" using resign_succeeds by blast
  then have "fst (send_commitment_signed E c) = Inr cs" using assms(1,2,4) by (simp add: send_commitment_resign)
  then show ?thesis using send_commitment_state [of E c] by auto
qed

lemma send_commitment_no_panic: "fst (send_commitment_signed E c) \<noteq> Inl Panicked"
  using resign_no_panic by (simp add: send_commitment_resign)

section \<open>The session invariant\<close>

definition hc_signed :: "EC \<Rightarrow> Channel \<Rightarrow> HolderCommitment \<Rightarrow> bool" where
  "hc_signed E c hc \<longleftrightarrow>
     tx_input (bct_tx (hc_built hc)) \<noteq> []
   \<and> verify_counterparty_funding_sig E c (hc_built hc) (hc_counterparty_sig hc) = Inr ()
   \<and> length (hc_counterparty_htlc_sigs hc) = length (htlcs_in_output_order (hc_built hc))
   \<and> verify_htlcs E (countersignatory_htlc_key (hc_keys hc))
       (htlc_sighash (hc_built hc) (hc_keys hc) (hc_htlcs hc) (counterparty_selected_delay (ch_params c)) (hc_feerate hc))
       (zip (hc_counterparty_htlc_sigs hc) (htlcs_in_output_order (hc_built hc))) = Inr ()"

definition early :: "Channel \<Rightarrow> bool" where
  "early c \<longleftrightarrow> ch_state c \<in> {OpenSent, AcceptSent, FundingCreatedSent}"

definition sess :: "EC \<Rightarrow> Channel \<Rightarrow> bool" where
  "sess E c \<longleftrightarrow>
     (ch_state c = OpenSent \<longrightarrow> ch_current_holder_commitment c = None)
   \<and> (early c \<longrightarrow> ch_htlcs c = [] \<and> ch_holder_commitment_number c = 0)
   \<and> (ch_state c \<noteq> OpenSent \<longrightarrow> ch_counterparty_pubkeys c \<noteq> None)
   \<and> (ch_counterparty_pubkeys c \<noteq> None \<longrightarrow> ch_counterparty_current_point c \<noteq> None)
   \<and> (ch_awaiting_raa c \<longrightarrow> ch_counterparty_next_point c \<noteq> None \<and> ch_counterparty_pubkeys c \<noteq> None)
   \<and> (\<forall>hc. ch_current_holder_commitment c = Some hc \<longrightarrow>
        hc_number hc = ch_holder_commitment_number c \<and> hc_signed E c hc)"

text \<open>What the signatures are checked against, and the other fields the invariant reads.\<close>

definition identity where
  "identity c = (ch_counterparty_pubkeys c, ch_holder_pubkeys c, ch_funding_amount_sat c, ch_params c)"

definition session where
  "session c = (identity c, ch_counterparty_current_point c, ch_counterparty_next_point c,
     ch_current_holder_commitment c, ch_holder_commitment_number c, ch_counterparty_secrets c,
     ch_counterparty_commitment_number c)"

lemma hc_signed_identity:
  assumes "identity c' = identity c"
  shows "hc_signed E c' hc = hc_signed E c hc"
proof -
  have eqs: "ch_counterparty_pubkeys c' = ch_counterparty_pubkeys c" "ch_holder_pubkeys c' = ch_holder_pubkeys c"
    "ch_funding_amount_sat c' = ch_funding_amount_sat c" "ch_params c' = ch_params c"
    using assms by (simp_all add: identity_def)
  show ?thesis unfolding hc_signed_def verify_counterparty_funding_sig_def funding_sighash_def counterparty_def eqs by (rule refl)
qed

lemma sess_frame:
  assumes inv: "sess E c" and same: "session c' = session c"
    and state: "ch_state c' = ch_state c \<or> \<not> early c \<and> \<not> early c'"
    and flight: "ch_awaiting_raa c' \<Longrightarrow> ch_awaiting_raa c \<or> ch_counterparty_next_point c \<noteq> None \<and> ch_counterparty_pubkeys c \<noteq> None"
    and quiet: "early c \<Longrightarrow> ch_htlcs c = [] \<Longrightarrow> ch_htlcs c' = []"
  shows "sess E c'"
proof -
  have id: "identity c' = identity c" using same by (simp add: session_def)
  have eqs: "ch_counterparty_pubkeys c' = ch_counterparty_pubkeys c" "ch_counterparty_current_point c' = ch_counterparty_current_point c"
    "ch_counterparty_next_point c' = ch_counterparty_next_point c" "ch_current_holder_commitment c' = ch_current_holder_commitment c"
    "ch_holder_commitment_number c' = ch_holder_commitment_number c"
    using same by (simp_all add: session_def identity_def)
  have "early c' \<longrightarrow> early c" "ch_state c' = OpenSent \<longleftrightarrow> ch_state c = OpenSent" using state by (auto simp: early_def)
  then show ?thesis
    using inv flight quiet unfolding sess_def eqs hc_signed_identity [OF id] by blast
qed

text \<open>Operations that leave the session alone; the relation composes.\<close>

definition calm :: "Channel \<Rightarrow> Channel \<Rightarrow> bool" where
  "calm c c' \<longleftrightarrow> session c' = session c \<and> (ch_state c' = ch_state c \<or> \<not> early c \<and> \<not> early c')
     \<and> ch_awaiting_raa c' = ch_awaiting_raa c \<and> (early c \<longrightarrow> ch_htlcs c = [] \<longrightarrow> ch_htlcs c' = [])"

lemma calm_sess: "sess E c \<Longrightarrow> calm c c' \<Longrightarrow> sess E c'"
  by (rule sess_frame [of E c c']) (auto simp: calm_def)

lemma calm_refl [simp]: "calm c c"
  by (simp add: calm_def)

lemma calm_trans:
  assumes "calm c d" "calm d e"
  shows "calm c e"
proof -
  have "early y \<longleftrightarrow> early x" if "calm x y" for x y using that by (auto simp: calm_def early_def)
  from this [OF assms(1)] this [OF assms(2)] show ?thesis using assms unfolding calm_def by (metis (full_types))
qed

lemma calm_updates:
  "ch_state c \<notin> {OpenSent, AcceptSent, FundingCreatedSent} \<Longrightarrow> calm c (c\<lparr>ch_holder_shutdown_script := ss, ch_shutdown_sent := b\<rparr>)"
  "calm c (c\<lparr>ch_last_closing_fee_proposal := fp\<rparr>)"
  by (simp_all add: calm_def session_def identity_def)

lemma calm_send_shutdown: "send_shutdown script c = (r, c') \<Longrightarrow> calm c c'"
  by (auto simp: send_shutdown_def calm_def session_def identity_def early_def Let_def split: if_splits)

lemma calm_on_shutdown: "calm c (snd (on_shutdown sm script c))"
proof -
  let ?d = "c\<lparr>ch_counterparty_shutdown_script := Some (sd_scriptpubkey sm), ch_shutdown_received := True\<rparr>"
  let ?e = "if ch_state c = Normal \<or> ch_state c = AwaitingChannelReady then ?d\<lparr>ch_state := ShuttingDown\<rparr> else ?d"
  have res: "snd (on_shutdown sm script c) = c \<or> snd (on_shutdown sm script c) = ?e
      \<or> snd (on_shutdown sm script c) = snd (send_shutdown script ?e)"
    by (auto simp: on_shutdown_def Let_def split: prod.splits sum.splits)
  have e: "calm c ?e" by (auto simp: calm_def session_def identity_def early_def)
  moreover have "calm ?e (snd (send_shutdown script ?e))" by (rule calm_send_shutdown [OF prod.collapse [symmetric]])
  ultimately have "calm c (snd (send_shutdown script ?e))" by (rule calm_trans)
  with e have "calm c c \<and> calm c ?e \<and> calm c (snd (send_shutdown script ?e))" by (intro conjI calm_refl)
  then show ?thesis using res by (elim disjE) (simp_all only:)
qed

lemma calm_finalize: "finalize_closing E fee sig c = (r, c') \<Longrightarrow> \<not> early c \<Longrightarrow> calm c c' \<and> \<not> early c'"
  by (auto simp: finalize_closing_def try_in_def calm_def session_def identity_def early_def Let_def split: sum.splits if_splits)

lemma calm_finalize_and_reply:
  assumes "\<not> early c" "\<And>c. calm c (upd c)"
  shows "calm c (snd (finalize_and_reply E fee sig bounds upd c))"
proof -
  obtain r d where fin: "finalize_closing E fee sig c = (r, d)" by (cases "finalize_closing E fee sig c")
  then have d: "calm c d" using calm_finalize assms(1) by blast
  moreover have "calm c (upd d)" using calm_trans [OF d assms(2)] .
  ultimately show ?thesis by (cases r) (auto simp: finalize_and_reply_def fin try_in_def split: sum.splits)
qed

lemma calm_finalize_done: "\<not> early c \<Longrightarrow> calm c (snd (finalize_done E fee sig c))"
  by (auto simp: finalize_done_def split: prod.splits sum.splits dest: calm_finalize)

lemma calm_proposal:
  assumes "\<not> early c"
  shows "calm c (c\<lparr>ch_last_closing_fee_proposal := fp\<rparr>)"
    "calm c (snd (finalize_and_reply E fee sig bounds (\<lambda>c. c) (c\<lparr>ch_last_closing_fee_proposal := fp\<rparr>)))"
proof -
  show upd: "calm c (c\<lparr>ch_last_closing_fee_proposal := fp\<rparr>)" by (rule calm_updates)
  have "\<not> early (c\<lparr>ch_last_closing_fee_proposal := fp\<rparr>)" using assms by (simp add: early_def)
  from calm_finalize_and_reply [OF this, of "\<lambda>c. c"]
  show "calm c (snd (finalize_and_reply E fee sig bounds (\<lambda>c. c) (c\<lparr>ch_last_closing_fee_proposal := fp\<rparr>)))"
    using calm_trans [OF upd] by simp
qed

lemma calm_range_path:
  assumes "\<not> early c"
  shows "calm c (snd (closing_range_path E msg rng ours c))"
  using assms calm_proposal [OF assms]
  by (simp add: closing_range_path_def try_in_def Let_def calm_finalize_and_reply calm_finalize_done calm_updates
      split: prod.split sum.split option.split)

lemma calm_legacy_path:
  assumes "\<not> early c"
  shows "calm c (snd (closing_legacy_path E msg fee c))"
  using calm_proposal [OF assms]
  by (simp add: closing_legacy_path_def try_in_def Let_def split: sum.split prod.split)

lemma calm_closing:
  "calm c (snd (maybe_send_closing_signed E fr c))" "calm c (snd (on_closing_signed E cm fr c))"
proof -
  show "calm c (snd (maybe_send_closing_signed E fr c))"
    by (auto simp: maybe_send_closing_signed_def ready_to_negotiate_close_def try_in_def calm_def session_def identity_def
        early_def split: sum.splits)
  let ?d = "c\<lparr>ch_state := NegotiatingClose\<rparr>"
  show "calm c (snd (on_closing_signed E cm fr c))"
  proof (cases "ready_to_negotiate_close c")
    case True
    then have d: "calm c ?d" by (auto simp: ready_to_negotiate_close_def calm_def session_def identity_def early_def)
    have late: "\<not> early ?d" by (simp add: early_def)
    note rest = calm_trans [OF d calm_finalize_done [OF late]] calm_trans [OF d calm_range_path [OF late]]
      calm_trans [OF d calm_legacy_path [OF late]]
    show ?thesis
      using True d rest by (simp add: on_closing_signed_def try_in_def Let_def split: sum.split option.split prod.split)
  qed (simp add: on_closing_signed_def)
qed

lemma calm_updates_sent:
  "calm c (snd (send_add_htlc a ph cltv onion src c))" "calm c (snd (send_fulfill_htlc i p c))"
  "calm c (snd (send_fail_htlc i re c))" "calm c (snd (send_fail_malformed_htlc i sha code c))"
  "calm c (snd (send_update_fee fr c))"
  by (auto simp: send_add_htlc_def send_fulfill_htlc_def send_fail_htlc_def send_fail_malformed_htlc_def send_update_fee_def
      resolve_inbound_def try_in_def Let_def calm_def session_def identity_def early_def split: sum.splits)

lemma calm_updates_received:
  "calm c (snd (on_update_add_htlc um c))" "calm c (snd (on_update_fulfill_htlc ufm c))"
  "calm c (snd (on_update_fail_htlc xm c))" "calm c (snd (on_update_fail_malformed_htlc mm c))"
  "calm c (snd (on_update_fee fem c))"
  by (auto simp: on_update_add_htlc_def on_update_fulfill_htlc_def on_update_fail_htlc_def on_update_fail_malformed_htlc_def
      on_update_fee_def resolve_outbound_def try_in_def Let_def case_prod_beta calm_def session_def identity_def early_def
      split: sum.splits)

section \<open>Every step keeps the session invariant\<close>

lemma no_htlcs_order: "cp_htlcs p = [] \<Longrightarrow> htlcs_in_output_order (build_commitment_tx p) = []"
  using order_landed(1) [of _ _ p] by (cases "htlcs_in_output_order (build_commitment_tx p)") auto

lemma opening_signed:
  assumes "build_holder_commitment_at E c n = Inr (built, keys, htlcs)"
    "verify_counterparty_funding_sig E c built sig = Inr ()" "ch_htlcs c = []"
  shows "hc_signed E c \<lparr>hc_number = n, hc_built = built, hc_counterparty_sig = sig, hc_counterparty_htlc_sigs = [],
    hc_htlcs = htlcs, hc_keys = keys, hc_feerate = fr\<rparr>"
proof -
  from holder_built [OF assms(1)] obtain cp outpoint where b: "(built, keys, htlcs) = built_from (holder_params E c n cp outpoint)" .
  let ?p = "holder_params E c n cp outpoint"
  have "cp_htlcs ?p = []" using assms(3) by (simp add: holder_params_def)
  then have "htlcs_in_output_order built = []" using b no_htlcs_order by (simp add: built_from_def)
  moreover have "tx_input (bct_tx built) \<noteq> []" using b built_input [of ?p] by (auto simp: built_from_def)
  ultimately show ?thesis using assms(2) by (simp add: hc_signed_def)
qed

lemma sess_accept: "sess E c \<Longrightarrow> sess E (snd (on_accept_channel am c))"
  by (auto simp: on_accept_channel_def sess_def early_def Let_def)

lemma sess_funding_created: "sess E c \<Longrightarrow> sess E (snd (funding_created E txid vout c))"
  by (auto simp: funding_created_def sess_def early_def try_in_def Let_def split: sum.splits)

lemma sess_confirmed: "calm c (snd (funding_confirmed E scid c))"
  by (auto simp: funding_confirmed_def maybe_become_normal_def calm_def session_def identity_def early_def Let_def)

lemma sess_channel_ready:
  assumes "sess E c"
  shows "sess E (snd (on_channel_ready cr c))"
proof -
  let ?d = "c\<lparr>ch_counterparty_next_point := Some (crd_second_per_commitment_point cr), ch_channel_ready_received := True\<rparr>"
  have "hc_signed E ?d hc = hc_signed E c hc" for hc by (rule hc_signed_identity) (simp add: identity_def)
  then have d: "sess E ?d" using assms unfolding sess_def early_def by simp
  have "calm ?d (maybe_become_normal ?d)" by (auto simp: maybe_become_normal_def calm_def session_def identity_def early_def)
  with d have "sess E (maybe_become_normal ?d)" by (rule calm_sess)
  then show ?thesis using assms by (simp add: on_channel_ready_def)
qed

lemma sess_commit:
  assumes inv: "sess E c" and hc: "ch_current_holder_commitment c' = Some hc" "hc_number hc = ch_holder_commitment_number c'"
      "hc_signed E c hc"
    and same: "identity c' = identity c" "ch_counterparty_current_point c' = ch_counterparty_current_point c"
      "ch_counterparty_next_point c' = ch_counterparty_next_point c" "ch_awaiting_raa c' = ch_awaiting_raa c"
    and state: "ch_state c \<noteq> OpenSent" "ch_state c' \<noteq> OpenSent" "early c' \<Longrightarrow> ch_htlcs c' = [] \<and> ch_holder_commitment_number c' = 0"
  shows "sess E c'"
proof -
  have keys: "ch_counterparty_pubkeys c' = ch_counterparty_pubkeys c" using same(1) by (simp add: identity_def)
  show ?thesis
    using inv state hc(2,3) unfolding sess_def same(2-4) keys hc(1) hc_signed_identity [OF same(1)] by simp
qed

lemma sess_funding_signed:
  assumes inv: "sess E c"
  shows "sess E (snd (on_funding_signed E fs c))"
proof -
  have "sess E (c\<lparr>ch_current_holder_commitment := Some hc, ch_state := AwaitingChannelReady\<rparr>)"
    if "ch_state c = FundingCreatedSent" "hc_signed E c hc" "hc_number hc = 0" for hc
    by (rule sess_commit [OF inv, of _ hc]) (use that inv in \<open>simp_all add: identity_def sess_def early_def\<close>)
  moreover have "ch_state c = FundingCreatedSent \<Longrightarrow> ch_htlcs c = []" using inv by (simp add: sess_def early_def)
  ultimately show ?thesis
    using inv opening_signed [of E c 0] by (simp add: on_funding_signed_def try_in_def split: sum.split)
qed

lemma sess_on_funding_created:
  assumes inv: "sess E c"
  shows "sess E (snd (on_funding_created E fm c))"
proof (cases "ch_state c = AcceptSent")
  case True
  let ?d = "c\<lparr>ch_funding_outpoint := Some \<lparr>op_txid = fcr_funding_txid fm, op_vout = ucast (fcr_funding_output_index fm)\<rparr>,
    ch_channel_id := channel_id_from_funding (fcr_funding_txid fm) (fcr_funding_output_index fm)\<rparr>"
  have "calm c ?d" by (simp add: calm_def session_def identity_def early_def)
  with inv have d: "sess E ?d" by (rule calm_sess)
  have none: "ch_htlcs ?d = []" "ch_holder_commitment_number ?d = 0" "ch_state ?d = AcceptSent"
    using inv True by (simp_all add: sess_def early_def)
  have e: "sess E (?d\<lparr>ch_current_holder_commitment := Some hc\<rparr>)"
      "sess E (?d\<lparr>ch_current_holder_commitment := Some hc, ch_current_counterparty_commitment := cc, ch_state := AwaitingChannelReady\<rparr>)"
    if "hc_signed E ?d hc" "hc_number hc = 0" for hc cc
    by (rule sess_commit [OF d, of _ hc]; use that none in \<open>simp add: identity_def early_def\<close>)+
  show ?thesis
    using True d e opening_signed [OF _ _ none(1)]
    by (simp add: on_funding_created_def try_in_def Let_def split: sum.split prod.split)
qed (use inv in \<open>simp add: on_funding_created_def\<close>)

lemma gc_htlcs_session [simp]:
  "session (gc_htlcs c) = session c" "ch_state (gc_htlcs c) = ch_state c"
  by (simp_all add: gc_htlcs_fold Let_def session_def identity_def)

lemma calm_lock_in: "calm c (lock_in c)"
  by (cases "ch_pending_fee_ack c") (auto simp: lock_in_def Let_def calm_def early_def, auto simp: session_def identity_def)

lemma sess_commitment_signed:
  assumes inv: "sess E c"
  shows "sess E (snd (on_commitment_signed E msg c))"
proof (cases "ch_state c = Normal \<or> ch_state c = ShuttingDown")
  case True
  define hc where "hc built keys htlcs = \<lparr>hc_number = ch_holder_commitment_number c + 1, hc_built = built,
    hc_counterparty_sig = csg_signature msg, hc_counterparty_htlc_sigs = csg_htlc_signatures msg, hc_htlcs = htlcs,
    hc_keys = keys, hc_feerate = ch_feerate_holder c\<rparr>" for built keys htlcs
  have lock: "sess E (lock_in (c\<lparr>ch_current_holder_commitment := Some hc, ch_holder_commitment_number := n\<rparr>))"
    if "hc_signed E c hc" "hc_number hc = n" for hc n
    by (rule calm_sess [OF sess_commit [OF inv, of _ hc] calm_lock_in])
      (use that True in \<open>auto simp: identity_def early_def\<close>)
  have signed: "hc_signed E c (hc built keys htlcs)"
    if "build_holder_commitment_at E c (ch_holder_commitment_number c + 1) = Inr (built, keys, htlcs)"
      "verify_counterparty_funding_sig E c built (csg_signature msg) = Inr ()"
      "length (csg_htlc_signatures msg) = length (htlcs_in_output_order built)"
      "verify_htlcs E (countersignatory_htlc_key keys) (htlc_sighash built keys htlcs (counterparty_selected_delay (ch_params c))
        (ch_feerate_holder c)) (zip (csg_htlc_signatures msg) (htlcs_in_output_order built)) = Inr ()" for built keys htlcs
  proof -
    from holder_built [OF that(1)] obtain cp outpoint where
      "(built, keys, htlcs) = built_from (holder_params E c (ch_holder_commitment_number c + 1) cp outpoint)" .
    then have "tx_input (bct_tx built) \<noteq> []" using built_input by (auto simp: built_from_def) (metis One_nat_def list.size(3) zero_neq_one)
    then show ?thesis using that(2-) by (simp add: hc_signed_def hc_def)
  qed
  show ?thesis
    using True inv lock [OF signed]
    by (simp add: on_commitment_signed_def try_in_def Let_def hc_def split: sum.split prod.split)
qed (use inv in \<open>auto simp: on_commitment_signed_def\<close>)

lemma sess_signed:
  assumes inv: "sess E c"
  shows "sess E (snd (send_commitment_signed E c))"
proof -
  from send_commitment_state [of E c] consider e where "send_commitment_signed E c = (Inl e, c)"
    | p cs where "send_commitment_signed E c = (Inr cs, signed p c)" by blast
  then show ?thesis
  proof cases
    case 1
    then show ?thesis using inv by simp
  next
    case (2 p cs)
    then have "fst (send_commitment_signed E c) = Inr cs" by simp
    then have known: "ch_counterparty_next_point c \<noteq> None" "ch_counterparty_pubkeys c \<noteq> None"
      by (auto simp: send_commitment_resign resign_commitment_def build_counterparty_eq counterparty_def rbind_Inr ok_or_def Let_def
          split: if_splits option.splits)
    have "sess E (signed p c)"
      by (rule sess_frame [OF inv]) (use known in \<open>simp_all add: signed_def session_def identity_def\<close>)
    then show ?thesis using 2 by simp
  qed
qed

lemma calm_flush_op: "calm c (snd (flush_op cell_op out c))"
  by (cases cell_op) (simp_all add: flush_op_state calm_updates_sent)

lemma calm_flush_ops: "calm c (snd (flush_ops ops out c))"
proof (induction ops arbitrary: out c)
  case (Cons cell_op ops)
  obtain r d where op1: "flush_op cell_op out c = (r, d)" by (cases "flush_op cell_op out c")
  then have "calm c d" using calm_flush_op [of c cell_op out] by simp
  then show ?case using Cons.IH calm_trans by (cases r) (simp_all add: op1)
qed simp

lemma sess_flush:
  assumes inv: "sess E c"
  shows "sess E (snd (flush_holding_cell E c))"
proof -
  let ?d = "(snd (collect_forwardable c))\<lparr>ch_holding_cell := []\<rparr>"
  obtain r e where ops: "flush_ops (ch_holding_cell c) (RaaOutcome_default\<lparr>ro_forwardable := fst (collect_forwardable c)\<rparr>) ?d = (r, e)"
    by (cases "flush_ops (ch_holding_cell c) (RaaOutcome_default\<lparr>ro_forwardable := fst (collect_forwardable c)\<rparr>) ?d")
  have "calm c ?d" by (simp add: collect_forwardable_def calm_def session_def identity_def early_def)
  moreover have "calm ?d e" using calm_flush_ops [of ?d "ch_holding_cell c"] ops by (metis snd_conv)
  ultimately have e: "sess E e" using calm_trans calm_sess [OF inv] by blast
  have "snd (flush_holding_cell E c) = e \<or> snd (flush_holding_cell E c) = snd (send_commitment_signed E e)"
    using ops by (auto simp: flush_holding_cell_def Let_def case_prod_beta collect_forwardable_def split: sum.splits prod.splits)
  then show ?thesis using e sess_signed [OF e] by auto
qed

lemma sess_apply_revocation:
  assumes inv: "sess E c" and flight: "ch_awaiting_raa c"
  shows "sess E (apply_revocation p msg (c\<lparr>ch_pending_counterparty_commitment := None, ch_counterparty_secrets := st\<rparr>))"
proof -
  let ?c = "c\<lparr>ch_pending_counterparty_commitment := None, ch_counterparty_secrets := st\<rparr>"
  let ?d = "c\<lparr>ch_counterparty_current_point := ch_counterparty_next_point c, ch_counterparty_next_point := Some (raa_next_per_commitment_point msg),
    ch_awaiting_raa := False, ch_counterparty_secrets := st,
    ch_counterparty_commitment_number := ch_counterparty_commitment_number c + 1\<rparr>"
  have "hc_signed E ?d hc = hc_signed E c hc" for hc by (rule hc_signed_identity) (simp add: identity_def)
  then have d: "sess E ?d" using inv flight unfolding sess_def early_def by simp
  have "calm ?d (apply_revocation p msg ?c)"
  proof -
    have "ch_htlcs (apply_revocation p msg ?c) = []" if "ch_htlcs c = []"
    proof -
      obtain d where rev: "apply_revocation p msg ?c = gc_htlcs d"
        and hs: "ch_htlcs d = foldl lock_removed (foldl lock_included (ch_htlcs ?c) (pc_included p)) (pc_removed p)"
        using apply_revocation_gc [of p msg ?c] by blast
      have "length (ch_htlcs d) = 0" using hs that by simp
      then show ?thesis by (simp add: rev)
    qed
    moreover have "session (apply_revocation p msg ?c) = session ?d" "ch_state (apply_revocation p msg ?c) = ch_state c"
      "\<not> ch_awaiting_raa (apply_revocation p msg ?c)"
      by (simp_all add: apply_revocation_def Let_def session_def identity_def gc_htlcs_fold split: option.split)
    ultimately show ?thesis by (simp add: calm_def early_def)
  qed
  with d show ?thesis by (rule calm_sess)
qed

lemma sess_revoke:
  assumes inv: "sess E c" and live: "fst (on_revoke_and_ack E msg c) \<noteq> Inl Panicked"
  shows "sess E (snd (on_revoke_and_ack E msg c))"
  using inv live sess_flush [OF sess_apply_revocation [OF inv]]
  by (auto simp: on_revoke_and_ack_def Let_def close_err_def split: option.splits sum.splits if_splits)

lemma sess_step:
  assumes step: "channel_step E c c'" and inv: "sess E c"
  shows "sess E c'"
  using step
proof cases
  case (recv_revocation rm)
  then show ?thesis using sess_revoke [OF inv] by simp
qed (simp_all add: inv sess_accept sess_funding_created sess_on_funding_created sess_funding_signed
    calm_sess [OF inv sess_confirmed] sess_channel_ready sess_signed sess_commitment_signed
    calm_sess [OF inv calm_on_shutdown] calm_sess [OF inv calm_send_shutdown [OF prod.collapse [symmetric]]]
    calm_closing [THEN calm_sess [OF inv]] calm_updates_sent [THEN calm_sess [OF inv]] calm_updates_received [THEN calm_sess [OF inv]])

lemma reachable_sess: "reachable E c \<Longrightarrow> sess E c"
proof (induction rule: reachable.induct)
  case (opened signer config network tid funding push fr c om)
  then show ?case
    by (auto simp: new_outbound_def Let_def rbind_def fresh_channel_def sess_def early_def split: if_splits sum.splits)
next
  case (accepted signer config network om c am)
  then show ?case
    by (auto simp: new_inbound_def Let_def rbind_def close_err_def fresh_channel_def sess_def early_def split: if_splits sum.splits)
next
  case (step c c')
  then show ?case using sess_step by blast
qed

end
