(* ===== verification/Channel_History.thy ===== *)
theory Channel_History
  imports Channel_Auth
begin

text \<open>
  The revocation history of a channel, kept in step with its store of secrets, and the absence of
  panics.
\<close>

section \<open>Revocation history\<close>

definition revocations where
  "revocations c = (ch_counterparty_secrets c, ch_counterparty_commitment_number c)"

definition reveals :: "EC \<Rightarrow> Channel \<Rightarrow> bytes \<Rightarrow> Channel \<Rightarrow> bool" where
  "reveals E c s c' \<longleftrightarrow>
     ch_counterparty_current_point c = Some (per_commitment_point_of E s)
   \<and> store_insert (ch_counterparty_secrets c) (index_for_commitment (ch_counterparty_commitment_number c)) s
       = Inr (ch_counterparty_secrets c')
   \<and> ch_counterparty_commitment_number c' = ch_counterparty_commitment_number c + 1"

definition keeps_revocations :: "Channel \<Rightarrow> Channel \<Rightarrow> bool" where
  "keeps_revocations c c' \<longleftrightarrow> revocations c' = revocations c
     \<and> (ch_state c \<noteq> OpenSent \<longrightarrow> ch_counterparty_current_point c' = ch_counterparty_current_point c)"

lemma calm_revocations: "calm c c' \<Longrightarrow> keeps_revocations c c'"
  by (simp add: calm_def session_def keeps_revocations_def revocations_def)

lemma opening_revocations:
  "keeps_revocations c (snd (on_accept_channel am c))" "keeps_revocations c (snd (funding_created E txid vout c))"
  "keeps_revocations c (snd (on_funding_created E fm c))" "keeps_revocations c (snd (on_funding_signed E fs c))"
  "keeps_revocations c (snd (on_channel_ready cr c))"
  by (auto simp: on_accept_channel_def funding_created_def on_funding_created_def on_funding_signed_def on_channel_ready_def
      maybe_become_normal_def keeps_revocations_def revocations_def try_in_def Let_def split: sum.splits)

lemma session_signed: "session (snd (send_commitment_signed E c)) = session c"
  using send_commitment_state [of E c] by (auto simp: signed_def session_def identity_def)

lemma session_revocations: "session c' = session c \<Longrightarrow> keeps_revocations c c'"
  by (simp add: session_def keeps_revocations_def revocations_def)

lemma session_flush: "session (snd (flush_holding_cell E c)) = session c"
proof -
  let ?d = "(snd (collect_forwardable c))\<lparr>ch_holding_cell := []\<rparr>"
  obtain r e where ops: "flush_ops (ch_holding_cell c) (RaaOutcome_default\<lparr>ro_forwardable := fst (collect_forwardable c)\<rparr>) ?d = (r, e)"
    by (cases "flush_ops (ch_holding_cell c) (RaaOutcome_default\<lparr>ro_forwardable := fst (collect_forwardable c)\<rparr>) ?d")
  have "session ?d = session c" by (simp add: collect_forwardable_def session_def identity_def)
  moreover have "session e = session ?d"
    using calm_flush_ops [of ?d "ch_holding_cell c" "RaaOutcome_default\<lparr>ro_forwardable := fst (collect_forwardable c)\<rparr>"]
    by (simp only: ops calm_def snd_conv)
  moreover have "snd (flush_holding_cell E c) = e \<or> snd (flush_holding_cell E c) = snd (send_commitment_signed E e)"
    using ops by (auto simp: flush_holding_cell_def Let_def case_prod_beta collect_forwardable_def split: sum.splits prod.splits)
  ultimately show ?thesis using session_signed [of E e] by auto
qed

lemma commitment_signed_revocations: "keeps_revocations c (snd (on_commitment_signed E msg c))"
proof -
  have "keeps_revocations c (lock_in (c\<lparr>ch_current_holder_commitment := hc, ch_holder_commitment_number := n\<rparr>))" for hc n
    using calm_revocations [OF calm_lock_in, of "c\<lparr>ch_current_holder_commitment := hc, ch_holder_commitment_number := n\<rparr>"]
    by (simp add: keeps_revocations_def revocations_def)
  moreover have "keeps_revocations c c" by (simp add: keeps_revocations_def)
  ultimately show ?thesis by (simp add: on_commitment_signed_def try_in_def Let_def split: sum.split prod.split)
qed

lemma revoke_revocations:
  assumes live: "fst (on_revoke_and_ack E msg c) \<noteq> Inl Panicked"
  shows "keeps_revocations c (snd (on_revoke_and_ack E msg c))
    \<or> reveals E c (raa_per_commitment_secret msg) (snd (on_revoke_and_ack E msg c))"
proof -
  have refl: "keeps_revocations c c" by (simp add: keeps_revocations_def)
  have app: "ch_counterparty_secrets d = st \<and> ch_counterparty_commitment_number d = ch_counterparty_commitment_number c + 1"
    if "session d = session (apply_revocation p msg (c\<lparr>ch_pending_counterparty_commitment := None, ch_counterparty_secrets := st\<rparr>))"
    for d p st
    using that by (simp add: apply_revocation_def Let_def session_def gc_htlcs_fold split: option.splits)
  show ?thesis
    using live refl app [OF session_flush]
    by (auto simp: on_revoke_and_ack_def Let_def close_err_def reveals_def split: option.splits sum.splits if_splits)
qed

lemma step_revocations:
  assumes "channel_step E c c'"
  shows "keeps_revocations c c' \<or> (\<exists>s. reveals E c s c')"
  using assms
proof cases
  case (recv_revocation rm)
  then show ?thesis using revoke_revocations by blast
qed (simp_all add: opening_revocations commitment_signed_revocations session_revocations [OF session_signed]
    calm_updates_sent [THEN calm_revocations] calm_updates_received [THEN calm_revocations] calm_closing [THEN calm_revocations]
    calm_on_shutdown [THEN calm_revocations] sess_confirmed [THEN calm_revocations]
    calm_send_shutdown [OF prod.collapse [symmetric], THEN calm_revocations])

lemma state_sign: "ch_state (snd (send_commitment_signed E c)) = ch_state c"
  using send_commitment_state [of E c] by (auto simp: signed_def)

lemma state_commit: "ch_state (snd (on_commitment_signed E csm c)) = ch_state c"
proof -
  have "ch_state (lock_in d) = ch_state d" for d
    by (cases "ch_pending_fee_ack d") (auto simp: lock_in_def Let_def)
  then show ?thesis by (simp add: on_commitment_signed_def try_in_def Let_def split: sum.split prod.split)
qed

lemma state_revoke: "ch_state (snd (on_revoke_and_ack E rm c)) = ch_state c"
proof -
  have op_state: "ch_state (snd (flush_op cell_op out d)) = ch_state d" for cell_op out d
    by (cases cell_op) (auto simp: flush_op_state send_add_htlc_def send_fulfill_htlc_def send_fail_htlc_def send_fail_malformed_htlc_def
        resolve_inbound_def try_in_def Let_def split: sum.splits)
  have ops_state: "ch_state (snd (flush_ops ops out d)) = ch_state d" for ops out d
    using op_state by (induction ops arbitrary: out d) (auto split: prod.splits sum.splits, metis snd_conv, metis snd_conv)
  have flush: "ch_state (snd (flush_holding_cell E d)) = ch_state d" for d
    using ops_state [of "ch_holding_cell d" "RaaOutcome_default\<lparr>ro_forwardable := fst (collect_forwardable d)\<rparr>"
        "(snd (collect_forwardable d))\<lparr>ch_holding_cell := []\<rparr>"] state_sign
    by (auto simp: flush_holding_cell_def Let_def case_prod_beta collect_forwardable_def split: sum.splits prod.splits)
  have app: "ch_state (apply_revocation p msg d) = ch_state d" for p msg d
    by (simp add: apply_revocation_def Let_def split: option.split)
  show ?thesis by (auto simp: on_revoke_and_ack_def Let_def flush app split: option.split sum.split)
qed

lemma step_opened:
  assumes "channel_step E c c'" "ch_state c \<noteq> OpenSent"
  shows "ch_state c' \<noteq> OpenSent"
proof -
  have calm: "ch_state d \<noteq> OpenSent" if "calm c d" for d using that assms(2) by (auto simp: calm_def early_def)
  have handshake: "ch_state (snd (on_accept_channel am c)) \<noteq> OpenSent" "ch_state (snd (funding_created E txid vout c)) \<noteq> OpenSent"
    "ch_state (snd (on_funding_created E fm c)) \<noteq> OpenSent" "ch_state (snd (on_funding_signed E fs c)) \<noteq> OpenSent"
    "ch_state (snd (on_channel_ready cr c)) \<noteq> OpenSent" for am txid vout fm fs cr
    using assms(2) by (auto simp: on_accept_channel_def funding_created_def on_funding_created_def on_funding_signed_def
        on_channel_ready_def maybe_become_normal_def try_in_def Let_def split: sum.splits)
  show ?thesis using assms(1)
    by cases (simp_all add: handshake state_sign state_commit state_revoke assms(2) calm sess_confirmed calm_updates_sent calm_updates_received
        calm_closing calm_on_shutdown calm_send_shutdown [OF prod.collapse [symmetric]])
qed

text \<open>The secrets a channel has received so far, in the order of the commitments they revoke, are
  those its store holds.
\<close>

definition steps :: "EC \<Rightarrow> Channel \<Rightarrow> Channel \<Rightarrow> bool" where
  "steps E = (\<lambda>c c'. in_range c \<and> channel_step E c c')\<^sup>*\<^sup>*"

definition on_file :: "Channel \<Rightarrow> bytes list \<Rightarrow> bool" where
  "on_file c ss \<longleftrightarrow> store_ok ss (ch_counterparty_secrets c) \<and> length ss = unat (ch_counterparty_commitment_number c)"

lemma on_file_reveal:
  assumes ss: "on_file c ss" and rng: "in_range c" and rev: "reveals E c s c'"
  shows "on_file c' (ss @ [s])"
proof -
  have n: "length ss + 1 < 2 ^ 48" using ss rng by (simp add: on_file_def in_range_def)
  have num: "of_nat (length ss) = ch_counterparty_commitment_number c" using ss by (simp add: on_file_def)
  have "store_ok (ss @ [s]) (ch_counterparty_secrets c')"
    using insert_refines [of ss "ch_counterparty_secrets c" s] ss rev n by (simp add: on_file_def reveals_def num)
  moreover have "unat (ch_counterparty_commitment_number c + 1) = length ss + 1"
    using ss n by (simp add: on_file_def unat_word_ariths)
  ultimately show ?thesis using rev by (simp add: on_file_def reveals_def)
qed

lemma reachable_on_file: "reachable E c \<Longrightarrow> \<exists>ss. on_file c ss"
proof (induction rule: reachable.induct)
  case (opened signer config network tid funding push fr c om)
  then have "on_file c []" using store_new_ok
    by (auto simp: new_outbound_def Let_def rbind_def fresh_channel_def on_file_def split: if_splits sum.splits)
  then show ?case ..
next
  case (accepted signer config network om c am)
  then have "on_file c []" using store_new_ok
    by (auto simp: new_inbound_def Let_def rbind_def close_err_def fresh_channel_def on_file_def split: if_splits sum.splits)
  then show ?case ..
next
  case (step c c')
  then obtain ss where ss: "on_file c ss" by blast
  from step_revocations [OF step(3)] show ?case
  proof
    assume "keeps_revocations c c'"
    then show ?thesis using ss by (auto simp: keeps_revocations_def revocations_def on_file_def)
  next
    assume "\<exists>s. reveals E c s c'"
    then show ?thesis using on_file_reveal [OF ss step(2)] by blast
  qed
qed

definition revoked_or_current :: "EC \<Rightarrow> nat \<Rightarrow> PublicKey \<Rightarrow> Channel \<Rightarrow> bool" where
  "revoked_or_current E n point c \<longleftrightarrow> ch_state c \<noteq> OpenSent \<and>
     (\<exists>ss. on_file c ss \<and> (length ss = n \<and> ch_counterparty_current_point c = Some point
        \<or> n < length ss \<and> per_commitment_point_of E (ss ! n) = point))"

lemma revoked_or_current_step:
  assumes inv: "revoked_or_current E n point c" and rng: "in_range c" and step: "channel_step E c c'"
  shows "revoked_or_current E n point c'"
proof -
  from inv obtain ss where st: "ch_state c \<noteq> OpenSent" and ss: "on_file c ss"
    and alt: "length ss = n \<and> ch_counterparty_current_point c = Some point \<or> n < length ss \<and> per_commitment_point_of E (ss ! n) = point"
    by (auto simp: revoked_or_current_def)
  have st': "ch_state c' \<noteq> OpenSent" using step_opened [OF step st] .
  from step_revocations [OF step] show ?thesis
  proof
    assume keep: "keeps_revocations c c'"
    then have "on_file c' ss" using ss by (simp add: keeps_revocations_def revocations_def on_file_def)
    then show ?thesis using alt st st' keep by (auto simp: revoked_or_current_def keeps_revocations_def)
  next
    assume "\<exists>s. reveals E c s c'"
    then obtain s where s: "reveals E c s c'" ..
    have "on_file c' (ss @ [s])" using on_file_reveal [OF ss rng s] .
    moreover have "per_commitment_point_of E ((ss @ [s]) ! n) = point" "n < length (ss @ [s])"
      using alt s by (auto simp: reveals_def nth_append)
    ultimately show ?thesis using st' by (auto simp: revoked_or_current_def)
  qed
qed

lemma revoked_or_current_steps: "steps E c c' \<Longrightarrow> revoked_or_current E n point c \<Longrightarrow> revoked_or_current E n point c'"
  unfolding steps_def by (induction rule: rtranclp_induct) (auto intro: revoked_or_current_step)

section \<open>Panics\<close>

lemma inbound_mut_error: "inbound_committed_mut c i = Inl e \<Longrightarrow> \<exists>m. e = InvalidState m"
  by (auto simp: inbound_committed_mut_def rbind_def ok_or_def Let_def split: option.splits if_splits)

lemma validate_error: "validate_outbound_add c a cltv = Inl e \<Longrightarrow> \<exists>m. e = Ignore m"
  by (auto simp: validate_outbound_add_def Let_def case_prod_beta split: if_splits)

text \<open>A flush swallows every error an operation can meet, so it always delivers an outcome.\<close>

lemma flush_op_succeeds: "\<not> ch_awaiting_raa c \<Longrightarrow> \<exists>out'. fst (flush_op cell_op out c) = Inr out'"
  by (cases cell_op)
    (auto simp: flush_op_def send_add_htlc_def send_fulfill_htlc_def send_fail_htlc_def send_fail_malformed_htlc_def try_in_def
      Let_def split: sum.splits dest!: inbound_mut_error validate_error)

lemma flush_ops_succeeds: "\<not> ch_awaiting_raa c \<Longrightarrow> \<exists>out'. fst (flush_ops ops out c) = Inr out'"
proof (induction ops arbitrary: out c)
  case (Cons cell_op ops)
  obtain out' where out: "fst (flush_op cell_op out c) = Inr out'" using flush_op_succeeds [OF Cons.prems] by blast
  then obtain d where d: "flush_op cell_op out c = (Inr out', d)" by (cases "flush_op cell_op out c") auto
  then have "\<not> ch_awaiting_raa d" using calm_flush_op [of c cell_op out] Cons.prems by (simp add: calm_def)
  then show ?case using Cons.IH d by simp
qed simp

lemma flush_no_panic: "\<not> ch_awaiting_raa c \<Longrightarrow> fst (flush_holding_cell E c) \<noteq> Inl Panicked"
proof -
  assume idle: "\<not> ch_awaiting_raa c"
  let ?d = "(snd (collect_forwardable c))\<lparr>ch_holding_cell := []\<rparr>"
  have "\<not> ch_awaiting_raa ?d" using idle by (simp add: collect_forwardable_def)
  from flush_ops_succeeds [OF this] obtain out e where
    ops: "flush_ops (ch_holding_cell c) (RaaOutcome_default\<lparr>ro_forwardable := fst (collect_forwardable c)\<rparr>) ?d = (Inr out, e)"
    by (metis prod.collapse)
  show ?thesis
    using ops send_commitment_no_panic [of E e]
    by (auto simp: flush_holding_cell_def Let_def case_prod_beta collect_forwardable_def split: sum.splits prod.splits)
qed

lemma verify_htlcs_no_panic:
  "(\<And>e. e \<in> snd ` set es \<Longrightarrow> \<exists>d. digest e = Inr d) \<Longrightarrow> verify_htlcs E key digest es \<noteq> Inl Panicked"
proof (induction es)
  case (Cons e es)
  have "snd e \<in> snd ` set (e # es)" by simp
  from Cons.prems [OF this] obtain d where "digest (snd e) = Inr d" ..
  then show ?case using Cons by (simp add: rbind_def)
qed simp

lemma commitment_signed_no_panic: "fst (on_commitment_signed E msg c) \<noteq> Inl Panicked"
proof -
  let ?n = "ch_holder_commitment_number c + 1"
  have build: "build_holder_commitment_at E c ?n \<noteq> Inl Panicked"
    by (auto simp: build_holder_eq rbind_def counterparty_def ok_or_def split: option.splits)
  have "verify_counterparty_funding_sig E c built sig \<noteq> Inl Panicked"
    and "verify_htlcs E key (htlc_sighash built keys htlcs delay fr) (zip sigs (htlcs_in_output_order built)) \<noteq> Inl Panicked"
    if "build_holder_commitment_at E c ?n = Inr (built, keys, htlcs)" for built keys htlcs sig key delay fr sigs
  proof -
    from holder_built [OF that] obtain cp outpoint where b: "(built, keys, htlcs) = built_from (holder_params E c ?n cp outpoint)"
      and cp: "counterparty c = Inr cp" .
    let ?p = "holder_params E c ?n cp outpoint"
    have built: "built = build_commitment_tx ?p" "htlcs = cp_htlcs ?p" using b by (simp_all add: built_from_def)
    have "tx_input (bct_tx built) \<noteq> []" using built_input [of ?p] by (auto simp: built(1))
    from funding_sighash_defined [OF cp this] show "verify_counterparty_funding_sig E c built sig \<noteq> Inl Panicked"
      using cp by (auto simp: verify_counterparty_funding_sig_def rbind_def split: if_splits)
    have "\<exists>d. htlc_sighash built keys htlcs delay fr e = Inr d" if "e \<in> set (htlcs_in_output_order built)" for e
      using that htlc_sighash_defined [of "fst e" "snd e" ?p keys] unfolding built by simp
    then show "verify_htlcs E key (htlc_sighash built keys htlcs delay fr) (zip sigs (htlcs_in_output_order built)) \<noteq> Inl Panicked"
      by (intro verify_htlcs_no_panic) (auto dest: set_zip_rightD)
  qed
  then show ?thesis
    using build by (auto simp: on_commitment_signed_def try_in_def close_err_def Let_def split: sum.splits)
qed

lemma resolve_no_panic:
  assumes inv: "chan_inv c" and k: "outbound_committed_mut c i = Inr k"
  shows "fst (resolve_outbound k r c) \<noteq> Inl Panicked"
proof -
  have "k < length (ch_htlcs c)" "hx_outbound (ch_htlcs c ! k)"
    using k htlc_index_Some
    by (fastforce simp: outbound_committed_mut_def ok_or_def Let_def rbind_def split: option.splits if_splits sum.splits)+
  moreover from this have "phase_ok (ch_htlcs c ! k)" using chan_invD(2) [OF inv] by (simp add: list_all_length)
  ultimately show ?thesis
    by (auto simp: resolve_outbound_def phase_ok_def try_in_def expect_def ok_or_def Let_def split: option.splits)
qed

lemma removal_no_panic:
  assumes inv: "chan_inv c"
  shows "fst (on_update_fulfill_htlc fm c) \<noteq> Inl Panicked" "fst (on_update_fail_htlc xm c) \<noteq> Inl Panicked"
    "fst (on_update_fail_malformed_htlc mm c) \<noteq> Inl Panicked"
proof -
  have idx: "outbound_committed_mut c i \<noteq> Inl Panicked" for i
    by (auto simp: outbound_committed_mut_def rbind_def ok_or_def Let_def split: option.splits)
  show "fst (on_update_fulfill_htlc fm c) \<noteq> Inl Panicked" "fst (on_update_fail_htlc xm c) \<noteq> Inl Panicked"
    "fst (on_update_fail_malformed_htlc mm c) \<noteq> Inl Panicked"
    using idx resolve_no_panic [OF inv]
    by (auto simp: on_update_fulfill_htlc_def on_update_fail_htlc_def on_update_fail_malformed_htlc_def try_in_def close_err_def
        split: sum.splits)
qed

lemma revoke_panics:
  assumes inv: "chan_inv c" and ses: "sess E c"
  shows "fst (on_revoke_and_ack E msg c) = Inl Panicked
    \<longleftrightarrow> ch_awaiting_raa c \<and> \<not> seckey_from_slice_ok E (raa_per_commitment_secret msg)"
proof (cases "ch_awaiting_raa c")
  case True
  obtain p where p: "ch_pending_counterparty_commitment c = Some p" using chan_invD(5) [OF inv] True by auto
  obtain point where point: "ch_counterparty_current_point c = Some point" using ses True by (auto simp: sess_def)
  have "fst (flush_holding_cell E (apply_revocation p msg c0)) \<noteq> Inl Panicked" for c0
    by (rule flush_no_panic) (simp add: apply_revocation_def Let_def split: option.split)
  then show ?thesis
    using True p point by (auto simp: on_revoke_and_ack_def close_err_def Let_def split: sum.splits)
qed (simp add: on_revoke_and_ack_def close_err_def)

lemma reestablish_no_panic:
  assumes inv: "chan_inv c"
  shows "on_channel_reestablish E msg c \<noteq> Inl Panicked"
proof -
  have "retransmit_commitment E c \<noteq> Inl Panicked" if "ch_awaiting_raa c"
    using that chan_invD(5) [OF inv] resign_no_panic [of E c]
    by (auto simp: retransmit_commitment_def rbind_def expect_def ok_or_def split: sum.splits)
  then have "reestablish_commitments E msg msgs c \<noteq> Inl Panicked" for msgs
    by (auto simp: reestablish_commitments_def close_err_def rbind_def Let_def split: sum.splits)
  then have "rbind (check_last_secret msg c) (\<lambda>_. reestablish_commitments E msg msgs c) \<noteq> Inl Panicked" for msgs
    by (simp add: check_last_secret_def close_err_def rbind_def)
  then show ?thesis by (simp add: on_channel_reestablish_def close_err_def Let_def)
qed

lemma revoked_secret:
  assumes "reachable E c" and "ch_state c \<noteq> OpenSent" and "ch_counterparty_current_point c = Some point"
    and "steps E c c'" and "ch_counterparty_commitment_number c' \<noteq> ch_counterparty_commitment_number c"
  obtains s where "secret_for (ch_counterparty_secrets c') (index_for_commitment (ch_counterparty_commitment_number c)) = Some s"
    "per_commitment_point_of E s = point" "unat (ch_counterparty_commitment_number c) < 2 ^ 48"
proof -
  let ?n = "unat (ch_counterparty_commitment_number c)"
  from reachable_on_file [OF assms(1)] obtain ss where "on_file c ss" ..
  then have "revoked_or_current E ?n point c" using assms(2,3) by (auto simp: revoked_or_current_def on_file_def)
  from revoked_or_current_steps [OF assms(4) this] obtain ss where ss: "on_file c' ss"
    and alt: "length ss = ?n \<and> ch_counterparty_current_point c' = Some point
      \<or> ?n < length ss \<and> per_commitment_point_of E (ss ! ?n) = point"
    by (auto simp: revoked_or_current_def)
  have "length ss \<noteq> ?n" using ss assms(5) by (auto simp: on_file_def word_unat_eq_iff)
  then have n: "?n < length ss" "per_commitment_point_of E (ss ! ?n) = point" using alt by auto
  have ok: "store_ok ss (ch_counterparty_secrets c')" using ss by (simp add: on_file_def)
  then have "length ss \<le> 2 ^ 48" by (simp add: store_ok_def)
  with n(1) have "?n < 2 ^ 48" by linarith
  with store_ok_lookup [OF ok this] n show ?thesis using that by simp
qed

end
