(* ===== verification/Channel_Sample.thy ===== *)
theory Channel_Sample
  imports Channel_History
begin

text \<open>
  A concrete channel taken through the whole opening handshake and one payment, at which the
  properties of reachable channels are evaluated.
\<close>

definition sample_signer :: InMemoryChannelSigner where
  "sample_signer = signer_new toy_ec [1] [2] [3] [4] [5] (replicate 32 7)"

definition sample_config :: ChannelConfig where
  "sample_config = ChannelConfig_default\<lparr>cf_reserve_ppm := 0\<rparr>"

definition sample_open :: Channel where
  "sample_open = fresh_channel sample_signer Opener OpenSent sample_config
     (outbound_params sample_config 546 0) (replicate 32 9) 100000 0 None 0 253 True (100000 * 1000 - 0) 0 None"

definition sample_accept :: AcceptChannel where
  "sample_accept = \<lparr>ac_temporary_channel_id = replicate 32 9, ac_dust_limit_satoshis = 546,
     ac_max_htlc_value_in_flight_msat = 90000000, ac_channel_reserve_satoshis = 546, ac_htlc_minimum_msat = 1,
     ac_minimum_depth = 3, ac_to_self_delay = 144, ac_max_accepted_htlcs = 50,
     ac_basepoints = \<lparr>bp_funding_pubkey = [11], bp_revocation = [12], bp_payment = [13], bp_delayed_payment = [14], bp_htlc = [15]\<rparr>,
     ac_first_per_commitment_point = [16], ac_upfront_shutdown_script = None, ac_channel_type = None\<rparr>"

lemma sample_open_new:
  "\<exists>om. new_outbound toy_ec sample_signer sample_config Regtest (replicate 32 9) 100000 0 253 = Inr (sample_open, om)"
proof -
  have "reserve_for sample_config 100000 = 546" "max_in_flight_for sample_config 100000 = 0"
    by (simp_all add: reserve_for_def max_in_flight_for_def sample_config_def ChannelConfig_default_def)
  moreover obtain ch where "network_chain_hash Regtest = Inr ch"
  proof -
    have "\<not> isl (network_chain_hash Regtest)" by code_simp
    then show ?thesis using that by (cases "network_chain_hash Regtest") simp_all
  qed
  ultimately show ?thesis
    by (simp add: new_outbound_def Let_def rbind_def sample_open_def sample_config_def ChannelConfig_default_def)
qed

text \<open>The channel after each step of the handshake.\<close>

definition sample_accepted :: Channel where "sample_accepted = snd (on_accept_channel sample_accept sample_open)"
definition sample_created :: Channel where "sample_created = snd (funding_created toy_ec (replicate 32 8) 0 sample_accepted)"
definition sample_signed :: Channel where
  "sample_signed = snd (on_funding_signed toy_ec
     \<lparr>fsg_channel_id = ch_channel_id sample_created,
      fsg_signature = projr (rbind (build_holder_commitment_at toy_ec sample_created 0) (\<lambda>(built, _).
        funding_sighash sample_created (bct_tx built))) @ [11]\<rparr> sample_created)"
definition sample_ready :: Channel where
  "sample_ready = snd (on_channel_ready \<lparr>crd_channel_id = ch_channel_id sample_signed, crd_second_per_commitment_point = [17],
     crd_short_channel_id_alias = None\<rparr> (snd (funding_confirmed toy_ec 0 sample_signed)))"
definition sample_paying :: Channel where
  "sample_paying = snd (send_add_htlc 20000000 (replicate 32 5) 600 [] (Outbound (replicate 32 1)) sample_ready)"

lemma sample_accepted_fields:
  "ch_state sample_accepted = OpenSent" "ch_role sample_accepted = Opener" "ch_htlcs sample_accepted = []"
  "ch_counterparty_pubkeys sample_accepted = Some (pubkeys_from_msg (ac_basepoints sample_accept))"
  "ch_counterparty_current_point sample_accepted = Some [16]"
  "ch_to_holder_msat sample_accepted = 100000000" "ch_to_counterparty_msat sample_accepted = 0"
  "ch_awaiting_raa sample_accepted = False" "ch_holding_cell sample_accepted = []"
  "ch_counterparty_commitment_number sample_accepted = 0" "ch_holder_commitment_number sample_accepted = 0"
  "ch_next_holder_htlc_id sample_accepted = 0" "ch_next_counterparty_htlc_id sample_accepted = 0"
  "counterparty_htlc_minimum_msat (ch_params sample_accepted) = 1"
  "counterparty_max_accepted_htlcs (ch_params sample_accepted) = 50"
  "counterparty_max_htlc_value_in_flight_msat (ch_params sample_accepted) = 90000000"
  "counterparty_selected_reserve_sat (ch_params sample_accepted) = 546" "holder_selected_reserve_sat (ch_params sample_accepted) = 546"
  "ch_feerate_counterparty sample_accepted = 253" "ch_funding_amount_sat sample_accepted = 100000"
  "ch_shutdown_sent sample_accepted = False" "ch_shutdown_received sample_accepted = False"
  "ch_channel_ready_sent sample_accepted = False" "ch_current_holder_commitment sample_accepted = None"
  "ch_counterparty_dirty sample_accepted = False" "ch_last_closing_fee_proposal sample_accepted = None"
  "ch_counterparty_secrets sample_accepted = store_new" "holder_dust_limit_sat (ch_params sample_accepted) = 546"
  by (simp_all add: sample_accepted_def on_accept_channel_def sample_open_def sample_accept_def fresh_channel_def outbound_params_def
      MAX_HTLCS_PER_SIDE_def sample_config_def ChannelConfig_default_def Let_def)


lemma sample_counterparty: "counterparty sample_accepted = Inr (pubkeys_from_msg (ac_basepoints sample_accept))"
  by (simp add: counterparty_def ok_or_def sample_accepted_fields)

lemma sample_created_eq:
  "\<exists>cc ci outpoint. sample_created = sample_accepted\<lparr>ch_funding_outpoint := Some outpoint, ch_channel_id := ci,
     ch_current_counterparty_commitment := Some cc, ch_state := FundingCreatedSent\<rparr>"
proof -
  let ?op = "\<lparr>op_txid = replicate 32 8, op_vout = ucast (0 :: u16)\<rparr>"
  let ?d = "sample_accepted\<lparr>ch_funding_outpoint := Some ?op, ch_channel_id := channel_id_from_funding (replicate 32 8) 0\<rparr>"
  have cp: "counterparty ?d = Inr (pubkeys_from_msg (ac_basepoints sample_accept))"
    using sample_counterparty by (simp add: counterparty_def)
  let ?p = "counterparty_params toy_ec ?d 0 [16] (pubkeys_from_msg (ac_basepoints sample_accept)) ?op"
  have build: "build_counterparty_commitment_at toy_ec ?d 0 [16] = Inr (built_from ?p)"
    using cp by (simp add: build_counterparty_eq rbind_def ok_or_def)
  obtain sig where "sign_counterparty_commitment_tx toy_ec ?d (build_commitment_tx ?p) = Inr sig" using signing_defined(1) [OF cp] by blast
  then show ?thesis
    using build by (simp add: sample_created_def funding_created_def sample_accepted_fields Let_def try_in_def expect_def ok_or_def
        built_from_def) blast
qed

lemma sample_signed_eq:
  "\<exists>hc cc ci outpoint. sample_signed = sample_accepted\<lparr>ch_funding_outpoint := Some outpoint, ch_channel_id := ci,
     ch_current_counterparty_commitment := Some cc, ch_current_holder_commitment := Some hc, ch_state := AwaitingChannelReady\<rparr>"
proof -
  obtain cc ci outpoint where eq: "sample_created = sample_accepted\<lparr>ch_funding_outpoint := Some outpoint, ch_channel_id := ci,
     ch_current_counterparty_commitment := Some cc, ch_state := FundingCreatedSent\<rparr>" using sample_created_eq by blast
  let ?cp = "pubkeys_from_msg (ac_basepoints sample_accept)"
  let ?p = "holder_params toy_ec sample_created 0 ?cp outpoint"
  have cp: "counterparty sample_created = Inr ?cp" using sample_counterparty by (simp add: counterparty_def eq)
  have build: "build_holder_commitment_at toy_ec sample_created 0 = Inr (built_from ?p)"
    using cp by (simp add: build_holder_eq rbind_def ok_or_def) (simp add: eq)
  have "tx_input (bct_tx (build_commitment_tx ?p)) \<noteq> []" using built_input [of ?p] by auto
  from funding_sighash_defined [OF cp this] obtain d where d: "funding_sighash sample_created (bct_tx (build_commitment_tx ?p)) = Inr d" ..
  have ver: "verify_counterparty_funding_sig toy_ec sample_created (build_commitment_tx ?p) (d @ [11]) = Inr ()"
    using cp d by (simp add: verify_counterparty_funding_sig_def rbind_def toy_ec_def pubkeys_from_msg_def sample_accept_def)
  have st: "ch_state sample_created = FundingCreatedSent" by (simp add: eq)
  have "\<exists>hc. sample_signed = sample_created\<lparr>ch_current_holder_commitment := Some hc, ch_state := AwaitingChannelReady\<rparr>"
    unfolding sample_signed_def on_funding_signed_def try_in_def build d
    by (simp add: st ver d built_from_def rbind_def) (rule exI, rule refl)
  then obtain hc where "sample_signed = sample_created\<lparr>ch_current_holder_commitment := Some hc, ch_state := AwaitingChannelReady\<rparr>" ..
  then have "sample_signed = sample_accepted\<lparr>ch_funding_outpoint := Some outpoint, ch_channel_id := ci,
     ch_current_counterparty_commitment := Some cc, ch_current_holder_commitment := Some hc, ch_state := AwaitingChannelReady\<rparr>"
    by (simp add: eq)
  then show ?thesis by blast
qed


lemma sample_ready_eq:
  "\<exists>hc cc ci outpoint. sample_ready = sample_accepted\<lparr>ch_funding_outpoint := Some outpoint, ch_channel_id := ci,
     ch_current_counterparty_commitment := Some cc, ch_current_holder_commitment := Some hc, ch_state := Normal,
     ch_short_channel_id := Some 0, ch_funding_confirmed := True, ch_channel_ready_sent := True,
     ch_counterparty_next_point := Some [17], ch_channel_ready_received := True\<rparr>"
proof -
  obtain hc cc ci outpoint where eq: "sample_signed = sample_accepted\<lparr>ch_funding_outpoint := Some outpoint, ch_channel_id := ci,
     ch_current_counterparty_commitment := Some cc, ch_current_holder_commitment := Some hc, ch_state := AwaitingChannelReady\<rparr>"
    using sample_signed_eq by blast
  have "sample_ready = sample_accepted\<lparr>ch_funding_outpoint := Some outpoint, ch_channel_id := ci,
     ch_current_counterparty_commitment := Some cc, ch_current_holder_commitment := Some hc, ch_state := Normal,
     ch_short_channel_id := Some 0, ch_funding_confirmed := True, ch_channel_ready_sent := True,
     ch_counterparty_next_point := Some [17], ch_channel_ready_received := True\<rparr>"
    by (simp add: sample_ready_def on_channel_ready_def funding_confirmed_def maybe_become_normal_def eq sample_accepted_fields Let_def)
  then show ?thesis by blast
qed

definition sample_htlc :: Htlc where
  "sample_htlc = \<lparr>hx_outbound = True, hx_id = 0, hx_amount_msat = 20000000, hx_payment_hash = replicate 32 5,
     hx_cltv_expiry = 600, hx_onion = [], hx_source = Some (Outbound (replicate 32 1)), hx_resolution = None,
     phase_holder = NotYet, phase_counterparty = Pending, processed = False\<rparr>"

lemma sample_paying_eq:
  "sample_paying = sample_ready\<lparr>ch_next_holder_htlc_id := 1, ch_htlcs := [sample_htlc], ch_counterparty_dirty := True\<rparr>"
proof -
  obtain hc cc ci outpoint where eq: "sample_ready = sample_accepted\<lparr>ch_funding_outpoint := Some outpoint, ch_channel_id := ci,
     ch_current_counterparty_commitment := Some cc, ch_current_holder_commitment := Some hc, ch_state := Normal,
     ch_short_channel_id := Some 0, ch_funding_confirmed := True, ch_channel_ready_sent := True,
     ch_counterparty_next_point := Some [17], ch_channel_ready_received := True\<rparr>"
    using sample_ready_eq by blast
  have "validate_outbound_add sample_ready 20000000 600 = Inr ()"
    by (simp add: validate_outbound_add_def eq sample_accepted_fields live_htlcs_def sum_msat_def balances_for_def fee_for_weight_def
        msat_from_sat_def COMMITMENT_TX_BASE_WEIGHT_def COMMITMENT_TX_WEIGHT_PER_HTLC_def Let_def)
  moreover have "ch_state sample_ready = Normal" "\<not> ch_shutdown_sent sample_ready" "\<not> ch_shutdown_received sample_ready"
    "\<not> ch_awaiting_raa sample_ready" "ch_htlcs sample_ready = []" "ch_next_holder_htlc_id sample_ready = 0"
    unfolding eq by (simp_all add: sample_accepted_fields)
  ultimately show ?thesis by (simp add: sample_paying_def send_add_htlc_def try_in_def Let_def sample_htlc_def)
qed

text \<open>What the range condition reads.\<close>

definition bounds_view where
  "bounds_view c = (ch_params c, ch_htlcs c, ch_holding_cell c, ch_next_holder_htlc_id c, ch_next_counterparty_htlc_id c,
     ch_holder_commitment_number c, ch_counterparty_commitment_number c)"

lemma in_range_view: "bounds_view c' = bounds_view c \<Longrightarrow> in_range c \<Longrightarrow> in_range c'"
  by (simp add: bounds_view_def in_range_def room_def)

lemma sample_range:
  "in_range sample_open" "in_range sample_accepted" "in_range sample_created" "in_range sample_signed"
  "in_range (snd (funding_confirmed toy_ec 0 sample_signed))" "in_range sample_ready" "in_range sample_paying"
proof -
  show "in_range sample_open"
    by (simp add: in_range_def room_def sample_open_def fresh_channel_def outbound_params_def)
  have acc: "in_range sample_accepted" by (simp add: in_range_def room_def sample_accepted_fields)
  then show "in_range sample_accepted" .
  have "bounds_view sample_created = bounds_view sample_accepted" using sample_created_eq by (elim exE) (erule ssubst, simp add: bounds_view_def)
  then show "in_range sample_created" using acc by (rule in_range_view)
  have sig: "bounds_view sample_signed = bounds_view sample_accepted" using sample_signed_eq by (elim exE) (erule ssubst, simp add: bounds_view_def)
  then show "in_range sample_signed" using acc by (rule in_range_view)
  have "bounds_view (snd (funding_confirmed toy_ec 0 sample_signed)) = bounds_view sample_signed"
    by (simp add: bounds_view_def funding_confirmed_def maybe_become_normal_def Let_def)
  with sig have "bounds_view (snd (funding_confirmed toy_ec 0 sample_signed)) = bounds_view sample_accepted" by (rule trans [rotated])
  then show "in_range (snd (funding_confirmed toy_ec 0 sample_signed))" using acc by (rule in_range_view)
  have ready: "bounds_view sample_ready = bounds_view sample_accepted" using sample_ready_eq by (elim exE) (erule ssubst, simp add: bounds_view_def)
  then show "in_range sample_ready" using acc by (rule in_range_view)
  show "in_range sample_paying"
    using ready unfolding bounds_view_def sample_paying_eq in_range_def room_def by (simp add: sample_accepted_fields)
qed

lemma sample_reachable: "reachable toy_ec sample_ready" "reachable toy_ec sample_paying"
proof -
  obtain om where "new_outbound toy_ec sample_signer sample_config Regtest (replicate 32 9) 100000 0 253 = Inr (sample_open, om)"
    using sample_open_new by blast
  then have "reachable toy_ec sample_open" by (rule reachable.opened) simp
  then have "reachable toy_ec sample_accepted"
    unfolding sample_accepted_def by (rule reachable.step [OF _ sample_range(1) channel_step.accept_channel])
  then have "reachable toy_ec sample_created"
    unfolding sample_created_def by (rule reachable.step [OF _ sample_range(2) channel_step.create_funding])
  then have "reachable toy_ec sample_signed"
    unfolding sample_signed_def by (rule reachable.step [OF _ sample_range(3) channel_step.recv_funding_signed])
  then have "reachable toy_ec (snd (funding_confirmed toy_ec 0 sample_signed))"
    by (rule reachable.step [OF _ sample_range(4) channel_step.confirm_funding])
  then show ready: "reachable toy_ec sample_ready"
    unfolding sample_ready_def by (rule reachable.step [OF _ sample_range(5) channel_step.recv_channel_ready])
  show "reachable toy_ec sample_paying"
    unfolding sample_paying_def by (rule reachable.step [OF ready sample_range(6) channel_step.send_add]) simp
qed

text \<open>The payment is committed to, and the counterparty revokes its first commitment.\<close>

definition sample_committed :: Channel where "sample_committed = snd (send_commitment_signed toy_ec sample_paying)"

definition sample_raa :: RevokeAndAck where
  "sample_raa = \<lparr>raa_channel_id = [], raa_per_commitment_secret = [16], raa_next_per_commitment_point = [18]\<rparr>"

definition sample_revoked :: Channel where "sample_revoked = snd (on_revoke_and_ack toy_ec sample_raa sample_committed)"

lemma sample_ready_fields:
  "ch_state sample_ready = Normal" "ch_awaiting_raa sample_ready = False" "ch_counterparty_next_point sample_ready = Some [17]"
  "ch_counterparty_current_point sample_ready = Some [16]" "ch_counterparty_commitment_number sample_ready = 0"
  "ch_counterparty_pubkeys sample_ready = Some (pubkeys_from_msg (ac_basepoints sample_accept))"
  "ch_holder_commitment_number sample_ready = 0" "ch_counterparty_secrets sample_ready = store_new" "ch_htlcs sample_ready = []"
  "ch_holding_cell sample_ready = []" "ch_to_holder_msat sample_ready = 100000000" "ch_to_counterparty_msat sample_ready = 0"
  "ch_role sample_ready = Opener" "ch_params sample_ready = ch_params sample_accepted" "ch_counterparty_dirty sample_ready = False"
  "ch_last_closing_fee_proposal sample_ready = None" "ch_shutdown_sent sample_ready = False"
  "\<exists>outpoint. ch_funding_outpoint sample_ready = Some outpoint"
proof -
  obtain hc cc ci outpoint where eq: "sample_ready = sample_accepted\<lparr>ch_funding_outpoint := Some outpoint, ch_channel_id := ci,
     ch_current_counterparty_commitment := Some cc, ch_current_holder_commitment := Some hc, ch_state := Normal,
     ch_short_channel_id := Some 0, ch_funding_confirmed := True, ch_channel_ready_sent := True,
     ch_counterparty_next_point := Some [17], ch_channel_ready_received := True\<rparr>"
    using sample_ready_eq by blast
  show "ch_state sample_ready = Normal" "ch_awaiting_raa sample_ready = False" "ch_counterparty_next_point sample_ready = Some [17]"
    "ch_counterparty_current_point sample_ready = Some [16]" "ch_counterparty_commitment_number sample_ready = 0"
    "ch_counterparty_pubkeys sample_ready = Some (pubkeys_from_msg (ac_basepoints sample_accept))"
    "ch_holder_commitment_number sample_ready = 0" "ch_counterparty_secrets sample_ready = store_new" "ch_htlcs sample_ready = []"
    "ch_holding_cell sample_ready = []" "ch_to_holder_msat sample_ready = 100000000" "ch_to_counterparty_msat sample_ready = 0"
    "ch_role sample_ready = Opener" "ch_params sample_ready = ch_params sample_accepted" "ch_counterparty_dirty sample_ready = False"
    "ch_last_closing_fee_proposal sample_ready = None" "ch_shutdown_sent sample_ready = False"
    "\<exists>outpoint. ch_funding_outpoint sample_ready = Some outpoint"
    unfolding eq by (simp_all add: sample_accepted_fields)
qed

lemma sample_committed_eq: "\<exists>p. sample_committed = signed p sample_paying"
proof -
  obtain p cs where "send_commitment_signed toy_ec sample_paying = (Inr cs, signed p sample_paying)"
    using send_commitment_succeeds [of sample_paying toy_ec] sample_ready_fields by (auto simp: sample_paying_eq)
  then show ?thesis by (auto simp: sample_committed_def)
qed

lemma sample_revoked_live: "fst (on_revoke_and_ack toy_ec sample_raa sample_committed) \<noteq> Inl Panicked"
proof -
  have r: "reachable toy_ec sample_committed"
    unfolding sample_committed_def by (rule reachable.step [OF sample_reachable(2) sample_range(7) channel_step.send_commitment])
  show ?thesis using revoke_panics [OF reachable_inv [OF r] reachable_sess [OF r], of sample_raa] by (simp add: toy_ec_def)
qed

lemma sample_revoked_number: "ch_counterparty_commitment_number sample_revoked = 1"
proof -
  obtain p where eq: "sample_committed = signed p sample_paying" using sample_committed_eq ..
  have f: "ch_awaiting_raa sample_committed" "ch_pending_counterparty_commitment sample_committed = Some p"
    "ch_counterparty_current_point sample_committed = Some [16]" "ch_counterparty_commitment_number sample_committed = 0"
    "ch_counterparty_secrets sample_committed = store_new"
    unfolding eq by (simp_all add: signed_def sample_paying_eq sample_ready_fields)
  obtain st where st: "store_insert store_new (index_for_commitment 0) [16] = Inr st"
    using reveal_one [of "[16]"] by (auto simp: rbind_Inr)
  let ?c = "apply_revocation p sample_raa (sample_committed\<lparr>ch_pending_counterparty_commitment := None, ch_counterparty_secrets := st\<rparr>)"
  have "on_revoke_and_ack toy_ec sample_raa sample_committed = flush_holding_cell toy_ec ?c"
    using f st by (simp add: on_revoke_and_ack_def sample_raa_def per_commitment_point_of_def Let_def) (simp add: toy_ec_def)
  then have "session sample_revoked = session ?c" by (simp add: sample_revoked_def session_flush)
  moreover have "ch_counterparty_commitment_number ?c = 1"
    by (simp add: apply_revocation_def Let_def gc_htlcs_fold f split: option.split)
  ultimately show ?thesis by (simp add: session_def)
qed

lemma sample_steps: "steps toy_ec sample_ready sample_revoked"
proof -
  obtain p where eq: "sample_committed = signed p sample_paying" using sample_committed_eq ..
  have "in_range sample_committed" unfolding eq
    by (rule in_range_view [OF _ sample_range(7)]) (simp add: signed_def bounds_view_def)
  with channel_step.recv_revocation [OF sample_revoked_live]
  have "in_range sample_committed \<and> channel_step toy_ec sample_committed sample_revoked" by (simp add: sample_revoked_def)
  moreover have "in_range sample_paying \<and> channel_step toy_ec sample_paying sample_committed"
    unfolding sample_committed_def by (intro conjI sample_range channel_step.send_commitment)
  moreover have "in_range sample_ready \<and> channel_step toy_ec sample_ready sample_paying"
    unfolding sample_paying_def by (intro conjI sample_range channel_step.send_add) simp
  ultimately show ?thesis
    unfolding steps_def by (blast intro: rtranclp.rtrancl_into_rtrancl)
qed

text \<open>The peer signs the next holder commitment.\<close>

definition sample_commitment_sig :: CommitmentSigned where
  "sample_commitment_sig = \<lparr>csg_channel_id = [], csg_signature = projr (rbind (build_holder_commitment_at toy_ec sample_ready 1) (\<lambda>(built, _).
     funding_sighash sample_ready (bct_tx built))) @ [11], csg_htlc_signatures = []\<rparr>"

lemma sample_commitment_accepted: "\<exists>raa c'. on_commitment_signed toy_ec sample_commitment_sig sample_ready = (Inr raa, c')"
proof -
  let ?cp = "pubkeys_from_msg (ac_basepoints sample_accept)"
  have cp: "counterparty sample_ready = Inr ?cp" by (simp add: counterparty_def ok_or_def sample_ready_fields)
  obtain outpoint where op: "ch_funding_outpoint sample_ready = Some outpoint" using sample_ready_fields(18) ..
  let ?p = "holder_params toy_ec sample_ready 1 ?cp outpoint"
  have build: "build_holder_commitment_at toy_ec sample_ready 1 = Inr (built_from ?p)"
    using cp op by (simp add: build_holder_eq rbind_def ok_or_def)
  have "tx_input (bct_tx (build_commitment_tx ?p)) \<noteq> []" using built_input [of ?p] by auto
  from funding_sighash_defined [OF cp this] obtain d where d: "funding_sighash sample_ready (bct_tx (build_commitment_tx ?p)) = Inr d" ..
  have sig: "csg_signature sample_commitment_sig = d @ [11]" "csg_htlc_signatures sample_commitment_sig = []"
    using build d by (simp_all add: sample_commitment_sig_def rbind_def built_from_def)
  have ver: "verify_counterparty_funding_sig toy_ec sample_ready (build_commitment_tx ?p) (d @ [11]) = Inr ()"
    using cp d by (simp add: verify_counterparty_funding_sig_def rbind_def toy_ec_def pubkeys_from_msg_def sample_accept_def)
  have none: "htlcs_in_output_order (build_commitment_tx ?p) = []"
    by (rule no_htlcs_order) (simp add: holder_params_def sample_ready_fields)
  show ?thesis
    by (simp add: on_commitment_signed_def try_in_def sample_ready_fields build built_from_def ver sig none Let_def)
qed

end
