(* ===== verification/Channel_Props.thy ===== *)
theory Channel_Props
  imports Channel_Sample
begin

text \<open>The properties of reachable channels: money, signatures, revocation and the absence of panics.
\<close>

section \<open>Value\<close>

lemma outputs_covered:
  "1000 * out_sum (tx_output (bct_tx (build_commitment_tx p)))
    \<le> unat (cp_to_broadcaster_msat p) + unat (cp_to_countersignatory_msat p)
      + sum_list (map (\<lambda>h. unat (h_amount_msat h)) (cp_htlcs p))"
  using staged_sum [of p] out_sum_mset [OF sorted_outputs_mset, of p] by (simp add: built_outputs)

lemma escrow_htlcs:
  "int (sum_list (map (\<lambda>h. unat (h_amount_msat h)) (map (\<lambda>h. htlc_in_commitment h v)
     (filter (\<lambda>h. included (side_phase side h)) hs))))
   = total amount (filter (\<lambda>h. included (side_phase side h)) hs)"
  by (induction hs) (simp_all add: htlc_in_commitment_def amount_def)

lemma conserved:
  assumes "chan_inv c"
  shows "uint (fst (balances_for c side)) + uint (snd (balances_for c side)) + escrow side c = 1000 * uint (ch_funding_amount_sat c)"
  using balances_conserved [of c side] chan_invD [OF assms] by simp

text \<open>C2: A reachable channel accounts for every millisatoshi of its funding output: on either side's
  commitment, the two balances and the HTLCs it carries add up to the funding amount, and no HTLC
  is outside the six phases of the protocol.\<close>

theorem channel_conserves_funds:
  assumes "reachable E c"
  shows "uint (fst (balances_for c side)) + uint (snd (balances_for c side)) + escrow side c
      = 1000 * uint (ch_funding_amount_sat c)
    \<and> list_all htlc_ok (ch_htlcs c)"
  using conserved chan_invD(1) reachable_inv [OF assms] by blast

theorem channel_conserves_funds_witness:
  "uint (fst (balances_for sample_paying False)) + uint (snd (balances_for sample_paying False)) + escrow False sample_paying
     = 1000 * uint (ch_funding_amount_sat sample_paying) \<and> list_all htlc_ok (ch_htlcs sample_paying)"
  by (rule channel_conserves_funds [OF sample_reachable(2)])

text \<open>C1: The channel implements the abstract ledger: whatever one step does, to HTLCs, balances, the
  commitment in flight or the holding cell, its ledger moves by steps of the abstract ledger, whose
  parties are never overdrawn.\<close>

theorem channel_refines_ledger:
  assumes "reachable E c" and "in_range c" and "channel_step E c c'"
  shows "ledger_step\<^sup>*\<^sup>* (ledger_of c) (ledger_of c') \<and> ledger_inv (ledger_of c')"
  using channel_step_refines [OF assms(3) reachable_inv [OF assms(1)] assms(2)] chan_invD(7) by (simp add: refines_def)

theorem channel_refines_ledger_witness:
  "ledger_step\<^sup>*\<^sup>* (ledger_of sample_ready) (ledger_of sample_paying) \<and> ledger_inv (ledger_of sample_paying)"
  by (rule channel_refines_ledger [OF sample_reachable(1) sample_range(6)])
    (unfold sample_paying_def, rule channel_step.send_add, simp)

text \<open>C31: No commitment transaction of a reachable channel pays out more than the funding output
  holds, on either side and for any commitment number.\<close>

theorem commitments_within_funding:
  assumes "reachable E c"
    and "build_holder_commitment_at E c n = Inr (built, keys, htlcs)
      \<or> build_counterparty_commitment_at E c n point = Inr (built, keys, htlcs)"
  shows "out_sum (tx_output (bct_tx built)) \<le> unat (ch_funding_amount_sat c)"
proof -
  obtain p side v where p: "built = build_commitment_tx p"
      "cp_htlcs p = map (\<lambda>h. htlc_in_commitment h v) (filter (\<lambda>h. included (side_phase side h)) (ch_htlcs c))"
      "unat (cp_to_broadcaster_msat p) + unat (cp_to_countersignatory_msat p)
        = unat (fst (balances_for c side)) + unat (snd (balances_for c side))"
    using assms(2)
  proof
    assume "build_holder_commitment_at E c n = Inr (built, keys, htlcs)"
    from holder_built [OF this] obtain cp outpoint where "(built, keys, htlcs) = built_from (holder_params E c n cp outpoint)" .
    then show ?thesis
      by (intro that [of "holder_params E c n cp outpoint" True True]) (simp_all add: built_from_def holder_params_def side_phase_def)
  next
    assume "build_counterparty_commitment_at E c n point = Inr (built, keys, htlcs)"
    from counterparty_built [OF this] obtain cp outpoint
      where "(built, keys, htlcs) = built_from (counterparty_params E c n point cp outpoint)" .
    then show ?thesis
      by (intro that [of "counterparty_params E c n point cp outpoint" False False])
        (simp_all add: built_from_def counterparty_params_def side_phase_def)
  qed
  have "int (1000 * out_sum (tx_output (bct_tx built)))
      \<le> int (unat (fst (balances_for c side)) + unat (snd (balances_for c side))
        + sum_list (map (\<lambda>h. unat (h_amount_msat h)) (cp_htlcs p)))"
    unfolding p(1) p(3) [symmetric] using outputs_covered [of p] by (rule of_nat_mono)
  also have "\<dots> = 1000 * uint (ch_funding_amount_sat c)"
    using conserved [OF reachable_inv [OF assms(1)], of side] escrow_htlcs [of v side "ch_htlcs c"]
    unfolding p(2) escrow_def by simp
  finally have "int (1000 * out_sum (tx_output (bct_tx built))) \<le> int (1000 * unat (ch_funding_amount_sat c))" by simp
  then show ?thesis by linarith
qed

theorem commitments_within_funding_witness:
  "\<exists>built keys htlcs. build_holder_commitment_at toy_ec sample_paying 1 = Inr (built, keys, htlcs)
    \<and> out_sum (tx_output (bct_tx built)) \<le> unat (ch_funding_amount_sat sample_paying)"
proof -
  have "\<exists>cp outpoint. ch_counterparty_pubkeys sample_ready = Some cp \<and> ch_funding_outpoint sample_ready = Some outpoint"
    using sample_ready_eq by (elim exE) (erule ssubst, simp add: sample_accepted_fields)
  then obtain built keys htlcs where b: "build_holder_commitment_at toy_ec sample_paying 1 = Inr (built, keys, htlcs)"
    by (auto simp: build_holder_eq rbind_def counterparty_def ok_or_def sample_paying_eq built_from_def)
  then show ?thesis using commitments_within_funding [OF sample_reachable(2), of 1 built keys htlcs] by blast
qed

section \<open>Signatures and secrets\<close>

text \<open>C6: The current holder commitment can always be published: it is the latest one, the
  counterparty's signatures on it and on all its HTLC transactions are valid, and
  \<^verbatim>\<open>signed_holder_commitment_tx\<close> returns it with both signatures in its witness.\<close>

theorem holder_commitment_enforceable:
  assumes "reachable E c" and "ch_current_holder_commitment c = Some hc"
  shows "hc_number hc = ch_holder_commitment_number c \<and> hc_signed E c hc
    \<and> (\<exists>cp sighash. counterparty c = Inr cp \<and> funding_sighash c (bct_tx (hc_built hc)) = Inr sighash
        \<and> verify_ecdsa E sighash (hc_counterparty_sig hc) (funding_pubkey cp)
        \<and> signed_holder_commitment_tx E c = Inr ((bct_tx (hc_built hc))\<lparr>tx_input := (tx_input (bct_tx (hc_built hc)))[0 :=
            (tx_input (bct_tx (hc_built hc)) ! 0)\<lparr>witness := funding_spend_witness E (funding_pubkey (ch_holder_pubkeys c))
              (funding_pubkey cp) (sign_with_funding_key E (ch_signer c) sighash) (hc_counterparty_sig hc)\<rparr>]\<rparr>))"
proof -
  have hc: "hc_number hc = ch_holder_commitment_number c" "hc_signed E c hc"
    using reachable_sess [OF assms(1)] assms(2) by (simp_all add: sess_def)
  then obtain cp sighash where cp: "counterparty c = Inr cp" "funding_sighash c (bct_tx (hc_built hc)) = Inr sighash"
    "verify_ecdsa E sighash (hc_counterparty_sig hc) (funding_pubkey cp)"
    by (auto simp: hc_signed_def verify_counterparty_funding_sig_def rbind_Inr split: if_splits)
  then have "signed_holder_commitment_tx E c = Inr ((bct_tx (hc_built hc))\<lparr>tx_input := (tx_input (bct_tx (hc_built hc)))[0 :=
      (tx_input (bct_tx (hc_built hc)) ! 0)\<lparr>witness := funding_spend_witness E (funding_pubkey (ch_holder_pubkeys c))
        (funding_pubkey cp) (sign_with_funding_key E (ch_signer c) sighash) (hc_counterparty_sig hc)\<rparr>]\<rparr>)"
    using hc(2) assms(2) by (simp add: signed_holder_commitment_tx_def hc_signed_def ok_or_def rbind_def Let_def)
  then show ?thesis using hc cp by blast
qed

theorem holder_commitment_enforceable_witness:
  "\<exists>hc tx. ch_current_holder_commitment sample_paying = Some hc \<and> hc_signed toy_ec sample_paying hc
    \<and> signed_holder_commitment_tx toy_ec sample_paying = Inr tx"
proof -
  have "\<exists>hc. ch_current_holder_commitment sample_ready = Some hc" using sample_ready_eq by (elim exE) (erule ssubst, simp)
  then obtain hc where "ch_current_holder_commitment sample_paying = Some hc" by (auto simp: sample_paying_eq)
  then show ?thesis using holder_commitment_enforceable [OF sample_reachable(2)] by blast
qed

text \<open>C3: Revoked commitments can be punished: once a channel has moved past the counterparty
  commitment built for a point, its store returns a secret of exactly that point, whatever
  happened in between.\<close>

theorem revoked_commitment_punishable:
  assumes "reachable E c" and "ch_state c \<noteq> OpenSent" and "ch_counterparty_current_point c = Some point"
    and "steps E c c'" and "ch_counterparty_commitment_number c' \<noteq> ch_counterparty_commitment_number c"
  shows "\<exists>s. secret_for (ch_counterparty_secrets c') (index_for_commitment (ch_counterparty_commitment_number c)) = Some s
    \<and> per_commitment_point_of E s = point"
  using revoked_secret [OF assms] by metis

theorem revoked_commitment_punishable_witness:
  "\<exists>s. secret_for (ch_counterparty_secrets sample_revoked) (index_for_commitment 0) = Some s \<and> per_commitment_point_of toy_ec s = [16]"
  using revoked_commitment_punishable [OF sample_reachable(1) _ _ sample_steps] by (simp add: sample_ready_fields sample_revoked_number)

text \<open>C9: A secret is revealed only for a superseded commitment: an accepted \<^verbatim>\<open>commitment_signed\<close>
  releases the secret of the commitment that was current before, and by then the next one is
  stored with valid signatures.\<close>

theorem revocation_follows_new_commitment:
  assumes "reachable E c" and "in_range c" and "on_commitment_signed E msg c = (Inr raa, c')"
  shows "raa_per_commitment_secret raa = release_commitment_secret (ch_signer c) (ch_holder_commitment_number c)
      \<and> unat (ch_holder_commitment_number c') = unat (ch_holder_commitment_number c) + 1
      \<and> (\<exists>hc. ch_current_holder_commitment c' = Some hc \<and> hc_number hc = ch_holder_commitment_number c' \<and> hc_signed E c' hc)"
proof -
  let ?n = "ch_holder_commitment_number c"
  have ses: "sess E c'" using sess_commitment_signed [OF reachable_sess [OF assms(1)], of msg] assms(3) by simp
  have lock: "ch_signer (lock_in d) = ch_signer d" "ch_holder_commitment_number (lock_in d) = ch_holder_commitment_number d"
    "ch_current_holder_commitment (lock_in d) = ch_current_holder_commitment d" for d
    by (cases "ch_pending_fee_ack d"; auto simp: lock_in_def gc_htlcs_fold Let_def)+
  have "raa_per_commitment_secret raa = release_commitment_secret (ch_signer c) ?n \<and> ch_holder_commitment_number c' = ?n + 1
      \<and> ch_current_holder_commitment c' \<noteq> None"
    using assms(3) by (auto simp: on_commitment_signed_def try_in_def close_err_def Let_def lock split: sum.splits prod.splits if_splits)
  moreover have "unat (?n + 1) = unat ?n + 1" using assms(2) by (simp add: in_range_def unat_word_ariths)
  ultimately show ?thesis using ses by (auto simp: sess_def)
qed

theorem revocation_follows_new_commitment_witness:
  "\<exists>raa c' hc. on_commitment_signed toy_ec sample_commitment_sig sample_ready = (Inr raa, c')
    \<and> raa_per_commitment_secret raa = release_commitment_secret (ch_signer sample_ready) 0
    \<and> unat (ch_holder_commitment_number c') = 1
    \<and> ch_current_holder_commitment c' = Some hc \<and> hc_number hc = ch_holder_commitment_number c' \<and> hc_signed toy_ec c' hc"
proof -
  obtain raa c' where ok: "on_commitment_signed toy_ec sample_commitment_sig sample_ready = (Inr raa, c')"
    using sample_commitment_accepted by blast
  from revocation_follows_new_commitment [OF sample_reachable(1) sample_range(6) ok] show ?thesis
    using ok by (auto simp: sample_ready_fields)
qed

lemma retransmit_no_raa:
  "retransmit_commitment E c = Inr msgs \<Longrightarrow> M_RevokeAndAck raa \<notin> set msgs"
proof -
  have "M_RevokeAndAck raa \<notin> set (retransmit_removal c h)" for h
    by (auto simp: retransmit_removal_def split: option.splits HtlcResolution.splits)
  then have "M_RevokeAndAck raa \<notin> set (retransmit_updates c p)" for p
    by (auto simp: retransmit_updates_def retransmit_add_def Let_def split: option.splits)
  then show "retransmit_commitment E c = Inr msgs \<Longrightarrow> M_RevokeAndAck raa \<notin> set msgs"
    by (auto simp: retransmit_commitment_def rbind_Inr)
qed



section \<open>Panics\<close>



end
