(* ===== verification/Channel_Closing.thy ===== *)
theory Channel_Closing
  imports Channel_Auth Channel_Sample
begin

text \<open>
  The cooperative close: what a finished negotiation has agreed on, and the fee it has agreed to.
\<close>

section \<open>Finished negotiations\<close>

definition finished :: "ClosingSignedOutcome \<Rightarrow> Transaction option" where
  "finished out = (case out of Done tx \<Rightarrow> Some tx | Reply _ tx \<Rightarrow> tx)"

text \<open>What a closing transaction and its signatures depend on.\<close>

definition closing_view where
  "closing_view c = (ch_holder_shutdown_script c, ch_counterparty_shutdown_script c, ch_funding_outpoint c,
     ch_to_holder_msat c, ch_to_counterparty_msat c, ch_htlcs c, ch_role c, ch_params c, ch_signer c, identity c)"

lemma closing_view_cong:
  assumes "closing_view c' = closing_view c"
  shows "build_and_sign_closing E c' fee = build_and_sign_closing E c fee" "funding_sighash c' tx = funding_sighash c tx"
    "counterparty c' = counterparty c" "ch_holder_pubkeys c' = ch_holder_pubkeys c"
proof -
  have eqs: "ch_holder_shutdown_script c' = ch_holder_shutdown_script c" "ch_funding_outpoint c' = ch_funding_outpoint c"
    "ch_counterparty_shutdown_script c' = ch_counterparty_shutdown_script c"
    "ch_to_holder_msat c' = ch_to_holder_msat c" "ch_to_counterparty_msat c' = ch_to_counterparty_msat c"
    "ch_htlcs c' = ch_htlcs c" "ch_role c' = ch_role c" "ch_params c' = ch_params c" "ch_signer c' = ch_signer c"
    "ch_holder_pubkeys c' = ch_holder_pubkeys c" "ch_counterparty_pubkeys c' = ch_counterparty_pubkeys c"
    "ch_funding_amount_sat c' = ch_funding_amount_sat c"
    using assms by (simp_all add: closing_view_def identity_def)
  show "build_and_sign_closing E c' fee = build_and_sign_closing E c fee" "funding_sighash c' tx = funding_sighash c tx"
    "counterparty c' = counterparty c" "ch_holder_pubkeys c' = ch_holder_pubkeys c"
    unfolding build_and_sign_closing_def closing_outputs_def funding_sighash_def counterparty_def balances_for_def eqs by (rule refl)+
qed

definition agreed :: "EC \<Rightarrow> u64 \<Rightarrow> Signature \<Rightarrow> Channel \<Rightarrow> Transaction \<Rightarrow> bool" where
  "agreed E fee sig c tx \<longleftrightarrow> (\<exists>cp tx0 our_sig. build_and_sign_closing E c fee = Inr (tx0, our_sig) \<and> counterparty c = Inr cp
     \<and> tx_input tx0 \<noteq> []
     \<and> tx = tx0\<lparr>tx_input := (tx_input tx0)[0 := (tx_input tx0 ! 0)\<lparr>witness :=
         funding_spend_witness E (funding_pubkey (ch_holder_pubkeys c)) (funding_pubkey cp) our_sig sig\<rparr>]\<rparr>)"

lemma agreed_view: "closing_view c' = closing_view c \<Longrightarrow> agreed E fee sig c' tx = agreed E fee sig c tx"
  by (simp add: agreed_def closing_view_cong [of c' c])

lemma finalize_agreed:
  assumes "finalize_closing E fee sig c = (Inr tx, c')"
  shows "agreed E fee sig c tx" "ch_closing_tx c' = Some tx" "ch_state c' = Closed"
  using assms by (auto simp: finalize_closing_def try_in_def agreed_def Let_def split: sum.splits if_splits)

lemma finalize_and_reply_agreed:
  assumes "finalize_and_reply E fee sig bounds upd c = (Inr out, c')" "finished out = Some tx"
    and upd: "\<And>c. ch_closing_tx (upd c) = ch_closing_tx c" "\<And>c. ch_state (upd c) = ch_state c"
  shows "agreed E fee sig c tx \<and> ch_closing_tx c' = Some tx \<and> ch_state c' = Closed"
  using assms
  by (auto simp: finalize_and_reply_def try_in_def finished_def split: prod.splits sum.splits dest: finalize_agreed)

lemma finalize_done_agreed:
  assumes "finalize_done E fee sig c = (Inr out, c')" "finished out = Some tx"
  shows "agreed E fee sig c tx \<and> ch_closing_tx c' = Some tx \<and> ch_state c' = Closed"
  using assms by (auto simp: finalize_done_def finished_def split: prod.splits sum.splits dest: finalize_agreed)

lemma range_path_agreed:
  assumes "closing_range_path E msg rng ours c = (Inr out, c')" "finished out = Some tx"
  shows "agreed E (cs_fee_satoshis msg) (cs_signature msg) c tx \<and> ch_closing_tx c' = Some tx \<and> ch_state c' = Closed"
proof -
  obtain f lo hi where ours: "ours = (f, lo, hi)" by (cases ours)
  let ?fee = "cs_fee_satoshis msg"
  have view: "agreed E fee sig (c\<lparr>ch_last_closing_fee_proposal := fp\<rparr>) tx = agreed E fee sig c tx" for fee sig fp
    by (rule agreed_view) (simp add: closing_view_def identity_def)
  consider "finalize_and_reply E ?fee (cs_signature msg) (Some (lo, hi)) (\<lambda>c. c\<lparr>ch_last_closing_fee_proposal := Some ?fee\<rparr>) c = (Inr out, c')"
    | "finalize_done E ?fee (cs_signature msg) c = (Inr out, c')"
    | "finalize_and_reply E ?fee (cs_signature msg) (Some (lo, hi)) (\<lambda>c. c) (c\<lparr>ch_last_closing_fee_proposal := Some ?fee\<rparr>) = (Inr out, c')"
    using assms
    by (auto simp: closing_range_path_def ours try_in_def close_err_def finished_def Let_def split: if_splits option.splits sum.splits)
  then show ?thesis
  proof cases
    case 1
    from finalize_and_reply_agreed [OF this assms(2)] show ?thesis by simp
  next
    case 2
    from finalize_done_agreed [OF this assms(2)] show ?thesis .
  next
    case 3
    from finalize_and_reply_agreed [OF this assms(2)] show ?thesis by (simp add: view)
  qed
qed

lemma legacy_path_agreed:
  assumes "closing_legacy_path E msg our_fee c = (Inr out, c')" "finished out = Some tx"
  shows "agreed E (cs_fee_satoshis msg) (cs_signature msg) c tx \<and> ch_closing_tx c' = Some tx \<and> ch_state c' = Closed"
proof -
  have view: "agreed E fee sig (c\<lparr>ch_last_closing_fee_proposal := fp\<rparr>) tx = agreed E fee sig c tx" for fee sig fp
    by (rule agreed_view) (simp add: closing_view_def identity_def)
  obtain fp where "finalize_and_reply E (cs_fee_satoshis msg) (cs_signature msg) None (\<lambda>c. c)
      (c\<lparr>ch_last_closing_fee_proposal := fp\<rparr>) = (Inr out, c')"
    using assms by (auto simp: closing_legacy_path_def try_in_def finished_def Let_def split: if_splits sum.splits option.splits)
  from finalize_and_reply_agreed [OF this assms(2)] show ?thesis by (simp add: view)
qed

lemma closing_signed_cases:
  assumes "on_closing_signed E msg fr c = (Inr out, c')"
  defines "d \<equiv> c\<lparr>ch_state := NegotiatingClose\<rparr>"
  shows "ready_to_negotiate_close c" "\<exists>tx. verify_their_closing_sig E d (cs_fee_satoshis msg) (cs_signature msg) = Inr tx"
    "ch_last_closing_fee_proposal c = Some (cs_fee_satoshis msg) \<and> finalize_done E (cs_fee_satoshis msg) (cs_signature msg) d = (Inr out, c')
     \<or> ch_last_closing_fee_proposal c \<noteq> Some (cs_fee_satoshis msg) \<and> (\<exists>ours. closing_fee_bounds d fr = Inr ours
        \<and> (case cs_fee_range msg of Some rng \<Rightarrow> closing_range_path E msg rng ours d = (Inr out, c')
           | None \<Rightarrow> closing_legacy_path E msg (fst ours) d = (Inr out, c')))"
  using assms by (auto simp: on_closing_signed_def try_in_def close_err_def Let_def split: if_splits sum.splits option.splits)

section \<open>Properties\<close>

lemma verified_view:
  assumes "closing_view c' = closing_view c"
  shows "verify_their_closing_sig E c' fee sig = verify_their_closing_sig E c fee sig"
  by (simp add: verify_their_closing_sig_def closing_view_cong [OF assms])

text \<open>C32: A finished negotiation is a transaction both sides signed: whenever \<^verbatim>\<open>on_closing_signed\<close>
  produces a closing transaction, it is the one built for the peer's fee, the peer's signature on
  it was verified under its funding key, it spends the funding output with both signatures, and
  the channel is closed on it.\<close>

theorem closing_transaction_agreed:
  assumes "on_closing_signed E msg fr c = (Inr out, c')" and "finished out = Some tx"
  shows "agreed E (cs_fee_satoshis msg) (cs_signature msg) c tx
    \<and> (\<exists>tx0. verify_their_closing_sig E c (cs_fee_satoshis msg) (cs_signature msg) = Inr tx0)
    \<and> ch_closing_tx c' = Some tx \<and> ch_state c' = Closed \<and> ch_htlcs c = []"
proof -
  let ?d = "c\<lparr>ch_state := NegotiatingClose\<rparr>"
  have view: "closing_view ?d = closing_view c" by (simp add: closing_view_def identity_def)
  note C = closing_signed_cases [OF assms(1)]
  have "agreed E (cs_fee_satoshis msg) (cs_signature msg) ?d tx \<and> ch_closing_tx c' = Some tx \<and> ch_state c' = Closed"
    using C(3) finalize_done_agreed [OF _ assms(2)] range_path_agreed [OF _ assms(2)] legacy_path_agreed [OF _ assms(2)]
    by (auto split: option.splits)
  then show ?thesis
    using C(1,2) agreed_view [OF view] verified_view [OF view] by (simp add: ready_to_negotiate_close_def)
qed


lemma clamp_cases: "if hi < lo then clamp v lo hi = Inl Panicked else \<exists>x. clamp v lo hi = Inr x \<and> lo \<le> x \<and> x \<le> hi"
  by (auto simp: clamp_def not_less)

text \<open>The fee computation of a close panics exactly when its bounds cross: twice the target fee, or
  for the opener the whole balance, is below the fee at the minimum rate of 253 sat per 1000
  weight units. Otherwise the proposal lies between the bounds.\<close>

theorem closing_fee_bounds_cases:
  "let target = fee_for_weight fr CLOSING_TX_WEIGHT_BOUND;
       floor = fee_for_weight 253 CLOSING_TX_WEIGHT_BOUND;
       cap = min (target * 2) (if ch_role c = Opener then to_sat_floor (fst (balances_for c True)) else - 1)
   in if cap < floor then closing_fee_bounds c fr = Inl Panicked
      else \<exists>fee. closing_fee_bounds c fr = Inr (fee, floor, cap) \<and> floor \<le> fee \<and> fee \<le> cap"
  using clamp_cases [of "min (fee_for_weight fr CLOSING_TX_WEIGHT_BOUND * 2)
      (if ch_role c = Opener then to_sat_floor (fst (balances_for c True)) else - 1)" "fee_for_weight 253 CLOSING_TX_WEIGHT_BOUND"
      "fee_for_weight fr CLOSING_TX_WEIGHT_BOUND"]
  unfolding closing_fee_bounds_def Let_def case_prod_beta by (simp only: rbind_def split: if_splits) auto

lemma closing_outputs_sum:
  "out_sum (tx_output (build_closing_tx funding a b sa sb dust)) \<le> unat a + unat b"
proof -
  have "out_sum (sort_key k outs) = out_sum outs" for k :: "TxOut \<Rightarrow> u64 \<times> Script" and outs
    by (metis mset_map mset_sort out_sum_def sum_mset_sum_list)
  then show ?thesis by (simp add: build_closing_tx_def Let_def out_sum_def)
qed

text \<open>C34: The closing transaction divides the funding output: in a reachable channel its outputs and
  the fee charged to the opener (as much of it as the opener has) stay within the funding amount.\<close>

theorem closing_within_funding:
  assumes "reachable E c" and "build_and_sign_closing E c fee = Inr (tx, sig)"
  shows "out_sum (tx_output tx) + min (unat fee) (unat (to_sat_floor
      (if ch_role c = Opener then fst (balances_for c True) else snd (balances_for c True))))
    \<le> unat (ch_funding_amount_sat c)"
proof -
  let ?a = "fst (balances_for c True)" and ?b = "snd (balances_for c True)"
  obtain funding hs cs dust where tx: "tx = build_closing_tx funding (fst (closing_outputs c fee)) (snd (closing_outputs c fee)) hs cs dust"
    using assms(2) by (auto simp: build_and_sign_closing_def rbind_Inr Let_def case_prod_beta split: if_splits)
  have "0 \<le> escrow True c" unfolding escrow_def by (rule total_nonneg) simp
  then have "uint ?a + uint ?b \<le> 1000 * uint (ch_funding_amount_sat c)"
    using balances_conserved [of c True] chan_invD [OF reachable_inv [OF assms(1)]] by simp
  then have "int (unat ?a + unat ?b) \<le> int (1000 * unat (ch_funding_amount_sat c))" by simp
  then have "unat ?a + unat ?b \<le> 1000 * unat (ch_funding_amount_sat c)" by linarith
  then have "unat ?a div 1000 + unat ?b div 1000 \<le> unat (ch_funding_amount_sat c)" by linarith
  moreover have "unat (fst (closing_outputs c fee)) + unat (snd (closing_outputs c fee)) + min (unat fee) (unat (to_sat_floor
      (if ch_role c = Opener then ?a else ?b))) = unat ?a div 1000 + unat ?b div 1000"
    by (cases "ch_role c") (auto simp: closing_outputs_def Let_def case_prod_beta unat_saturating_sub unat_floor min_def)
  moreover have "out_sum (tx_output tx) \<le> unat (fst (closing_outputs c fee)) + unat (snd (closing_outputs c fee))"
    unfolding tx by (rule closing_outputs_sum)
  ultimately show ?thesis by linarith
qed

text \<open>A channel in negotiation whose last proposal the peer accepts.\<close>

definition sample_script :: Script where "sample_script = [0, 20] @ replicate 20 3"

definition sample_stopping :: Channel where "sample_stopping = snd (send_shutdown sample_script sample_ready)"

definition sample_negotiating :: Channel where
  "sample_negotiating = snd (on_shutdown \<lparr>sd_channel_id = [], sd_scriptpubkey = sample_script\<rparr> sample_script sample_stopping)"

lemma sample_script_ok: "is_witness_program sample_script"
  by (simp add: is_witness_program_def sample_script_def OP_0_def Let_def)

lemma sample_stopping_eq:
  "sample_stopping = sample_ready\<lparr>ch_holder_shutdown_script := Some sample_script, ch_shutdown_sent := True, ch_state := ShuttingDown\<rparr>"
  by (simp add: sample_stopping_def send_shutdown_def sample_ready_fields sample_script_ok Let_def)

lemma sample_negotiating_eq:
  "sample_negotiating = sample_stopping\<lparr>ch_counterparty_shutdown_script := Some sample_script, ch_shutdown_received := True\<rparr>"
  by (simp add: sample_negotiating_def on_shutdown_def sample_stopping_eq sample_script_ok Let_def)

lemmas sample_negotiating_fields = sample_negotiating_eq sample_stopping_eq sample_ready_fields

lemma sample_negotiating_reachable: "reachable toy_ec sample_negotiating"
proof -
  have "reachable toy_ec sample_stopping"
    unfolding sample_stopping_def by (rule reachable.step [OF sample_reachable(1) sample_range(6) channel_step.start_shutdown])
  moreover have "in_range sample_stopping"
    by (rule in_range_view [OF _ sample_range(6)]) (simp add: sample_stopping_eq bounds_view_def)
  ultimately show ?thesis
    unfolding sample_negotiating_def by (rule reachable.step [OF _ _ channel_step.recv_shutdown])
qed

lemma sample_negotiating_build:
  "\<exists>tx our_sig d. build_and_sign_closing toy_ec sample_negotiating 300 = Inr (tx, our_sig) \<and> tx_input tx \<noteq> []
     \<and> funding_sighash sample_negotiating tx = Inr d"
proof -
  obtain outpoint where op: "ch_funding_outpoint sample_ready = Some outpoint" using sample_ready_fields(18) ..
  have cp: "counterparty sample_negotiating = Inr (pubkeys_from_msg (ac_basepoints sample_accept))"
    by (simp add: counterparty_def ok_or_def sample_negotiating_fields)
  have bal: "balances_for sample_negotiating True = (100000000, 0)" "ch_role sample_negotiating = Opener"
    "holder_dust_limit_sat (ch_params sample_negotiating) = 546"
    by (simp_all add: balances_for_def sample_negotiating_fields sample_accepted_fields)
  let ?tx = "build_closing_tx outpoint 99700 0 sample_script sample_script 546"
  have "tx_input ?tx \<noteq> []" by (simp add: build_closing_tx_def Let_def)
  from funding_sighash_defined [OF cp this] obtain d where "funding_sighash sample_negotiating ?tx = Inr d" ..
  then show ?thesis
    using op by (simp add: build_and_sign_closing_def closing_outputs_def bal to_sat_floor_def saturating_sub_def rbind_def ok_or_def Let_def)
      (simp add: sample_negotiating_fields build_closing_tx_def)
qed


definition sample_closing_signed :: ClosingSigned where
  "sample_closing_signed = \<lparr>cs_channel_id = [], cs_fee_satoshis = 300,
     cs_signature = projr (rbind (build_and_sign_closing toy_ec sample_negotiating 300) (\<lambda>(tx, _). funding_sighash sample_negotiating tx)) @ [11],
     cs_fee_range = Some \<lparr>min_fee_satoshis = 200, max_fee_satoshis = 400\<rparr>\<rparr>"

lemma sample_closed:
  "\<exists>out c' tx. on_closing_signed toy_ec sample_closing_signed 300 sample_negotiating = (Inr out, c') \<and> finished out = Some tx"
proof -
  obtain tx our_sig d where b: "build_and_sign_closing toy_ec sample_negotiating 300 = Inr (tx, our_sig)" "tx_input tx \<noteq> []"
    "funding_sighash sample_negotiating tx = Inr d" using sample_negotiating_build by blast
  have cp: "counterparty sample_negotiating = Inr (pubkeys_from_msg (ac_basepoints sample_accept))"
    by (simp add: counterparty_def ok_or_def sample_negotiating_fields)
  have sig: "cs_signature sample_closing_signed = d @ [11]" using b by (simp add: sample_closing_signed_def rbind_def)
  have ver: "verify_their_closing_sig toy_ec sample_negotiating 300 (d @ [11]) = Inr tx"
    using b cp by (simp add: verify_their_closing_sig_def rbind_def toy_ec_def pubkeys_from_msg_def sample_accept_def)
  let ?c = "sample_negotiating\<lparr>ch_state := NegotiatingClose\<rparr>"
  have view: "closing_view ?c = closing_view sample_negotiating" by (simp add: closing_view_def identity_def)
  have msg: "cs_fee_satoshis sample_closing_signed = 300"
    "cs_fee_range sample_closing_signed = Some \<lparr>min_fee_satoshis = 200, max_fee_satoshis = 400\<rparr>"
    by (simp_all add: sample_closing_signed_def)
  have ready: "ready_to_negotiate_close sample_negotiating" "ch_last_closing_fee_proposal sample_negotiating = None"
    "ch_role sample_negotiating = Opener"
    by (simp_all add: ready_to_negotiate_close_def sample_negotiating_fields)
  have bounds: "closing_fee_bounds ?c 300 = Inr (214, 180, 428)"
    by (simp add: closing_fee_bounds_def clamp_def ready balances_for_def sample_negotiating_fields fee_for_weight_def
        CLOSING_TX_WEIGHT_BOUND_def to_sat_floor_def rbind_def)
  have c: "build_and_sign_closing toy_ec ?c 300 = Inr (tx, our_sig)" "counterparty ?c = Inr (pubkeys_from_msg (ac_basepoints sample_accept))"
    "verify_their_closing_sig toy_ec ?c 300 (d @ [11]) = Inr tx"
    using b(1) cp ver by (simp_all add: closing_view_cong [OF view] verified_view [OF view])
  obtain c1 tx1 where fin: "finalize_closing toy_ec 300 (d @ [11]) ?c = (Inr tx1, c1)" "closing_view c1 = closing_view ?c"
    using b(2) c(1,2) by (auto simp: finalize_closing_def try_in_def Let_def closing_view_def identity_def)
  then have reply: "finalize_and_reply toy_ec 300 (d @ [11]) bs upd ?c
      = (Inr (Reply (closing_reply c1 300 our_sig bs) (Some tx1)), upd c1)" for bs upd
    using c(1) by (simp add: finalize_and_reply_def try_in_def closing_view_cong(1) [OF fin(2)])
  show ?thesis
    by (simp add: on_closing_signed_def ready try_in_def sig closing_range_path_def bounds msg c(3) reply finished_def Let_def)
qed

theorem closing_transaction_agreed_witness:
  "\<exists>(c' :: Channel) tx. agreed toy_ec (cs_fee_satoshis sample_closing_signed) (cs_signature sample_closing_signed) sample_negotiating tx
    \<and> ch_closing_tx c' = Some tx \<and> ch_state c' = Closed"
proof -
  obtain out c' tx where "on_closing_signed toy_ec sample_closing_signed 300 sample_negotiating = (Inr out, c')" "finished out = Some tx"
    using sample_closed by blast
  from closing_transaction_agreed [OF this] show ?thesis by auto
qed


theorem closing_within_funding_witness:
  "\<exists>tx sig. build_and_sign_closing toy_ec sample_negotiating 300 = Inr (tx, sig)
    \<and> out_sum (tx_output tx) + min 300 100000 \<le> unat (ch_funding_amount_sat sample_negotiating)"
proof -
  obtain tx sig where ok: "build_and_sign_closing toy_ec sample_negotiating 300 = Inr (tx, sig)" using sample_negotiating_build by blast
  have "ch_role sample_negotiating = Opener" "balances_for sample_negotiating True = (100000000, 0)"
    by (simp_all add: balances_for_def sample_negotiating_fields)
  then show ?thesis using ok closing_within_funding [OF sample_negotiating_reachable ok] by (simp add: to_sat_floor_def)
qed

end
