(* ===== verification/Curve_Ops.thy ===== *)
theory Curve_Ops
  imports Types Keys Crypto_Cipher
begin

text \<open>
  The operations of the \<^verbatim>\<open>secp256k1\<close> crate that the transport and the onion use beside those of
  the channel keys: Diffie-Hellman (\<^verbatim>\<open>SharedSecret::new\<close>), whether 32 bytes are below the curve order
  (\<^verbatim>\<open>Scalar::from_be_bytes\<close>) and whether a tweak by multiplication succeeds (\<^verbatim>\<open>mul_tweak\<close>). They are
  parameters; \<open>curve_laws\<close> states what the library documents of them and \<open>toy_curve\<close> shows that
  the laws can hold.
\<close>

record Curve = EC +
  ecdh :: "PublicKey \<Rightarrow> SecretKey \<Rightarrow> bytes"
  scalar_ok :: "bytes \<Rightarrow> bool"
  sk_mul_ok :: "SecretKey \<Rightarrow> bytes \<Rightarrow> bool"
  pk_mul_ok :: "PublicKey \<Rightarrow> bytes \<Rightarrow> bool"

text \<open>Diffie-Hellman commutes, a public key serializes to 33 bytes that parse back, and multiplying a
  secret multiplies its public key.\<close>

definition curve_laws :: "('z) Curve_scheme \<Rightarrow> bool" where
  "curve_laws E \<longleftrightarrow>
     (\<forall>a b. ecdh E (sk_public_key E a) b = ecdh E (sk_public_key E b) a)
   \<and> (\<forall>a. length (sk_public_key E a) = 33 \<and> pubkey_from_slice_ok E (sk_public_key E a))
   \<and> (\<forall>s t. sk_public_key E (sk_mul_tweak E s t) = pk_mul_tweak E (sk_public_key E s) t)
   \<and> (\<forall>s t. sk_mul_ok E s t \<longrightarrow> pk_mul_ok E (sk_public_key E s) t)"

lemma curve_lawsD:
  assumes "curve_laws E"
  shows curve_dh: "ecdh E (sk_public_key E a) b = ecdh E (sk_public_key E b) a"
    and curve_pk_length: "length (sk_public_key E a) = 33"
    and curve_pk_ok: "pubkey_from_slice_ok E (sk_public_key E a)"
    and curve_pk_mul: "sk_public_key E (sk_mul_tweak E a t) = pk_mul_tweak E (sk_public_key E a) t"
    and curve_pk_mul_ok: "sk_mul_ok E a t \<Longrightarrow> pk_mul_ok E (sk_public_key E a) t"
  using assms unfolding curve_laws_def by blast+

text \<open>A stand-in for the curve: the public key of a secret is the secret padded with zeros to 33 bytes, a tweak
  multiplies every byte by the tweak's first one.\<close>

definition toy_pk :: "SecretKey \<Rightarrow> PublicKey" where
  "toy_pk s = take 33 (s @ replicate 33 0)"

definition toy_curve :: Curve where
  "toy_curve = \<lparr>pubkey_from_slice_ok = \<lambda>p. length p = 33, signature_from_compact_ok = \<lambda>_. True,
     seckey_from_slice_ok = \<lambda>s. length s = 32, sk_public_key = toy_pk,
     pk_add_exp_tweak = \<lambda>p t. map2 (+) p t, pk_mul_tweak = \<lambda>p t. map (\<lambda>b. t ! 0 * b) p,
     pk_combine = \<lambda>p q. map2 (+) p q, sk_add_tweak = \<lambda>s t. map2 (+) s t,
     sk_mul_tweak = \<lambda>s t. map (\<lambda>b. t ! 0 * b) s, sign_ecdsa = \<lambda>m k. m @ k,
     verify_ecdsa = \<lambda>m s k. s = m @ k, serialize_der = \<lambda>s. s,
     ecdh = \<lambda>p s. take 32 (map2 (+) p (toy_pk s)), scalar_ok = \<lambda>_. True, sk_mul_ok = \<lambda>_ _. True, pk_mul_ok = \<lambda>_ _. True\<rparr>"

lemma toy_pk_length [simp]: "length (toy_pk s) = 33"
  by (simp add: toy_pk_def)

lemma map2_add_commute: "map2 (+) xs ys = map2 (+) ys (xs :: u8 list)"
proof (induction xs arbitrary: ys)
  case (Cons x xs)
  then show ?case by (cases ys) (simp_all add: add.commute)
qed simp

lemma toy_pk_mul: "toy_pk (map (\<lambda>b. c * b) s) = map (\<lambda>b. c * b) (toy_pk s)"
  by (simp add: toy_pk_def take_map)

lemma toy_curve_laws: "curve_laws toy_curve"
proof -
  have "ecdh toy_curve (toy_pk a) b = ecdh toy_curve (toy_pk b) a" for a b
    using map2_add_commute [of "toy_pk a" "toy_pk b"] by (simp add: toy_curve_def)
  then show ?thesis by (simp add: curve_laws_def toy_pk_mul toy_curve_def)
qed

end
