(* ===== verification/Noise.thy ===== *)
theory Noise
  imports Curve_Ops
begin

text \<open>
  \<^verbatim>\<open>src/src/noise/mod.rs\<close>: the BOLT 8 handshake and the encrypted transport. Acts are byte strings
  of the fixed array lengths. A method that takes \<^verbatim>\<open>&mut self\<close> returns its result with the state as
  it leaves it, on the error paths too. \<^verbatim>\<open>hkdf_two_keys\<close> always returns, so its \<open>option\<close> is
  opened with \<open>the\<close>.
\<close>

section \<open>Data\<close>

definition ACT_ONE_LEN :: nat where "ACT_ONE_LEN = 50"
definition ACT_TWO_LEN :: nat where "ACT_TWO_LEN = 50"
definition ACT_THREE_LEN :: nat where "ACT_THREE_LEN = 66"
definition MAX_MSG_LEN :: nat where "MAX_MSG_LEN = 65535"
definition KEY_ROTATION_INTERVAL :: u64 where "KEY_ROTATION_INTERVAL = 1000"

datatype NoiseError = BadVersion u8 | BadPubkey | BadTag | WrongState | MessageTooLong

record SymmetricState =
  ss_h :: bytes
  ss_ck :: bytes

definition two_keys :: "bytes \<Rightarrow> bytes \<Rightarrow> bytes \<times> bytes" where
  "two_keys salt ikm = the (hkdf_two_keys salt ikm)"

definition mix_hash :: "bytes \<Rightarrow> SymmetricState \<Rightarrow> SymmetricState" where
  "mix_hash data st =
     (let h = sha256_new; h = sha256_update h (ss_h st); h = sha256_update h data
      in st\<lparr>ss_h := sha256_finalize h\<rparr>)"

definition mix_key :: "bytes \<Rightarrow> SymmetricState \<Rightarrow> bytes \<times> SymmetricState" where
  "mix_key input st = (let (ck, k) = two_keys (ss_ck st) input in (k, st\<lparr>ss_ck := ck\<rparr>))"

definition SymmetricState_new :: "PublicKey \<Rightarrow> SymmetricState" where
  "SymmetricState_new responder_static =
     (let proto = sha256_digest (str_bytes ''Noise_XK_secp256k1_ChaChaPoly_SHA256'');
          h = sha256_new; h = sha256_update h proto; h = sha256_update h (str_bytes ''lightning'')
      in mix_hash responder_static \<lparr>ss_h = sha256_finalize h, ss_ck = proto\<rparr>)"

record CipherState =
  cs_key :: bytes
  cs_ck :: bytes
  cs_nonce :: u64

record Transport =
  tr_send :: CipherState
  tr_recv :: CipherState
  tr_buffer :: bytes
  tr_pending_len :: "nat option"

definition Transport_new :: "bytes \<Rightarrow> bytes \<Rightarrow> bytes \<Rightarrow> Transport" where
  "Transport_new ck sk rk =
     \<lparr>tr_send = \<lparr>cs_key = sk, cs_ck = ck, cs_nonce = 0\<rparr>, tr_recv = \<lparr>cs_key = rk, cs_ck = ck, cs_nonce = 0\<rparr>,
      tr_buffer = [], tr_pending_len = None\<rparr>"

section \<open>The initiator\<close>

record Initiator =
  ini_st :: SymmetricState
  ini_local_static :: SecretKey
  ini_ephemeral :: SecretKey
  ini_remote_static :: PublicKey
  ini_temp_k2 :: "bytes option"
  ini_done :: bool

definition Initiator_new :: "SecretKey \<Rightarrow> PublicKey \<Rightarrow> SecretKey \<Rightarrow> Initiator" where
  "Initiator_new local_static remote_static ephemeral =
     \<lparr>ini_st = SymmetricState_new remote_static, ini_local_static = local_static, ini_ephemeral = ephemeral,
      ini_remote_static = remote_static, ini_temp_k2 = None, ini_done = False\<rparr>"

definition initiator_act_one :: "Curve \<Rightarrow> Initiator \<Rightarrow> bytes \<times> Initiator" where
  "initiator_act_one E i =
     (let e_pub = sk_public_key E (ini_ephemeral i);
          st = mix_hash e_pub (ini_st i);
          ss = ecdh E (ini_remote_static i) (ini_ephemeral i);
          (temp_k1, st) = mix_key ss st;
          c = aead_encrypt temp_k1 (nonce_from_counter 0) (ss_h st) [];
          st = mix_hash c st
      in ([0] @ e_pub @ c, i\<lparr>ini_st := st\<rparr>))"

definition initiator_act_two :: "Curve \<Rightarrow> bytes \<Rightarrow> Initiator \<Rightarrow> (NoiseError, bytes) result \<times> Initiator" where
  "initiator_act_two E act2 i =
     (if act2 ! 0 \<noteq> 0 then (Inl (BadVersion (act2 ! 0)), i)
      else
        let re = take 33 (drop 1 act2) in
        if \<not> pubkey_from_slice_ok E re then (Inl BadPubkey, i)
        else
          let c = drop 34 act2;
              st = mix_hash re (ini_st i);
              ss = ecdh E re (ini_ephemeral i);
              (temp_k2, st) = mix_key ss st
          in case aead_decrypt temp_k2 (nonce_from_counter 0) (ss_h st) c of
               Inl _ \<Rightarrow> (Inl BadTag, i\<lparr>ini_st := st\<rparr>)
             | Inr _ \<Rightarrow>
                 let st = mix_hash c st;
                     s_pub = sk_public_key E (ini_local_static i);
                     c3 = aead_encrypt temp_k2 (nonce_from_counter 1) (ss_h st) s_pub;
                     st = mix_hash c3 st;
                     ss3 = ecdh E re (ini_local_static i);
                     (temp_k3, st) = mix_key ss3 st;
                     t = aead_encrypt temp_k3 (nonce_from_counter 0) (ss_h st) []
                 in (Inr ([0] @ c3 @ t), i\<lparr>ini_st := st, ini_temp_k2 := Some temp_k2, ini_done := True\<rparr>))"

definition into_transport :: "Initiator \<Rightarrow> (NoiseError, Transport) result" where
  "into_transport i =
     (if \<not> ini_done i then Inl WrongState
      else let (sk, rk) = two_keys (ss_ck (ini_st i)) [] in Inr (Transport_new (ss_ck (ini_st i)) sk rk))"

section \<open>The responder\<close>

record Responder =
  res_st :: SymmetricState
  res_local_static :: SecretKey
  res_ephemeral :: SecretKey
  res_remote_ephemeral :: "PublicKey option"
  res_temp_k2 :: "bytes option"

definition Responder_new :: "Curve \<Rightarrow> SecretKey \<Rightarrow> SecretKey \<Rightarrow> Responder" where
  "Responder_new E local_static ephemeral =
     \<lparr>res_st = SymmetricState_new (sk_public_key E local_static), res_local_static = local_static,
      res_ephemeral = ephemeral, res_remote_ephemeral = None, res_temp_k2 = None\<rparr>"

definition acted_one :: "Responder \<Rightarrow> bool" where
  "acted_one r = (res_remote_ephemeral r \<noteq> None)"

definition responder_act_one :: "Curve \<Rightarrow> bytes \<Rightarrow> Responder \<Rightarrow> (NoiseError, bytes) result \<times> Responder" where
  "responder_act_one E act1 r =
     (if act1 ! 0 \<noteq> 0 then (Inl (BadVersion (act1 ! 0)), r)
      else
        let re = take 33 (drop 1 act1) in
        if \<not> pubkey_from_slice_ok E re then (Inl BadPubkey, r)
        else
          let c = drop 34 act1;
              st = mix_hash re (res_st r);
              ss = ecdh E re (res_local_static r);
              (temp_k1, st) = mix_key ss st
          in case aead_decrypt temp_k1 (nonce_from_counter 0) (ss_h st) c of
               Inl _ \<Rightarrow> (Inl BadTag, r\<lparr>res_st := st\<rparr>)
             | Inr _ \<Rightarrow>
                 let st = mix_hash c st;
                     e_pub = sk_public_key E (res_ephemeral r);
                     st = mix_hash e_pub st;
                     ss2 = ecdh E re (res_ephemeral r);
                     (temp_k2, st) = mix_key ss2 st;
                     c2 = aead_encrypt temp_k2 (nonce_from_counter 0) (ss_h st) [];
                     st = mix_hash c2 st
                 in (Inr ([0] @ e_pub @ c2),
                     r\<lparr>res_st := st, res_remote_ephemeral := Some re, res_temp_k2 := Some temp_k2\<rparr>))"

text \<open>\<^verbatim>\<open>act_three\<close> consumes the responder.\<close>

definition responder_act_three :: "Curve \<Rightarrow> bytes \<Rightarrow> Responder \<Rightarrow> (NoiseError, PublicKey \<times> Transport) result" where
  "responder_act_three E act3 r =
     (case res_temp_k2 r of
        None \<Rightarrow> Inl WrongState
      | Some temp_k2 \<Rightarrow>
          if act3 ! 0 \<noteq> 0 then Inl (BadVersion (act3 ! 0))
          else
            let c = take 49 (drop 1 act3);
                t = drop 50 act3
            in case aead_decrypt temp_k2 (nonce_from_counter 1) (ss_h (res_st r)) c of
                 Inl _ \<Rightarrow> Inl BadTag
               | Inr rs \<Rightarrow>
                   if \<not> pubkey_from_slice_ok E rs then Inl BadPubkey
                   else
                     let st = mix_hash c (res_st r);
                         ss = ecdh E rs (res_ephemeral r);
                         (temp_k3, st) = mix_key ss st
                     in case aead_decrypt temp_k3 (nonce_from_counter 0) (ss_h st) t of
                          Inl _ \<Rightarrow> Inl BadTag
                        | Inr _ \<Rightarrow>
                            let (rk, sk) = two_keys (ss_ck st) []
                            in Inr (rs, Transport_new (ss_ck st) sk rk))"

section \<open>The transport\<close>

definition process :: "CipherState \<Rightarrow> (bytes \<times> bytes) \<times> CipherState" where
  "process s =
     (let s = (if cs_nonce s = KEY_ROTATION_INTERVAL
               then let (ck, key) = two_keys (cs_ck s) (cs_key s)
                    in s\<lparr>cs_ck := ck, cs_key := key, cs_nonce := 0\<rparr>
               else s);
          n = nonce_from_counter (cs_nonce s)
      in ((cs_key s, n), s\<lparr>cs_nonce := cs_nonce s + 1\<rparr>))"

definition encrypt_message :: "bytes \<Rightarrow> Transport \<Rightarrow> (NoiseError, bytes) result \<times> Transport" where
  "encrypt_message msg t =
     (if MAX_MSG_LEN < length msg then (Inl MessageTooLong, t)
      else
        let ((k, n), s) = process (tr_send t);
            len_ct = aead_encrypt k n [] (to_be_bytes (of_nat (length msg) :: u16));
            ((k, n), s) = process s;
            body_ct = aead_encrypt k n [] msg
        in (Inr (len_ct @ body_ct), t\<lparr>tr_send := s\<rparr>))"

definition read_input :: "bytes \<Rightarrow> Transport \<Rightarrow> Transport" where
  "read_input data t = t\<lparr>tr_buffer := tr_buffer t @ data\<rparr>"

text \<open>The second half of \<^verbatim>\<open>next_message\<close>: the length of the body is known.\<close>

definition next_body :: "nat \<Rightarrow> Transport \<Rightarrow> (NoiseError, bytes option) result \<times> Transport" where
  "next_body body_len t =
     (if length (tr_buffer t) < body_len + 16 then (Inr None, t)
      else
        let ((k, n), s) = process (tr_recv t);
            t = t\<lparr>tr_recv := s\<rparr>
        in case aead_decrypt k n [] (take (body_len + 16) (tr_buffer t)) of
             Inl _ \<Rightarrow> (Inl BadTag, t)
           | Inr msg \<Rightarrow> (Inr (Some msg), t\<lparr>tr_buffer := drop (body_len + 16) (tr_buffer t), tr_pending_len := None\<rparr>))"

definition next_message :: "Transport \<Rightarrow> (NoiseError, bytes option) result \<times> Transport" where
  "next_message t =
     (case tr_pending_len t of
        Some body_len \<Rightarrow> next_body body_len t
      | None \<Rightarrow>
          if length (tr_buffer t) < 18 then (Inr None, t)
          else
            let ((k, n), s) = process (tr_recv t);
                t = t\<lparr>tr_recv := s\<rparr>
            in case aead_decrypt k n [] (take 18 (tr_buffer t)) of
                 Inl _ \<Rightarrow> (Inl BadTag, t)
               | Inr len_bytes \<Rightarrow>
                   let body_len = unat (from_be_bytes len_bytes :: u16);
                       t = t\<lparr>tr_buffer := drop 18 (tr_buffer t), tr_pending_len := Some body_len\<rparr>
                   in next_body body_len t)"

section \<open>The handshake\<close>

lemma two_keys_eq: "hkdf_two_keys salt ikm = Some (two_keys salt ikm)"
  unfolding two_keys_def hkdf_two_keys_blocks by simp

lemma handshake_agrees:
  assumes laws: "curve_laws E"
    and one: "initiator_act_one E (Initiator_new ls (sk_public_key E rs) ie) = (a1, i1)"
  shows "\<exists>a2 r1 a3 i2 ti tr. responder_act_one E a1 (Responder_new E rs re) = (Inr a2, r1)
    \<and> initiator_act_two E a2 i1 = (Inr a3, i2) \<and> into_transport i2 = Inr ti
    \<and> responder_act_three E a3 r1 = Inr (sk_public_key E ls, tr)
    \<and> length a1 = ACT_ONE_LEN \<and> length a2 = ACT_TWO_LEN \<and> length a3 = ACT_THREE_LEN
    \<and> tr_send ti = tr_recv tr \<and> tr_recv ti = tr_send tr \<and> tr_buffer tr = [] \<and> tr_buffer ti = []
    \<and> tr_pending_len tr = None \<and> tr_pending_len ti = None"
proof -
  have dh: "ecdh E (sk_public_key E a) b = ecdh E (sk_public_key E b) a" for a b using laws by (rule curve_dh)
  have pk: "length (sk_public_key E a) = 33" "pubkey_from_slice_ok E (sk_public_key E a)" for a
    using laws by (simp_all add: curve_pk_length curve_pk_ok)
  obtain k1 st1 where k1: "mix_key (ecdh E (sk_public_key E rs) ie) (mix_hash (sk_public_key E ie) (SymmetricState_new (sk_public_key E rs))) = (k1, st1)"
    by fastforce
  define c1 where "c1 = aead_encrypt k1 (nonce_from_counter 0) (ss_h st1) []"
  define st1' where "st1' = mix_hash c1 st1"
  obtain k2 st2 where k2: "mix_key (ecdh E (sk_public_key E ie) re) (mix_hash (sk_public_key E re) st1') = (k2, st2)"
    by fastforce
  define c2 where "c2 = aead_encrypt k2 (nonce_from_counter 0) (ss_h st2) []"
  define st2' where "st2' = mix_hash c2 st2"
  define c3 where "c3 = aead_encrypt k2 (nonce_from_counter 1) (ss_h st2') (sk_public_key E ls)"
  obtain k3 st3 where k3: "mix_key (ecdh E (sk_public_key E re) ls) (mix_hash c3 st2') = (k3, st3)" by fastforce
  define t3 where "t3 = aead_encrypt k3 (nonce_from_counter 0) (ss_h st3) []"
  obtain sk rk where tk: "two_keys (ss_ck st3) [] = (sk, rk)" by fastforce
  note enc = c1_def [symmetric] st1'_def [symmetric] c2_def [symmetric] st2'_def [symmetric] c3_def [symmetric] t3_def [symmetric]
  have dec: "aead_decrypt k1 (nonce_from_counter 0) (ss_h st1) c1 = Inr []" "aead_decrypt k2 (nonce_from_counter 0) (ss_h st2) c2 = Inr []"
    "aead_decrypt k2 (nonce_from_counter 1) (ss_h st2') c3 = Inr (sk_public_key E ls)"
    "aead_decrypt k3 (nonce_from_counter 0) (ss_h st3) t3 = Inr []"
    by (simp_all add: c1_def c2_def c3_def t3_def aead.unseal_seal)
  have len: "length c1 = 16" "length c2 = 16" "length c3 = 49" "length t3 = 16"
    by (simp_all add: c1_def c2_def c3_def t3_def aead.seal_length pk)
  let ?i0 = "Initiator_new ls (sk_public_key E rs) ie" and ?r0 = "Responder_new E rs re"
  let ?a2 = "[0] @ sk_public_key E re @ c2" and ?a3 = "[0] @ c3 @ t3"
  have a1: "a1 = [0] @ sk_public_key E ie @ c1" and i1: "i1 = ?i0\<lparr>ini_st := st1'\<rparr>"
    using one k1 by (simp_all add: initiator_act_one_def Initiator_new_def Let_def enc)
  let ?r1 = "?r0\<lparr>res_st := st2', res_remote_ephemeral := Some (sk_public_key E ie), res_temp_k2 := Some k2\<rparr>"
  have act1: "responder_act_one E a1 ?r0 = (Inr ?a2, ?r1)"
    using k1 k2 by (simp add: responder_act_one_def a1 pk Responder_new_def dh [of ie rs] Let_def dec enc)
  let ?i2 = "i1\<lparr>ini_st := st3, ini_temp_k2 := Some k2, ini_done := True\<rparr>"
  have act2: "initiator_act_two E ?a2 i1 = (Inr ?a3, ?i2)"
    using k2 k3 by (simp add: initiator_act_two_def i1 pk Initiator_new_def dh [of re ie] Let_def dec enc)
  have act3: "responder_act_three E ?a3 ?r1 = Inr (sk_public_key E ls, Transport_new (ss_ck st3) rk sk)"
    using k3 tk by (simp add: responder_act_three_def pk len Responder_new_def dh [of ls re] Let_def dec enc)
  have "into_transport ?i2 = Inr (Transport_new (ss_ck st3) sk rk)" by (simp add: into_transport_def tk)
  then show ?thesis
    using act1 act2 act3 by (simp add: a1 len pk ACT_ONE_LEN_def ACT_TWO_LEN_def ACT_THREE_LEN_def Transport_new_def)
qed

end
