(* ===== verification/Peer.thy ===== *)
theory Peer
  imports Noise Features
begin

text \<open>\<^verbatim>\<open>src/src/node/peer.rs\<close>: a connection from its first byte to the stream of decrypted messages.
  \<open>peer_input\<close> is \<^verbatim>\<open>Peer::input\<close>; \<open>None\<close> is the panic of \<^verbatim>\<open>unreachable!\<close> on a poisoned transport.
  The theorems: two honest peers complete the handshake whatever way the bytes are cut into reads, and every message sent
  afterwards is delivered, once and in order, across key rotations.
\<close>

section \<open>Popping messages\<close>

lemma next_body_shrinks:
  "next_body n t = (Inr (Some m), t') \<Longrightarrow> length (tr_buffer t') < length (tr_buffer t)"
  by (auto simp: next_body_def Let_def split: if_splits prod.splits sum.splits)

lemma next_message_shrinks:
  assumes "next_message t = (Inr (Some m), t')"
  shows "length (tr_buffer t') < length (tr_buffer t)"
  using assms
  by (auto simp: next_message_def Let_def split: option.splits if_splits prod.splits sum.splits dest!: next_body_shrinks)

text \<open>\<^verbatim>\<open>while let Some(msg) = transport.next_message()? \<close>: an error drops the messages collected so far.\<close>

function drain_messages :: "Transport \<Rightarrow> bytes list \<Rightarrow> (NoiseError, bytes list) result \<times> Transport" where
  "drain_messages t messages =
     (case next_message t of
        (Inl e, t) \<Rightarrow> (Inl e, t)
      | (Inr None, t) \<Rightarrow> (Inr messages, t)
      | (Inr (Some msg), t) \<Rightarrow> drain_messages t (messages @ [msg]))"
  by pat_completeness auto
termination
  by (relation "measure (\<lambda>(t, _). length (tr_buffer t))") (auto dest: next_message_shrinks [OF sym])

declare drain_messages.simps [simp del]

section \<open>Peers\<close>

datatype PeerTransport =
    OutboundHandshake Initiator
  | InboundHandshake Responder
  | Ready Transport
  | Poisoned

record Peer =
  peer_transport :: PeerTransport
  handshake_buf :: bytes
  peer_node_id :: "PublicKey option"
  init_sent :: bool
  init_received :: bool
  peer_features :: Features
  expected_node_id :: "PublicKey option"
  last_ping_sent_at :: u64
  awaiting_pong :: bool

definition peer_new_outbound :: "Initiator \<Rightarrow> PublicKey \<Rightarrow> Peer" where
  "peer_new_outbound initiator remote =
     \<lparr>peer_transport = OutboundHandshake initiator, handshake_buf = [], peer_node_id = Some remote,
      init_sent = False, init_received = False, peer_features = features_empty, expected_node_id = Some remote,
      last_ping_sent_at = 0, awaiting_pong = False\<rparr>"

definition peer_new_inbound :: "Responder \<Rightarrow> Peer" where
  "peer_new_inbound responder =
     \<lparr>peer_transport = InboundHandshake responder, handshake_buf = [], peer_node_id = None,
      init_sent = False, init_received = False, peer_features = features_empty, expected_node_id = None,
      last_ping_sent_at = 0, awaiting_pong = False\<rparr>"

definition peer_is_ready :: "Peer \<Rightarrow> bool" where
  "peer_is_ready p = ((case peer_transport p of Ready _ \<Rightarrow> True | _ \<Rightarrow> False) \<and> init_sent p \<and> init_received p)"

definition handshake_acted_one :: "Peer \<Rightarrow> bool" where
  "handshake_acted_one p = (case peer_transport p of InboundHandshake r \<Rightarrow> acted_one r | _ \<Rightarrow> True)"

type_synonym input_result = "((NoiseError, bytes list \<times> bytes list) result \<times> Peer) option"

definition input_ready :: "Transport \<Rightarrow> bytes \<Rightarrow> bytes list \<Rightarrow> Peer \<Rightarrow> input_result" where
  "input_ready t data to_send p =
     (case drain_messages (read_input data t) [] of
        (Inl e, t) \<Rightarrow> Some (Inl e, p\<lparr>peer_transport := Ready t\<rparr>)
      | (Inr messages, t) \<Rightarrow> Some (Inr (to_send, messages), p\<lparr>peer_transport := Ready t\<rparr>))"

text \<open>One iteration of the handshake arms; each either returns or leaves \<open>Ready\<close> for the next iteration, with no data left.\<close>

definition input_outbound :: "Curve \<Rightarrow> Initiator \<Rightarrow> bytes \<Rightarrow> Peer \<Rightarrow> input_result" where
  "input_outbound E init data p =
     (let buf = handshake_buf p @ data in
      if length buf < ACT_TWO_LEN then Some (Inr ([], []), p\<lparr>handshake_buf := buf\<rparr>)
      else
        let act2 = take ACT_TWO_LEN buf;
            rest = drop ACT_TWO_LEN buf;
            p = p\<lparr>handshake_buf := [], peer_transport := Poisoned\<rparr>
        in case initiator_act_two E act2 init of
             (Inl e, _) \<Rightarrow> Some (Inl e, p)
           | (Inr act3, init) \<Rightarrow>
               case into_transport init of
                 Inl e \<Rightarrow> Some (Inl e, p)
               | Inr t \<Rightarrow> input_ready (read_input rest t) [] [act3] p)"

definition input_act_three :: "Curve \<Rightarrow> Responder \<Rightarrow> bytes list \<Rightarrow> Peer \<Rightarrow> input_result" where
  "input_act_three E resp to_send p =
     (if length (handshake_buf p) < ACT_THREE_LEN then Some (Inr (to_send, []), p)
      else
        let act3 = take ACT_THREE_LEN (handshake_buf p);
            rest = drop ACT_THREE_LEN (handshake_buf p);
            p = p\<lparr>handshake_buf := [], peer_transport := Poisoned\<rparr>
        in case responder_act_three E act3 resp of
             Inl e \<Rightarrow> Some (Inl e, p)
           | Inr (remote_id, t) \<Rightarrow>
               input_ready (read_input rest t) [] to_send (p\<lparr>peer_node_id := Some remote_id\<rparr>))"

definition input_inbound :: "Curve \<Rightarrow> Responder \<Rightarrow> bytes \<Rightarrow> Peer \<Rightarrow> input_result" where
  "input_inbound E resp data p =
     (let p = p\<lparr>handshake_buf := handshake_buf p @ data\<rparr> in
      if \<not> handshake_acted_one p then
        if length (handshake_buf p) < ACT_ONE_LEN then Some (Inr ([], []), p)
        else
          let act1 = take ACT_ONE_LEN (handshake_buf p);
              p = p\<lparr>handshake_buf := drop ACT_ONE_LEN (handshake_buf p), peer_transport := Poisoned\<rparr>
          in case responder_act_one E act1 resp of
               (Inl e, _) \<Rightarrow> Some (Inl e, p)
             | (Inr act2, resp) \<Rightarrow> input_act_three E resp [act2] (p\<lparr>peer_transport := InboundHandshake resp\<rparr>)
      else input_act_three E resp [] p)"

definition peer_input :: "Curve \<Rightarrow> bytes \<Rightarrow> Peer \<Rightarrow> input_result" where
  "peer_input E data p =
     (case peer_transport p of
        OutboundHandshake init \<Rightarrow> input_outbound E init data p
      | InboundHandshake resp \<Rightarrow> input_inbound E resp data p
      | Ready t \<Rightarrow> input_ready t data [] p
      | Poisoned \<Rightarrow> None)"

definition peer_encrypt :: "bytes \<Rightarrow> Peer \<Rightarrow> (NoiseError, bytes) result \<times> Peer" where
  "peer_encrypt plaintext p =
     (case peer_transport p of
        Ready t \<Rightarrow> (let (r, t) = encrypt_message plaintext t in (r, p\<lparr>peer_transport := Ready t\<rparr>))
      | _ \<Rightarrow> (Inl WrongState, p))"

section \<open>Reads may be cut anywhere\<close>

lemma read_input_twice [simp]: "read_input d (read_input c t) = read_input (c @ d) t"
  by (simp add: read_input_def)

lemma read_input_nil [simp]: "read_input [] t = t"
  by (simp add: read_input_def)

lemma next_body_more:
  assumes "next_body n t = (r, t')"
  shows "case r of
      Inl e \<Rightarrow> fst (next_body n (read_input d t)) = Inl e
    | Inr None \<Rightarrow> t' = t
    | Inr (Some m) \<Rightarrow> next_body n (read_input d t) = (Inr (Some m), read_input d t')"
  using assms by (auto simp: next_body_def read_input_def Let_def split: if_splits prod.splits sum.splits)

lemma next_message_more:
  assumes "next_message t = (r, t')"
  shows "case r of
      Inl e \<Rightarrow> fst (next_message (read_input d t)) = Inl e
    | Inr None \<Rightarrow> next_message (read_input d t) = next_message (read_input d t')
    | Inr (Some m) \<Rightarrow> next_message (read_input d t) = (Inr (Some m), read_input d t')"
proof (cases "tr_pending_len t")
  case (Some l)
  then have eq: "next_message t = next_body l t" "next_message (read_input d t) = next_body l (read_input d t)"
    by (simp_all add: next_message_def read_input_def)
  show ?thesis
    using next_body_more [of l t r t' d] assms unfolding eq by (auto split: sum.splits option.splits simp: eq)
next
  case None
  show ?thesis
  proof (cases "length (tr_buffer t) < 18")
    case True
    then have "r = Inr None" "t' = t" using assms None by (simp_all add: next_message_def)
    then show ?thesis by simp
  next
    case False
    obtain k n c where pr: "process (tr_recv t) = ((k, n), c)" by (metis prod.collapse)
    show ?thesis
    proof (cases "aead_decrypt k n [] (take 18 (tr_buffer t))")
      case (Inl e)
      then show ?thesis using assms None False by (auto simp: next_message_def read_input_def pr)
    next
      case (Inr lb)
      let ?l = "unat (from_be_bytes lb :: u16)"
      let ?t = "t\<lparr>tr_recv := c, tr_buffer := drop 18 (tr_buffer t), tr_pending_len := Some ?l\<rparr>"
      have swap: "?t\<lparr>tr_buffer := b\<rparr> = t\<lparr>tr_recv := c, tr_buffer := b, tr_pending_len := Some ?l\<rparr>" for b by simp
      have nm: "next_message t = next_body ?l ?t" "next_message (read_input d t) = next_body ?l (read_input d ?t)"
        using None False Inr by (simp_all add: next_message_def read_input_def pr Let_def swap)
      have pend: "next_message (read_input d ?t) = next_body ?l (read_input d ?t)"
        by (simp add: next_message_def read_input_def)
      show ?thesis
        using next_body_more [of ?l ?t r t' d] assms unfolding nm by (auto simp: pend split: sum.splits option.splits)
    qed
  qed
qed

lemma drain_more:
  "case drain_messages t acc of
     (Inl e, _) \<Rightarrow> fst (drain_messages (read_input d t) acc) = Inl e
   | (Inr ms, t') \<Rightarrow> drain_messages (read_input d t) acc = drain_messages (read_input d t') ms"
proof (induction t acc rule: drain_messages.induct)
  case (1 t acc)
  obtain r t' where nm: "next_message t = (r, t')" by fastforce
  note more = next_message_more [OF nm, of d]
  show ?case
  proof (cases r)
    case (Inl e)
    then show ?thesis
      using more by (auto simp: nm drain_messages.simps [of t] drain_messages.simps [of "read_input d t"] split: prod.splits)
  next
    case (Inr ro)
    show ?thesis
    proof (cases ro)
      case None
      then show ?thesis
        using more Inr nm by (simp add: drain_messages.simps [of t] drain_messages.simps [of "read_input d t"]
          drain_messages.simps [of "read_input d t'"])
    next
      case (Some m)
      have "drain_messages t acc = drain_messages t' (acc @ [m])"
        "drain_messages (read_input d t) acc = drain_messages (read_input d t') (acc @ [m])"
        using more Inr Some nm
        by (simp_all add: drain_messages.simps [of t acc] drain_messages.simps [of "read_input d t" acc])
      then show ?thesis using "1.IH" [OF nm [symmetric]] Inr Some by (simp split: prod.splits sum.splits)
    qed
  qed
qed

lemma drain_acc:
  "drain_messages t (pre @ acc) =
     (case drain_messages t acc of (Inl e, t') \<Rightarrow> (Inl e, t') | (Inr ms, t') \<Rightarrow> (Inr (pre @ ms), t'))"
proof (induction t acc rule: drain_messages.induct)
  case (1 t acc)
  obtain r t' where nm: "next_message t = (r, t')" by fastforce
  then show ?case
    using "1.IH" [OF nm [symmetric]]
    by (auto simp: drain_messages.simps [of t] split: sum.splits option.splits)
qed

text \<open>Reading two pieces one after the other, the second only when the first succeeds.\<close>

definition input_two :: "Curve \<Rightarrow> bytes \<Rightarrow> input_result \<Rightarrow> input_result" where
  "input_two E d r =
     (case r of
        Some (Inr (s1, m1), p1) \<Rightarrow>
          (case peer_input E d p1 of
             Some (Inr (s2, m2), p2) \<Rightarrow> Some (Inr (s1 @ s2, m1 @ m2), p2)
           | other \<Rightarrow> other)
      | other \<Rightarrow> other)"

abbreviation same_ok :: "input_result \<Rightarrow> input_result \<Rightarrow> bool" where
  "same_ok a b \<equiv> (\<forall>v p. a = Some (Inr v, p) \<longleftrightarrow> b = Some (Inr v, p))"

lemma input_ready_split:
  "same_ok (input_ready t (d1 @ d2) s p) (input_two E d2 (input_ready t d1 s p))"
proof -
  obtain r t' where dr: "drain_messages (read_input d1 t) [] = (r, t')" by fastforce
  have more: "case (r, t') of
     (Inl e, _) \<Rightarrow> fst (drain_messages (read_input (d1 @ d2) t) []) = Inl e
   | (Inr ms, t') \<Rightarrow> drain_messages (read_input (d1 @ d2) t) [] = drain_messages (read_input d2 t') ms"
    using drain_more [where t = "read_input d1 t" and acc = "[]" and d = d2] by (simp add: dr split: sum.splits)
  show ?thesis
  proof (cases r)
    case (Inl e)
    then show ?thesis using more by (auto simp: input_ready_def input_two_def dr split: prod.splits)
  next
    case (Inr ms)
    then show ?thesis
      using more drain_acc [of "read_input d2 t'" ms "[]"]
      by (auto simp: input_ready_def input_two_def dr peer_input_def split: prod.splits sum.splits)
  qed
qed

lemma input_ready_rest:
  "input_ready (read_input (a @ b) t) [] s p = input_ready (read_input a t) b s p"
  by (simp add: input_ready_def)

lemma input_outbound_split:
  assumes "peer_transport p = OutboundHandshake i"
  shows "same_ok (input_outbound E i (d1 @ d2) p) (input_two E d2 (input_outbound E i d1 p))"
proof (cases "length (handshake_buf p @ d1) < ACT_TWO_LEN")
  case True
  then have "input_outbound E i d1 p = Some (Inr ([], []), p\<lparr>handshake_buf := handshake_buf p @ d1\<rparr>)"
    by (simp add: input_outbound_def Let_def)
  moreover have "peer_input E d2 (p\<lparr>handshake_buf := handshake_buf p @ d1\<rparr>) = input_outbound E i (d1 @ d2) p"
    using assms by (simp add: peer_input_def input_outbound_def Let_def)
  ultimately show ?thesis by (auto simp: input_two_def split: option.splits sum.splits)
next
  case False
  then have cut: "take ACT_TWO_LEN (handshake_buf p @ d1 @ d2) = take ACT_TWO_LEN (handshake_buf p @ d1)"
    "drop ACT_TWO_LEN (handshake_buf p @ d1 @ d2) = drop ACT_TWO_LEN (handshake_buf p @ d1) @ d2"
    by simp_all
  then show ?thesis
    using False
    by (auto simp: input_outbound_def Let_def cut input_ready_rest input_two_def
        input_ready_split [where ?d1.0 = "[]" and ?d2.0 = d2, simplified, unfolded input_two_def]
        split: prod.splits sum.splits simp del: take_append drop_append)
qed

lemma input_act_three_split:
  assumes "peer_transport p = InboundHandshake r" and "acted_one r"
  shows "same_ok (input_act_three E r s (p\<lparr>handshake_buf := handshake_buf p @ d\<rparr>)) (input_two E d (input_act_three E r s p))"
proof (cases "length (handshake_buf p) < ACT_THREE_LEN")
  case True
  then have "input_act_three E r s p = Some (Inr (s, []), p)" by (simp add: input_act_three_def)
  moreover have "peer_input E d p = input_act_three E r [] (p\<lparr>handshake_buf := handshake_buf p @ d\<rparr>)"
    using assms by (simp add: peer_input_def input_inbound_def handshake_acted_one_def Let_def)
  ultimately show ?thesis
    by (auto simp: input_two_def input_act_three_def input_ready_def Let_def split: prod.splits sum.splits)
next
  case False
  then have cut: "take ACT_THREE_LEN (handshake_buf p @ d) = take ACT_THREE_LEN (handshake_buf p)"
    "drop ACT_THREE_LEN (handshake_buf p @ d) = drop ACT_THREE_LEN (handshake_buf p) @ d"
    by simp_all
  then show ?thesis
    using False
    by (auto simp: input_act_three_def Let_def cut input_ready_rest input_two_def
        input_ready_split [where ?d1.0 = "[]" and ?d2.0 = d, simplified, unfolded input_two_def]
        split: prod.splits sum.splits simp del: take_append drop_append)
qed

lemma responder_act_one_acted: "responder_act_one E a r = (Inr b, r') \<Longrightarrow> acted_one r'"
  by (auto simp: responder_act_one_def acted_one_def Let_def split: if_splits prod.splits sum.splits)

lemma input_inbound_split:
  assumes p: "peer_transport p = InboundHandshake r"
  shows "same_ok (input_inbound E r (d1 @ d2) p) (input_two E d2 (input_inbound E r d1 p))"
proof -
  let ?p = "p\<lparr>handshake_buf := handshake_buf p @ d1\<rparr>"
  show ?thesis
  proof (cases "acted_one r")
    case True
    then show ?thesis
      using input_act_three_split [of ?p r E "[]" d2] p by (simp add: input_inbound_def handshake_acted_one_def)
  next
    case False
    note fresh = False
    show ?thesis
    proof (cases "length (handshake_buf p @ d1) < ACT_ONE_LEN")
      case True
      then have "input_inbound E r d1 p = Some (Inr ([], []), ?p)"
        using fresh p by (simp add: input_inbound_def handshake_acted_one_def Let_def)
      moreover have "peer_input E d2 ?p = input_inbound E r (d1 @ d2) p"
        using p by (simp add: peer_input_def input_inbound_def Let_def handshake_acted_one_def)
      ultimately show ?thesis by (auto simp: input_two_def split: option.splits sum.splits)
    next
      case False
      obtain a r' where act: "responder_act_one E (take ACT_ONE_LEN (handshake_buf p @ d1)) r = (a, r')" by fastforce
      have cut: "take ACT_ONE_LEN (handshake_buf p @ d1 @ d2) = take ACT_ONE_LEN (handshake_buf p @ d1)"
        "drop ACT_ONE_LEN (handshake_buf p @ d1 @ d2) = drop ACT_ONE_LEN (handshake_buf p @ d1) @ d2"
        using False by simp_all
      let ?q = "p\<lparr>handshake_buf := drop ACT_ONE_LEN (handshake_buf p @ d1), peer_transport := InboundHandshake r'\<rparr>"
      have swap: "p\<lparr>peer_transport := x, handshake_buf := y\<rparr> = p\<lparr>handshake_buf := y, peer_transport := x\<rparr>" for x y by simp
      have one: "input_inbound E r (d1 @ d) p = (case a of Inl e \<Rightarrow> Some (Inl e, p\<lparr>handshake_buf := handshake_buf ?q @ d, peer_transport := Poisoned\<rparr>)
          | Inr b \<Rightarrow> input_act_three E r' [b] (?q\<lparr>handshake_buf := handshake_buf ?q @ d\<rparr>))"
        if "d = [] \<or> d = d2" for d
        using that fresh p False act cut
        by (auto simp: input_inbound_def handshake_acted_one_def Let_def swap simp del: take_append drop_append split: sum.splits)
      show ?thesis
      proof (cases a)
        case (Inl e)
        then show ?thesis using one [of d2] one [of "[]"] by (simp add: input_two_def)
      next
        case (Inr b)
        then show ?thesis
          using one [of d2] one [of "[]"] input_act_three_split [of ?q r' E "[b]" d2] responder_act_one_acted act by (simp add: swap)
      qed
    qed
  qed
qed

lemma input_split: "same_ok (peer_input E (d1 @ d2) p) (input_two E d2 (peer_input E d1 p))"
proof (cases "peer_transport p")
  case (OutboundHandshake i)
  then show ?thesis using input_outbound_split [of p i E d1 d2] by (simp add: peer_input_def)
next
  case (InboundHandshake r)
  then show ?thesis using input_inbound_split [of p r E d1 d2] by (simp add: peer_input_def)
next
  case (Ready t)
  then show ?thesis using input_ready_split [of t d1 d2 "[]" p E] by (simp add: peer_input_def)
next
  case Poisoned
  then show ?thesis by (simp add: peer_input_def input_two_def)
qed

section \<open>Delivery\<close>

text \<open>The byte stream of a list of messages and the cipher state after it.\<close>

primrec frames :: "CipherState \<Rightarrow> bytes list \<Rightarrow> bytes list \<times> CipherState" where
  "frames c [] = ([], c)"
| "frames c (m # ms) =
     (let ((k, n), c1) = process c; ((k', n'), c2) = process c1; (fs, c3) = frames c2 ms
      in ((aead_encrypt k n [] (to_be_bytes (of_nat (length m) :: u16)) @ aead_encrypt k' n' [] m) # fs, c3))"

lemma next_message_frame:
  assumes pend: "tr_pending_len t = None" and small: "length m \<le> MAX_MSG_LEN"
    and pr: "process (tr_recv t) = ((k, n), c1)" and pr': "process c1 = ((k', n'), c2)"
    and buf: "tr_buffer t = (aead_encrypt k n [] (to_be_bytes (of_nat (length m) :: u16)) @ aead_encrypt k' n' [] m) @ rest"
  shows "next_message t = (Inr (Some m), t\<lparr>tr_recv := c2, tr_buffer := rest\<rparr>)"
proof -
  have ul: "unat (of_nat (length m) :: u16) = length m"
    using small by (simp add: MAX_MSG_LEN_def unsigned_of_nat take_bit_nat_eq_self)
  define l where "l = aead_encrypt k n [] (to_be_bytes (of_nat (length m) :: u16))"
  define b where "b = aead_encrypt k' n' [] m"
  have len: "length l = 18" "length b = length m + 16" by (simp_all add: l_def b_def aead.seal_length)
  have dec: "aead_decrypt k n [] l = Inr (to_be_bytes (of_nat (length m) :: u16))" "aead_decrypt k' n' [] b = Inr m"
    by (simp_all add: l_def b_def aead.unseal_seal)
  have eq: "tr_buffer t = l @ b @ rest" using buf by (simp add: l_def b_def)
  have "t\<lparr>tr_pending_len := None\<rparr> = t" using pend by simp
  then have t: "t\<lparr>tr_recv := c2, tr_buffer := rest, tr_pending_len := None\<rparr> = t\<lparr>tr_recv := c2, tr_buffer := rest\<rparr>"
    by (metis Transport.surjective Transport.update_convs)
  show ?thesis
    using pend by (simp add: next_message_def next_body_def pr pr' eq len dec ul t Let_def)
qed

lemma drain_frames:
  assumes "list_all (\<lambda>m. length m \<le> MAX_MSG_LEN) ms" and "frames (tr_recv t) ms = (fs, c)"
    and "tr_pending_len t = None" and "tr_buffer t = concat fs"
  shows "drain_messages t acc = (Inr (acc @ ms), t\<lparr>tr_recv := c, tr_buffer := []\<rparr>)"
  using assms
proof (induction ms arbitrary: t fs acc)
  case Nil
  then have "next_message t = (Inr None, t)" by (simp add: next_message_def)
  then show ?case using Nil by (simp add: drain_messages.simps [of t])
next
  case (Cons m ms)
  obtain k n c1 where pr: "process (tr_recv t) = ((k, n), c1)" by (metis prod.collapse)
  obtain k' n' c2 where pr': "process c1 = ((k', n'), c2)" by (metis prod.collapse)
  obtain fs' where fs: "frames c2 ms = (fs', c)"
    "fs = (aead_encrypt k n [] (to_be_bytes (of_nat (length m) :: u16)) @ aead_encrypt k' n' [] m) # fs'"
    using Cons.prems by (auto simp: pr pr' Let_def split: prod.splits)
  have "next_message t = (Inr (Some m), t\<lparr>tr_recv := c2, tr_buffer := concat fs'\<rparr>)"
    by (rule next_message_frame [OF _ _ pr pr']) (use Cons.prems in \<open>simp_all add: fs\<close>)
  then show ?case
    using Cons.IH [of "t\<lparr>tr_recv := c2, tr_buffer := concat fs'\<rparr>" fs' "acc @ [m]"] Cons.prems fs
    by (simp add: drain_messages.simps [of t])
qed

text \<open>Two connected peers: what one sends under is what the other receives under, and nothing is in flight.\<close>

definition mirrored :: "Peer \<Rightarrow> Peer \<Rightarrow> bool" where
  "mirrored p q \<longleftrightarrow>
     (case (peer_transport p, peer_transport q) of
        (Ready a, Ready b) \<Rightarrow> tr_send a = tr_recv b \<and> tr_recv a = tr_send b \<and> tr_buffer a = [] \<and> tr_buffer b = []
          \<and> tr_pending_len a = None \<and> tr_pending_len b = None
      | _ \<Rightarrow> False)"

text \<open>A run of calls to \<^verbatim>\<open>Peer::encrypt\<close>, and a run of calls to \<^verbatim>\<open>Peer::input\<close>, each stopping at the first failure.\<close>

primrec encrypt_run :: "bytes list \<Rightarrow> Peer \<Rightarrow> (NoiseError, bytes list) result \<times> Peer" where
  "encrypt_run [] p = (Inr [], p)"
| "encrypt_run (m # ms) p =
     (case peer_encrypt m p of
        (Inl e, p) \<Rightarrow> (Inl e, p)
      | (Inr f, p) \<Rightarrow> (case encrypt_run ms p of (Inl e, p) \<Rightarrow> (Inl e, p) | (Inr fs, p) \<Rightarrow> (Inr (f # fs), p)))"

primrec input_run :: "Curve \<Rightarrow> bytes list \<Rightarrow> Peer \<Rightarrow> input_result" where
  "input_run E [] p = Some (Inr ([], []), p)"
| "input_run E (d # ds) p =
     (case peer_input E d p of
        Some (Inr (s1, m1), p1) \<Rightarrow>
          (case input_run E ds p1 of Some (Inr (s2, m2), p2) \<Rightarrow> Some (Inr (s1 @ s2, m1 @ m2), p2) | other \<Rightarrow> other)
      | other \<Rightarrow> other)"

lemma input_run_concat:
  "ds \<noteq> [] \<Longrightarrow> peer_input E (concat ds) p = Some (Inr v, p') \<Longrightarrow> input_run E ds p = Some (Inr v, p')"
proof (induction ds arbitrary: p v p')
  case Nil
  then show ?case by simp
next
  case (Cons d ds)
  show ?case
  proof (cases "ds = []")
    case True
    then show ?thesis using Cons.prems by (cases v) simp
  next
    case False
    have "input_two E (concat ds) (peer_input E d p) = Some (Inr v, p')"
      using Cons.prems input_split [of E d "concat ds" p] by simp
    then obtain s1 m1 p1 s2 m2 where one: "peer_input E d p = Some (Inr (s1, m1), p1)"
      and two: "peer_input E (concat ds) p1 = Some (Inr (s2, m2), p')" and v: "v = (s1 @ s2, m1 @ m2)"
      by (auto simp: input_two_def split: option.splits prod.splits sum.splits)
    show ?thesis using Cons.IH [OF False two] by (simp add: one v)
  qed
qed

lemma encrypt_run_frames:
  assumes "peer_transport p = Ready t" and "list_all (\<lambda>m. length m \<le> MAX_MSG_LEN) ms"
    and "frames (tr_send t) ms = (fs, c)"
  shows "encrypt_run ms p = (Inr fs, p\<lparr>peer_transport := Ready (t\<lparr>tr_send := c\<rparr>)\<rparr>)"
  using assms
proof (induction ms arbitrary: p t fs)
  case Nil
  then have "p\<lparr>peer_transport := Ready (t\<lparr>tr_send := c\<rparr>)\<rparr> = p" by simp
  then show ?case using Nil by simp
next
  case (Cons m ms)
  obtain k n c1 where pr: "process (tr_send t) = ((k, n), c1)" by (metis prod.collapse)
  obtain k' n' c2 where pr': "process c1 = ((k', n'), c2)" by (metis prod.collapse)
  let ?f = "aead_encrypt k n [] (to_be_bytes (of_nat (length m) :: u16)) @ aead_encrypt k' n' [] m"
  obtain fs' where fs: "frames c2 ms = (fs', c)" "fs = ?f # fs'"
    using Cons.prems by (auto simp: pr pr' Let_def split: prod.splits)
  let ?p = "p\<lparr>peer_transport := Ready (t\<lparr>tr_send := c2\<rparr>)\<rparr>"
  have "peer_encrypt m p = (Inr ?f, ?p)"
    using Cons.prems by (simp add: peer_encrypt_def encrypt_message_def pr pr')
  then show ?case using Cons.IH [of ?p "t\<lparr>tr_send := c2\<rparr>" fs'] Cons.prems fs by simp
qed

lemma frames_nonempty: "frames c ms = (fs, c') \<Longrightarrow> list_all (\<lambda>f. f \<noteq> []) fs \<and> length fs = length ms"
proof (induction ms arbitrary: c fs)
  case Nil
  then show ?case by simp
next
  case (Cons m ms)
  have "aead_encrypt k n [] x \<noteq> []" for k n x
    using aead.seal_length [of k n "[]" x] by auto
  then show ?case using Cons by (auto simp: Let_def split: prod.splits)
qed

lemma input_frames:
  assumes mir: "mirrored p q" and small: "list_all (\<lambda>m. length m \<le> MAX_MSG_LEN) ms"
  shows "\<exists>fs p' q'. encrypt_run ms p = (Inr fs, p') \<and> peer_input E (concat fs) q = Some (Inr ([], ms), q')
    \<and> mirrored p' q' \<and> length fs = length ms \<and> (fs = [] \<longrightarrow> q' = q) \<and> list_all (\<lambda>f. f \<noteq> []) fs"
proof -
  obtain a b where t: "peer_transport p = Ready a" "peer_transport q = Ready b"
    and eq: "tr_send a = tr_recv b" "tr_recv a = tr_send b" "tr_buffer a = []" "tr_buffer b = []"
      "tr_pending_len a = None" "tr_pending_len b = None"
    using mir by (auto simp: mirrored_def split: PeerTransport.splits)
  obtain fs c where fs: "frames (tr_send a) ms = (fs, c)" by fastforce
  have b: "drain_messages (read_input (concat fs) b) [] = (Inr ms, b\<lparr>tr_recv := c\<rparr>)"
    using drain_frames [of ms "read_input (concat fs) b" fs c "[]"] small fs eq
    by (simp add: read_input_def)
  have "peer_input E (concat fs) q = Some (Inr ([], ms), q\<lparr>peer_transport := Ready (b\<lparr>tr_recv := c\<rparr>)\<rparr>)"
    by (simp add: peer_input_def t input_ready_def b)
  moreover have "mirrored (p\<lparr>peer_transport := Ready (a\<lparr>tr_send := c\<rparr>)\<rparr>) (q\<lparr>peer_transport := Ready (b\<lparr>tr_recv := c\<rparr>)\<rparr>)"
    using eq by (simp add: mirrored_def)
  moreover have "q\<lparr>peer_transport := Ready (b\<lparr>tr_recv := c\<rparr>)\<rparr> = q" if "fs = []"
  proof -
    have "ms = []" using frames_nonempty [OF fs] that by simp
    then have "c = tr_recv b" using fs eq by simp
    then show ?thesis using t by simp
  qed
  ultimately show ?thesis using encrypt_run_frames [OF t(1) small fs] frames_nonempty [OF fs] by blast
qed

text \<open>C23: Reading is insensitive to how the socket cuts the stream. On any peer, in any state, honest or
  not, \<^verbatim>\<open>Peer::input\<close> of two pieces at once succeeds exactly when the two inputs one after the other
  do, and then the bytes to write back, the messages and the resulting peer are the same.
\<close>

theorem peer_input_cut_anywhere:
  "peer_input E (d1 @ d2) p = Some (Inr (s, m), p') \<longleftrightarrow>
     (\<exists>s1 m1 p1 s2 m2. peer_input E d1 p = Some (Inr (s1, m1), p1) \<and> peer_input E d2 p1 = Some (Inr (s2, m2), p')
        \<and> s = s1 @ s2 \<and> m = m1 @ m2)"
  using input_split [of E d1 d2 p]
  by (auto simp: input_two_def split: option.splits prod.splits sum.splits)

text \<open>C21: Delivery. Between connected peers, any list of messages of at most 65535 bytes is encrypted without an error, and whatever
  way the resulting bytes are cut into reads, the receiver's inputs return exactly those messages in that order, write nothing
  back and leave the two peers connected again, across any number of key rotations.
\<close>

theorem messages_delivered_in_order:
  assumes "mirrored p q" and "list_all (\<lambda>m. length m \<le> MAX_MSG_LEN) ms"
  shows "\<exists>fs p'. encrypt_run ms p = (Inr fs, p')
    \<and> (\<forall>ds. concat ds = concat fs \<longrightarrow> (\<exists>q'. input_run E ds q = Some (Inr ([], ms), q') \<and> mirrored p' q'))"
proof -
  obtain fs p' q' where fs: "encrypt_run ms p = (Inr fs, p')" "peer_input E (concat fs) q = Some (Inr ([], ms), q')"
    "mirrored p' q'" "length fs = length ms" "fs = [] \<longrightarrow> q' = q" "list_all (\<lambda>f. f \<noteq> []) fs"
    using input_frames [OF assms] by metis
  have "\<exists>q'. input_run E ds q = Some (Inr ([], ms), q') \<and> mirrored p' q'" if ds: "concat ds = concat fs" for ds
  proof (cases "ds = []")
    case True
    then have "fs = []" using ds fs(6) by (cases fs) auto
    then show ?thesis using True fs by simp
  next
    case False
    then show ?thesis using input_run_concat [OF False, of E q] fs(2,3) ds by metis
  qed
  then show ?thesis using fs(1) by metis
qed

lemma mirrored_sym: "mirrored p q \<longleftrightarrow> mirrored q p"
  by (auto simp: mirrored_def split: PeerTransport.splits)

theorem messages_delivered_in_order_witness:
  "\<exists>fs p'. encrypt_run [[1, 2, 3], []] (peer_new_inbound (Responder_new toy_curve [1] [2])
       \<lparr>peer_transport := Ready (Transport_new [3] [4] [5])\<rparr>) = (Inr fs, p')
    \<and> (\<forall>ds. concat ds = concat fs \<longrightarrow> (\<exists>q'. input_run toy_curve ds (peer_new_inbound (Responder_new toy_curve [1] [2])
       \<lparr>peer_transport := Ready (Transport_new [3] [5] [4])\<rparr>) = Some (Inr ([], [[1, 2, 3], []]), q') \<and> mirrored p' q'))"
  by (rule messages_delivered_in_order) (simp_all add: mirrored_def Transport_new_def MAX_MSG_LEN_def)

text \<open>C22: The handshake. An outbound peer that has sent act one to the holder of the expected static key and an inbound peer
  exchange three acts of the fixed lengths without an error; afterwards the two are connected and the inbound peer
  has learnt the initiator's node id.
\<close>

theorem handshake_connects_peers:
  assumes "curve_laws E"
    and "initiator_act_one E (Initiator_new ls (sk_public_key E rs) ie) = (a1, i1)"
  shows "\<exists>a2 a3 p q q'. peer_input E a1 (peer_new_inbound (Responder_new E rs re)) = Some (Inr ([a2], []), q)
    \<and> peer_input E a2 (peer_new_outbound i1 (sk_public_key E rs)) = Some (Inr ([a3], []), p)
    \<and> peer_input E a3 q = Some (Inr ([], []), q')
    \<and> length a1 = ACT_ONE_LEN \<and> length a2 = ACT_TWO_LEN \<and> length a3 = ACT_THREE_LEN
    \<and> mirrored p q' \<and> peer_node_id q' = Some (sk_public_key E ls)"
proof -
  obtain a2 r1 a3 i2 ti tr where
    one: "responder_act_one E a1 (Responder_new E rs re) = (Inr a2, r1)"
    and two: "initiator_act_two E a2 i1 = (Inr a3, i2)" "into_transport i2 = Inr ti"
    and three: "responder_act_three E a3 r1 = Inr (sk_public_key E ls, tr)"
    and len: "length a1 = ACT_ONE_LEN" "length a2 = ACT_TWO_LEN" "length a3 = ACT_THREE_LEN"
    and eq: "tr_send ti = tr_recv tr" "tr_recv ti = tr_send tr" "tr_buffer tr = []" "tr_buffer ti = []"
      "tr_pending_len tr = None" "tr_pending_len ti = None"
    using handshake_agrees [OF assms] by blast
  let ?fresh = "peer_new_inbound (Responder_new E rs re)"
  let ?q = "?fresh\<lparr>handshake_buf := [], peer_transport := InboundHandshake r1\<rparr>"
  have empty: "drain_messages t [] = (Inr [], t)" if "tr_buffer t = []" "tr_pending_len t = None" for t
    using that by (simp add: drain_messages.simps [of t] next_message_def)
  have fresh: "\<not> acted_one (Responder_new E rs re)" by (simp add: acted_one_def Responder_new_def)
  have q: "peer_input E a1 ?fresh = Some (Inr ([a2], []), ?q)"
    using len fresh one
    by (simp add: peer_input_def input_inbound_def peer_new_inbound_def handshake_acted_one_def input_act_three_def ACT_THREE_LEN_def)
  have p: "peer_input E a2 (peer_new_outbound i1 (sk_public_key E rs)) =
    Some (Inr ([a3], []), peer_new_outbound i1 (sk_public_key E rs)\<lparr>peer_transport := Ready ti\<rparr>)"
    using len eq by (simp add: peer_input_def input_outbound_def peer_new_outbound_def two input_ready_def empty Let_def)
  have q': "peer_input E a3 ?q = Some (Inr ([], []), ?q\<lparr>peer_transport := Ready tr, peer_node_id := Some (sk_public_key E ls)\<rparr>)"
    using len eq responder_act_one_acted [OF one]
    by (simp add: peer_input_def input_inbound_def handshake_acted_one_def input_act_three_def three input_ready_def empty
      Let_def peer_new_inbound_def)
  show ?thesis
    using p q q' len eq by (auto simp: mirrored_def intro!: exI)
qed

theorem handshake_connects_peers_witness:
  "\<exists>a1 a2 a3 p q q'. peer_input toy_curve a1 (peer_new_inbound (Responder_new toy_curve [7] [8])) = Some (Inr ([a2], []), q)
    \<and> peer_input toy_curve a2 (peer_new_outbound (snd (initiator_act_one toy_curve (Initiator_new [5] (toy_pk [7]) [6]))) (toy_pk [7]))
      = Some (Inr ([a3], []), p)
    \<and> peer_input toy_curve a3 q = Some (Inr ([], []), q') \<and> mirrored p q' \<and> peer_node_id q' = Some (toy_pk [5])"
proof -
  have pk: "sk_public_key toy_curve = toy_pk" by (simp add: toy_curve_def)
  obtain a1 i1 where a: "initiator_act_one toy_curve (Initiator_new [5] (toy_pk [7]) [6]) = (a1, i1)" by fastforce
  then show ?thesis using handshake_connects_peers [OF toy_curve_laws, of "[5]" "[7]" "[6]" a1 i1 "[8]"] unfolding pk a snd_conv by blast
qed

end
