(* ===== verification/Onion.thy ===== *)
theory Onion
  imports Curve_Ops
begin

text \<open>
  \<^verbatim>\<open>src/src/onion/mod.rs\<close>: Sphinx packets, their construction, peeling, and the encrypted error
  return. A failed assertion, \<^verbatim>\<open>expect\<close> or slice bound is \<open>None\<close>, a returned error \<open>Some (Inl _)\<close>.
\<close>

unbundle bit_operations_syntax

section \<open>Packets\<close>

definition PAYLOADS_LEN :: nat where "PAYLOADS_LEN = 1300"
definition PACKET_LEN :: nat where "PACKET_LEN = 1 + 33 + PAYLOADS_LEN + 32"

datatype OnionError = InvalidVersion | InvalidPubkey | InvalidHmac | BadLength | BadPayload

record OnionPacket =
  op_version :: u8
  op_ephemeral_key :: PublicKey
  op_payloads :: bytes
  op_hmac :: bytes

definition onion_serialize :: "OnionPacket \<Rightarrow> bytes" where
  "onion_serialize p = [op_version p] @ op_ephemeral_key p @ op_payloads p @ op_hmac p"

definition onion_parse :: "('z) Curve_scheme \<Rightarrow> bytes \<Rightarrow> (OnionError, OnionPacket) result" where
  "onion_parse E data =
     (if length data \<noteq> PACKET_LEN then Inl BadLength
      else if data ! 0 \<noteq> 0 then Inl InvalidVersion
      else if \<not> pubkey_from_slice_ok E (take 33 (drop 1 data)) then Inl InvalidPubkey
      else Inr \<lparr>op_version = data ! 0, op_ephemeral_key = take 33 (drop 1 data),
                op_payloads = take PAYLOADS_LEN (drop 34 data), op_hmac = drop (34 + PAYLOADS_LEN) data\<rparr>)"

section \<open>Keys and streams\<close>

definition generate_key :: "string \<Rightarrow> bytes \<Rightarrow> bytes" where
  "generate_key key_type secret = hmac_sha256 (str_bytes key_type) secret"

definition cipher_stream :: "bytes \<Rightarrow> nat \<Rightarrow> bytes" where
  "cipher_stream key len = chacha_keystream key (replicate 12 0) 0 len"

text \<open>\<^verbatim>\<open>for (b, s) in data.iter_mut().zip(stream.iter()) { *b ^= s }\<close>.\<close>

definition xor_stream :: "bytes \<Rightarrow> bytes \<Rightarrow> bytes" where
  "xor_stream data stream = map2 (XOR) data stream @ drop (length stream) data"

definition blinding_factor :: "PublicKey \<Rightarrow> bytes \<Rightarrow> bytes" where
  "blinding_factor epk ss = sha256_finalize (sha256_update (sha256_update sha256_new epk) ss)"

primrec shared_secrets_for_path :: "('z) Curve_scheme \<Rightarrow> SecretKey \<Rightarrow> PublicKey list \<Rightarrow> bytes list option" where
  "shared_secrets_for_path E ephemeral [] = Some []"
| "shared_secrets_for_path E ephemeral (hop_pk # path) =
     (let ss = ecdh E hop_pk ephemeral;
          blinding = blinding_factor (sk_public_key E ephemeral) ss
      in if \<not> scalar_ok E blinding \<or> \<not> sk_mul_ok E ephemeral blinding then None
         else map_option ((#) ss) (shared_secrets_for_path E (sk_mul_tweak E ephemeral blinding) path))"

definition shift_size :: "nat \<Rightarrow> nat" where
  "shift_size payload_len = bigsize_len (of_nat payload_len) + payload_len + 32"

section \<open>Construction\<close>

text \<open>The filler loop over \<open>(shared_secret, payload)\<close> of every hop but the last.\<close>

primrec filler_loop :: "(bytes \<times> bytes) list \<Rightarrow> nat \<Rightarrow> bytes \<Rightarrow> bytes" where
  "filler_loop [] covered filler = filler"
| "filler_loop (hop # hops) covered filler =
     (let this_shift = shift_size (length (snd hop));
          stream = cipher_stream (generate_key ''rho'' (fst hop)) (PAYLOADS_LEN + this_shift)
      in filler_loop hops (covered + this_shift) (xor_stream filler (drop (PAYLOADS_LEN - covered) stream)))"

definition onion_mac :: "bytes \<Rightarrow> bytes \<Rightarrow> bytes \<Rightarrow> bytes" where
  "onion_mac ss mix assoc_data =
     hmac_finalize (hmac_update (hmac_update (hmac_new (generate_key ''mu'' ss)) mix) assoc_data)"

text \<open>The body of the wrapping loop, for one hop; \<open>tail\<close> is the filler in the iteration of the last hop and empty otherwise.\<close>

definition wrap_hop :: "bytes \<Rightarrow> bytes \<Rightarrow> bytes \<Rightarrow> bytes \<Rightarrow> bytes \<times> bytes \<Rightarrow> bytes \<times> bytes" where
  "wrap_hop assoc_data tail ss payload mh =
     (let (mix, next_hmac) = mh;
          frame = bigsize_write (of_nat (length payload)) @ payload @ next_hmac;
          mix = frame @ take (PAYLOADS_LEN - length frame) mix;
          mix = xor_stream mix (cipher_stream (generate_key ''rho'' ss) PAYLOADS_LEN);
          mix = take (PAYLOADS_LEN - length tail) mix @ tail
      in (mix, onion_mac ss mix assoc_data))"

text \<open>\<^verbatim>\<open>for i in (0..num_hops).rev()\<close>.\<close>

primrec wrap_hops :: "bytes \<Rightarrow> bytes \<Rightarrow> bytes \<Rightarrow> (bytes \<times> bytes) list \<Rightarrow> bytes \<times> bytes" where
  "wrap_hops assoc_data filler pad [] = (pad, replicate 32 0)"
| "wrap_hops assoc_data filler pad (hop # hops) =
     wrap_hop assoc_data (if hops = [] then filler else []) (fst hop) (snd hop) (wrap_hops assoc_data filler pad hops)"

definition construct_filler :: "bytes list \<Rightarrow> bytes list \<Rightarrow> bytes" where
  "construct_filler shared_secrets payloads =
     (let filler_len = sum_list (map (\<lambda>p. shift_size (length p)) (butlast payloads))
      in filler_loop (butlast (zip shared_secrets payloads)) 0 (replicate filler_len 0))"

definition construct_pad :: "SecretKey \<Rightarrow> bytes" where
  "construct_pad session_key = cipher_stream (generate_key ''pad'' session_key) PAYLOADS_LEN"

definition construct :: "('z) Curve_scheme \<Rightarrow> SecretKey \<Rightarrow> bytes list \<Rightarrow> bytes list \<Rightarrow> bytes \<Rightarrow> OnionPacket option" where
  "construct E session_key shared_secrets payloads assoc_data =
     (if length shared_secrets \<noteq> length payloads \<or> payloads = []
        \<or> PAYLOADS_LEN < sum_list (map (\<lambda>p. shift_size (length p)) payloads) then None
      else
        let (mix, hmac) = wrap_hops assoc_data (construct_filler shared_secrets payloads) (construct_pad session_key)
              (zip shared_secrets payloads)
        in Some \<lparr>op_version = 0, op_ephemeral_key = sk_public_key E session_key, op_payloads = mix, op_hmac = hmac\<rparr>)"

section \<open>Peeling\<close>

datatype Peeled = Forward (peeled_payload: bytes) OnionPacket | Final (peeled_payload: bytes)

definition peel_with_secret :: "('z) Curve_scheme \<Rightarrow> bytes \<Rightarrow> OnionPacket \<Rightarrow> bytes \<Rightarrow> (OnionError, Peeled) result option" where
  "peel_with_secret E shared_secret packet assoc_data =
     (if op_version packet \<noteq> 0 then Some (Inl InvalidVersion)
      else if \<not> ct_eq (onion_mac shared_secret (op_payloads packet) assoc_data) (op_hmac packet) then Some (Inl InvalidHmac)
      else
        let buf = op_payloads packet @ replicate PAYLOADS_LEN 0;
            buf = xor_stream buf (cipher_stream (generate_key ''rho'' shared_secret) (PAYLOADS_LEN * 2))
        in case bigsize_read buf of
             Inl _ \<Rightarrow> Some (Inl BadPayload)
           | Inr (len, r) \<Rightarrow>
               let payload_len = unat len in
               if \<not> (2 \<le> payload_len \<and> payload_len \<le> PAYLOADS_LEN - 32) then Some (Inl BadPayload)
               else case r_take payload_len r of
                 Inl _ \<Rightarrow> Some (Inl BadPayload)
               | Inr (payload, r) \<Rightarrow>
                   case r_array 32 r of
                     Inl _ \<Rightarrow> Some (Inl BadPayload)
                   | Inr (next_hmac, r) \<Rightarrow>
                       let consumed = PAYLOADS_LEN * 2 - length r in
                       if next_hmac = replicate 32 0 then Some (Inr (Final payload))
                       else
                         let blinding = blinding_factor (op_ephemeral_key packet) shared_secret in
                         if \<not> scalar_ok E blinding then None
                         else if \<not> pk_mul_ok E (op_ephemeral_key packet) blinding then Some (Inl InvalidPubkey)
                         else if length buf < consumed + PAYLOADS_LEN then None
                         else Some (Inr (Forward payload
                           \<lparr>op_version = 0, op_ephemeral_key = pk_mul_tweak E (op_ephemeral_key packet) blinding,
                            op_payloads = take PAYLOADS_LEN (drop consumed buf), op_hmac = next_hmac\<rparr>)))"

definition peel :: "('z) Curve_scheme \<Rightarrow> SecretKey \<Rightarrow> OnionPacket \<Rightarrow> bytes \<Rightarrow> (OnionError, Peeled \<times> bytes) result option" where
  "peel E node_key packet assoc_data =
     (let ss = ecdh E (op_ephemeral_key packet) node_key
      in map_option (\<lambda>r. rbind r (\<lambda>peeled. Inr (peeled, ss))) (peel_with_secret E ss packet assoc_data))"

section \<open>Failures\<close>

definition BADONION :: u16 where "BADONION = 0x8000"
definition PERM :: u16 where "PERM = 0x4000"
definition NODE :: u16 where "NODE = 0x2000"
definition UPDATE :: u16 where "UPDATE = 0x1000"
definition TEMPORARY_NODE_FAILURE :: u16 where "TEMPORARY_NODE_FAILURE = NODE OR 2"
definition PERMANENT_NODE_FAILURE :: u16 where "PERMANENT_NODE_FAILURE = PERM OR NODE OR 2"
definition INVALID_ONION_VERSION :: u16 where "INVALID_ONION_VERSION = BADONION OR PERM OR 4"
definition INVALID_ONION_HMAC :: u16 where "INVALID_ONION_HMAC = BADONION OR PERM OR 5"
definition INVALID_ONION_KEY :: u16 where "INVALID_ONION_KEY = BADONION OR PERM OR 6"
definition TEMPORARY_CHANNEL_FAILURE :: u16 where "TEMPORARY_CHANNEL_FAILURE = UPDATE OR 7"
definition PERMANENT_CHANNEL_FAILURE :: u16 where "PERMANENT_CHANNEL_FAILURE = PERM OR 8"
definition UNKNOWN_NEXT_PEER :: u16 where "UNKNOWN_NEXT_PEER = PERM OR 10"
definition AMOUNT_BELOW_MINIMUM :: u16 where "AMOUNT_BELOW_MINIMUM = UPDATE OR 11"
definition FEE_INSUFFICIENT :: u16 where "FEE_INSUFFICIENT = UPDATE OR 12"
definition INCORRECT_CLTV_EXPIRY :: u16 where "INCORRECT_CLTV_EXPIRY = UPDATE OR 13"
definition EXPIRY_TOO_SOON :: u16 where "EXPIRY_TOO_SOON = UPDATE OR 14"
definition INCORRECT_OR_UNKNOWN_PAYMENT_DETAILS :: u16 where "INCORRECT_OR_UNKNOWN_PAYMENT_DETAILS = PERM OR 15"
definition FINAL_INCORRECT_CLTV_EXPIRY :: u16 where "FINAL_INCORRECT_CLTV_EXPIRY = 18"
definition FINAL_INCORRECT_HTLC_AMOUNT :: u16 where "FINAL_INCORRECT_HTLC_AMOUNT = 19"
definition EXPIRY_TOO_FAR :: u16 where "EXPIRY_TOO_FAR = 21"
definition INVALID_ONION_PAYLOAD :: u16 where "INVALID_ONION_PAYLOAD = PERM OR 22"
definition MPP_TIMEOUT :: u16 where "MPP_TIMEOUT = 23"

definition failure_wrap :: "bytes \<Rightarrow> bytes \<Rightarrow> bytes" where
  "failure_wrap shared_secret packet =
     xor_stream packet (cipher_stream (generate_key ''ammag'' shared_secret) (length packet))"

definition failure_build :: "bytes \<Rightarrow> bytes \<Rightarrow> bytes" where
  "failure_build shared_secret failuremsg =
     (let target = (if length failuremsg \<le> 256 then 256 else 1024);
          pad_len = target - length failuremsg;
          um = generate_key ''um'' shared_secret;
          body = to_be_bytes (of_nat (length failuremsg) :: u16) @ failuremsg
                 @ to_be_bytes (of_nat pad_len :: u16) @ replicate pad_len 0
      in failure_wrap shared_secret (hmac_sha256 um body @ body))"

text \<open>The loop of \<^verbatim>\<open>decrypt\<close> from hop \<open>i\<close> on.\<close>

primrec failure_decrypt_from :: "nat \<Rightarrow> bytes list \<Rightarrow> bytes \<Rightarrow> (nat \<times> bytes) option" where
  "failure_decrypt_from i [] data = None"
| "failure_decrypt_from i (ss # secrets) data =
     (let data = failure_wrap ss data in
      if length data < 34 then None
      else
        let um = generate_key ''um'' ss;
            mac = take 32 data;
            body = drop 32 data
        in if ct_eq (hmac_sha256 um body) mac then
             let failure_len = unat (from_be_bytes (take 2 body) :: u16) in
             if length body < 2 + failure_len then None
             else Some (i, take failure_len (drop 2 body))
           else failure_decrypt_from (i + 1) secrets data)"

definition failure_decrypt :: "bytes list \<Rightarrow> bytes \<Rightarrow> (nat \<times> bytes) option" where
  "failure_decrypt shared_secrets packet = failure_decrypt_from 0 shared_secrets packet"

definition failure_message :: "u16 \<Rightarrow> bytes \<Rightarrow> bytes" where
  "failure_message code data = to_be_bytes code @ data"

definition parse_code :: "bytes \<Rightarrow> u16 option" where
  "parse_code failuremsg = (if length failuremsg < 2 then None else Some (from_be_bytes (take 2 failuremsg)))"

section \<open>Streams\<close>

lemma take_map2_left: "take m (map2 f xs ys) = map2 f (take m xs) ys"
proof (induction xs arbitrary: m ys)
  case (Cons x xs)
  then show ?case by (cases ys; cases m) simp_all
qed simp

lemma take_xor_chunks:
  "take m (concat (chacha_xor_chunks c n (chunks 64 xs))) = concat (chacha_xor_chunks c n (chunks 64 (take m xs)))"
proof (induction "length xs" arbitrary: xs n m rule: less_induct)
  case less
  show ?case
  proof (cases "xs = [] \<or> m = 0")
    case True
    then show ?thesis by (auto simp: chunks.simps [of 64 "[]"])
  next
    case False
    then have xs: "chunks 64 xs = take 64 xs # chunks 64 (drop 64 xs)"
      and m: "chunks 64 (take m xs) = take 64 (take m xs) # chunks 64 (drop 64 (take m xs))"
      by (simp_all add: chunks.simps [of 64 xs] chunks.simps [of 64 "take m xs"])
    have IH: "take (m - 64) (concat (chacha_xor_chunks c (n + 1) (chunks 64 (drop 64 xs))))
      = concat (chacha_xor_chunks c (n + 1) (chunks 64 (take (m - 64) (drop 64 xs))))"
      by (rule less) (use False in simp)
    have "take m (map2 (XOR) (take 64 xs) (chacha_block c n)) = map2 (XOR) (take 64 (take m xs)) (chacha_block c n)"
      by (simp add: take_map2_left min.commute)
    moreover have "take (m - min (length xs) 64) ys = take (m - 64) ys" if "ys = [] \<or> 64 \<le> length xs" for ys :: bytes
      using that by auto
    moreover have "drop 64 (take m xs) = take (m - 64) (drop 64 xs)" by (simp add: drop_take)
    moreover have "concat (chacha_xor_chunks c (n + 1) (chunks 64 (drop 64 xs))) = [] \<or> 64 \<le> length xs"
      by (cases "64 \<le> length xs") (simp_all add: chunks.simps [of 64 "[]"])
    ultimately show ?thesis using IH by (simp add: xs m)
  qed
qed

lemma length_cipher_stream [simp]: "length (cipher_stream k n) = n"
  by (simp add: cipher_stream_def chacha_keystream_def)

lemma take_cipher_stream: "m \<le> n \<Longrightarrow> take m (cipher_stream k n) = cipher_stream k m"
  by (simp add: cipher_stream_def chacha_keystream_def chacha_xor_def take_xor_chunks min_absorb1)

lemma xor_stream_eq [simp]: "length d \<le> length s \<Longrightarrow> xor_stream d s = map2 (XOR) d s"
  by (simp add: xor_stream_def)

lemma length_xor_stream [simp]: "length (xor_stream d s) = length d"
  by (auto simp: xor_stream_def)

lemma xor_same_left [simp]: "(a XOR b) XOR b = (a :: u8)"
  by (simp add: xor.assoc)

lemma length_onion_mac [simp]: "length (onion_mac ss mix ad) = 32"
  using hmac_parts_spec [of "generate_key ''mu'' ss" "[mix, ad]"] by (simp add: onion_mac_def)

section \<open>The filler makes every layer come out\<close>

text \<open>One layer, over a keystream \<open>k\<close>: \<open>F\<close> is the tail of the packet before the hop, \<open>F'\<close> the tail after it.\<close>

lemma layer_lists:
  fixes M' :: bytes
  assumes len: "length M' = N" "length frame = s" "length F = c" "length k = 2 * N" and fit: "c + s \<le> N"
    and tail: "drop (N - (c + s)) M' = map2 (XOR) (F @ replicate s 0) (drop (N - c) (take (N + s) k))"
  defines "M \<equiv> map2 (XOR) (frame @ take (N - s) M') (take N k)"
  shows "length M = N" "drop (N - c) M = F" "map2 (XOR) (M @ replicate N 0) k = frame @ M' @ drop (N + s) k"
proof -
  have M': "M' ! (N - (c + s) + j) = (F @ replicate s 0) ! j XOR k ! (N - c + j)" if "j < c + s" for j
  proof -
    have "M' ! (N - (c + s) + j) = drop (N - (c + s)) M' ! j" using len fit that by simp
    also have "\<dots> = (F @ replicate s 0) ! j XOR k ! (N - c + j)"
      unfolding tail using len fit that by simp
    finally show ?thesis .
  qed
  show lM: "length M = N" using len fit by (simp add: M_def)
  have M: "M ! j = (frame @ take (N - s) M') ! j XOR k ! j" if "j < N" for j
    using that len fit by (simp add: M_def)
  show "drop (N - c) M = F"
  proof (rule nth_equalityI)
    show "length (drop (N - c) M) = length F" using lM len fit by simp
    fix j assume "j < length (drop (N - c) M)"
    then have j: "j < c" using lM fit by simp
    have e: "N - c + j - s = N - (c + s) + j" using fit by simp
    have "(frame @ take (N - s) M') ! (N - c + j) = M' ! (N - (c + s) + j)"
      using j len fit by (auto simp: nth_append e)
    then show "drop (N - c) M ! j = F ! j"
      using j lM len fit M [of "N - c + j"] M' [of j] by (simp add: nth_append)
  qed
  show "map2 (XOR) (M @ replicate N 0) k = frame @ M' @ drop (N + s) k"
  proof (rule nth_equalityI)
    show "length (map2 (XOR) (M @ replicate N 0) k) = length (frame @ M' @ drop (N + s) k)"
      using lM len fit by simp
    fix j assume "j < length (map2 (XOR) (M @ replicate N 0) k)"
    then have j: "j < 2 * N" using lM len by simp
    have l: "map2 (XOR) (M @ replicate N 0) k ! j = (M @ replicate N 0) ! j XOR k ! j"
      using j lM len by simp
    consider "j < N" | "N \<le> j" "j < N + s" | "N + s \<le> j" by linarith
    then show "map2 (XOR) (M @ replicate N 0) k ! j = (frame @ M' @ drop (N + s) k) ! j"
    proof cases
      case 1
      then show ?thesis using M [of j] lM len fit unfolding l by (auto simp: nth_append)
    next
      case 2
      have e: "N - (c + s) + (j + c - N) = j - s" "N - c + (j + c - N) = j" using 2 fit by simp_all
      have "M' ! (j - s) = k ! j"
        using M' [of "j + c - N"] 2 len unfolding e by (auto simp: nth_append)
      then show ?thesis using 2 lM len fit unfolding l by (auto simp: nth_append)
    next
      case 3
      then show ?thesis using j lM len fit unfolding l by (auto simp: nth_append)
    qed
  qed
qed

abbreviation hop_shift :: "bytes \<times> bytes \<Rightarrow> nat" where
  "hop_shift hop \<equiv> shift_size (length (snd hop))"

abbreviation hops_shift :: "(bytes \<times> bytes) list \<Rightarrow> nat" where
  "hops_shift hops \<equiv> sum_list (map hop_shift hops)"

text \<open>The filler written as a growing list: \<open>F\<close> covers the \<open>length F\<close> bytes of the hops before.\<close>

definition grow_step :: "bytes \<times> bytes \<Rightarrow> bytes \<Rightarrow> bytes" where
  "grow_step hop F = map2 (XOR) (F @ replicate (hop_shift hop) 0)
     (drop (PAYLOADS_LEN - length F) (cipher_stream (generate_key ''rho'' (fst hop)) (PAYLOADS_LEN + hop_shift hop)))"

primrec grow :: "(bytes \<times> bytes) list \<Rightarrow> bytes \<Rightarrow> bytes" where
  "grow [] F = F"
| "grow (hop # hops) F = grow hops (grow_step hop F)"

lemma length_grow_step: "length F \<le> PAYLOADS_LEN \<Longrightarrow> length (grow_step hop F) = length F + hop_shift hop"
  by (simp add: grow_step_def)

lemma filler_loop_grow:
  "length F + hops_shift hops \<le> PAYLOADS_LEN \<Longrightarrow>
     filler_loop hops (length F) (F @ replicate (hops_shift hops) 0) = grow hops F"
proof (induction hops arbitrary: F)
  case (Cons hop hops)
  let ?k = "drop (PAYLOADS_LEN - length F) (cipher_stream (generate_key ''rho'' (fst hop)) (PAYLOADS_LEN + hop_shift hop))"
  have "length ?k = length F + hop_shift hop" using Cons.prems by simp
  then have "xor_stream (F @ replicate (hop_shift hop + hops_shift hops) 0) ?k = grow_step hop F @ replicate (hops_shift hops) 0"
    by (simp add: xor_stream_def grow_step_def replicate_add zip_append1 zip_append2)
  then show ?case
    using Cons.IH [of "grow_step hop F"] Cons.prems by (simp add: length_grow_step Let_def)
qed simp

lemma length_frame:
  assumes "length hm = 32"
  shows "length (bigsize_write (of_nat (length payload)) @ payload @ hm) = shift_size (length payload)"
  using assms by (simp add: shift_size_def length_bigsize_write)

abbreviation hop_frame :: "bytes \<Rightarrow> bytes \<Rightarrow> bytes" where
  "hop_frame payload hm \<equiv> bigsize_write (of_nat (length payload)) @ payload @ hm"

abbreviation hop_stream :: "bytes \<times> bytes \<Rightarrow> bytes" where
  "hop_stream hop \<equiv> cipher_stream (generate_key ''rho'' (fst hop)) (2 * PAYLOADS_LEN)"

lemma wrap_hop_eq:
  assumes len: "length mix = PAYLOADS_LEN" "length hm = 32" and fit: "shift_size (length p) \<le> PAYLOADS_LEN"
    and M: "wrap_hop ad tail ss p (mix, hm) = (M, h)"
  shows "M = take (PAYLOADS_LEN - length tail) (map2 (XOR) (hop_frame p hm @ take (PAYLOADS_LEN - shift_size (length p)) mix)
      (cipher_stream (generate_key ''rho'' ss) PAYLOADS_LEN)) @ tail" "h = onion_mac ss M ad"
proof -
  define f where "f = hop_frame p hm"
  have lf: "length f = shift_size (length p)" using length_frame [OF len(2)] by (simp add: f_def)
  have eq: "wrap_hop ad tail ss p (mix, hm) = (let m = take (PAYLOADS_LEN - length tail)
      (xor_stream (f @ take (PAYLOADS_LEN - length f) mix) (cipher_stream (generate_key ''rho'' ss) PAYLOADS_LEN)) @ tail
    in (m, onion_mac ss m ad))"
    unfolding f_def by (simp add: wrap_hop_def Let_def)
  have "xor_stream (f @ take (PAYLOADS_LEN - shift_size (length p)) mix) (cipher_stream (generate_key ''rho'' ss) PAYLOADS_LEN)
    = map2 (XOR) (f @ take (PAYLOADS_LEN - shift_size (length p)) mix) (cipher_stream (generate_key ''rho'' ss) PAYLOADS_LEN)"
    by (rule xor_stream_eq) (use len lf fit in simp)
  then show "M = take (PAYLOADS_LEN - length tail) (map2 (XOR) (hop_frame p hm @ take (PAYLOADS_LEN - shift_size (length p)) mix)
      (cipher_stream (generate_key ''rho'' ss) PAYLOADS_LEN)) @ tail" "h = onion_mac ss M ad"
    using M unfolding eq by (auto simp: Let_def lf f_def [symmetric] simp del: append_assoc)
qed

lemma wrap_hops_inner:
  assumes "hops \<noteq> []" and rest: "wrap_hops ad filler pad hops = (M', h')"
    and len: "length M' = PAYLOADS_LEN" "length h' = 32" and fit: "length F + hop_shift hop \<le> PAYLOADS_LEN"
    and tail: "drop (PAYLOADS_LEN - (length F + hop_shift hop)) M' = grow_step hop F"
    and M: "wrap_hops ad filler pad (hop # hops) = (M, h)"
  shows "length M = PAYLOADS_LEN" "drop (PAYLOADS_LEN - length F) M = F" "h = onion_mac (fst hop) M ad"
    "map2 (XOR) (M @ replicate PAYLOADS_LEN 0) (hop_stream hop)
       = hop_frame (snd hop) h' @ M' @ drop (PAYLOADS_LEN + hop_shift hop) (hop_stream hop)"
proof -
  let ?f = "hop_frame (snd hop) h'"
  have st: "take n (hop_stream hop) = cipher_stream (generate_key ''rho'' (fst hop)) n" if "n \<le> 2 * PAYLOADS_LEN" for n
    using that by (rule take_cipher_stream)
  have lf: "length ?f = hop_shift hop" using len(2) by (rule length_frame)
  have Meq: "M = map2 (XOR) (?f @ take (PAYLOADS_LEN - hop_shift hop) M') (take PAYLOADS_LEN (hop_stream hop))"
    and h: "h = onion_mac (fst hop) M ad"
    using wrap_hop_eq [of M' h' "snd hop" ad "[]" "fst hop" M h] M rest assms(1) len fit lf st [of PAYLOADS_LEN]
    by simp_all
  have tail': "drop (PAYLOADS_LEN - (length F + hop_shift hop)) M' = map2 (XOR) (F @ replicate (hop_shift hop) 0)
      (drop (PAYLOADS_LEN - length F) (take (PAYLOADS_LEN + hop_shift hop) (hop_stream hop)))"
    using tail fit st [of "PAYLOADS_LEN + hop_shift hop"] by (simp add: grow_step_def)
  note L = layer_lists [OF len(1) lf refl _ fit tail']
  show "h = onion_mac (fst hop) M ad" by (rule h)
  show "length M = PAYLOADS_LEN" "drop (PAYLOADS_LEN - length F) M = F"
    "map2 (XOR) (M @ replicate PAYLOADS_LEN 0) (hop_stream hop)
       = ?f @ M' @ drop (PAYLOADS_LEN + hop_shift hop) (hop_stream hop)"
    using L unfolding Meq by simp_all
qed

lemma wrap_hops_last:
  assumes len: "length pad = PAYLOADS_LEN" and fit: "length F + hop_shift hop \<le> PAYLOADS_LEN"
    and M: "wrap_hops ad F pad [hop] = (M, h)"
  shows "length M = PAYLOADS_LEN" "drop (PAYLOADS_LEN - length F) M = F" "h = onion_mac (fst hop) M ad"
    "\<exists>r. length r = 2 * PAYLOADS_LEN - hop_shift hop
       \<and> map2 (XOR) (M @ replicate PAYLOADS_LEN 0) (hop_stream hop) = hop_frame (snd hop) (replicate 32 0) @ r"
proof -
  let ?k = "hop_stream hop"
  define f where "f = hop_frame (snd hop) (replicate 32 0)"
  have lf: "length f = hop_shift hop" unfolding f_def by (rule length_frame) simp
  have st: "cipher_stream (generate_key ''rho'' (fst hop)) PAYLOADS_LEN = take PAYLOADS_LEN ?k"
    by (simp add: take_cipher_stream)
  define m where "m = map2 (XOR) (f @ take (PAYLOADS_LEN - hop_shift hop) pad) (take PAYLOADS_LEN ?k)"
  have lm: "length m = PAYLOADS_LEN" using len fit lf by (simp add: m_def)
  have Meq: "M = take (PAYLOADS_LEN - length F) m @ F" and h: "h = onion_mac (fst hop) M ad"
    using wrap_hop_eq [of pad "replicate 32 0" "snd hop" ad F "fst hop" M h] M len fit st by (simp_all add: m_def f_def)
  show "length M = PAYLOADS_LEN" "drop (PAYLOADS_LEN - length F) M = F" "h = onion_mac (fst hop) M ad"
    using Meq h lm fit by simp_all
  let ?b = "map2 (XOR) (M @ replicate PAYLOADS_LEN 0) ?k"
  have lb: "length ?b = 2 * PAYLOADS_LEN" using Meq lm fit by simp
  have "take (hop_shift hop) ?b = f"
  proof (rule nth_equalityI)
    show "length (take (hop_shift hop) ?b) = length f" using lb lf fit by simp
    fix j assume "j < length (take (hop_shift hop) ?b)"
    then have j: "j < hop_shift hop" by simp
    then have "m ! j = f ! j XOR ?k ! j" using fit lf by (simp add: m_def nth_append)
    then show "take (hop_shift hop) ?b ! j = f ! j" using j fit lm by (auto simp: Meq nth_append)
  qed
  then have "?b = f @ drop (hop_shift hop) ?b" by (metis append_take_drop_id)
  then show "\<exists>r. length r = 2 * PAYLOADS_LEN - hop_shift hop \<and> ?b = hop_frame (snd hop) (replicate 32 0) @ r"
    using lb unfolding f_def by (metis length_drop)
qed

lemma wrap_hops_tail:
  assumes "hops \<noteq> []" and "length F + hops_shift hops \<le> PAYLOADS_LEN" and "length pad = PAYLOADS_LEN"
    and "wrap_hops ad (grow (butlast hops) F) pad hops = (M, h)"
  shows "length M = PAYLOADS_LEN \<and> drop (PAYLOADS_LEN - length F) M = F \<and> length h = 32"
  using assms
proof (induction hops arbitrary: F M h)
  case (Cons hop hops)
  show ?case
  proof (cases "hops = []")
    case True
    then show ?thesis using wrap_hops_last [of pad F hop ad M h] Cons.prems by simp
  next
    case False
    let ?F = "grow_step hop F"
    obtain M' h' where rest: "wrap_hops ad (grow (butlast hops) ?F) pad hops = (M', h')" by fastforce
    have lF: "length ?F = length F + hop_shift hop" using Cons.prems by (simp add: length_grow_step)
    have IH: "length M' = PAYLOADS_LEN \<and> drop (PAYLOADS_LEN - length ?F) M' = ?F \<and> length h' = 32"
      by (rule Cons.IH [OF False _ _ rest]) (use Cons.prems lF in simp_all)
    show ?thesis
      using wrap_hops_inner [OF False rest, of F hop M h] IH Cons.prems False lF by simp
  qed
qed simp

section \<open>Peeling a constructed layer\<close>

lemma peel_layer:
  assumes len: "length M = PAYLOADS_LEN" "length hm = 32" and h: "h = onion_mac ss M ad"
    and buf: "map2 (XOR) (M @ replicate PAYLOADS_LEN 0) (cipher_stream (generate_key ''rho'' ss) (2 * PAYLOADS_LEN)) = hop_frame p hm @ r"
    and p: "2 \<le> length p" "shift_size (length p) \<le> PAYLOADS_LEN"
  shows "peel_with_secret E ss \<lparr>op_version = 0, op_ephemeral_key = epk, op_payloads = M, op_hmac = h\<rparr> ad =
    (if hm = replicate 32 0 then Some (Inr (Final p))
     else if \<not> scalar_ok E (blinding_factor epk ss) then None
     else if \<not> pk_mul_ok E epk (blinding_factor epk ss) then Some (Inl InvalidPubkey)
     else Some (Inr (Forward p \<lparr>op_version = 0, op_ephemeral_key = pk_mul_tweak E epk (blinding_factor epk ss),
       op_payloads = take PAYLOADS_LEN r, op_hmac = hm\<rparr>)))"
proof -
  define k where "k = cipher_stream (generate_key ''rho'' ss) (2 * PAYLOADS_LEN)"
  have lk: "length k = 2 * PAYLOADS_LEN" by (simp add: k_def)
  have lr: "shift_size (length p) + length r = 2 * PAYLOADS_LEN"
    using arg_cong [OF buf, of length] length_frame [OF len(2), of p] len(1) by simp
  have lp: "length p \<le> PAYLOADS_LEN - 32" "length p < 2 ^ 64"
    using p(2) by (simp_all add: shift_size_def PAYLOADS_LEN_def)
  have up: "unat (of_nat (length p) :: u64) = length p" using lp(2) by (simp add: unat_of_nat take_bit_nat_eq_self)
  have x: "xor_stream (M @ replicate PAYLOADS_LEN 0) k = hop_frame p hm @ r"
    using buf len(1) lk by (simp add: k_def)
  have consumed: "PAYLOADS_LEN * 2 - length r = shift_size (length p)" using lr by simp
  have dr: "drop (shift_size (length p)) (hop_frame p hm @ r) = r"
    using length_frame [OF len(2), of p] by (metis append_eq_conv_conj)
  have lb: "length (hop_frame p hm @ r) = 2 * PAYLOADS_LEN" using lr length_frame [OF len(2), of p] by simp
  have k': "cipher_stream (generate_key ''rho'' ss) (PAYLOADS_LEN * 2) = k" by (simp add: k_def mult.commute)
  have room: "\<not> 2 * PAYLOADS_LEN < shift_size (length p) + PAYLOADS_LEN" using p(2) by simp
  have read: "bigsize_read (hop_frame p hm @ r) = Inr (of_nat (length p), p @ hm @ r)"
    using bigsize_read_write by simp
  show ?thesis
    unfolding peel_with_secret_def
    by (simp only: OnionPacket.simps h ct_eq_iff simp_thms if_False not_not refl if_True k' x Let_def read sum.case prod.case
        up p(1) lp(1) r_take_append r_array_def len(2) consumed dr lb room)
qed

text \<open>
  The packets a route sees, hop by hop: the node keys, their shared secrets, and what each hands on.
\<close>

fun peel_route :: "('z) Curve_scheme \<Rightarrow> SecretKey list \<Rightarrow> OnionPacket \<Rightarrow> bytes \<Rightarrow> bytes list option" where
  "peel_route E [] packet ad = None"
| "peel_route E (key # keys) packet ad =
     (case peel E key packet ad of
        Some (Inr (Final payload, _)) \<Rightarrow> if keys = [] then Some [payload] else None
      | Some (Inr (Forward payload nxt, _)) \<Rightarrow> map_option ((#) payload) (peel_route E keys nxt ad)
      | _ \<Rightarrow> None)"

text \<open>The HMACs of the layers below the outermost one.\<close>

fun inner_hmacs :: "bytes \<Rightarrow> bytes \<Rightarrow> bytes \<Rightarrow> (bytes \<times> bytes) list \<Rightarrow> bytes list" where
  "inner_hmacs ad filler pad (h # h' # hops) = snd (wrap_hops ad filler pad (h' # hops)) # inner_hmacs ad filler pad (h' # hops)"
| "inner_hmacs ad filler pad _ = []"

lemma length_shared_secrets: "shared_secrets_for_path E e path = Some secrets \<Longrightarrow> length secrets = length path"
  by (induction path arbitrary: e secrets) (auto simp: Let_def split: if_splits)

lemma peel_route_delivers:
  assumes laws: "curve_laws E" and "keys \<noteq> []"
    and "shared_secrets_for_path E eph (map (sk_public_key E) keys) = Some secrets"
    and "length payloads = length keys" and "list_all (\<lambda>p. 2 \<le> length p) payloads"
    and "length F + hops_shift (zip secrets payloads) \<le> PAYLOADS_LEN" and pad: "length pad = PAYLOADS_LEN"
    and "replicate 32 0 \<notin> set (inner_hmacs ad (grow (butlast (zip secrets payloads)) F) pad (zip secrets payloads))"
    and "wrap_hops ad (grow (butlast (zip secrets payloads)) F) pad (zip secrets payloads) = (M, h)"
  shows "peel_route E keys \<lparr>op_version = 0, op_ephemeral_key = sk_public_key E eph, op_payloads = M, op_hmac = h\<rparr> ad = Some payloads"
  using assms(2-)
proof (induction keys arbitrary: eph secrets payloads F M h)
  case (Cons key keys)
  let ?epk = "sk_public_key E eph"
  define ss where "ss = ecdh E (sk_public_key E key) eph"
  define b where "b = blinding_factor ?epk ss"
  obtain secrets' where ok: "scalar_ok E b" "sk_mul_ok E eph b"
    and rest: "shared_secrets_for_path E (sk_mul_tweak E eph b) (map (sk_public_key E) keys) = Some secrets'"
    and secrets: "secrets = ss # secrets'"
    using Cons.prems by (auto simp: ss_def b_def Let_def split: if_splits)
  obtain p payloads' where payloads: "payloads = p # payloads'" using Cons.prems by (cases payloads) auto
  let ?hop = "(ss, p)" and ?hops = "zip secrets' payloads'"
  have dh: "ecdh E ?epk key = ss" using curve_dh [OF laws] by (simp add: ss_def)
  have lens: "length secrets' = length keys" using length_shared_secrets [OF rest] by simp
  have len: "length payloads' = length keys" using Cons.prems payloads by simp
  have fit: "length F + hop_shift ?hop + hops_shift ?hops \<le> PAYLOADS_LEN" and p2: "2 \<le> length p"
    using Cons.prems by (simp_all add: secrets payloads)
  show ?case
  proof (cases "keys = []")
    case True
    then have M: "wrap_hops ad F pad [?hop] = (M, h)"
      using Cons.prems lens len by (simp add: secrets payloads)
    have fit': "length F + hop_shift ?hop \<le> PAYLOADS_LEN" using fit by simp
    note L = wrap_hops_last [OF pad fit' M]
    obtain r where buf: "map2 (XOR) (M @ replicate PAYLOADS_LEN 0) (hop_stream ?hop) = hop_frame p (replicate 32 0) @ r"
      using L(4) by auto
    have "peel_with_secret E ss \<lparr>op_version = 0, op_ephemeral_key = ?epk, op_payloads = M, op_hmac = h\<rparr> ad = Some (Inr (Final p))"
      using peel_layer [of M "replicate 32 0" h ss ad p r E ?epk] L(1,3) buf fit p2 by simp
    then show ?thesis using True len by (simp add: peel_def dh payloads)
  next
    case False
    then have ne: "?hops \<noteq> []" using lens len by auto
    let ?F = "grow_step ?hop F" and ?e = "sk_mul_tweak E eph b"
    obtain M' h' where inner: "wrap_hops ad (grow (butlast ?hops) ?F) pad ?hops = (M', h')" by fastforce
    have lF: "length ?F = length F + hop_shift ?hop" using fit by (simp add: length_grow_step)
    have outer: "wrap_hops ad (grow (butlast ?hops) ?F) pad (?hop # ?hops) = (M, h)"
      using Cons.prems ne by (simp add: secrets payloads)
    have tail: "length M' = PAYLOADS_LEN" "drop (PAYLOADS_LEN - (length F + hop_shift ?hop)) M' = ?F" "length h' = 32"
      using wrap_hops_tail [OF ne _ pad inner] fit lF by simp_all
    obtain hop' hops' where hops: "?hops = hop' # hops'" using ne by (cases ?hops) auto
    have nz: "h' \<noteq> replicate 32 0" "replicate 32 0 \<notin> set (inner_hmacs ad (grow (butlast ?hops) ?F) pad ?hops)"
      using Cons.prems inner ne unfolding secrets payloads zip_Cons_Cons hops by auto
    have fit': "length F + hop_shift ?hop \<le> PAYLOADS_LEN" using fit by simp
    note L = wrap_hops_inner [OF ne inner tail(1,3) fit' tail(2) outer]
    have mul: "sk_public_key E ?e = pk_mul_tweak E ?epk b" "pk_mul_ok E ?epk b"
      using curve_pk_mul [OF laws] curve_pk_mul_ok [OF laws ok(2)] by simp_all
    have "peel_with_secret E ss \<lparr>op_version = 0, op_ephemeral_key = ?epk, op_payloads = M, op_hmac = h\<rparr> ad
      = Some (Inr (Forward p \<lparr>op_version = 0, op_ephemeral_key = sk_public_key E ?e, op_payloads = M', op_hmac = h'\<rparr>))"
      using peel_layer [of M h' h ss ad p "M' @ drop (PAYLOADS_LEN + hop_shift ?hop) (hop_stream ?hop)" E ?epk]
        L tail nz(1) ok(1) mul fit' p2 by (simp add: b_def)
    moreover have "peel_route E keys \<lparr>op_version = 0, op_ephemeral_key = sk_public_key E ?e, op_payloads = M', op_hmac = h'\<rparr> ad = Some payloads'"
      by (rule Cons.IH [OF False rest len _ _ pad nz(2) inner]) (use Cons.prems fit lF payloads in simp_all)
    ultimately show ?thesis by (simp add: peel_def dh payloads)
  qed
qed simp

lemma construct_filler_grow:
  assumes len: "length secrets = length payloads" and fit: "sum_list (map (\<lambda>p. shift_size (length p)) payloads) \<le> PAYLOADS_LEN"
  shows "construct_filler secrets payloads = grow (butlast (zip secrets payloads)) []"
    "hops_shift (zip secrets payloads) = sum_list (map (\<lambda>p. shift_size (length p)) payloads)"
proof -
  have maps: "map hop_shift (zip xs ys) = map (\<lambda>p. shift_size (length p)) ys" if "length xs = length ys" for xs ys :: "bytes list"
    using that by (induction xs ys rule: list_induct2) auto
  have butlast_zip: "butlast (zip secrets payloads) = zip (butlast secrets) (butlast payloads)"
    using len by (simp add: butlast_conv_take take_zip)
  show "hops_shift (zip secrets payloads) = sum_list (map (\<lambda>p. shift_size (length p)) payloads)" using maps [OF len] by simp
  have shift: "hops_shift (butlast (zip secrets payloads)) = sum_list (map (\<lambda>p. shift_size (length p)) (butlast payloads))"
    unfolding butlast_zip using maps [of "butlast secrets" "butlast payloads"] len by simp
  have "sum_list (map f (butlast xs)) \<le> sum_list (map f xs)" for f :: "bytes \<Rightarrow> nat" and xs
    by (cases xs rule: rev_cases) simp_all
  then have "hops_shift (butlast (zip secrets payloads)) \<le> PAYLOADS_LEN" using fit unfolding shift by (rule order_trans)
  then show "construct_filler secrets payloads = grow (butlast (zip secrets payloads)) []"
    using filler_loop_grow [of "[]" "butlast (zip secrets payloads)"] by (simp add: construct_filler_def shift)
qed

text \<open>C20: An onion reaches its destination. When the sender's shared secrets for the node keys of a route and the packet
  built from them exist, and each payload has at least two bytes, then the nodes of the route, peeling one after
  the other with their own keys, read exactly the payloads in order: every hop but the last is told to
  forward, the last that it is the destination. The one exception is an inner HMAC of 32 zero bytes, which the format
  reserves for the destination.
\<close>

theorem onion_route_delivers:
  assumes "curve_laws E" and "shared_secrets_for_path E session_key (map (sk_public_key E) keys) = Some secrets"
    and "construct E session_key secrets payloads ad = Some packet" and "list_all (\<lambda>p. 2 \<le> length p) payloads"
  shows "replicate 32 0 \<in> set (inner_hmacs ad (construct_filler secrets payloads) (construct_pad session_key) (zip secrets payloads))
    \<or> peel_route E keys packet ad = Some payloads"
proof (cases "peel_route E keys packet ad = Some payloads", simp, rule disjI1, rule ccontr)
  assume fails: "peel_route E keys packet ad \<noteq> Some payloads" and nz: "replicate 32 0 \<notin> set (inner_hmacs ad (construct_filler secrets payloads) (construct_pad session_key) (zip secrets payloads))"
  have len: "length secrets = length payloads" "payloads \<noteq> []"
    and fit: "sum_list (map (\<lambda>p. shift_size (length p)) payloads) \<le> PAYLOADS_LEN"
    using assms(3) by (auto simp: construct_def split: if_splits)
  have keys: "length payloads = length keys" "keys \<noteq> []" using length_shared_secrets [OF assms(2)] len by auto
  obtain M h where M: "wrap_hops ad (construct_filler secrets payloads) (construct_pad session_key) (zip secrets payloads) = (M, h)"
    by fastforce
  have packet: "packet = \<lparr>op_version = 0, op_ephemeral_key = sk_public_key E session_key, op_payloads = M, op_hmac = h\<rparr>"
    using assms(3) M by (auto simp: construct_def split: if_splits)
  note g = construct_filler_grow [OF len(1) fit]
  have "peel_route E keys packet ad = Some payloads"
    unfolding packet
    by (rule peel_route_delivers [OF assms(1) keys(2) assms(2) keys(1) assms(4) _ _ nz [unfolded g(1)] M [unfolded g(1)]])
       (use g(2) fit in \<open>simp_all add: construct_pad_def\<close>)
  then show False using fails by simp
qed

theorem onion_route_delivers_witness:
  "\<exists>secrets packet. shared_secrets_for_path toy_curve [9] [toy_pk [1], toy_pk [2]] = Some secrets
    \<and> construct toy_curve [9] secrets [[2, 1, 5], [4, 1, 7]] [] = Some packet
    \<and> (replicate 32 0 \<in> set (inner_hmacs [] (construct_filler secrets [[2, 1, 5], [4, 1, 7]]) (construct_pad [9]) (zip secrets [[2, 1, 5], [4, 1, 7]]))
       \<or> peel_route toy_curve [[1], [2]] packet [] = Some [[2, 1, 5], [4, 1, 7]])"
proof -
  have pk: "map (sk_public_key toy_curve) [[1], [2]] = [toy_pk [1], toy_pk [2]]" by (simp add: toy_curve_def)
  obtain secrets where s: "shared_secrets_for_path toy_curve [9] [toy_pk [1], toy_pk [2]] = Some secrets"
    by (auto simp: toy_curve_def Let_def)
  have "length secrets = 2" using length_shared_secrets [OF s] by simp
  then obtain packet where c: "construct toy_curve [9] secrets [[2, 1, 5], [4, 1, 7]] [] = Some packet"
    by (simp add: construct_def shift_size_def bigsize_len_def PAYLOADS_LEN_def case_prod_unfold Let_def)
  show ?thesis
    using onion_route_delivers [OF toy_curve_laws, of "[9]" "[[1], [2]]" secrets] s c unfolding pk by auto
qed

text \<open>A packet area that decrypts to a payload length of 1268.\<close>

definition oversized_payloads :: "bytes \<Rightarrow> bytes" where
  "oversized_payloads ss = map2 (XOR) (bigsize_write 1268 @ replicate 1268 0 @ replicate 29 1) (cipher_stream (generate_key ''rho'' ss) PAYLOADS_LEN)"

text \<open>C25: Peeling can panic. For every shared secret and associated data there is a packet of the right size whose HMAC
  verifies and on which \<^verbatim>\<open>peel_with_secret\<close> slices past the end of its buffer: a payload length of 1268 passes the
  length check, but its three length bytes, the payload and the next HMAC take 1303 bytes, so the next packet would
  end at byte 2603 of a buffer of 2600.
\<close>

theorem peel_panics_on_oversized_payload:
  assumes "scalar_ok E (blinding_factor epk ss)" and "pk_mul_ok E epk (blinding_factor epk ss)"
  shows "length (oversized_payloads ss) = PAYLOADS_LEN
    \<and> peel_with_secret E ss \<lparr>op_version = 0, op_ephemeral_key = epk, op_payloads = oversized_payloads ss,
        op_hmac = onion_mac ss (oversized_payloads ss) ad\<rparr> ad = None"
proof -
  define P where "P = bigsize_write 1268 @ replicate 1268 0 @ (replicate 29 1 :: bytes)"
  define k where "k = cipher_stream (generate_key ''rho'' ss) (PAYLOADS_LEN * 2)"
  define t where "t = drop PAYLOADS_LEN k"
  have N: "PAYLOADS_LEN = 1300" by (simp add: PAYLOADS_LEN_def)
  have lP: "length P = PAYLOADS_LEN" by (simp add: P_def length_bigsize_write bigsize_len_def N)
  have k: "cipher_stream (generate_key ''rho'' ss) PAYLOADS_LEN = take PAYLOADS_LEN k" "length k = 2 * PAYLOADS_LEN"
    by (simp_all add: k_def take_cipher_stream)
  have lt: "length t = PAYLOADS_LEN" using k by (simp add: t_def)
  have o: "oversized_payloads ss = map2 (XOR) P (take PAYLOADS_LEN k)" by (simp only: oversized_payloads_def P_def k(1))
  have "map2 (XOR) (map2 (XOR) P (take PAYLOADS_LEN k) @ replicate PAYLOADS_LEN 0) k = P @ t"
    using lP k(2) by (intro nth_equalityI) (auto simp: nth_append t_def)
  then have x: "xor_stream (oversized_payloads ss @ replicate PAYLOADS_LEN 0) k = P @ t" using lP k(2) by (simp add: o)
  have read: "bigsize_read (P @ t) = Inr (1268, replicate 1268 0 @ replicate 29 1 @ t)"
    by (simp add: P_def bigsize_read_write)
  have hm: "r_array 32 (replicate 29 1 @ t) = Inr (replicate 29 1 @ take 3 t, drop 3 t)"
    using lt by (simp add: r_array_def r_take_def N)
  have nz: "replicate 29 (1 :: u8) @ take 3 t \<noteq> replicate 32 0" by (simp add: numeral_eq_Suc)
  have consumed: "PAYLOADS_LEN * 2 - length (drop 3 t) = 1303" using lt by (simp add: N)
  have short: "length (P @ t) < 1303 + PAYLOADS_LEN" using lP lt by (simp add: N)
  have u: "unat (1268 :: u64) = 1268" "(2::nat) \<le> 1268" "1268 \<le> PAYLOADS_LEN - 32" by (simp_all add: N)
  have tk: "r_take 1268 (replicate 1268 0 @ replicate 29 1 @ t) = Inr (replicate 1268 0, replicate 29 1 @ t)"
    by (rule r_take_append) simp
  have "peel_with_secret E ss \<lparr>op_version = 0, op_ephemeral_key = epk, op_payloads = oversized_payloads ss,
      op_hmac = onion_mac ss (oversized_payloads ss) ad\<rparr> ad = None"
    unfolding peel_with_secret_def
    by (simp only: OnionPacket.simps ct_eq_iff simp_thms if_False not_not refl if_True k_def [symmetric] x Let_def read sum.case
        prod.case u tk hm consumed nz assms short)
  then show ?thesis using lP k by (simp add: o)
qed

theorem peel_panics_on_oversized_payload_witness:
  "length (oversized_payloads [1]) = PAYLOADS_LEN
    \<and> peel_with_secret toy_curve [1] \<lparr>op_version = 0, op_ephemeral_key = toy_pk [2], op_payloads = oversized_payloads [1],
        op_hmac = onion_mac [1] (oversized_payloads [1]) []\<rparr> [] = None"
  by (rule peel_panics_on_oversized_payload) (simp_all add: toy_curve_def)

end
