(* ===== verification/Onion_Payload.thy ===== *)
theory Onion_Payload
  imports Onion
begin

text \<open>
  The error return of \<^verbatim>\<open>src/src/onion/mod.rs\<close> and the codecs around the onion: the 1366-byte packet, failure
  messages, and the TLV hop payloads of \<^verbatim>\<open>src/src/onion/payload.rs\<close>.
\<close>

unbundle bit_operations_syntax

section \<open>Hop payloads\<close>

record PaymentData =
  pd_payment_secret :: bytes
  pd_total_msat :: Msat

record HopPayload =
  amt_to_forward :: Msat
  outgoing_cltv_value :: u32
  hp_short_channel_id :: "ShortChannelId option"
  payment_data :: "PaymentData option"
  payment_metadata :: "bytes option"

definition hop_forward :: "Msat \<Rightarrow> u32 \<Rightarrow> ShortChannelId \<Rightarrow> HopPayload" where
  "hop_forward amt cltv scid =
     \<lparr>amt_to_forward = amt, outgoing_cltv_value = cltv, hp_short_channel_id = Some scid, payment_data = None, payment_metadata = None\<rparr>"

definition final_hop :: "Msat \<Rightarrow> u32 \<Rightarrow> bytes \<Rightarrow> Msat \<Rightarrow> HopPayload" where
  "final_hop amt cltv secret total_msat =
     \<lparr>amt_to_forward = amt, outgoing_cltv_value = cltv, hp_short_channel_id = None,
      payment_data = Some \<lparr>pd_payment_secret = secret, pd_total_msat = total_msat\<rparr>, payment_metadata = None\<rparr>"

definition hop_encode :: "HopPayload \<Rightarrow> bytes" where
  "hop_encode p =
     write_record 2 (write_tu64 (amt_to_forward p)) @ write_record 4 (write_tu32 (outgoing_cltv_value p))
     @ (case hp_short_channel_id p of None \<Rightarrow> [] | Some scid \<Rightarrow> write_record 6 (to_be_bytes scid))
     @ (case payment_data p of None \<Rightarrow> []
        | Some pd \<Rightarrow> write_record 8 (pd_payment_secret pd @ write_tu64 (pd_total_msat pd)))
     @ (case payment_metadata p of None \<Rightarrow> [] | Some md \<Rightarrow> write_record 16 md)"

text \<open>The loop of \<^verbatim>\<open>decode\<close>: five optional fields, each set by its record.\<close>

record HopFields =
  hf_amt :: "Msat option"
  hf_cltv :: "u32 option"
  hf_scid :: "ShortChannelId option"
  hf_payment_data :: "PaymentData option"
  hf_payment_metadata :: "bytes option"

definition hop_field :: "TlvRecord \<Rightarrow> HopFields \<Rightarrow> (WireError, HopFields) result" where
  "hop_field rec f =
     (let v = tlv_value rec in
      if tlv_type rec = 2 then rbind (read_tu64 v) (\<lambda>a. Inr (f\<lparr>hf_amt := Some a\<rparr>))
      else if tlv_type rec = 4 then rbind (read_tu32 v) (\<lambda>c. Inr (f\<lparr>hf_cltv := Some c\<rparr>))
      else if tlv_type rec = 6 then
        if length v \<noteq> 8 then Inl (BadFormat ''short_channel_id length'') else Inr (f\<lparr>hf_scid := Some (from_be_bytes v)\<rparr>)
      else if tlv_type rec = 8 then
        if length v < 32 then Inl (BadFormat ''payment_data too short'')
        else rbind (read_tu64 (drop 32 v))
          (\<lambda>total. Inr (f\<lparr>hf_payment_data := Some \<lparr>pd_payment_secret = take 32 v, pd_total_msat = total\<rparr>\<rparr>))
      else if tlv_type rec = 16 then Inr (f\<lparr>hf_payment_metadata := Some v\<rparr>)
      else Inr f)"

primrec hop_fields :: "TlvRecord list \<Rightarrow> HopFields \<Rightarrow> (WireError, HopFields) result" where
  "hop_fields [] f = Inr f"
| "hop_fields (rec # recs) f = rbind (hop_field rec f) (hop_fields recs)"

definition hop_decode :: "bytes \<Rightarrow> (WireError, HopPayload) result" where
  "hop_decode payload =
     rbind (parse_stream payload) (\<lambda>records.
     rbind (check_unknown_even records [2, 4, 6, 8, 16]) (\<lambda>_.
     rbind (hop_fields records \<lparr>hf_amt = None, hf_cltv = None, hf_scid = None, hf_payment_data = None, hf_payment_metadata = None\<rparr>) (\<lambda>f.
       case hf_amt f of
         None \<Rightarrow> Inl (BadFormat ''missing amt_to_forward'')
       | Some amt \<Rightarrow>
           case hf_cltv f of
             None \<Rightarrow> Inl (BadFormat ''missing outgoing_cltv'')
           | Some cltv \<Rightarrow>
               Inr \<lparr>amt_to_forward = amt, outgoing_cltv_value = cltv, hp_short_channel_id = hf_scid f,
                    payment_data = hf_payment_data f, payment_metadata = hf_payment_metadata f\<rparr>)))"

text \<open>The records \<^verbatim>\<open>encode\<close> writes.\<close>

definition hop_records :: "HopPayload \<Rightarrow> TlvRecord list" where
  "hop_records p =
     [\<lparr>tlv_type = 2, tlv_value = write_tu64 (amt_to_forward p)\<rparr>, \<lparr>tlv_type = 4, tlv_value = write_tu32 (outgoing_cltv_value p)\<rparr>]
     @ (case hp_short_channel_id p of None \<Rightarrow> [] | Some scid \<Rightarrow> [\<lparr>tlv_type = 6, tlv_value = to_be_bytes scid\<rparr>])
     @ (case payment_data p of None \<Rightarrow> []
        | Some pd \<Rightarrow> [\<lparr>tlv_type = 8, tlv_value = pd_payment_secret pd @ write_tu64 (pd_total_msat pd)\<rparr>])
     @ (case payment_metadata p of None \<Rightarrow> [] | Some md \<Rightarrow> [\<lparr>tlv_type = 16, tlv_value = md\<rparr>])"

definition hop_wf :: "HopPayload \<Rightarrow> bool" where
  "hop_wf p \<longleftrightarrow> (case payment_data p of None \<Rightarrow> True | Some pd \<Rightarrow> length (pd_payment_secret pd) = 32)
     \<and> (case payment_metadata p of None \<Rightarrow> True | Some md \<Rightarrow> length md < 2 ^ 64)"

lemma write_tu64_le: "length (write_tu64 v) \<le> 8"
  using length_dropWhile_le [of "\<lambda>b. b = 0" "to_be_bytes v"] by (simp add: write_tu64_dropWhile)

lemma hop_records_parse:
  assumes "hop_wf p"
  shows "parse_stream (hop_encode p) = Inr (hop_records p)"
proof -
  have small: "length (write_tu64 v) < n" "length (write_tu32 w) < n" if "8 < n" for v w n
    using that write_tu64_le [of v] write_tu64_le [of "ucast w"] by (simp_all add: write_tu32_def)
  have "list_all tlv_wf (hop_records p)" using assms
    by (auto simp: hop_records_def hop_wf_def tlv_wf_def small split: option.splits)
  moreover have "sorted_wrt (<) (map tlv_type (hop_records p))"
    by (auto simp: hop_records_def split: option.splits)
  moreover have "hop_encode p = write_stream (hop_records p)"
    by (auto simp: hop_records_def hop_encode_def write_stream_def split: option.splits)
  ultimately show ?thesis by (simp add: parse_stream_iff)
qed

text \<open>Decoding an encoded hop payload gives it back: any amount, expiry, next channel, payment data with a 32-byte secret and
  metadata.
\<close>

theorem hop_payload_roundtrip:
  assumes "hop_wf p"
  shows "hop_decode (hop_encode p) = Inr p"
proof -
  have tu: "read_tu64 (write_tu64 v) = Inr v" "read_tu32 (write_tu32 w) = Inr w" for v w
    by (simp_all add: read_tu64_iff read_tu32_iff)
  have known: "check_unknown_even (hop_records p) [2, 4, 6, 8, 16] = Inr ()"
    by (auto simp: hop_records_def split: option.splits)
  have "hop_fields (hop_records p) \<lparr>hf_amt = None, hf_cltv = None, hf_scid = None, hf_payment_data = None, hf_payment_metadata = None\<rparr>
    = Inr \<lparr>hf_amt = Some (amt_to_forward p), hf_cltv = Some (outgoing_cltv_value p), hf_scid = hp_short_channel_id p,
        hf_payment_data = payment_data p, hf_payment_metadata = payment_metadata p\<rparr>"
    using assms by (auto simp: hop_records_def hop_field_def tu hop_wf_def Let_def split: option.splits)
  then show ?thesis
    by (simp add: hop_decode_def hop_records_parse [OF assms] known)
qed

theorem hop_payload_roundtrip_witness:
  "hop_decode (hop_encode (final_hop 15000 1500 (replicate 32 7) 20000)) = Inr (final_hop 15000 1500 (replicate 32 7) 20000)"
  by (rule hop_payload_roundtrip) (simp add: hop_wf_def final_hop_def)

section \<open>Packets\<close>

definition onion_wf :: "('z) Curve_scheme \<Rightarrow> OnionPacket \<Rightarrow> bool" where
  "onion_wf E p \<longleftrightarrow> op_version p = 0 \<and> pubkey_wf E (op_ephemeral_key p) \<and> length (op_payloads p) = PAYLOADS_LEN
     \<and> length (op_hmac p) = 32"

lemma onion_parse_serialize:
  assumes "onion_wf E p" shows "onion_parse E (onion_serialize p) = Inr p"
proof -
  have lens: "length (op_ephemeral_key p) = 33" "length (op_payloads p) = 1300" "length (op_hmac p) = 32"
    using assms by (simp_all add: onion_wf_def pubkey_wf_def PAYLOADS_LEN_def)
  then show ?thesis
    using assms by (simp add: onion_parse_def onion_serialize_def PACKET_LEN_def PAYLOADS_LEN_def onion_wf_def pubkey_wf_def)
qed

lemma onion_serialize_parse:
  assumes "onion_parse E d = Inr p" shows "onion_wf E p \<and> d = onion_serialize p"
proof -
  have len: "length d = 1366" and v: "d ! 0 = 0" and ok: "pubkey_from_slice_ok E (take 33 (drop 1 d))"
    and p: "p = \<lparr>op_version = d ! 0, op_ephemeral_key = take 33 (drop 1 d), op_payloads = take 1300 (drop 34 d), op_hmac = drop 1334 d\<rparr>"
    using assms by (auto simp: onion_parse_def PACKET_LEN_def PAYLOADS_LEN_def split: if_splits)
  have "d = [d ! 0] @ drop 1 d" using len by (cases d) auto
  also have "drop 1 d = take 33 (drop 1 d) @ drop 34 d" using append_take_drop_id [of 33 "drop 1 d"] by simp
  also have "drop 34 d = take 1300 (drop 34 d) @ drop 1334 d" using append_take_drop_id [of 1300 "drop 34 d"] by simp
  finally have "d = onion_serialize p" by (simp add: p onion_serialize_def)
  moreover have "onion_wf E p" using len v ok by (simp add: p onion_wf_def pubkey_wf_def PAYLOADS_LEN_def)
  ultimately show ?thesis by simp
qed

section \<open>The error return\<close>

lemma failure_wrap_twice: "failure_wrap ss (failure_wrap ss d) = d"
  by (simp add: failure_wrap_def map2_xor_twice)

lemma length_failure_wrap [simp]: "length (failure_wrap ss d) = length d"
  by (simp add: failure_wrap_def)

lemma length_wraps [simp]: "length (foldr failure_wrap secrets d) = length d"
  by (induction secrets) simp_all

text \<open>Does an earlier hop's key verify a layer that is not its own?\<close>

primrec false_match :: "bytes list \<Rightarrow> bytes \<Rightarrow> bool" where
  "false_match [] packet = False"
| "false_match (ss # before) packet =
     (let d = foldr failure_wrap before packet
      in hmac_sha256 (generate_key ''um'' ss) (drop 32 d) = take 32 d \<or> false_match before packet)"

lemma decrypt_build:
  assumes "length msg < 65536"
  shows "failure_decrypt_from i (ss # after) (failure_build ss msg) = Some (i, msg)"
proof -
  define pad where "pad = (if length msg \<le> 256 then 256 else 1024) - length msg"
  define body where "body = to_be_bytes (of_nat (length msg) :: u16) @ msg @ to_be_bytes (of_nat pad :: u16) @ replicate pad 0"
  define mac where "mac = hmac_sha256 (generate_key ''um'' ss) body"
  have lm: "length mac = 32" by (simp add: mac_def hmac_sha256_eq)
  have b: "failure_build ss msg = failure_wrap ss (mac @ body)"
    by (simp add: failure_build_def Let_def mac_def body_def pad_def)
  have tk: "take 32 (mac @ body) = mac" "drop 32 (mac @ body) = body" using lm by simp_all
  have lb: "length body = 4 + length msg + pad" by (simp add: body_def)
  have u: "unat (of_nat (length msg) :: u16) = length msg" using assms by (simp add: u16_of_length)
  have fl: "take 2 body = to_be_bytes (of_nat (length msg) :: u16)" "take (length msg) (drop 2 body) = msg" by (simp_all add: body_def)
  show ?thesis
    by (simp add: b failure_wrap_twice tk lm lb fl u mac_def [symmetric] Let_def)
qed

lemma decrypt_through:
  assumes "34 \<le> length packet" and "\<not> false_match before packet"
  shows "failure_decrypt_from i (before @ rest) (foldr failure_wrap before packet) = failure_decrypt_from (i + length before) rest packet"
  using assms(2)
proof (induction before arbitrary: i)
  case (Cons ss before)
  have "failure_decrypt_from i ((ss # before) @ rest) (foldr failure_wrap (ss # before) packet)
    = failure_decrypt_from (i + 1) (before @ rest) (foldr failure_wrap before packet)"
    using Cons.prems assms(1) by (simp add: failure_wrap_twice Let_def)
  then show ?case using Cons by (simp add: Let_def)
qed simp

text \<open>C24: The error return names the failing hop. A failure message of less than 65536 bytes built by a hop and wrapped
  by every hop before it decrypts at the origin to that hop's index and exactly that message, whatever hops come after;
  the one exception is a layer on which the HMAC of a hop further up verifies by chance.
\<close>

theorem failure_attributed:
  assumes "length msg < 65536"
  shows "false_match before (failure_build ss msg)
    \<or> failure_decrypt (before @ ss # after) (foldr failure_wrap before (failure_build ss msg)) = Some (length before, msg)"
proof -
  have "34 \<le> length (failure_build ss msg)" by (simp add: failure_build_def Let_def hmac_sha256_eq)
  then show ?thesis
    using decrypt_through [of "failure_build ss msg" before 0 "ss # after"] decrypt_build [OF assms, of _ ss after]
    unfolding failure_decrypt_def by (metis add_0)
qed

theorem failure_attributed_witness:
  "false_match [[1], [2]] (failure_build [3] (failure_message UNKNOWN_NEXT_PEER []))
    \<or> failure_decrypt [[1], [2], [3], [4]] (foldr failure_wrap [[1], [2]] (failure_build [3] (failure_message UNKNOWN_NEXT_PEER [])))
      = Some (2, failure_message UNKNOWN_NEXT_PEER [])"
  using failure_attributed [of "failure_message UNKNOWN_NEXT_PEER []" "[[1], [2]]" "[3]" "[[4]]"]
  by (simp add: failure_message_def numeral_2_eq_2)

lemma parse_code_message: "parse_code (failure_message code data) = Some code"
  by (simp add: parse_code_def failure_message_def)

text \<open>The packet format is canonical: a byte string parses to a packet exactly when it is the serialization of
  that packet, with version 0, a valid ephemeral key and areas of the fixed lengths.
\<close>

theorem onion_packet_canonical:
  "onion_parse E d = Inr p \<longleftrightarrow> onion_wf E p \<and> d = onion_serialize p"
  using onion_parse_serialize [of E p] onion_serialize_parse [of E d p] by auto

end
