(* ===== verification/Bech32.thy ===== *)
theory Bech32
  imports Types
begin

text \<open>
  \<^verbatim>\<open>src/src/invoice/bech32.rs\<close>: the checksummed base-32 strings of BIP 173 and the regrouping of bits. A Rust string is the
  list of its UTF-8 bytes; \<^verbatim>\<open>BadChar\<close> carries the first byte of the character. Indexing \<^verbatim>\<open>CHARSET\<close> out of range is \<open>None\<close>.
\<close>

unbundle bit_operations_syntax

section \<open>Strings\<close>

definition CHARSET :: bytes where
  "CHARSET = str_bytes ''qpzry9x8gf2tvdw0s3jn54khce6mua7l''"

datatype Bech32Error = BadChar u8 | BadChecksum | NoSeparator | MixedCase | PaddingError

definition GEN :: "u32 list" where
  "GEN = [0x3b6a57b2, 0x26508e6d, 0x1ea119fa, 0x3d4233dd, 0x2a1462b3]"

definition polymod_step :: "u32 \<Rightarrow> u8 \<Rightarrow> u32" where
  "polymod_step chk v =
     (let b = drop_bit 25 chk;
          chk = push_bit 5 (chk AND 0x01ffffff) XOR ucast v
      in fold (\<lambda>(i, g) chk. if drop_bit i b AND 1 \<noteq> 0 then chk XOR g else chk) (enumerate 0 GEN) chk)"

definition polymod :: "bytes \<Rightarrow> u32" where
  "polymod values = foldl polymod_step 1 values"

definition hrp_expand :: "bytes \<Rightarrow> bytes" where
  "hrp_expand hrp = map (drop_bit 5) hrp @ [0] @ map (\<lambda>c. c AND 31) hrp"

definition charset_at :: "nat \<Rightarrow> u8 option" where
  "charset_at d = (if d < 32 then Some (CHARSET ! d) else None)"

fun charset_all :: "bytes \<Rightarrow> bytes option" where
  "charset_all [] = Some []"
| "charset_all (d # ds) =
     (case charset_at (unat d) of None \<Rightarrow> None | Some c \<Rightarrow> map_option ((#) c) (charset_all ds))"

definition checksum_values :: "u32 \<Rightarrow> bytes" where
  "checksum_values plm = map (\<lambda>i. ucast (drop_bit (5 * (5 - i)) plm AND 31)) [0..<6]"

definition bech32_encode :: "bytes \<Rightarrow> bytes \<Rightarrow> bytes option" where
  "bech32_encode hrp data =
     (let plm = polymod (hrp_expand hrp @ data @ replicate 6 0) XOR 1
      in map_option (\<lambda>chars. hrp @ str_bytes ''1'' @ chars) (charset_all (data @ checksum_values plm)))"

definition is_ascii_lowercase :: "u8 \<Rightarrow> bool" where
  "is_ascii_lowercase c = (97 \<le> c \<and> c \<le> 122)"

definition is_ascii_uppercase :: "u8 \<Rightarrow> bool" where
  "is_ascii_uppercase c = (65 \<le> c \<and> c \<le> 90)"

definition to_ascii_lowercase :: "bytes \<Rightarrow> bytes" where
  "to_ascii_lowercase s = map (\<lambda>c. if is_ascii_uppercase c then c + 32 else c) s"

definition rfind :: "u8 \<Rightarrow> bytes \<Rightarrow> nat option" where
  "rfind c s = (if c \<in> set s then Some (length s - 1 - length (takeWhile (\<lambda>x. x \<noteq> c) (rev s))) else None)"

definition charset_position :: "u8 \<Rightarrow> nat option" where
  "charset_position c = (if c \<in> set CHARSET then Some (length (takeWhile (\<lambda>x. x \<noteq> c) CHARSET)) else None)"

fun charset_values :: "bytes \<Rightarrow> (Bech32Error, bytes) result" where
  "charset_values [] = Inr []"
| "charset_values (c # cs) =
     (case charset_position c of
        None \<Rightarrow> Inl (BadChar c)
      | Some v \<Rightarrow> rbind (charset_values cs) (\<lambda>vs. Inr (of_nat v # vs)))"

definition bech32_decode :: "bytes \<Rightarrow> (Bech32Error, bytes \<times> bytes) result" where
  "bech32_decode s =
     (if list_ex is_ascii_lowercase s \<and> list_ex is_ascii_uppercase s then Inl MixedCase
      else
        let s = to_ascii_lowercase s in
        case rfind 49 s of
          None \<Rightarrow> Inl NoSeparator
        | Some sep \<Rightarrow>
            if sep = 0 \<or> length s < sep + 7 then Inl NoSeparator
            else
              let hrp = take sep s in
              rbind (charset_values (drop (sep + 1) s)) (\<lambda>data.
                if polymod (hrp_expand hrp @ data) \<noteq> 1 then Inl BadChecksum
                else Inr (hrp, take (length data - 6) data)))"

section \<open>Regrouping bits\<close>

text \<open>\<^verbatim>\<open>while bits >= to\<close>; a group size of 0, which no caller passes, would not terminate in the code and stops here.\<close>

function emit_groups :: "nat \<Rightarrow> u32 \<Rightarrow> nat \<Rightarrow> bytes \<Rightarrow> nat \<times> bytes" where
  "emit_groups to acc bits out =
     (if to = 0 \<or> bits < to then (bits, out)
      else emit_groups to acc (bits - to)
             (out @ [ucast (drop_bit (bits - to) acc AND (push_bit to 1 - 1))]))"
  by pat_completeness auto
termination
  by (relation "measure (\<lambda>(_, _, bits, _). bits)") auto

declare emit_groups.simps [simp del]

fun convert_loop :: "nat \<Rightarrow> nat \<Rightarrow> bytes \<Rightarrow> u32 \<Rightarrow> nat \<Rightarrow> bytes \<Rightarrow> (Bech32Error, u32 \<times> nat \<times> bytes) result" where
  "convert_loop src to [] acc bits out = Inr (acc, bits, out)"
| "convert_loop src to (value # data) acc bits out =
     (if drop_bit src (ucast value :: u32) \<noteq> 0 then Inl PaddingError
      else
        let acc = push_bit src acc OR ucast value;
            (bits, out) = emit_groups to acc (bits + src) out
        in convert_loop src to data acc bits out)"

definition convert_bits :: "bytes \<Rightarrow> nat \<Rightarrow> nat \<Rightarrow> bool \<Rightarrow> (Bech32Error, bytes) result" where
  "convert_bits data src to pad =
     rbind (convert_loop src to data 0 0 []) (\<lambda>(acc, bits, out).
       let maxv = push_bit to 1 - 1;
           tail = push_bit (to - bits) acc AND maxv
       in if pad then Inr (if 0 < bits then out @ [ucast tail] else out)
          else if src \<le> bits \<or> tail \<noteq> 0 then Inl PaddingError
          else Inr out)"

section \<open>The bits of a list of groups\<close>

text \<open>The lowest \<open>n\<close> bits of a word, the most significant first.\<close>

definition low_bits :: "nat \<Rightarrow> 'a::len word \<Rightarrow> bool list" where
  "low_bits n w = map (\<lambda>i. bit w (n - 1 - i)) [0..<n]"

definition group_bits :: "nat \<Rightarrow> bytes \<Rightarrow> bool list" where
  "group_bits n gs = concat (map (low_bits n) gs)"

lemma length_low_bits [simp]: "length (low_bits n w) = n"
  by (simp add: low_bits_def)

lemma length_group_bits [simp]: "length (group_bits n gs) = n * length gs"
  by (simp add: group_bits_def length_concat o_def sum_list_triv)

lemma group_bits_append [simp]: "group_bits n (xs @ ys) = group_bits n xs @ group_bits n ys"
  by (simp add: group_bits_def)

lemma group_bits_Nil [simp]: "group_bits n [] = []" and group_bits_Cons: "group_bits n (g # gs) = low_bits n g @ group_bits n gs"
  by (simp_all add: group_bits_def)

lemma low_bits_split: "low_bits (m + n) w = low_bits m (drop_bit n w) @ low_bits n w"
proof (rule nth_equalityI)
  fix i assume "i < length (low_bits (m + n) w)"
  then show "low_bits (m + n) w ! i = (low_bits m (drop_bit n w) @ low_bits n w) ! i"
    by (auto simp: low_bits_def nth_append bit_drop_bit_eq add.commute intro!: arg_cong [of _ _ "bit w"])
qed simp

lemma low_bits_eqI: "(\<And>i. i < n \<Longrightarrow> bit v i = bit w i) \<Longrightarrow> low_bits n v = low_bits n w"
  by (auto simp: low_bits_def)

lemma low_bits_eqD: "low_bits n v = low_bits n w \<Longrightarrow> i < n \<Longrightarrow> bit v i = bit w i"
proof -
  assume eq: "low_bits n v = low_bits n w" and i: "i < n"
  have "low_bits n v ! (n - 1 - i) = low_bits n w ! (n - 1 - i)" using eq by simp
  moreover have "n - 1 - (n - 1 - i) = i" using i by simp
  ultimately show ?thesis using i by (simp add: low_bits_def)
qed

lemma bit_mask: "bit (2 ^ n - 1 :: u32) i \<longleftrightarrow> i < n \<and> i < 32"
  by (auto simp: mask_eq_exp_minus_1 [symmetric] bit_simps)

lemma small_take_bit: "unat (v :: 'a::len word) < 2 ^ n \<Longrightarrow> take_bit n v = v"
  by (metis take_bit_nat_eq_self unsigned_take_bit_eq unsigned_word_eqI)

lemma take_bit_small:
  assumes "take_bit n v = (v :: 'a::len word)" shows "unat v < 2 ^ n"
proof -
  have "unat v = take_bit n (unat v)" using assms unsigned_take_bit_eq [of n v, where ?'a = nat] by simp
  then show ?thesis using take_bit_nat_less_exp [of n "unat v"] by simp
qed

lemma small_bit: "unat (v :: 'a::len word) < 2 ^ n \<Longrightarrow> bit v i \<Longrightarrow> i < n"
  by (metis small_take_bit bit_take_bit_iff)

lemma emit_groups_bits:
  assumes to: "0 < to" "to \<le> 8"
  shows "emit_groups to acc bits out = (bits', out') \<Longrightarrow> bits \<le> 32 \<Longrightarrow>
    group_bits to out @ low_bits bits acc = group_bits to out' @ low_bits bits' acc \<and> bits' < to
    \<and> (list_all (\<lambda>g. unat g < 2 ^ to) out \<longrightarrow> list_all (\<lambda>g. unat g < 2 ^ to) out')"
proof (induction bits arbitrary: out rule: less_induct)
  case (less bits)
  show ?case
  proof (cases "bits < to")
    case True
    then show ?thesis using less.prems by (simp add: emit_groups.simps [of to acc bits])
  next
    case False
    let ?g = "ucast (drop_bit (bits - to) acc AND (push_bit to 1 - 1)) :: u8"
    have "group_bits to (out @ [?g]) @ low_bits (bits - to) acc = group_bits to out' @ low_bits bits' acc \<and> bits' < to
      \<and> (list_all (\<lambda>g. unat g < 2 ^ to) (out @ [?g]) \<longrightarrow> list_all (\<lambda>g. unat g < 2 ^ to) out')"
      using less.prems False to by (intro less.IH) (simp_all add: emit_groups.simps [of to acc bits])
    moreover have "low_bits to ?g = low_bits to (drop_bit (bits - to) acc)"
      using to by (intro low_bits_eqI) (auto simp: bit_simps bit_mask)
    moreover have "low_bits bits acc = low_bits to (drop_bit (bits - to) acc) @ low_bits (bits - to) acc"
      using low_bits_split [of to "bits - to" acc] False by simp
    moreover have "unat ?g < 2 ^ to"
    proof -
      have "?g = take_bit to ?g" using to by (intro bit_eqI) (auto simp: bit_simps bit_mask)
      then show ?thesis by (rule take_bit_small [OF sym])
    qed
    ultimately show ?thesis by (simp add: group_bits_Cons)
  qed
qed

lemma convert_loop_bits:
  assumes src: "src \<le> 8" and to: "0 < to" "to \<le> 8"
  shows "list_all (\<lambda>v. unat v < 2 ^ src) data \<Longrightarrow> bits < to \<Longrightarrow> list_all (\<lambda>g. unat g < 2 ^ to) out \<Longrightarrow>
    \<exists>acc' bits' out'. convert_loop src to data acc bits out = Inr (acc', bits', out') \<and> bits' < to
      \<and> list_all (\<lambda>g. unat g < 2 ^ to) out'
      \<and> group_bits to out @ low_bits bits acc @ group_bits src data = group_bits to out' @ low_bits bits' acc'"
proof (induction data arbitrary: acc bits out)
  case Nil
  then show ?case by simp
next
  case (Cons v data)
  have v: "unat v < 2 ^ src" using Cons.prems by simp
  note small = small_bit [OF v]
  let ?acc = "push_bit src acc OR ucast v"
  have ok: "drop_bit src (ucast v :: u32) = 0"
    using small by (intro bit_eqI) (auto simp: bit_simps dest: small)
  have "low_bits (bits + src) ?acc = low_bits bits (drop_bit src ?acc) @ low_bits src ?acc" by (rule low_bits_split)
  moreover have "low_bits bits (drop_bit src ?acc) = low_bits bits acc"
    using Cons.prems(2) src to by (intro low_bits_eqI) (auto simp: bit_simps dest: small)
  moreover have "low_bits src ?acc = low_bits src v" using src by (intro low_bits_eqI) (auto simp: bit_simps)
  ultimately have low: "low_bits (bits + src) ?acc = low_bits bits acc @ low_bits src v" by simp
  obtain bits' out' where em: "emit_groups to ?acc (bits + src) out = (bits', out')" by fastforce
  have e: "group_bits to out @ low_bits (bits + src) ?acc = group_bits to out' @ low_bits bits' ?acc" "bits' < to"
    "list_all (\<lambda>g. unat g < 2 ^ to) out'"
    using emit_groups_bits [OF to em] Cons.prems src to by auto
  show ?case
    using Cons.IH [of bits' out' ?acc] Cons.prems e low ok em
    by (auto simp: group_bits_Cons Let_def) (metis append_assoc)
qed

lemma low_bits_inj:
  assumes "low_bits n v = low_bits n w" "unat v < 2 ^ n" "unat w < 2 ^ n" shows "v = (w :: 'a::len word)"
proof (rule bit_word_eqI)
  fix i
  show "bit v i = bit w i" using low_bits_eqD [OF assms(1), of i] small_bit [OF assms(2), of i] small_bit [OF assms(3), of i] by blast
qed

lemma group_bits_inj:
  "length xs = length ys \<Longrightarrow> group_bits n xs = group_bits n ys \<Longrightarrow> list_all (\<lambda>g. unat g < 2 ^ n) xs \<Longrightarrow>
     list_all (\<lambda>g. unat g < 2 ^ n) ys \<Longrightarrow> xs = ys"
proof (induction xs ys rule: list_induct2)
  case (Cons x xs y ys)
  then show ?case using low_bits_inj [of n x y] by (simp add: group_bits_Cons)
qed simp

lemma low_bits_pad:
  assumes "bits \<le> to" "to \<le> 8"
  shows "low_bits to (ucast (push_bit (to - bits) acc AND (2 ^ to - 1) :: u32) :: u8) = low_bits bits (acc :: u32) @ replicate (to - bits) False"
proof -
  let ?g = "ucast (push_bit (to - bits) acc AND (2 ^ to - 1) :: u32) :: u8"
  have "low_bits to ?g = low_bits bits (drop_bit (to - bits) ?g) @ low_bits (to - bits) ?g"
    using low_bits_split [of bits "to - bits" ?g] assms by simp
  moreover have "low_bits bits (drop_bit (to - bits) ?g) = low_bits bits acc"
    using assms by (intro low_bits_eqI) (auto simp: bit_simps bit_mask)
  moreover have "low_bits (to - bits) ?g = replicate (to - bits) False"
    using assms by (intro nth_equalityI) (auto simp: low_bits_def bit_simps bit_mask)
  ultimately show ?thesis by simp
qed

lemma low_bits_zeroD: "low_bits n w = replicate n False \<Longrightarrow> i < n \<Longrightarrow> \<not> bit w i"
  using low_bits_eqD [of n w 0 i] by (simp add: low_bits_def map_replicate_const)

lemma convert_bits_pad:
  assumes src: "src \<le> 8" and to: "0 < to" "to \<le> 8" and data: "list_all (\<lambda>v. unat v < 2 ^ src) data"
  obtains out k where "convert_bits data src to True = Inr out" "list_all (\<lambda>g. unat g < 2 ^ to) out"
    "group_bits to out = group_bits src data @ replicate k False" "k < to"
proof -
  obtain acc bits out where l: "convert_loop src to data 0 0 [] = Inr (acc, bits, out)" "bits < to"
    "list_all (\<lambda>g. unat g < 2 ^ to) out" "group_bits src data = group_bits to out @ low_bits bits acc"
    using convert_loop_bits [OF src to data, of 0 "[]" 0] to by (auto simp: low_bits_def)
  let ?g = "ucast (push_bit (to - bits) acc AND (2 ^ to - 1) :: u32) :: u8"
  have g: "unat ?g < 2 ^ to" using to by (intro take_bit_small bit_eqI) (auto simp: bit_simps bit_mask)
  show ?thesis
  proof (cases "bits = 0")
    case True
    then show ?thesis using that [of out 0] l to by (simp add: convert_bits_def low_bits_def)
  next
    case False
    then show ?thesis
      using that [of "out @ [?g]" "to - bits"] l to g low_bits_pad [of bits to acc]
      by (simp add: convert_bits_def group_bits_Cons Let_def)
  qed
qed

lemma convert_bits_strict:
  assumes src: "src \<le> 8" and to: "0 < to" "to \<le> 8" and data: "list_all (\<lambda>v. unat v < 2 ^ src) data"
    and res: "list_all (\<lambda>g. unat g < 2 ^ to) res" and bits: "group_bits src data = group_bits to res @ replicate k False"
    and k: "k < src" "k < to"
  shows "convert_bits data src to False = Inr res"
proof -
  obtain acc bits out where l: "convert_loop src to data 0 0 [] = Inr (acc, bits, out)" "bits < to"
    "list_all (\<lambda>g. unat g < 2 ^ to) out" "group_bits src data = group_bits to out @ low_bits bits acc"
    using convert_loop_bits [OF src to data, of 0 "[]" 0] to by (auto simp: low_bits_def)
  have "to * length out + bits = to * length res + k"
    using arg_cong [OF l(4), of length] arg_cong [OF bits, of length] by simp
  then have len: "length out = length res \<and> bits = k"
    using l(2) k(2) by (metis (no_types, lifting) add.commute add_right_imp_eq div_mult_self4 div_less mult.commute mod_mult_self2 mod_less
      add_cancel_left_left less_nat_zero_code)
  then have eq: "group_bits to out = group_bits to res" "low_bits k acc = replicate k False"
    using l(4) bits by (simp_all add: append_eq_append_conv)
  have "out = res" using group_bits_inj [of out res to] len eq(1) l(3) res by simp
  moreover have "push_bit (to - k) acc AND (2 ^ to - 1) = 0"
    using low_bits_zeroD [OF eq(2)] k(2) to by (intro bit_word_eqI) (auto simp: bit_simps bit_mask)
  ultimately show ?thesis using l(1) len k by (simp add: convert_bits_def Let_def)
qed

lemma convert_bits_roundtrip:
  obtains five k where "convert_bits data 8 5 True = Inr five" "list_all (\<lambda>g. unat g < 32) five"
    "group_bits 5 five = group_bits 8 data @ replicate k False" "k < 5" "convert_bits five 5 8 False = Inr data"
proof -
  have bytes: "list_all (\<lambda>v. unat v < 2 ^ 8) data" using unat_bounds(1) by (simp add: list_all_iff)
  obtain five k where f: "convert_bits data 8 5 True = Inr five" "list_all (\<lambda>g. unat g < 2 ^ 5) five"
    "group_bits 5 five = group_bits 8 data @ replicate k False" "k < 5"
    using convert_bits_pad [of 8 5 data] bytes by auto
  have "convert_bits five 5 8 False = Inr data"
    by (rule convert_bits_strict [of 5 8 five data k]) (use f bytes in auto)
  then show ?thesis using that [of five k] f by simp
qed

section \<open>The checksum is linear\<close>

lemma polymod_step_eq:
  "polymod_step c v = push_bit 5 (c AND 0x01ffffff) XOR ucast v
     XOR (if bit c 25 then 0x3b6a57b2 else 0) XOR (if bit c 26 then 0x26508e6d else 0) XOR (if bit c 27 then 0x1ea119fa else 0)
     XOR (if bit c 28 then 0x3d4233dd else 0) XOR (if bit c 29 then 0x2a1462b3 else 0)"
proof -
  have b: "(drop_bit i (drop_bit 25 c) AND 1 \<noteq> 0) = bit c n" if "n = 25 + i" for i n
    using that by (simp add: bit_iff_odd_drop_bit and_one_eq odd_iff_mod_2_eq_one add.commute)
  have bs: "(drop_bit 0 (drop_bit 25 c) AND 1 \<noteq> 0) = bit c 25" "(drop_bit 1 (drop_bit 25 c) AND 1 \<noteq> 0) = bit c 26"
    "(drop_bit 2 (drop_bit 25 c) AND 1 \<noteq> 0) = bit c 27" "(drop_bit 3 (drop_bit 25 c) AND 1 \<noteq> 0) = bit c 28"
    "(drop_bit 4 (drop_bit 25 c) AND 1 \<noteq> 0) = bit c 29"
    by (rule b, simp)+
  have gen: "enumerate 0 GEN = [(0, 0x3b6a57b2), (1, 0x26508e6d), (2, 0x1ea119fa), (3, 0x3d4233dd), (4, 0x2a1462b3)]"
    by (simp add: GEN_def)
  have sel: "(if p then x XOR y else x) = x XOR (if p then y else 0)" for p and x y :: u32 by simp
  show ?thesis
    by (simp only: polymod_step_def Let_def gen fold_simps prod.case bs sel xor.assoc)
qed

lemma polymod_step_value: "polymod_step c v = polymod_step c 0 XOR ucast v"
  by (simp add: polymod_step_eq ac_simps)

lemma polymod_step_linear: "polymod_step (a XOR b) 0 = polymod_step a 0 XOR polymod_step b 0"
proof -
  have sel: "(if p \<noteq> q then x else 0) = (if p then x else 0) XOR (if q then x else (0 :: u32))" for p q x by auto
  have m: "push_bit 5 ((a XOR b) AND 0x01ffffff) = push_bit 5 (a AND 0x01ffffff) XOR push_bit 5 (b AND 0x01ffffff :: u32)"
    by (rule bit_word_eqI) (auto simp: bit_simps)
  show ?thesis
    unfolding polymod_step_eq bit_xor_iff sel m by (simp add: ac_simps)
qed

lemma polymod_shift: "unat c < 2 ^ 25 \<Longrightarrow> polymod_step c 0 = push_bit 5 c"
proof -
  assume c: "unat c < 2 ^ 25"
  have no: "\<not> bit c 25" "\<not> bit c 26" "\<not> bit c 27" "\<not> bit c 28" "\<not> bit c 29" using small_bit [OF c] by fastforce+
  have "c AND 0x01ffffff = take_bit 25 c" by (simp add: take_bit_eq_mask mask_eq_exp_minus_1)
  then show ?thesis using no small_take_bit [OF c] by (simp add: polymod_step_eq)
qed

lemma polymod_foldl:
  "foldl polymod_step (a XOR b) vs = foldl polymod_step a (replicate (length vs) 0) XOR foldl polymod_step b vs"
proof (induction vs arbitrary: a b)
  case (Cons v vs)
  have "polymod_step (a XOR b) v = polymod_step a 0 XOR polymod_step b v"
    by (simp add: polymod_step_value [of _ v] polymod_step_linear ac_simps)
  then show ?case using Cons by simp
qed simp

lemma polymod_zero [simp]: "foldl polymod_step 0 (replicate n 0) = 0"
  by (induction n) (simp_all add: polymod_step_eq)

text \<open>Feeding the six checksum digits of a 30-bit number into an empty register gives the number.\<close>

lemma checksum_digit:
  assumes "unat plm < 2 ^ 30" "k < 6"
  shows "polymod_step (drop_bit (5 * (6 - k)) plm) (ucast (drop_bit (5 * (5 - k)) plm AND 31)) = drop_bit (5 * (5 - k)) plm"
proof -
  have split: "6 - k = Suc (5 - k)" using assms(2) by simp
  have "unat (drop_bit (5 * (6 - k)) plm) < 2 ^ 25"
  proof (rule take_bit_small, rule bit_word_eqI)
    fix i
    show "bit (take_bit 25 (drop_bit (5 * (6 - k)) plm)) i = bit (drop_bit (5 * (6 - k)) plm) i"
      using small_bit [OF assms(1), of "5 * (6 - k) + i"] assms(2) by (auto simp: bit_simps)
  qed
  then have "polymod_step (drop_bit (5 * (6 - k)) plm) (ucast (drop_bit (5 * (5 - k)) plm AND 31))
      = push_bit 5 (drop_bit (5 * (6 - k)) plm) XOR ucast (ucast (drop_bit (5 * (5 - k)) plm AND 31) :: u8)"
    by (subst polymod_step_value) (simp add: polymod_shift)
  also have "\<dots> = drop_bit (5 * (5 - k)) plm"
  proof (rule bit_word_eqI)
    fix i assume i: "i < LENGTH(32)"
    have m: "bit (31 :: u32) i \<longleftrightarrow> i < 5" using bit_mask [of 5 i] by auto
    have m8: "i < 8 \<Longrightarrow> bit (31 :: u8) i \<longleftrightarrow> i < 5"
      by (auto simp: numeral_eq_Suc less_Suc_eq)
    have e: "5 * (6 - k) + (i - 5) = 5 * (5 - k) + i" if "5 \<le> i" using that by (simp add: split)
    show "bit (push_bit 5 (drop_bit (5 * (6 - k)) plm) XOR ucast (ucast (drop_bit (5 * (5 - k)) plm AND 31) :: u8)) i
        = bit (drop_bit (5 * (5 - k)) plm) i"
      using e i m8 by (cases "i < 5") (auto simp: bit_simps m)
  qed
  finally show ?thesis .
qed

lemma checksum_register:
  assumes "unat plm < 2 ^ 30"
  shows "foldl polymod_step 0 (checksum_values plm) = plm"
proof -
  have "foldl polymod_step 0 (map (\<lambda>i. ucast (drop_bit (5 * (5 - i)) plm AND 31)) [0..<n]) = drop_bit (5 * (6 - n)) plm" if "n \<le> 6" for n
    using that
  proof (induction n)
    case 0
    have "drop_bit 30 plm = 0" using small_bit [OF assms] by (intro bit_word_eqI) (auto simp: bit_simps)
    then show ?case by simp
  next
    case (Suc n)
    then show ?case using checksum_digit [OF assms, of n] by simp
  qed
  from this [of 6] show ?thesis by (simp add: checksum_values_def)
qed

lemma polymod_small: "unat (polymod vs) < 2 ^ 30"
proof -
  have step: "unat (polymod_step c v) < 2 ^ 30" for c v
  proof (rule take_bit_small, rule bit_word_eqI)
    fix i assume i: "i < LENGTH(32)"
    have gens: "\<not> bit (0x3b6a57b2 :: u32) i" "\<not> bit (0x26508e6d :: u32) i" "\<not> bit (0x1ea119fa :: u32) i"
      "\<not> bit (0x3d4233dd :: u32) i" "\<not> bit (0x2a1462b3 :: u32) i" "\<not> bit (0x3fffffe0 :: u32) i" if "30 \<le> i"
    proof -
      have "i = 30 \<or> i = 31" using that i by auto
      then show "\<not> bit (0x3b6a57b2 :: u32) i" "\<not> bit (0x26508e6d :: u32) i" "\<not> bit (0x1ea119fa :: u32) i"
        "\<not> bit (0x3d4233dd :: u32) i" "\<not> bit (0x2a1462b3 :: u32) i" "\<not> bit (0x3fffffe0 :: u32) i" by auto
    qed
    have v: "\<not> bit v i" if "30 \<le> i" using that by (auto dest: bit_imp_le_length)
    show "bit (take_bit 30 (polymod_step c v)) i = bit (polymod_step c v) i"
    proof (cases "30 \<le> i")
      case True
      then show ?thesis using gens v by (auto simp: polymod_step_eq bit_simps)
    next
      case False
      then show ?thesis by (simp add: bit_simps)
    qed
  qed
  show ?thesis
    unfolding polymod_def using step by (cases vs rule: rev_cases) simp_all
qed

lemma polymod_checksum: "polymod (vs @ checksum_values (polymod (vs @ replicate 6 0) XOR 1)) = 1"
proof -
  let ?c = "foldl polymod_step 1 vs" and ?plm = "polymod (vs @ replicate 6 0) XOR 1"
  have small: "unat ?plm < 2 ^ 30"
  proof (rule take_bit_small, rule bit_word_eqI)
    fix i
    show "bit (take_bit 30 ?plm) i = bit ?plm i"
      using small_bit [OF polymod_small [of "vs @ replicate 6 0"], of i] by (auto simp: bit_simps)
  qed
  have len: "length (checksum_values ?plm) = 6" by (simp add: checksum_values_def)
  have "polymod (vs @ checksum_values ?plm) = foldl polymod_step ?c (replicate 6 0) XOR ?plm"
    using polymod_foldl [of ?c 0 "checksum_values ?plm"] checksum_register [OF small] len by (simp add: polymod_def)
  also have "\<dots> = 1" by (simp add: polymod_def xor.assoc [symmetric])
  finally show ?thesis .
qed

section \<open>Strings round trip\<close>

lemma charset_table:
  "list_all (\<lambda>d. charset_position (CHARSET ! d) = Some d \<and> CHARSET ! d \<noteq> 49 \<and> \<not> is_ascii_uppercase (CHARSET ! d)) [0..<32]"
  by code_simp

lemma charset_nth:
  assumes "d < 32"
  shows "charset_position (CHARSET ! d) = Some d" "CHARSET ! d \<noteq> 49" "\<not> is_ascii_uppercase (CHARSET ! d)"
  using charset_table assms by (simp_all add: list_all_iff)

lemma charset_all_values:
  assumes "list_all (\<lambda>g. unat g < 32) ds"
  obtains cs where "charset_all ds = Some cs" "charset_values cs = Inr ds" "length cs = length ds" "49 \<notin> set cs"
    "list_all (\<lambda>c. \<not> is_ascii_uppercase c) cs"
  using assms
proof (induction ds arbitrary: thesis)
  case (Cons d ds)
  obtain cs where "charset_all ds = Some cs" "charset_values cs = Inr ds" "length cs = length ds" "49 \<notin> set cs"
    "list_all (\<lambda>c. \<not> is_ascii_uppercase c) cs"
    using Cons.IH Cons.prems by auto
  moreover have "unat d < 32" using Cons.prems by simp
  note charset_nth [OF this]
  ultimately show ?case using Cons.prems by (intro Cons.prems(1) [of "CHARSET ! unat d # cs"]) (simp_all add: charset_at_def)
qed simp

lemma rfind_sep: "49 \<notin> set cs \<Longrightarrow> rfind 49 (hrp @ 49 # cs) = Some (length hrp)"
proof -
  assume n: "49 \<notin> set cs"
  have "takeWhile (\<lambda>x. x \<noteq> 49) (rev cs @ 49 # rev hrp) = rev cs"
    using n by (subst takeWhile_append2) auto
  then show ?thesis by (simp add: rfind_def)
qed

lemma bech32_decode_encode:
  assumes hrp: "hrp \<noteq> []" "list_all (\<lambda>c. \<not> is_ascii_uppercase c) hrp" and data: "list_all (\<lambda>g. unat g < 32) data"
  obtains s where "bech32_encode hrp data = Some s" "bech32_decode s = Inr (hrp, data)"
proof -
  define cs where "cs = checksum_values (polymod (hrp_expand hrp @ data @ replicate 6 0) XOR 1)"
  have "unat (ucast (x AND 31 :: u32) :: u8) < 32" for x
  proof -
    have m: "x AND 31 = take_bit 5 x" by (simp add: take_bit_eq_mask mask_eq_exp_minus_1)
    have "(ucast (take_bit 5 x) :: u8) = take_bit 5 (ucast x)" by (rule bit_word_eqI) (auto simp: bit_simps)
    then show ?thesis unfolding m using take_bit_small [of 5 "take_bit 5 (ucast x :: u8)"] by simp
  qed
  then have "list_all (\<lambda>g. unat g < 32) cs" by (simp add: cs_def checksum_values_def list_all_iff)
  then obtain chars where c: "charset_all (data @ cs) = Some chars" "charset_values chars = Inr (data @ cs)"
    "length chars = length (data @ cs)" "49 \<notin> set chars" "list_all (\<lambda>c. \<not> is_ascii_uppercase c) chars"
    using charset_all_values [of "data @ cs"] data by auto
  have lcs: "length cs = 6" by (simp add: cs_def checksum_values_def)
  let ?s = "hrp @ 49 # chars"
  have one: "str_bytes ''1'' = [49]" by code_simp
  have enc: "bech32_encode hrp data = Some ?s" using c(1) by (simp add: bech32_encode_def cs_def one Let_def)
  have up: "\<not> list_ex is_ascii_uppercase ?s" using hrp(2) c(5) by (auto simp: list_ex_iff list_all_iff is_ascii_uppercase_def)
  then have low: "to_ascii_lowercase ?s = ?s" by (auto simp: to_ascii_lowercase_def list_ex_iff intro!: map_idI)
  have pm: "polymod (hrp_expand hrp @ data @ cs) = 1"
    using polymod_checksum [of "hrp_expand hrp @ data"] by (simp add: cs_def)
  have "bech32_decode ?s = Inr (hrp, data)"
    using up hrp(1) c lcs pm by (simp add: bech32_decode_def low rfind_sep Let_def)
  then show ?thesis using enc that by blast
qed

end
