(* ===== verification/Graph.thy ===== *)
theory Graph
  imports Wire_Msgs Types Keys Bitcoin_Tx "HOL-Library.AList" "HOL-Library.List_Lexorder"
begin

text \<open>
  \<^verbatim>\<open>src/src/graph/mod.rs\<close>: the gossip graph. The \<^verbatim>\<open>BTreeMap\<close> of channels and the \<^verbatim>\<open>HashMap\<close> of nodes are association
  lists read through \<open>map_of\<close> and written through \<open>AList.update\<close>; nothing iterates over them. A method with
  \<^verbatim>\<open>&mut self\<close> returns the graph beside its result. \<open>graph_reachable\<close> are the graphs gossip can build, and the
  theorem shows what the router may rely on: every edge belongs to a channel all four keys have signed,
  with a policy its source node has signed.
\<close>

unbundle bit_operations_syntax

section \<open>Data\<close>

datatype GossipError = BadSignature | UnknownChannel | WrongChain | Ignored

record DirectionalInfo =
  di_timestamp :: u32
  di_enabled :: bool
  di_cltv_expiry_delta :: u16
  di_htlc_minimum_msat :: Msat
  di_htlc_maximum_msat :: Msat
  di_fee_base_msat :: u32
  di_fee_proportional_millionths :: u32

definition fee_for :: "DirectionalInfo \<Rightarrow> Msat \<Rightarrow> Msat" where
  "fee_for d amount = ucast (di_fee_base_msat d) + amount * ucast (di_fee_proportional_millionths d) div 1000000"

record ChannelInfo =
  ci_node_1 :: PublicKey
  ci_node_2 :: PublicKey
  ci_capacity_sat :: "u64 option"
  one_to_two :: "DirectionalInfo option"
  two_to_one :: "DirectionalInfo option"

record NodeInfo =
  ni_last_timestamp :: u32
  ni_alias :: bytes
  ni_channels :: "ShortChannelId list"

definition NodeInfo_default :: NodeInfo where
  "NodeInfo_default = \<lparr>ni_last_timestamp = 0, ni_alias = replicate 32 0, ni_channels = []\<rparr>"

record NetworkGraph =
  ng_chain_hash :: bytes
  ng_channels :: "(ShortChannelId \<times> ChannelInfo) list"
  ng_nodes :: "(PublicKey \<times> NodeInfo) list"

text \<open>\<^verbatim>\<open>Network::chain_hash\<close> unwraps the decoding of a constant.\<close>

definition NetworkGraph_new :: "Network \<Rightarrow> NetworkGraph option" where
  "NetworkGraph_new network =
     (case chain_hash network of
        Inl _ \<Rightarrow> None
      | Inr chain \<Rightarrow> Some \<lparr>ng_chain_hash = chain, ng_channels = [], ng_nodes = []\<rparr>)"

definition graph_channel :: "NetworkGraph \<Rightarrow> ShortChannelId \<Rightarrow> ChannelInfo option" where
  "graph_channel g scid = map_of (ng_channels g) scid"

definition graph_node :: "NetworkGraph \<Rightarrow> PublicKey \<Rightarrow> NodeInfo option" where
  "graph_node g n = map_of (ng_nodes g) n"

definition channel_count :: "NetworkGraph \<Rightarrow> nat" where
  "channel_count g = length (ng_channels g)"

section \<open>Gossip\<close>

text \<open>\<^verbatim>\<open>self.nodes.entry(node).or_default().channels.push(scid)\<close>.\<close>

definition push_channel :: "ShortChannelId \<Rightarrow> PublicKey \<Rightarrow> NetworkGraph \<Rightarrow> NetworkGraph" where
  "push_channel scid node g =
     (let info = (case map_of (ng_nodes g) node of None \<Rightarrow> NodeInfo_default | Some i \<Rightarrow> i)
      in g\<lparr>ng_nodes := AList.update node (info\<lparr>ni_channels := ni_channels info @ [scid]\<rparr>) (ng_nodes g)\<rparr>)"

definition apply_channel_announcement ::
  "('z) EC_scheme \<Rightarrow> ChannelAnnouncement \<Rightarrow> u64 option \<Rightarrow> NetworkGraph \<Rightarrow> (GossipError, unit) result \<times> NetworkGraph" where
  "apply_channel_announcement E msg capacity_sat g =
     (if ca_chain_hash msg \<noteq> ng_chain_hash g then (Inl WrongChain, g)
      else if map_of (ng_channels g) (ca_short_channel_id msg) \<noteq> None then (Inl Ignored, g)
      else if ca_node_id_2 msg \<le> ca_node_id_1 msg then (Inl BadSignature, g)
      else
        let hash = sha256d (ca_signed_payload msg) in
        if \<not> verify_ecdsa E hash (ca_node_signature_1 msg) (ca_node_id_1 msg)
          \<or> \<not> verify_ecdsa E hash (ca_node_signature_2 msg) (ca_node_id_2 msg)
          \<or> \<not> verify_ecdsa E hash (ca_bitcoin_signature_1 msg) (ca_bitcoin_key_1 msg)
          \<or> \<not> verify_ecdsa E hash (ca_bitcoin_signature_2 msg) (ca_bitcoin_key_2 msg)
        then (Inl BadSignature, g)
        else
          let g = g\<lparr>ng_channels := AList.update (ca_short_channel_id msg)
                \<lparr>ci_node_1 = ca_node_id_1 msg, ci_node_2 = ca_node_id_2 msg, ci_capacity_sat = capacity_sat,
                 one_to_two = None, two_to_one = None\<rparr> (ng_channels g)\<rparr>
          in (Inr (), push_channel (ca_short_channel_id msg) (ca_node_id_2 msg)
                        (push_channel (ca_short_channel_id msg) (ca_node_id_1 msg) g)))"

text \<open>The policy a \<^verbatim>\<open>channel_update\<close> carries.\<close>

definition update_policy :: "ChannelUpdate \<Rightarrow> DirectionalInfo" where
  "update_policy msg =
     \<lparr>di_timestamp = cu_timestamp msg, di_enabled = (cu_channel_flags msg AND 2 = 0),
      di_cltv_expiry_delta = cu_cltv_expiry_delta msg, di_htlc_minimum_msat = cu_htlc_minimum_msat msg,
      di_htlc_maximum_msat = cu_htlc_maximum_msat msg, di_fee_base_msat = cu_fee_base_msat msg,
      di_fee_proportional_millionths = cu_fee_proportional_millionths msg\<rparr>"

definition apply_channel_update ::
  "('z) EC_scheme \<Rightarrow> ChannelUpdate \<Rightarrow> NetworkGraph \<Rightarrow> (GossipError, unit) result \<times> NetworkGraph" where
  "apply_channel_update E msg g =
     (if cu_chain_hash msg \<noteq> ng_chain_hash g then (Inl WrongChain, g)
      else case map_of (ng_channels g) (cu_short_channel_id msg) of
        None \<Rightarrow> (Inl UnknownChannel, g)
      | Some chan \<Rightarrow>
          let from_node_1 = (cu_channel_flags msg AND 1 = 0);
              signer = (if from_node_1 then ci_node_1 chan else ci_node_2 chan);
              hash = sha256d (cu_write_after_sig msg)
          in if \<not> verify_ecdsa E hash (cu_signature msg) signer then (Inl BadSignature, g)
             else
               let slot = (if from_node_1 then one_to_two chan else two_to_one chan) in
               if (case slot of None \<Rightarrow> False | Some existing \<Rightarrow> cu_timestamp msg \<le> di_timestamp existing)
               then (Inl Ignored, g)
               else
                 let chan = (if from_node_1 then chan\<lparr>one_to_two := Some (update_policy msg)\<rparr>
                             else chan\<lparr>two_to_one := Some (update_policy msg)\<rparr>)
                 in (Inr (), g\<lparr>ng_channels := AList.update (cu_short_channel_id msg) chan (ng_channels g)\<rparr>))"

definition apply_node_announcement ::
  "('z) EC_scheme \<Rightarrow> NodeAnnouncement \<Rightarrow> NetworkGraph \<Rightarrow> (GossipError, unit) result \<times> NetworkGraph" where
  "apply_node_announcement E msg g =
     (let hash = sha256d (na_write_after_sig msg) in
      if \<not> verify_ecdsa E hash (na_signature msg) (na_node_id msg) then (Inl BadSignature, g)
      else case map_of (ng_nodes g) (na_node_id msg) of
        None \<Rightarrow> (Inl UnknownChannel, g)
      | Some node \<Rightarrow>
          if na_timestamp msg \<le> ni_last_timestamp node then (Inl Ignored, g)
          else (Inr (), g\<lparr>ng_nodes := AList.update (na_node_id msg)
                 (node\<lparr>ni_last_timestamp := na_timestamp msg, ni_alias := na_alias msg\<rparr>) (ng_nodes g)\<rparr>))"

section \<open>Edges\<close>

type_synonym graph_edge = "ShortChannelId \<times> PublicKey \<times> DirectionalInfo \<times> u64 option"

definition edge_into :: "NetworkGraph \<Rightarrow> PublicKey \<Rightarrow> ShortChannelId \<Rightarrow> graph_edge option" where
  "edge_into g to scid =
     (case map_of (ng_channels g) scid of
        None \<Rightarrow> None
      | Some chan \<Rightarrow>
          let (from, policy) = (if ci_node_1 chan = to then (ci_node_2 chan, two_to_one chan) else (ci_node_1 chan, one_to_two chan))
          in case policy of
               None \<Rightarrow> None
             | Some policy \<Rightarrow> if \<not> di_enabled policy then None else Some (scid, from, policy, ci_capacity_sat chan))"

definition edges_into :: "NetworkGraph \<Rightarrow> PublicKey \<Rightarrow> graph_edge list" where
  "edges_into g to =
     (case map_of (ng_nodes g) to of
        None \<Rightarrow> []
      | Some n \<Rightarrow> List.map_filter (edge_into g to) (ni_channels n))"

section \<open>What gossip can build\<close>

inductive graph_step :: "('z) EC_scheme \<Rightarrow> NetworkGraph \<Rightarrow> NetworkGraph \<Rightarrow> bool" for E where
  "apply_channel_announcement E msg cap g = (r, g') \<Longrightarrow> graph_step E g g'"
| "apply_channel_update E msg g = (r, g') \<Longrightarrow> graph_step E g g'"
| "apply_node_announcement E msg g = (r, g') \<Longrightarrow> graph_step E g g'"

inductive graph_reachable :: "('z) EC_scheme \<Rightarrow> NetworkGraph \<Rightarrow> bool" for E where
  graph_init: "NetworkGraph_new network = Some g \<Longrightarrow> graph_reachable E g"
| graph_more: "graph_reachable E g \<Longrightarrow> graph_step E g g' \<Longrightarrow> graph_reachable E g'"

text \<open>A channel all four keys of an announcement on this chain have signed, with its nodes in order.\<close>

definition announced :: "('z) EC_scheme \<Rightarrow> bytes \<Rightarrow> ShortChannelId \<Rightarrow> PublicKey \<Rightarrow> PublicKey \<Rightarrow> bool" where
  "announced E chain scid a b \<longleftrightarrow> a < b \<and> (\<exists>msg. ca_chain_hash msg = chain \<and> ca_short_channel_id msg = scid
     \<and> ca_node_id_1 msg = a \<and> ca_node_id_2 msg = b
     \<and> verify_ecdsa E (sha256d (ca_signed_payload msg)) (ca_node_signature_1 msg) a
     \<and> verify_ecdsa E (sha256d (ca_signed_payload msg)) (ca_node_signature_2 msg) b
     \<and> verify_ecdsa E (sha256d (ca_signed_payload msg)) (ca_bitcoin_signature_1 msg) (ca_bitcoin_key_1 msg)
     \<and> verify_ecdsa E (sha256d (ca_signed_payload msg)) (ca_bitcoin_signature_2 msg) (ca_bitcoin_key_2 msg))"

text \<open>A policy \<open>node\<close> has signed for its direction of the channel.\<close>

definition signed_policy :: "('z) EC_scheme \<Rightarrow> bytes \<Rightarrow> ShortChannelId \<Rightarrow> bool \<Rightarrow> PublicKey \<Rightarrow> DirectionalInfo \<Rightarrow> bool" where
  "signed_policy E chain scid from_node_1 node policy \<longleftrightarrow>
     (\<exists>msg. cu_chain_hash msg = chain \<and> cu_short_channel_id msg = scid \<and> (cu_channel_flags msg AND 1 = 0) = from_node_1
        \<and> verify_ecdsa E (sha256d (cu_write_after_sig msg)) (cu_signature msg) node \<and> policy = update_policy msg)"

definition channel_ok :: "('z) EC_scheme \<Rightarrow> bytes \<Rightarrow> ShortChannelId \<Rightarrow> ChannelInfo \<Rightarrow> bool" where
  "channel_ok E chain scid c \<longleftrightarrow> announced E chain scid (ci_node_1 c) (ci_node_2 c)
     \<and> (\<forall>p. one_to_two c = Some p \<longrightarrow> signed_policy E chain scid True (ci_node_1 c) p)
     \<and> (\<forall>p. two_to_one c = Some p \<longrightarrow> signed_policy E chain scid False (ci_node_2 c) p)"

lemma map_of_update: "map_of (AList.update k v al) = (map_of al)(k \<mapsto> v)"
  by (simp add: update_conv')

lemma push_channel_simps [simp]:
  "ng_chain_hash (push_channel scid n g) = ng_chain_hash g"
  "ng_channels (push_channel scid n g) = ng_channels g"
  "map_of (ng_nodes (push_channel scid n g)) =
     (map_of (ng_nodes g))(n \<mapsto> (case map_of (ng_nodes g) n of None \<Rightarrow> NodeInfo_default | Some i \<Rightarrow> i)
        \<lparr>ni_channels := ni_channels (case map_of (ng_nodes g) n of None \<Rightarrow> NodeInfo_default | Some i \<Rightarrow> i) @ [scid]\<rparr>)"
  by (simp_all add: push_channel_def Let_def map_of_update)

text \<open>The channel list of a node, empty for an unknown one.\<close>

definition channels_of :: "NetworkGraph \<Rightarrow> PublicKey \<Rightarrow> ShortChannelId list" where
  "channels_of g n = (case map_of (ng_nodes g) n of None \<Rightarrow> [] | Some i \<Rightarrow> ni_channels i)"

lemma channels_of_push: "channels_of (push_channel scid n g) m = (if m = n then channels_of g m @ [scid] else channels_of g m)"
  by (simp add: channels_of_def NodeInfo_default_def split: option.splits)

text \<open>The invariant, over the channel lists.\<close>

definition graph_inv :: "('z) EC_scheme \<Rightarrow> NetworkGraph \<Rightarrow> bool" where
  "graph_inv E g \<longleftrightarrow>
     (\<forall>scid c. map_of (ng_channels g) scid = Some c \<longrightarrow> channel_ok E (ng_chain_hash g) scid c)
   \<and> (\<forall>n. distinct (channels_of g n))
   \<and> (\<forall>n scid. scid \<in> set (channels_of g n) \<longleftrightarrow>
        (\<exists>c. map_of (ng_channels g) scid = Some c \<and> (n = ci_node_1 c \<or> n = ci_node_2 c)))"

lemma announcement_inv:
  assumes inv: "graph_inv E g" and step: "apply_channel_announcement E msg cap g = (r, g')"
  shows "graph_inv E g'"
proof (cases "g' = g")
  case True
  then show ?thesis using inv by simp
next
  case False
  let ?scid = "ca_short_channel_id msg" and ?a = "ca_node_id_1 msg" and ?b = "ca_node_id_2 msg"
  let ?c = "\<lparr>ci_node_1 = ?a, ci_node_2 = ?b, ci_capacity_sat = cap, one_to_two = None, two_to_one = None\<rparr>"
  have new: "map_of (ng_channels g) ?scid = None" and ok: "channel_ok E (ng_chain_hash g) ?scid ?c"
    and g': "g' = push_channel ?scid ?b (push_channel ?scid ?a (g\<lparr>ng_channels := AList.update ?scid ?c (ng_channels g)\<rparr>))"
    using step False by (auto simp: apply_channel_announcement_def channel_ok_def announced_def Let_def split: if_splits)
  have ab: "?a \<noteq> ?b" using ok by (auto simp: channel_ok_def announced_def)
  have lists: "channels_of g' n = channels_of g n @ (if n = ?a \<or> n = ?b then [?scid] else [])" for n
    using ab by (simp add: g' channels_of_push) (auto simp: channels_of_def)
  have fresh: "?scid \<notin> set (channels_of g n)" for n using inv new by (simp add: graph_inv_def)
  have chans: "map_of (ng_channels g') = (map_of (ng_channels g))(?scid \<mapsto> ?c)" "ng_chain_hash g' = ng_chain_hash g"
    by (simp_all add: g' map_of_update)
  have "distinct (channels_of g' n)" for n using inv fresh by (simp add: lists graph_inv_def)
  moreover have "scid \<in> set (channels_of g' n) \<longleftrightarrow>
      (\<exists>c. map_of (ng_channels g') scid = Some c \<and> (n = ci_node_1 c \<or> n = ci_node_2 c))" for n scid
    using inv fresh [of n] by (auto simp: lists chans graph_inv_def)
  moreover have "channel_ok E (ng_chain_hash g') scid c" if "map_of (ng_channels g') scid = Some c" for scid c
    using that inv ok by (auto simp: chans graph_inv_def split: if_splits)
  ultimately show ?thesis by (simp add: graph_inv_def)
qed

lemma update_inv:
  assumes inv: "graph_inv E g" and step: "apply_channel_update E msg g = (r, g')"
  shows "graph_inv E g'"
proof (cases "g' = g")
  case True
  then show ?thesis using inv by simp
next
  case False
  let ?scid = "cu_short_channel_id msg" and ?d = "cu_channel_flags msg AND 1 = 0"
  obtain c where c: "map_of (ng_channels g) ?scid = Some c"
    and chain: "cu_chain_hash msg = ng_chain_hash g"
    and sig: "verify_ecdsa E (sha256d (cu_write_after_sig msg)) (cu_signature msg) (if ?d then ci_node_1 c else ci_node_2 c)"
    and g': "g' = g\<lparr>ng_channels := AList.update ?scid (if ?d then c\<lparr>one_to_two := Some (update_policy msg)\<rparr>
      else c\<lparr>two_to_one := Some (update_policy msg)\<rparr>) (ng_channels g)\<rparr>"
    using step False by (auto simp: apply_channel_update_def Let_def split: if_splits option.splits)
  let ?c = "if ?d then c\<lparr>one_to_two := Some (update_policy msg)\<rparr> else c\<lparr>two_to_one := Some (update_policy msg)\<rparr>"
  have nodes: "ci_node_1 ?c = ci_node_1 c" "ci_node_2 ?c = ci_node_2 c" by simp_all
  have chans: "map_of (ng_channels g') = (map_of (ng_channels g))(?scid \<mapsto> ?c)" "ng_chain_hash g' = ng_chain_hash g"
    "channels_of g' = channels_of g"
    by (simp_all add: g' map_of_update channels_of_def fun_eq_iff)
  have "channel_ok E (ng_chain_hash g) ?scid c" using inv c by (simp add: graph_inv_def)
  moreover have "signed_policy E (ng_chain_hash g) ?scid ?d (if ?d then ci_node_1 c else ci_node_2 c) (update_policy msg)"
    using sig chain by (auto simp: signed_policy_def)
  ultimately have "channel_ok E (ng_chain_hash g) ?scid ?c" by (auto simp: channel_ok_def)
  then have "channel_ok E (ng_chain_hash g') scid x" if "map_of (ng_channels g') scid = Some x" for scid x
    using that inv by (auto simp: chans graph_inv_def split: if_splits)
  moreover have "(\<exists>x. map_of (ng_channels g') scid = Some x \<and> (n = ci_node_1 x \<or> n = ci_node_2 x))
    \<longleftrightarrow> (\<exists>x. map_of (ng_channels g) scid = Some x \<and> (n = ci_node_1 x \<or> n = ci_node_2 x))" for n scid
    using c nodes by (auto simp: chans)
  ultimately show ?thesis using inv by (simp add: graph_inv_def chans(3))
qed

lemma node_announcement_inv:
  assumes inv: "graph_inv E g" and step: "apply_node_announcement E msg g = (r, g')"
  shows "graph_inv E g'"
proof -
  have "channels_of g' = channels_of g" "ng_channels g' = ng_channels g" "ng_chain_hash g' = ng_chain_hash g"
    using step by (auto simp: apply_node_announcement_def channels_of_def map_of_update fun_eq_iff Let_def split: if_splits option.splits)
  then show ?thesis using inv by (simp add: graph_inv_def)
qed

lemma graph_reachable_inv: "graph_reachable E g \<Longrightarrow> graph_inv E g"
proof (induction rule: graph_reachable.induct)
  case (graph_init network g)
  then show ?case by (auto simp: graph_inv_def NetworkGraph_new_def channels_of_def split: sum.splits)
next
  case (graph_more g g')
  then show ?case by (auto elim!: graph_step.cases intro: announcement_inv update_inv node_announcement_inv)
qed

lemma in_map_filter: "y \<in> set (List.map_filter f xs) \<longleftrightarrow> (\<exists>x \<in> set xs. f x = Some y)"
  by (induction xs) (auto simp: List.map_filter_simps split: option.splits)

lemma edges_into_iff:
  "(scid, from, policy, cap) \<in> set (edges_into g to) \<longleftrightarrow>
     scid \<in> set (channels_of g to) \<and> edge_into g to scid = Some (scid, from, policy, cap)"
proof -
  have "edge_into g to x = Some (scid, from, policy, cap) \<Longrightarrow> x = scid" for x
    by (auto simp: edge_into_def Let_def split: option.splits if_splits)
  then show ?thesis
    by (auto simp: edges_into_def channels_of_def in_map_filter split: option.splits)
qed

text \<open>C28: The edges the router sees are authentic and complete. In every graph gossip can build, an edge into a node is returned
  exactly when an announced channel on this chain, signed by both nodes and both bitcoin keys, joins the two nodes and carries an
  enabled policy for the direction towards the node; that policy was signed by the node the HTLC comes from.
\<close>

theorem graph_edges_authentic:
  assumes "graph_reachable E g"
  shows "(scid, from, policy, cap) \<in> set (edges_into g to) \<longleftrightarrow>
     (\<exists>c. graph_channel g scid = Some c \<and> ci_capacity_sat c = cap \<and> di_enabled policy
        \<and> announced E (ng_chain_hash g) scid (ci_node_1 c) (ci_node_2 c)
        \<and> (if to = ci_node_1 c then from = ci_node_2 c \<and> two_to_one c = Some policy
           else to = ci_node_2 c \<and> from = ci_node_1 c \<and> one_to_two c = Some policy)
        \<and> signed_policy E (ng_chain_hash g) scid (from = ci_node_1 c) from policy)"
proof -
  note inv = graph_reachable_inv [OF assms]
  let ?joins = "\<lambda>c. to = ci_node_1 c \<or> to = ci_node_2 c"
  have mem: "scid \<in> set (channels_of g to) \<longleftrightarrow> (\<exists>c. map_of (ng_channels g) scid = Some c \<and> ?joins c)"
    using inv by (simp add: graph_inv_def)
  show ?thesis
  proof (cases "map_of (ng_channels g) scid")
    case None
    then show ?thesis by (simp add: edges_into_iff mem graph_channel_def)
  next
    case (Some c)
    have ok: "channel_ok E (ng_chain_hash g) scid c" using inv Some by (simp add: graph_inv_def)
    have ne: "ci_node_1 c \<noteq> ci_node_2 c" and ann: "announced E (ng_chain_hash g) scid (ci_node_1 c) (ci_node_2 c)"
      using ok by (auto simp: channel_ok_def announced_def)
    have edge: "edge_into g to scid = Some (scid, from, policy, cap) \<longleftrightarrow> di_enabled policy \<and> ci_capacity_sat c = cap
        \<and> (if to = ci_node_1 c then from = ci_node_2 c \<and> two_to_one c = Some policy else from = ci_node_1 c \<and> one_to_two c = Some policy)"
      by (auto simp: edge_into_def Some split: option.splits)
    have "one_to_two c = Some policy \<Longrightarrow> signed_policy E (ng_chain_hash g) scid True (ci_node_1 c) policy"
      "two_to_one c = Some policy \<Longrightarrow> signed_policy E (ng_chain_hash g) scid False (ci_node_2 c) policy"
      using ok by (simp_all add: channel_ok_def)
    then show ?thesis
      unfolding edges_into_iff mem edge graph_channel_def Some using ne ann by auto
  qed
qed


text \<open>A channel between two nodes with a policy in one direction, announced and signed with the stand-in curve.\<close>

definition sample_chain :: bytes where
  "sample_chain = projr (chain_hash Regtest)"

definition sample_announcement :: ChannelAnnouncement where
  "sample_announcement =
     (let msg = \<lparr>ca_node_signature_1 = [], ca_node_signature_2 = [], ca_bitcoin_signature_1 = [], ca_bitcoin_signature_2 = [],
            ca_features = [], ca_chain_hash = sample_chain, ca_short_channel_id = 100, ca_node_id_1 = [1], ca_node_id_2 = [2],
            ca_bitcoin_key_1 = [3], ca_bitcoin_key_2 = [4]\<rparr>;
          hash = sha256d (ca_signed_payload msg)
      in msg\<lparr>ca_node_signature_1 := hash @ [1], ca_node_signature_2 := hash @ [2], ca_bitcoin_signature_1 := hash @ [3],
             ca_bitcoin_signature_2 := hash @ [4]\<rparr>)"

definition sample_update :: ChannelUpdate where
  "sample_update =
     (let msg = \<lparr>cu_signature = [], cu_chain_hash = sample_chain, cu_short_channel_id = 100, cu_timestamp = 5, cu_message_flags = 1,
            cu_channel_flags = 0, cu_cltv_expiry_delta = 40, cu_htlc_minimum_msat = 1, cu_fee_base_msat = 1000,
            cu_fee_proportional_millionths = 100, cu_htlc_maximum_msat = 1000000\<rparr>
      in msg\<lparr>cu_signature := sha256d (cu_write_after_sig msg) @ [1]\<rparr>)"

definition empty_graph :: NetworkGraph where
  "empty_graph = \<lparr>ng_chain_hash = sample_chain, ng_channels = [], ng_nodes = []\<rparr>"

definition sample_graph :: NetworkGraph where
  "sample_graph = snd (apply_channel_update toy_ec sample_update
     (snd (apply_channel_announcement toy_ec sample_announcement (Some 10000) empty_graph)))"

lemma sample_graph_new: "NetworkGraph_new Regtest = Some empty_graph"
proof -
  have "\<not> isl (chain_hash Regtest)" by code_simp
  then show ?thesis by (auto simp: NetworkGraph_new_def empty_graph_def sample_chain_def split: sum.splits)
qed

lemma sample_graph_reachable: "graph_reachable toy_ec sample_graph"
  unfolding sample_graph_def
  by (rule graph_more [OF graph_more [OF graph_init [OF sample_graph_new] graph_step.intros(1)] graph_step.intros(2)]) (rule prod.collapse [symmetric])+

lemma toy_ec_verify: "verify_ecdsa toy_ec m s k \<longleftrightarrow> s = m @ k"
  by (simp add: toy_ec_def)

lemma sample_graph_edges: "edges_into sample_graph [2] = [(100, [1], update_policy sample_update, Some 10000)]"
proof -
  have ann: "apply_channel_announcement toy_ec sample_announcement (Some 10000) empty_graph =
    (Inr (), push_channel 100 [2] (push_channel 100 [1] (empty_graph\<lparr>ng_channels :=
      [(100, \<lparr>ci_node_1 = [1], ci_node_2 = [2], ci_capacity_sat = Some 10000, one_to_two = None, two_to_one = None\<rparr>)]\<rparr>)))"
    by (simp add: apply_channel_announcement_def sample_announcement_def empty_graph_def toy_ec_verify ca_signed_payload_def Let_def)
  show ?thesis
    unfolding sample_graph_def ann snd_conv
    by (simp add: apply_channel_update_def sample_update_def toy_ec_verify cu_write_after_sig_def Let_def
      push_channel_def empty_graph_def edges_into_def edge_into_def update_policy_def List.map_filter_simps NodeInfo_default_def)
qed

theorem graph_edges_authentic_witness:
  "\<exists>c. graph_channel sample_graph 100 = Some c \<and> ci_capacity_sat c = Some 10000
     \<and> announced toy_ec (ng_chain_hash sample_graph) 100 (ci_node_1 c) (ci_node_2 c)
     \<and> signed_policy toy_ec (ng_chain_hash sample_graph) 100 ([1] = ci_node_1 c) [1] (update_policy sample_update)"
  using graph_edges_authentic [OF sample_graph_reachable, of 100 "[1]" "update_policy sample_update" "Some 10000" "[2]"]
  by (auto simp: sample_graph_edges)

end
