(* ===== verification/Router.thy ===== *)
theory Router
  imports Graph
begin

text \<open>
  \<^verbatim>\<open>src/src/router/mod.rs\<close>: the backward Dijkstra search and its default cost model. A \<^verbatim>\<open>PathScorer\<close> is a function parameter.
  The \<^verbatim>\<open>BinaryHeap\<close> is a list from which the greatest entry is popped; \<^verbatim>\<open>keys\<close>, which maps a serialized key back to the
  key, has no counterpart as keys are their serialization. The search loop is total; indexing \<^verbatim>\<open>best\<close> at a missing
  node, a panic, is \<open>None\<close>.
\<close>

section \<open>Data\<close>

record RouteHop =
  rh_node_id :: PublicKey
  rh_short_channel_id :: ShortChannelId
  rh_amount_msat :: Msat
  rh_cltv_expiry :: u32

record Route =
  route_hops :: "RouteHop list"
  first_hop_amount_msat :: Msat
  first_hop_cltv :: u32

definition route_fee_msat :: "Route \<Rightarrow> Msat \<Rightarrow> Msat" where
  "route_fee_msat r delivered =
     saturating_sub (first_hop_amount_msat r) delivered"

record FirstHop =
  fh_peer :: PublicKey
  fh_short_channel_id :: ShortChannelId
  fh_available_msat :: Msat

record EdgeCandidate =
  ec_short_channel_id :: ShortChannelId
  ec_from :: PublicKey
  ec_to :: PublicKey
  ec_policy :: DirectionalInfo
  ec_capacity_sat :: "u64 option"
  ec_amount_msat :: Msat

definition saturating_add :: "u64 \<Rightarrow> u64 \<Rightarrow> u64" where
  "saturating_add a b = (if unat a + unat b < 2 ^ 64 then a + b else -1)"

definition saturating_mul :: "u64 \<Rightarrow> u64 \<Rightarrow> u64" where
  "saturating_mul a b = (if unat a * unat b < 2 ^ 64 then a * b else -1)"

record DefaultScorer =
  cltv_penalty_per_block_msat :: u64
  base_penalty_msat :: u64

definition DefaultScorer_default :: DefaultScorer where
  "DefaultScorer_default = \<lparr>cltv_penalty_per_block_msat = 50, base_penalty_msat = 500\<rparr>"

definition penalty_msat :: "DefaultScorer \<Rightarrow> EdgeCandidate \<Rightarrow> u64" where
  "penalty_msat sc edge =
     (let penalty = base_penalty_msat sc + cltv_penalty_per_block_msat sc * ucast (di_cltv_expiry_delta (ec_policy edge));
          cap_msat = (case ec_capacity_sat edge of None \<Rightarrow> None | Some c \<Rightarrow> if 0 < c * 1000 then Some (c * 1000) else None)
      in case cap_msat of
           None \<Rightarrow> penalty
         | Some cap_msat \<Rightarrow>
             let used_ppm = saturating_mul (ec_amount_msat edge) 1000000 div cap_msat
             in penalty + used_ppm * used_ppm div 1000)"

datatype RouteError = NoPath | LimitExceeded

record RouteHintHop =
  hint_src_node_id :: PublicKey
  hint_short_channel_id :: ShortChannelId
  hint_fee_base_msat :: u32
  hint_fee_proportional_millionths :: u32
  hint_cltv_expiry_delta :: u16

record RouteParams =
  rp_payer :: PublicKey
  rp_payee :: PublicKey
  rp_amount_msat :: Msat
  rp_final_cltv_expiry :: u32
  rp_first_hops :: "FirstHop list"
  rp_route_hints :: "RouteHintHop list list"
  rp_max_hops :: nat

record NodeState =
  ns_amount :: Msat
  ns_cltv :: u32
  ns_cost :: u64
  ns_next :: "RouteHop option"
  ns_hops_to_payee :: nat

section \<open>The heap\<close>

type_synonym heap = "(u64 \<times> PublicKey) list"

text \<open>The order of \<^verbatim>\<open>(Reverse<u64>, [u8; 33])\<close>: \<open>a\<close> is popped before \<open>b\<close>.\<close>

definition heap_before :: "u64 \<times> PublicKey \<Rightarrow> u64 \<times> PublicKey \<Rightarrow> bool" where
  "heap_before a b = (fst a < fst b \<or> (fst a = fst b \<and> snd b < snd a))"

primrec heap_top :: "u64 \<times> PublicKey \<Rightarrow> heap \<Rightarrow> u64 \<times> PublicKey" where
  "heap_top t [] = t"
| "heap_top t (x # xs) = heap_top (if heap_before x t then x else t) xs"

definition heap_pop :: "heap \<Rightarrow> ((u64 \<times> PublicKey) \<times> heap) option" where
  "heap_pop h = (case h of [] \<Rightarrow> None | x # xs \<Rightarrow> let t = heap_top x xs in Some (t, remove1 t h))"

lemma heap_top_in: "heap_top t xs \<in> set (t # xs)"
  by (induction xs arbitrary: t) (auto split: if_splits)

lemma heap_top_le: "fst (heap_top t xs) \<le> fst t \<and> (\<forall>y \<in> set xs. fst (heap_top t xs) \<le> fst y)"
proof (induction xs arbitrary: t)
  case (Cons x xs)
  show ?case
    using Cons [of x] Cons [of t] by (auto simp: heap_before_def not_less intro: order_trans)
qed simp

lemma heap_pop_Some:
  assumes "heap_pop h = Some (t, h')"
  shows "t \<in> set h" "set h' \<subseteq> set h" "\<And>y. y \<in> set h \<Longrightarrow> fst t \<le> fst y" "length h' < length h"
proof -
  obtain x xs where h: "h = x # xs" using assms by (cases h) (auto simp: heap_pop_def)
  have t: "t = heap_top x xs" "h' = remove1 t h" using assms by (auto simp: heap_pop_def h Let_def)
  show "t \<in> set h" using heap_top_in [of x xs] t by (simp add: h)
  then show "length h' < length h" by (simp add: t(2) length_remove1) (cases h; simp)
  show "set h' \<subseteq> set h" by (simp add: t(2) set_remove1_subset)
  show "\<And>y. y \<in> set h \<Longrightarrow> fst t \<le> fst y" using heap_top_le [of x xs] t by (auto simp: h)
qed

section \<open>Hints and first hops\<close>

text \<open>\<^verbatim>\<open>hint_edges\<close>, as the list of its insertions \<open>(to, edge)\<close>.\<close>

definition hint_policy :: "RouteHintHop \<Rightarrow> DirectionalInfo" where
  "hint_policy hop =
     \<lparr>di_timestamp = 0, di_enabled = True, di_cltv_expiry_delta = hint_cltv_expiry_delta hop, di_htlc_minimum_msat = 0,
      di_htlc_maximum_msat = -1, di_fee_base_msat = hint_fee_base_msat hop,
      di_fee_proportional_millionths = hint_fee_proportional_millionths hop\<rparr>"

fun path_hint_edges :: "PublicKey \<Rightarrow> RouteHintHop list \<Rightarrow> (PublicKey \<times> graph_edge) list" where
  "path_hint_edges payee [] = []"
| "path_hint_edges payee (hop # path) =
     (case path of [] \<Rightarrow> payee | nxt # _ \<Rightarrow> hint_src_node_id nxt, hint_short_channel_id hop, hint_src_node_id hop, hint_policy hop, None)
     # path_hint_edges payee path"

definition hint_edges :: "RouteParams \<Rightarrow> (PublicKey \<times> graph_edge) list" where
  "hint_edges p = concat (map (path_hint_edges (rp_payee p)) (rp_route_hints p))"

text \<open>\<^verbatim>\<open>graph_edges.chain(hinted)\<close>.\<close>

definition candidate_edges :: "NetworkGraph \<Rightarrow> RouteParams \<Rightarrow> PublicKey \<Rightarrow> graph_edge list" where
  "candidate_edges g p node = edges_into g node @ map snd (filter (\<lambda>(to, _). to = node) (hint_edges p))"

text \<open>\<^verbatim>\<open>collect\<close> into a map: the last first hop of a peer is kept.\<close>

definition first_hop_by_peer :: "RouteParams \<Rightarrow> PublicKey \<Rightarrow> FirstHop option" where
  "first_hop_by_peer p peer = map_of (rev (map (\<lambda>fh. (fh_peer fh, fh)) (rp_first_hops p))) peer"

section \<open>The search\<close>

type_synonym best_map = "PublicKey \<Rightarrow> NodeState option"

definition is_better :: "best_map \<Rightarrow> PublicKey \<Rightarrow> u64 \<Rightarrow> bool" where
  "is_better best n cost = (case best n of None \<Rightarrow> True | Some s \<Rightarrow> cost < ns_cost s)"

definition payer_state :: "PublicKey \<Rightarrow> NodeState \<Rightarrow> FirstHop \<Rightarrow> NodeState" where
  "payer_state node state fh =
     \<lparr>ns_amount = ns_amount state, ns_cltv = ns_cltv state, ns_cost = ns_cost state,
      ns_next = Some \<lparr>rh_node_id = node, rh_short_channel_id = fh_short_channel_id fh,
        rh_amount_msat = ns_amount state, rh_cltv_expiry = ns_cltv state\<rparr>,
      ns_hops_to_payee = ns_hops_to_payee state + 1\<rparr>"

definition start_here :: "RouteParams \<Rightarrow> PublicKey \<Rightarrow> NodeState \<Rightarrow> best_map \<Rightarrow> best_map" where
  "start_here p node state best =
     (case first_hop_by_peer p node of
        None \<Rightarrow> best
      | Some fh \<Rightarrow>
          if ns_amount state \<le> fh_available_msat fh \<and> is_better best (rp_payer p) (ns_cost (payer_state node state fh))
          then best(rp_payer p \<mapsto> payer_state node state fh)
          else best)"

text \<open>The checks of one edge, giving the amount that enters it.\<close>

definition edge_usable :: "Msat \<Rightarrow> DirectionalInfo \<Rightarrow> u64 option \<Rightarrow> bool" where
  "edge_usable amount_in policy cap =
     (\<not> amount_in < di_htlc_minimum_msat policy \<and> \<not> amount_in > di_htlc_maximum_msat policy
      \<and> (case cap of None \<Rightarrow> True | Some c \<Rightarrow> \<not> amount_in > c * 1000))"

definition source_state :: "PublicKey \<Rightarrow> NodeState \<Rightarrow> ShortChannelId \<Rightarrow> DirectionalInfo \<Rightarrow> u64 \<Rightarrow> NodeState" where
  "source_state node state scid policy new_cost =
     \<lparr>ns_amount = ns_amount state + fee_for policy (ns_amount state), ns_cltv = ns_cltv state + ucast (di_cltv_expiry_delta policy),
      ns_cost = new_cost, ns_next = Some \<lparr>rh_node_id = node, rh_short_channel_id = scid,
        rh_amount_msat = ns_amount state, rh_cltv_expiry = ns_cltv state\<rparr>,
      ns_hops_to_payee = ns_hops_to_payee state + 1\<rparr>"

fun relax :: "(EdgeCandidate \<Rightarrow> u64) \<Rightarrow> RouteParams \<Rightarrow> PublicKey \<Rightarrow> NodeState \<Rightarrow> graph_edge \<Rightarrow> best_map \<times> heap \<Rightarrow> best_map \<times> heap" where
  "relax scorer p node state (scid, src, policy, capacity_sat) (best, heap) =
     (if src = rp_payee p then (best, heap)
      else if src = rp_payer p then (best, heap)
      else
        let fee = fee_for policy (ns_amount state);
            amount_in = ns_amount state + fee
        in if \<not> edge_usable amount_in policy capacity_sat then (best, heap)
           else
             let penalty = scorer \<lparr>ec_short_channel_id = scid, ec_from = src, ec_to = node, ec_policy = policy,
                   ec_capacity_sat = capacity_sat, ec_amount_msat = amount_in\<rparr>;
                 new_cost = saturating_add (saturating_add (ns_cost state) fee) penalty
             in if is_better best src new_cost
                then (best(src \<mapsto> source_state node state scid policy new_cost), heap @ [(new_cost, src)])
                else (best, heap))"

declare relax.simps [simp del]

definition expand :: "NetworkGraph \<Rightarrow> (EdgeCandidate \<Rightarrow> u64) \<Rightarrow> RouteParams \<Rightarrow> PublicKey \<Rightarrow> NodeState \<Rightarrow> best_map \<Rightarrow> heap \<Rightarrow> best_map \<times> heap" where
  "expand g scorer p node state best heap =
     fold (relax scorer p node state) (candidate_edges g p node) (start_here p node state best, heap)"

lemma start_here_cases:
  obtains "start_here p node state best = best"
  | fh where "first_hop_by_peer p node = Some fh" "ns_amount state \<le> fh_available_msat fh"
      "is_better best (rp_payer p) (ns_cost state)" "start_here p node state best = best(rp_payer p \<mapsto> payer_state node state fh)"
proof (cases "first_hop_by_peer p node")
  case None
  then show ?thesis using that(1) by (simp add: start_here_def)
next
  case (Some fh)
  have cost: "ns_cost (payer_state node state fh) = ns_cost state" by (simp add: payer_state_def)
  show ?thesis
  proof (cases "ns_amount state \<le> fh_available_msat fh \<and> is_better best (rp_payer p) (ns_cost state)")
    case True
    then show ?thesis using that(2) [OF Some] by (simp add: start_here_def Some cost)
  next
    case False
    have "start_here p node state best = best"
      unfolding start_here_def Some option.case cost by (rule if_not_P [OF False])
    then show ?thesis by (rule that(1))
  qed
qed

lemma saturating_add_ge: "a \<le> saturating_add a b"
proof (cases "unat a + unat b < 2 ^ 64")
  case True
  then have "unat (a + b) = unat a + unat b" by (simp add: unat_word_ariths)
  then show ?thesis using True by (simp add: saturating_add_def word_le_nat_alt)
qed (simp add: saturating_add_def)

lemma relax_cases:
  assumes "relax scorer p node state (scid, src, policy, cap) (best, heap) = (best', heap')"
  obtains "best' = best" "heap' = heap"
  | cost where "src \<noteq> rp_payee p" "src \<noteq> rp_payer p" "edge_usable (ns_amount state + fee_for policy (ns_amount state)) policy cap"
      "ns_cost state \<le> cost" "is_better best src cost"
      "best' = best(src \<mapsto> source_state node state scid policy cost)" "heap' = heap @ [(cost, src)]"
proof -
  define amount_in where "amount_in = ns_amount state + fee_for policy (ns_amount state)"
  define cost where "cost = saturating_add (saturating_add (ns_cost state) (fee_for policy (ns_amount state)))
    (scorer \<lparr>ec_short_channel_id = scid, ec_from = src, ec_to = node, ec_policy = policy, ec_capacity_sat = cap, ec_amount_msat = amount_in\<rparr>)"
  let ?c = "src \<noteq> rp_payee p \<and> src \<noteq> rp_payer p \<and> edge_usable amount_in policy cap \<and> is_better best src cost"
  have eq: "relax scorer p node state (scid, src, policy, cap) (best, heap) =
    (if ?c then (best(src \<mapsto> source_state node state scid policy cost), heap @ [(cost, src)]) else (best, heap))"
    by (simp add: relax.simps Let_def amount_in_def cost_def)
  have ge: "ns_cost state \<le> cost" unfolding cost_def by (rule order_trans [OF saturating_add_ge saturating_add_ge])
  show ?thesis
  proof (cases ?c)
    case True
    then show ?thesis using that(2) [of cost] assms eq ge by (simp add: amount_in_def)
  next
    case False
    have "(best', heap') = (best, heap)" unfolding assms [symmetric] eq by (rule if_not_P [OF False])
    then show ?thesis using that(1) by simp
  qed
qed

section \<open>Termination\<close>

text \<open>Every node a state can be recorded for besides the payee, and the sum of their costs.\<close>

definition sources :: "NetworkGraph \<Rightarrow> RouteParams \<Rightarrow> PublicKey set" where
  "sources g p = insert (rp_payer p) ((\<Union>c \<in> snd ` set (ng_channels g). {ci_node_1 c, ci_node_2 c})
     \<union> (\<lambda>(_, _, from, _). from) ` set (hint_edges p))"

definition cost_at :: "best_map \<Rightarrow> PublicKey \<Rightarrow> nat" where
  "cost_at best n = (case best n of None \<Rightarrow> 2 ^ 64 | Some s \<Rightarrow> unat (ns_cost s))"

definition potential :: "NetworkGraph \<Rightarrow> RouteParams \<Rightarrow> best_map \<Rightarrow> heap \<Rightarrow> nat" where
  "potential g p best heap = 2 * (\<Sum>n \<in> sources g p. cost_at best n) + length heap"

lemma finite_sources [simp]: "finite (sources g p)"
  by (simp add: sources_def)

lemma candidate_source: "(scid, from, policy, cap) \<in> set (candidate_edges g p node) \<Longrightarrow> from \<in> sources g p"
proof -
  assume "(scid, from, policy, cap) \<in> set (candidate_edges g p node)"
  then consider (graph) "(scid, from, policy, cap) \<in> set (edges_into g node)"
    | (hint) "(node, scid, from, policy, cap) \<in> set (hint_edges p)"
    by (auto simp: candidate_edges_def)
  then show ?thesis
  proof cases
    case graph
    then obtain c where "map_of (ng_channels g) scid = Some c" "from = ci_node_1 c \<or> from = ci_node_2 c"
      by (auto simp: edges_into_iff edge_into_def Let_def split: option.splits if_splits)
    then show ?thesis by (force simp: sources_def dest: map_of_SomeD)
  next
    case hint
    then show ?thesis by (force simp: sources_def)
  qed
qed

lemma cost_at_less: "is_better best n (ns_cost s) \<Longrightarrow> cost_at (best(n \<mapsto> s)) n < cost_at best n"
  using unat_bounds(4) [of "ns_cost s"]
  by (auto simp: is_better_def cost_at_def word_less_nat_alt split: option.splits)

lemma sum_cost_less:
  assumes "is_better best n (ns_cost s)" and "n \<in> sources g p"
  shows "(\<Sum>m \<in> sources g p. cost_at (best(n \<mapsto> s)) m) < (\<Sum>m \<in> sources g p. cost_at best m)"
proof (rule sum_strict_mono_ex1)
  show "\<forall>m \<in> sources g p. cost_at (best(n \<mapsto> s)) m \<le> cost_at best m"
    using cost_at_less [OF assms(1)] by (auto simp: cost_at_def)
  show "\<exists>m \<in> sources g p. cost_at (best(n \<mapsto> s)) m < cost_at best m"
    using cost_at_less [OF assms(1)] assms(2) by blast
qed simp

lemma potential_relax:
  assumes "e \<in> set (candidate_edges g p node)" and "relax scorer p node state e (best, heap) = (best', heap')"
  shows "potential g p best' heap' \<le> potential g p best heap"
proof -
  obtain scid n policy cap where e: "e = (scid, n, policy, cap)" by (cases e)
  have src: "n \<in> sources g p" using assms(1) candidate_source unfolding e by blast
  show ?thesis
  proof (rule relax_cases [OF assms(2) [unfolded e]])
    fix cost
    assume "is_better best n cost" and eq: "best' = best(n \<mapsto> source_state node state scid policy cost)" "heap' = heap @ [(cost, n)]"
    then have "is_better best n (ns_cost (source_state node state scid policy cost))" by (simp add: source_state_def)
    from sum_cost_less [OF this src] show ?thesis by (simp add: potential_def eq)
  qed simp
qed

lemma potential_relaxes:
  assumes "set es \<subseteq> set (candidate_edges g p node)" and "fold (relax scorer p node state) es (best, heap) = (best', heap')"
  shows "potential g p best' heap' \<le> potential g p best heap"
  using assms
proof (induction es arbitrary: best heap)
  case (Cons e es)
  obtain b h where eq: "relax scorer p node state e (best, heap) = (b, h)" by fastforce
  have "potential g p b h \<le> potential g p best heap" by (rule potential_relax [OF _ eq]) (use Cons.prems in auto)
  moreover have "potential g p best' heap' \<le> potential g p b h" using Cons eq by auto
  ultimately show ?case by linarith
qed simp

lemma potential_start: "potential g p (start_here p node state best) heap \<le> potential g p best heap"
proof -
  have src: "rp_payer p \<in> sources g p" by (simp add: sources_def)
  show ?thesis
  proof (rule start_here_cases [of p node state best])
    fix fh
    assume "is_better best (rp_payer p) (ns_cost state)" and eq: "start_here p node state best = best(rp_payer p \<mapsto> payer_state node state fh)"
    then have "is_better best (rp_payer p) (ns_cost (payer_state node state fh))" by (simp add: payer_state_def)
    from sum_cost_less [OF this src] show ?thesis by (simp add: potential_def eq)
  qed simp
qed

lemma potential_expand:
  assumes "expand g scorer p node state best heap = (best', heap')"
  shows "potential g p best' heap' \<le> potential g p best heap"
  using potential_relaxes [OF subset_refl assms [unfolded expand_def]] potential_start [of g p node state best heap]
  by linarith

lemma potential_pop: "heap_pop heap = Some (t, heap') \<Longrightarrow> potential g p best heap' < potential g p best heap"
  using heap_pop_Some(4) by (auto simp: potential_def)

text \<open>\<^verbatim>\<open>while let Some(..) = heap.pop()\<close>.\<close>

function route_loop :: "NetworkGraph \<Rightarrow> (EdgeCandidate \<Rightarrow> u64) \<Rightarrow> RouteParams \<Rightarrow> best_map \<Rightarrow> heap \<Rightarrow> best_map option" where
  "route_loop g scorer p best heap =
     (case heap_pop heap of
        None \<Rightarrow> Some best
      | Some ((cost, node), heap) \<Rightarrow>
          (case best node of
             None \<Rightarrow> None
           | Some state \<Rightarrow>
               if ns_cost state < cost then route_loop g scorer p best heap
               else if rp_max_hops p \<le> ns_hops_to_payee state then route_loop g scorer p best heap
               else let bh = expand g scorer p node state best heap in route_loop g scorer p (fst bh) (snd bh)))"
  by pat_completeness auto
termination
proof (relation "measure (\<lambda>(g, scorer, p, best, heap). potential g p best heap)", goal_cases)
  case (4 g scorer p best heap x t heap' cost node state bh)
  then show ?case using potential_expand [of g scorer p _ state best] potential_pop
    by (metis (no_types, lifting) in_measure old.prod.case order.strict_trans1 prod.collapse)
qed (auto dest: potential_pop)

declare route_loop.simps [simp del]

section \<open>The route\<close>

text \<open>\<^verbatim>\<open>while let Some(hop) = cursor\<close>.\<close>

function walk_route :: "best_map \<Rightarrow> PublicKey \<Rightarrow> nat \<Rightarrow> RouteHop option \<Rightarrow> RouteHop list \<Rightarrow> (RouteError, RouteHop list) result" where
  "walk_route best payee max_hops cursor hops =
     (case cursor of
        None \<Rightarrow> Inr hops
      | Some hop \<Rightarrow>
          let next_node = rh_node_id hop;
              hops = hops @ [hop]
          in if next_node = payee then Inr hops
             else
               let cursor = (case best next_node of None \<Rightarrow> None | Some s \<Rightarrow> ns_next s) in
               if max_hops < length hops then Inl LimitExceeded
               else walk_route best payee max_hops cursor hops)"
  by pat_completeness auto
termination
  by (relation "measure (\<lambda>(_, _, max_hops, _, hops). Suc max_hops - length hops)") auto

declare walk_route.simps [simp del]

definition payee_state :: "RouteParams \<Rightarrow> NodeState" where
  "payee_state p =
     \<lparr>ns_amount = rp_amount_msat p, ns_cltv = rp_final_cltv_expiry p, ns_cost = rp_amount_msat p, ns_next = None, ns_hops_to_payee = 0\<rparr>"

definition find_route :: "NetworkGraph \<Rightarrow> (EdgeCandidate \<Rightarrow> u64) \<Rightarrow> RouteParams \<Rightarrow> (RouteError, Route) result option" where
  "find_route g scorer p =
     (case route_loop g scorer p [rp_payee p \<mapsto> payee_state p] [(rp_amount_msat p, rp_payee p)] of
        None \<Rightarrow> None
      | Some best \<Rightarrow> Some
          (case best (rp_payer p) of
             None \<Rightarrow> Inl NoPath
           | Some ps \<Rightarrow>
               rbind (walk_route best (rp_payee p) (rp_max_hops p) (ns_next ps) []) (\<lambda>hops.
                 if hops = [] \<or> rh_node_id (last hops) \<noteq> rp_payee p then Inl NoPath
                 else Inr \<lparr>route_hops = hops, first_hop_amount_msat = ns_amount ps, first_hop_cltv = ns_cltv ps\<rparr>)))"

section \<open>The search invariant\<close>

text \<open>The hop a source node takes over one of its edges: what must leave it follows from what must arrive behind it.\<close>

definition forwards :: "NetworkGraph \<Rightarrow> RouteParams \<Rightarrow> PublicKey \<Rightarrow> Msat \<Rightarrow> u32 \<Rightarrow> RouteHop \<Rightarrow> bool" where
  "forwards g p node amount_in cltv_in hop \<longleftrightarrow>
     (\<exists>policy cap. (rh_short_channel_id hop, node, policy, cap) \<in> set (candidate_edges g p (rh_node_id hop))
        \<and> amount_in = rh_amount_msat hop + fee_for policy (rh_amount_msat hop)
        \<and> edge_usable amount_in policy cap
        \<and> cltv_in = rh_cltv_expiry hop + ucast (di_cltv_expiry_delta policy))"

definition starts :: "RouteParams \<Rightarrow> Msat \<Rightarrow> u32 \<Rightarrow> RouteHop \<Rightarrow> bool" where
  "starts p amount cltv hop \<longleftrightarrow>
     (\<exists>fh \<in> set (rp_first_hops p). fh_peer fh = rh_node_id hop \<and> fh_short_channel_id fh = rh_short_channel_id hop
        \<and> rh_amount_msat hop \<le> fh_available_msat fh)
     \<and> amount = rh_amount_msat hop \<and> cltv = rh_cltv_expiry hop"

text \<open>The record of a node points to a settled node, whose record agrees with it.\<close>

definition linked :: "NetworkGraph \<Rightarrow> RouteParams \<Rightarrow> best_map \<Rightarrow> PublicKey set \<Rightarrow> PublicKey \<Rightarrow> NodeState \<Rightarrow> bool" where
  "linked g p best S n s \<longleftrightarrow>
     (\<exists>hop t. ns_next s = Some hop \<and> rh_node_id hop \<in> S \<and> best (rh_node_id hop) = Some t
        \<and> rh_amount_msat hop = ns_amount t \<and> rh_cltv_expiry hop = ns_cltv t
        \<and> ns_hops_to_payee s = ns_hops_to_payee t + 1 \<and> ns_hops_to_payee s \<le> rp_max_hops p
        \<and> (if n = rp_payer p then starts p (ns_amount s) (ns_cltv s) hop else forwards g p n (ns_amount s) (ns_cltv s) hop))"

text \<open>\<open>S\<close> are the nodes expanded so far, all of cost at most \<open>d\<close>, the cost last popped.\<close>

definition search_inv :: "NetworkGraph \<Rightarrow> RouteParams \<Rightarrow> best_map \<Rightarrow> heap \<Rightarrow> PublicKey set \<Rightarrow> u64 \<Rightarrow> bool" where
  "search_inv g p best heap S d \<longleftrightarrow>
     best (rp_payee p) = Some (payee_state p) \<and> rp_amount_msat p \<le> d
   \<and> (\<forall>n \<in> S. (n \<noteq> rp_payer p \<or> rp_payer p = rp_payee p) \<and> (\<exists>s. best n = Some s \<and> ns_cost s \<le> d))
   \<and> (\<forall>c n. (c, n) \<in> set heap \<longrightarrow> (n \<noteq> rp_payer p \<or> rp_payer p = rp_payee p) \<and> d \<le> c \<and> (\<exists>s. best n = Some s \<and> ns_cost s \<le> c))
   \<and> (\<forall>n s. best n = Some s \<longrightarrow> n \<noteq> rp_payee p \<longrightarrow> linked g p best S n s)"

text \<open>Recording a better state for a node that is not settled keeps the invariant.\<close>

lemma linked_upd:
  assumes "linked g p best S n s" and "m \<notin> S"
  shows "linked g p (best(m \<mapsto> x)) S n s"
proof -
  obtain hop t where h: "ns_next s = Some hop" "rh_node_id hop \<in> S" "best (rh_node_id hop) = Some t"
    "rh_amount_msat hop = ns_amount t" "rh_cltv_expiry hop = ns_cltv t"
    "ns_hops_to_payee s = ns_hops_to_payee t + 1" "ns_hops_to_payee s \<le> rp_max_hops p"
    "if n = rp_payer p then starts p (ns_amount s) (ns_cltv s) hop else forwards g p n (ns_amount s) (ns_cltv s) hop"
    using assms(1) unfolding linked_def by blast
  have "(best(m \<mapsto> x)) (rh_node_id hop) = Some t" using h(2,3) assms(2) by auto
  then show ?thesis using h unfolding linked_def by blast
qed

lemma search_inv_record:
  assumes inv: "search_inv g p best heap S d" and m: "m \<notin> S" "m \<noteq> rp_payee p" and b: "is_better best m (ns_cost x)"
    and link: "linked g p (best(m \<mapsto> x)) S m x"
    and heap': "set heap' \<subseteq> set heap \<union> {(ns_cost x, m)}" "(ns_cost x, m) \<in> set heap' \<Longrightarrow> (m \<noteq> rp_payer p \<or> rp_payer p = rp_payee p) \<and> d \<le> ns_cost x"
  shows "search_inv g p (best(m \<mapsto> x)) heap' S d"
proof -
  have better: "ns_cost x \<le> ns_cost s" if "best m = Some s" for s using b that by (simp add: is_better_def)
  have "(n \<noteq> rp_payer p \<or> rp_payer p = rp_payee p) \<and> d \<le> c \<and> (\<exists>s. (best(m \<mapsto> x)) n = Some s \<and> ns_cost s \<le> c)" if cn: "(c, n) \<in> set heap'" for c n
  proof (cases "(c, n) = (ns_cost x, m)")
    case True
    then show ?thesis using heap'(2) cn by auto
  next
    case False
    then have "n \<noteq> rp_payer p \<or> rp_payer p = rp_payee p" "d \<le> c" "\<exists>s. best n = Some s \<and> ns_cost s \<le> c"
      using inv cn heap'(1) unfolding search_inv_def by blast+
    then show ?thesis using better by (auto intro: order_trans)
  qed
  moreover have "linked g p (best(m \<mapsto> x)) S n s" if "(best(m \<mapsto> x)) n = Some s" "n \<noteq> rp_payee p" for n s
    using that link inv linked_upd [OF _ m(1)] by (auto simp: search_inv_def split: if_splits)
  moreover have "\<forall>n \<in> S. (n \<noteq> rp_payer p \<or> rp_payer p = rp_payee p) \<and> (\<exists>s. (best(m \<mapsto> x)) n = Some s \<and> ns_cost s \<le> d)"
    using inv m(1) by (auto simp: search_inv_def)
  moreover have "(best(m \<mapsto> x)) (rp_payee p) = Some (payee_state p)" "rp_amount_msat p \<le> d"
    using inv m(2) by (simp_all add: search_inv_def)
  ultimately show ?thesis unfolding search_inv_def by blast
qed

text \<open>Expanding a settled node of cost \<open>d\<close>.\<close>

lemma search_inv_relax:
  assumes inv: "search_inv g p best heap S d" and node: "node \<in> S" "best node = Some state" "ns_cost state = d"
    and hops: "ns_hops_to_payee state < rp_max_hops p"
    and e: "(scid, src, policy, cap) \<in> set (candidate_edges g p node)"
    and r: "relax scorer p node state (scid, src, policy, cap) (best, heap) = (best', heap')"
  shows "search_inv g p best' heap' S d \<and> best' node = Some state"
proof (rule relax_cases [OF r])
  assume "best' = best" "heap' = heap"
  then show ?thesis using inv node by simp
next
  fix cost
  assume src: "src \<noteq> rp_payee p" "src \<noteq> rp_payer p"
    and us: "edge_usable (ns_amount state + fee_for policy (ns_amount state)) policy cap"
    and c: "ns_cost state \<le> cost" "is_better best src cost"
    and eq: "best' = best(src \<mapsto> source_state node state scid policy cost)" "heap' = heap @ [(cost, src)]"
  have new: "src \<notin> S"
  proof
    assume "src \<in> S"
    then obtain s where "best src = Some s" "ns_cost s \<le> d" using inv by (auto simp: search_inv_def)
    then show False using c node(3) by (auto simp: is_better_def)
  qed
  let ?x = "source_state node state scid policy cost"
  have cost: "ns_cost ?x = cost" by (simp add: source_state_def)
  have "forwards g p src (ns_amount ?x) (ns_cltv ?x)
      \<lparr>rh_node_id = node, rh_short_channel_id = scid, rh_amount_msat = ns_amount state, rh_cltv_expiry = ns_cltv state\<rparr>"
    using e us unfolding forwards_def source_state_def by auto
  then have link: "linked g p (best(src \<mapsto> ?x)) S src ?x"
    using node(1,2) new hops src(2) unfolding linked_def source_state_def by auto
  have "search_inv g p (best(src \<mapsto> ?x)) heap' S d"
    by (rule search_inv_record [OF inv new src(1) _ link]) (use c src(2) node(3) in \<open>auto simp: cost eq(2)\<close>)
  then show ?thesis using node(1,2) new by (auto simp: eq(1))
qed

lemma search_inv_relaxes:
  assumes "search_inv g p best heap S d" and "node \<in> S" "best node = Some state" "ns_cost state = d"
    and "ns_hops_to_payee state < rp_max_hops p" and "set es \<subseteq> set (candidate_edges g p node)"
    and "fold (relax scorer p node state) es (best, heap) = (best', heap')"
  shows "search_inv g p best' heap' S d"
  using assms
proof (induction es arbitrary: best heap)
  case (Cons e es)
  obtain b h where eq: "relax scorer p node state e (best, heap) = (b, h)" by fastforce
  obtain scid src policy cap where e: "e = (scid, src, policy, cap)" by (cases e)
  have "search_inv g p b h S d \<and> b node = Some state"
    by (rule search_inv_relax [OF Cons.prems(1-5) _ eq [unfolded e]]) (use Cons.prems(6) e in auto)
  then show ?case using Cons.IH [of b h] Cons.prems eq by simp
qed simp

lemma first_hop_by_peer_in: "first_hop_by_peer p n = Some fh \<Longrightarrow> fh \<in> set (rp_first_hops p) \<and> fh_peer fh = n"
  by (auto simp: first_hop_by_peer_def dest!: map_of_SomeD)

lemma search_inv_start:
  assumes inv: "search_inv g p best heap S d" and node: "node \<in> S" "best node = Some state" "ns_cost state = d"
    and hops: "ns_hops_to_payee state < rp_max_hops p"
  shows "search_inv g p (start_here p node state best) heap S d \<and> start_here p node state best node = Some state"
proof (rule start_here_cases [of p node state best])
  assume "start_here p node state best = best"
  then show ?thesis using inv node by simp
next
  fix fh
  assume fh: "first_hop_by_peer p node = Some fh" "ns_amount state \<le> fh_available_msat fh"
    and b: "is_better best (rp_payer p) (ns_cost state)"
    and eq: "start_here p node state best = best(rp_payer p \<mapsto> payer_state node state fh)"
  let ?x = "payer_state node state fh"
  have ne: "rp_payer p \<noteq> rp_payee p"
  proof
    assume "rp_payer p = rp_payee p"
    then have "best (rp_payer p) = Some (payee_state p)" "rp_amount_msat p \<le> ns_cost state"
      using inv node(3) by (simp_all add: search_inv_def)
    then show False using b by (simp add: is_better_def payee_state_def)
  qed
  then have new: "rp_payer p \<notin> S" using inv by (auto simp: search_inv_def)
  have "starts p (ns_amount ?x) (ns_cltv ?x) \<lparr>rh_node_id = node, rh_short_channel_id = fh_short_channel_id fh,
      rh_amount_msat = ns_amount state, rh_cltv_expiry = ns_cltv state\<rparr>"
    using first_hop_by_peer_in [OF fh(1)] fh(2) by (auto simp: starts_def payer_state_def)
  then have link: "linked g p (best(rp_payer p \<mapsto> ?x)) S (rp_payer p) ?x"
    using node(1,2) new hops unfolding linked_def
    by (intro exI [of _ "\<lparr>rh_node_id = node, rh_short_channel_id = fh_short_channel_id fh, rh_amount_msat = ns_amount state,
      rh_cltv_expiry = ns_cltv state\<rparr>"] exI [of _ state]) (auto simp: payer_state_def)
  have "search_inv g p (best(rp_payer p \<mapsto> ?x)) heap S d"
  proof (rule search_inv_record [OF inv new ne _ link])
    show "is_better best (rp_payer p) (ns_cost ?x)" using b by (simp add: payer_state_def)
    show "(ns_cost ?x, rp_payer p) \<in> set heap \<Longrightarrow> (rp_payer p \<noteq> rp_payer p \<or> rp_payer p = rp_payee p) \<and> d \<le> ns_cost ?x"
      using inv by (auto simp: search_inv_def)
  qed auto
  then show ?thesis using node(1,2) new by (auto simp: eq)
qed

lemma linked_mono: "linked g p best S n s \<Longrightarrow> S \<subseteq> S' \<Longrightarrow> linked g p best S' n s"
  unfolding linked_def by blast

lemma search_inv_pop:
  assumes inv: "search_inv g p best heap S d" and pop: "heap_pop heap = Some ((cost, node), heap')"
  shows "search_inv g p best heap' S cost" "\<exists>s. best node = Some s \<and> ns_cost s \<le> cost"
    "node \<noteq> rp_payer p \<or> rp_payer p = rp_payee p"
proof -
  note h = heap_pop_Some [OF pop]
  have top: "(cost, node) \<in> set heap" by (rule h(1))
  show ex: "\<exists>s. best node = Some s \<and> ns_cost s \<le> cost" "node \<noteq> rp_payer p \<or> rp_payer p = rp_payee p"
    using inv top by (auto simp: search_inv_def)
  have d: "d \<le> cost" using inv top by (auto simp: search_inv_def)
  have "cost \<le> c" if "(c, n) \<in> set heap'" for c n using h(2,3) that by fastforce
  then show "search_inv g p best heap' S cost"
    using inv h(2) d unfolding search_inv_def by (auto 0 3 intro: order_trans)
qed

lemma search_inv_settle:
  assumes "search_inv g p best heap S d" and "best node = Some s" "ns_cost s \<le> d" "node \<noteq> rp_payer p \<or> rp_payer p = rp_payee p"
  shows "search_inv g p best heap (insert node S) d"
  using assms linked_mono [OF _ subset_insertI, of g p best S] unfolding search_inv_def by auto

lemma route_loop_inv:
  assumes "search_inv g p best heap S d"
  shows "\<exists>best' S' d'. route_loop g scorer p best heap = Some best' \<and> search_inv g p best' [] S' d'"
  using assms
proof (induction g scorer p best heap arbitrary: S d rule: route_loop.induct)
  case (1 g scorer p best heap)
  show ?case
  proof (cases "heap_pop heap")
    case None
    then have "heap = []" by (cases heap) (auto simp: heap_pop_def Let_def)
    then show ?thesis using "1.prems" by (auto simp: route_loop.simps [of g scorer p best "[]"] heap_pop_def)
  next
    case (Some th)
    obtain cost node heap' where th: "th = ((cost, node), heap')" by (metis prod.collapse)
    have pop: "heap_pop heap = Some ((cost, node), heap')" using Some th by simp
    note inv = search_inv_pop [OF "1.prems" pop]
    obtain s where s: "best node = Some s" "ns_cost s \<le> cost" using inv(2) by blast
    note IH = "1.IH" [OF pop refl refl s(1)]
    have step: "route_loop g scorer p best heap =
      (if ns_cost s < cost then route_loop g scorer p best heap'
       else if rp_max_hops p \<le> ns_hops_to_payee s then route_loop g scorer p best heap'
       else let bh = expand g scorer p node s best heap' in route_loop g scorer p (fst bh) (snd bh))"
      by (simp add: route_loop.simps [of g scorer p best heap] pop s)
    consider "ns_cost s < cost" | "\<not> ns_cost s < cost" "rp_max_hops p \<le> ns_hops_to_payee s"
      | "\<not> ns_cost s < cost" "\<not> rp_max_hops p \<le> ns_hops_to_payee s" by blast
    then show ?thesis
    proof cases
      case 1
      then show ?thesis using IH(1) [OF 1 inv(1)] step by simp
    next
      case 2
      then show ?thesis using IH(2) [OF 2 inv(1)] step by simp
    next
      case 3
      let ?S = "insert node S"
      have cost: "ns_cost s = cost" using 3 s by simp
      have settled: "search_inv g p best heap' ?S cost" by (rule search_inv_settle [OF inv(1) s inv(3)])
      have start: "search_inv g p (start_here p node s best) heap' ?S cost" "start_here p node s best node = Some s"
        using search_inv_start [OF settled _ s(1) cost] 3 by simp_all
      obtain b h where ex: "expand g scorer p node s best heap' = (b, h)" by fastforce
      have "search_inv g p b h ?S cost"
        by (rule search_inv_relaxes [OF start(1) _ start(2) cost _ subset_refl ex [unfolded expand_def]]) (use 3 in simp_all)
      then show ?thesis using IH(3) [OF 3 refl] step 3 ex by simp
    qed
  qed
qed

section \<open>Routes are payable\<close>

text \<open>From \<open>node\<close>, which receives \<open>amount\<close> with expiry \<open>cltv\<close>, the hops lead to the payee.\<close>

primrec path_ok :: "NetworkGraph \<Rightarrow> RouteParams \<Rightarrow> PublicKey \<Rightarrow> Msat \<Rightarrow> u32 \<Rightarrow> RouteHop list \<Rightarrow> bool" where
  "path_ok g p node amount cltv [] \<longleftrightarrow> node = rp_payee p \<and> amount = rp_amount_msat p \<and> cltv = rp_final_cltv_expiry p"
| "path_ok g p node amount cltv (hop # hops) \<longleftrightarrow>
     node \<noteq> rp_payee p \<and> node \<noteq> rp_payer p \<and> forwards g p node amount cltv hop
     \<and> path_ok g p (rh_node_id hop) (rh_amount_msat hop) (rh_cltv_expiry hop) hops"

definition route_ok :: "NetworkGraph \<Rightarrow> RouteParams \<Rightarrow> Route \<Rightarrow> bool" where
  "route_ok g p r \<longleftrightarrow>
     (case route_hops r of
        [] \<Rightarrow> False
      | hop # hops \<Rightarrow> starts p (first_hop_amount_msat r) (first_hop_cltv r) hop
          \<and> path_ok g p (rh_node_id hop) (rh_amount_msat hop) (rh_cltv_expiry hop) hops)
     \<and> length (route_hops r) \<le> rp_max_hops p"

lemma search_inv_linked:
  "search_inv g p best heap S d \<Longrightarrow> best n = Some s \<Longrightarrow> n \<noteq> rp_payee p \<Longrightarrow> linked g p best S n s"
  by (simp add: search_inv_def)

lemma search_inv_settled: "search_inv g p best heap S d \<Longrightarrow> n \<in> S \<Longrightarrow> n \<noteq> rp_payer p \<or> rp_payer p = rp_payee p"
  by (simp add: search_inv_def)

lemma walk_route_ok:
  assumes "search_inv g p best heap S d" and "rh_node_id hop \<in> S" and "best (rh_node_id hop) = Some t"
    and "rh_amount_msat hop = ns_amount t" "rh_cltv_expiry hop = ns_cltv t"
    and "length acc + 1 + ns_hops_to_payee t \<le> rp_max_hops p"
  shows "\<exists>rest. walk_route best (rp_payee p) (rp_max_hops p) (Some hop) acc = Inr (acc @ hop # rest)
    \<and> path_ok g p (rh_node_id hop) (rh_amount_msat hop) (rh_cltv_expiry hop) rest
    \<and> length rest = ns_hops_to_payee t \<and> rh_node_id (last (hop # rest)) = rp_payee p"
  using assms
proof (induction "ns_hops_to_payee t" arbitrary: hop t acc rule: less_induct)
  case less
  let ?m = "rh_node_id hop"
  show ?case
  proof (cases "?m = rp_payee p")
    case True
    then have "t = payee_state p" using less.prems by (simp add: search_inv_def)
    then show ?thesis
      using True less.prems by (intro exI [of _ "[]"]) (simp add: walk_route.simps payee_state_def)
  next
    case False
    have payer: "?m \<noteq> rp_payer p" using search_inv_settled [OF less.prems(1,2)] False by metis
    obtain hop' t' where h: "ns_next t = Some hop'" "rh_node_id hop' \<in> S" "best (rh_node_id hop') = Some t'"
      "rh_amount_msat hop' = ns_amount t'" "rh_cltv_expiry hop' = ns_cltv t'" "ns_hops_to_payee t = ns_hops_to_payee t' + 1"
      "forwards g p ?m (ns_amount t) (ns_cltv t) hop'"
      using search_inv_linked [OF less.prems(1,3) False] unfolding linked_def if_not_P [OF payer] by blast
    have "walk_route best (rp_payee p) (rp_max_hops p) (Some hop) acc
      = walk_route best (rp_payee p) (rp_max_hops p) (Some hop') (acc @ [hop])"
      using False less.prems(3,6) h(1,6) by (simp add: walk_route.simps [of _ _ _ "Some hop"])
    moreover obtain rest where "walk_route best (rp_payee p) (rp_max_hops p) (Some hop') (acc @ [hop]) = Inr ((acc @ [hop]) @ hop' # rest)"
      "path_ok g p (rh_node_id hop') (rh_amount_msat hop') (rh_cltv_expiry hop') rest"
      "length rest = ns_hops_to_payee t'" "rh_node_id (last (hop' # rest)) = rp_payee p"
      using less.hyps [of t' hop' "acc @ [hop]"] less.prems(1,6) h by auto
    ultimately show ?thesis
      using False payer h(6,7) less.prems(4,5) by (intro exI [of _ "hop' # rest"]) simp
  qed
qed

lemma search_inv_init: "search_inv g p [rp_payee p \<mapsto> payee_state p] [(rp_amount_msat p, rp_payee p)] {} (rp_amount_msat p)"
  by (auto simp: search_inv_def payee_state_def split: if_splits)

lemma find_route_result:
  "find_route g scorer p = Some (Inl NoPath) \<or> (\<exists>r. find_route g scorer p = Some (Inr r) \<and> route_ok g p r)"
proof -
  obtain best S d where loop: "route_loop g scorer p [rp_payee p \<mapsto> payee_state p] [(rp_amount_msat p, rp_payee p)] = Some best"
    and inv: "search_inv g p best [] S d"
    using route_loop_inv [OF search_inv_init, of g scorer p] by blast
  show ?thesis
  proof (cases "best (rp_payer p)")
    case None
    then show ?thesis by (simp add: find_route_def loop)
  next
    case (Some ps)
    show ?thesis
    proof (cases "rp_payer p = rp_payee p")
      case True
      then have "ps = payee_state p" using inv Some by (simp add: search_inv_def)
      then have "ns_next ps = None" by (simp add: payee_state_def)
      then show ?thesis by (simp add: find_route_def loop Some walk_route.simps)
    next
      case False
      obtain hop t where h: "ns_next ps = Some hop" "rh_node_id hop \<in> S" "best (rh_node_id hop) = Some t"
        "rh_amount_msat hop = ns_amount t" "rh_cltv_expiry hop = ns_cltv t" "ns_hops_to_payee ps = ns_hops_to_payee t + 1"
        "ns_hops_to_payee ps \<le> rp_max_hops p" "starts p (ns_amount ps) (ns_cltv ps) hop"
        using search_inv_linked [OF inv Some False] unfolding linked_def if_P [OF refl] by blast
      obtain rest where w: "walk_route best (rp_payee p) (rp_max_hops p) (Some hop) [] = Inr (hop # rest)"
        "path_ok g p (rh_node_id hop) (rh_amount_msat hop) (rh_cltv_expiry hop) rest"
        "length rest = ns_hops_to_payee t" "rh_node_id (last (hop # rest)) = rp_payee p"
        using walk_route_ok [OF inv h(2-5), of "[]"] h(6,7) by auto
      let ?r = "\<lparr>route_hops = hop # rest, first_hop_amount_msat = ns_amount ps, first_hop_cltv = ns_cltv ps\<rparr>"
      have "find_route g scorer p = Some (Inr ?r)" using w(1,4) by (simp add: find_route_def loop Some h(1))
      moreover have "route_ok g p ?r" using w(2,3) h(6-8) by (simp add: route_ok_def)
      ultimately show ?thesis by blast
    qed
  qed
qed

section \<open>A direct channel to the payee is always found\<close>

lemma relax_keeps: "relax scorer p node state e (best, heap) = (best', heap') \<Longrightarrow> best n \<noteq> None \<Longrightarrow> best' n \<noteq> None"
  by (cases e) (auto elim!: relax_cases)

lemma relaxes_keep: "fold (relax scorer p node state) es (best, heap) = (best', heap') \<Longrightarrow> best n \<noteq> None \<Longrightarrow> best' n \<noteq> None"
proof (induction es arbitrary: best heap)
  case (Cons e es)
  then show ?case using relax_keeps [of scorer p node state e best heap] by (metis fold_simps(2) prod.collapse)
qed simp

lemma expand_keeps: "expand g scorer p node state best heap = (best', heap') \<Longrightarrow> start_here p node state best n \<noteq> None \<Longrightarrow> best' n \<noteq> None"
  unfolding expand_def by (rule relaxes_keep)

lemma start_here_keeps: "best n \<noteq> None \<Longrightarrow> start_here p node state best n \<noteq> None"
  by (rule start_here_cases [of p node state best]) auto

lemma route_loop_keeps:
  "route_loop g scorer p best heap = Some best' \<Longrightarrow> best n \<noteq> None \<Longrightarrow> best' n \<noteq> None"
proof (induction g scorer p best heap rule: route_loop.induct)
  case (1 g scorer p best heap)
  show ?case
  proof (cases "heap_pop heap")
    case None
    then show ?thesis using "1.prems" by (simp add: route_loop.simps [of g scorer p best heap])
  next
    case (Some th)
    obtain cost node heap' where th: "th = ((cost, node), heap')" by (metis prod.collapse)
    have pop: "heap_pop heap = Some ((cost, node), heap')" using Some th by simp
    obtain s where s: "best node = Some s"
      using "1.prems" pop by (cases "best node") (simp_all add: route_loop.simps [of g scorer p best heap])
    note IH = "1.IH" [OF pop refl refl s]
    have keeps: "fst (expand g scorer p node s best heap') n \<noteq> None"
      using expand_keeps [OF prod.collapse [symmetric] start_here_keeps] "1.prems"(2) by metis
    show ?thesis
      using "1.prems" IH(1) IH(2) IH(3) [OF _ _ refl] keeps
      by (simp add: route_loop.simps [of g scorer p best heap] pop s Let_def split: if_splits)
  qed
qed

definition direct_channel :: "RouteParams \<Rightarrow> bool" where
  "direct_channel p \<longleftrightarrow> rp_payer p \<noteq> rp_payee p \<and> 0 < rp_max_hops p
     \<and> (case first_hop_by_peer p (rp_payee p) of None \<Rightarrow> False | Some fh \<Rightarrow> rp_amount_msat p \<le> fh_available_msat fh)"

lemma find_route_direct:
  assumes fh: "first_hop_by_peer p (rp_payee p) = Some fh" "rp_amount_msat p \<le> fh_available_msat fh"
    and "rp_payer p \<noteq> rp_payee p" "0 < rp_max_hops p"
  shows "\<exists>r. find_route g scorer p = Some (Inr r)"
proof -
  let ?b = "[rp_payee p \<mapsto> payee_state p]" and ?h = "[(rp_amount_msat p, rp_payee p)]"
  obtain best S d where loop: "route_loop g scorer p ?b ?h = Some best" and inv: "search_inv g p best [] S d"
    using route_loop_inv [OF search_inv_init, of g scorer p] by blast
  obtain b h where ex: "expand g scorer p (rp_payee p) (payee_state p) ?b [] = (b, h)" by fastforce
  have step: "route_loop g scorer p ?b ?h = route_loop g scorer p b h"
    using assms(4) by (simp add: route_loop.simps [of g scorer p ?b ?h] heap_pop_def ex) (simp add: payee_state_def)
  have "start_here p (rp_payee p) (payee_state p) ?b (rp_payer p) \<noteq> None"
    using assms by (simp add: start_here_def is_better_def payee_state_def)
  then have "best (rp_payer p) \<noteq> None"
    using route_loop_keeps [of g scorer p b h best] expand_keeps [OF ex] loop step by metis
  then obtain ps where ps: "best (rp_payer p) = Some ps" by auto
  from search_inv_linked [OF inv ps assms(3)] obtain hop t where
    h: "ns_next ps = Some hop" "rh_node_id hop \<in> S" "best (rh_node_id hop) = Some t"
      "rh_amount_msat hop = ns_amount t" "rh_cltv_expiry hop = ns_cltv t"
      "ns_hops_to_payee ps = ns_hops_to_payee t + 1" "ns_hops_to_payee ps \<le> rp_max_hops p"
    unfolding linked_def by blast
  show ?thesis
    using walk_route_ok [OF inv h(2-5), of "[]"] h(1,6,7) by (auto simp: find_route_def loop ps)
qed


end
