(* ===== verification/Invoice.thy ===== *)
theory Invoice
  imports Bech32 Router Features
begin

text \<open>
  \<^verbatim>\<open>src/src/invoice/mod.rs\<close>: BOLT 11 invoices. Strings are lists of UTF-8 bytes. The recoverable signatures of the
  \<^verbatim>\<open>secp256k1\<close> crate are parameters. A failed \<^verbatim>\<open>expect\<close> of the builder is \<open>None\<close>. \<^verbatim>\<open>RouteHintHop\<close> is declared in theory Router,
  which uses it too.
\<close>

unbundle bit_operations_syntax

section \<open>Data\<close>

text \<open>\<^verbatim>\<open>RecoveryId::from_i32\<close>, \<^verbatim>\<open>RecoverableSignature::from_compact\<close> and \<^verbatim>\<open>recover_ecdsa\<close>.\<close>

record RecoverySecp = EC +
  recid_ok :: "u8 \<Rightarrow> bool"
  rsig_from_compact_ok :: "bytes \<Rightarrow> u8 \<Rightarrow> bool"
  recover_ecdsa :: "bytes \<Rightarrow> bytes \<Rightarrow> u8 \<Rightarrow> PublicKey option"

definition TAG_PAYMENT_HASH :: u8 where "TAG_PAYMENT_HASH = 1"
definition TAG_ROUTE_HINT :: u8 where "TAG_ROUTE_HINT = 3"
definition TAG_FEATURES :: u8 where "TAG_FEATURES = 5"
definition TAG_EXPIRY :: u8 where "TAG_EXPIRY = 6"
definition TAG_FALLBACK :: u8 where "TAG_FALLBACK = 9"
definition TAG_DESCRIPTION :: u8 where "TAG_DESCRIPTION = 13"
definition TAG_PAYMENT_SECRET :: u8 where "TAG_PAYMENT_SECRET = 16"
definition TAG_PAYEE_NODE :: u8 where "TAG_PAYEE_NODE = 19"
definition TAG_DESCRIPTION_HASH :: u8 where "TAG_DESCRIPTION_HASH = 23"
definition TAG_MIN_FINAL_CLTV :: u8 where "TAG_MIN_FINAL_CLTV = 24"
definition TAG_METADATA :: u8 where "TAG_METADATA = 27"

lemmas tag_defs = TAG_PAYMENT_HASH_def TAG_ROUTE_HINT_def TAG_FEATURES_def TAG_EXPIRY_def TAG_FALLBACK_def TAG_DESCRIPTION_def
  TAG_PAYMENT_SECRET_def TAG_PAYEE_NODE_def TAG_DESCRIPTION_HASH_def TAG_MIN_FINAL_CLTV_def TAG_METADATA_def

definition DEFAULT_EXPIRY_SECS :: u64 where "DEFAULT_EXPIRY_SECS = 3600"
definition DEFAULT_MIN_FINAL_CLTV :: u32 where "DEFAULT_MIN_FINAL_CLTV = 18"

datatype InvoiceError =
    Bech32 Bech32Error | BadPrefix | BadAmount | TooShort | MissingField string | BadField string | BadInvoiceSignature

datatype Description = Direct bytes | Hash bytes

record Bolt11Invoice =
  inv_network :: Network
  inv_amount_msat :: "Msat option"
  inv_timestamp :: u64
  inv_payment_hash :: PaymentHash
  inv_payment_secret :: bytes
  inv_description :: Description
  inv_expiry_secs :: "u64 option"
  inv_min_final_cltv :: "u32 option"
  inv_features :: Features
  inv_route_hints :: "RouteHintHop list list"
  inv_payee :: PublicKey

definition expiry_secs_or_default :: "Bolt11Invoice \<Rightarrow> u64" where
  "expiry_secs_or_default i = (case inv_expiry_secs i of None \<Rightarrow> DEFAULT_EXPIRY_SECS | Some x \<Rightarrow> x)"

definition min_final_cltv_or_default :: "Bolt11Invoice \<Rightarrow> u32" where
  "min_final_cltv_or_default i = (case inv_min_final_cltv i of None \<Rightarrow> DEFAULT_MIN_FINAL_CLTV | Some x \<Rightarrow> x)"

definition is_expired_at :: "Bolt11Invoice \<Rightarrow> u64 \<Rightarrow> bool" where
  "is_expired_at i unix_time = (unix_time > saturating_add (inv_timestamp i) (expiry_secs_or_default i))"

section \<open>Amounts\<close>

definition is_ascii_digit :: "u8 \<Rightarrow> bool" where
  "is_ascii_digit c = (48 \<le> c \<and> c \<le> 57)"

text \<open>\<^verbatim>\<open>str::parse::<u64>\<close> of a nonempty string of digits: it fails on overflow.\<close>

definition digits_value :: "bytes \<Rightarrow> nat" where
  "digits_value ds = foldl (\<lambda>n d. 10 * n + (unat d - 48)) 0 ds"

definition parse_u64 :: "bytes \<Rightarrow> u64 option" where
  "parse_u64 ds = (if digits_value ds < 2 ^ 64 then Some (of_nat (digits_value ds)) else None)"

text \<open>\<^verbatim>\<open>format!("{}", n)\<close>.\<close>

fun decimal :: "nat \<Rightarrow> bytes" where
  "decimal n = (if n < 10 then [of_nat (48 + n)] else decimal (n div 10) @ [of_nat (48 + n mod 10)])"

declare decimal.simps [simp del]

definition checked_mul :: "u64 \<Rightarrow> u64 \<Rightarrow> u64 option" where
  "checked_mul a b = (if unat a * unat b < 2 ^ 64 then Some (a * b) else None)"

text \<open>The suffixes are the bytes of \<open>m\<close>, \<open>u\<close>, \<open>n\<close> and \<open>p\<close>.\<close>

definition parse_amount :: "bytes \<Rightarrow> (InvoiceError, Msat option) result" where
  "parse_amount s =
     (if s = [] then Inr None
      else
        let c = last s in
        rbind (if c = 109 then Inr (butlast s, 100000000)
               else if c = 117 then Inr (butlast s, 100000)
               else if c = 110 then Inr (butlast s, 100)
               else if c = 112 then Inr (butlast s, 0)
               else if is_ascii_digit c then Inr (s, 100000000000)
               else Inl BadAmount)
          (\<lambda>(digits, multiplier :: u64).
             if digits = [] \<or> \<not> list_all is_ascii_digit digits then Inl BadAmount
             else case parse_u64 digits of
               None \<Rightarrow> Inl BadAmount
             | Some value \<Rightarrow>
                 if multiplier = 0 then if value mod 10 \<noteq> 0 then Inl BadAmount else Inr (Some (value div 10))
                 else case checked_mul value multiplier of None \<Rightarrow> Inl BadAmount | Some v \<Rightarrow> Inr (Some v)))"

definition encode_amount :: "Msat \<Rightarrow> bytes" where
  "encode_amount m =
     (if m mod 100000000 = 0 then decimal (unat (m div 100000000)) @ [109]
      else if m mod 100000 = 0 then decimal (unat (m div 100000)) @ [117]
      else if m mod 100 = 0 then decimal (unat (m div 100)) @ [110]
      else decimal (unat (m * 10)) @ [112])"

section \<open>Bit strings\<close>

definition div_ceil :: "nat \<Rightarrow> nat \<Rightarrow> nat" where
  "div_ceil a b = (a + b - 1) div b"

definition bytes_to_five_bit_be :: "bytes \<Rightarrow> bytes" where
  "bytes_to_five_bit_be bs =
     (let total_bits = length bs * 8;
          groups = div_ceil total_bits 5;
          out = foldl (\<lambda>out k.
             let byte = bs ! (length bs - 1 - k div 8) in
             if byte AND push_bit (k mod 8) 1 \<noteq> 0
             then let g = groups - 1 - k div 5 in out[g := out ! g OR push_bit (k mod 5) 1]
             else out) (replicate groups 0) [0..<total_bits]
      in dropWhile (\<lambda>g. g = 0) out)"

definition five_bit_to_bytes_be :: "bytes \<Rightarrow> bytes" where
  "five_bit_to_bytes_be gs =
     (let total_bits = length gs * 5;
          nbytes = div_ceil total_bits 8;
          out = foldl (\<lambda>out k.
             let g = gs ! (length gs - 1 - k div 5) in
             if g AND push_bit (k mod 5) 1 \<noteq> 0
             then let b = nbytes - 1 - k div 8 in out[b := out ! b OR push_bit (k mod 8) 1]
             else out) (replicate nbytes 0) [0..<total_bits]
      in dropWhile (\<lambda>b. b = 0) out)"

function base32_digits :: "u64 \<Rightarrow> bytes" where
  "base32_digits v = (if v = 0 then [] else ucast (v AND 31) # base32_digits (drop_bit 5 v))"
  by pat_completeness auto
termination
proof (relation "measure unat", simp)
  fix v :: u64 assume "v \<noteq> 0"
  then have "0 < unat v" by (simp add: unat_gt_0)
  then show "(drop_bit 5 v, v) \<in> measure unat" by (simp add: drop_bit_eq_div unat_div)
qed

declare base32_digits.simps [simp del]

definition minimal_base32_be :: "u64 \<Rightarrow> bytes" where
  "minimal_base32_be v = (if v = 0 then [0] else rev (base32_digits v))"

text \<open>\<^verbatim>\<open>iter().fold(0, |acc, &v| acc << 5 | v)\<close>.\<close>

definition base32_value :: "bytes \<Rightarrow> 'a::len word" where
  "base32_value gs = foldl (\<lambda>acc v. push_bit 5 acc OR ucast v) 0 gs"

section \<open>UTF-8\<close>

text \<open>\<^verbatim>\<open>String::from_utf8\<close> accepts the well-formed byte sequences of the Unicode standard.\<close>

abbreviation cont_byte :: "u8 \<Rightarrow> bool" where
  "cont_byte b \<equiv> 0x80 \<le> b \<and> b \<le> 0xbf"

fun utf8_ok :: "bytes \<Rightarrow> bool" where
  "utf8_ok [] = True"
| "utf8_ok (a # bs) =
     (if a \<le> 0x7f then utf8_ok bs
      else case bs of
        [] \<Rightarrow> False
      | b # cs \<Rightarrow>
          if 0xc2 \<le> a \<and> a \<le> 0xdf then cont_byte b \<and> utf8_ok cs
          else case cs of
            [] \<Rightarrow> False
          | c # ds \<Rightarrow>
              if 0xe0 \<le> a \<and> a \<le> 0xef
              then (if a = 0xe0 then 0xa0 \<le> b \<and> b \<le> 0xbf else if a = 0xed then 0x80 \<le> b \<and> b \<le> 0x9f else cont_byte b)
                   \<and> cont_byte c \<and> utf8_ok ds
              else case ds of
                [] \<Rightarrow> False
              | d # es \<Rightarrow>
                  0xf0 \<le> a \<and> a \<le> 0xf4
                  \<and> (if a = 0xf0 then 0x90 \<le> b \<and> b \<le> 0xbf else if a = 0xf4 then 0x80 \<le> b \<and> b \<le> 0x8f else cont_byte b)
                  \<and> cont_byte c \<and> cont_byte d \<and> utf8_ok es)"

section \<open>Parsing\<close>

record InvFields =
  if_payment_hash :: "bytes option"
  if_payment_secret :: "bytes option"
  if_description :: "Description option"
  if_expiry :: "u64 option"
  if_min_final_cltv :: "u32 option"
  if_features :: Features
  if_route_hints :: "RouteHintHop list list"
  if_explicit_payee :: "PublicKey option"

definition no_fields :: InvFields where
  "no_fields = \<lparr>if_payment_hash = None, if_payment_secret = None, if_description = None, if_expiry = None,
     if_min_final_cltv = None, if_features = features_empty, if_route_hints = [], if_explicit_payee = None\<rparr>"

definition bech32_err :: "(Bech32Error, 'a) result \<Rightarrow> (InvoiceError, 'a) result" where
  "bech32_err r = (case r of Inl e \<Rightarrow> Inl (Bech32 e) | Inr v \<Rightarrow> Inr v)"

definition hint_hop :: "('z) RecoverySecp_scheme \<Rightarrow> bytes \<Rightarrow> (InvoiceError, RouteHintHop) result" where
  "hint_hop E chunk =
     (if \<not> pubkey_from_slice_ok E (take 33 chunk) then Inl (BadField ''route hint pubkey'')
      else Inr \<lparr>hint_src_node_id = take 33 chunk, hint_short_channel_id = from_be_bytes (take 8 (drop 33 chunk)),
                hint_fee_base_msat = from_be_bytes (take 4 (drop 41 chunk)),
                hint_fee_proportional_millionths = from_be_bytes (take 4 (drop 45 chunk)),
                hint_cltv_expiry_delta = from_be_bytes (take 2 (drop 49 chunk))\<rparr>)"

primrec hint_hops :: "('z) RecoverySecp_scheme \<Rightarrow> bytes list \<Rightarrow> (InvoiceError, RouteHintHop list) result" where
  "hint_hops E [] = Inr []"
| "hint_hops E (chunk # cs) = rbind (hint_hop E chunk) (\<lambda>hop. rbind (hint_hops E cs) (\<lambda>hops. Inr (hop # hops)))"

text \<open>The \<^verbatim>\<open>match tag\<close> of one tagged field.\<close>

definition tagged_field :: "('z) RecoverySecp_scheme \<Rightarrow> u8 \<Rightarrow> bytes \<Rightarrow> InvFields \<Rightarrow> (InvoiceError, InvFields) result" where
  "tagged_field E tag body f =
     (let len = length body in
      if tag = TAG_PAYMENT_HASH \<and> len = 52 then
        rbind (bech32_err (convert_bits body 5 8 True)) (\<lambda>bs. Inr (f\<lparr>if_payment_hash := Some (take 32 bs)\<rparr>))
      else if tag = TAG_PAYMENT_SECRET \<and> len = 52 then
        rbind (bech32_err (convert_bits body 5 8 True)) (\<lambda>bs. Inr (f\<lparr>if_payment_secret := Some (take 32 bs)\<rparr>))
      else if tag = TAG_DESCRIPTION then
        (case convert_bits body 5 8 False of
           Inl _ \<Rightarrow> Inl (BadField ''description'')
         | Inr bs \<Rightarrow> if \<not> utf8_ok bs then Inl (BadField ''description utf8'') else Inr (f\<lparr>if_description := Some (Direct bs)\<rparr>))
      else if tag = TAG_DESCRIPTION_HASH \<and> len = 52 then
        rbind (bech32_err (convert_bits body 5 8 True)) (\<lambda>bs. Inr (f\<lparr>if_description := Some (Hash (take 32 bs))\<rparr>))
      else if tag = TAG_EXPIRY then Inr (f\<lparr>if_expiry := Some (base32_value body)\<rparr>)
      else if tag = TAG_MIN_FINAL_CLTV then Inr (f\<lparr>if_min_final_cltv := Some (base32_value body)\<rparr>)
      else if tag = TAG_FEATURES then Inr (f\<lparr>if_features := five_bit_to_bytes_be body\<rparr>)
      else if tag = TAG_PAYEE_NODE \<and> len = 53 then
        rbind (bech32_err (convert_bits body 5 8 True)) (\<lambda>bs.
          Inr (f\<lparr>if_explicit_payee := (if pubkey_from_slice_ok E (take 33 bs) then Some (take 33 bs) else None)\<rparr>))
      else if tag = TAG_ROUTE_HINT then
        (case convert_bits body 5 8 False of
           Inl _ \<Rightarrow> Inl (BadField ''route hint'')
         | Inr bs \<Rightarrow>
             if length bs mod 51 \<noteq> 0 then Inl (BadField ''route hint length'')
             else rbind (hint_hops E (chunks_exact 51 bs)) (\<lambda>hint. Inr (f\<lparr>if_route_hints := if_route_hints f @ [hint]\<rparr>)))
      else Inr f)"

function parse_fields :: "('z) RecoverySecp_scheme \<Rightarrow> bytes \<Rightarrow> InvFields \<Rightarrow> (InvoiceError, InvFields) result" where
  "parse_fields E fs f =
     (if fs = [] then Inr f
      else if length fs < 3 then Inl (BadField ''truncated tagged field'')
      else
        let tag = fs ! 0;
            len = unat (fs ! 1) * 32 + unat (fs ! 2)
        in if length fs < 3 + len then Inl (BadField ''tagged field overruns data'')
           else case tagged_field E tag (take len (drop 3 fs)) f of
             Inl e \<Rightarrow> Inl e
           | Inr f \<Rightarrow> parse_fields E (drop (3 + len) fs) f)"
  by pat_completeness auto
termination
  by (relation "measure (\<lambda>(_, fs, _). length fs)") auto

declare parse_fields.simps [simp del]

definition strip_prefix :: "string \<Rightarrow> bytes \<Rightarrow> bytes option" where
  "strip_prefix p s =
     (if take (length p) s = str_bytes p then Some (drop (length p) s) else None)"

definition parse_network :: "bytes \<Rightarrow> (InvoiceError, Network \<times> bytes) result" where
  "parse_network after_ln =
     (case strip_prefix ''bcrt'' after_ln of
        Some rest \<Rightarrow> Inr (Regtest, rest)
      | None \<Rightarrow>
          case strip_prefix ''tbs'' after_ln of
            Some rest \<Rightarrow> Inr (Signet, rest)
          | None \<Rightarrow>
              case strip_prefix ''tb'' after_ln of
                Some rest \<Rightarrow> Inr (Testnet, rest)
              | None \<Rightarrow>
                  case strip_prefix ''bc'' after_ln of
                    Some rest \<Rightarrow> Inr (Bitcoin, rest)
                  | None \<Rightarrow> Inl BadPrefix)"

definition ok_or_missing :: "'a option \<Rightarrow> string \<Rightarrow> (InvoiceError, 'a) result" where
  "ok_or_missing v name = (case v of None \<Rightarrow> Inl (MissingField name) | Some x \<Rightarrow> Inr x)"

text \<open>The digest that is signed.\<close>

definition invoice_digest :: "bytes \<Rightarrow> bytes \<Rightarrow> (Bech32Error, bytes) result" where
  "invoice_digest hrp head = rbind (convert_bits head 5 8 True) (\<lambda>packed. Inr (sha256_digest (hrp @ packed)))"

text \<open>\<^verbatim>\<open>recover_ecdsa\<close>'s message and signature: the digest, the compact signature, the recovery id.\<close>

definition invoice_payee :: "('z) RecoverySecp_scheme \<Rightarrow> bytes \<Rightarrow> bytes \<Rightarrow> PublicKey \<Rightarrow> PublicKey option \<Rightarrow> (InvoiceError, PublicKey) result" where
  "invoice_payee E msg compact recovered explicit_payee =
     (case explicit_payee of
        Some pk \<Rightarrow> if verify_ecdsa E msg compact pk then Inr pk else Inl BadInvoiceSignature
      | None \<Rightarrow> Inr recovered)"

definition invoice_parse :: "('z) RecoverySecp_scheme \<Rightarrow> bytes \<Rightarrow> (InvoiceError, Bolt11Invoice) result" where
  "invoice_parse E s =
     rbind (bech32_err (bech32_decode s)) (\<lambda>(hrp, data).
     if strip_prefix ''ln'' hrp = None then Inl BadPrefix
     else
     rbind (parse_network (drop 2 hrp)) (\<lambda>(network, amount_str).
     rbind (parse_amount amount_str) (\<lambda>amount_msat.
     if length data < 7 + 104 then Inl TooShort
     else
       let head = take (length data - 104) data;
           sig_part = drop (length data - 104) data;
           timestamp = base32_value (take 7 head)
       in
     rbind (bech32_err (convert_bits sig_part 5 8 False)) (\<lambda>sig_bytes.
       let recovery = sig_bytes ! 64;
           compact = take 64 sig_bytes
       in
     if \<not> recid_ok E recovery then Inl BadInvoiceSignature
     else if \<not> rsig_from_compact_ok E compact recovery then Inl BadInvoiceSignature
     else
     rbind (bech32_err (invoice_digest hrp head)) (\<lambda>msg.
     case recover_ecdsa E msg compact recovery of
       None \<Rightarrow> Inl BadInvoiceSignature
     | Some recovered \<Rightarrow>
     rbind (parse_fields E (drop 7 head) no_fields) (\<lambda>f.
     rbind (invoice_payee E msg compact recovered (if_explicit_payee f)) (\<lambda>payee.
     rbind (ok_or_missing (if_payment_hash f) ''payment_hash'') (\<lambda>payment_hash.
     rbind (ok_or_missing (if_payment_secret f) ''payment_secret'') (\<lambda>payment_secret.
     rbind (ok_or_missing (if_description f) ''description'') (\<lambda>description.
       Inr \<lparr>inv_network = network, inv_amount_msat = amount_msat, inv_timestamp = timestamp, inv_payment_hash = payment_hash,
            inv_payment_secret = payment_secret, inv_description = description, inv_expiry_secs = if_expiry f,
            inv_min_final_cltv = if_min_final_cltv f, inv_features = if_features f, inv_route_hints = if_route_hints f,
            inv_payee = payee\<rparr>))))))))))"

section \<open>Building\<close>

record InvoiceBuilder =
  ib_network :: Network
  ib_amount_msat :: "Msat option"
  ib_timestamp :: u64
  ib_payment_hash :: PaymentHash
  ib_payment_secret :: bytes
  ib_description :: Description
  ib_expiry_secs :: "u64 option"
  ib_min_final_cltv :: "u32 option"
  ib_features :: Features
  ib_route_hints :: "RouteHintHop list list"

definition default_features :: Features where
  "default_features = features_set (features_set (features_set features_empty 8) 14) 17"

text \<open>\<^verbatim>\<open>convert_bits(.., 8, 5, true).expect("8->5")\<close>, and the closure \<^verbatim>\<open>tagged\<close>.\<close>

definition to_five_bit :: "bytes \<Rightarrow> bytes option" where
  "to_five_bit bs = (case convert_bits bs 8 5 True of Inl _ \<Rightarrow> None | Inr g \<Rightarrow> Some g)"

definition tagged :: "u8 \<Rightarrow> bytes \<Rightarrow> bytes" where
  "tagged tag body = [tag, of_nat (length body div 32), of_nat (length body mod 32)] @ body"

definition hint_bytes :: "RouteHintHop list \<Rightarrow> bytes" where
  "hint_bytes hint = concat (map (\<lambda>hop. hint_src_node_id hop @ to_be_bytes (hint_short_channel_id hop)
     @ to_be_bytes (hint_fee_base_msat hop) @ to_be_bytes (hint_fee_proportional_millionths hop)
     @ to_be_bytes (hint_cltv_expiry_delta hop)) hint)"

text \<open>The calls of \<^verbatim>\<open>tagged\<close>, in order.\<close>

definition builder_fields :: "InvoiceBuilder \<Rightarrow> (u8 \<times> bytes option) list" where
  "builder_fields b =
     [(TAG_PAYMENT_SECRET, to_five_bit (ib_payment_secret b)), (TAG_PAYMENT_HASH, to_five_bit (ib_payment_hash b)),
      (case ib_description b of Direct text \<Rightarrow> (TAG_DESCRIPTION, to_five_bit text) | Hash h \<Rightarrow> (TAG_DESCRIPTION_HASH, to_five_bit h))]
     @ (case ib_expiry_secs b of None \<Rightarrow> [] | Some x \<Rightarrow> [(TAG_EXPIRY, Some (minimal_base32_be x))])
     @ (case ib_min_final_cltv b of None \<Rightarrow> [] | Some c \<Rightarrow> [(TAG_MIN_FINAL_CLTV, Some (minimal_base32_be (ucast c)))])
     @ map (\<lambda>hint. (TAG_ROUTE_HINT, to_five_bit (hint_bytes hint))) (ib_route_hints b)
     @ (if ib_features b = [] then [] else [(TAG_FEATURES, Some (bytes_to_five_bit_be (ib_features b)))])"

fun tagged_all :: "(u8 \<times> bytes option) list \<Rightarrow> bytes option" where
  "tagged_all [] = Some []"
| "tagged_all ((tag, body) # fs) =
     (case body of None \<Rightarrow> None | Some body \<Rightarrow> map_option (\<lambda>rest. tagged tag body @ rest) (tagged_all fs))"

definition builder_hrp :: "InvoiceBuilder \<Rightarrow> bytes" where
  "builder_hrp b = str_bytes ''ln'' @ str_bytes (invoice_hrp (ib_network b))
     @ (case ib_amount_msat b of None \<Rightarrow> [] | Some amt \<Rightarrow> encode_amount amt)"

definition timestamp_groups :: "u64 \<Rightarrow> bytes" where
  "timestamp_groups t = map (\<lambda>i. ucast (drop_bit (5 * i) t AND 31)) (rev [0..<7])"

text \<open>\<open>sign\<close> gives the recovery id and the compact signature of a digest.\<close>

definition encode_signed :: "InvoiceBuilder \<Rightarrow> (bytes \<Rightarrow> u8 \<times> bytes) \<Rightarrow> bytes option" where
  "encode_signed b sign =
     (let hrp = builder_hrp b in
      case tagged_all (builder_fields b) of
        None \<Rightarrow> None
      | Some fs \<Rightarrow>
          let data = timestamp_groups (ib_timestamp b) @ fs in
          case invoice_digest hrp data of
            Inl _ \<Rightarrow> None
          | Inr digest \<Rightarrow>
              let (rec_id, compact) = sign digest in
              case to_five_bit (compact @ [rec_id]) of
                None \<Rightarrow> None
              | Some sig_groups \<Rightarrow> bech32_encode hrp (data @ sig_groups))"

definition encode_with_key :: "(bytes \<Rightarrow> SecretKey \<Rightarrow> u8 \<times> bytes) \<Rightarrow> InvoiceBuilder \<Rightarrow> SecretKey \<Rightarrow> bytes option" where
  "encode_with_key sign_ecdsa_recoverable b key = encode_signed b (\<lambda>digest. sign_ecdsa_recoverable digest key)"

section \<open>Amounts round trip\<close>

lemma decimal_digits: "list_all is_ascii_digit (decimal n) \<and> decimal n \<noteq> [] \<and> digits_value (decimal n) = n"
proof (induction n rule: decimal.induct)
  case (1 n)
  have u: "unat (of_nat (48 + d) :: u8) = 48 + d" if "d < 10" for d
  proof -
    have "unat (of_nat (48 + d) :: u8) = take_bit 8 (48 + d)" by (simp only: unsigned_of_nat len_bit0 len_num1) simp
    also have "\<dots> = 48 + d" using that by (intro take_bit_nat_eq_self) simp
    finally show ?thesis .
  qed
  have dig: "is_ascii_digit (of_nat (48 + d))" if "d < 10" for d
    using u [OF that] that by (simp add: is_ascii_digit_def word_le_nat_alt)
  show ?case
  proof (cases "n < 10")
    case True
    then show ?thesis using u [of n] dig [of n] by (simp add: decimal.simps [of n] digits_value_def)
  next
    case False
    then show ?thesis
      using 1 [OF False] u [of "n mod 10"] dig [of "n mod 10"] by (simp add: decimal.simps [of n] digits_value_def)
  qed
qed

lemma parse_decimal: "parse_u64 (decimal (unat v)) = Some v"
  using decimal_digits [of "unat v"] unat_bounds(4) [of v] by (simp add: parse_u64_def)

lemma parse_amount_suffix:
  assumes c: "c \<in> {109, 117, 110, 112}"
  shows "parse_amount (decimal (unat v) @ [c]) =
    (if c = 112 then if v mod 10 \<noteq> 0 then Inl BadAmount else Inr (Some (v div 10))
     else case checked_mul v (if c = 109 then 100000000 else if c = 117 then 100000 else 100) of
       None \<Rightarrow> Inl BadAmount | Some x \<Rightarrow> Inr (Some x))"
  using c decimal_digits [of "unat v"] parse_decimal [of v] by (auto simp: parse_amount_def Let_def)

lemma checked_mul_div:
  assumes "m mod k = 0" shows "checked_mul (m div k) k = Some (m :: u64)"
proof -
  have d: "(m div k) * k = m" using assms by (metis add.right_neutral div_mult_mod_eq)
  have "unat (m div k) * unat k = unat m - unat m mod unat k"
    by (simp add: unat_div minus_mod_eq_div_mult)
  then have "unat (m div k) * unat k < 2 ^ 64" using unat_bounds(4) [of m] by linarith
  then show ?thesis using d by (simp add: checked_mul_def)
qed

definition amount_encodable :: "Msat \<Rightarrow> bool" where
  "amount_encodable m \<longleftrightarrow> m mod 100 = 0 \<or> unat m * 10 < 2 ^ 64"

lemma amount_roundtrip: "amount_encodable m \<Longrightarrow> parse_amount (encode_amount m) = Inr (Some m)"
proof -
  assume m: "amount_encodable m"
  have pico: "m * 10 mod 10 = 0 \<and> m * 10 div 10 = m" if "unat m * 10 < 2 ^ 64"
  proof -
    have u: "unat (m * 10) = unat m * 10" using that by (simp add: unat_word_ariths)
    have "unat (m * 10 mod 10) = 0" "unat (m * 10 div 10) = unat m" by (simp_all add: unat_mod unat_div u)
    then show ?thesis by (metis unsigned_0 unsigned_word_eqI)
  qed
  consider "m mod 100000000 = 0" | "m mod 100000000 \<noteq> 0" "m mod 100000 = 0"
    | "m mod 100000000 \<noteq> 0" "m mod 100000 \<noteq> 0" "m mod 100 = 0" | "m mod 100000000 \<noteq> 0" "m mod 100000 \<noteq> 0" "m mod 100 \<noteq> 0" by blast
  then show ?thesis
  proof cases
    case 4
    then have "unat m * 10 < 2 ^ 64" using m by (simp add: amount_encodable_def)
    then have p: "m * 10 mod 10 = 0" "m * 10 div 10 = m" using pico by blast+
    have "encode_amount m = decimal (unat (m * 10)) @ [112]" using 4 by (simp only: encode_amount_def if_False)
    then show ?thesis using parse_amount_suffix [of 112 "m * 10"] p by simp
  qed (simp_all add: encode_amount_def parse_amount_suffix checked_mul_div)
qed

section \<open>Groups\<close>

lemma to_five_bit_ok:
  obtains five k where "to_five_bit bs = Some five" "list_all (\<lambda>g. unat g < 32) five" "k < 5"
    "5 * length five = 8 * length bs + k" "group_bits 5 five = group_bits 8 bs @ replicate k False" "convert_bits five 5 8 False = Inr bs"
proof -
  obtain five k where c: "convert_bits bs 8 5 True = Inr five" "list_all (\<lambda>g. unat g < 32) five"
    "group_bits 5 five = group_bits 8 bs @ replicate k False" "k < 5" "convert_bits five 5 8 False = Inr bs"
    by (rule convert_bits_roundtrip)
  have "5 * length five = 8 * length bs + k" using arg_cong [OF c(3), of length] by simp
  then show ?thesis using c by (intro that [of five k]) (simp_all add: to_five_bit_def)
qed

lemma padded_decode:
  assumes "list_all (\<lambda>g. unat g < 32) five" "group_bits 5 five = group_bits 8 bs @ replicate k False"
  obtains out where "convert_bits five 5 8 True = Inr out" "take (length bs) out = bs"
proof -
  obtain out j where o: "convert_bits five 5 8 True = Inr out" "list_all (\<lambda>g. unat g < 2 ^ 8) out"
    "group_bits 8 out = group_bits 5 five @ replicate j False" "j < 8"
    using convert_bits_pad [of 5 8 five] assms(1) by auto
  have eq: "group_bits 8 out = group_bits 8 bs @ replicate (k + j) False" using o(3) assms(2) by (simp add: replicate_add)
  have "8 * length out = 8 * length bs + (k + j)" using arg_cong [OF eq, of length] by (simp only: length_group_bits length_append length_replicate)
  then have "length bs \<le> length out" by simp
  moreover have "group_bits 8 (take (length bs) out) @ group_bits 8 (drop (length bs) out) = group_bits 8 bs @ replicate (k + j) False"
    using eq group_bits_append [of 8 "take (length bs) out" "drop (length bs) out"] by simp
  ultimately have "group_bits 8 (take (length bs) out) = group_bits 8 bs" by (simp add: append_eq_append_conv)
  moreover have "list_all (\<lambda>g. unat g < 2 ^ 8) x" for x :: bytes using unat_bounds(1) by (simp add: list_all_iff)
  ultimately have "take (length bs) out = bs"
    using group_bits_inj [of "take (length bs) out" bs 8] \<open>length bs \<le> length out\<close> by simp
  then show ?thesis using that o(1) by blast
qed

lemma base32_value_snoc: "base32_value (gs @ [g]) = push_bit 5 (base32_value gs) OR ucast g"
  by (simp add: base32_value_def)

lemma base32_value_digits: "(base32_value (rev (base32_digits v)) :: 'a::len word) = ucast v"
proof (induction v rule: base32_digits.induct)
  case (1 v)
  show ?case
  proof (cases "v = 0")
    case True
    then show ?thesis by (simp add: base32_digits.simps [of 0] base32_value_def)
  next
    case False
    have m: "v AND 31 = take_bit 5 v" by (simp add: take_bit_eq_mask mask_eq_exp_minus_1)
    have "push_bit 5 (ucast (drop_bit 5 v)) OR ucast (ucast (take_bit 5 v) :: u8) = (ucast v :: 'a word)"
      by (rule bit_word_eqI) (auto simp: bit_simps)
    then show ?thesis
      using 1 [OF False] False by (simp add: base32_digits.simps [of v] base32_value_snoc m)
  qed
qed

lemma base32_roundtrip: "(base32_value (minimal_base32_be v) :: 'a::len word) = ucast v"
  using base32_value_digits [of v, where ?'a = 'a] by (auto simp: minimal_base32_be_def base32_value_def)

lemma five_bits_small: "unat (ucast (x AND 31 :: u64) :: u8) < 32"
proof -
  have m: "x AND 31 = take_bit 5 x" by (simp add: take_bit_eq_mask mask_eq_exp_minus_1)
  have "(ucast (take_bit 5 x) :: u8) = take_bit 5 (ucast x)" by (rule bit_word_eqI) (auto simp: bit_simps)
  then show ?thesis unfolding m using take_bit_small [of 5 "take_bit 5 (ucast x :: u8)"] by simp
qed

lemma base32_digits_small: "list_all (\<lambda>g. unat g < 32) (base32_digits v)"
  by (induction v rule: base32_digits.induct) (subst base32_digits.simps, simp add: five_bits_small)

lemma base32_digits_length: "unat v < 32 ^ n \<Longrightarrow> length (base32_digits v) \<le> n"
proof (induction n arbitrary: v)
  case 0
  then have "unat v = unat (0 :: u64)" by simp
  then have "v = 0" by (rule unsigned_word_eqI)
  then show ?case by (simp add: base32_digits.simps)
next
  case (Suc n)
  have "unat (drop_bit 5 v) < 32 ^ n" using Suc.prems by (simp add: drop_bit_eq_div unat_div less_mult_imp_div_less mult.commute)
  then show ?case using Suc.IH by (subst base32_digits.simps) simp
qed

lemma minimal_base32_ok: "list_all (\<lambda>g. unat g < 32) (minimal_base32_be v)" "length (minimal_base32_be v) \<le> 13"
proof -
  have "unat v < 32 ^ 13" using unat_bounds(4) [of v] by simp
  from base32_digits_length [OF this] show "length (minimal_base32_be v) \<le> 13" by (simp add: minimal_base32_be_def)
  show "list_all (\<lambda>g. unat g < 32) (minimal_base32_be v)" using base32_digits_small [of v] by (simp add: minimal_base32_be_def)
qed

lemma timestamp_ok:
  "list_all (\<lambda>g. unat g < 32) (timestamp_groups t)" "length (timestamp_groups t) = 7"
  "unat t < 2 ^ 35 \<Longrightarrow> base32_value (timestamp_groups t) = t"
proof -
  show "list_all (\<lambda>g. unat g < 32) (timestamp_groups t)" by (simp add: timestamp_groups_def list_all_iff five_bits_small)
  show "length (timestamp_groups t) = 7" by (simp add: timestamp_groups_def)
  assume t: "unat t < 2 ^ 35"
  have step: "push_bit 5 (drop_bit (5 * Suc i) t) OR ucast (ucast (drop_bit (5 * i) t AND 31) :: u8) = drop_bit (5 * i) t" for i
  proof -
    have m: "drop_bit (5 * i) t AND 31 = take_bit 5 (drop_bit (5 * i) t)" by (simp add: take_bit_eq_mask mask_eq_exp_minus_1)
    have e: "5 + 5 * i + (n - 5) = 5 * i + n" if "5 \<le> n" for n using that by simp
    show ?thesis
      unfolding m
    proof (rule bit_word_eqI)
      fix n assume "n < LENGTH(64)"
      then show "bit (push_bit 5 (drop_bit (5 * Suc i) t) OR ucast (ucast (take_bit 5 (drop_bit (5 * i) t)) :: u8)) n
        = bit (drop_bit (5 * i) t) n"
        by (cases "5 \<le> n") (simp_all add: bit_simps e)
    qed
  qed
  have "drop_bit 35 t = 0" using small_bit [OF t] by (intro bit_word_eqI) (auto simp: bit_simps)
  then have "foldl (\<lambda>acc v. push_bit 5 acc OR ucast (v :: u8)) (drop_bit (5 * 7) t)
    (map (\<lambda>i. ucast (drop_bit (5 * i) t AND 31)) (rev [0..<7])) = base32_value (timestamp_groups t)"
    by (simp add: base32_value_def timestamp_groups_def)
  moreover have "foldl (\<lambda>acc v. push_bit 5 acc OR ucast (v :: u8)) (drop_bit (5 * n) t)
    (map (\<lambda>i. ucast (drop_bit (5 * i) t AND 31)) (rev [0..<n])) = t" for n
    by (induction n) (simp_all add: step del: mult_Suc_right)
  ultimately show "base32_value (timestamp_groups t) = t" by metis
qed

section \<open>Feature vectors as numbers\<close>

text \<open>Both conversions, from groups of \<open>a\<close> bits to \<open>n\<close> groups of \<open>b\<close> bits, before leading zeros are stripped.\<close>

definition regroup_step :: "nat \<Rightarrow> nat \<Rightarrow> bytes \<Rightarrow> nat \<Rightarrow> bytes \<Rightarrow> nat \<Rightarrow> bytes" where
  "regroup_step a b xs n out k =
     (if xs ! (length xs - 1 - k div a) AND push_bit (k mod a) 1 \<noteq> 0
      then out[n - 1 - k div b := out ! (n - 1 - k div b) OR push_bit (k mod b) 1] else out)"

definition regroup :: "nat \<Rightarrow> nat \<Rightarrow> bytes \<Rightarrow> nat \<Rightarrow> bytes" where
  "regroup a b xs n = foldl (regroup_step a b xs n) (replicate n 0) [0..<length xs * a]"

lemma regroup_eqs:
  "bytes_to_five_bit_be bs = dropWhile (\<lambda>g. g = 0) (regroup 8 5 bs (div_ceil (length bs * 8) 5))"
  "five_bit_to_bytes_be gs = dropWhile (\<lambda>b. b = 0) (regroup 5 8 gs (div_ceil (length gs * 5) 8))"
  unfolding bytes_to_five_bit_be_def five_bit_to_bytes_be_def regroup_def regroup_step_def [abs_def] Let_def by (rule refl)+

text \<open>Bit \<open>k\<close> of a big-endian list of groups, counted from its end.\<close>

definition bit_at :: "nat \<Rightarrow> bytes \<Rightarrow> nat \<Rightarrow> bool" where
  "bit_at a xs k \<longleftrightarrow> k div a < length xs \<and> bit (xs ! (length xs - 1 - k div a)) (k mod a)"

lemma and_push_bit_one: "(x AND push_bit i 1 \<noteq> 0) = bit (x :: u8) i"
  by (auto simp: bit_iff_and_push_bit_not_eq_0 and.commute)

lemma regroup_bits:
  assumes a: "0 < a" "a \<le> 8" and b: "0 < b" "b \<le> 8" and fit: "length xs * a \<le> n * b"
  shows "K \<le> length xs * a \<Longrightarrow>
    length (foldl (regroup_step a b xs n) (replicate n 0) [0..<K]) = n
    \<and> list_all (\<lambda>g. unat g < 2 ^ b) (foldl (regroup_step a b xs n) (replicate n 0) [0..<K])
    \<and> (\<forall>j. bit_at b (foldl (regroup_step a b xs n) (replicate n 0) [0..<K]) j = (j < K \<and> bit_at a xs j))"
proof (induction K)
  case 0
  then show ?case by (auto simp: bit_at_def list_all_iff)
next
  case (Suc K)
  let ?out = "foldl (regroup_step a b xs n) (replicate n 0) [0..<K]"
  have IH: "length ?out = n" "list_all (\<lambda>g. unat g < 2 ^ b) ?out" "\<And>j. bit_at b ?out j = (j < K \<and> bit_at a xs j)"
    using Suc by auto
  have K: "K div a < length xs" using Suc.prems a by (simp add: less_mult_imp_div_less)
  have Kb: "K div b < n" using Suc.prems fit b by (simp add: less_mult_imp_div_less)
  have src: "(xs ! (length xs - 1 - K div a) AND push_bit (K mod a) 1 \<noteq> 0) = bit_at a xs K"
    using K by (simp only: and_push_bit_one bit_at_def) simp
  show ?case
  proof (cases "bit_at a xs K")
    case False
    then have "regroup_step a b xs n ?out K = ?out" using src by (simp add: regroup_step_def)
    then show ?thesis using IH False by (auto simp: less_Suc_eq)
  next
    case True
    let ?g = "n - 1 - K div b" and ?v = "?out ! (n - 1 - K div b) OR push_bit (K mod b) 1"
    have out': "regroup_step a b xs n ?out K = ?out[?g := ?v]" using True src by (simp add: regroup_step_def)
    have g: "?g < n" using Kb by simp
    have "unat (?out ! ?g) < 2 ^ b" using IH(1,2) g by (simp add: list_all_length)
    then have sb: "bit (?out ! ?g) i \<Longrightarrow> i < b" for i by (rule small_bit)
    have "K mod b < b" using b by simp
    then have "unat (x OR push_bit (K mod b) 1) < 2 ^ b" if "\<And>i. bit x i \<Longrightarrow> i < b" for x :: u8
      using that by (intro take_bit_small bit_word_eqI) (auto simp: bit_simps)
    then have "unat ?v < 2 ^ b" using sb by blast
    then have small: "list_all (\<lambda>g. unat g < 2 ^ b) (?out[?g := ?v])"
      using IH(2) by (auto simp: list_all_iff dest!: set_update_subset_insert [THEN subsetD])
    have "bit_at b (?out[?g := ?v]) j = (j < Suc K \<and> bit_at a xs j)" for j
    proof (cases "j div b < n")
      case False
      then have "\<not> bit_at b ?out j" using IH(1) by (simp add: bit_at_def)
      then show ?thesis using False IH(1,3) Kb by (auto simp: bit_at_def less_Suc_eq)
    next
      case jn: True
      show ?thesis
      proof (cases "j div b = K div b")
        case True
        have len: "K mod b < 8" using b by (meson less_le_trans mod_less_divisor)
        have "j = K \<longleftrightarrow> j mod b = K mod b" using True by (metis div_mult_mod_eq)
        then have "bit_at b (?out[?g := ?v]) j = (bit_at b ?out j \<or> j = K)"
          using True jn g IH(1) len by (auto simp: bit_at_def bit_simps)
        then show ?thesis using IH(3) \<open>bit_at a xs K\<close> by (auto simp: less_Suc_eq)
      next
        case False
        then have "n - 1 - j div b \<noteq> ?g" using jn Kb by simp
        then have "bit_at b (?out[?g := ?v]) j = bit_at b ?out j" using IH(1) by (simp add: bit_at_def)
        then show ?thesis using IH(3) False by (auto simp: less_Suc_eq)
      qed
    qed
    then show ?thesis using small IH(1) by (simp add: out')
  qed
qed

lemma bit_at_strip: "bit_at a (dropWhile (\<lambda>g. g = 0) xs) k = bit_at a xs k"
proof (induction xs)
  case (Cons x xs)
  show ?case
  proof (cases "x = 0")
    case True
    have "bit_at a (0 # xs) k = bit_at a xs k" by (auto simp: bit_at_def nth_Cons' less_Suc_eq)
    then show ?thesis using Cons True by simp
  qed simp
qed simp

lemma bit_at_length:
  assumes b: "0 < b" and x: "xs \<noteq> []" "hd xs \<noteq> 0" "list_all (\<lambda>g. unat g < 2 ^ b) xs" and eq: "\<And>k. bit_at b xs k = bit_at b ys k"
  shows "length xs \<le> length ys"
proof -
  obtain i where i: "bit (hd xs) i" using x(2) by (metis bit_0_eq bit_eqI bot_apply bot_bool_def)
  have "unat (hd xs) < 2 ^ b" using x(1,3) by (cases xs) auto
  then have ib: "i < b" using i small_bit by blast
  let ?k = "(length xs - 1) * b + i"
  have "?k div b = length xs - 1" "?k mod b = i" using b ib by simp_all
  then have "bit_at b xs ?k" using i x(1) by (simp add: bit_at_def hd_conv_nth)
  then have "?k div b < length ys" using eq [of ?k] unfolding bit_at_def by blast
  then show ?thesis using \<open>?k div b = length xs - 1\<close> by simp
qed

lemma bit_at_inj:
  assumes b: "0 < b" and x: "list_all (\<lambda>g. unat g < 2 ^ b) xs" "xs = [] \<or> hd xs \<noteq> 0"
    and y: "list_all (\<lambda>g. unat g < 2 ^ b) ys" "ys = [] \<or> hd ys \<noteq> 0" and eq: "\<And>k. bit_at b xs k = bit_at b ys k"
  shows "xs = ys"
proof (rule nth_equalityI)
  show len: "length xs = length ys"
    using bit_at_length [OF b, of xs ys] bit_at_length [OF b, of ys xs] x y eq by (cases xs; cases ys) fastforce+
  fix p assume p: "p < length xs"
  show "xs ! p = ys ! p"
  proof (rule bit_word_eqI)
    fix i
    have s: "unat (xs ! p) < 2 ^ b" "unat (ys ! p) < 2 ^ b" using x(1) y(1) p len by (simp_all add: list_all_length)
    show "bit (xs ! p) i = bit (ys ! p) i"
    proof (cases "i < b")
      case True
      let ?k = "(length xs - 1 - p) * b + i"
      have k: "?k div b = length xs - 1 - p" "?k mod b = i" "length xs - 1 - (length xs - 1 - p) = p" using b True p by simp_all
      have "bit_at b xs ?k = bit (xs ! p) i" "bit_at b ys ?k = bit (ys ! p) i"
        using p len unfolding bit_at_def k len [symmetric] by auto
      then show ?thesis using eq by simp
    next
      case False
      then show ?thesis using small_bit [OF s(1), of i] small_bit [OF s(2), of i] by blast
    qed
  qed
qed

lemma features_roundtrip:
  assumes "f \<noteq> []" "hd f \<noteq> 0"
  shows "five_bit_to_bytes_be (bytes_to_five_bit_be f) = f" "list_all (\<lambda>g. unat g < 32) (bytes_to_five_bit_be f)"
    "length (bytes_to_five_bit_be f) \<le> div_ceil (length f * 8) 5"
proof -
  let ?n = "div_ceil (length f * 8) 5" and ?g = "bytes_to_five_bit_be f"
  have ceil: "x \<le> div_ceil x k * k" if "0 < k" for x k
  proof -
    have "x + k - 1 = (x + k - 1) div k * k + (x + k - 1) mod k" by simp
    moreover have "(x + k - 1) mod k < k" using that by simp
    ultimately show ?thesis using that unfolding div_ceil_def by linarith
  qed
  have r: "length (regroup 8 5 f ?n) = ?n" "list_all (\<lambda>g. unat g < 2 ^ 5) (regroup 8 5 f ?n)"
    "\<And>j. bit_at 5 (regroup 8 5 f ?n) j = (j < length f * 8 \<and> bit_at 8 f j)"
    using regroup_bits [of 8 5 f ?n "length f * 8"] ceil [of 5 "length f * 8"] by (simp_all add: regroup_def)
  have within: "bit_at a xs j \<Longrightarrow> j < length xs * a" if "0 < a" for a xs j
    using that by (auto simp: bit_at_def div_less_iff_less_mult)
  have g: "bit_at 5 ?g j = bit_at 8 f j" for j using r(3) within [of 8 f j] by (auto simp: regroup_eqs bit_at_strip)
  show "list_all (\<lambda>g. unat g < 32) ?g" using r(2) by (auto simp: regroup_eqs list_all_iff dest: set_dropWhileD)
  show "length ?g \<le> ?n" using r(1) length_dropWhile_le [of _ "regroup 8 5 f ?n"] by (simp add: regroup_eqs)
  let ?m = "div_ceil (length ?g * 5) 8"
  have m: "list_all (\<lambda>g. unat g < 2 ^ 8) (regroup 5 8 ?g ?m)" "\<And>j. bit_at 8 (regroup 5 8 ?g ?m) j = (j < length ?g * 5 \<and> bit_at 5 ?g j)"
    using regroup_bits [of 5 8 ?g ?m "length ?g * 5"] ceil [of 8 "length ?g * 5"] by (simp_all add: regroup_def)
  have bytes: "list_all (\<lambda>g. unat g < 2 ^ 8) x" for x :: bytes using unat_bounds(1) by (simp add: list_all_iff)
  show "five_bit_to_bytes_be ?g = f"
  proof (rule bit_at_inj [of 8])
    show "five_bit_to_bytes_be ?g = [] \<or> hd (five_bit_to_bytes_be ?g) \<noteq> 0"
      unfolding regroup_eqs(2) using hd_dropWhile by blast
    fix j
    show "bit_at 8 (five_bit_to_bytes_be ?g) j = bit_at 8 f j"
      using m(2) within [of 5 ?g j] g by (auto simp: regroup_eqs(2) bit_at_strip)
  qed (use bytes assms in simp_all)
qed

section \<open>Fields\<close>

lemma parse_fields_tagged:
  assumes "length body < 1024"
  shows "parse_fields E (tagged tag body @ rest) f =
    (case tagged_field E tag body f of Inl e \<Rightarrow> Inl e | Inr f \<Rightarrow> parse_fields E rest f)"
proof -
  have u: "unat (of_nat x :: u8) = x" if "x < 256" for x
    using that by (simp add: unsigned_of_nat take_bit_nat_eq_self)
  have len: "unat (of_nat (length body div 32) :: u8) * 32 + unat (of_nat (length body mod 32) :: u8) = length body"
  proof -
    have "length body div 32 < 256" "length body mod 32 < 256" using assms by simp_all
    then show ?thesis by (simp only: u) simp
  qed
  define t where "t = tagged tag body @ rest"
  have "t \<noteq> []" "take (length body) (drop 3 t) = body" "length t = 3 + length body + length rest" "t ! 0 = tag"
    "t ! 1 = of_nat (length body div 32)" "t ! 2 = of_nat (length body mod 32)" "drop (3 + length body) t = rest"
    by (simp_all add: t_def tagged_def numeral_3_eq_3 numeral_2_eq_2)
  then show ?thesis
    unfolding t_def [symmetric] by (subst parse_fields.simps) (simp add: len split: sum.split)
qed

text \<open>The fields one after the other.\<close>

fun apply_fields :: "('z) RecoverySecp_scheme \<Rightarrow> (u8 \<times> bytes option) list \<Rightarrow> InvFields \<Rightarrow> (InvoiceError, InvFields) result" where
  "apply_fields E [] f = Inr f"
| "apply_fields E ((tag, body) # fs) f = rbind (tagged_field E tag (the body) f) (apply_fields E fs)"

definition field_ok :: "u8 \<times> bytes option \<Rightarrow> bool" where
  "field_ok p \<longleftrightarrow> unat (fst p) < 32 \<and> (case snd p of None \<Rightarrow> False | Some g \<Rightarrow> length g < 1024 \<and> list_all (\<lambda>v. unat v < 32) g)"

lemma apply_fields_append: "apply_fields E (xs @ ys) f = rbind (apply_fields E xs f) (apply_fields E ys)"
  by (induction xs arbitrary: f) (auto simp: rbind_def split: sum.splits)

lemma tagged_small:
  assumes "unat tag < 32" "length body < 1024" "list_all (\<lambda>v. unat v < 32) body"
  shows "list_all (\<lambda>v. unat v < 32) (tagged tag body)"
proof -
  have u: "unat (of_nat x :: u8) = x" if "x < 32" for x
    using that by (simp add: unsigned_of_nat take_bit_nat_eq_self)
  have "length body div 32 < 32" "length body mod 32 < 32" using assms(2) by simp_all
  then show ?thesis using assms by (simp add: tagged_def u)
qed

lemma tagged_all_ok:
  assumes "list_all field_ok ps"
  obtains fs where "tagged_all ps = Some fs" "list_all (\<lambda>v. unat v < 32) fs" "\<And>f. parse_fields E fs f = apply_fields E ps f"
proof -
  have "\<exists>fs. tagged_all ps = Some fs \<and> list_all (\<lambda>v. unat v < 32) fs \<and> (\<forall>f. parse_fields E fs f = apply_fields E ps f)"
    using assms
  proof (induction ps)
    case Nil
    have "parse_fields E [] f = Inr f" for f by (subst parse_fields.simps) simp
    then show ?case by simp
  next
    case (Cons p ps)
    obtain tag body where p: "p = (tag, Some body)" "unat tag < 32" "length body < 1024" "list_all (\<lambda>v. unat v < 32) body"
      using Cons.prems by (cases p) (auto simp: field_ok_def split: option.splits)
    obtain fs where fs: "tagged_all ps = Some fs" "list_all (\<lambda>v. unat v < 32) fs" "\<And>f. parse_fields E fs f = apply_fields E ps f"
      using Cons by auto
    show ?case using fs p tagged_small by (auto simp: parse_fields_tagged rbind_def split: sum.splits)
  qed
  then show ?thesis using that by blast
qed

lemma to_five_bit_field:
  assumes "length bs \<le> 639"
  obtains five where "to_five_bit bs = Some five" "length five < 1024" "list_all (\<lambda>v. unat v < 32) five"
    "convert_bits five 5 8 False = Inr bs" "length bs = 32 \<Longrightarrow> length five = 52"
    "\<exists>out. convert_bits five 5 8 True = Inr out \<and> take (length bs) out = bs"
proof -
  obtain five k where f: "to_five_bit bs = Some five" "list_all (\<lambda>g. unat g < 32) five" "k < 5"
    "5 * length five = 8 * length bs + k" "group_bits 5 five = group_bits 8 bs @ replicate k False" "convert_bits five 5 8 False = Inr bs"
    by (rule to_five_bit_ok)
  obtain out where "convert_bits five 5 8 True = Inr out" "take (length bs) out = bs" by (rule padded_decode [OF f(2,5)])
  moreover have "length five < 1024" "length bs = 32 \<Longrightarrow> length five = 52" using f(3,4) assms by linarith+
  ultimately show ?thesis using that f by blast
qed

lemma tagged_field_bytes32:
  assumes "length bs = 32" "tag \<in> {TAG_PAYMENT_HASH, TAG_PAYMENT_SECRET, TAG_DESCRIPTION_HASH}"
  shows "field_ok (tag, to_five_bit bs)"
    "tagged_field E tag (the (to_five_bit bs)) f =
       Inr (if tag = TAG_PAYMENT_HASH then f\<lparr>if_payment_hash := Some bs\<rparr>
            else if tag = TAG_PAYMENT_SECRET then f\<lparr>if_payment_secret := Some bs\<rparr>
            else f\<lparr>if_description := Some (Hash bs)\<rparr>)"
proof -
  obtain five where f: "to_five_bit bs = Some five" "length five < 1024" "list_all (\<lambda>v. unat v < 32) five" "length five = 52"
    "\<exists>out. convert_bits five 5 8 True = Inr out \<and> take 32 out = bs"
    by (rule to_five_bit_field [of bs]) (use assms(1) in auto)
  show "field_ok (tag, to_five_bit bs)" using f assms(2) by (auto simp: field_ok_def tag_defs)
  show "tagged_field E tag (the (to_five_bit bs)) f =
       Inr (if tag = TAG_PAYMENT_HASH then f\<lparr>if_payment_hash := Some bs\<rparr>
            else if tag = TAG_PAYMENT_SECRET then f\<lparr>if_payment_secret := Some bs\<rparr>
            else f\<lparr>if_description := Some (Hash bs)\<rparr>)"
    using f assms(2) by (auto simp: tagged_field_def tag_defs bech32_err_def rbind_def)
qed

definition hop_ok :: "('z) RecoverySecp_scheme \<Rightarrow> RouteHintHop \<Rightarrow> bool" where
  "hop_ok E hop \<longleftrightarrow> length (hint_src_node_id hop) = 33 \<and> pubkey_from_slice_ok E (hint_src_node_id hop)"

lemma hint_hops_roundtrip:
  assumes "list_all (hop_ok E) hint"
  shows "hint_hops E (chunks_exact 51 (hint_bytes hint)) = Inr hint \<and> length (hint_bytes hint) = 51 * length hint"
  using assms
proof (induction hint)
  case Nil
  then show ?case by (simp add: hint_bytes_def)
next
  case (Cons hop hint)
  let ?b = "hint_src_node_id hop @ to_be_bytes (hint_short_channel_id hop) @ to_be_bytes (hint_fee_base_msat hop)
    @ to_be_bytes (hint_fee_proportional_millionths hop) @ to_be_bytes (hint_cltv_expiry_delta hop)"
  have ok: "length (hint_src_node_id hop) = 33" "pubkey_from_slice_ok E (hint_src_node_id hop)"
    using Cons.prems by (simp_all add: hop_ok_def)
  have len: "length ?b = 51" using ok by simp
  have b: "hint_bytes (hop # hint) = ?b @ hint_bytes hint" by (simp add: hint_bytes_def)
  have "hint_hop E ?b = Inr hop" using ok by (simp add: hint_hop_def)
  then show ?case
    using Cons chunks_exact_append [OF _ len, of "hint_bytes hint"] len by (simp add: b rbind_def del: append_assoc)
qed

lemma tagged_field_hint:
  assumes "list_all (hop_ok E) hint" "length hint \<le> 12"
  shows "field_ok (TAG_ROUTE_HINT, to_five_bit (hint_bytes hint))"
    "tagged_field E TAG_ROUTE_HINT (the (to_five_bit (hint_bytes hint))) f = Inr (f\<lparr>if_route_hints := if_route_hints f @ [hint]\<rparr>)"
proof -
  note h = hint_hops_roundtrip [OF assms(1)]
  obtain five where f: "to_five_bit (hint_bytes hint) = Some five" "length five < 1024" "list_all (\<lambda>v. unat v < 32) five"
    "convert_bits five 5 8 False = Inr (hint_bytes hint)"
    using to_five_bit_field [of "hint_bytes hint"] h assms(2) by auto
  show "field_ok (TAG_ROUTE_HINT, to_five_bit (hint_bytes hint))" using f by (simp add: field_ok_def tag_defs)
  show "tagged_field E TAG_ROUTE_HINT (the (to_five_bit (hint_bytes hint))) f = Inr (f\<lparr>if_route_hints := if_route_hints f @ [hint]\<rparr>)"
    using f h by (simp add: tagged_field_def tag_defs rbind_def)
qed

lemma hint_fields:
  assumes "list_all (\<lambda>hint. list_all (hop_ok E) hint \<and> length hint \<le> 12) hints"
  shows "list_all field_ok (map (\<lambda>hint. (TAG_ROUTE_HINT, to_five_bit (hint_bytes hint))) hints)
    \<and> apply_fields E (map (\<lambda>hint. (TAG_ROUTE_HINT, to_five_bit (hint_bytes hint))) hints) f = Inr (f\<lparr>if_route_hints := if_route_hints f @ hints\<rparr>)"
  using assms
proof (induction hints arbitrary: f)
  case (Cons hint hints)
  then show ?case
    using tagged_field_hint [of E hint] by (simp add: rbind_def)
qed simp

section \<open>What the builder writes, the parser reads\<close>

text \<open>The values the format can carry: a 35-bit timestamp, 32-byte hashes, fields of less than 1024 groups, feature vectors with no
  leading zero byte.\<close>

definition builder_ok :: "('z) RecoverySecp_scheme \<Rightarrow> InvoiceBuilder \<Rightarrow> bool" where
  "builder_ok E b \<longleftrightarrow>
     unat (ib_timestamp b) < 2 ^ 35 \<and> length (ib_payment_hash b) = 32 \<and> length (ib_payment_secret b) = 32
     \<and> (case ib_description b of Direct t \<Rightarrow> utf8_ok t \<and> length t \<le> 639 | Hash h \<Rightarrow> length h = 32)
     \<and> list_all (\<lambda>hint. list_all (hop_ok E) hint \<and> length hint \<le> 12) (ib_route_hints b)
     \<and> (ib_features b = [] \<or> hd (ib_features b) \<noteq> 0) \<and> length (ib_features b) \<le> 639
     \<and> (case ib_amount_msat b of None \<Rightarrow> True | Some m \<Rightarrow> amount_encodable m)"

definition built_fields :: "InvoiceBuilder \<Rightarrow> InvFields" where
  "built_fields b = \<lparr>if_payment_hash = Some (ib_payment_hash b), if_payment_secret = Some (ib_payment_secret b),
     if_description = Some (ib_description b), if_expiry = ib_expiry_secs b, if_min_final_cltv = ib_min_final_cltv b,
     if_features = ib_features b, if_route_hints = ib_route_hints b, if_explicit_payee = None\<rparr>"

definition built_invoice :: "InvoiceBuilder \<Rightarrow> PublicKey \<Rightarrow> Bolt11Invoice" where
  "built_invoice b payee = \<lparr>inv_network = ib_network b, inv_amount_msat = ib_amount_msat b, inv_timestamp = ib_timestamp b,
     inv_payment_hash = ib_payment_hash b, inv_payment_secret = ib_payment_secret b, inv_description = ib_description b,
     inv_expiry_secs = ib_expiry_secs b, inv_min_final_cltv = ib_min_final_cltv b, inv_features = ib_features b,
     inv_route_hints = ib_route_hints b, inv_payee = payee\<rparr>"

lemma description_field:
  assumes "case d of Direct t \<Rightarrow> utf8_ok t \<and> length t \<le> 639 | Hash h \<Rightarrow> length h = 32"
  defines "p \<equiv> (case d of Direct text \<Rightarrow> (TAG_DESCRIPTION, to_five_bit text) | Hash h \<Rightarrow> (TAG_DESCRIPTION_HASH, to_five_bit h))"
  shows "field_ok p" "tagged_field E (fst p) (the (snd p)) f = Inr (f\<lparr>if_description := Some d\<rparr>)"
proof -
  have "field_ok p \<and> tagged_field E (fst p) (the (snd p)) f = Inr (f\<lparr>if_description := Some d\<rparr>)"
  proof (cases d)
    case (Hash h)
    then show ?thesis using assms tagged_field_bytes32 [of h TAG_DESCRIPTION_HASH] by (simp add: tag_defs)
  next
    case (Direct t)
    then have t: "utf8_ok t" "length t \<le> 639" using assms by simp_all
    obtain five where "to_five_bit t = Some five" "length five < 1024" "list_all (\<lambda>v. unat v < 32) five" "convert_bits five 5 8 False = Inr t"
      by (rule to_five_bit_field [OF t(2)])
    then show ?thesis using Direct t(1) by (simp add: p_def field_ok_def tagged_field_def tag_defs)
  qed
  then show "field_ok p" "tagged_field E (fst p) (the (snd p)) f = Inr (f\<lparr>if_description := Some d\<rparr>)" by blast+
qed

lemma number_fields:
  "field_ok (TAG_EXPIRY, Some (minimal_base32_be x))" "field_ok (TAG_MIN_FINAL_CLTV, Some (minimal_base32_be x))"
  "tagged_field E TAG_EXPIRY (minimal_base32_be x) f = Inr (f\<lparr>if_expiry := Some x\<rparr>)"
  "tagged_field E TAG_MIN_FINAL_CLTV (minimal_base32_be (ucast c)) f = Inr (f\<lparr>if_min_final_cltv := Some c\<rparr>)"
  using minimal_base32_ok [of x] base32_roundtrip [of x, where ?'a = 64] base32_roundtrip [of "ucast c", where ?'a = 32]
  by (simp_all add: field_ok_def tagged_field_def tag_defs)

lemma features_field:
  assumes "f \<noteq> []" "hd f \<noteq> 0" "length f \<le> 639"
  shows "field_ok (TAG_FEATURES, Some (bytes_to_five_bit_be f))"
    "tagged_field E TAG_FEATURES (bytes_to_five_bit_be f) g = Inr (g\<lparr>if_features := f\<rparr>)"
proof -
  have "div_ceil (length f * 8) 5 < 1024" using assms(3) by (simp add: div_ceil_def)
  then show "field_ok (TAG_FEATURES, Some (bytes_to_five_bit_be f))"
    using features_roundtrip [OF assms(1,2)] by (simp add: field_ok_def tag_defs)
  show "tagged_field E TAG_FEATURES (bytes_to_five_bit_be f) g = Inr (g\<lparr>if_features := f\<rparr>)"
    using features_roundtrip [OF assms(1,2)] by (simp add: tagged_field_def tag_defs)
qed

lemma built_fields_ok:
  assumes b: "builder_ok E b"
  shows "list_all field_ok (builder_fields b) \<and> apply_fields E (builder_fields b) no_fields = Inr (built_fields b)"
proof -
  let ?d = "case ib_description b of Direct text \<Rightarrow> (TAG_DESCRIPTION, to_five_bit text) | Hash h \<Rightarrow> (TAG_DESCRIPTION_HASH, to_five_bit h)"
  let ?x = "case ib_expiry_secs b of None \<Rightarrow> [] | Some x \<Rightarrow> [(TAG_EXPIRY, Some (minimal_base32_be x))]"
  let ?c = "case ib_min_final_cltv b of None \<Rightarrow> [] | Some c \<Rightarrow> [(TAG_MIN_FINAL_CLTV, Some (minimal_base32_be (ucast c)))]"
  let ?r = "map (\<lambda>hint. (TAG_ROUTE_HINT, to_five_bit (hint_bytes hint))) (ib_route_hints b)"
  let ?f = "if ib_features b = [] then [] else [(TAG_FEATURES, Some (bytes_to_five_bit_be (ib_features b)))]"
  have s: "field_ok (TAG_PAYMENT_SECRET, to_five_bit (ib_payment_secret b))"
    "tagged_field E TAG_PAYMENT_SECRET (the (to_five_bit (ib_payment_secret b))) f = Inr (f\<lparr>if_payment_secret := Some (ib_payment_secret b)\<rparr>)" for f
    using b tagged_field_bytes32 [of "ib_payment_secret b" TAG_PAYMENT_SECRET] by (simp_all add: builder_ok_def tag_defs)
  have p: "field_ok (TAG_PAYMENT_HASH, to_five_bit (ib_payment_hash b))"
    "tagged_field E TAG_PAYMENT_HASH (the (to_five_bit (ib_payment_hash b))) f = Inr (f\<lparr>if_payment_hash := Some (ib_payment_hash b)\<rparr>)" for f
    using b tagged_field_bytes32 [of "ib_payment_hash b" TAG_PAYMENT_HASH] by (simp_all add: builder_ok_def tag_defs)
  have dok: "case ib_description b of Direct t \<Rightarrow> utf8_ok t \<and> length t \<le> 639 | Hash h \<Rightarrow> length h = 32"
    using b by (simp add: builder_ok_def)
  obtain dt db where d: "?d = (dt, db)" by (cases ?d)
  have d': "field_ok (dt, db)" "tagged_field E dt (the db) f = Inr (f\<lparr>if_description := Some (ib_description b)\<rparr>)" for f
    using description_field [OF dok] by (simp_all add: d)
  have x: "list_all field_ok ?x" "apply_fields E ?x f = Inr (f\<lparr>if_expiry := case ib_expiry_secs b of None \<Rightarrow> if_expiry f | Some x \<Rightarrow> Some x\<rparr>)" for f
    by (simp_all add: number_fields rbind_def split: option.split)
  have c: "list_all field_ok ?c"
    "apply_fields E ?c f = Inr (f\<lparr>if_min_final_cltv := case ib_min_final_cltv b of None \<Rightarrow> if_min_final_cltv f | Some x \<Rightarrow> Some x\<rparr>)" for f
    by (simp_all add: number_fields rbind_def split: option.split)
  have hints: "list_all (\<lambda>hint. list_all (hop_ok E) hint \<and> length hint \<le> 12) (ib_route_hints b)" using b by (simp add: builder_ok_def)
  have r: "list_all field_ok ?r" "apply_fields E ?r f = Inr (f\<lparr>if_route_hints := if_route_hints f @ ib_route_hints b\<rparr>)" for f
    using hint_fields [OF hints] by simp_all
  have ft: "ib_features b = [] \<or> hd (ib_features b) \<noteq> 0" "length (ib_features b) \<le> 639" using b by (simp_all add: builder_ok_def)
  have g: "list_all field_ok ?f" "apply_fields E ?f f = Inr (if ib_features b = [] then f else f\<lparr>if_features := ib_features b\<rparr>)" for f
    using features_field(1) [of "ib_features b"] features_field(2) [of "ib_features b" E f] ft by (auto simp: rbind_def)
  have bf: "builder_fields b = [(TAG_PAYMENT_SECRET, to_five_bit (ib_payment_secret b)), (TAG_PAYMENT_HASH, to_five_bit (ib_payment_hash b)), (dt, db)]
      @ ?x @ ?c @ ?r @ ?f"
    unfolding builder_fields_def d by simp
  show ?thesis
    unfolding bf list_all_append apply_fields_append
    using s p d' x(1) c(1) r(1) g(1) ft(1)
    by (simp add: rbind_def x(2) c(2) r(2) g(2) no_fields_def built_fields_def features_empty_def split: option.split)
qed

lemma hrp_parses:
  assumes "case ib_amount_msat b of None \<Rightarrow> True | Some m \<Rightarrow> amount_encodable m"
  obtains rest where "strip_prefix ''ln'' (builder_hrp b) \<noteq> None" "parse_network (drop 2 (builder_hrp b)) = Inr (ib_network b, rest)"
    "parse_amount rest = Inr (ib_amount_msat b)"
proof -
  let ?rest = "case ib_amount_msat b of None \<Rightarrow> [] | Some amt \<Rightarrow> encode_amount amt"
  have amt: "parse_amount ?rest = Inr (ib_amount_msat b)"
    using assms amount_roundtrip by (cases "ib_amount_msat b") (simp_all add: parse_amount_def [of "[]"])
  have digit: "?rest = [] \<or> (\<exists>c cs. ?rest = c # cs \<and> is_ascii_digit c)"
  proof (cases "ib_amount_msat b")
    case (Some m)
    obtain n x where "encode_amount m = decimal n @ [x]" unfolding encode_amount_def by metis
    then show ?thesis using Some decimal_digits [of n] by (cases "decimal n") auto
  qed simp
  have "strip_prefix ''ln'' (builder_hrp b) \<noteq> None" by (simp add: strip_prefix_def builder_hrp_def str_bytes_def)
  moreover have "parse_network (drop 2 (builder_hrp b)) = Inr (ib_network b, ?rest)"
    using digit by (cases "ib_network b")
      (auto simp: parse_network_def strip_prefix_def builder_hrp_def str_bytes_def invoice_hrp_def is_ascii_digit_def)
  ultimately show ?thesis using that amt by blast
qed

lemma hrp_lowercase: "builder_hrp b \<noteq> [] \<and> list_all (\<lambda>c. \<not> is_ascii_uppercase c) (builder_hrp b)"
proof -
  have dec: "list_all (\<lambda>c. \<not> is_ascii_uppercase c) (decimal n)" for n
    using decimal_digits [of n] by (auto simp: list_all_iff is_ascii_digit_def is_ascii_uppercase_def word_le_nat_alt)
  have "list_all (\<lambda>c. \<not> is_ascii_uppercase c) (encode_amount m)" for m
    by (simp add: encode_amount_def dec) (simp add: is_ascii_uppercase_def)
  then show ?thesis
    by (cases "ib_network b") (auto simp: builder_hrp_def str_bytes_def invoice_hrp_def is_ascii_uppercase_def split: option.split)
qed

text \<open>C27: For an invoice builder whose values the format can carry, and a signer whose signatures of 64 bytes are accepted and recover to
  \<open>payee\<close>, \<open>InvoiceBuilder::encode_signed\<close> does not panic and \<open>Bolt11Invoice::parse\<close> reads its string back as the invoice the
  builder describes, every field of it, with \<open>payee\<close> as the payee.\<close>

theorem invoice_roundtrip:
  assumes b: "builder_ok E b"
    and sign: "\<And>digest. sign digest = (rec_id digest, compact digest)" "\<And>digest. length (compact digest) = 64"
    and recovery: "\<And>digest. recid_ok E (rec_id digest)" "\<And>digest. rsig_from_compact_ok E (compact digest) (rec_id digest)"
      "\<And>digest. recover_ecdsa E digest (compact digest) (rec_id digest) = Some payee"
  shows "\<exists>s. encode_signed b sign = Some s \<and> invoice_parse E s = Inr (built_invoice b payee)"
proof -
  let ?t = "timestamp_groups (ib_timestamp b)"
  obtain fs where fs: "tagged_all (builder_fields b) = Some fs" "list_all (\<lambda>v. unat v < 32) fs"
    "parse_fields E fs no_fields = Inr (built_fields b)"
    using built_fields_ok [OF b] by (metis tagged_all_ok)
  have head: "list_all (\<lambda>v. unat v < 32) (?t @ fs)" using fs(2) timestamp_ok(1) by simp
  then obtain packed where packed: "convert_bits (?t @ fs) 5 8 True = Inr packed"
    using convert_bits_pad [of 5 8 "?t @ fs"] by auto
  define digest where "digest = sha256_digest (builder_hrp b @ packed)"
  have dg: "invoice_digest (builder_hrp b) (?t @ fs) = Inr digest" by (simp add: invoice_digest_def packed rbind_def digest_def)
  obtain sg k where sg: "to_five_bit (compact digest @ [rec_id digest]) = Some sg" "list_all (\<lambda>g. unat g < 32) sg" "k < 5"
    "5 * length sg = 8 * length (compact digest @ [rec_id digest]) + k" "convert_bits sg 5 8 False = Inr (compact digest @ [rec_id digest])"
    by (rule to_five_bit_ok)
  have lsg: "length sg = 104" using sg(3,4) sign(2) by simp
  obtain s where s: "bech32_encode (builder_hrp b) (?t @ fs @ sg) = Some s" "bech32_decode s = Inr (builder_hrp b, ?t @ fs @ sg)"
    using bech32_decode_encode [of "builder_hrp b" "?t @ fs @ sg"] hrp_lowercase [of b] head sg(2) by auto
  have "case ib_amount_msat b of None \<Rightarrow> True | Some m \<Rightarrow> amount_encodable m" using b by (simp add: builder_ok_def)
  then obtain rest where hrp: "strip_prefix ''ln'' (builder_hrp b) \<noteq> None" "parse_network (drop 2 (builder_hrp b)) = Inr (ib_network b, rest)"
    "parse_amount rest = Inr (ib_amount_msat b)" by (rule hrp_parses)
  have t: "base32_value ?t = ib_timestamp b" "length ?t = 7" using timestamp_ok b by (simp_all add: builder_ok_def)
  have "encode_signed b sign = Some s" using fs(1) dg sg(1) s(1) sign(1) by (simp add: encode_signed_def Let_def)
  moreover have "invoice_parse E s = Inr (built_invoice b payee)"
    using s(2) hrp t lsg sg(5) dg fs(3) recovery sign(2) 
    by (simp add: invoice_parse_def rbind_def bech32_err_def Let_def nth_append invoice_payee_def built_fields_def built_invoice_def ok_or_missing_def)
  ultimately show ?thesis by blast
qed

definition sample_payee :: PublicKey where
  "sample_payee = 2 # replicate 32 7"

definition toy_recovery :: RecoverySecp where
  "toy_recovery = EC.extend toy_ec (RecoverySecp.fields (\<lambda>r. r < 4) (\<lambda>c _. length c = 64) (\<lambda>_ c _. Some (take 33 c)))"

definition sample_builder :: InvoiceBuilder where
  "sample_builder = \<lparr>ib_network = Regtest, ib_amount_msat = Some 123456, ib_timestamp = 1700000000, ib_payment_hash = replicate 32 1,
     ib_payment_secret = replicate 32 2, ib_description = Direct (str_bytes ''coffee''), ib_expiry_secs = Some 600,
     ib_min_final_cltv = Some 144, ib_features = [2, 65, 0],
     ib_route_hints = [[\<lparr>hint_src_node_id = sample_payee, hint_short_channel_id = 77, hint_fee_base_msat = 1000,
       hint_fee_proportional_millionths = 10, hint_cltv_expiry_delta = 40\<rparr>]]\<rparr>"

theorem invoice_roundtrip_witness:
  "builder_ok toy_recovery sample_builder
   \<and> (\<exists>s. encode_signed sample_builder (\<lambda>_. (1, sample_payee @ replicate 31 0)) = Some s
        \<and> invoice_parse toy_recovery s = Inr (built_invoice sample_builder sample_payee))"
proof
  show b: "builder_ok toy_recovery sample_builder"
    by (simp add: builder_ok_def sample_builder_def amount_encodable_def hop_ok_def sample_payee_def toy_recovery_def EC.defs toy_ec_def
        str_bytes_def RecoverySecp.defs)
  show "\<exists>s. encode_signed sample_builder (\<lambda>_. (1, sample_payee @ replicate 31 0)) = Some s
        \<and> invoice_parse toy_recovery s = Inr (built_invoice sample_builder sample_payee)"
    by (rule invoice_roundtrip [OF b, of _ "\<lambda>_. 1" "\<lambda>_. sample_payee @ replicate 31 0"])
      (simp_all add: toy_recovery_def EC.defs RecoverySecp.defs sample_payee_def)
qed

end
