(* ===== verification/Monitor.thy ===== *)
theory Monitor
  imports Channel_Sample "HOL-Library.AList"
begin

text \<open>
  \<^verbatim>\<open>src/src/chain/monitor.rs\<close> and the fee interface of \<^verbatim>\<open>src/src/chain/mod.rs\<close>: what a confirmed spend of the funding
  output is, and the transactions that answer it. The \<^verbatim>\<open>HashMap\<close> of preimages is an association list written through
  \<open>AList.update\<close>. A panic (an index out of range, a failed \<^verbatim>\<open>expect\<close>) is \<open>None\<close>.
\<close>

unbundle bit_operations_syntax

section \<open>Data\<close>

datatype FeeTarget = FeeCommitment | FeeClose | FeeUrgent

definition static_feerate :: "u32 \<Rightarrow> FeeTarget \<Rightarrow> u32" where
  "static_feerate rate target = rate"

record CounterpartyCommitmentData =
  cd_number :: u64
  cd_txid :: Txid
  cd_per_commitment_point :: PublicKey
  cd_htlcs :: "(HtlcOutputInCommitment \<times> u32 option) list"

datatype FundingSpend = CooperativeClose | HolderCommitmentSpend | CounterpartyCurrent | CounterpartyRevoked u64 | UnknownCommitment

datatype MonitorResponse = Claim Transaction "u32 option" string

record ChannelMonitor =
  cm_funding_outpoint :: OutPoint
  cm_capacity_sat :: u64
  cm_obscure_factor :: u64
  cm_holder_pubkeys :: ChannelPublicKeys
  cm_counterparty_pubkeys :: ChannelPublicKeys
  cm_holder_selected_delay :: u16
  cm_counterparty_selected_delay :: u16
  cm_counterparty_secrets :: SecretStore
  cm_counterparty_current :: "CounterpartyCommitmentData option"
  cm_holder_commitment :: "HolderCommitment option"
  cm_holder_commitment_feerate :: u32
  cm_preimages :: "(PaymentHash \<times> PaymentPreimage) list"

definition commitment_data :: "CounterpartyCommitmentInfo \<Rightarrow> CounterpartyCommitmentData" where
  "commitment_data i =
     \<lparr>cd_number = ci_number i, cd_txid = ci_txid i, cd_per_commitment_point = ci_per_commitment_point i, cd_htlcs = ci_htlcs i\<rparr>"

definition from_channel :: "Channel \<Rightarrow> ChannelMonitor option" where
  "from_channel c =
     (case ch_counterparty_pubkeys c of
        None \<Rightarrow> None
      | Some their_keys \<Rightarrow>
          case ch_funding_outpoint c of
            None \<Rightarrow> None
          | Some outpoint \<Rightarrow>
              Some \<lparr>cm_funding_outpoint = outpoint, cm_capacity_sat = ch_funding_amount_sat c,
                cm_obscure_factor = ch_obscure_factor c, cm_holder_pubkeys = ch_holder_pubkeys c,
                cm_counterparty_pubkeys = their_keys, cm_holder_selected_delay = holder_selected_delay (ch_params c),
                cm_counterparty_selected_delay = counterparty_selected_delay (ch_params c),
                cm_counterparty_secrets = ch_counterparty_secrets c,
                cm_counterparty_current = map_option commitment_data (ch_current_counterparty_commitment c),
                cm_holder_commitment = ch_current_holder_commitment c,
                cm_holder_commitment_feerate = ch_feerate_holder c, cm_preimages = []\<rparr>)"

definition add_preimage :: "PaymentPreimage \<Rightarrow> ChannelMonitor \<Rightarrow> ChannelMonitor" where
  "add_preimage preimage m = m\<lparr>cm_preimages := AList.update (payment_hash preimage) preimage (cm_preimages m)\<rparr>"

section \<open>Classification\<close>

definition is_commitment_shape :: "Transaction \<Rightarrow> TxIn \<Rightarrow> bool" where
  "is_commitment_shape tx input =
     (drop_bit 24 (lock_time tx) = 0x20 \<and> drop_bit 24 (sequence input) = 0x80 \<and> tx_version tx = 2)"

definition obscured_number :: "Transaction \<Rightarrow> TxIn \<Rightarrow> u64" where
  "obscured_number tx input =
     push_bit 24 (ucast (sequence input) AND 0xffffff) OR (ucast (lock_time tx) AND 0xffffff)"

definition classify :: "ChannelMonitor \<Rightarrow> Transaction \<Rightarrow> FundingSpend option" where
  "classify m tx =
     (case List.find (\<lambda>i. previous_output i = cm_funding_outpoint m) (tx_input tx) of
        None \<Rightarrow> None
      | Some input \<Rightarrow>
          let txid = tx_txid tx in
          if (case cm_holder_commitment m of None \<Rightarrow> False | Some hc \<Rightarrow> bct_txid (hc_built hc) = txid) then Some HolderCommitmentSpend
          else if (case cm_counterparty_current m of None \<Rightarrow> False | Some cp \<Rightarrow> cd_txid cp = txid) then Some CounterpartyCurrent
          else if \<not> is_commitment_shape tx input then Some CooperativeClose
          else
            let commitment_number = obscured_number tx input XOR cm_obscure_factor m in
            if secret_for (cm_counterparty_secrets m) (index_for_commitment commitment_number) \<noteq> None
            then Some (CounterpartyRevoked commitment_number)
            else Some UnknownCommitment)"

section \<open>Sweeping\<close>

text \<open>A transaction with one output that spends the given outputs with the given sequence; its fee is taken for the unsigned
  weight plus \<open>extra\<close>, rounded up.\<close>

definition unsigned_claim :: "Txid \<Rightarrow> u32 list \<Rightarrow> u32 \<Rightarrow> u64 \<Rightarrow> Script \<Rightarrow> Transaction" where
  "unsigned_claim txid vouts sq v destination =
     \<lparr>tx_version = 2, lock_time = 0,
      tx_input = map (\<lambda>vout. \<lparr>previous_output = \<lparr>op_txid = txid, op_vout = vout\<rparr>, script_sig = [], sequence = sq, witness = []\<rparr>) vouts,
      tx_output = [\<lparr>txo_value = v, script_pubkey = destination\<rparr>]\<rparr>"

definition funded_claim :: "Txid \<Rightarrow> u32 list \<Rightarrow> u32 \<Rightarrow> u64 \<Rightarrow> Script \<Rightarrow> u32 \<Rightarrow> u64 \<Rightarrow> Transaction" where
  "funded_claim txid vouts sq v destination feerate extra =
     (let tx = unsigned_claim txid vouts sq v destination;
          fee = fee_for_weight feerate (of_nat (tx_weight tx) + extra) + 1
      in unsigned_claim txid vouts sq (saturating_sub v fee) destination)"

definition with_witnesses :: "Transaction \<Rightarrow> bytes list list \<Rightarrow> Transaction" where
  "with_witnesses tx ws = tx\<lparr>tx_input := map2 (\<lambda>i w. i\<lparr>witness := w\<rparr>) (tx_input tx) ws\<rparr>"

record JusticeIn =
  ji_vout :: u32
  ji_value :: u64
  ji_witness_script :: Script
  ji_control :: bytes

definition outputs_paying :: "Script \<Rightarrow> bytes \<Rightarrow> Transaction \<Rightarrow> JusticeIn list" where
  "outputs_paying script control tx =
     map (\<lambda>(vout, out). \<lparr>ji_vout = of_nat vout, ji_value = txo_value out, ji_witness_script = script, ji_control = control\<rparr>)
       (filter (\<lambda>(vout, out). script_pubkey out = new_p2wsh script) (enumerate 0 (tx_output tx)))"

definition htlc_scripts :: "ChannelMonitor \<Rightarrow> TxCreationKeys \<Rightarrow> Script list" where
  "htlc_scripts m keys =
     (case cm_counterparty_current m of
        None \<Rightarrow> []
      | Some cp \<Rightarrow> concat (map (\<lambda>(htlc, _).
          [htlc_witness_script keys htlc, htlc_witness_script keys (htlc\<lparr>offered := \<not> offered htlc\<rparr>)]) (cd_htlcs cp)))"

definition justice_inputs :: "ChannelMonitor \<Rightarrow> TxCreationKeys \<Rightarrow> Transaction \<Rightarrow> JusticeIn list" where
  "justice_inputs m keys revoked_tx =
     (let to_local_script = revocable_delayed (revocation_key keys) (cm_holder_selected_delay m) (broadcaster_delayed_payment_key keys)
      in outputs_paying to_local_script [1] revoked_tx
         @ concat (map (\<lambda>script. outputs_paying script (revocation_key keys) revoked_tx) (htlc_scripts m keys)))"

definition justice_unsigned :: "JusticeIn list \<Rightarrow> Txid \<Rightarrow> Script \<Rightarrow> u32 \<Rightarrow> Transaction" where
  "justice_unsigned inputs revoked_txid destination feerate =
     funded_claim revoked_txid (map ji_vout inputs) 0xfffffffd (sum_list (map ji_value inputs)) destination feerate
       (sum_list (map (\<lambda>i. 80 + of_nat (length (ji_witness_script i)) + of_nat (length (ji_control i))) inputs))"

definition justice_witness ::
  "EC \<Rightarrow> InMemoryChannelSigner \<Rightarrow> bytes \<Rightarrow> SighashCache \<Rightarrow> nat \<times> JusticeIn \<Rightarrow> bytes list option" where
  "justice_witness E signer secret cache ix =
     (case ix of (idx, input) \<Rightarrow>
        map_option (\<lambda>sighash.
          [sig_with_sighash_all E (sign_revocation E signer sighash secret), ji_control input, ji_witness_script input])
          (segwit_v0_sighash cache idx (ji_witness_script input) (ji_value input) All))"

definition punish_revoked ::
  "EC \<Rightarrow> ChannelMonitor \<Rightarrow> InMemoryChannelSigner \<Rightarrow> Transaction \<Rightarrow> u64 \<Rightarrow> Script \<Rightarrow> u32 \<Rightarrow> MonitorResponse list option" where
  "punish_revoked E m signer revoked_tx commitment_number destination feerate =
     (case secret_for (cm_counterparty_secrets m) (index_for_commitment commitment_number) of
        None \<Rightarrow> Some []
      | Some secret \<Rightarrow>
          let tx_keys = TxCreationKeys_derive E (per_commitment_point_of E secret) (cm_counterparty_pubkeys m) (cm_holder_pubkeys m);
              inputs = justice_inputs m tx_keys revoked_tx
          in if inputs = [] then Some []
             else
               let justice = justice_unsigned inputs (tx_txid revoked_tx) destination feerate
               in map_option (\<lambda>ws. [Claim (with_witnesses justice ws) None ''justice (revoked commitment punished)''])
                    (those (map (justice_witness E signer secret (SighashCache_new justice)) (enumerate 0 inputs))))"

section \<open>Their current commitment\<close>

definition sweep_to_remote ::
  "EC \<Rightarrow> ChannelMonitor \<Rightarrow> InMemoryChannelSigner \<Rightarrow> Txid \<Rightarrow> Script \<Rightarrow> u32 \<Rightarrow> nat \<times> TxOut \<Rightarrow> MonitorResponse option" where
  "sweep_to_remote E m signer txid destination feerate vo =
     (case vo of (vout, out) \<Rightarrow>
        let sweep = funded_claim txid [of_nat vout] 0xfffffffd (txo_value out) destination feerate 110 in
        case p2wpkh_script_code (script_pubkey out) of
          None \<Rightarrow> None
        | Some script_code \<Rightarrow>
            map_option (\<lambda>sighash.
              Claim (with_witnesses sweep [[sig_with_sighash_all E (sign_payment E signer sighash), payment_basepoint (cm_holder_pubkeys m)]])
                None ''to_remote sweep (their force close)'')
              (segwit_v0_sighash (SighashCache_new sweep) 0 script_code (txo_value out) All))"

definition claim_offered_htlc ::
  "EC \<Rightarrow> ChannelMonitor \<Rightarrow> InMemoryChannelSigner \<Rightarrow> TxCreationKeys \<Rightarrow> PublicKey \<Rightarrow> Txid \<Rightarrow> Script \<Rightarrow> u32
    \<Rightarrow> HtlcOutputInCommitment \<times> u32 option \<Rightarrow> MonitorResponse list option" where
  "claim_offered_htlc E m signer tx_keys point txid destination feerate hv =
     (case hv of (htlc, vout) \<Rightarrow>
        if \<not> offered htlc then Some []
        else case map_of (cm_preimages m) (h_payment_hash htlc) of
          None \<Rightarrow> Some []
        | Some preimage \<Rightarrow>
            case vout of
              None \<Rightarrow> Some []
            | Some vout \<Rightarrow>
                let witness_script = htlc_witness_script tx_keys htlc;
                    v = to_sat_floor (h_amount_msat htlc);
                    claim = funded_claim txid [vout] 0xfffffffd v destination feerate (160 + of_nat (length witness_script))
                in map_option (\<lambda>sighash.
                     [Claim (with_witnesses claim [[sig_with_sighash_all E (sign_htlc E signer sighash point), preimage, witness_script]])
                        None ''preimage claim (their force close)''])
                     (segwit_v0_sighash (SighashCache_new claim) 0 witness_script v All))"

definition claim_counterparty_outputs ::
  "EC \<Rightarrow> ChannelMonitor \<Rightarrow> InMemoryChannelSigner \<Rightarrow> Transaction \<Rightarrow> Script \<Rightarrow> u32 \<Rightarrow> MonitorResponse list option" where
  "claim_counterparty_outputs E m signer commitment_tx destination feerate =
     (let txid = tx_txid commitment_tx;
          our_spk = new_p2wpkh_from_pubkey (payment_basepoint (cm_holder_pubkeys m));
          ours = filter (\<lambda>(vout, out). script_pubkey out = our_spk) (enumerate 0 (tx_output commitment_tx))
      in case those (map (sweep_to_remote E m signer txid destination feerate) ours) of
           None \<Rightarrow> None
         | Some responses \<Rightarrow>
             case cm_counterparty_current m of
               None \<Rightarrow> Some responses
             | Some cp \<Rightarrow>
                 let tx_keys = TxCreationKeys_derive E (cd_per_commitment_point cp) (cm_counterparty_pubkeys m) (cm_holder_pubkeys m)
                 in map_option (\<lambda>claims. responses @ concat claims)
                      (those (map (claim_offered_htlc E m signer tx_keys (cd_per_commitment_point cp) txid destination feerate) (cd_htlcs cp))))"

section \<open>Our commitment\<close>

definition sweep_to_local ::
  "EC \<Rightarrow> ChannelMonitor \<Rightarrow> InMemoryChannelSigner \<Rightarrow> HolderCommitment \<Rightarrow> Transaction \<Rightarrow> Script \<Rightarrow> u32 \<Rightarrow> u32 \<Rightarrow> MonitorResponse list option" where
  "sweep_to_local E m signer hc commitment_tx destination feerate current_height =
     (case to_broadcaster_index (hc_built hc) of
        None \<Rightarrow> Some []
      | Some vout \<Rightarrow>
          if length (tx_output commitment_tx) \<le> unat vout then None
          else
            let script = revocable_delayed (revocation_key (hc_keys hc)) (cm_counterparty_selected_delay m)
                  (broadcaster_delayed_payment_key (hc_keys hc));
                v = txo_value (tx_output commitment_tx ! unat vout);
                sweep = funded_claim (tx_txid commitment_tx) [vout] (ucast (cm_counterparty_selected_delay m)) v destination feerate
                  (120 + of_nat (length script))
            in map_option (\<lambda>sighash.
                 [Claim (with_witnesses sweep
                     [[sig_with_sighash_all E (sign_delayed_payment E signer sighash (per_commitment_point (hc_keys hc))), [], script]])
                    (Some (current_height + ucast (cm_counterparty_selected_delay m)))
                    ''to_local sweep after CSV (our force close)''])
                 (segwit_v0_sighash (SighashCache_new sweep) 0 script v All))"

text \<open>One second-stage transaction; \<open>continue\<close> is the empty list.\<close>

definition second_stage ::
  "EC \<Rightarrow> ChannelMonitor \<Rightarrow> InMemoryChannelSigner \<Rightarrow> HolderCommitment \<Rightarrow> Txid \<Rightarrow> nat \<times> nat \<times> Script \<Rightarrow> MonitorResponse list option" where
  "second_stage E m signer hc txid entry =
     (case entry of (sig_idx, htlc_idx, witness_script) \<Rightarrow>
        if length (hc_htlcs hc) \<le> htlc_idx \<or> length (htlc_output_indices (hc_built hc)) \<le> htlc_idx then None
        else
          let htlc = hc_htlcs hc ! htlc_idx in
          case htlc_output_indices (hc_built hc) ! htlc_idx of
            None \<Rightarrow> None
          | Some vout \<Rightarrow>
              let preimage = map_of (cm_preimages m) (h_payment_hash htlc) in
              if \<not> offered htlc \<and> preimage = None then Some []
              else
                let htlc_tx = build_htlc_tx txid vout htlc (hc_keys hc) (cm_counterparty_selected_delay m) (hc_feerate hc) in
                case segwit_v0_sighash (SighashCache_new htlc_tx) 0 witness_script (to_sat_floor (h_amount_msat htlc)) All of
                  None \<Rightarrow> None
                | Some sighash \<Rightarrow>
                    if length (hc_counterparty_htlc_sigs hc) \<le> sig_idx then Some []
                    else
                      let our_sig = sign_htlc E signer sighash (per_commitment_point (hc_keys hc));
                          their_sig = hc_counterparty_htlc_sigs hc ! sig_idx;
                          w = htlc_tx_witness E their_sig our_sig (if offered htlc then None else preimage) witness_script
                      in Some [Claim (with_witnesses htlc_tx [w]) (if offered htlc then Some (h_cltv_expiry htlc) else None)
                           (if offered htlc then ''HTLC-timeout (our force close)'' else ''HTLC-success (our force close)'')])"

definition claim_holder_outputs ::
  "EC \<Rightarrow> ChannelMonitor \<Rightarrow> InMemoryChannelSigner \<Rightarrow> Transaction \<Rightarrow> Script \<Rightarrow> u32 \<Rightarrow> u32 \<Rightarrow> MonitorResponse list option" where
  "claim_holder_outputs E m signer commitment_tx destination feerate current_height =
     (case cm_holder_commitment m of
        None \<Rightarrow> Some []
      | Some hc \<Rightarrow>
          case sweep_to_local E m signer hc commitment_tx destination feerate current_height of
            None \<Rightarrow> None
          | Some responses \<Rightarrow>
              map_option (\<lambda>claims. responses @ concat claims)
                (those (map (second_stage E m signer hc (tx_txid commitment_tx)) (enumerate 0 (htlcs_in_output_order (hc_built hc))))))"

definition handle_funding_spend ::
  "EC \<Rightarrow> ChannelMonitor \<Rightarrow> InMemoryChannelSigner \<Rightarrow> Transaction \<Rightarrow> Script \<Rightarrow> u32 \<Rightarrow> u32 \<Rightarrow> (FundingSpend \<times> MonitorResponse list) option option" where
  "handle_funding_spend E m signer tx destination feerate current_height =
     (case classify m tx of
        None \<Rightarrow> Some None
      | Some cls \<Rightarrow>
          map_option (\<lambda>responses. Some (cls, responses))
            (case cls of
               CooperativeClose \<Rightarrow> Some []
             | CounterpartyRevoked commitment_number \<Rightarrow> punish_revoked E m signer tx commitment_number destination feerate
             | CounterpartyCurrent \<Rightarrow> claim_counterparty_outputs E m signer tx destination feerate
             | HolderCommitmentSpend \<Rightarrow> claim_holder_outputs E m signer tx destination feerate current_height
             | UnknownCommitment \<Rightarrow> Some []))"

section \<open>Recognizing a commitment\<close>

lemma shape_bits:
  "drop_bit 24 (0x20000000 OR ucast (v AND 0xffffff) :: u32) = 0x20" "drop_bit 24 (0x80000000 OR ucast (v AND 0xffffff) :: u32) = 0x80"
  for v :: u64
proof -
  have "(0x20000000 :: u32) = push_bit 29 1" "(0x80000000 :: u32) = push_bit 31 1" "(0x20 :: u32) = push_bit 5 1" "(0x80 :: u32) = push_bit 7 1"
    by simp_all
  then show "drop_bit 24 (0x20000000 OR ucast (v AND 0xffffff) :: u32) = 0x20" "drop_bit 24 (0x80000000 OR ucast (v AND 0xffffff) :: u32) = 0x80"
    unfolding mask24 by (auto intro!: bit_eqI simp: bit_ucast_iff bit_take_bit_iff bit_or_iff bit_exp_iff bit_drop_bit_eq)
qed

lemma with_witnesses_keeps [simp]:
  "tx_output (with_witnesses tx ws) = tx_output tx" "lock_time (with_witnesses tx ws) = lock_time tx"
  "tx_version (with_witnesses tx ws) = tx_version tx"
  by (simp_all add: with_witnesses_def)

lemma map_with_witnesses:
  assumes "length ws = length (tx_input tx)" "\<And>i w. f (i\<lparr>witness := w\<rparr>) = f i"
  shows "map f (tx_input (with_witnesses tx ws)) = map f (tx_input tx)"
  using assms by (auto simp: with_witnesses_def intro: nth_equalityI)

lemma with_witnesses_same:
  assumes "length ws = length (tx_input tx)"
  shows "tx_txid (with_witnesses tx ws) = tx_txid tx"
    "segwit_v0_sighash (SighashCache_new (with_witnesses tx ws)) k code v t = segwit_v0_sighash (SighashCache_new tx) k code v t"
proof -
  have "map TxIn_write (tx_input (with_witnesses tx ws)) = map TxIn_write (tx_input tx)"
    by (rule map_with_witnesses [OF assms]) (simp add: TxIn_write_def)
  moreover have len: "length (tx_input (with_witnesses tx ws)) = length (tx_input tx)" using assms by (simp add: with_witnesses_def)
  ultimately show "tx_txid (with_witnesses tx ws) = tx_txid tx"
    by (simp add: tx_txid_def serialize_legacy_def write_inputs_outputs_def)
  have "previous_output (tx_input (with_witnesses tx ws) ! k) = previous_output (tx_input tx ! k)"
    "sequence (tx_input (with_witnesses tx ws) ! k) = sequence (tx_input tx ! k)" if "k < length (tx_input tx)"
    using that assms by (simp_all add: with_witnesses_def)
  moreover have "map (\<lambda>i. OutPoint_write (previous_output i)) (tx_input (with_witnesses tx ws)) = map (\<lambda>i. OutPoint_write (previous_output i)) (tx_input tx)"
    "map (\<lambda>i. to_le_bytes (sequence i)) (tx_input (with_witnesses tx ws)) = map (\<lambda>i. to_le_bytes (sequence i)) (tx_input tx)"
    by (rule map_with_witnesses [OF assms], simp)+
  ultimately show "segwit_v0_sighash (SighashCache_new (with_witnesses tx ws)) k code v t = segwit_v0_sighash (SighashCache_new tx) k code v t"
    using len by (simp add: segwit_v0_sighash_def sighash_preimage_def SighashCache_new_def Let_def)
qed

lemma built_number:
  assumes "unat (cp_commitment_number p) < 2 ^ 48" "unat (cp_obscure_factor p) < 2 ^ 48"
    and tx: "tx = with_witnesses (bct_tx (build_commitment_tx p)) [w]"
  obtains input where "tx_input tx = [input]" "previous_output input = cp_funding_outpoint p" "is_commitment_shape tx input"
    "obscured_number tx input XOR cp_obscure_factor p = cp_commitment_number p"
proof -
  let ?i = "\<lparr>previous_output = cp_funding_outpoint p, script_sig = [],
    sequence = 0x80000000 OR ucast (drop_bit 24 (cp_commitment_number p XOR cp_obscure_factor p) AND 0xffffff), witness = w\<rparr>"
  have i: "tx_input tx = [?i]" by (simp add: tx with_witnesses_def build_commitment_tx_def Let_def)
  have lt: "lock_time tx = 0x20000000 OR ucast ((cp_commitment_number p XOR cp_obscure_factor p) AND 0xffffff)" "tx_version tx = 2"
    by (simp_all add: tx build_commitment_tx_def Let_def)
  have u: "ucast x AND 0xffffff = (ucast (x AND 0xffffff) :: u64)" for x :: u32
    unfolding mask24 by (auto intro!: bit_eqI simp: bit_simps)
  have "read_commitment_number (bct_tx (build_commitment_tx p)) (cp_obscure_factor p) = cp_commitment_number p"
    using number_recovered [OF assms(1,2)] by simp
  then have "obscured_number tx ?i XOR cp_obscure_factor p = cp_commitment_number p"
    unfolding obscured_number_def u by (simp add: read_commitment_number_def lt build_commitment_tx_def Let_def)
  moreover have "is_commitment_shape tx ?i" unfolding is_commitment_shape_def lt by (simp only: TxIn.select_convs shape_bits simp_thms)
  ultimately show ?thesis using that i by simp
qed

lemma classify_revoked:
  assumes "unat (cp_commitment_number p) < 2 ^ 48" "unat (cp_obscure_factor p) < 2 ^ 48"
    and tx: "tx = with_witnesses (bct_tx (build_commitment_tx p)) [w]"
    and m: "cm_funding_outpoint m = cp_funding_outpoint p" "cm_obscure_factor m = cp_obscure_factor p"
    and secret: "secret_for (cm_counterparty_secrets m) (index_for_commitment (cp_commitment_number p)) \<noteq> None"
    and fresh: "\<And>hc. cm_holder_commitment m = Some hc \<Longrightarrow> bct_txid (hc_built hc) \<noteq> tx_txid tx"
      "\<And>cp. cm_counterparty_current m = Some cp \<Longrightarrow> cd_txid cp \<noteq> tx_txid tx"
  shows "classify m tx = Some (CounterpartyRevoked (cp_commitment_number p))"
proof -
  obtain input where i: "tx_input tx = [input]" "previous_output input = cp_funding_outpoint p" "is_commitment_shape tx input"
    "obscured_number tx input XOR cp_obscure_factor p = cp_commitment_number p"
    using built_number [OF assms(1-3)] .
  then show ?thesis using m secret fresh by (auto simp: classify_def Let_def split: option.splits)
qed

section \<open>The justice transaction\<close>

lemma those_map_Some: "(\<And>x. x \<in> set xs \<Longrightarrow> f x = Some (g x)) \<Longrightarrow> those (map f xs) = Some (map g xs)"
  by (induction xs) auto

lemma funded_claim_input:
  "tx_input (funded_claim txid vouts sq v d fr x) =
     map (\<lambda>vout. \<lparr>previous_output = \<lparr>op_txid = txid, op_vout = vout\<rparr>, script_sig = [], sequence = sq, witness = []\<rparr>) vouts"
  by (simp add: funded_claim_def unsigned_claim_def Let_def)

text \<open>Input \<open>k\<close> of \<open>tx\<close> satisfies \<open>OP_CHECKSIG\<close> under \<open>key\<close>: its witness is a signature over the digest of the output it spends,
  the item that selects the branch and the script.\<close>

definition input_signed :: "EC \<Rightarrow> Transaction \<Rightarrow> PublicKey \<Rightarrow> nat \<Rightarrow> JusticeIn \<Rightarrow> bool" where
  "input_signed E tx key k i \<longleftrightarrow>
     (\<exists>sig sighash. witness (tx_input tx ! k) = [sig_with_sighash_all E sig, ji_control i, ji_witness_script i]
        \<and> segwit_v0_sighash (SighashCache_new tx) k (ji_witness_script i) (ji_value i) All = Some sighash
        \<and> verify_ecdsa E sighash sig key)"

definition sign_laws :: "EC \<Rightarrow> bool" where
  "sign_laws E \<longleftrightarrow> (\<forall>msg key. verify_ecdsa E msg (sign_ecdsa E msg key) (sk_public_key E key))"

lemma revocation_key_secret:
  assumes "ec_laws E" "revocation_basepoint holder = sk_public_key E (revocation_base_key signer)"
  shows "sk_public_key E (derive_revocation_privkey E (revocation_base_key signer) s)
    = revocation_key (TxCreationKeys_derive E (per_commitment_point_of E s) cp holder)"
proof -
  have mul: "sk_public_key E (sk_mul_tweak E a t) = pk_mul_tweak E (sk_public_key E a) t" for a t
    using assms(1) unfolding ec_laws_def by blast
  have sum: "sk_public_key E (sk_add_tweak E a t) = pk_combine E (sk_public_key E a) (sk_public_key E t)" for a t
    using assms(1) unfolding ec_laws_def by blast
  show ?thesis
    by (simp add: TxCreationKeys_derive_def per_commitment_point_of_def derive_revocation_privkey_def derive_revocation_pubkey_def
        Let_def sum mul assms(2))
qed

lemma punish_signs:
  assumes laws: "ec_laws E" "sign_laws E" and key: "revocation_basepoint (cm_holder_pubkeys m) = sk_public_key E (revocation_base_key signer)"
    and secret: "secret_for (cm_counterparty_secrets m) (index_for_commitment n) = Some secret"
    and keys: "keys = TxCreationKeys_derive E (per_commitment_point_of E secret) (cm_counterparty_pubkeys m) (cm_holder_pubkeys m)"
    and ne: "justice_inputs m keys tx \<noteq> []"
  obtains justice where "punish_revoked E m signer tx n destination feerate = Some [Claim justice None ''justice (revoked commitment punished)'']"
    "map previous_output (tx_input justice) = map (\<lambda>i. \<lparr>op_txid = tx_txid tx, op_vout = ji_vout i\<rparr>) (justice_inputs m keys tx)"
    "\<And>k. k < length (justice_inputs m keys tx) \<Longrightarrow> input_signed E justice (revocation_key keys) k (justice_inputs m keys tx ! k)"
proof -
  let ?ins = "justice_inputs m keys tx"
  let ?j = "justice_unsigned ?ins (tx_txid tx) destination feerate"
  define sh where "sh k i = the (segwit_v0_sighash (SighashCache_new ?j) k (ji_witness_script i) (ji_value i) All)" for k and i :: JusticeIn
  define w where "w = (\<lambda>(k, i :: JusticeIn). [sig_with_sighash_all E (sign_revocation E signer (sh k i) secret), ji_control i, ji_witness_script i])"
  have in_j: "tx_input ?j = map (\<lambda>vout. \<lparr>previous_output = \<lparr>op_txid = tx_txid tx, op_vout = vout\<rparr>, script_sig = [],
      sequence = 0xfffffffd, witness = []\<rparr>) (map ji_vout ?ins)"
    by (simp add: justice_unsigned_def funded_claim_input)
  have dfd: "segwit_v0_sighash (SighashCache_new ?j) k (ji_witness_script i) (ji_value i) All = Some (sh k i)" if "k < length ?ins" for k i
  proof -
    have "segwit_v0_sighash (SighashCache_new ?j) k (ji_witness_script i) (ji_value i) All \<noteq> None"
      using that in_j by (simp add: segwit_v0_sighash_def sighash_preimage_def SighashCache_new_def Let_def)
    then show ?thesis by (auto simp: sh_def)
  qed
  have "justice_witness E signer secret (SighashCache_new ?j) ki = Some (w ki)" if "ki \<in> set (enumerate 0 ?ins)" for ki
    using that dfd by (auto simp: justice_witness_def w_def in_set_enumerate_eq split: prod.split)
  then have those: "those (map (justice_witness E signer secret (SighashCache_new ?j)) (enumerate 0 ?ins)) = Some (map w (enumerate 0 ?ins))"
    by (rule those_map_Some)
  let ?ws = "map w (enumerate 0 ?ins)"
  have len: "length ?ws = length (tx_input ?j)" by (simp add: in_j)
  let ?J = "with_witnesses ?j ?ws"
  have "punish_revoked E m signer tx n destination feerate = Some [Claim ?J None ''justice (revoked commitment punished)'']"
    using ne those by (simp add: punish_revoked_def secret keys [symmetric] Let_def)
  moreover have "map previous_output (tx_input ?J) = map (\<lambda>i. \<lparr>op_txid = tx_txid tx, op_vout = ji_vout i\<rparr>) ?ins"
    using map_with_witnesses [OF len, of previous_output] by (simp add: in_j)
  moreover have "input_signed E ?J (revocation_key keys) k (?ins ! k)" if k: "k < length ?ins" for k
  proof -
    let ?sig = "sign_revocation E signer (sh k (?ins ! k)) secret"
    have "witness (tx_input ?J ! k) = [sig_with_sighash_all E ?sig, ji_control (?ins ! k), ji_witness_script (?ins ! k)]"
      using k by (simp add: with_witnesses_def in_j w_def nth_enumerate_eq)
    moreover have "segwit_v0_sighash (SighashCache_new ?J) k (ji_witness_script (?ins ! k)) (ji_value (?ins ! k)) All = Some (sh k (?ins ! k))"
      using with_witnesses_same(2) [OF len] dfd [OF k] by simp
    moreover have "verify_ecdsa E (sh k (?ins ! k)) ?sig (revocation_key keys)"
      using laws(2) revocation_key_secret [OF laws(1) key, of secret "cm_counterparty_pubkeys m"]
      unfolding sign_laws_def sign_revocation_def keys Let_def by metis
    ultimately show ?thesis unfolding input_signed_def by blast
  qed
  ultimately show ?thesis using that by blast
qed

section \<open>What a channel and its monitor share\<close>

definition terms where
  "terms c = (ch_signer c, ch_counterparty_pubkeys c, ch_holder_pubkeys c, ch_params c, ch_obscure_factor c, ch_funding_outpoint c)"

lemma terms_simps:
  "terms (c\<lparr>ch_state := st\<rparr>) = terms c" "terms (c\<lparr>ch_htlcs := hs\<rparr>) = terms c" "terms (c\<lparr>ch_last_closing_fee_proposal := fp\<rparr>) = terms c"
  by (simp_all add: terms_def)

lemma terms_handshake:
  assumes "\<not> early c"
  shows "terms (snd (on_accept_channel am c)) = terms c" "terms (snd (funding_created E txid vout c)) = terms c"
    "terms (snd (on_funding_created E fm c)) = terms c" "terms (snd (on_funding_signed E fs c)) = terms c"
    "terms (snd (funding_confirmed E scid c)) = terms c" "terms (snd (on_channel_ready cr c)) = terms c"
  using assms by (auto simp: on_accept_channel_def funding_created_def on_funding_created_def on_funding_signed_def funding_confirmed_def
      on_channel_ready_def maybe_become_normal_def early_def terms_def try_in_def Let_def split: sum.splits)

lemma terms_updates:
  "terms (snd (send_add_htlc a ph cltv onion src c)) = terms c" "terms (snd (send_fulfill_htlc i p c)) = terms c"
  "terms (snd (send_fail_htlc i re c)) = terms c" "terms (snd (send_fail_malformed_htlc i sha code c)) = terms c"
  "terms (snd (send_update_fee fr c)) = terms c"
  "terms (snd (on_update_add_htlc um c)) = terms c" "terms (snd (on_update_fulfill_htlc ufm c)) = terms c"
  "terms (snd (on_update_fail_htlc xm c)) = terms c" "terms (snd (on_update_fail_malformed_htlc mm c)) = terms c"
  "terms (snd (on_update_fee fem c)) = terms c"
  by (auto simp: send_add_htlc_def send_fulfill_htlc_def send_fail_htlc_def send_fail_malformed_htlc_def send_update_fee_def
      resolve_inbound_def on_update_add_htlc_def on_update_fulfill_htlc_def on_update_fail_htlc_def on_update_fail_malformed_htlc_def
      on_update_fee_def resolve_outbound_def try_in_def Let_def case_prod_beta terms_def split: sum.splits)

lemma terms_sign: "terms (snd (send_commitment_signed E c)) = terms c"
  using send_commitment_state [of E c] by (auto simp: signed_def terms_def)

lemma terms_commit: "terms (snd (on_commitment_signed E csm c)) = terms c"
proof -
  have "terms (lock_in d) = terms d" for d
    by (cases "ch_pending_fee_ack d") (auto simp: lock_in_def Let_def terms_def gc_htlcs_fold)
  then show ?thesis
    by (simp add: on_commitment_signed_def try_in_def Let_def split: sum.split prod.split) (simp add: terms_def)
qed

lemma terms_flush: "terms (snd (flush_holding_cell E c)) = terms c"
proof -
  have op1: "terms (snd (flush_op cell_op out d)) = terms d" for cell_op out d
    by (cases cell_op) (simp_all add: flush_op_state terms_updates)
  have ops: "terms (snd (flush_ops ops out d)) = terms d" for ops out d
    using op1 by (induction ops arbitrary: out d) (auto split: prod.splits sum.splits, metis snd_conv, metis snd_conv)
  let ?d = "(snd (collect_forwardable c))\<lparr>ch_holding_cell := []\<rparr>"
  obtain r e where fl: "flush_ops (ch_holding_cell c) (RaaOutcome_default\<lparr>ro_forwardable := fst (collect_forwardable c)\<rparr>) ?d = (r, e)"
    by (cases "flush_ops (ch_holding_cell c) (RaaOutcome_default\<lparr>ro_forwardable := fst (collect_forwardable c)\<rparr>) ?d")
  have "terms e = terms c"
    using ops [of "ch_holding_cell c" "RaaOutcome_default\<lparr>ro_forwardable := fst (collect_forwardable c)\<rparr>" ?d]
    by (simp add: fl) (simp add: collect_forwardable_def terms_def)
  moreover have "snd (flush_holding_cell E c) = e \<or> snd (flush_holding_cell E c) = snd (send_commitment_signed E e)"
    using fl by (auto simp: flush_holding_cell_def Let_def case_prod_beta collect_forwardable_def split: sum.splits prod.splits)
  ultimately show ?thesis using terms_sign [of E e] by auto
qed

lemma terms_revoke: "terms (snd (on_revoke_and_ack E rm c)) = terms c"
proof -
  have app: "terms (apply_revocation p msg d) = terms d" for p msg d
    by (simp add: apply_revocation_def Let_def terms_def gc_htlcs_fold split: option.split)
  show ?thesis by (auto simp: on_revoke_and_ack_def Let_def terms_flush app split: option.split sum.split) (simp_all add: terms_def)
qed

lemma terms_closing:
  "terms (snd (send_shutdown script c)) = terms c" "terms (snd (on_shutdown sm script c)) = terms c"
  "terms (snd (maybe_send_closing_signed E fr c)) = terms c" "terms (snd (on_closing_signed E cm fr c)) = terms c"
proof -
  have sh: "terms (snd (send_shutdown script d)) = terms d" for d by (auto simp: send_shutdown_def terms_def Let_def)
  show "terms (snd (send_shutdown script c)) = terms c" by (rule sh)
  let ?d = "c\<lparr>ch_counterparty_shutdown_script := Some (sd_scriptpubkey sm), ch_shutdown_received := True\<rparr>"
  let ?e = "if ch_state c = Normal \<or> ch_state c = AwaitingChannelReady then ?d\<lparr>ch_state := ShuttingDown\<rparr> else ?d"
  have "snd (on_shutdown sm script c) = c \<or> snd (on_shutdown sm script c) = ?e
      \<or> snd (on_shutdown sm script c) = snd (send_shutdown script ?e)"
    by (auto simp: on_shutdown_def Let_def split: prod.splits sum.splits)
  moreover have "terms ?e = terms c" by (simp add: terms_def)
  moreover have "terms (snd (send_shutdown script ?e)) = terms ?e" by (rule sh)
  ultimately show "terms (snd (on_shutdown sm script c)) = terms c" by (elim disjE) (simp_all only:)
  show "terms (snd (maybe_send_closing_signed E fr c)) = terms c"
    by (auto simp: maybe_send_closing_signed_def try_in_def terms_def split: sum.splits)
  have fin: "terms d' = terms d" if "finalize_closing E fee sig d = (r, d')" for fee sig d r d'
    using that by (auto simp: finalize_closing_def try_in_def terms_def Let_def split: sum.splits if_splits)
  have reply: "terms (snd (finalize_and_reply E fee sig bounds upd d)) = terms d" if "\<And>x. terms (upd x) = terms x" for fee sig bounds upd d
    using that fin [OF prod.collapse [symmetric]]
    by (auto simp: finalize_and_reply_def try_in_def split: sum.splits prod.splits) (metis fin)+
  have fdone: "terms (snd (finalize_done E fee sig d)) = terms d" for fee sig d
    by (auto simp: finalize_done_def split: prod.splits sum.splits dest: fin)
  have fp: "terms (d\<lparr>ch_last_closing_fee_proposal := fp\<rparr>) = terms d" for d fp by (simp add: terms_def)
  have range: "terms (snd (closing_range_path E msg rng ours d)) = terms d" for msg rng ours d
    by (simp add: closing_range_path_def try_in_def Let_def reply fdone fp split: prod.split sum.split option.split)
  have legacy: "terms (snd (closing_legacy_path E msg fee d)) = terms d" for msg fee d
    by (simp add: closing_legacy_path_def try_in_def Let_def reply fp split: sum.split prod.split)
  show "terms (snd (on_closing_signed E cm fr c)) = terms c"
    by (simp add: on_closing_signed_def try_in_def Let_def fdone range legacy split: sum.split option.split prod.split) (simp add: terms_def)
qed

lemma step_terms:
  assumes "channel_step E c c'" "\<not> early c"
  shows "terms c' = terms c"
  using assms(1)
  by cases (simp_all add: terms_handshake [OF assms(2)] terms_updates terms_sign terms_commit terms_revoke terms_closing)



lemma step_late:
  assumes "channel_step E c c'" "\<not> early c"
  shows "\<not> early c'"
proof -
  have calm: "\<not> early d" if "calm c d" for d using that assms(2) by (auto simp: calm_def early_def)
  have handshake: "\<not> early (snd (on_accept_channel am c))" "\<not> early (snd (funding_created E txid vout c))"
    "\<not> early (snd (on_funding_created E fm c))" "\<not> early (snd (on_funding_signed E fs c))"
    "\<not> early (snd (on_channel_ready cr c))" for am txid vout fm fs cr
    using assms(2) by (auto simp: on_accept_channel_def funding_created_def on_funding_created_def on_funding_signed_def
        on_channel_ready_def maybe_become_normal_def early_def try_in_def Let_def split: sum.splits)
  have kept: "\<not> early d" if "ch_state d = ch_state c" for d using that assms(2) by (simp add: early_def)
  show ?thesis using assms(1)
    by cases (simp_all add: handshake calm sess_confirmed calm_updates_sent calm_updates_received calm_closing calm_on_shutdown
        calm_send_shutdown [OF prod.collapse [symmetric]] kept [OF state_sign] kept [OF state_commit] kept [OF state_revoke])
qed

lemma steps_terms:
  assumes "steps E c c'" "\<not> early c"
  shows "terms c' = terms c"
proof -
  have "(\<lambda>c c'. in_range c \<and> channel_step E c c')\<^sup>*\<^sup>* c c'" using assms(1) by (simp add: steps_def)
  then have "terms c' = terms c \<and> \<not> early c'"
    by induction (use assms(2) step_terms step_late in auto)
  then show ?thesis ..
qed

lemma reachable_obscure: "reachable E c \<Longrightarrow> unat (ch_obscure_factor c) < 2 ^ 48"
proof (induction rule: reachable.induct)
  case (opened signer config network tid funding push fr c om)
  then show ?case by (auto simp: new_outbound_def Let_def rbind_def fresh_channel_def split: if_splits sum.splits)
next
  case (accepted signer config network om c am)
  then show ?case
    using obscure_factor_bound by (auto simp: new_inbound_def Let_def rbind_def close_err_def fresh_channel_def split: if_splits sum.splits)
next
  case (step c c')
  have sel: "ch_obscure_factor d = fst (snd (snd (snd (snd (terms d)))))" for d by (simp add: terms_def)
  have "unat (ch_obscure_factor (snd (on_accept_channel am c))) < 2 ^ 48" "unat (ch_obscure_factor (snd (funding_created E txid vout c))) < 2 ^ 48"
    "unat (ch_obscure_factor (snd (on_funding_created E fm c))) < 2 ^ 48" "unat (ch_obscure_factor (snd (on_funding_signed E fs c))) < 2 ^ 48"
    "unat (ch_obscure_factor (snd (funding_confirmed E scid c))) < 2 ^ 48" "unat (ch_obscure_factor (snd (on_channel_ready cr c))) < 2 ^ 48"
    for am txid vout fm fs scid cr
    using step.IH obscure_factor_bound by (auto simp: on_accept_channel_def funding_created_def on_funding_created_def on_funding_signed_def
        funding_confirmed_def on_channel_ready_def maybe_become_normal_def try_in_def Let_def split: sum.splits)
  from step(3) this step.IH show ?case
    unfolding sel by cases (simp_all add: terms_updates terms_sign terms_commit terms_revoke terms_closing)
qed

section \<open>Cheating does not pay\<close>

lemma outputs_paying_spends:
  assumes "v < length (tx_output tx)" "script_pubkey (tx_output tx ! v) = new_p2wsh script"
  shows "of_nat v \<in> ji_vout ` set (outputs_paying script control tx)"
  using assms by (force simp: outputs_paying_def in_set_enumerate_eq)

lemma justice_covers:
  assumes "v < length (tx_output tx)"
    and "script_pubkey (tx_output tx ! v) \<in> new_p2wsh ` set (revocable_delayed (revocation_key keys) (cm_holder_selected_delay m)
      (broadcaster_delayed_payment_key keys) # htlc_scripts m keys)"
  shows "of_nat v \<in> ji_vout ` set (justice_inputs m keys tx)"
proof -
  obtain script where s: "script_pubkey (tx_output tx ! v) = new_p2wsh script"
    "script \<in> set (revocable_delayed (revocation_key keys) (cm_holder_selected_delay m) (broadcaster_delayed_payment_key keys) # htlc_scripts m keys)"
    using assms(2) by blast
  show ?thesis
    using s(2) outputs_paying_spends [OF assms(1) s(1), of "[1]"] outputs_paying_spends [OF assms(1) s(1), of "revocation_key keys"]
    by (auto simp: justice_inputs_def Let_def image_Un)
qed

lemma to_local_output:
  assumes "cp_broadcaster_dust_limit_sat p \<le> to_broadcaster_sat p"
  obtains v where "v < length (tx_output (bct_tx (build_commitment_tx p)))"
    "tx_output (bct_tx (build_commitment_tx p)) ! v = \<lparr>txo_value = to_broadcaster_sat p,
       script_pubkey = new_p2wsh (revocable_delayed (revocation_key (cp_keys p)) (cp_to_self_delay p) (broadcaster_delayed_payment_key (cp_keys p)))\<rparr>"
proof -
  let ?o = "\<lparr>txo_value = to_broadcaster_sat p,
       script_pubkey = new_p2wsh (revocable_delayed (revocation_key (cp_keys p)) (cp_to_self_delay p) (broadcaster_delayed_payment_key (cp_keys p)))\<rparr>"
  have "(?o, 0, Broadcaster) \<in> set (staged_outputs p)" using assms by (simp add: staged_outputs_def)
  then have "(?o, 0, Broadcaster) \<in> set (sorted_outputs p)" using sorted_outputs_mset [of p] by (metis mset_eq_setD)
  then have "?o \<in> set (tx_output (bct_tx (build_commitment_tx p)))" by (force simp: built_outputs)
  then show ?thesis using that by (metis in_set_conv_nth)
qed

text \<open>Some commitment of the counterparty that the channel has signed for the per-commitment point \<open>point\<close>: any balances, HTLCs
  and feerate.\<close>

definition their_commitment ::
  "EC \<Rightarrow> Channel \<Rightarrow> PublicKey \<Rightarrow> ChannelPublicKeys \<Rightarrow> OutPoint \<Rightarrow> Msat \<times> Msat \<Rightarrow> HtlcOutputInCommitment list \<Rightarrow> u32 \<Rightarrow> CommitmentTxParams" where
  "their_commitment E c point cp outpoint balances hs fr =
     (counterparty_params E c (ch_counterparty_commitment_number c) point cp outpoint)
       \<lparr>cp_to_broadcaster_msat := fst balances, cp_to_countersignatory_msat := snd balances, cp_htlcs := hs, cp_feerate := fr\<rparr>"

text \<open>\<open>tx\<close> is one of the two commitments the monitor has on record as current.\<close>

definition is_current :: "ChannelMonitor \<Rightarrow> Transaction \<Rightarrow> bool" where
  "is_current m tx \<longleftrightarrow>
     (case cm_holder_commitment m of None \<Rightarrow> False | Some hc \<Rightarrow> bct_txid (hc_built hc) = tx_txid tx)
     \<or> (case cm_counterparty_current m of None \<Rightarrow> False | Some cp \<Rightarrow> cd_txid cp = tx_txid tx)"


lemma toy_sign_laws: "sign_laws toy_ec"
  by (simp add: sign_laws_def toy_ec_def)

lemma sample_accepted_keys:
  "ch_holder_pubkeys sample_accepted = signer_pubkeys sample_signer" "ch_signer sample_accepted = sample_signer"
  "counterparty_dust_limit_sat (ch_params sample_accepted) = 546"
  by (simp_all add: sample_accepted_def on_accept_channel_def sample_open_def sample_accept_def fresh_channel_def outbound_params_def
      MAX_HTLCS_PER_SIDE_def sample_config_def ChannelConfig_default_def Let_def)

lemma sample_ready_keys:
  "revocation_basepoint (ch_holder_pubkeys sample_ready) = sk_public_key toy_ec (revocation_base_key (ch_signer sample_ready))"
proof -
  have "ch_holder_pubkeys sample_ready = ch_holder_pubkeys sample_accepted \<and> ch_signer sample_ready = ch_signer sample_accepted"
    using sample_ready_eq by (elim exE) (erule ssubst, simp)
  then have "ch_holder_pubkeys sample_ready = signer_pubkeys sample_signer \<and> ch_signer sample_ready = sample_signer"
    by (simp add: sample_accepted_keys)
  then show ?thesis by (simp add: sample_signer_def signer_new_def)
qed


section \<open>HTLCs that share a payment hash\<close>

lemma outputs_paying_swap: "map ji_vout (outputs_paying script a tx) = map ji_vout (outputs_paying script b tx)"
  by (simp add: outputs_paying_def case_prod_beta o_def)


definition twin_htlc :: HtlcOutputInCommitment where
  "twin_htlc = \<lparr>offered = True, h_amount_msat = 5000000, h_cltv_expiry = 500, h_payment_hash = [9]\<rparr>"

definition twin_tx :: "TxCreationKeys \<Rightarrow> Transaction" where
  "twin_tx keys = \<lparr>tx_version = 2, lock_time = 0, tx_input = [],
     tx_output = [\<lparr>txo_value = 5000, script_pubkey = new_p2wsh (htlc_witness_script keys twin_htlc)\<rparr>]\<rparr>"


end
