(* ===== verification/Persist.thy ===== *)
theory Persist
  imports Monitor
begin

text \<open>
  \<^verbatim>\<open>src/src/chain/persist.rs\<close>: the encoding of a channel monitor. A writer is a function to bytes, a reader returns
  the value and the remaining input. The preimages are written in the order of the association list that stands for the
  \<^verbatim>\<open>HashMap\<close>. What is written reads back as the same monitor.
\<close>

section \<open>Readers and writers\<close>

definition VERSION :: u8 where "VERSION = 1"

definition pr_u16 :: "u16 breader" where
  "pr_u16 = pbind (br_array 2) (\<lambda>b. pret (from_be_bytes b))"

definition pr_u32 :: "u32 breader" where
  "pr_u32 = pbind (br_array 4) (\<lambda>b. pret (from_be_bytes b))"

definition pr_u64 :: "u64 breader" where
  "pr_u64 = pbind (br_array 8) (\<lambda>b. pret (from_be_bytes b))"

definition pr_pubkey :: "EC \<Rightarrow> PublicKey breader" where
  "pr_pubkey E = pbind (br_array 33) (\<lambda>b.
     if pubkey_from_slice_ok E b then pret b else pfail (BadTxFormat ''invalid public key''))"

definition pr_sig :: "EC \<Rightarrow> Signature breader" where
  "pr_sig E = pbind (br_array 64) (\<lambda>b.
     if signature_from_compact_ok E b then pret b else pfail (BadTxFormat ''invalid signature''))"

definition pw_opt :: "('a \<Rightarrow> bytes) \<Rightarrow> 'a option \<Rightarrow> bytes" where
  "pw_opt f v = (case v of None \<Rightarrow> [0] | Some x \<Rightarrow> 1 # f x)"

definition pr_opt :: "'a breader \<Rightarrow> 'a option breader" where
  "pr_opt f = pbind br_u8 (\<lambda>tag.
     if tag = 0 then pret None
     else if tag = 1 then pbind f (\<lambda>x. pret (Some x))
     else pfail (BadTxFormat ''invalid option tag''))"

definition pw_var_bytes :: "bytes \<Rightarrow> bytes" where
  "pw_var_bytes b = to_be_bytes (of_nat (length b) :: u16) @ b"

definition pr_var_bytes :: "bytes breader" where
  "pr_var_bytes = pbind pr_u16 (\<lambda>len. br_take (unat len))"

text \<open>A 16-bit count and then the elements.\<close>

definition pw_list :: "('a \<Rightarrow> bytes) \<Rightarrow> 'a list \<Rightarrow> bytes" where
  "pw_list f xs = to_be_bytes (of_nat (length xs) :: u16) @ concat (map f xs)"

definition pr_list :: "'a breader \<Rightarrow> 'a list breader" where
  "pr_list f = pbind pr_u16 (\<lambda>n. preplicate (unat n) f)"

section \<open>Components\<close>

definition write_pubkeys :: "ChannelPublicKeys \<Rightarrow> bytes" where
  "write_pubkeys pk = funding_pubkey pk @ revocation_basepoint pk @ payment_basepoint pk @ delayed_payment_basepoint pk @ htlc_basepoint pk"

definition read_pubkeys :: "EC \<Rightarrow> ChannelPublicKeys breader" where
  "read_pubkeys E =
     pbind (pr_pubkey E) (\<lambda>a. pbind (pr_pubkey E) (\<lambda>b. pbind (pr_pubkey E) (\<lambda>c. pbind (pr_pubkey E) (\<lambda>d. pbind (pr_pubkey E) (\<lambda>e.
       pret \<lparr>funding_pubkey = a, revocation_basepoint = b, payment_basepoint = c, delayed_payment_basepoint = d, htlc_basepoint = e\<rparr>)))))"

definition write_htlc :: "HtlcOutputInCommitment \<Rightarrow> bytes" where
  "write_htlc h = (if offered h then 1 else 0) # to_be_bytes (h_amount_msat h) @ to_be_bytes (h_cltv_expiry h) @ h_payment_hash h"

definition read_htlc :: "HtlcOutputInCommitment breader" where
  "read_htlc =
     pbind br_u8 (\<lambda>tag. pbind pr_u64 (\<lambda>amount. pbind pr_u32 (\<lambda>cltv. pbind (br_array 32) (\<lambda>ph.
       pret \<lparr>offered = (tag = 1), h_amount_msat = amount, h_cltv_expiry = cltv, h_payment_hash = ph\<rparr>))))"

definition write_secret :: "u64 \<times> bytes \<Rightarrow> bytes" where
  "write_secret e = to_be_bytes (fst e) @ snd e"

definition read_secret :: "(u64 \<times> bytes) breader" where
  "read_secret = pbind pr_u64 (\<lambda>i. pbind (br_array 32) (\<lambda>s. pret (i, s)))"

definition write_htlc_vout :: "HtlcOutputInCommitment \<times> u32 option \<Rightarrow> bytes" where
  "write_htlc_vout hv = write_htlc (fst hv) @ pw_opt to_be_bytes (snd hv)"

definition read_htlc_vout :: "(HtlcOutputInCommitment \<times> u32 option) breader" where
  "read_htlc_vout = pbind read_htlc (\<lambda>h. pbind (pr_opt pr_u32) (\<lambda>vout. pret (h, vout)))"

definition write_counterparty :: "CounterpartyCommitmentData \<Rightarrow> bytes" where
  "write_counterparty cp =
     to_be_bytes (cd_number cp) @ cd_txid cp @ cd_per_commitment_point cp @ pw_list write_htlc_vout (cd_htlcs cp)"

definition read_counterparty :: "EC \<Rightarrow> CounterpartyCommitmentData breader" where
  "read_counterparty E =
     pbind pr_u64 (\<lambda>number. pbind (br_array 32) (\<lambda>txid. pbind (pr_pubkey E) (\<lambda>point. pbind (pr_list read_htlc_vout) (\<lambda>hs.
       pret \<lparr>cd_number = number, cd_txid = txid, cd_per_commitment_point = point, cd_htlcs = hs\<rparr>))))"

text \<open>The script of one HTLC output with the index of the HTLC, which is written as 16 bits.\<close>

definition write_order :: "nat \<times> Script \<Rightarrow> bytes" where
  "write_order e = to_be_bytes (of_nat (fst e) :: u16) @ pw_var_bytes (snd e)"

definition read_order :: "(nat \<times> Script) breader" where
  "read_order = pbind pr_u16 (\<lambda>i. pbind pr_var_bytes (\<lambda>s. pret (unat i, s)))"

definition write_keys :: "TxCreationKeys \<Rightarrow> bytes" where
  "write_keys k = per_commitment_point k @ revocation_key k @ broadcaster_htlc_key k @ countersignatory_htlc_key k
     @ broadcaster_delayed_payment_key k"

definition read_keys :: "EC \<Rightarrow> TxCreationKeys breader" where
  "read_keys E =
     pbind (pr_pubkey E) (\<lambda>a. pbind (pr_pubkey E) (\<lambda>b. pbind (pr_pubkey E) (\<lambda>c. pbind (pr_pubkey E) (\<lambda>d. pbind (pr_pubkey E) (\<lambda>e.
       pret \<lparr>per_commitment_point = a, revocation_key = b, broadcaster_htlc_key = c, countersignatory_htlc_key = d,
             broadcaster_delayed_payment_key = e\<rparr>)))))"

definition write_holder :: "HolderCommitment \<Rightarrow> bytes" where
  "write_holder hc =
     to_be_bytes (hc_number hc) @ pw_var_bytes (serialize (bct_tx (hc_built hc))) @ to_be_bytes (fee_sat (hc_built hc))
     @ pw_list (pw_opt to_be_bytes) (htlc_output_indices (hc_built hc)) @ pw_list write_order (htlcs_in_output_order (hc_built hc))
     @ pw_opt to_be_bytes (to_broadcaster_index (hc_built hc)) @ pw_opt to_be_bytes (to_countersignatory_index (hc_built hc))
     @ hc_counterparty_sig hc @ pw_list (\<lambda>s. s) (hc_counterparty_htlc_sigs hc) @ pw_list write_htlc (hc_htlcs hc)
     @ write_keys (hc_keys hc) @ to_be_bytes (hc_feerate hc)"

definition read_tx :: "Transaction breader" where
  "read_tx = pbind pr_var_bytes (\<lambda>b.
     case tx_deserialize b of Inl _ \<Rightarrow> pfail (BadTxFormat ''invalid holder commitment tx'') | Inr tx \<Rightarrow> pret tx)"

definition read_holder :: "EC \<Rightarrow> HolderCommitment breader" where
  "read_holder E =
     pbind pr_u64 (\<lambda>number. pbind read_tx (\<lambda>tx. pbind pr_u64 (\<lambda>fee.
     pbind (pr_list (pr_opt pr_u32)) (\<lambda>indices. pbind (pr_list read_order) (\<lambda>order.
     pbind (pr_opt pr_u32) (\<lambda>to_b. pbind (pr_opt pr_u32) (\<lambda>to_c.
     pbind (pr_sig E) (\<lambda>sig. pbind (pr_list (pr_sig E)) (\<lambda>htlc_sigs. pbind (pr_list read_htlc) (\<lambda>hs.
     pbind (read_keys E) (\<lambda>keys. pbind pr_u32 (\<lambda>feerate.
       pret \<lparr>hc_number = number,
         hc_built = \<lparr>bct_tx = tx, bct_txid = tx_txid tx, fee_sat = fee, htlc_output_indices = indices, htlcs_in_output_order = order,
           to_broadcaster_index = to_b, to_countersignatory_index = to_c\<rparr>,
         hc_counterparty_sig = sig, hc_counterparty_htlc_sigs = htlc_sigs, hc_htlcs = hs, hc_keys = keys, hc_feerate = feerate\<rparr>))))))))))))"

section \<open>The monitor\<close>

definition monitor_serialize :: "ChannelMonitor \<Rightarrow> bytes" where
  "monitor_serialize m =
     VERSION # op_txid (cm_funding_outpoint m) @ to_be_bytes (op_vout (cm_funding_outpoint m)) @ to_be_bytes (cm_capacity_sat m)
     @ to_be_bytes (cm_obscure_factor m) @ write_pubkeys (cm_holder_pubkeys m) @ write_pubkeys (cm_counterparty_pubkeys m)
     @ to_be_bytes (cm_holder_selected_delay m) @ to_be_bytes (cm_counterparty_selected_delay m)
     @ pw_list write_secret (entries (cm_counterparty_secrets m)) @ pw_opt write_counterparty (cm_counterparty_current m)
     @ pw_opt write_holder (cm_holder_commitment m) @ to_be_bytes (cm_holder_commitment_feerate m)
     @ pw_list (\<lambda>p. p) (map snd (cm_preimages m))"

definition monitor_read :: "EC \<Rightarrow> ChannelMonitor breader" where
  "monitor_read E =
     pbind br_u8 (\<lambda>version. if version \<noteq> VERSION then pfail (BadTxFormat ''unknown monitor version'') else
     pbind (br_array 32) (\<lambda>txid. pbind pr_u32 (\<lambda>vout. pbind pr_u64 (\<lambda>capacity. pbind pr_u64 (\<lambda>factor.
     pbind (read_pubkeys E) (\<lambda>holder. pbind (read_pubkeys E) (\<lambda>their.
     pbind pr_u16 (\<lambda>delay. pbind pr_u16 (\<lambda>their_delay. pbind (pr_list read_secret) (\<lambda>es.
     pbind (pr_opt (read_counterparty E)) (\<lambda>current. pbind (pr_opt (read_holder E)) (\<lambda>hc.
     pbind pr_u32 (\<lambda>feerate. pbind (pr_list (br_array 32)) (\<lambda>ps.
       pret \<lparr>cm_funding_outpoint = \<lparr>op_txid = txid, op_vout = vout\<rparr>, cm_capacity_sat = capacity, cm_obscure_factor = factor,
         cm_holder_pubkeys = holder, cm_counterparty_pubkeys = their, cm_holder_selected_delay = delay,
         cm_counterparty_selected_delay = their_delay, cm_counterparty_secrets = from_entries es, cm_counterparty_current = current,
         cm_holder_commitment = hc, cm_holder_commitment_feerate = feerate,
         cm_preimages = foldl (\<lambda>ps p. AList.update (payment_hash p) p ps) [] ps\<rparr>))))))))))))))"

definition monitor_deserialize :: "EC \<Rightarrow> bytes \<Rightarrow> (DecodeError, ChannelMonitor) result" where
  "monitor_deserialize E data =
     rbind (monitor_read E data) (\<lambda>(m, rest). if rest \<noteq> [] then Inl (BadTxFormat ''trailing bytes in monitor'') else Inr m)"

section \<open>Interface: a value that can be stored\<close>

text \<open>Whatever can be written and read back can be stored behind an option tag and in a counted list.\<close>

lemma pr_words [simp, reader_simps]:
  "pr_u16 (to_be_bytes a @ r) = Inr (a, r)" "pr_u32 (to_be_bytes b @ r) = Inr (b, r)" "pr_u64 (to_be_bytes c @ r) = Inr (c, r)"
  by (simp_all add: pr_u16_def pr_u32_def pr_u64_def br_array_def reader_simps)

lemma u16_count: "n < 65536 \<Longrightarrow> unat (of_nat n :: u16) = n"
  by (simp add: unat_of_nat)

locale stored = codec enc dec wf
  for enc :: "'a \<Rightarrow> bytes" and dec :: "'a breader" and wf :: "'a \<Rightarrow> bool"

sublocale stored \<subseteq> opt: codec "pw_opt enc" "pr_opt dec" "pred_option wf"
proof unfold_locales
  fix x :: "'a option" and rest
  assume "pred_option wf x"
  then show "pr_opt dec (pw_opt enc x @ rest) = Inr (x, rest)"
    by (cases x) (simp_all add: pr_opt_def pw_opt_def reader_simps dec_enc)
qed

sublocale stored \<subseteq> many: codec "pw_list enc" "pr_list dec" "\<lambda>xs. length xs < 65536 \<and> list_all wf xs"
proof unfold_locales
  fix xs :: "'a list" and rest
  assume "length xs < 65536 \<and> list_all wf xs"
  then show "pr_list dec (pw_list enc xs @ rest) = Inr (xs, rest)"
    by (simp add: pr_list_def pw_list_def pbind_apply u16_count dec_list)
qed

section \<open>Everything stored reads back\<close>

definition key_ok :: "EC \<Rightarrow> PublicKey \<Rightarrow> bool" where
  "key_ok E k \<longleftrightarrow> length k = 33 \<and> pubkey_from_slice_ok E k"

definition sig_ok :: "EC \<Rightarrow> Signature \<Rightarrow> bool" where
  "sig_ok E s \<longleftrightarrow> length s = 64 \<and> signature_from_compact_ok E s"

definition pubkeys_ok :: "EC \<Rightarrow> ChannelPublicKeys \<Rightarrow> bool" where
  "pubkeys_ok E pk \<longleftrightarrow> key_ok E (funding_pubkey pk) \<and> key_ok E (revocation_basepoint pk) \<and> key_ok E (payment_basepoint pk)
     \<and> key_ok E (delayed_payment_basepoint pk) \<and> key_ok E (htlc_basepoint pk)"

definition keys_ok :: "EC \<Rightarrow> TxCreationKeys \<Rightarrow> bool" where
  "keys_ok E k \<longleftrightarrow> key_ok E (per_commitment_point k) \<and> key_ok E (revocation_key k) \<and> key_ok E (broadcaster_htlc_key k)
     \<and> key_ok E (countersignatory_htlc_key k) \<and> key_ok E (broadcaster_delayed_payment_key k)"

abbreviation hash_ok :: "bytes \<Rightarrow> bool" where
  "hash_ok h \<equiv> length h = 32"

definition counterparty_ok :: "EC \<Rightarrow> CounterpartyCommitmentData \<Rightarrow> bool" where
  "counterparty_ok E cp \<longleftrightarrow> hash_ok (cd_txid cp) \<and> key_ok E (cd_per_commitment_point cp)
     \<and> length (cd_htlcs cp) < 65536 \<and> list_all (\<lambda>(h, _). hash_ok (h_payment_hash h)) (cd_htlcs cp)"

definition holder_ok :: "EC \<Rightarrow> HolderCommitment \<Rightarrow> bool" where
  "holder_ok E hc \<longleftrightarrow>
     tx_wf (bct_tx (hc_built hc)) \<and> length (serialize (bct_tx (hc_built hc))) < 65536 \<and> bct_txid (hc_built hc) = tx_txid (bct_tx (hc_built hc))
     \<and> length (htlc_output_indices (hc_built hc)) < 65536 \<and> length (htlcs_in_output_order (hc_built hc)) < 65536
     \<and> list_all (\<lambda>(i, s). i < 65536 \<and> length s < 65536) (htlcs_in_output_order (hc_built hc))
     \<and> sig_ok E (hc_counterparty_sig hc) \<and> length (hc_counterparty_htlc_sigs hc) < 65536 \<and> list_all (sig_ok E) (hc_counterparty_htlc_sigs hc)
     \<and> length (hc_htlcs hc) < 65536 \<and> list_all (\<lambda>h. hash_ok (h_payment_hash h)) (hc_htlcs hc) \<and> keys_ok E (hc_keys hc)"

lemma pr_pubkey_ok [simp]: "key_ok E k \<Longrightarrow> pr_pubkey E (k @ r) = Inr (k, r)"
  by (simp add: key_ok_def pr_pubkey_def br_array_def reader_simps)

lemma var_bytes_ok [simp]: "length b < 65536 \<Longrightarrow> pr_var_bytes (pw_var_bytes b @ r) = Inr (b, r)"
  by (simp add: pr_var_bytes_def pw_var_bytes_def pbind_apply u16_count)

interpretation pwords: stored "to_be_bytes :: u32 \<Rightarrow> bytes" pr_u32 "\<lambda>_. True"
  by unfold_locales simp

lemma vout_ok [simp]: "pr_opt pr_u32 (pw_opt to_be_bytes x @ r) = Inr (x, r)"
  by (rule pwords.opt.dec_enc) (simp add: option.pred_True)

interpretation phash: stored "\<lambda>h. h" "br_array 32" hash_ok
  by unfold_locales (simp add: br_array_def)

interpretation psig: stored "\<lambda>s. s" "pr_sig E" "sig_ok E" for E
  by unfold_locales (simp add: pr_sig_def sig_ok_def br_array_def reader_simps)

interpretation ppubkeys: stored write_pubkeys "read_pubkeys E" "pubkeys_ok E" for E
  by unfold_locales (simp add: write_pubkeys_def read_pubkeys_def pubkeys_ok_def reader_simps)

interpretation pkeys: stored write_keys "read_keys E" "keys_ok E" for E
  by unfold_locales (simp add: write_keys_def read_keys_def keys_ok_def reader_simps)

interpretation phtlc: stored write_htlc read_htlc "\<lambda>h. hash_ok (h_payment_hash h)"
  by unfold_locales (simp add: write_htlc_def read_htlc_def br_array_def reader_simps)

interpretation psecret: stored write_secret read_secret "\<lambda>e. hash_ok (snd e)"
  by unfold_locales (simp add: write_secret_def read_secret_def br_array_def reader_simps)

interpretation pvout: stored write_htlc_vout read_htlc_vout "\<lambda>(h, _). hash_ok (h_payment_hash h)"
  by unfold_locales (auto simp: write_htlc_vout_def read_htlc_vout_def reader_simps phtlc.dec_enc)

interpretation porder: stored write_order read_order "\<lambda>(i, s). i < 65536 \<and> length s < 65536"
  by unfold_locales (auto simp: write_order_def read_order_def reader_simps u16_count)

interpretation pcounterparty: stored write_counterparty "read_counterparty E" "counterparty_ok E" for E
  by unfold_locales
    (simp add: write_counterparty_def read_counterparty_def counterparty_ok_def br_array_def reader_simps pvout.many.dec_enc)

interpretation pindices: stored "pw_opt (to_be_bytes :: u32 \<Rightarrow> bytes)" "pr_opt pr_u32" "\<lambda>_. True"
  by unfold_locales simp

interpretation pholder: stored write_holder "read_holder E" "holder_ok E" for E
proof unfold_locales
  fix hc rest
  assume ok: "holder_ok E hc"
  have tx: "read_tx (pw_var_bytes (serialize (bct_tx (hc_built hc))) @ r) = Inr (bct_tx (hc_built hc), r)" for r
    using ok tx_read_write [of "bct_tx (hc_built hc)"]
    by (simp add: read_tx_def pbind_apply holder_ok_def tx_deserialize_def pret_apply)
  show "read_holder E (write_holder hc @ rest) = Inr (hc, rest)"
    using ok tx
    by (simp add: write_holder_def read_holder_def holder_ok_def reader_simps pindices.many.dec_enc porder.many.dec_enc list.pred_True
        psig.dec_enc psig.many.dec_enc phtlc.many.dec_enc pkeys.dec_enc)
qed

definition monitor_ok :: "EC \<Rightarrow> ChannelMonitor \<Rightarrow> bool" where
  "monitor_ok E m \<longleftrightarrow>
     hash_ok (op_txid (cm_funding_outpoint m)) \<and> pubkeys_ok E (cm_holder_pubkeys m) \<and> pubkeys_ok E (cm_counterparty_pubkeys m)
     \<and> list_all (\<lambda>e. hash_ok (snd e)) (entries (cm_counterparty_secrets m))
     \<and> pred_option (counterparty_ok E) (cm_counterparty_current m) \<and> pred_option (holder_ok E) (cm_holder_commitment m)
     \<and> length (cm_preimages m) < 65536 \<and> distinct (map fst (cm_preimages m))
     \<and> list_all (\<lambda>(h, p). h = payment_hash p \<and> hash_ok p) (cm_preimages m)"

lemma preimages_rebuilt:
  assumes "distinct (map fst (acc @ ps))" "list_all (\<lambda>(h, p). h = payment_hash p) ps"
  shows "foldl (\<lambda>ps p. AList.update (payment_hash p) p ps) acc (map snd ps) = acc @ ps"
  using assms
proof (induction ps arbitrary: acc)
  case (Cons hp ps)
  obtain h p where hp: "hp = (h, p)" by (cases hp)
  have new: "AList.update h p xs = xs @ [(h, p)]" if "h \<notin> fst ` set xs" for xs :: "(bytes \<times> bytes) list"
    using that by (induction xs) auto
  have "AList.update (payment_hash p) p acc = acc @ [hp]" using Cons.prems new [of acc] by (simp add: hp)
  then show ?case using Cons.IH [of "acc @ [hp]"] Cons.prems by (simp add: hp)
qed simp

lemma entries_count: "length (known st) = 49 \<Longrightarrow> length (entries st) < 65536"
  using length_filter_le [of "\<lambda>e. e \<noteq> None" "known st"] by (simp add: entries_def)

text \<open>C29: A node that restarts gets its monitors back. For a monitor of well-formed parts whose store holds the secrets a counterparty has
  revealed, deserializing the serialization returns the monitor itself: every secret, both current commitments with the signatures
  on ours, and every preimage.\<close>

theorem monitor_roundtrip:
  assumes ok: "monitor_ok E m" and store: "store_ok ss (cm_counterparty_secrets m)"
  shows "monitor_deserialize E (monitor_serialize m) = Inr m"
proof -
  have inv: "store_inv (sec ss) (2 ^ 48 - length ss) (cm_counterparty_secrets m)" using store by (simp add: store_ok_def)
  have es: "from_entries (entries (cm_counterparty_secrets m)) = cm_counterparty_secrets m" by (rule from_entries_store [OF inv])
  have n: "length (entries (cm_counterparty_secrets m)) < 65536" using inv by (intro entries_count) (simp add: store_inv_def)
  have ps: "foldl (\<lambda>ps p. AList.update (payment_hash p) p ps) [] (map snd (cm_preimages m)) = cm_preimages m"
    using preimages_rebuilt [of "[]" "cm_preimages m"] ok by (auto simp: monitor_ok_def list_all_iff)
  have hs: "list_all hash_ok (map snd (cm_preimages m))" using ok by (auto simp: monitor_ok_def list_all_iff)
  have "monitor_read E (monitor_serialize m @ []) = Inr (m, [])"
    unfolding monitor_serialize_def monitor_read_def
    using ok n hs
    by (simp add: monitor_ok_def reader_simps ppubkeys.dec_enc psecret.many.dec_enc pcounterparty.opt.dec_enc pholder.opt.dec_enc
        phash.many.dec_enc es ps phash.dec_enc del: append_Nil2)
  then show ?thesis by (simp add: monitor_deserialize_def rbind_def)
qed

definition sample_tx :: Transaction where
  "sample_tx = \<lparr>tx_version = 2, lock_time = 0,
     tx_input = [\<lparr>previous_output = \<lparr>op_txid = replicate 32 1, op_vout = 0\<rparr>, script_sig = [], sequence = 0, witness = []\<rparr>],
     tx_output = [\<lparr>txo_value = 5, script_pubkey = [0x51]\<rparr>]\<rparr>"

definition sample_monitor :: ChannelMonitor where
  "sample_monitor =
     (let k = replicate 33 2;
          pk = \<lparr>funding_pubkey = k, revocation_basepoint = k, payment_basepoint = k, delayed_payment_basepoint = k, htlc_basepoint = k\<rparr>;
          h = \<lparr>offered = True, h_amount_msat = 5000000, h_cltv_expiry = 500, h_payment_hash = replicate 32 9\<rparr>
      in \<lparr>cm_funding_outpoint = \<lparr>op_txid = replicate 32 1, op_vout = 0\<rparr>, cm_capacity_sat = 100000, cm_obscure_factor = 7,
          cm_holder_pubkeys = pk, cm_counterparty_pubkeys = pk, cm_holder_selected_delay = 144, cm_counterparty_selected_delay = 144,
          cm_counterparty_secrets = store_new,
          cm_counterparty_current = Some \<lparr>cd_number = 3, cd_txid = replicate 32 4, cd_per_commitment_point = k, cd_htlcs = [(h, Some 1), (h, None)]\<rparr>,
          cm_holder_commitment = Some \<lparr>hc_number = 3,
            hc_built = \<lparr>bct_tx = sample_tx, bct_txid = tx_txid sample_tx, fee_sat = 200, htlc_output_indices = [Some 0],
              htlcs_in_output_order = [(0, [0x51])], to_broadcaster_index = None, to_countersignatory_index = Some 0\<rparr>,
            hc_counterparty_sig = replicate 64 5, hc_counterparty_htlc_sigs = [replicate 64 6], hc_htlcs = [h],
            hc_keys = \<lparr>per_commitment_point = k, revocation_key = k, broadcaster_htlc_key = k, countersignatory_htlc_key = k,
              broadcaster_delayed_payment_key = k\<rparr>, hc_feerate = 253\<rparr>,
          cm_holder_commitment_feerate = 253, cm_preimages = [(payment_hash (replicate 32 8), replicate 32 8)]\<rparr>)"

theorem monitor_roundtrip_witness: "monitor_deserialize toy_ec (monitor_serialize sample_monitor) = Inr sample_monitor"
proof (rule monitor_roundtrip)
  have len: "length (serialize sample_tx) < 65536"
    by (simp add: sample_tx_def serialize_def serialize_legacy_def has_witness_def write_inputs_outputs_def TxIn_write_def TxOut_write_def
        OutPoint_write_def write_sized_bytes_def write_compact_size_def)
  show "monitor_ok toy_ec sample_monitor"
    using len
    by (simp add: monitor_ok_def sample_monitor_def Let_def pubkeys_ok_def key_ok_def toy_ec_def counterparty_ok_def holder_ok_def
        keys_ok_def sig_ok_def entries_def store_new_def)
      (simp add: sample_tx_def tx_wf_def input_wf_def output_wf_def)
  show "store_ok [] (cm_counterparty_secrets sample_monitor)" using store_new_ok by (simp add: sample_monitor_def Let_def)
qed

end
