(* ===== verification/Keys_Manager.thy ===== *)
theory Keys_Manager
  imports Curve_Ops
begin

text \<open>
  The seed-based key manager of \<^verbatim>\<open>src/src/sign/mod.rs\<close>: the node identity and the channel signers, all derived from one
  seed by \<^verbatim>\<open>derive_key\<close>, whose loop gives \<open>None\<close> when it never meets a valid scalar. \<open>NodeSecp\<close> adds the recoverable
  signatures of the \<^verbatim>\<open>secp256k1\<close> crate to the curve operations: a digest and a key give the recovery id and the compact form.
\<close>

record NodeSecp = Curve +
  sign_recoverable :: "bytes \<Rightarrow> SecretKey \<Rightarrow> u8 \<times> bytes"

abbreviation ec_of :: "('z) Curve_scheme \<Rightarrow> EC" where
  "ec_of E \<equiv> EC.truncate E"

abbreviation curve_of :: "('z) Curve_scheme \<Rightarrow> Curve" where
  "curve_of E \<equiv> Curve.truncate E"

record KeysManager =
  km_seed :: bytes
  km_node_secret :: SecretKey
  km_node_pubkey :: PublicKey

definition KeysManager_new :: "('z) Curve_scheme \<Rightarrow> bytes \<Rightarrow> KeysManager option" where
  "KeysManager_new E seed =
     (case derive_key (ec_of E) seed (str_bytes ''keraunos/node identity'') 0 0 of
        None \<Rightarrow> None
      | Some node_secret \<Rightarrow> Some \<lparr>km_seed = seed, km_node_secret = node_secret, km_node_pubkey = sk_public_key E node_secret\<rparr>)"

definition km_ecdh :: "('z) Curve_scheme \<Rightarrow> KeysManager \<Rightarrow> PublicKey \<Rightarrow> bytes" where
  "km_ecdh E k other = ecdh E other (km_node_secret k)"

definition sign_gossip :: "('z) Curve_scheme \<Rightarrow> KeysManager \<Rightarrow> bytes \<Rightarrow> Signature" where
  "sign_gossip E k double_sha = sign_ecdsa E double_sha (km_node_secret k)"

definition sign_invoice_digest :: "NodeSecp \<Rightarrow> KeysManager \<Rightarrow> bytes \<Rightarrow> u8 \<times> bytes" where
  "sign_invoice_digest E k digest = sign_recoverable E digest (km_node_secret k)"

definition noise_secret :: "KeysManager \<Rightarrow> SecretKey" where
  "noise_secret k = km_node_secret k"

definition channel_key :: "('z) Curve_scheme \<Rightarrow> KeysManager \<Rightarrow> u64 \<Rightarrow> u8 \<Rightarrow> SecretKey option" where
  "channel_key E k channel_index sub = derive_key (ec_of E) (km_seed k) (str_bytes ''keraunos/channel keys'') channel_index sub"

definition derive_channel_signer :: "('z) Curve_scheme \<Rightarrow> KeysManager \<Rightarrow> u64 \<Rightarrow> InMemoryChannelSigner option" where
  "derive_channel_signer E k channel_index =
     (case map (channel_key E k channel_index) [0, 1, 2, 3, 4, 5] of
        [Some funding, Some revocation, Some payment, Some delayed, Some htlc, Some seed] \<Rightarrow>
          Some (signer_new (ec_of E) funding revocation payment delayed htlc seed)
      | _ \<Rightarrow> None)"

text \<open>A signer knows the secrets of the public keys it announces.\<close>

lemma derive_channel_signer_keys:
  assumes "derive_channel_signer E k i = Some s"
  shows "signer_pubkeys s = \<lparr>funding_pubkey = sk_public_key E (funding_key s), revocation_basepoint = sk_public_key E (revocation_base_key s),
      payment_basepoint = sk_public_key E (payment_key s), delayed_payment_basepoint = sk_public_key E (delayed_payment_base_key s),
      htlc_basepoint = sk_public_key E (htlc_base_key s)\<rparr>"
  using assms by (auto simp: derive_channel_signer_def signer_new_def EC.truncate_def split: option.splits)

section \<open>The search for a valid key ends\<close>

lemma derive_key_loop_sound:
  assumes "derive_key_loop E seed label index sub salt = Some k"
  shows "\<exists>s. derive_candidate seed label index sub s = Some k \<and> seckey_from_slice_ok E k"
proof (rule derive_key_loop.raw_induct [OF _ assms,
    where P = "\<lambda>E seed label index sub salt k. \<exists>s. derive_candidate seed label index sub s = Some k \<and> seckey_from_slice_ok E k"])
  fix loop E seed label index sub salt k
  assume "\<And>E seed label index sub salt k. loop E seed label index sub salt = Some k
      \<Longrightarrow> \<exists>s. derive_candidate seed label index sub s = Some k \<and> seckey_from_slice_ok E k"
    and "(case derive_candidate seed label index sub salt of None \<Rightarrow> None
      | Some okm \<Rightarrow> if seckey_from_slice_ok E okm then Some okm else loop E seed label index sub (salt + 1)) = Some k"
  then show "\<exists>s. derive_candidate seed label index sub s = Some k \<and> seckey_from_slice_ok E k"
    by (cases "derive_candidate seed label index sub salt") (auto split: if_splits)
qed

lemma derive_key_loop_complete:
  assumes "derive_candidate seed label index sub s = Some k" "seckey_from_slice_ok E k" "d = unat (s - salt)"
  shows "\<exists>k. derive_key_loop E seed label index sub salt = Some k"
  using assms(3)
proof (induction d arbitrary: salt)
  case 0
  then have "salt = s" by (simp add: unat_eq_zero)
  then show ?case using assms(1,2) by (subst derive_key_loop.simps) simp
next
  case (Suc d)
  then have "s - salt \<noteq> 0" by auto
  then have "unat (s - (salt + 1)) = d" using Suc.prems by (simp add: unat_minus_one diff_diff_eq [symmetric])
  with Suc.IH have rest: "\<exists>k. derive_key_loop E seed label index sub (salt + 1) = Some k" by simp
  obtain okm where "derive_candidate seed label index sub salt = Some okm"
    using hkdf_expand_blocks [of "replicate 32 0"] by (auto simp: derive_candidate_def Let_def)
  then show ?case using rest by (subst derive_key_loop.simps) simp
qed

text \<open>C40: Key derivation ends exactly when it can: \<^verbatim>\<open>derive_key\<close>, whose salt is a byte that wraps around, returns a key if and only if one of the
  256 candidates of the seed, label and index is a valid scalar, and it loops forever otherwise.\<close>

theorem derive_key_terminates:
  "(\<exists>k. derive_key E seed label index sub = Some k)
   \<longleftrightarrow> (\<exists>salt k. derive_candidate seed label index sub salt = Some k \<and> seckey_from_slice_ok E k)"
  unfolding derive_key_def using derive_key_loop_sound derive_key_loop_complete by metis

end
