(* ===== verification/Node_State.thy ===== *)
theory Node_State
  imports Keys_Manager Peer Onion_Payload Invoice Channel_Reestablish Channel_Close
begin

text \<open>
  \<^verbatim>\<open>src/src/node/mod.rs\<close>, first part: the state of the node, its outputs and errors, connections, sending, time, and the
  two helpers every message handler goes through, \<^verbatim>\<open>with_channel\<close> and \<^verbatim>\<open>force_close\<close>.

  A method that takes \<^verbatim>\<open>&mut self\<close> is a function of the node that returns its result and the new node; \<open>nbind\<close> is the
  sequencing of \<^verbatim>\<open>?\<close>. The hash maps are association lists, iterated in list order; the type parameters are the crate's own
  \<^verbatim>\<open>KeysManager\<close> and \<^verbatim>\<open>TestEntropy\<close>; the scorer is a function, the logger is left out. Strings are their UTF-8 bytes.
\<close>

section \<open>Errors\<close>

text \<open>\<open>NodePanicked\<close> stands for a failed \<^verbatim>\<open>expect\<close>, index or \<^verbatim>\<open>unreachable!\<close>, \<open>NodeDiverged\<close> for a loop over candidate keys that
  never meets a valid one; neither is a value of the Rust enum, and neither is caught by \<^verbatim>\<open>let _ =\<close>.\<close>

datatype NodeError =
    PeerNotFound | PeerNotReady | ChannelNotFound | NoUsableChannel
  | NodeNoise NoiseError | NodeWire WireError | NodeChannel ChannelError | NodeRoute RouteError | NodeInvoice InvoiceError
  | InvalidFundingTx string | DuplicatePayment
  | NodePanicked | NodeDiverged

definition channel_error :: "ChannelError \<Rightarrow> NodeError" where
  "channel_error e = (if e = Panicked then NodePanicked else NodeChannel e)"

text \<open>\<^verbatim>\<open>ChannelError::to_string\<close>.\<close>

definition channel_error_text :: "ChannelError \<Rightarrow> string" where
  "channel_error_text e =
     (case e of Close s \<Rightarrow> ''channel failure: '' @ s | Ignore s \<Rightarrow> ''ignored: '' @ s | InvalidState s \<Rightarrow> ''invalid state: '' @ s
      | Panicked \<Rightarrow> [])"

section \<open>Failure codes\<close>

definition FAIL_TEMPORARY_CHANNEL_FAILURE :: u16 where "FAIL_TEMPORARY_CHANNEL_FAILURE = UPDATE OR 7"
definition FAIL_UNKNOWN_NEXT_PEER :: u16 where "FAIL_UNKNOWN_NEXT_PEER = PERM OR 10"
definition FAIL_FEE_INSUFFICIENT :: u16 where "FAIL_FEE_INSUFFICIENT = UPDATE OR 12"
definition FAIL_INCORRECT_CLTV_EXPIRY :: u16 where "FAIL_INCORRECT_CLTV_EXPIRY = UPDATE OR 13"
definition FAIL_INCORRECT_OR_UNKNOWN_PAYMENT :: u16 where "FAIL_INCORRECT_OR_UNKNOWN_PAYMENT = PERM OR 15"
definition FAIL_FINAL_INCORRECT_CLTV :: u16 where "FAIL_FINAL_INCORRECT_CLTV = 18"
definition FAIL_FINAL_INCORRECT_AMOUNT :: u16 where "FAIL_FINAL_INCORRECT_AMOUNT = 19"
definition FAIL_INVALID_ONION_HMAC :: u16 where "FAIL_INVALID_ONION_HMAC = BADONION OR PERM OR 5"

section \<open>Data\<close>

type_synonym PeerId = u64
type_synonym PaymentId = bytes

datatype Event =
    PeerConnected PeerId PublicKey
  | PeerDisconnected PeerId
  | FundingRequired ChannelId Script u64
  | ChannelPending ChannelId Txid
  | EvChannelReady ChannelId PublicKey
  | PaymentClaimable PaymentHash Msat
  | PaymentClaimed PaymentHash Msat
  | PaymentSent PaymentId PaymentHash PaymentPreimage
  | PaymentFailed PaymentId PaymentHash "u16 option" "nat option"
  | EvForwarded ChannelId ChannelId Msat
  | ChannelClosed ChannelId bytes "Txid option"
  | DataLossDetected ChannelId

datatype Output =
    Wire PeerId bytes
  | Broadcast Transaction
  | WatchFunding ChannelId OutPoint Script
  | OutEvent Event

record ForwardingPolicy =
  fp_fee_base_msat :: u32
  fp_fee_proportional_millionths :: u32
  fp_cltv_expiry_delta :: u16

definition ForwardingPolicy_default :: ForwardingPolicy where
  "ForwardingPolicy_default = \<lparr>fp_fee_base_msat = 1000, fp_fee_proportional_millionths = 100, fp_cltv_expiry_delta = 40\<rparr>"

record NodeConfig =
  nc_network :: Network
  nc_channel :: ChannelConfig
  nc_forwarding :: ForwardingPolicy
  nc_close_script :: Script
  nc_commitment_feerate :: u32
  nc_close_feerate :: u32
  nc_auto_claim :: bool
  nc_final_cltv_margin :: u32
  nc_accept_inbound :: bool

definition NodeConfig_new :: "Network \<Rightarrow> Script \<Rightarrow> NodeConfig" where
  "NodeConfig_new network close_script =
     \<lparr>nc_network = network, nc_channel = ChannelConfig_default, nc_forwarding = ForwardingPolicy_default, nc_close_script = close_script,
      nc_commitment_feerate = 253, nc_close_feerate = 253, nc_auto_claim = True, nc_final_cltv_margin = 6, nc_accept_inbound = True\<rparr>"

record ChannelEntry =
  ce_channel :: Channel
  ce_node_id :: PublicKey
  ce_funding_tx :: "Transaction option"
  ce_announced :: bool
  ce_their_announcement_sigs :: "AnnouncementSignatures option"
  ce_sent_announcement_sigs :: bool

definition new_entry :: "Channel \<Rightarrow> PublicKey \<Rightarrow> ChannelEntry" where
  "new_entry c node_id =
     \<lparr>ce_channel = c, ce_node_id = node_id, ce_funding_tx = None, ce_announced = False, ce_their_announcement_sigs = None,
      ce_sent_announcement_sigs = False\<rparr>"

record PendingPayment =
  pp_payment_hash :: PaymentHash
  pp_amount_msat :: Msat
  pp_shared_secrets :: "bytes list"

record InvoiceEntry =
  ie_preimage :: PaymentPreimage
  ie_payment_secret :: bytes
  ie_amount_msat :: "Msat option"
  ie_min_final_cltv :: u32

record Node =
  nd_config :: NodeConfig
  nd_keys :: KeysManager
  nd_entropy :: TestEntropy
  nd_scorer :: "EdgeCandidate \<Rightarrow> u64"
  nd_peers :: "(PeerId \<times> Peer) list"
  nd_by_node_id :: "(PublicKey \<times> PeerId) list"
  nd_next_peer :: u64
  nd_channels :: "(ChannelId \<times> ChannelEntry) list"
  nd_scid_index :: "(ShortChannelId \<times> ChannelId) list"
  nd_channel_counter :: u64
  nd_graph :: NetworkGraph
  nd_payments :: "(PaymentId \<times> PendingPayment) list"
  nd_invoices :: "(PaymentHash \<times> InvoiceEntry) list"
  nd_claimable :: "(PaymentHash \<times> ChannelId \<times> HtlcId \<times> Msat) list"
  nd_inbound_onion_secrets :: "((ChannelId \<times> HtlcId) \<times> bytes) list"
  nd_forward_fees :: "((ChannelId \<times> HtlcId) \<times> ChannelId \<times> Msat) list"
  nd_outputs :: "Output list"
  nd_best_height :: u32
  nd_now :: u64

type_synonym 'a node = "Node \<Rightarrow> (NodeError, 'a) result \<times> Node"

definition Node_new :: "KeysManager \<Rightarrow> TestEntropy \<Rightarrow> NodeConfig \<Rightarrow> Node option" where
  "Node_new keys entropy config =
     (case NetworkGraph_new (nc_network config) of
        None \<Rightarrow> None
      | Some graph \<Rightarrow> Some
          \<lparr>nd_config = config, nd_keys = keys, nd_entropy = entropy, nd_scorer = penalty_msat DefaultScorer_default,
           nd_peers = [], nd_by_node_id = [], nd_next_peer = 1, nd_channels = [], nd_scid_index = [], nd_channel_counter = 0,
           nd_graph = graph, nd_payments = [], nd_invoices = [], nd_claimable = [], nd_inbound_onion_secrets = [],
           nd_forward_fees = [], nd_outputs = [], nd_best_height = 0, nd_now = 0\<rparr>)"

definition with_scorer :: "(EdgeCandidate \<Rightarrow> u64) \<Rightarrow> Node \<Rightarrow> Node" where
  "with_scorer scorer n = n\<lparr>nd_scorer := scorer\<rparr>"

definition node_node_id :: "Node \<Rightarrow> PublicKey" where
  "node_node_id n = km_node_pubkey (nd_keys n)"

definition poll_output :: "Node \<Rightarrow> Output option \<times> Node" where
  "poll_output n = (case nd_outputs n of [] \<Rightarrow> (None, n) | x # xs \<Rightarrow> (Some x, n\<lparr>nd_outputs := xs\<rparr>))"

section \<open>Sequencing\<close>

definition nret :: "'a \<Rightarrow> 'a node" where "nret a n = (Inr a, n)"
definition nthrow :: "NodeError \<Rightarrow> 'a node" where "nthrow e n = (Inl e, n)"

definition nbind :: "'a node \<Rightarrow> ('a \<Rightarrow> 'b node) \<Rightarrow> 'b node" where
  "nbind m f n = (case m n of (Inl e, n) \<Rightarrow> (Inl e, n) | (Inr a, n) \<Rightarrow> f a n)"

text \<open>Reading the node, changing it, \<^verbatim>\<open>ok_or(e)?\<close> and \<^verbatim>\<open>map_err(f)?\<close>.\<close>

definition asks :: "(Node \<Rightarrow> 'a) \<Rightarrow> 'a node" where "asks f n = (Inr (f n), n)"
definition modify :: "(Node \<Rightarrow> Node) \<Rightarrow> unit node" where "modify f n = (Inr (), f n)"

definition need :: "NodeError \<Rightarrow> 'a option \<Rightarrow> 'a node" where
  "need e m n = (case m of None \<Rightarrow> (Inl e, n) | Some a \<Rightarrow> (Inr a, n))"

definition lift :: "('e \<Rightarrow> NodeError) \<Rightarrow> ('e, 'a) result \<Rightarrow> 'a node" where
  "lift f r n = (case r of Inl e \<Rightarrow> (Inl (f e), n) | Inr a \<Rightarrow> (Inr a, n))"

text \<open>\<^verbatim>\<open>let _ = m\<close>: an error is dropped, a panic is not.\<close>

definition attempt :: "'a node \<Rightarrow> unit node" where
  "attempt m n = (case m n of
      (Inl e, n) \<Rightarrow> if e = NodePanicked \<or> e = NodeDiverged then (Inl e, n) else (Inr (), n)
    | (Inr _, n) \<Rightarrow> (Inr (), n))"

primrec each :: "('a \<Rightarrow> unit node) \<Rightarrow> 'a list \<Rightarrow> unit node" where
  "each f [] = nret ()"
| "each f (x # xs) = nbind (f x) (\<lambda>_. each f xs)"

definition emit :: "Output \<Rightarrow> unit node" where
  "emit x = modify (\<lambda>n. n\<lparr>nd_outputs := nd_outputs n @ [x]\<rparr>)"

definition random_bytes :: "bytes node" where
  "random_bytes n = (let (bs, e) = get_random_bytes (nd_entropy n) in (Inr bs, n\<lparr>nd_entropy := e\<rparr>))"

partial_function (option) random_key_loop :: "NodeSecp \<Rightarrow> TestEntropy \<Rightarrow> (SecretKey \<times> TestEntropy) option" where
  "random_key_loop E e =
     (let (bs, e) = get_random_bytes e in if seckey_from_slice_ok E bs then Some (bs, e) else random_key_loop E e)"

definition random_secret_key :: "NodeSecp \<Rightarrow> SecretKey node" where
  "random_secret_key E n =
     (case random_key_loop E (nd_entropy n) of None \<Rightarrow> (Inl NodeDiverged, n) | Some (sk, e) \<Rightarrow> (Inr sk, n\<lparr>nd_entropy := e\<rparr>))"

definition channel_signer :: "NodeSecp \<Rightarrow> InMemoryChannelSigner node" where
  "channel_signer E = nbind (asks (\<lambda>n. derive_channel_signer E (nd_keys n) (nd_channel_counter n))) (\<lambda>s.
     nbind (need NodeDiverged s) (\<lambda>s.
     nbind (modify (\<lambda>n. n\<lparr>nd_channel_counter := nd_channel_counter n + 1\<rparr>)) (\<lambda>_. nret s)))"

definition our_chain_hash :: "bytes node" where
  "our_chain_hash = nbind (asks (\<lambda>n. chain_hash (nc_network (nd_config n)))) (lift (\<lambda>_. NodePanicked))"

section \<open>Text\<close>

text \<open>\<^verbatim>\<open>String::from_utf8_lossy\<close>: every maximal prefix of a character that is not continued becomes one replacement character.
  \<open>utf8_head\<close> gives the length of the first character, or of the part of it that is there, and whether it is complete.\<close>

definition byte_or_zero :: "bytes \<Rightarrow> nat \<Rightarrow> u8" where
  "byte_or_zero bs i = (if i < length bs then bs ! i else 0)"

definition utf8_head :: "bytes \<Rightarrow> nat \<times> bool" where
  "utf8_head bs =
     (let a = byte_or_zero bs 0; b = byte_or_zero bs 1; c = byte_or_zero bs 2; d = byte_or_zero bs 3 in
      if a \<le> 0x7f then (1, True)
      else if 0xc2 \<le> a \<and> a \<le> 0xdf then (if cont_byte b then (2, True) else (1, False))
      else if 0xe0 \<le> a \<and> a \<le> 0xef then
        (if \<not> (if a = 0xe0 then 0xa0 \<le> b \<and> b \<le> 0xbf else if a = 0xed then 0x80 \<le> b \<and> b \<le> 0x9f else cont_byte b) then (1, False)
         else if cont_byte c then (3, True) else (2, False))
      else if 0xf0 \<le> a \<and> a \<le> 0xf4 then
        (if \<not> (if a = 0xf0 then 0x90 \<le> b \<and> b \<le> 0xbf else if a = 0xf4 then 0x80 \<le> b \<and> b \<le> 0x8f else cont_byte b) then (1, False)
         else if \<not> cont_byte c then (2, False)
         else if cont_byte d then (4, True) else (3, False))
      else (1, False))"

lemma utf8_head_pos [simp]: "0 < fst (utf8_head bs)"
  by (simp add: utf8_head_def Let_def)

function from_utf8_lossy :: "bytes \<Rightarrow> bytes" where
  "from_utf8_lossy bs =
     (if bs = [] then []
      else (if snd (utf8_head bs) then take (fst (utf8_head bs)) bs else [0xef, 0xbf, 0xbd])
           @ from_utf8_lossy (drop (fst (utf8_head bs)) bs))"
  by pat_completeness auto
termination by (relation "measure length") simp_all

declare from_utf8_lossy.simps [simp del]

section \<open>Sending\<close>

definition send_to_peer :: "PeerId \<Rightarrow> Message \<Rightarrow> unit node" where
  "send_to_peer peer_id msg n =
     (case map_of (nd_peers n) peer_id of
        None \<Rightarrow> (Inl PeerNotFound, n)
      | Some peer \<Rightarrow>
          let (r, peer) = peer_encrypt (Message_encode msg) peer;
              n = n\<lparr>nd_peers := AList.update peer_id peer (nd_peers n)\<rparr>
          in nbind (lift NodeNoise r) (\<lambda>bs. emit (Wire peer_id bs)) n)"

definition send_to_node :: "PublicKey \<Rightarrow> Message \<Rightarrow> unit node" where
  "send_to_node node_id msg =
     nbind (asks (\<lambda>n. map_of (nd_by_node_id n) node_id)) (\<lambda>p. nbind (need PeerNotFound p) (\<lambda>peer_id. send_to_peer peer_id msg))"

definition send_warning :: "PeerId \<Rightarrow> string \<Rightarrow> unit node" where
  "send_warning peer_id text = attempt (send_to_peer peer_id (M_Warning \<lparr>wm_channel_id = replicate 32 0, wm_data = str_bytes text\<rparr>))"

definition broadcast_to_ready_peers :: "Message \<Rightarrow> unit node" where
  "broadcast_to_ready_peers msg =
     nbind (asks (\<lambda>n. map fst (filter (\<lambda>(_, p). peer_is_ready p) (nd_peers n)))) (\<lambda>ready.
     each (\<lambda>peer_id. attempt (send_to_peer peer_id msg)) ready)"

definition send_init :: "PeerId \<Rightarrow> unit node" where
  "send_init peer_id =
     nbind our_chain_hash (\<lambda>chain.
     nbind (send_to_peer peer_id (M_Init \<lparr>in_global_features = features_empty, in_features = keraunos_default, in_networks = Some [chain]\<rparr>)) (\<lambda>_.
     modify (\<lambda>n. n\<lparr>nd_peers := AList.map_entry peer_id (\<lambda>p. p\<lparr>init_sent := True\<rparr>) (nd_peers n)\<rparr>)))"

section \<open>Connections and time\<close>

definition add_peer :: "Peer \<Rightarrow> PeerId node" where
  "add_peer peer n =
     (let peer_id = nd_next_peer n
      in (Inr peer_id, n\<lparr>nd_next_peer := nd_next_peer n + 1, nd_peers := AList.update peer_id peer (nd_peers n)\<rparr>))"

definition connect_outbound :: "NodeSecp \<Rightarrow> PublicKey \<Rightarrow> (PeerId \<times> bytes) node" where
  "connect_outbound E remote =
     nbind (random_secret_key E) (\<lambda>ephemeral.
     nbind (asks (\<lambda>n. noise_secret (nd_keys n))) (\<lambda>secret.
     let (act1, initiator) = initiator_act_one (curve_of E) (Initiator_new secret remote ephemeral) in
     nbind (add_peer (peer_new_outbound initiator remote)) (\<lambda>peer_id.
     nbind (modify (\<lambda>n. n\<lparr>nd_by_node_id := AList.update remote peer_id (nd_by_node_id n)\<rparr>)) (\<lambda>_. nret (peer_id, act1)))))"

definition accept_inbound :: "NodeSecp \<Rightarrow> PeerId node" where
  "accept_inbound E =
     nbind (random_secret_key E) (\<lambda>ephemeral.
     nbind (asks (\<lambda>n. noise_secret (nd_keys n))) (\<lambda>secret.
     add_peer (peer_new_inbound (Responder_new (curve_of E) secret ephemeral))))"

text \<open>The loop over \<^verbatim>\<open>self.channels.values_mut()\<close>; a panic ends it.\<close>

primrec disconnect_entries :: "PublicKey \<Rightarrow> (ChannelId \<times> ChannelEntry) list \<Rightarrow> bool \<times> (ChannelId \<times> ChannelEntry) list" where
  "disconnect_entries node_id [] = (True, [])"
| "disconnect_entries node_id (ke # es) =
     (if ce_node_id (snd ke) \<noteq> node_id then (let (ok, es) = disconnect_entries node_id es in (ok, ke # es))
      else
        let (r, c) = on_disconnect (ce_channel (snd ke));
            ke = (fst ke, (snd ke)\<lparr>ce_channel := c\<rparr>)
        in case r of
             Inl _ \<Rightarrow> (False, ke # es)
           | Inr _ \<Rightarrow> (let (ok, es) = disconnect_entries node_id es in (ok, ke # es)))"

definition disconnect_channels :: "PublicKey \<Rightarrow> unit node" where
  "disconnect_channels node_id n =
     (let (ok, es) = disconnect_entries node_id (nd_channels n); n = n\<lparr>nd_channels := es\<rparr>
      in if ok then (Inr (), n) else (Inl NodePanicked, n))"

definition peer_disconnected :: "PeerId \<Rightarrow> unit node" where
  "peer_disconnected peer_id =
     nbind (asks (\<lambda>n. map_of (nd_peers n) peer_id)) (\<lambda>found. case found of
       None \<Rightarrow> nret ()
     | Some peer \<Rightarrow>
         nbind (modify (\<lambda>n. n\<lparr>nd_peers := AList.delete peer_id (nd_peers n)\<rparr>)) (\<lambda>_.
         case peer_node_id peer of
           None \<Rightarrow> nret ()
         | Some node_id \<Rightarrow>
             nbind (modify (\<lambda>n. n\<lparr>nd_by_node_id := AList.delete node_id (nd_by_node_id n)\<rparr>)) (\<lambda>_.
             nbind (disconnect_channels node_id) (\<lambda>_.
             emit (OutEvent (PeerDisconnected peer_id))))))"

definition best_block_updated :: "u32 \<Rightarrow> Node \<Rightarrow> Node" where
  "best_block_updated height n = n\<lparr>nd_best_height := height\<rparr>"

definition ping_due :: "u64 \<Rightarrow> Peer \<Rightarrow> bool" where
  "ping_due unix_now p \<longleftrightarrow> peer_is_ready p \<and> last_ping_sent_at p + 30 \<le> unix_now"

definition tick :: "u64 \<Rightarrow> unit node" where
  "tick unix_now =
     nbind (modify (\<lambda>n. n\<lparr>nd_now := unix_now\<rparr>)) (\<lambda>_.
     nbind (asks (\<lambda>n. map fst (filter (\<lambda>(_, p). ping_due unix_now p) (nd_peers n)))) (\<lambda>ready.
     each (\<lambda>peer_id.
       nbind (attempt (send_to_peer peer_id (M_Ping \<lparr>ping_num_pong_bytes = 1, ping_ignored = []\<rparr>))) (\<lambda>_.
       modify (\<lambda>n. n\<lparr>nd_peers := AList.map_entry peer_id
         (\<lambda>p. p\<lparr>last_ping_sent_at := unix_now, awaiting_pong := True\<rparr>) (nd_peers n)\<rparr>))) ready))"

section \<open>Channel access\<close>

definition entry_at :: "NodeError \<Rightarrow> ChannelId \<Rightarrow> ChannelEntry node" where
  "entry_at e channel_id = nbind (asks (\<lambda>n. map_of (nd_channels n) channel_id)) (need e)"

definition set_entry :: "ChannelId \<Rightarrow> (ChannelEntry \<Rightarrow> ChannelEntry) \<Rightarrow> unit node" where
  "set_entry channel_id f = modify (\<lambda>n. n\<lparr>nd_channels := AList.map_entry channel_id f (nd_channels n)\<rparr>)"

text \<open>\<^verbatim>\<open>entry.channel.op()\<close>, with the channel written back; the second form is followed by \<^verbatim>\<open>?\<close>.\<close>

definition channel_run :: "ChannelId \<Rightarrow> ChannelEntry \<Rightarrow> (Channel \<Rightarrow> 'a cresult \<times> Channel) \<Rightarrow> 'a cresult node" where
  "channel_run channel_id entry op =
     nbind (set_entry channel_id (\<lambda>e. e\<lparr>ce_channel := snd (op (ce_channel entry))\<rparr>)) (\<lambda>_. nret (fst (op (ce_channel entry))))"

definition channel_call :: "ChannelId \<Rightarrow> (Channel \<Rightarrow> 'a cresult \<times> Channel) \<Rightarrow> ('a \<times> PublicKey) node" where
  "channel_call channel_id op =
     nbind (entry_at ChannelNotFound channel_id) (\<lambda>entry.
     nbind (channel_run channel_id entry op) (\<lambda>r.
     nbind (lift channel_error r) (\<lambda>a. nret (a, ce_node_id entry))))"

definition channel_ids :: "Node \<Rightarrow> ChannelId list" where
  "channel_ids n = map fst (nd_channels n)"

definition channel_state :: "Node \<Rightarrow> ChannelId \<Rightarrow> ChannelState option" where
  "channel_state n channel_id = map_option (\<lambda>e. ch_state (ce_channel e)) (map_of (nd_channels n) channel_id)"

definition channel_balance_msat :: "Node \<Rightarrow> ChannelId \<Rightarrow> Msat option" where
  "channel_balance_msat n channel_id = map_option (\<lambda>e. ch_to_holder_msat (ce_channel e)) (map_of (nd_channels n) channel_id)"

definition is_usable :: "Channel \<Rightarrow> bool" where
  "is_usable c \<longleftrightarrow> ch_state c = Normal"

definition force_close :: "NodeSecp \<Rightarrow> ChannelId \<Rightarrow> bytes \<Rightarrow> unit node" where
  "force_close E channel_id reason =
     nbind (entry_at ChannelNotFound channel_id) (\<lambda>entry.
     nbind (lift channel_error (signed_holder_commitment_tx (ec_of E) (ce_channel entry))) (\<lambda>tx.
     nbind (emit (Broadcast tx)) (\<lambda>_.
     emit (OutEvent (ChannelClosed channel_id reason (Some (tx_txid tx)))))))"

definition with_channel :: "NodeSecp \<Rightarrow> PeerId \<Rightarrow> ChannelId \<Rightarrow> (Channel \<Rightarrow> 'a cresult \<times> Channel) \<Rightarrow> 'a node" where
  "with_channel E peer_id channel_id f =
     nbind (entry_at ChannelNotFound channel_id) (\<lambda>entry.
     nbind (asks (\<lambda>n. map_of (nd_by_node_id n) (ce_node_id entry))) (\<lambda>expected_peer.
     if expected_peer \<noteq> Some peer_id then nthrow ChannelNotFound
     else nbind (channel_run channel_id entry f) (\<lambda>r. case r of
         Inr v \<Rightarrow> nret v
       | Inl (Close text) \<Rightarrow>
           nbind (attempt (send_to_peer peer_id (M_Error \<lparr>em_channel_id = channel_id, em_data = str_bytes text\<rparr>))) (\<lambda>_.
           nbind (attempt (force_close E channel_id (str_bytes text))) (\<lambda>_.
           nthrow (NodeChannel (Close text))))
       | Inl e \<Rightarrow> nthrow (channel_error e))))"

end
