(* ===== verification/Node_Channels.thy ===== *)
theory Node_Channels
  imports Node_State
begin

text \<open>
  \<^verbatim>\<open>src/src/node/mod.rs\<close>, second part: opening, funding, announcing and closing channels, and the initial exchange of
  features with a peer.
\<close>

section \<open>Gossip about our own channels\<close>

text \<open>\<^verbatim>\<open>SecretKey::from_slice(&[1u8; 32]).expect("valid")\<close>.\<close>

definition dummy_sig :: "NodeSecp \<Rightarrow> Signature option" where
  "dummy_sig E = (if seckey_from_slice_ok E (replicate 32 1) then Some (sign_ecdsa E (replicate 32 0) (replicate 32 1)) else None)"

definition our_announcement :: "Signature \<Rightarrow> bytes \<Rightarrow> ShortChannelId \<Rightarrow> PublicKey \<Rightarrow> PublicKey \<Rightarrow> PublicKey \<Rightarrow> PublicKey \<Rightarrow> ChannelAnnouncement \<times> bool" where
  "our_announcement dummy chain scid our_node their_node our_funding their_funding =
     (let we_are_first = (our_node < their_node);
          (n1, n2, b1, b2) = (if we_are_first then (our_node, their_node, our_funding, their_funding)
                              else (their_node, our_node, their_funding, our_funding))
      in (\<lparr>ca_node_signature_1 = dummy, ca_node_signature_2 = dummy, ca_bitcoin_signature_1 = dummy, ca_bitcoin_signature_2 = dummy,
           ca_features = features_empty, ca_chain_hash = chain, ca_short_channel_id = scid, ca_node_id_1 = n1, ca_node_id_2 = n2,
           ca_bitcoin_key_1 = b1, ca_bitcoin_key_2 = b2\<rparr>, we_are_first))"

definition build_our_announcement :: "NodeSecp \<Rightarrow> ChannelId \<Rightarrow> (ChannelAnnouncement \<times> bool) option node" where
  "build_our_announcement E channel_id n =
     (case map_of (nd_channels n) channel_id of
        None \<Rightarrow> (Inr None, n)
      | Some entry \<Rightarrow> (case ch_short_channel_id (ce_channel entry) of
          None \<Rightarrow> (Inr None, n)
        | Some scid \<Rightarrow> (case ch_counterparty_pubkeys (ce_channel entry) of
            None \<Rightarrow> (Inr None, n)
          | Some theirs \<Rightarrow>
              nbind (need NodePanicked (dummy_sig E)) (\<lambda>dummy.
              nbind our_chain_hash (\<lambda>chain.
              nret (Some (our_announcement dummy chain scid (node_node_id n) (ce_node_id entry)
                (funding_pubkey (ch_holder_pubkeys (ce_channel entry))) (funding_pubkey theirs))))) n)))"

definition build_our_channel_update :: "NodeSecp \<Rightarrow> ChannelId \<Rightarrow> bool \<Rightarrow> ChannelUpdate node" where
  "build_our_channel_update E channel_id we_are_first =
     nbind (entry_at ChannelNotFound channel_id) (\<lambda>entry.
     nbind (need ChannelNotFound (ch_short_channel_id (ce_channel entry))) (\<lambda>scid.
     nbind (need NodePanicked (dummy_sig E)) (\<lambda>dummy.
     nbind our_chain_hash (\<lambda>chain.
     asks (\<lambda>n.
       let policy = nc_forwarding (nd_config n);
           upd = \<lparr>cu_signature = dummy, cu_chain_hash = chain, cu_short_channel_id = scid, cu_timestamp = ucast (nd_now n),
             cu_message_flags = 1, cu_channel_flags = (if we_are_first then 0 else 1), cu_cltv_expiry_delta = fp_cltv_expiry_delta policy,
             cu_htlc_minimum_msat = 1, cu_fee_base_msat = fp_fee_base_msat policy,
             cu_fee_proportional_millionths = fp_fee_proportional_millionths policy,
             cu_htlc_maximum_msat = ch_funding_amount_sat (ce_channel entry) * 1000\<rparr>;
           hash = sha256d (cu_write_after_sig upd)
       in upd\<lparr>cu_signature := sign_gossip E (nd_keys n) hash\<rparr>)))))"

definition with_our_signatures :: "bool \<Rightarrow> Signature \<Rightarrow> Signature \<Rightarrow> AnnouncementSignatures \<Rightarrow> ChannelAnnouncement \<Rightarrow> ChannelAnnouncement" where
  "with_our_signatures we_are_first node_signature bitcoin_signature theirs full =
     (if we_are_first
      then full\<lparr>ca_node_signature_1 := node_signature, ca_bitcoin_signature_1 := bitcoin_signature,
                ca_node_signature_2 := ans_node_signature theirs, ca_bitcoin_signature_2 := ans_bitcoin_signature theirs\<rparr>
      else full\<lparr>ca_node_signature_2 := node_signature, ca_bitcoin_signature_2 := bitcoin_signature,
                ca_node_signature_1 := ans_node_signature theirs, ca_bitcoin_signature_1 := ans_bitcoin_signature theirs\<rparr>)"

definition apply_to_graph :: "(NetworkGraph \<Rightarrow> (GossipError, unit) result \<times> NetworkGraph) \<Rightarrow> (GossipError, unit) result node" where
  "apply_to_graph f n = (let (r, g) = f (nd_graph n) in (Inr r, n\<lparr>nd_graph := g\<rparr>))"

text \<open>The second half of \<^verbatim>\<open>maybe_announce_channel\<close>: the full announcement and our policy, once both halves are there.\<close>

definition publish_announcement :: "NodeSecp \<Rightarrow> ChannelId \<Rightarrow> bytes \<Rightarrow> ChannelAnnouncement \<Rightarrow> bool \<Rightarrow> unit node" where
  "publish_announcement E channel_id hash ann we_are_first =
     nbind (entry_at NodePanicked channel_id) (\<lambda>entry.
     if ce_announced entry then nret ()
     else case ce_their_announcement_sigs entry of
       None \<Rightarrow> nret ()
     | Some theirs \<Rightarrow>
         nbind (asks (\<lambda>n. sign_gossip E (nd_keys n) hash)) (\<lambda>node_signature.
         let bitcoin_signature = sign_with_funding_key (ec_of E) (ch_signer (ce_channel entry)) hash;
             full = with_our_signatures we_are_first node_signature bitcoin_signature theirs ann;
             capacity = ch_funding_amount_sat (ce_channel entry)
         in nbind (set_entry channel_id (\<lambda>e. e\<lparr>ce_announced := True\<rparr>)) (\<lambda>_.
            nbind (apply_to_graph (apply_channel_announcement E full (Some capacity))) (\<lambda>r. case r of
              Inl _ \<Rightarrow> nret ()
            | Inr _ \<Rightarrow>
                nbind (broadcast_to_ready_peers (M_ChannelAnnouncement full)) (\<lambda>_.
                nbind (build_our_channel_update E channel_id we_are_first) (\<lambda>upd.
                nbind (apply_to_graph (apply_channel_update E upd)) (\<lambda>_.
                broadcast_to_ready_peers (M_ChannelUpdate upd))))))))"

definition maybe_announce_channel :: "NodeSecp \<Rightarrow> ChannelId \<Rightarrow> unit node" where
  "maybe_announce_channel E channel_id =
     nbind (asks (\<lambda>n. map_of (nd_channels n) channel_id)) (\<lambda>found. case found of
       None \<Rightarrow> nret ()
     | Some entry \<Rightarrow>
         if \<not> ch_announce (ce_channel entry) \<or> \<not> is_usable (ce_channel entry) then nret ()
         else nbind (build_our_announcement E channel_id) (\<lambda>built. case built of
           None \<Rightarrow> nret ()
         | Some (ann, we_are_first) \<Rightarrow>
             let hash = sha256d (ca_signed_payload ann) in
             nbind (need NodePanicked (ch_short_channel_id (ce_channel entry))) (\<lambda>scid.
             nbind (if ce_sent_announcement_sigs entry then nret ()
                    else
                      nbind (asks (\<lambda>n. sign_gossip E (nd_keys n) hash)) (\<lambda>node_signature.
                      let bitcoin_signature = sign_with_funding_key (ec_of E) (ch_signer (ce_channel entry)) hash in
                      nbind (set_entry channel_id (\<lambda>e. e\<lparr>ce_sent_announcement_sigs := True\<rparr>)) (\<lambda>_.
                      send_to_node (ce_node_id entry) (M_AnnouncementSignatures
                        \<lparr>ans_channel_id = channel_id, ans_short_channel_id = scid, ans_node_signature = node_signature,
                         ans_bitcoin_signature = bitcoin_signature\<rparr>)))) (\<lambda>_.
             publish_announcement E channel_id hash ann we_are_first))))"

definition on_announcement_signatures :: "NodeSecp \<Rightarrow> PeerId \<Rightarrow> AnnouncementSignatures \<Rightarrow> unit node" where
  "on_announcement_signatures E peer_id anns =
     nbind (entry_at ChannelNotFound (ans_channel_id anns)) (\<lambda>entry.
     nbind (asks (\<lambda>n. Option.bind (map_of (nd_peers n) peer_id) peer_node_id)) (\<lambda>sender.
     if sender \<noteq> Some (ce_node_id entry) then nthrow ChannelNotFound
     else nbind (set_entry (ans_channel_id anns) (\<lambda>e. e\<lparr>ce_their_announcement_sigs := Some anns\<rparr>)) (\<lambda>_.
       maybe_announce_channel E (ans_channel_id anns))))"

definition after_channel_ready_change :: "NodeSecp \<Rightarrow> ChannelId \<Rightarrow> unit node" where
  "after_channel_ready_change E channel_id =
     nbind (asks (\<lambda>n. map_of (nd_channels n) channel_id)) (\<lambda>found. case found of
       None \<Rightarrow> nret ()
     | Some entry \<Rightarrow>
         if \<not> is_usable (ce_channel entry) then nret ()
         else nbind (emit (OutEvent (EvChannelReady channel_id (ce_node_id entry)))) (\<lambda>_. maybe_announce_channel E channel_id))"

section \<open>Opening and funding\<close>

definition node_funding_confirmed :: "NodeSecp \<Rightarrow> ChannelId \<Rightarrow> ShortChannelId \<Rightarrow> unit node" where
  "node_funding_confirmed E channel_id scid =
     nbind (channel_call channel_id (funding_confirmed (ec_of E) scid)) (\<lambda>(msg, node_id).
     nbind (modify (\<lambda>n. n\<lparr>nd_scid_index := AList.update scid channel_id (nd_scid_index n)\<rparr>)) (\<lambda>_.
     nbind (case msg of None \<Rightarrow> nret () | Some msg \<Rightarrow> send_to_node node_id (M_ChannelReady msg)) (\<lambda>_.
     after_channel_ready_change E channel_id)))"

definition insert_entry :: "ChannelId \<Rightarrow> ChannelEntry \<Rightarrow> unit node" where
  "insert_entry channel_id e = modify (\<lambda>n. n\<lparr>nd_channels := AList.update channel_id e (nd_channels n)\<rparr>)"

definition remove_entry :: "ChannelId \<Rightarrow> ChannelEntry node" where
  "remove_entry channel_id =
     nbind (entry_at NodePanicked channel_id) (\<lambda>e.
     nbind (modify (\<lambda>n. n\<lparr>nd_channels := AList.delete channel_id (nd_channels n)\<rparr>)) (\<lambda>_. nret e))"

definition open_channel :: "NodeSecp \<Rightarrow> PublicKey \<Rightarrow> u64 \<Rightarrow> Msat \<Rightarrow> ChannelId node" where
  "open_channel E node_id capacity_sat push_msat =
     nbind (asks (\<lambda>n. map_of (nd_by_node_id n) node_id)) (\<lambda>p.
     nbind (need PeerNotFound p) (\<lambda>peer_id.
     nbind (asks (\<lambda>n. map_of (nd_peers n) peer_id)) (\<lambda>peer.
     if \<not> (case peer of None \<Rightarrow> False | Some p \<Rightarrow> peer_is_ready p) then nthrow PeerNotReady
     else
       nbind (channel_signer E) (\<lambda>signer.
       nbind random_bytes (\<lambda>temp_id.
       nbind (asks nd_config) (\<lambda>config.
       nbind (lift channel_error (new_outbound (ec_of E) signer (nc_channel config) (nc_network config) temp_id capacity_sat push_msat
                (nc_commitment_feerate config))) (\<lambda>(channel, open_msg).
       nbind (insert_entry temp_id (new_entry channel node_id)) (\<lambda>_.
       nbind (send_to_peer peer_id (M_OpenChannel open_msg)) (\<lambda>_. nret temp_id)))))))))"

text \<open>\<^verbatim>\<open>tx.output.iter().position(..)\<close>.\<close>

definition output_position :: "Script \<Rightarrow> Transaction \<Rightarrow> nat option" where
  "output_position script tx = find (\<lambda>i. script_pubkey (tx_output tx ! i) = script) [0..<length (tx_output tx)]"

definition provide_funding_transaction :: "NodeSecp \<Rightarrow> ChannelId \<Rightarrow> Transaction \<Rightarrow> ChannelId node" where
  "provide_funding_transaction E channel_id tx =
     nbind (entry_at ChannelNotFound channel_id) (\<lambda>entry.
     nbind (lift channel_error (funding_script_pubkey (ce_channel entry))) (\<lambda>script.
     nbind (need (InvalidFundingTx ''no output pays the funding script'') (output_position script tx)) (\<lambda>vout.
     if txo_value (tx_output tx ! vout) \<noteq> ch_funding_amount_sat (ce_channel entry)
     then nthrow (InvalidFundingTx ''funding output value mismatch'')
     else
       let txid = tx_txid tx in
       nbind (channel_call channel_id (funding_created (ec_of E) txid (of_nat vout))) (\<lambda>(msg, node_id).
       nbind (set_entry channel_id (\<lambda>e. e\<lparr>ce_funding_tx := Some tx\<rparr>)) (\<lambda>_.
       nbind (remove_entry channel_id) (\<lambda>entry.
       let new_id = ch_channel_id (ce_channel entry) in
       nbind (insert_entry new_id entry) (\<lambda>_.
       nbind (send_to_node node_id (M_FundingCreated msg)) (\<lambda>_.
       nbind (emit (OutEvent (ChannelPending new_id txid))) (\<lambda>_. nret new_id)))))))))"

definition on_open_channel :: "NodeSecp \<Rightarrow> PeerId \<Rightarrow> OpenChannel \<Rightarrow> unit node" where
  "on_open_channel E peer_id open_msg =
     nbind (asks nd_config) (\<lambda>config.
     if \<not> nc_accept_inbound config then send_warning peer_id ''not accepting channels''
     else
       nbind (asks (\<lambda>n. Option.bind (map_of (nd_peers n) peer_id) peer_node_id)) (\<lambda>sender.
       nbind (need PeerNotReady sender) (\<lambda>node_id.
       nbind (channel_signer E) (\<lambda>signer.
       case new_inbound (ec_of E) signer (nc_channel config) (nc_network config) open_msg of
         Inr (channel, accept) \<Rightarrow>
           nbind (insert_entry (oc_temporary_channel_id open_msg) (new_entry channel node_id)) (\<lambda>_.
           send_to_peer peer_id (M_AcceptChannel accept))
       | Inl Panicked \<Rightarrow> nthrow NodePanicked
       | Inl e \<Rightarrow>
           send_to_peer peer_id (M_Error \<lparr>em_channel_id = oc_temporary_channel_id open_msg, em_data = str_bytes (channel_error_text e)\<rparr>)))))"

definition node_on_accept_channel :: "NodeSecp \<Rightarrow> PeerId \<Rightarrow> AcceptChannel \<Rightarrow> unit node" where
  "node_on_accept_channel E peer_id accept =
     (let channel_id = ac_temporary_channel_id accept in
      nbind (with_channel E peer_id channel_id (on_accept_channel accept)) (\<lambda>_.
      nbind (entry_at NodePanicked channel_id) (\<lambda>entry.
      nbind (lift channel_error (funding_script_pubkey (ce_channel entry))) (\<lambda>script.
      emit (OutEvent (FundingRequired channel_id script (ch_funding_amount_sat (ce_channel entry))))))))"

definition node_on_funding_created :: "NodeSecp \<Rightarrow> PeerId \<Rightarrow> FundingCreated \<Rightarrow> unit node" where
  "node_on_funding_created E peer_id fc =
     (let temp_id = fcr_temporary_channel_id fc in
      nbind (with_channel E peer_id temp_id (on_funding_created (ec_of E) fc)) (\<lambda>reply.
      let new_id = channel_id_from_funding (fcr_funding_txid fc) (fcr_funding_output_index fc) in
      nbind (remove_entry temp_id) (\<lambda>entry.
      nbind (need NodePanicked (ch_funding_outpoint (ce_channel entry))) (\<lambda>outpoint.
      nbind (lift channel_error (funding_script_pubkey (ce_channel entry))) (\<lambda>script.
      nbind (insert_entry new_id entry) (\<lambda>_.
      nbind (send_to_node (ce_node_id entry) (M_FundingSigned reply)) (\<lambda>_.
      nbind (emit (WatchFunding new_id outpoint script)) (\<lambda>_.
      emit (OutEvent (ChannelPending new_id (fcr_funding_txid fc)))))))))))"

definition node_on_funding_signed :: "NodeSecp \<Rightarrow> PeerId \<Rightarrow> FundingSigned \<Rightarrow> unit node" where
  "node_on_funding_signed E peer_id fs =
     (let channel_id = fsg_channel_id fs in
      nbind (with_channel E peer_id channel_id (on_funding_signed (ec_of E) fs)) (\<lambda>_.
      nbind (entry_at NodePanicked channel_id) (\<lambda>entry.
      nbind (set_entry channel_id (\<lambda>e. e\<lparr>ce_funding_tx := None\<rparr>)) (\<lambda>_.
      nbind (need (InvalidFundingTx ''funding tx not held'') (ce_funding_tx entry)) (\<lambda>tx.
      nbind (need NodePanicked (ch_funding_outpoint (ce_channel entry))) (\<lambda>outpoint.
      nbind (lift channel_error (funding_script_pubkey (ce_channel entry))) (\<lambda>script.
      nbind (emit (WatchFunding channel_id outpoint script)) (\<lambda>_.
      emit (Broadcast tx)))))))))"

section \<open>Closing\<close>

definition try_start_closing :: "NodeSecp \<Rightarrow> ChannelId \<Rightarrow> unit node" where
  "try_start_closing E channel_id =
     nbind (asks (\<lambda>n. (map_of (nd_channels n) channel_id, nc_close_feerate (nd_config n)))) (\<lambda>(found, target). case found of
       None \<Rightarrow> nret ()
     | Some _ \<Rightarrow>
         nbind (channel_call channel_id (maybe_send_closing_signed (ec_of E) target)) (\<lambda>(msg, node_id).
         case msg of None \<Rightarrow> nret () | Some msg \<Rightarrow> send_to_node node_id (M_ClosingSigned msg)))"

definition close_channel :: "NodeSecp \<Rightarrow> ChannelId \<Rightarrow> unit node" where
  "close_channel E channel_id =
     nbind (asks (\<lambda>n. nc_close_script (nd_config n))) (\<lambda>script.
     nbind (channel_call channel_id (send_shutdown script)) (\<lambda>(msg, node_id).
     nbind (send_to_node node_id (M_Shutdown msg)) (\<lambda>_.
     try_start_closing E channel_id)))"

definition finish_cooperative_close :: "ChannelId \<Rightarrow> Transaction \<Rightarrow> unit node" where
  "finish_cooperative_close channel_id tx =
     nbind (emit (Broadcast tx)) (\<lambda>_.
     emit (OutEvent (ChannelClosed channel_id (str_bytes ''cooperative close'') (Some (tx_txid tx)))))"

definition node_on_closing_signed :: "NodeSecp \<Rightarrow> PeerId \<Rightarrow> ClosingSigned \<Rightarrow> unit node" where
  "node_on_closing_signed E peer_id cs =
     (let channel_id = cs_channel_id cs in
      nbind (asks (\<lambda>n. nc_close_feerate (nd_config n))) (\<lambda>target.
      nbind (with_channel E peer_id channel_id (on_closing_signed (ec_of E) cs target)) (\<lambda>outcome.
      nbind (entry_at NodePanicked channel_id) (\<lambda>_.
      case outcome of
        Reply reply maybe_tx \<Rightarrow>
          nbind (send_to_peer peer_id (M_ClosingSigned reply)) (\<lambda>_.
          case maybe_tx of None \<Rightarrow> nret () | Some tx \<Rightarrow> finish_cooperative_close channel_id tx)
      | Done tx \<Rightarrow> finish_cooperative_close channel_id tx))))"

section \<open>The features of a peer\<close>

definition reestablish_messages :: "NodeSecp \<Rightarrow> PublicKey \<Rightarrow> Node \<Rightarrow> ChannelReestablish list" where
  "reestablish_messages E node_id n =
     map (\<lambda>(_, e). make_channel_reestablish (ec_of E) (ce_channel e))
       (filter (\<lambda>(_, e). ce_node_id e = node_id \<and> ch_state (ce_channel e) \<noteq> OpenSent \<and> ch_state (ce_channel e) \<noteq> AcceptSent) (nd_channels n))"

definition accept_features :: "NodeSecp \<Rightarrow> PeerId \<Rightarrow> Features \<Rightarrow> unit node" where
  "accept_features E peer_id combined =
     nbind (asks (\<lambda>n. map_of (nd_peers n) peer_id)) (\<lambda>found.
     nbind (need PeerNotFound found) (\<lambda>peer.
     let peer = peer\<lparr>peer_features := combined, init_received := True\<rparr> in
     nbind (modify (\<lambda>n. n\<lparr>nd_peers := AList.update peer_id peer (nd_peers n)\<rparr>)) (\<lambda>_.
     case (peer_is_ready peer, peer_node_id peer) of
       (True, Some node_id) \<Rightarrow>
         nbind (emit (OutEvent (PeerConnected peer_id node_id))) (\<lambda>_.
         nbind (asks (reestablish_messages E node_id)) (\<lambda>to_reestablish.
         each (\<lambda>re. send_to_peer peer_id (M_ChannelReestablish re)) to_reestablish))
     | _ \<Rightarrow> nret ())))"

definition on_init :: "NodeSecp \<Rightarrow> PeerId \<Rightarrow> Init \<Rightarrow> unit node" where
  "on_init E peer_id init =
     (let combined = features_or (in_features init) (in_global_features init) in
      case unknown_required_bits combined known_even_bits of
        Some b \<Rightarrow>
          nbind (send_warning peer_id (''unsupported required feature bit '' @ show_word b)) (\<lambda>_. peer_disconnected peer_id)
      | None \<Rightarrow> (case in_networks init of
          None \<Rightarrow> accept_features E peer_id combined
        | Some networks \<Rightarrow>
            nbind our_chain_hash (\<lambda>chain.
            if chain \<notin> set networks
            then nbind (send_warning peer_id ''no chain in common'') (\<lambda>_. peer_disconnected peer_id)
            else accept_features E peer_id combined)))"

end
