(* ===== verification/Node_Payments.thy ===== *)
theory Node_Payments
  imports Node_Channels
begin

text \<open>
  \<^verbatim>\<open>src/src/node/mod.rs\<close>, third part: invoices and payments, the settlement of HTLCs, and what happens to an inbound HTLC
  once it is irrevocably committed: claimed, forwarded or failed back.
\<close>

section \<open>Committing\<close>

definition flush_commitment :: "NodeSecp \<Rightarrow> ChannelId \<Rightarrow> unit node" where
  "flush_commitment E channel_id =
     nbind (entry_at ChannelNotFound channel_id) (\<lambda>entry.
     if can_send_commitment (ce_channel entry)
     then nbind (channel_call channel_id (send_commitment_signed (ec_of E))) (\<lambda>(cs, node_id). send_to_node node_id (M_CommitmentSigned cs))
     else nret ())"

text \<open>\<^verbatim>\<open>if let Some(msg) = entry.channel.op()? { send_to_node; flush_commitment }\<close>, where \<open>msg_of\<close> is the message constructor.\<close>

definition settle_htlc :: "NodeSecp \<Rightarrow> ('m \<Rightarrow> Message) \<Rightarrow> ChannelId \<Rightarrow> (Channel \<Rightarrow> 'm option cresult \<times> Channel) \<Rightarrow> unit node" where
  "settle_htlc E msg_of channel_id op =
     nbind (channel_call channel_id op) (\<lambda>(msg, node_id). case msg of
       None \<Rightarrow> nret ()
     | Some msg \<Rightarrow> nbind (send_to_node node_id (msg_of msg)) (\<lambda>_. flush_commitment E channel_id))"

section \<open>Invoices\<close>

definition invoice_builder :: "Node \<Rightarrow> Msat option \<Rightarrow> bytes \<Rightarrow> u64 \<Rightarrow> PaymentHash \<Rightarrow> bytes \<Rightarrow> u32 \<Rightarrow> InvoiceBuilder" where
  "invoice_builder n amount_msat description expiry_secs hash secret min_final_cltv =
     \<lparr>ib_network = nc_network (nd_config n), ib_amount_msat = amount_msat, ib_timestamp = nd_now n, ib_payment_hash = hash,
      ib_payment_secret = secret, ib_description = Direct description, ib_expiry_secs = Some expiry_secs,
      ib_min_final_cltv = Some min_final_cltv, ib_features = default_features, ib_route_hints = []\<rparr>"

definition create_invoice :: "NodeSecp \<Rightarrow> Msat option \<Rightarrow> bytes \<Rightarrow> u64 \<Rightarrow> (bytes \<times> PaymentHash) node" where
  "create_invoice E amount_msat description expiry_secs =
     nbind random_bytes (\<lambda>preimage.
     let hash = payment_hash preimage in
     nbind random_bytes (\<lambda>secret.
     let min_final_cltv = 18 in
     nbind (asks (\<lambda>n. encode_signed (invoice_builder n amount_msat description expiry_secs hash secret min_final_cltv)
              (sign_invoice_digest E (nd_keys n)))) (\<lambda>r.
     nbind (need NodePanicked r) (\<lambda>encoded.
     nbind (modify (\<lambda>n. n\<lparr>nd_invoices := AList.update hash
         \<lparr>ie_preimage = preimage, ie_payment_secret = secret, ie_amount_msat = amount_msat, ie_min_final_cltv = min_final_cltv\<rparr>
         (nd_invoices n)\<rparr>)) (\<lambda>_.
     nret (encoded, hash))))))"

section \<open>Paying\<close>

definition node_first_hops :: "Node \<Rightarrow> FirstHop list" where
  "node_first_hops n =
     List.map_filter (\<lambda>(_, e). if \<not> is_usable (ce_channel e) then None
       else map_option (\<lambda>scid. \<lparr>fh_peer = ce_node_id e, fh_short_channel_id = scid, fh_available_msat = available_to_send_msat (ce_channel e)\<rparr>)
              (ch_short_channel_id (ce_channel e))) (nd_channels n)"

definition payment_params :: "Node \<Rightarrow> Bolt11Invoice \<Rightarrow> Msat \<Rightarrow> RouteParams" where
  "payment_params n invoice amount =
     \<lparr>rp_payer = node_node_id n, rp_payee = inv_payee invoice, rp_amount_msat = amount,
      rp_final_cltv_expiry = nd_best_height n + min_final_cltv_or_default invoice + nc_final_cltv_margin (nd_config n),
      rp_first_hops = node_first_hops n, rp_route_hints = inv_route_hints invoice, rp_max_hops = 20\<rparr>"

text \<open>The payload of a hop names the hop after it; the last one carries the payment data.\<close>

fun hop_payloads :: "bytes \<Rightarrow> Msat \<Rightarrow> RouteHop list \<Rightarrow> bytes list" where
  "hop_payloads secret amount [] = []"
| "hop_payloads secret amount [hop] = [hop_encode (final_hop (rh_amount_msat hop) (rh_cltv_expiry hop) secret amount)]"
| "hop_payloads secret amount (hop # nxt # hops) =
     hop_encode (hop_forward (rh_amount_msat nxt) (rh_cltv_expiry nxt) (rh_short_channel_id nxt)) # hop_payloads secret amount (nxt # hops)"

text \<open>The session key, the shared secrets with every hop, and the packet.\<close>

definition build_onion :: "NodeSecp \<Rightarrow> RouteHop list \<Rightarrow> bytes list \<Rightarrow> PaymentHash \<Rightarrow> (bytes list \<times> OnionPacket) node" where
  "build_onion E hops payloads hash =
     nbind (random_secret_key E) (\<lambda>session_key.
     nbind (need NodePanicked (shared_secrets_for_path E session_key (map rh_node_id hops))) (\<lambda>secrets.
     nbind (need NodePanicked (construct E session_key secrets payloads hash)) (\<lambda>packet.
     nret (secrets, packet))))"

definition pay_invoice :: "NodeSecp \<Rightarrow> Bolt11Invoice \<Rightarrow> Msat option \<Rightarrow> PaymentId node" where
  "pay_invoice E invoice amount_msat =
     nbind (need (NodeInvoice (MissingField ''amount'')) (case amount_msat of Some a \<Rightarrow> Some a | None \<Rightarrow> inv_amount_msat invoice)) (\<lambda>amount.
     nbind (asks (\<lambda>n. \<exists>p \<in> set (nd_payments n). pp_payment_hash (snd p) = inv_payment_hash invoice)) (\<lambda>pending.
     if pending then nthrow DuplicatePayment
     else
       nbind (asks (\<lambda>n. find_route (nd_graph n) (nd_scorer n) (payment_params n invoice amount))) (\<lambda>found.
       nbind (need NodePanicked found) (\<lambda>r.
       nbind (lift NodeRoute r) (\<lambda>route.
       nbind (build_onion E (route_hops route) (hop_payloads (inv_payment_secret invoice) amount (route_hops route))
                (inv_payment_hash invoice)) (\<lambda>(secrets, packet).
       nbind random_bytes (\<lambda>payment_id.
       nbind (need NodePanicked (case route_hops route of [] \<Rightarrow> None | hop # _ \<Rightarrow> Some (rh_short_channel_id hop))) (\<lambda>first_scid.
       nbind (asks (\<lambda>n. map_of (nd_scid_index n) first_scid)) (\<lambda>c.
       nbind (need NoUsableChannel c) (\<lambda>channel_id.
       nbind (channel_call channel_id (send_add_htlc (first_hop_amount_msat route) (inv_payment_hash invoice) (first_hop_cltv route)
                (onion_serialize packet) (Outbound payment_id))) (\<lambda>(add, node_id).
       nbind (modify (\<lambda>n. n\<lparr>nd_payments := AList.update payment_id
           \<lparr>pp_payment_hash = inv_payment_hash invoice, pp_amount_msat = amount, pp_shared_secrets = secrets\<rparr> (nd_payments n)\<rparr>)) (\<lambda>_.
       nbind (case add of
           None \<Rightarrow> nret ()
         | Some add \<Rightarrow> nbind (send_to_node node_id (M_UpdateAddHtlc add)) (\<lambda>_. flush_commitment E channel_id)) (\<lambda>_.
       nret payment_id)))))))))))))"

section \<open>Claiming\<close>

definition claim_payment :: "NodeSecp \<Rightarrow> PaymentHash \<Rightarrow> unit node" where
  "claim_payment E hash =
     nbind (asks (\<lambda>n. map_of (nd_claimable n) hash)) (\<lambda>found.
     nbind (need ChannelNotFound found) (\<lambda>(channel_id, htlc_id, amount).
     nbind (modify (\<lambda>n. n\<lparr>nd_claimable := AList.delete hash (nd_claimable n)\<rparr>)) (\<lambda>_.
     nbind (asks (\<lambda>n. map_option ie_preimage (map_of (nd_invoices n) hash))) (\<lambda>p.
     nbind (need ChannelNotFound p) (\<lambda>preimage.
     nbind (settle_htlc E M_UpdateFulfillHtlc channel_id (send_fulfill_htlc htlc_id preimage)) (\<lambda>_.
     emit (OutEvent (PaymentClaimed hash amount))))))))"

section \<open>Failing an inbound HTLC\<close>

definition incorrect_payment_data :: "Msat \<Rightarrow> u32 \<Rightarrow> bytes" where
  "incorrect_payment_data amount height = to_be_bytes amount @ to_be_bytes height"

definition fail_inbound :: "NodeSecp \<Rightarrow> ChannelId \<Rightarrow> HtlcId \<Rightarrow> u16 \<Rightarrow> bytes \<Rightarrow> unit node" where
  "fail_inbound E channel_id htlc_id code data =
     nbind (asks (\<lambda>n. map_of (nd_inbound_onion_secrets n) (channel_id, htlc_id))) (\<lambda>found. case found of
       None \<Rightarrow> nret ()
     | Some ss \<Rightarrow> settle_htlc E M_UpdateFailHtlc channel_id (send_fail_htlc htlc_id (failure_build ss (failure_message code data))))"

definition fail_inbound_malformed :: "NodeSecp \<Rightarrow> ChannelId \<Rightarrow> HtlcId \<Rightarrow> bytes \<Rightarrow> unit node" where
  "fail_inbound_malformed E channel_id htlc_id onion_bytes =
     settle_htlc E M_UpdateFailMalformedHtlc channel_id (send_fail_malformed_htlc htlc_id (sha256_digest onion_bytes) FAIL_INVALID_ONION_HMAC)"

section \<open>Settlement of our outbound HTLCs\<close>

definition on_htlc_fulfilled :: "NodeSecp \<Rightarrow> HtlcSource \<Rightarrow> PaymentPreimage \<Rightarrow> unit node" where
  "on_htlc_fulfilled E src preimage =
     (case src of
        Outbound payment_id \<Rightarrow>
          nbind (asks (\<lambda>n. map_of (nd_payments n) payment_id)) (\<lambda>found. case found of
            None \<Rightarrow> nret ()
          | Some p \<Rightarrow>
              nbind (modify (\<lambda>n. n\<lparr>nd_payments := AList.delete payment_id (nd_payments n)\<rparr>)) (\<lambda>_.
              emit (OutEvent (PaymentSent payment_id (pp_payment_hash p) preimage))))
      | Forwarded inbound_channel inbound_htlc \<Rightarrow>
          settle_htlc E M_UpdateFulfillHtlc inbound_channel (send_fulfill_htlc inbound_htlc preimage))"

definition failure_report :: "PendingPayment \<Rightarrow> bytes option \<Rightarrow> u16 option \<Rightarrow> u16 option \<times> nat option" where
  "failure_report p reason malformed_code =
     (case reason of
        None \<Rightarrow> (malformed_code, None)
      | Some reason \<Rightarrow> (case failure_decrypt (pp_shared_secrets p) reason of
          None \<Rightarrow> (malformed_code, None)
        | Some (hop, msg) \<Rightarrow> (parse_code msg, Some hop)))"

definition relayed_failure :: "bytes \<Rightarrow> bytes option \<Rightarrow> u16 option \<Rightarrow> bytes" where
  "relayed_failure ss reason malformed_code =
     (case (reason, malformed_code) of
        (Some r, _) \<Rightarrow> failure_wrap ss r
      | (None, Some code) \<Rightarrow> failure_build ss (failure_message code [])
      | (None, None) \<Rightarrow> failure_build ss (failure_message FAIL_TEMPORARY_CHANNEL_FAILURE []))"

definition on_htlc_failed :: "NodeSecp \<Rightarrow> HtlcSource \<Rightarrow> bytes option \<Rightarrow> u16 option \<Rightarrow> unit node" where
  "on_htlc_failed E src reason malformed_code =
     (case src of
        Outbound payment_id \<Rightarrow>
          nbind (asks (\<lambda>n. map_of (nd_payments n) payment_id)) (\<lambda>found. case found of
            None \<Rightarrow> nret ()
          | Some p \<Rightarrow>
              nbind (modify (\<lambda>n. n\<lparr>nd_payments := AList.delete payment_id (nd_payments n)\<rparr>)) (\<lambda>_.
              let (failure_code, erring_hop) = failure_report p reason malformed_code in
              emit (OutEvent (PaymentFailed payment_id (pp_payment_hash p) failure_code erring_hop))))
      | Forwarded inbound_channel inbound_htlc \<Rightarrow>
          nbind (asks (\<lambda>n. map_of (nd_inbound_onion_secrets n) (inbound_channel, inbound_htlc))) (\<lambda>found. case found of
            None \<Rightarrow> nret ()
          | Some ss \<Rightarrow>
              settle_htlc E M_UpdateFailHtlc inbound_channel (send_fail_htlc inbound_htlc (relayed_failure ss reason malformed_code))))"

definition on_htlc_failed_locally :: "NodeSecp \<Rightarrow> HtlcSource \<Rightarrow> unit node" where
  "on_htlc_failed_locally E src = on_htlc_failed E src None None"

section \<open>Committed inbound HTLCs\<close>

text \<open>The checks of \<^verbatim>\<open>receive_final_htlc\<close>, in the order of the code: \<open>Some\<close> failure, or \<open>None\<close> to accept.\<close>

definition final_htlc_failure :: "Node \<Rightarrow> CommittedInboundHtlc \<Rightarrow> HopPayload \<Rightarrow> (u16 \<times> bytes) option" where
  "final_htlc_failure n htlc payload =
     (let unknown = (FAIL_INCORRECT_OR_UNKNOWN_PAYMENT, incorrect_payment_data (cih_amount_msat htlc) (nd_best_height n)) in
      case map_of (nd_invoices n) (cih_payment_hash htlc) of
        None \<Rightarrow> Some unknown
      | Some invoice \<Rightarrow> (case payment_data payload of
          None \<Rightarrow> Some unknown
        | Some pd \<Rightarrow>
            if pd_payment_secret pd \<noteq> ie_payment_secret invoice then Some unknown
            else if amt_to_forward payload > cih_amount_msat htlc
            then Some (FAIL_FINAL_INCORRECT_AMOUNT, to_be_bytes (cih_amount_msat htlc))
            else if (case ie_amount_msat invoice of None \<Rightarrow> False
                     | Some required \<Rightarrow> cih_amount_msat htlc < required \<or> cih_amount_msat htlc > required * 2)
            then Some unknown
            else if outgoing_cltv_value payload > cih_cltv_expiry htlc
            then Some (FAIL_FINAL_INCORRECT_CLTV, to_be_bytes (cih_cltv_expiry htlc))
            else if cih_cltv_expiry htlc < nd_best_height n + ie_min_final_cltv invoice then Some unknown
            else None))"

definition receive_final_htlc :: "NodeSecp \<Rightarrow> ChannelId \<Rightarrow> CommittedInboundHtlc \<Rightarrow> HopPayload \<Rightarrow> unit node" where
  "receive_final_htlc E channel_id htlc payload =
     nbind (asks (\<lambda>n. final_htlc_failure n htlc payload)) (\<lambda>failure. case failure of
       Some (code, data) \<Rightarrow> fail_inbound E channel_id (cih_id htlc) code data
     | None \<Rightarrow>
         nbind (modify (\<lambda>n. n\<lparr>nd_claimable := AList.update (cih_payment_hash htlc) (channel_id, cih_id htlc, cih_amount_msat htlc)
             (nd_claimable n)\<rparr>)) (\<lambda>_.
         nbind (emit (OutEvent (PaymentClaimable (cih_payment_hash htlc) (cih_amount_msat htlc)))) (\<lambda>_.
         nbind (asks (\<lambda>n. nc_auto_claim (nd_config n))) (\<lambda>auto_claim.
         if auto_claim then claim_payment E (cih_payment_hash htlc) else nret ()))))"

definition forward_fee :: "ForwardingPolicy \<Rightarrow> Msat \<Rightarrow> Msat" where
  "forward_fee policy amount = ucast (fp_fee_base_msat policy) + amount * ucast (fp_fee_proportional_millionths policy) div 1000000"

text \<open>The fee and expiry checks of \<^verbatim>\<open>forward_htlc\<close>.\<close>

definition forward_refused :: "ForwardingPolicy \<Rightarrow> CommittedInboundHtlc \<Rightarrow> HopPayload \<Rightarrow> u16 option" where
  "forward_refused policy htlc payload =
     (if cih_amount_msat htlc < amt_to_forward payload + forward_fee policy (amt_to_forward payload) then Some FAIL_FEE_INSUFFICIENT
      else if cih_cltv_expiry htlc < outgoing_cltv_value payload + ucast (fp_cltv_expiry_delta policy) then Some FAIL_INCORRECT_CLTV_EXPIRY
      else None)"

text \<open>What follows the call of \<^verbatim>\<open>send_add_htlc\<close> on the outgoing channel.\<close>

definition forward_result ::
  "NodeSecp \<Rightarrow> ChannelId \<Rightarrow> HtlcId \<Rightarrow> ChannelId \<Rightarrow> PublicKey \<Rightarrow> Msat \<Rightarrow> UpdateAddHtlc option cresult \<Rightarrow> unit node" where
  "forward_result E in_channel htlc_id out_channel node_id fee r =
     (case r of
        Inr (Some add) \<Rightarrow>
          nbind (modify (\<lambda>n. n\<lparr>nd_forward_fees := AList.update (out_channel, uah_id add) (in_channel, fee) (nd_forward_fees n)\<rparr>)) (\<lambda>_.
          nbind (send_to_node node_id (M_UpdateAddHtlc add)) (\<lambda>_.
          nbind (flush_commitment E out_channel) (\<lambda>_.
          emit (OutEvent (EvForwarded in_channel out_channel fee)))))
      | Inr None \<Rightarrow> nret ()
      | Inl (Ignore _) \<Rightarrow> fail_inbound E in_channel htlc_id FAIL_TEMPORARY_CHANNEL_FAILURE []
      | Inl e \<Rightarrow> nthrow (channel_error e))"

definition forward_htlc :: "NodeSecp \<Rightarrow> ChannelId \<Rightarrow> CommittedInboundHtlc \<Rightarrow> HopPayload \<Rightarrow> OnionPacket \<Rightarrow> unit node" where
  "forward_htlc E in_channel htlc payload next_packet =
     nbind (asks (\<lambda>n. (Option.bind (hp_short_channel_id payload) (map_of (nd_scid_index n)), nc_forwarding (nd_config n)))) (\<lambda>(found, policy).
     case found of
       None \<Rightarrow> fail_inbound E in_channel (cih_id htlc) FAIL_UNKNOWN_NEXT_PEER []
     | Some out_channel \<Rightarrow> (case forward_refused policy htlc payload of
         Some code \<Rightarrow> fail_inbound E in_channel (cih_id htlc) code []
       | None \<Rightarrow>
           nbind (entry_at ChannelNotFound out_channel) (\<lambda>entry.
           if \<not> is_usable (ce_channel entry) then fail_inbound E in_channel (cih_id htlc) FAIL_TEMPORARY_CHANNEL_FAILURE []
           else
             nbind (channel_run out_channel entry (send_add_htlc (amt_to_forward payload) (cih_payment_hash htlc)
                      (outgoing_cltv_value payload) (onion_serialize next_packet) (Forwarded in_channel (cih_id htlc)))) (\<lambda>r.
             forward_result E in_channel (cih_id htlc) out_channel (ce_node_id entry)
               (forward_fee policy (amt_to_forward payload)) r))))"

text \<open>What \<^verbatim>\<open>process_committed_htlc\<close> does with a peeled packet.\<close>

definition dispatch_peeled :: "NodeSecp \<Rightarrow> ChannelId \<Rightarrow> CommittedInboundHtlc \<Rightarrow> Peeled \<Rightarrow> unit node" where
  "dispatch_peeled E channel_id htlc peeled =
     (case peeled of
        Final payload \<Rightarrow> (case hop_decode payload of
          Inr payload \<Rightarrow> receive_final_htlc E channel_id htlc payload
        | Inl _ \<Rightarrow>
            nbind (asks (\<lambda>n. incorrect_payment_data (cih_amount_msat htlc) (nd_best_height n))) (\<lambda>data.
            fail_inbound E channel_id (cih_id htlc) FAIL_INCORRECT_OR_UNKNOWN_PAYMENT data))
      | Forward payload nxt \<Rightarrow> (case hop_decode payload of
          Inr payload \<Rightarrow> forward_htlc E channel_id htlc payload nxt
        | Inl _ \<Rightarrow> fail_inbound E channel_id (cih_id htlc) FAIL_INCORRECT_OR_UNKNOWN_PAYMENT []))"

definition process_committed_htlc :: "NodeSecp \<Rightarrow> ChannelId \<Rightarrow> CommittedInboundHtlc \<Rightarrow> unit node" where
  "process_committed_htlc E channel_id htlc =
     (case onion_parse E (cih_onion htlc) of
        Inl _ \<Rightarrow> fail_inbound_malformed E channel_id (cih_id htlc) (cih_onion htlc)
      | Inr packet \<Rightarrow>
          nbind (asks (\<lambda>n. km_ecdh E (nd_keys n) (op_ephemeral_key packet))) (\<lambda>ss.
          nbind (need NodePanicked (peel_with_secret E ss packet (cih_payment_hash htlc))) (\<lambda>r. case r of
            Inl _ \<Rightarrow> fail_inbound_malformed E channel_id (cih_id htlc) (cih_onion htlc)
          | Inr peeled \<Rightarrow>
              nbind (modify (\<lambda>n. n\<lparr>nd_inbound_onion_secrets := AList.update (channel_id, cih_id htlc) ss (nd_inbound_onion_secrets n)\<rparr>)) (\<lambda>_.
              dispatch_peeled E channel_id htlc peeled))))"

end
