(* ===== verification/Node.thy ===== *)
theory Node
  imports Node_Payments
begin

text \<open>
  \<^verbatim>\<open>src/src/node/mod.rs\<close>, last part: the dispatch of decoded messages and of socket bytes.
\<close>

text \<open>The handlers that take more than a call of \<^verbatim>\<open>with_channel\<close>, arm by arm of \<^verbatim>\<open>handle_message\<close>.\<close>

definition handle_ping :: "PeerId \<Rightarrow> Ping \<Rightarrow> unit node" where
  "handle_ping peer_id ping =
     (if ping_num_pong_bytes ping \<ge> 65532 then nret ()
      else send_to_peer peer_id (M_Pong \<lparr>pong_ignored = replicate (unat (ping_num_pong_bytes ping)) 0\<rparr>))"

definition handle_error :: "NodeSecp \<Rightarrow> ErrorMsg \<Rightarrow> unit node" where
  "handle_error E e =
     nbind (asks (\<lambda>n. map_of (nd_channels n) (em_channel_id e))) (\<lambda>found.
     if em_channel_id e \<noteq> replicate 32 0 \<and> found \<noteq> None
     then force_close E (em_channel_id e) (str_bytes ''peer error: '' @ from_utf8_lossy (em_data e))
     else nret ())"

definition handle_commitment_signed :: "NodeSecp \<Rightarrow> PeerId \<Rightarrow> CommitmentSigned \<Rightarrow> unit node" where
  "handle_commitment_signed E peer_id cs =
     (let channel_id = csg_channel_id cs in
      nbind (with_channel E peer_id channel_id (on_commitment_signed (ec_of E) cs)) (\<lambda>raa.
      nbind (entry_at NodePanicked channel_id) (\<lambda>entry.
      nbind (send_to_node (ce_node_id entry) (M_RevokeAndAck raa)) (\<lambda>_.
      nbind (flush_commitment E channel_id) (\<lambda>_.
      try_start_closing E channel_id)))))"

definition handle_revoke_and_ack :: "NodeSecp \<Rightarrow> PeerId \<Rightarrow> RevokeAndAck \<Rightarrow> unit node" where
  "handle_revoke_and_ack E peer_id raa =
     (let channel_id = raa_channel_id raa in
      nbind (with_channel E peer_id channel_id (on_revoke_and_ack (ec_of E) raa)) (\<lambda>outcome.
      nbind (entry_at NodePanicked channel_id) (\<lambda>entry.
      nbind (each (send_to_node (ce_node_id entry)) (ro_messages outcome)) (\<lambda>_.
      nbind (case ro_commitment_signed outcome of None \<Rightarrow> nret () | Some cs \<Rightarrow> send_to_node (ce_node_id entry) (M_CommitmentSigned cs)) (\<lambda>_.
      nbind (each (\<lambda>(src, _). on_htlc_failed_locally E src) (ro_failed_adds outcome)) (\<lambda>_.
      nbind (each (process_committed_htlc E channel_id) (ro_forwardable outcome)) (\<lambda>_.
      try_start_closing E channel_id)))))))"

definition handle_shutdown :: "NodeSecp \<Rightarrow> PeerId \<Rightarrow> Shutdown \<Rightarrow> unit node" where
  "handle_shutdown E peer_id sd =
     (let channel_id = sd_channel_id sd in
      nbind (asks (\<lambda>n. nc_close_script (nd_config n))) (\<lambda>our_script.
      nbind (with_channel E peer_id channel_id (on_shutdown sd our_script)) (\<lambda>reply.
      nbind (case reply of
          None \<Rightarrow> nret ()
        | Some reply \<Rightarrow> nbind (entry_at NodePanicked channel_id) (\<lambda>entry. send_to_node (ce_node_id entry) (M_Shutdown reply))) (\<lambda>_.
      try_start_closing E channel_id))))"

definition handle_reestablish :: "NodeSecp \<Rightarrow> PeerId \<Rightarrow> ChannelReestablish \<Rightarrow> unit node" where
  "handle_reestablish E peer_id re =
     (let channel_id = cre_channel_id re in
      nbind (with_channel E peer_id channel_id (\<lambda>c. (on_channel_reestablish (ec_of E) re c, c))) (\<lambda>actions.
      if ra_data_loss_detected actions then emit (OutEvent (DataLossDetected channel_id))
      else
        nbind (entry_at NodePanicked channel_id) (\<lambda>entry.
        each (send_to_node (ce_node_id entry)) (ra_messages actions))))"

text \<open>Gossip is relayed when the graph takes it; every rejection is silent.\<close>

definition handle_gossip :: "Message \<Rightarrow> (NetworkGraph \<Rightarrow> (GossipError, unit) result \<times> NetworkGraph) \<Rightarrow> unit node" where
  "handle_gossip msg f = nbind (apply_to_graph f) (\<lambda>r. case r of Inr _ \<Rightarrow> broadcast_to_ready_peers msg | Inl _ \<Rightarrow> nret ())"

definition handle_message :: "NodeSecp \<Rightarrow> PeerId \<Rightarrow> Message \<Rightarrow> unit node" where
  "handle_message E peer_id msg =
     (case msg of
        M_Init init \<Rightarrow> on_init E peer_id init
      | M_Ping ping \<Rightarrow> handle_ping peer_id ping
      | M_Pong _ \<Rightarrow> modify (\<lambda>n. n\<lparr>nd_peers := AList.map_entry peer_id (\<lambda>p. p\<lparr>awaiting_pong := False\<rparr>) (nd_peers n)\<rparr>)
      | M_Error e \<Rightarrow> handle_error E e
      | M_Warning _ \<Rightarrow> nret ()
      | M_OpenChannel open_msg \<Rightarrow> on_open_channel E peer_id open_msg
      | M_AcceptChannel accept \<Rightarrow> node_on_accept_channel E peer_id accept
      | M_FundingCreated fc \<Rightarrow> node_on_funding_created E peer_id fc
      | M_FundingSigned fs \<Rightarrow> node_on_funding_signed E peer_id fs
      | M_ChannelReady cr \<Rightarrow>
          nbind (with_channel E peer_id (crd_channel_id cr) (on_channel_ready cr)) (\<lambda>_. after_channel_ready_change E (crd_channel_id cr))
      | M_UpdateAddHtlc add \<Rightarrow> with_channel E peer_id (uah_channel_id add) (on_update_add_htlc add)
      | M_UpdateFulfillHtlc ful \<Rightarrow>
          nbind (with_channel E peer_id (ufh_channel_id ful) (on_update_fulfill_htlc ful)) (\<lambda>(src, _).
          on_htlc_fulfilled E src (ufh_payment_preimage ful))
      | M_UpdateFailHtlc fl \<Rightarrow>
          nbind (with_channel E peer_id (ufl_channel_id fl) (on_update_fail_htlc fl)) (\<lambda>(src, _).
          on_htlc_failed E src (Some (ufl_reason fl)) None)
      | M_UpdateFailMalformedHtlc fl \<Rightarrow>
          nbind (with_channel E peer_id (ufm_channel_id fl) (on_update_fail_malformed_htlc fl)) (\<lambda>(src, _).
          on_htlc_failed E src None (Some (ufm_failure_code fl)))
      | M_UpdateFee uf \<Rightarrow> with_channel E peer_id (uf_channel_id uf) (on_update_fee uf)
      | M_CommitmentSigned cs \<Rightarrow> handle_commitment_signed E peer_id cs
      | M_RevokeAndAck raa \<Rightarrow> handle_revoke_and_ack E peer_id raa
      | M_Shutdown sd \<Rightarrow> handle_shutdown E peer_id sd
      | M_ClosingSigned cs \<Rightarrow> node_on_closing_signed E peer_id cs
      | M_ChannelReestablish re \<Rightarrow> handle_reestablish E peer_id re
      | M_AnnouncementSignatures anns \<Rightarrow> on_announcement_signatures E peer_id anns
      | M_ChannelAnnouncement ca \<Rightarrow> handle_gossip msg (apply_channel_announcement E ca None)
      | M_ChannelUpdate cu \<Rightarrow> handle_gossip msg (apply_channel_update E cu)
      | M_NodeAnnouncement na \<Rightarrow> handle_gossip msg (apply_node_announcement E na)
      | M_GossipTimestampFilter _ \<Rightarrow> nret ()
      | M_Unknown t _ \<Rightarrow> if t mod 2 = 0 then send_warning peer_id (''unknown even message type '' @ show_word t) else nret ())"

definition handle_plaintext :: "NodeSecp \<Rightarrow> PeerId \<Rightarrow> bytes \<Rightarrow> unit node" where
  "handle_plaintext E peer_id plaintext =
     (case Message_decode E plaintext of
        Inr msg \<Rightarrow> handle_message E peer_id msg
      | Inl (UnknownMessageType t) \<Rightarrow> send_warning peer_id (''unknown required message type '' @ show_word t)
      | Inl _ \<Rightarrow> nret ())"

definition transport_ready :: "Peer \<Rightarrow> bool" where
  "transport_ready p = (case peer_transport p of Ready _ \<Rightarrow> True | _ \<Rightarrow> False)"

text \<open>Once the transport is up, the peer is indexed by its identity and \<^verbatim>\<open>init\<close> is sent.\<close>

definition announce_ready :: "PeerId \<Rightarrow> Peer \<Rightarrow> unit node" where
  "announce_ready peer_id peer =
     nbind (case peer_node_id peer of
         None \<Rightarrow> nret ()
       | Some node_id \<Rightarrow> modify (\<lambda>n. n\<lparr>nd_by_node_id := AList.update node_id peer_id (nd_by_node_id n)\<rparr>)) (\<lambda>_.
     send_init peer_id)"

definition node_peer_input :: "NodeSecp \<Rightarrow> PeerId \<Rightarrow> bytes \<Rightarrow> unit node" where
  "node_peer_input E peer_id data n =
     (case map_of (nd_peers n) peer_id of
        None \<Rightarrow> (Inl PeerNotFound, n)
      | Some peer \<Rightarrow> (case peer_input (curve_of E) data peer of
          None \<Rightarrow> (Inl NodePanicked, n)
        | Some (r, peer') \<Rightarrow>
            nbind (modify (\<lambda>n. n\<lparr>nd_peers := AList.update peer_id peer' (nd_peers n)\<rparr>)) (\<lambda>_.
            nbind (lift NodeNoise r) (\<lambda>(to_send, messages).
            nbind (each (\<lambda>bs. emit (Wire peer_id bs)) to_send) (\<lambda>_.
            nbind (if \<not> transport_ready peer \<and> transport_ready peer' then announce_ready peer_id peer' else nret ()) (\<lambda>_.
            each (handle_plaintext E peer_id) messages)))) n))"

end
