(* ===== verification/Node_Sample.thy ===== *)
theory Node_Sample
  imports Node Channel_Sample
begin

text \<open>
  A small node with the sample channel, an invoice and a payment to claim, for the witnesses of the node's properties.
\<close>

section \<open>A concrete node\<close>

definition toy_secp :: NodeSecp where
  "toy_secp = Curve.extend (EC.extend toy_ec (Curve.fields (\<lambda>p s. p @ s) (\<lambda>_. True) (\<lambda>_ _. True) (\<lambda>_ _. True)))
     (NodeSecp.fields (\<lambda>m k. (0, m @ k)))"

lemma toy_secp_ec [simp]: "ec_of toy_secp = toy_ec"
  by (simp add: toy_secp_def EC.defs Curve.defs NodeSecp.defs toy_ec_def)

definition toy_invoice :: InvoiceEntry where
  "toy_invoice = \<lparr>ie_preimage = replicate 32 3, ie_payment_secret = replicate 32 4, ie_amount_msat = Some 5000, ie_min_final_cltv = 18\<rparr>"

definition toy_node :: Node where
  "toy_node = \<lparr>nd_config = NodeConfig_new Regtest [], nd_keys = \<lparr>km_seed = [], km_node_secret = [1], km_node_pubkey = [2]\<rparr>,
     nd_entropy = TestEntropy_new [], nd_scorer = penalty_msat DefaultScorer_default, nd_peers = [], nd_by_node_id = [([20], 1)], nd_next_peer = 1,
     nd_channels = [([7], new_entry sample_paying [20])], nd_scid_index = [(9, [7])], nd_channel_counter = 1, nd_graph = empty_graph,
     nd_payments = [], nd_invoices = [(payment_hash (replicate 32 3), toy_invoice)],
     nd_claimable = [(payment_hash (replicate 32 3), [7], 0, 5000)], nd_inbound_onion_secrets = [], nd_forward_fees = [], nd_outputs = [],
     nd_best_height = 100, nd_now = 0\<rparr>"

lemma toy_channel: "map_of (nd_channels toy_node) [7] = Some (new_entry sample_paying [20])" "map_of (nd_by_node_id toy_node) [20] = Some 1"
  by (simp_all add: toy_node_def)

text \<open>A channel with a signed holder commitment can publish it.\<close>

lemma sess_publishes:
  assumes "sess E c" "ch_current_holder_commitment c = Some hc"
  obtains cp sighash tx where "counterparty c = Inr cp" "funding_sighash c (bct_tx (hc_built hc)) = Inr sighash"
    "verify_ecdsa E sighash (hc_counterparty_sig hc) (funding_pubkey cp)"
    "tx = (bct_tx (hc_built hc))\<lparr>tx_input := (tx_input (bct_tx (hc_built hc)))[0 := (tx_input (bct_tx (hc_built hc)) ! 0)\<lparr>witness :=
        funding_spend_witness E (funding_pubkey (ch_holder_pubkeys c)) (funding_pubkey cp)
          (sign_with_funding_key E (ch_signer c) sighash) (hc_counterparty_sig hc)\<rparr>]\<rparr>"
    "signed_holder_commitment_tx E c = Inr tx"
proof -
  have "hc_signed E c hc" using assms by (simp add: sess_def)
  then obtain cp sighash where cp: "counterparty c = Inr cp" "funding_sighash c (bct_tx (hc_built hc)) = Inr sighash"
    "verify_ecdsa E sighash (hc_counterparty_sig hc) (funding_pubkey cp)" "tx_input (bct_tx (hc_built hc)) \<noteq> []"
    by (auto simp: hc_signed_def verify_counterparty_funding_sig_def rbind_Inr split: if_splits)
  then show ?thesis using assms(2) by (intro that [OF cp(1,2,3) refl]) (simp add: signed_holder_commitment_tx_def ok_or_def rbind_def Let_def)
qed

lemma sample_holder_commitment:
  obtains hc tx where "ch_current_holder_commitment sample_paying = Some hc" "signed_holder_commitment_tx toy_ec sample_paying = Inr tx"
proof -
  have "\<exists>hc. ch_current_holder_commitment sample_ready = Some hc" using sample_ready_eq by (elim exE) (erule ssubst, simp)
  then obtain hc where hc: "ch_current_holder_commitment sample_paying = Some hc" by (auto simp: sample_paying_eq)
  with that show ?thesis using sess_publishes [OF reachable_sess [OF sample_reachable(2)] hc] by metis
qed

text \<open>Every candidate is a valid key of the stand-in curve, so the first one is taken.\<close>

lemma toy_derive_key: "\<exists>k. derive_key toy_ec seed label index sub = Some k"
proof -
  obtain okm where "derive_candidate seed label index sub 0 = Some okm"
    using hkdf_expand_blocks [of "replicate 32 0"] by (auto simp: derive_candidate_def Let_def)
  moreover have "seckey_from_slice_ok toy_ec okm" by (simp add: toy_ec_def)
  ultimately show ?thesis by (simp add: derive_key_def derive_key_loop.simps [of toy_ec])
qed

lemma toy_channel_signer: "\<exists>s. derive_channel_signer toy_secp k i = Some s"
proof -
  have "\<exists>x. channel_key toy_secp k i sub = Some x" for sub using toy_derive_key by (simp add: channel_key_def)
  then have "\<forall>sub. \<exists>x. channel_key toy_secp k i sub = Some x" ..
  then obtain f where "\<And>sub. channel_key toy_secp k i sub = Some (f sub)" by metis
  then show ?thesis by (simp add: derive_channel_signer_def)
qed

text \<open>An \<^verbatim>\<open>open_channel\<close> that is accepted.\<close>

definition toy_open :: OpenChannel where
  "toy_open = \<lparr>oc_chain_hash = projr (network_chain_hash Regtest), oc_temporary_channel_id = [7], oc_funding_satoshis = 100000, oc_push_msat = 0,
     oc_dust_limit_satoshis = 546, oc_max_htlc_value_in_flight_msat = 0, oc_channel_reserve_satoshis = 1000, oc_htlc_minimum_msat = 1,
     oc_feerate_per_kw = 253, oc_to_self_delay = 144, oc_max_accepted_htlcs = 50,
     oc_basepoints = \<lparr>bp_funding_pubkey = [11], bp_revocation = [12], bp_payment = [13], bp_delayed_payment = [14], bp_htlc = [15]\<rparr>,
     oc_first_per_commitment_point = [16], oc_channel_flags = 0, oc_upfront_shutdown_script = None, oc_channel_type = None\<rparr>"

lemma toy_open_accepted: "\<exists>c am. new_inbound toy_ec s ChannelConfig_default Regtest toy_open = Inr (c, am)"
proof -
  have "\<not> isl (network_chain_hash Regtest)" by code_simp
  then obtain ch where "network_chain_hash Regtest = Inr ch" by (cases "network_chain_hash Regtest") simp_all
  then show ?thesis
    by (simp add: new_inbound_def toy_open_def MAX_HTLCS_PER_SIDE_def reserve_for_def ChannelConfig_default_def Let_def)
qed

end
