(* ===== verification/Node_Props.thy ===== *)
theory Node_Props
  imports Node_Sample
begin

text \<open>
  What the node accepts, forwards and refuses: the authentication of channel messages, the conditions for claiming and
  forwarding an HTLC, and the places where a peer can do more than it should.
\<close>

lemmas node_unfold = nbind_def asks_def need_def lift_def nret_def nthrow_def emit_def modify_def entry_at_def

section \<open>Channel messages\<close>

text \<open>The channel a message is about, for the messages that drive an established or opening channel.\<close>

definition message_channel :: "Message \<Rightarrow> ChannelId option" where
  "message_channel msg =
     (case msg of
        M_AcceptChannel m \<Rightarrow> Some (ac_temporary_channel_id m)
      | M_FundingCreated m \<Rightarrow> Some (fcr_temporary_channel_id m)
      | M_FundingSigned m \<Rightarrow> Some (fsg_channel_id m)
      | M_ChannelReady m \<Rightarrow> Some (crd_channel_id m)
      | M_UpdateAddHtlc m \<Rightarrow> Some (uah_channel_id m)
      | M_UpdateFulfillHtlc m \<Rightarrow> Some (ufh_channel_id m)
      | M_UpdateFailHtlc m \<Rightarrow> Some (ufl_channel_id m)
      | M_UpdateFailMalformedHtlc m \<Rightarrow> Some (ufm_channel_id m)
      | M_UpdateFee m \<Rightarrow> Some (uf_channel_id m)
      | M_CommitmentSigned m \<Rightarrow> Some (csg_channel_id m)
      | M_RevokeAndAck m \<Rightarrow> Some (raa_channel_id m)
      | M_Shutdown m \<Rightarrow> Some (sd_channel_id m)
      | M_ClosingSigned m \<Rightarrow> Some (cs_channel_id m)
      | M_ChannelReestablish m \<Rightarrow> Some (cre_channel_id m)
      | _ \<Rightarrow> None)"

lemma with_channel_foreign:
  assumes "\<And>e. map_of (nd_channels n) i = Some e \<Longrightarrow> map_of (nd_by_node_id n) (ce_node_id e) \<noteq> Some p"
  shows "with_channel E p i f n = (Inl ChannelNotFound, n)"
  using assms by (cases "map_of (nd_channels n) i") (simp_all add: with_channel_def node_unfold)



text \<open>C16: The one exception is \<^verbatim>\<open>error\<close>. A peer that names a channel of somebody else in an error message, one it has nothing to do
  with, makes the node broadcast its commitment and report the channel closed: the handler checks that the channel exists, not whose it is.\<close>

theorem error_closes_foreign_channel:
  assumes "map_of (nd_channels n) i = Some e" and "i \<noteq> replicate 32 0"
    and "signed_holder_commitment_tx (ec_of E) (ce_channel e) = Inr tx"
    and "map_of (nd_by_node_id n) (ce_node_id e) \<noteq> Some p"
  shows "handle_message E p (M_Error \<lparr>em_channel_id = i, em_data = data\<rparr>) n =
    (Inr (), n\<lparr>nd_outputs := nd_outputs n @ [Broadcast tx,
       OutEvent (ChannelClosed i (str_bytes ''peer error: '' @ from_utf8_lossy data) (Some (tx_txid tx)))]\<rparr>)"
  using assms(1-3) by (simp add: handle_message_def handle_error_def force_close_def node_unfold)

theorem error_closes_foreign_channel_witness:
  "\<exists>tx. handle_message toy_secp 2 (M_Error \<lparr>em_channel_id = [7], em_data = []\<rparr>) toy_node =
    (Inr (), toy_node\<lparr>nd_outputs := [Broadcast tx, OutEvent (ChannelClosed [7] (str_bytes ''peer error: '') (Some (tx_txid tx)))]\<rparr>)"
proof -
  obtain tx where tx: "signed_holder_commitment_tx toy_ec sample_paying = Inr tx" using sample_holder_commitment by metis
  have "[7 :: u8] \<noteq> replicate 32 0" by (simp add: list_eq_iff_nth_eq)
  then show ?thesis
    using error_closes_foreign_channel [OF toy_channel(1), of toy_secp tx 2 "[]"] tx
    by (auto simp: new_entry_def toy_node_def from_utf8_lossy.simps [of "[]"])
qed

section \<open>Opening\<close>

lemma send_to_peer_channels [simp]: "nd_channels (snd (send_to_peer p msg n)) = nd_channels n"
  by (simp add: send_to_peer_def node_unfold Let_def split: option.split prod.split sum.split)

text \<open>C15: A peer can make the node forget a channel. When the node accepts channels and the proposal is acceptable, the new channel is filed
  under the temporary id the peer chose, also when that is the id of an existing channel, of whatever peer: the existing
  entry, with its keys, balance and commitment, is gone.\<close>

theorem inbound_open_replaces:
  assumes "map_of (nd_channels n) (oc_temporary_channel_id om) = Some victim"
    and "nc_accept_inbound (nd_config n)" and "map_of (nd_peers n) p = Some peer" and "peer_node_id peer = Some k"
    and "derive_channel_signer E (nd_keys n) (nd_channel_counter n) = Some s"
    and "new_inbound (ec_of E) s (nc_channel (nd_config n)) (nc_network (nd_config n)) om = Inr (c, accept)"
  shows "map_of (nd_channels (snd (handle_message E p (M_OpenChannel om) n))) (oc_temporary_channel_id om) = Some (new_entry c k)"
proof -
  let ?n = "n\<lparr>nd_channel_counter := nd_channel_counter n + 1,
    nd_channels := AList.update (oc_temporary_channel_id om) (new_entry c k) (nd_channels n)\<rparr>"
  have "handle_message E p (M_OpenChannel om) n = send_to_peer p (M_AcceptChannel accept) ?n"
    using assms(2-6) by (simp add: handle_message_def on_open_channel_def channel_signer_def insert_entry_def node_unfold)
  then show ?thesis by (simp add: update_conv')
qed

theorem inbound_open_replaces_witness:
  "\<exists>c. map_of (nd_channels (snd (handle_message toy_secp 2 (M_OpenChannel toy_open)
      (toy_node\<lparr>nd_peers := [(2, (peer_new_inbound (Responder_new (curve_of toy_secp) [1] [2]))\<lparr>peer_node_id := Some [21]\<rparr>)]\<rparr>)))) [7] = Some (new_entry c [21])"
proof -
  let ?n = "toy_node\<lparr>nd_peers := [(2, (peer_new_inbound (Responder_new (curve_of toy_secp) [1] [2]))\<lparr>peer_node_id := Some [21]\<rparr>)]\<rparr>"
  obtain s where s: "derive_channel_signer toy_secp (nd_keys ?n) (nd_channel_counter ?n) = Some s" using toy_channel_signer by blast
  obtain c am where c: "new_inbound toy_ec s ChannelConfig_default Regtest toy_open = Inr (c, am)" using toy_open_accepted by blast
  have "nc_channel (nd_config ?n) = ChannelConfig_default" "nc_network (nd_config ?n) = Regtest" "nc_accept_inbound (nd_config ?n)"
    by (simp_all add: toy_node_def NodeConfig_new_def)
  then show ?thesis
    using inbound_open_replaces [of ?n toy_open "new_entry sample_paying [20]" 2 _ "[21]" toy_secp s c am] s c
    by (auto simp: toy_open_def toy_node_def)
qed

section \<open>Receiving\<close>



section \<open>Forwarding\<close>

lemma forward_fee_exact:
  assumes "unat a * unat (fp_fee_proportional_millionths policy) < 2 ^ 64"
  shows "unat (forward_fee policy a) = unat (fp_fee_base_msat policy) + unat a * unat (fp_fee_proportional_millionths policy) div 1000000"
    and "unat (forward_fee policy a) < 2 ^ 46"
proof -
  have "unat (ucast (fp_fee_proportional_millionths policy) :: u64) = unat (fp_fee_proportional_millionths policy)"
    using unsigned_less [of "fp_fee_proportional_millionths policy", where ?'a = nat] by (simp add: unsigned_ucast_eq take_bit_nat_eq_self)
  then have ppm: "unat (a * ucast (fp_fee_proportional_millionths policy)) = unat a * unat (fp_fee_proportional_millionths policy)"
    using assms by (simp add: unat_word_ariths)
  have base: "unat (ucast (fp_fee_base_msat policy) :: u64) = unat (fp_fee_base_msat policy)" "unat (fp_fee_base_msat policy) < 2 ^ 32"
    using unsigned_less [of "fp_fee_base_msat policy", where ?'a = nat] by (simp_all add: unsigned_ucast_eq take_bit_nat_eq_self)
  have small: "unat a * unat (fp_fee_proportional_millionths policy) div 1000000 < 2 ^ 45"
    using assms by (simp add: div_less_iff_less_mult)
  with ppm base show "unat (forward_fee policy a) = unat (fp_fee_base_msat policy) + unat a * unat (fp_fee_proportional_millionths policy) div 1000000"
    by (simp add: forward_fee_def unat_word_ariths unat_div)
  with small base show "unat (forward_fee policy a) < 2 ^ 46" by simp
qed



section \<open>Handshakes\<close>

text \<open>A failed handshake leaves a trap. When the bytes of a peer make its handshake fail, \<^verbatim>\<open>peer_input\<close> reports the error and
  keeps the peer, with its transport poisoned; the next bytes for the same peer panic.\<close>

theorem failed_handshake_panics:
  assumes "map_of (nd_peers n) p = Some peer" and "peer_input (curve_of E) data peer = Some (Inl e, poisoned)"
    and "\<not> transport_ready poisoned"
  shows "\<exists>n'. node_peer_input E p data n = (Inl (NodeNoise e), n') \<and> node_peer_input E p later_bytes n' = (Inl NodePanicked, n')"
proof -
  have "peer_transport poisoned = Poisoned"
    using assms(2,3) unfolding peer_input_def transport_ready_def
    by (auto simp: input_outbound_def input_inbound_def input_act_three_def input_ready_def Let_def
        split: PeerTransport.splits if_splits sum.splits prod.splits)
  then have "peer_input (curve_of E) later_bytes poisoned = None" by (simp add: peer_input_def)
  then show ?thesis using assms(1,2) by (simp add: node_peer_input_def node_unfold update_conv')
qed

theorem failed_handshake_panics_witness:
  "let n = toy_node\<lparr>nd_peers := [(1, peer_new_inbound (Responder_new (curve_of toy_secp) [1] [2]))]\<rparr> in
   \<exists>n'. node_peer_input toy_secp 1 (replicate 50 1) n = (Inl (NodeNoise (BadVersion 1)), n') \<and> node_peer_input toy_secp 1 [] n' = (Inl NodePanicked, n')"
proof -
  let ?peer = "peer_new_inbound (Responder_new (curve_of toy_secp) [1] [2])"
  have "\<exists>q. peer_input (curve_of toy_secp) (replicate 50 1) ?peer = Some (Inl (BadVersion 1), q) \<and> \<not> transport_ready q"
    by (simp add: peer_input_def peer_new_inbound_def input_inbound_def handshake_acted_one_def acted_one_def Responder_new_def
        ACT_ONE_LEN_def responder_act_one_def transport_ready_def Let_def)
  then show ?thesis
    using failed_handshake_panics [of "toy_node\<lparr>nd_peers := [(1, ?peer)]\<rparr>" 1 ?peer toy_secp "replicate 50 1" "BadVersion 1" _ "[]"]
    by (auto simp: Let_def)
qed

end
