(* ===== verification/Node_Logic.thy ===== *)
theory Node_Logic
  imports Node Channel_Safety
begin

text \<open>
  A small program logic for the node. \<open>ok P m Q\<close> says that \<open>m\<close> keeps the invariant \<open>P\<close>, whatever its outcome, and that the
  value it returns satisfies \<open>Q\<close>. The locale \<open>node_keeper\<close> states what an invariant must withstand at the few places where
  the node writes its channels, invoices and claimable payments; inside it every operation of the node keeps the invariant.
\<close>

definition ok :: "(Node \<Rightarrow> bool) \<Rightarrow> 'a node \<Rightarrow> ('a \<Rightarrow> bool) \<Rightarrow> bool" where
  "ok P m Q \<longleftrightarrow> (\<forall>n. P n \<longrightarrow> P (snd (m n)) \<and> (case fst (m n) of Inl _ \<Rightarrow> True | Inr a \<Rightarrow> Q a))"

abbreviation keeps :: "(Node \<Rightarrow> bool) \<Rightarrow> 'a node \<Rightarrow> bool" where
  "keeps P m \<equiv> ok P m (\<lambda>_. True)"

named_theorems ok_rules

lemma okD: "ok P m Q \<Longrightarrow> P n \<Longrightarrow> P (snd (m n))"
  by (simp add: ok_def)

lemma ok_nbind [ok_rules]:
  assumes "ok P m R" "\<And>a. R a \<Longrightarrow> ok P (f a) Q"
  shows "ok P (nbind m f) Q"
  unfolding ok_def
proof (intro allI impI)
  fix n assume "P n"
  then have "P (snd (m n)) \<and> (case fst (m n) of Inl _ \<Rightarrow> True | Inr a \<Rightarrow> R a)" using assms(1) by (simp add: ok_def)
  then show "P (snd (nbind m f n)) \<and> (case fst (nbind m f n) of Inl _ \<Rightarrow> True | Inr a \<Rightarrow> Q a)"
    using assms(2) [unfolded ok_def, rule_format] by (cases "m n"; cases "fst (m n)") (simp_all add: nbind_def)
qed

lemma ok_basic [ok_rules]:
  "ok P (nret a) (\<lambda>_. True)" "ok P (nthrow e) Q" "ok P (asks f) (\<lambda>_. True)"
  "ok P (need e m) (\<lambda>_. True)" "ok P (lift g r) (\<lambda>_. True)"
  by (simp_all add: ok_def nret_def nthrow_def asks_def need_def lift_def split: option.splits sum.splits)

lemma ok_attempt [ok_rules]: "ok P m (\<lambda>_. True) \<Longrightarrow> ok P (attempt m) (\<lambda>_. True)"
  by (auto simp: ok_def attempt_def split: sum.splits prod.splits)

lemma ok_each [ok_rules]: "(\<And>x. ok P (f x) (\<lambda>_. True)) \<Longrightarrow> ok P (each f xs) (\<lambda>_. True)"
  by (induction xs) (simp_all, rule ok_basic, rule ok_nbind)

lemma ok_split [ok_rules]:
  "(b \<Longrightarrow> ok P m Q) \<Longrightarrow> (\<not> b \<Longrightarrow> ok P m' Q) \<Longrightarrow> ok P (if b then m else m') Q"
  "ok P (f v) Q \<Longrightarrow> ok P (Let v f) Q"
  "(\<And>a b. x = (a, b) \<Longrightarrow> ok P (g a b) Q) \<Longrightarrow> ok P (case_prod g x) Q"
  "(y = None \<Longrightarrow> ok P m Q) \<Longrightarrow> (\<And>a. y = Some a \<Longrightarrow> ok P (h a) Q) \<Longrightarrow> ok P (case_option m h y) Q"
  "(\<And>a. z = Inl a \<Longrightarrow> ok P (k a) Q) \<Longrightarrow> (\<And>a. z = Inr a \<Longrightarrow> ok P (l a) Q) \<Longrightarrow> ok P (case_sum k l z) Q"
  by (simp_all split: prod.splits option.splits sum.splits)

lemma ok_case_error [ok_rules]:
  "(\<And>t. ok P (f t) Q) \<Longrightarrow> (\<And>t. ok P (g t) Q) \<Longrightarrow> (\<And>t. ok P (h t) Q) \<Longrightarrow> ok P m Q \<Longrightarrow> ok P (case_ChannelError f g h m e) Q"
  by (simp split: ChannelError.split)

lemma ok_case_bool [ok_rules]: "ok P m Q \<Longrightarrow> ok P m' Q \<Longrightarrow> ok P (case_bool m m' b) Q"
  by (simp split: bool.split)

lemma ok_modify: "(\<And>n. P n \<Longrightarrow> P (f n)) \<Longrightarrow> ok P (modify f) (\<lambda>_. True)"
  by (simp add: ok_def modify_def)

section \<open>Channel operations\<close>

text \<open>Every way the node changes a channel: each of the channel's own operations, whatever its arguments and its outcome.\<close>

inductive channel_op :: "EC \<Rightarrow> Channel \<Rightarrow> Channel \<Rightarrow> bool" for E where
  "channel_op E c (snd (on_accept_channel am c))"
| "channel_op E c (snd (funding_created E txid vout c))"
| "channel_op E c (snd (on_funding_created E fm c))"
| "channel_op E c (snd (on_funding_signed E fs c))"
| "channel_op E c (snd (funding_confirmed E scid c))"
| "channel_op E c (snd (on_channel_ready cr c))"
| "channel_op E c (snd (send_add_htlc a ph cltv onion src c))"
| "channel_op E c (snd (send_fulfill_htlc i p c))"
| "channel_op E c (snd (send_fail_htlc i re c))"
| "channel_op E c (snd (send_fail_malformed_htlc i sha code c))"
| "channel_op E c (snd (on_update_add_htlc um c))"
| "channel_op E c (snd (on_update_fulfill_htlc ufm c))"
| "channel_op E c (snd (on_update_fail_htlc xm c))"
| "channel_op E c (snd (on_update_fail_malformed_htlc mm c))"
| "channel_op E c (snd (on_update_fee fem c))"
| "channel_op E c (snd (send_commitment_signed E c))"
| "channel_op E c (snd (on_commitment_signed E csm c))"
| "channel_op E c (snd (on_revoke_and_ack E rm c))"
| "channel_op E c (snd (send_shutdown script c))"
| "channel_op E c (snd (on_shutdown sm script c))"
| "channel_op E c (snd (maybe_send_closing_signed E fr c))"
| "channel_op E c (snd (on_closing_signed E cm fr c))"
| "channel_op E c (snd (on_disconnect c))"
| "channel_op E c c"

section \<open>Invariants of the node\<close>

locale node_keeper =
  fixes E :: NodeSecp and P :: "Node \<Rightarrow> bool" and chan_ok :: "Channel \<Rightarrow> bool"
  assumes frame: "P n \<Longrightarrow> nd_channels n' = nd_channels n \<Longrightarrow> nd_invoices n' = nd_invoices n \<Longrightarrow> nd_claimable n' = nd_claimable n \<Longrightarrow> P n'"
    and held: "P n \<Longrightarrow> e \<in> snd ` set (nd_channels n) \<Longrightarrow> chan_ok (ce_channel e)"
    and put: "P n \<Longrightarrow> (\<And>e. e \<in> snd ` set es \<Longrightarrow> chan_ok (ce_channel e)) \<Longrightarrow> P (n\<lparr>nd_channels := es\<rparr>)"
    and opened: "new_outbound (ec_of E) signer config network tid funding push fr = Inr (c, om) \<Longrightarrow> chan_ok c"
    and accepted: "new_inbound (ec_of E) signer config network om = Inr (c, am) \<Longrightarrow> chan_ok c"
    and oper: "chan_ok c \<Longrightarrow> channel_op (ec_of E) c c' \<Longrightarrow> chan_ok c'"
    and invoice: "P n \<Longrightarrow> P (n\<lparr>nd_invoices := AList.update (payment_hash (ie_preimage i)) i (nd_invoices n)\<rparr>)"
    and claimable: "P n \<Longrightarrow> final_htlc_failure n htlc payload = None \<Longrightarrow>
      P (n\<lparr>nd_claimable := AList.update (cih_payment_hash htlc) (cid, cih_id htlc, cih_amount_msat htlc) (nd_claimable n)\<rparr>)"
    and unclaim: "P n \<Longrightarrow> P (n\<lparr>nd_claimable := AList.delete h (nd_claimable n)\<rparr>)"
begin

text \<open>Writes outside the three fields.\<close>

lemma keep_modify [ok_rules]:
  "keeps P (modify (\<lambda>n. n\<lparr>nd_outputs := f n\<rparr>))" "keeps P (modify (\<lambda>n. n\<lparr>nd_peers := f1 n\<rparr>))"
  "keeps P (modify (\<lambda>n. n\<lparr>nd_by_node_id := f2 n\<rparr>))" "keeps P (modify (\<lambda>n. n\<lparr>nd_scid_index := f3 n\<rparr>))"
  "keeps P (modify (\<lambda>n. n\<lparr>nd_channel_counter := f4 n\<rparr>))" "keeps P (modify (\<lambda>n. n\<lparr>nd_payments := f5 n\<rparr>))"
  "keeps P (modify (\<lambda>n. n\<lparr>nd_inbound_onion_secrets := f6 n\<rparr>))" "keeps P (modify (\<lambda>n. n\<lparr>nd_forward_fees := f7 n\<rparr>))"
  "keeps P (modify (\<lambda>n. n\<lparr>nd_now := f8 n\<rparr>))"
  by (auto intro!: ok_modify elim: frame)

lemma keep_unclaim [ok_rules]: "keeps P (modify (\<lambda>n. n\<lparr>nd_claimable := AList.delete h (nd_claimable n)\<rparr>))"
  by (auto intro!: ok_modify unclaim)

lemma keep_state [ok_rules]: "keeps P random_bytes" "keeps P (random_secret_key E)" "keeps P (add_peer p)" "keeps P (apply_to_graph g)"
  by (auto simp: ok_def random_bytes_def random_secret_key_def add_peer_def apply_to_graph_def Let_def
      split: prod.splits option.splits sum.splits elim!: frame)

lemma keep_emit [ok_rules]: "keeps P (emit x)"
  unfolding emit_def by (rule ok_rules)+

lemma keep_send_to_peer [ok_rules]: "keeps P (send_to_peer p msg)"
proof -
  have "P (snd (nbind (lift NodeNoise r) (\<lambda>bs. emit (Wire p bs)) (n\<lparr>nd_peers := ps\<rparr>)))" if "P n" for n r ps
  proof (rule okD [where P = P])
    show "keeps P (nbind (lift NodeNoise r) (\<lambda>bs. emit (Wire p bs)))" by (rule ok_rules)+
    show "P (n\<lparr>nd_peers := ps\<rparr>)" using that by (rule frame) simp_all
  qed
  then show ?thesis by (auto simp: ok_def send_to_peer_def Let_def split: option.splits prod.splits sum.splits)
qed

lemma keep_sending [ok_rules]:
  "keeps P (send_to_node k msg)" "keeps P (send_warning p text)" "keeps P (broadcast_to_ready_peers msg)" "keeps P our_chain_hash"
  "keeps P (send_init p)" "keeps P (channel_signer E)"
  unfolding send_to_node_def send_warning_def broadcast_to_ready_peers_def our_chain_hash_def send_init_def channel_signer_def
  by (rule ok_rules)+


text \<open>Access to channels.\<close>

lemma found_ok: "P n \<Longrightarrow> map_of (nd_channels n) i = Some e \<Longrightarrow> chan_ok (ce_channel e)"
  by (rule held) (auto dest: map_of_SomeD intro: rev_image_eqI)

lemma keep_entry_at [ok_rules]: "ok P (entry_at err i) (\<lambda>e. chan_ok (ce_channel e))"
  by (auto simp: ok_def entry_at_def nbind_def asks_def need_def dest: found_ok split: option.splits)

lemma map_entry_values: "e \<in> snd ` set (AList.map_entry i f xs) \<Longrightarrow> e \<in> snd ` set xs \<or> (\<exists>e' \<in> snd ` set xs. e = f e')"
  by (induction xs) (auto split: if_splits)

lemma keep_set_entry:
  assumes "\<And>e. chan_ok (ce_channel e) \<Longrightarrow> chan_ok (ce_channel (f e))"
  shows "keeps P (set_entry i f)"
  unfolding set_entry_def by (rule ok_modify) (rule put, assumption, auto dest!: map_entry_values intro!: assms elim!: held [OF _ image_eqI, rotated 2])

lemma keep_set_data [ok_rules]:
  "keeps P (set_entry i (\<lambda>e. e\<lparr>ce_funding_tx := x\<rparr>))" "keeps P (set_entry i (\<lambda>e. e\<lparr>ce_announced := b\<rparr>))"
  "keeps P (set_entry i (\<lambda>e. e\<lparr>ce_sent_announcement_sigs := b\<rparr>))" "keeps P (set_entry i (\<lambda>e. e\<lparr>ce_their_announcement_sigs := y\<rparr>))"
  by (rule keep_set_entry, simp)+

lemma keep_channel_run:
  assumes "chan_ok (ce_channel e)" "channel_op (ec_of E) (ce_channel e) (snd (f (ce_channel e)))"
  shows "keeps P (channel_run i e f)"
  unfolding channel_run_def
  by (rule ok_nbind [OF keep_set_entry]) (simp add: oper [OF assms], rule ok_basic)

lemma keep_channel_call:
  assumes "\<And>c. channel_op (ec_of E) c (snd (f c))"
  shows "keeps P (channel_call i f)"
  unfolding channel_call_def
  by (rule ok_rules keep_channel_run assms | assumption)+

lemma keep_insert_entry: "chan_ok (ce_channel e) \<Longrightarrow> keeps P (insert_entry i e)"
proof -
  have "e' \<in> snd ` set (AList.update i e xs) \<Longrightarrow> e' \<in> insert e (snd ` set xs)" for e' xs
    by (induction xs) (auto split: if_splits)
  then show "keeps P (insert_entry i e)" if "chan_ok (ce_channel e)"
    unfolding insert_entry_def using that by (intro ok_modify) (rule put, assumption, blast intro: held)
qed

lemma keep_remove_entry [ok_rules]: "ok P (remove_entry i) (\<lambda>e. chan_ok (ce_channel e))"
proof -
  have "keeps P (modify (\<lambda>n. n\<lparr>nd_channels := AList.delete i (nd_channels n)\<rparr>))"
    by (rule ok_modify) (rule put, assumption, auto simp: AList.delete_eq elim!: held [OF _ image_eqI, rotated 2])
  moreover have "ok P (nret e) (\<lambda>e. chan_ok (ce_channel e))" if "chan_ok (ce_channel e)" for e
    using that by (simp add: ok_def nret_def)
  ultimately show ?thesis unfolding remove_entry_def by (blast intro: ok_nbind keep_entry_at)
qed

lemma keep_force_close [ok_rules]: "keeps P (force_close E i reason)"
  unfolding force_close_def by (rule ok_rules)+

lemma keep_with_channel:
  fixes f :: "Channel \<Rightarrow> 'a cresult \<times> Channel"
  assumes "\<And>c. channel_op (ec_of E) c (snd (f c))"
  shows "keeps P (with_channel E p i f)"
  unfolding with_channel_def by (rule ok_rules keep_channel_run assms | assumption)+

lemma keep_disconnect_entries:
  "(\<And>e. e \<in> snd ` set es \<Longrightarrow> chan_ok (ce_channel e)) \<Longrightarrow> list_all (\<lambda>ke. chan_ok (ce_channel (snd ke))) (snd (disconnect_entries k es))"
proof (induction es)
  case (Cons ke es)
  have here: "chan_ok (ce_channel (snd ke))" and rest: "list_all (\<lambda>ke. chan_ok (ce_channel (snd ke))) es"
    and later: "list_all (\<lambda>ke. chan_ok (ce_channel (snd ke))) (snd (disconnect_entries k es))"
    using Cons by (simp_all add: list_all_iff)
  have "chan_ok (snd (on_disconnect (ce_channel (snd ke))))" by (rule oper [OF here]) (rule channel_op.intros)
  then show ?case using here rest later by (simp add: Let_def split: prod.split sum.split) (metis snd_conv)
qed simp

lemma keep_disconnect_channels [ok_rules]: "keeps P (disconnect_channels k)"
proof -
  have "P (n\<lparr>nd_channels := snd (disconnect_entries k (nd_channels n))\<rparr>)" if "P n" for n
    using that by (rule put) (use keep_disconnect_entries [OF held [OF that]] in \<open>auto simp: list_all_iff\<close>)
  then show ?thesis by (auto simp: ok_def disconnect_channels_def Let_def split: prod.splits sum.splits) (metis snd_conv)+
qed

lemma keep_run_add: "chan_ok (ce_channel e) \<Longrightarrow> keeps P (channel_run i e (send_add_htlc a ph cltv onion src))"
  by (rule keep_channel_run, assumption, rule channel_op.intros)

lemmas keep_ops = keep_run_add keep_channel_call [OF channel_op.intros(2)] keep_channel_call [OF channel_op.intros(5)]
  keep_channel_call [OF channel_op.intros(7)] keep_channel_call [OF channel_op.intros(8)] keep_channel_call [OF channel_op.intros(9)]
  keep_channel_call [OF channel_op.intros(10)] keep_channel_call [OF channel_op.intros(16)] keep_channel_call [OF channel_op.intros(19)]
  keep_channel_call [OF channel_op.intros(21)]
  keep_with_channel [OF channel_op.intros(1)] keep_with_channel [OF channel_op.intros(3)] keep_with_channel [OF channel_op.intros(4)]
  keep_with_channel [OF channel_op.intros(6)] keep_with_channel [OF channel_op.intros(11)] keep_with_channel [OF channel_op.intros(12)]
  keep_with_channel [OF channel_op.intros(13)] keep_with_channel [OF channel_op.intros(14)] keep_with_channel [OF channel_op.intros(15)]
  keep_with_channel [OF channel_op.intros(17)] keep_with_channel [OF channel_op.intros(18)] keep_with_channel [OF channel_op.intros(20)]
  keep_with_channel [OF channel_op.intros(22)]

section \<open>Connections and channels\<close>

lemma keep_connections [ok_rules]:
  "keeps P (connect_outbound E k)" "keeps P (accept_inbound E)" "keeps P (peer_disconnected p)" "keeps P (tick t)"
  unfolding connect_outbound_def accept_inbound_def peer_disconnected_def tick_def by (rule ok_rules)+

lemma keep_build_our_announcement [ok_rules]: "keeps P (build_our_announcement E i)"
proof -
  have *: "keeps P (nbind (need NodePanicked d) (\<lambda>d. nbind our_chain_hash (\<lambda>ch. nret (Some (f d ch)))))"
    for d :: "Signature option" and f :: "Signature \<Rightarrow> bytes \<Rightarrow> ChannelAnnouncement \<times> bool"
    by (rule ok_rules)+
  show ?thesis unfolding ok_def
    by (auto simp: build_our_announcement_def okD [OF *] split: option.splits sum.splits)
qed

lemma keep_announcing [ok_rules]:
  "keeps P (build_our_channel_update E i b)" "keeps P (publish_announcement E i h a b)" "keeps P (maybe_announce_channel E i)"
  "keeps P (on_announcement_signatures E p anns)" "keeps P (after_channel_ready_change E i)"
  unfolding on_announcement_signatures_def after_channel_ready_change_def maybe_announce_channel_def publish_announcement_def build_our_channel_update_def
  by (rule ok_rules)+

lemma keep_new_outbound [ok_rules]:
  "ok P (lift channel_error (new_outbound (ec_of E) signer config network tid funding push fr)) (\<lambda>(c, _). chan_ok c)"
  by (auto simp: ok_def lift_def dest: opened split: sum.splits)

lemma keep_insert_new: "chan_ok c \<Longrightarrow> keeps P (insert_entry i (new_entry c k))"
  by (rule keep_insert_entry) (simp add: new_entry_def)

lemma keep_opening [ok_rules]:
  "keeps P (node_funding_confirmed E i scid)" "keeps P (provide_funding_transaction E i tx)"
  "keeps P (node_on_accept_channel E p am)" "keeps P (node_on_funding_created E p fc)" "keeps P (node_on_funding_signed E p fs)"
  unfolding node_funding_confirmed_def provide_funding_transaction_def node_on_accept_channel_def node_on_funding_created_def node_on_funding_signed_def
  by (rule keep_ops ok_rules keep_insert_entry | assumption)+

lemma keep_open_channel [ok_rules]: "keeps P (open_channel E k cap push)"
  unfolding open_channel_def
  by (rule ok_rules keep_insert_new | simp | assumption)+

lemma keep_on_open_channel [ok_rules]: "keeps P (on_open_channel E p om)"
  unfolding on_open_channel_def
  by (rule ok_rules keep_insert_new | erule accepted | simp | assumption)+

lemma keep_closing [ok_rules]:
  "keeps P (try_start_closing E i)" "keeps P (finish_cooperative_close i tx)"
  unfolding try_start_closing_def finish_cooperative_close_def
  by (rule keep_ops ok_rules | assumption)+

lemma keep_close_channel [ok_rules]: "keeps P (close_channel E i)"
  unfolding close_channel_def by (rule keep_ops ok_rules | assumption)+

lemma keep_on_closing_signed [ok_rules]: "keeps P (node_on_closing_signed E p cs)"
proof -
  have "keeps P (case r of Reply reply maybe_tx \<Rightarrow> nbind (send_to_peer p (M_ClosingSigned reply)) (\<lambda>_. case maybe_tx of None \<Rightarrow> nret () | Some tx \<Rightarrow> finish_cooperative_close i tx)
      | Done tx \<Rightarrow> finish_cooperative_close i tx)" for r i
    by (cases r) (simp_all only: ClosingSignedOutcome.case, (rule ok_rules)+)
  note this [ok_rules]
  show ?thesis unfolding node_on_closing_signed_def by (rule keep_ops ok_rules | assumption | fact)+
qed

lemma keep_accept_features [ok_rules]: "keeps P (accept_features E p f)"
  unfolding accept_features_def
  by (rule ok_rules)+

lemma keep_on_init [ok_rules]: "keeps P (on_init E p i)"
  unfolding on_init_def by (rule ok_rules)+

section \<open>Payments\<close>

lemma keep_flush [ok_rules]: "keeps P (flush_commitment E i)"
  unfolding flush_commitment_def by (rule keep_ops ok_rules | assumption)+

lemma keep_settle:
  assumes "\<And>c. channel_op (ec_of E) c (snd (f c))"
  shows "keeps P (settle_htlc E g i f)"
  unfolding settle_htlc_def by (rule keep_channel_call assms ok_rules | assumption)+

lemmas keep_settlements [ok_rules] = keep_settle [OF channel_op.intros(8)] keep_settle [OF channel_op.intros(9)] keep_settle [OF channel_op.intros(10)]

lemma keep_invoice [ok_rules]:
  "keeps P (modify (\<lambda>n. n\<lparr>nd_invoices := AList.update (payment_hash p)
     \<lparr>ie_preimage = p, ie_payment_secret = s, ie_amount_msat = a, ie_min_final_cltv = m\<rparr> (nd_invoices n)\<rparr>))"
proof (rule ok_modify)
  fix n assume "P n"
  then show "P (n\<lparr>nd_invoices := AList.update (payment_hash p)
     \<lparr>ie_preimage = p, ie_payment_secret = s, ie_amount_msat = a, ie_min_final_cltv = m\<rparr> (nd_invoices n)\<rparr>)"
    using invoice [of n "\<lparr>ie_preimage = p, ie_payment_secret = s, ie_amount_msat = a, ie_min_final_cltv = m\<rparr>"] by simp
qed

lemma keep_payments [ok_rules]:
  "keeps P (create_invoice E a d x)" "keeps P (build_onion E hops ps h)" "keeps P (claim_payment E h)"
  "keeps P (fail_inbound E i j code data)" "keeps P (fail_inbound_malformed E i j bs)"
  unfolding create_invoice_def build_onion_def claim_payment_def fail_inbound_def fail_inbound_malformed_def
  by (rule ok_rules)+

lemma keep_pay_invoice [ok_rules]: "keeps P (pay_invoice E b a)"
  unfolding pay_invoice_def by (rule keep_ops ok_rules | assumption)+

lemma ok_case_source [ok_rules]:
  "(\<And>i. ok P (f i) Q) \<Longrightarrow> (\<And>i j. ok P (g i j) Q) \<Longrightarrow> ok P (case_HtlcSource f g s) Q"
  by (simp split: HtlcSource.split)

lemma ok_case_peeled [ok_rules]:
  "(\<And>b p. ok P (f b p) Q) \<Longrightarrow> (\<And>b. ok P (g b) Q) \<Longrightarrow> ok P (case_Peeled f g s) Q"
  by (simp split: Peeled.split)

lemma keep_settling [ok_rules]:
  "keeps P (on_htlc_fulfilled E src p)" "keeps P (on_htlc_failed E src r c)"
  unfolding on_htlc_fulfilled_def on_htlc_failed_def by (rule ok_rules)+

lemma keep_failed_locally [ok_rules]: "keeps P (on_htlc_failed_locally E src)"
  unfolding on_htlc_failed_locally_def by (rule ok_rules)

lemma keep_receive_final_htlc [ok_rules]: "keeps P (receive_final_htlc E i htlc payload)"
  unfolding ok_def
proof (intro allI impI conjI)
  fix n assume n: "P n"
  show "P (snd (receive_final_htlc E i htlc payload n))"
  proof (cases "final_htlc_failure n htlc payload")
    case None
    let ?n = "n\<lparr>nd_claimable := AList.update (cih_payment_hash htlc) (i, cih_id htlc, cih_amount_msat htlc) (nd_claimable n)\<rparr>"
    have "keeps P (nbind (emit (OutEvent (PaymentClaimable (cih_payment_hash htlc) (cih_amount_msat htlc)))) (\<lambda>_.
         nbind (asks (\<lambda>n. nc_auto_claim (nd_config n))) (\<lambda>auto_claim.
         if auto_claim then claim_payment E (cih_payment_hash htlc) else nret ())))"
      by (rule ok_rules)+
    from okD [OF this claimable [OF n None, of i]] None show ?thesis
      by (simp add: receive_final_htlc_def nbind_def [of "asks _"] asks_def [of "\<lambda>n. final_htlc_failure n htlc payload"]
          nbind_def [of "modify _"] modify_def [of "nd_claimable_update _"] modify_def)
  next
    case (Some f)
    have "keeps P (fail_inbound E i (cih_id htlc) (fst f) (snd f))" by (rule ok_rules)
    from okD [OF this n] Some show ?thesis
      by (cases f) (simp add: receive_final_htlc_def nbind_def [of "asks _"] asks_def [of "\<lambda>n. final_htlc_failure n htlc payload"])
  qed
qed (simp split: sum.split)

lemma keep_forwarding [ok_rules]:
  "keeps P (forward_result E i j k node fee r)" "keeps P (forward_htlc E i htlc payload nxt)"
  unfolding forward_htlc_def forward_result_def by (rule keep_ops ok_rules | assumption)+

lemma keep_committed [ok_rules]:
  "keeps P (dispatch_peeled E i htlc pl)" "keeps P (process_committed_htlc E i htlc)"
  unfolding process_committed_htlc_def dispatch_peeled_def by (rule ok_rules)+

section \<open>Dispatch\<close>

lemma keep_handlers [ok_rules]:
  "keeps P (handle_ping p x1)" "keeps P (handle_error E x2)" "keeps P (handle_commitment_signed E p x3)" "keeps P (handle_revoke_and_ack E p x4)"
  "keeps P (handle_shutdown E p x5)" "keeps P (handle_gossip msg f)"
  unfolding handle_ping_def handle_error_def handle_commitment_signed_def handle_revoke_and_ack_def handle_shutdown_def handle_gossip_def
  by (rule keep_ops ok_rules | assumption)+

lemma keep_handle_reestablish [ok_rules]: "keeps P (handle_reestablish E p re)"
  unfolding handle_reestablish_def by (rule ok_rules keep_with_channel | simp add: channel_op.intros)+

lemma keep_handle_message [ok_rules]: "keeps P (handle_message E p msg)"
  by (cases msg; simp only: handle_message_def Message.case; (rule keep_ops ok_rules | assumption)+)

lemma keep_handle_plaintext [ok_rules]: "keeps P (handle_plaintext E p bs)"
  unfolding handle_plaintext_def by (auto split: sum.split WireError.split intro: ok_rules)

lemma keep_announce_ready [ok_rules]: "keeps P (announce_ready p peer)"
  unfolding announce_ready_def by (rule ok_rules)+

lemma keep_peer_input [ok_rules]: "keeps P (node_peer_input E p data)"
proof -
  have *: "keeps P (nbind (modify (\<lambda>n. n\<lparr>nd_peers := ps n\<rparr>)) (\<lambda>_.
            nbind (lift NodeNoise r) (\<lambda>(to_send, messages).
            nbind (each (\<lambda>bs. emit (Wire p bs)) to_send) (\<lambda>_.
            nbind (if b then announce_ready p peer' else nret ()) (\<lambda>_.
            each (handle_plaintext E p) messages)))))" for ps r b peer'
    by (rule ok_rules)+
  show ?thesis unfolding ok_def by (auto simp: node_peer_input_def okD [OF *] split: option.splits sum.splits)
qed

end

section \<open>Runs\<close>

text \<open>Any sequence of inputs: bytes of peers, blocks, time and commands, in any order and with any outcome.\<close>

inductive node_step :: "NodeSecp \<Rightarrow> Node \<Rightarrow> Node \<Rightarrow> bool" for E where
  "node_step E n (snd (connect_outbound E k n))"
| "node_step E n (snd (accept_inbound E n))"
| "node_step E n (snd (node_peer_input E p data n))"
| "node_step E n (snd (peer_disconnected p n))"
| "node_step E n (best_block_updated h n)"
| "node_step E n (snd (tick t n))"
| "node_step E n (snd (node_funding_confirmed E i scid n))"
| "node_step E n (snd (open_channel E k capacity push n))"
| "node_step E n (snd (provide_funding_transaction E i tx n))"
| "node_step E n (snd (close_channel E i n))"
| "node_step E n (snd (force_close E i reason n))"
| "node_step E n (snd (create_invoice E amt description expiry n))"
| "node_step E n (snd (pay_invoice E bolt11 amt n))"
| "node_step E n (snd (claim_payment E hash n))"
| "node_step E n (snd (poll_output n))"
| "node_step E n (with_scorer f n)"

context node_keeper
begin

lemma keep_step: "node_step E n n' \<Longrightarrow> P n \<Longrightarrow> P n'"
  by (induction rule: node_step.induct)
    (auto intro: okD [OF keep_connections(1)] okD [OF keep_connections(2)] okD [OF keep_connections(3)] okD [OF keep_connections(4)]
      okD [OF keep_peer_input] okD [OF keep_opening(1)] okD [OF keep_opening(2)] okD [OF keep_open_channel] okD [OF keep_close_channel]
      okD [OF keep_force_close] okD [OF keep_payments(1)] okD [OF keep_pay_invoice] okD [OF keep_payments(3)]
      simp: best_block_updated_def poll_output_def with_scorer_def split: list.split elim: frame)

lemma keep_run: "(node_step E)\<^sup>*\<^sup>* n n' \<Longrightarrow> P n \<Longrightarrow> P n'"
  by (induction rule: rtranclp_induct) (blast intro: keep_step)+

end

end
