(* ===== verification/Node_Inv.thy ===== *)
theory Node_Inv
  imports Node_Logic Node_Sample
begin

text \<open>
  Two invariants of the running node, as instances of \<open>node_keeper\<close>: every channel satisfies the session invariant of the
  channel theories, and every payment that can be claimed has an invoice with the preimage of its hash.
\<close>

section \<open>Every channel stays enforceable\<close>

definition sessions :: "NodeSecp \<Rightarrow> Node \<Rightarrow> bool" where
  "sessions E n \<longleftrightarrow> list_all (\<lambda>(_, e). sess (ec_of E) (ce_channel e)) (nd_channels n)"

lemma sessions_iff: "sessions E n \<longleftrightarrow> (\<forall>e \<in> snd ` set (nd_channels n). sess (ec_of E) (ce_channel e))"
  by (auto simp: sessions_def list_all_iff)

text \<open>Neither a disconnect nor a panic in \<^verbatim>\<open>revoke_and_ack\<close> touches what the session invariant speaks of.\<close>

lemma sess_disconnect: "sess E c \<Longrightarrow> sess E (snd (on_disconnect c))"
proof (rule calm_sess)
  show "calm c (snd (on_disconnect c))"
    by (auto simp: on_disconnect_def calm_def session_def identity_def early_def Let_def split: option.split)
qed

lemma sess_revoke_any: "sess E c \<Longrightarrow> sess E (snd (on_revoke_and_ack E msg c))"
proof (cases "fst (on_revoke_and_ack E msg c) = Inl Panicked")
  case True
  assume inv: "sess E c"
  have "calm c (c\<lparr>ch_pending_counterparty_commitment := None\<rparr>)" by (simp add: calm_def session_def identity_def early_def)
  with inv have "sess E (c\<lparr>ch_pending_counterparty_commitment := None\<rparr>)" by (rule calm_sess)
  then show ?thesis using inv sess_flush [OF sess_apply_revocation [OF inv]]
    by (auto simp: on_revoke_and_ack_def Let_def split: option.splits sum.splits)
qed (blast intro: sess_revoke)

lemma sess_op: "channel_op E c c' \<Longrightarrow> sess E c \<Longrightarrow> sess E c'"
  by (induction rule: channel_op.induct)
    (auto intro: sess_step channel_step.intros sess_disconnect sess_revoke_any calm_sess [OF _ calm_updates_sent(1)]
      calm_sess [OF _ calm_updates_received(1)])

lemma sess_new:
  "new_outbound E signer config network tid funding push fr = Inr (c, om) \<Longrightarrow> sess E c"
  "new_inbound E signer config network oc = Inr (c, am) \<Longrightarrow> sess E c"
  by (auto simp: new_outbound_def new_inbound_def Let_def rbind_def close_err_def fresh_channel_def sess_def early_def split: if_splits sum.splits)

interpretation enforce: node_keeper E "sessions E" "sess (ec_of E)" for E
  by unfold_locales (auto simp: sessions_iff intro: sess_op sess_new)

section \<open>Claimable payments have their preimage\<close>

definition invoices_ok :: "Node \<Rightarrow> bool" where
  "invoices_ok n \<longleftrightarrow> list_all (\<lambda>(h, i). payment_hash (ie_preimage i) = h) (nd_invoices n)
     \<and> list_all (\<lambda>(h, _). h \<in> fst ` set (nd_invoices n)) (nd_claimable n)"

lemma update_member: "x \<in> set (AList.update k v xs) \<Longrightarrow> x = (k, v) \<or> x \<in> set xs"
  by (induction xs) (auto split: if_splits)

lemma update_domain: "fst ` set (AList.update k v xs) = insert k (fst ` set xs)"
  by (simp add: dom_update)

lemma accepted_has_invoice: "final_htlc_failure n htlc payload = None \<Longrightarrow> cih_payment_hash htlc \<in> fst ` set (nd_invoices n)"
  by (auto simp: final_htlc_failure_def Let_def dest!: map_of_SomeD intro: rev_image_eqI split: option.splits)

interpretation claims: node_keeper E invoices_ok "\<lambda>_. True" for E
proof unfold_locales
  fix n i assume "invoices_ok n"
  then show "invoices_ok (n\<lparr>nd_invoices := AList.update (payment_hash (ie_preimage i)) i (nd_invoices n)\<rparr>)"
    by (fastforce simp: invoices_ok_def list_all_iff update_domain dest: update_member)
next
  fix n htlc payload cid assume "invoices_ok n" "final_htlc_failure n htlc payload = None"
  then show "invoices_ok (n\<lparr>nd_claimable := AList.update (cih_payment_hash htlc) (cid, cih_id htlc, cih_amount_msat htlc) (nd_claimable n)\<rparr>)"
    by (fastforce simp: invoices_ok_def list_all_iff dest: update_member accepted_has_invoice)
next
  fix n h assume "invoices_ok n"
  then show "invoices_ok (n\<lparr>nd_claimable := AList.delete h (nd_claimable n)\<rparr>)"
    by (auto simp: invoices_ok_def list_all_iff AList.delete_eq)
qed (auto simp: invoices_ok_def)

section \<open>Properties\<close>

text \<open>C7: A node can always enforce its channels. Whatever peers send, in whatever order and interleaved with blocks, commands,
  reconnections and failures, starting from a node whose channels satisfy the session invariant (a new node has none),
  \<^verbatim>\<open>force_close\<close> succeeds on every channel that has a holder commitment: it queues for broadcast the latest
  commitment, spent with our signature and a signature of the counterparty that is valid for it, and then the event.\<close>

theorem node_always_enforceable:
  assumes "sessions E n" and "(node_step E)\<^sup>*\<^sup>* n n'" and "map_of (nd_channels n') i = Some e"
    and "ch_current_holder_commitment (ce_channel e) = Some hc"
  shows "hc_number hc = ch_holder_commitment_number (ce_channel e)
    \<and> (\<exists>cp sighash tx. counterparty (ce_channel e) = Inr cp \<and> funding_sighash (ce_channel e) (bct_tx (hc_built hc)) = Inr sighash
        \<and> verify_ecdsa (ec_of E) sighash (hc_counterparty_sig hc) (funding_pubkey cp)
        \<and> tx = (bct_tx (hc_built hc))\<lparr>tx_input := (tx_input (bct_tx (hc_built hc)))[0 := (tx_input (bct_tx (hc_built hc)) ! 0)\<lparr>witness :=
            funding_spend_witness (ec_of E) (funding_pubkey (ch_holder_pubkeys (ce_channel e))) (funding_pubkey cp)
              (sign_with_funding_key (ec_of E) (ch_signer (ce_channel e)) sighash) (hc_counterparty_sig hc)\<rparr>]\<rparr>
        \<and> force_close E i reason n' = (Inr (), n'\<lparr>nd_outputs := nd_outputs n' @
            [Broadcast tx, OutEvent (ChannelClosed i reason (Some (tx_txid tx)))]\<rparr>))"
proof -
  have "sessions E n'" using assms(2,1) by (rule enforce.keep_run)
  then have ses: "sess (ec_of E) (ce_channel e)" using assms(3) by (rule enforce.found_ok)
  obtain cp sighash tx where cp: "counterparty (ce_channel e) = Inr cp" "funding_sighash (ce_channel e) (bct_tx (hc_built hc)) = Inr sighash"
    "verify_ecdsa (ec_of E) sighash (hc_counterparty_sig hc) (funding_pubkey cp)"
    "tx = (bct_tx (hc_built hc))\<lparr>tx_input := (tx_input (bct_tx (hc_built hc)))[0 := (tx_input (bct_tx (hc_built hc)) ! 0)\<lparr>witness :=
        funding_spend_witness (ec_of E) (funding_pubkey (ch_holder_pubkeys (ce_channel e))) (funding_pubkey cp)
          (sign_with_funding_key (ec_of E) (ch_signer (ce_channel e)) sighash) (hc_counterparty_sig hc)\<rparr>]\<rparr>"
    and tx: "signed_holder_commitment_tx (ec_of E) (ce_channel e) = Inr tx"
    by (rule sess_publishes [OF ses assms(4)])
  have "force_close E i reason n' = (Inr (), n'\<lparr>nd_outputs := nd_outputs n' @ [Broadcast tx, OutEvent (ChannelClosed i reason (Some (tx_txid tx)))]\<rparr>)"
    using assms(3) tx by (simp add: force_close_def entry_at_def nbind_def asks_def need_def lift_def emit_def modify_def)
  moreover have "hc_number hc = ch_holder_commitment_number (ce_channel e)" using ses assms(4) by (simp add: sess_def)
  ultimately show ?thesis using cp by blast
qed

theorem node_always_enforceable_witness:
  "\<exists>hc tx. ch_current_holder_commitment sample_paying = Some hc
    \<and> force_close toy_secp [7] [] (best_block_updated 101 toy_node)
        = (Inr (), (best_block_updated 101 toy_node)\<lparr>nd_outputs := [Broadcast tx, OutEvent (ChannelClosed [7] [] (Some (tx_txid tx)))]\<rparr>)"
proof -
  obtain hc where hc: "ch_current_holder_commitment sample_paying = Some hc" using sample_holder_commitment by metis
  have ses: "sessions toy_secp toy_node" using reachable_sess [OF sample_reachable(2)] by (simp add: sessions_def toy_node_def new_entry_def)
  have "(node_step toy_secp)\<^sup>*\<^sup>* toy_node (best_block_updated 101 toy_node)" by (rule r_into_rtranclp) (rule node_step.intros)
  from node_always_enforceable [OF ses this, of "[7]" "new_entry sample_paying [20]" hc "[]"] hc show ?thesis
    by (auto simp: toy_node_def best_block_updated_def new_entry_def)
qed

text \<open>C13: A claim always has the preimage. In every run from a node whose invoices are filed under the hash of their preimage
  and whose claimable payments have an invoice (a new node has neither), \<^verbatim>\<open>claim_payment\<close> of a claimable payment
  finds a preimage of that very hash, hands it to the channel of the HTLC, and reports the payment claimed once that has
  been sent.\<close>

theorem claim_reveals_preimage:
  assumes "invoices_ok n" and "(node_step E)\<^sup>*\<^sup>* n n'" and "map_of (nd_claimable n') h = Some (channel_id, htlc_id, amt)"
  shows "\<exists>p. payment_hash p = h \<and> claim_payment E h n' =
    nbind (settle_htlc E M_UpdateFulfillHtlc channel_id (send_fulfill_htlc htlc_id p)) (\<lambda>_. emit (OutEvent (PaymentClaimed h amt)))
      (n'\<lparr>nd_claimable := AList.delete h (nd_claimable n')\<rparr>)"
proof -
  have inv: "invoices_ok n'" using assms(2,1) by (rule claims.keep_run)
  then have "h \<in> fst ` set (nd_invoices n')" using assms(3) by (auto simp: invoices_ok_def list_all_iff dest!: map_of_SomeD)
  then obtain i where i: "map_of (nd_invoices n') h = Some i" by (metis map_of_eq_None_iff not_None_eq)
  then have "payment_hash (ie_preimage i) = h" using inv by (auto simp: invoices_ok_def list_all_iff dest!: map_of_SomeD)
  then show ?thesis using i assms(3)
    by (intro exI [of _ "ie_preimage i"]) (simp add: claim_payment_def nbind_def asks_def need_def modify_def)
qed

theorem claim_reveals_preimage_witness:
  "\<exists>p. payment_hash p = payment_hash (replicate 32 3) \<and> claim_payment toy_secp (payment_hash (replicate 32 3)) toy_node =
    nbind (settle_htlc toy_secp M_UpdateFulfillHtlc [7] (send_fulfill_htlc 0 p)) (\<lambda>_. emit (OutEvent (PaymentClaimed (payment_hash (replicate 32 3)) 5000)))
      (toy_node\<lparr>nd_claimable := []\<rparr>)"
proof -
  have ok: "invoices_ok toy_node" by (simp add: invoices_ok_def toy_node_def toy_invoice_def)
  show ?thesis using claim_reveals_preimage [OF ok rtranclp.rtrancl_refl, of "payment_hash (replicate 32 3)" "[7]" 0 5000 toy_secp]
    by (simp add: toy_node_def)
qed

text \<open>C8: A force-closed channel goes on revoking. \<^verbatim>\<open>force_close\<close> broadcasts the current commitment but leaves the channel as it is.
  When the counterparty then signs a further commitment that the channel accepts, the node answers with the secret of exactly
  the commitment it has broadcast, with which the counterparty can take all of our balance in it as a penalty.\<close>

theorem closed_channel_still_revokes:
  assumes "sessions E n" and "map_of (nd_channels n) i = Some e" and "ch_current_holder_commitment (ce_channel e) = Some hc"
    and "map_of (nd_by_node_id n) (ce_node_id e) = Some p"
    and "csg_channel_id cs = i" and "on_commitment_signed (ec_of E) cs (ce_channel e) = (Inr raa, c')"
  shows "\<exists>tx n1. force_close E i reason n = (Inr (), n1)
    \<and> nd_outputs n1 = nd_outputs n @ [Broadcast tx, OutEvent (ChannelClosed i reason (Some (tx_txid tx)))]
    \<and> tx_output tx = tx_output (bct_tx (hc_built hc))
    \<and> handle_message E p (M_CommitmentSigned cs) n1 =
        nbind (send_to_node (ce_node_id e) (M_RevokeAndAck raa)) (\<lambda>_. nbind (flush_commitment E i) (\<lambda>_. try_start_closing E i))
          (n1\<lparr>nd_channels := AList.map_entry i (\<lambda>e. e\<lparr>ce_channel := c'\<rparr>) (nd_channels n1)\<rparr>)
    \<and> raa_per_commitment_secret raa = release_commitment_secret (ch_signer (ce_channel e)) (hc_number hc)"
proof -
  have ses: "sess (ec_of E) (ce_channel e)" using assms(1,2) by (rule enforce.found_ok)
  have "\<exists>tx. signed_holder_commitment_tx (ec_of E) (ce_channel e) = Inr tx \<and> tx_output tx = tx_output (bct_tx (hc_built hc))"
    by (rule sess_publishes [OF ses assms(3)]) (intro exI conjI, assumption, simp)
  then obtain tx where tx: "tx_output tx = tx_output (bct_tx (hc_built hc))" "signed_holder_commitment_tx (ec_of E) (ce_channel e) = Inr tx" by blast
  let ?n1 = "n\<lparr>nd_outputs := nd_outputs n @ [Broadcast tx, OutEvent (ChannelClosed i reason (Some (tx_txid tx)))]\<rparr>"
  have close: "force_close E i reason n = (Inr (), ?n1)"
    using assms(2) tx(2) by (simp add: force_close_def entry_at_def nbind_def asks_def need_def lift_def emit_def modify_def)
  have "ch_signer (lock_in d) = ch_signer d" for d by (cases "ch_pending_fee_ack d"; auto simp: lock_in_def gc_htlcs_fold Let_def)
  then have "raa_per_commitment_secret raa = release_commitment_secret (ch_signer (ce_channel e)) (ch_holder_commitment_number (ce_channel e))"
    using assms(6) by (auto simp: on_commitment_signed_def try_in_def close_err_def Let_def split: sum.splits prod.splits if_splits)
  moreover have "hc_number hc = ch_holder_commitment_number (ce_channel e)" using ses assms(3) by (simp add: sess_def)
  moreover have "handle_message E p (M_CommitmentSigned cs) ?n1 =
        nbind (send_to_node (ce_node_id e) (M_RevokeAndAck raa)) (\<lambda>_. nbind (flush_commitment E i) (\<lambda>_. try_start_closing E i))
          (?n1\<lparr>nd_channels := AList.map_entry i (\<lambda>e. e\<lparr>ce_channel := c'\<rparr>) (nd_channels ?n1)\<rparr>)"
    using assms(2,4,5,6)
    by (simp add: handle_message_def handle_commitment_signed_def with_channel_def channel_run_def set_entry_def entry_at_def Let_def
        nbind_def [of "nbind _ _"] nbind_def [of "asks _"] nbind_def [of "with_channel _ _ _ _"] nbind_def [of "channel_run _ _ _"]
        nbind_def [of "modify _"] nbind_def [of "entry_at _ _"] asks_def need_def modify_def nret_def map_of_map_entry)
  ultimately show ?thesis using close tx(1) by (intro exI [of _ tx] exI [of _ ?n1]) simp
qed

theorem closed_channel_still_revokes_witness:
  "let n = toy_node\<lparr>nd_channels := [([], new_entry sample_ready [20])]\<rparr> in
   \<exists>tx n1 hc raa c'. force_close toy_secp [] [] n = (Inr (), n1) \<and> nd_outputs n1 = [Broadcast tx, OutEvent (ChannelClosed [] [] (Some (tx_txid tx)))]
    \<and> ch_current_holder_commitment sample_ready = Some hc \<and> on_commitment_signed toy_ec sample_commitment_sig sample_ready = (Inr raa, c')
    \<and> raa_per_commitment_secret raa = release_commitment_secret (ch_signer sample_ready) (hc_number hc)"
proof -
  obtain raa c' where ok: "on_commitment_signed toy_ec sample_commitment_sig sample_ready = (Inr raa, c')"
    using sample_commitment_accepted by blast
  have "\<exists>hc. ch_current_holder_commitment sample_ready = Some hc" using sample_ready_eq by (elim exE) (erule ssubst, simp)
  then obtain hc where hc: "ch_current_holder_commitment sample_ready = Some hc" ..
  let ?n = "toy_node\<lparr>nd_channels := [([], new_entry sample_ready [20])]\<rparr>"
  have ses: "sessions toy_secp ?n" using reachable_sess [OF sample_reachable(1)] by (simp add: sessions_def new_entry_def)
  have "csg_channel_id sample_commitment_sig = []" by (simp add: sample_commitment_sig_def)
  then show ?thesis
    using closed_channel_still_revokes [OF ses, of "[]" "new_entry sample_ready [20]" hc 1 sample_commitment_sig raa c' "[]"] ok hc
    by (auto simp: Let_def toy_node_def new_entry_def)
qed


end
