(* ===== verification/Spec2Isabelle.thy ===== *)
theory Spec2Isabelle
  imports Poly1305_Tag Crypto_Mac Shachain Wire_Roundtrip Commitment_Correct Channel_Props Channel_Closing Peer Onion_Payload Invoice Persist Node_Props Node_Inv
begin

text \<open>
  A verification development for keraunos, a Lightning Network node in Rust.

  \<^bold>\<open>Conventions.\<close> Integers are words of their Rust width and wrap as in a release build; byte
  strings are lists of 8-bit words; \<^verbatim>\<open>Result\<close> is a sum with the error on the left; a panic is
  a value of the error type, or \<open>None\<close>, where the code can reach one. A method that takes \<^verbatim>\<open>&mut self\<close> returns
  its result together with the new state. Hash maps are association lists, iterated in list order. The
  \<^verbatim>\<open>secp256k1\<close> crate is not part of the sources: its operations are records (\<^verbatim>\<open>Secp\<close>, \<^verbatim>\<open>EC\<close>, \<^verbatim>\<open>Curve\<close>,
  \<^verbatim>\<open>RecoverySecp\<close>, \<^verbatim>\<open>NodeSecp\<close>), arguments of the definitions that use them, and its laws are named
  hypotheses (\<^verbatim>\<open>ec_laws\<close>, \<^verbatim>\<open>curve_laws\<close>, \<^verbatim>\<open>sign_laws\<close>) of the properties that need them. The witnesses
  use one-dimensional stand-ins for the curve.

  \<^bold>\<open>The program.\<close> The node (\<^verbatim>\<open>node/\<close>) is a state machine without I/O: it decrypts what peers send
  (\<^verbatim>\<open>noise/\<close>), decodes the messages (\<^verbatim>\<open>wire/\<close>), runs them on the channel they name (\<^verbatim>\<open>channel/\<close>, which
  builds and signs commitment transactions with \<^verbatim>\<open>commitment/\<close>, \<^verbatim>\<open>keys.rs\<close>, \<^verbatim>\<open>sign/\<close> and \<^verbatim>\<open>bitcoin/\<close>), relays
  and pays along routes (\<^verbatim>\<open>graph/\<close>, \<^verbatim>\<open>router/\<close>, \<^verbatim>\<open>onion/\<close>, \<^verbatim>\<open>invoice/\<close>), and hands a monitor of each channel
  to the chain watcher (\<^verbatim>\<open>chain/\<close>).

  \<^bold>\<open>Cryptography\<close> (\<^verbatim>\<open>crypto/\<close>). \<^verbatim>\<open>Prelude\<close> holds the byte, word and list lemmas and the
  locales \<^verbatim>\<open>codec\<close>, \<^verbatim>\<open>canonical_codec\<close> and \<^verbatim>\<open>absorber\<close>; \<^verbatim>\<open>Block_Hash\<close> the streaming hash as an
  interface. \<^verbatim>\<open>Crypto_Hash\<close>, \<^verbatim>\<open>Crypto_Mac\<close> and \<^verbatim>\<open>Crypto_Cipher\<close> model the hashes, HMAC and HKDF,
  ChaCha20, Poly1305 and the AEAD; \<^verbatim>\<open>Poly1305_Correct\<close> and \<^verbatim>\<open>Poly1305_Tag\<close> prove the limb
  arithmetic equal to the polynomial of RFC 8439.

  \<^bold>\<open>Secrets and keys\<close> (\<^verbatim>\<open>shachain.rs\<close>, \<^verbatim>\<open>keys.rs\<close>, \<^verbatim>\<open>sign/\<close>). \<^verbatim>\<open>Shachain\<close> shows that the
  49-slot store refines the ideal store of all revealed secrets; \<^verbatim>\<open>Keys\<close> that derived private keys
  are the secrets of the derived public keys; \<^verbatim>\<open>Keys_Manager\<close> is the seed-based key manager, with the
  exact condition under which its search for a key ends. \<^verbatim>\<open>Curve_Ops\<close> adds Diffie-Hellman and the checked
  tweaks to the curve interface.

  \<^bold>\<open>Wire and Bitcoin formats\<close> (\<^verbatim>\<open>wire/\<close>, \<^verbatim>\<open>bitcoin/\<close>, \<^verbatim>\<open>types.rs\<close>). \<^verbatim>\<open>Types\<close>, \<^verbatim>\<open>Wire_Ser\<close>,
  \<^verbatim>\<open>Features\<close>, \<^verbatim>\<open>Wire_Msgs\<close>, \<^verbatim>\<open>Bitcoin_Encode\<close>, \<^verbatim>\<open>Bitcoin_Tx\<close> and \<^verbatim>\<open>Bitcoin_Script\<close> model every
  reader and writer; \<^verbatim>\<open>Wire_Roundtrip\<close> composes the codecs into the round trip of all messages.

  \<^bold>\<open>Commitment transactions\<close> (\<^verbatim>\<open>commitment/\<close>). \<^verbatim>\<open>Commitment\<close> models scripts, fees, trimming and
  ordering, \<^verbatim>\<open>Commitment_Correct\<close> proves the index bookkeeping and that no money is created.

  \<^bold>\<open>The channel\<close> (\<^verbatim>\<open>channel/\<close>). \<^verbatim>\<open>Channel\<close>, \<^verbatim>\<open>Channel_Dance\<close>, \<^verbatim>\<open>Channel_Close\<close> and
  \<^verbatim>\<open>Channel_Reestablish\<close> are the four source files. \<^verbatim>\<open>Ledger\<close> is the abstract specification of the
  channel's money, \<^verbatim>\<open>Channel_Ledger\<close> the abstraction function, \<^verbatim>\<open>Channel_Inv\<close> the invariant and its
  preservation operation by operation, \<^verbatim>\<open>Channel_Safety\<close> the step relation and reachability,
  \<^verbatim>\<open>Channel_Auth\<close> and \<^verbatim>\<open>Channel_History\<close> signatures, secrets and panics, \<^verbatim>\<open>Channel_Sample\<close> a concrete
  channel for the witnesses, \<^verbatim>\<open>Channel_Props\<close> and \<^verbatim>\<open>Channel_Closing\<close> the properties. Their range is
  \<^verbatim>\<open>in_range\<close>: reserves below \<open>2\<^sup>5\<^sup>1\<close> satoshi, fewer than \<open>2\<^sup>2\<^sup>0\<close> HTLCs, HTLC amounts below
  \<open>2\<^sup>6\<^sup>2\<close> millisatoshi, commitment numbers below \<open>2\<^sup>4\<^sup>8\<close>; all are far above what exists.

  \<^bold>\<open>Transport\<close> (\<^verbatim>\<open>noise/\<close>, \<^verbatim>\<open>node/peer.rs\<close>). \<^verbatim>\<open>Noise\<close> models both sides of the handshake and the framed
  cipher with its key rotation, \<^verbatim>\<open>Peer\<close> the connection that reads arbitrary pieces of the byte stream: the
  handshake completes between honest peers, messages arrive once and in order, and it does not matter where
  the stream is cut.

  \<^bold>\<open>Payments\<close> (\<^verbatim>\<open>onion/\<close>, \<^verbatim>\<open>graph/\<close>, \<^verbatim>\<open>router/\<close>, \<^verbatim>\<open>invoice/\<close>). \<^verbatim>\<open>Onion\<close> and \<^verbatim>\<open>Onion_Payload\<close>: a constructed
  onion delivers each hop its payload, and errors name the failing hop. \<^verbatim>\<open>Graph\<close>: the edges gossip can build are
  authentic. \<^verbatim>\<open>Router\<close>: the search ends, by a measure on the costs, and its routes can be paid hop by hop.
  \<^verbatim>\<open>Bech32\<close> and \<^verbatim>\<open>Invoice\<close>: invoices survive encoding.

  \<^bold>\<open>The chain\<close> (\<^verbatim>\<open>chain/\<close>). \<^verbatim>\<open>Monitor\<close>: a revoked commitment is recognized and punished. \<^verbatim>\<open>Persist\<close>: a stored
  monitor reads back as it was, with the locale \<^verbatim>\<open>stored\<close> for the field encodings.

  \<^bold>\<open>The node\<close> (\<^verbatim>\<open>node/mod.rs\<close>). \<^verbatim>\<open>Node_State\<close> has the state, sending, connections and channel access,
  \<^verbatim>\<open>Node_Channels\<close> the life of channels and their announcement, \<^verbatim>\<open>Node_Payments\<close> invoices, paying, forwarding and
  settlement, \<^verbatim>\<open>Node\<close> the dispatch of messages and socket bytes. \<^verbatim>\<open>Node_Logic\<close> is a program logic for these
  operations: its locale \<^verbatim>\<open>node_keeper\<close> says what an invariant must withstand where the node writes its channels,
  invoices and claimable payments, and shows that then every operation and every run keeps it. \<^verbatim>\<open>Node_Inv\<close>
  interprets it twice, for the channels' session invariant and for the preimages of claimable payments;
  \<^verbatim>\<open>Node_Props\<close> has the conditions for accepting, forwarding and refusing, \<^verbatim>\<open>Node_Sample\<close> a concrete node.

  \<^bold>\<open>Not modelled\<close>: logging, the \<^verbatim>\<open>Display\<close> and \<^verbatim>\<open>Debug\<close> formatting that no message carries, the operating
  system's entropy source, generic trait definitions (the crate's own implementations stand for the type
  parameters), and test helpers. The channels' money properties speak of connected channels in range; the
  node's runs, which also disconnect and accept any amounts, carry the session invariant only.
\<close>

end
